(* ===== verification/Prelude.thy ===== *)
theory Prelude imports Main "HOL-Library.Word" begin

text \<open>
  What the components share: the result type that stands for Go's \<open>(value, error)\<close> pairs, checked
  reads of Go slices (an out-of-range index or slice expression is a value of the model, not an
  unspecified element), byte orders, and the generic lemmas the component proofs lean on.

  \<^item> \<open>failure\<close> is what an operation can end with instead of a value: \<open>Fault\<close> is a Go run-time
    panic (index or slice bounds out of range), \<open>Fail e\<close> a returned error \<open>e\<close>.
  \<^item> Go's \<open>[]byte\<close> is \<open>bytes\<close>, a list of 8-bit words; a Go \<open>string\<close> is Isabelle's \<open>string\<close>, whose
    characters are bytes too, and \<open>to_bytes\<close> and \<open>of_bytes\<close> are the conversions \<open>[]byte(s)\<close> and
    \<open>string(b)\<close>.
  \<^item> \<open>int\<close> values that count or index bytes and are never negative are \<open>nat\<close>.
\<close>

unbundle bit_operations_syntax

named_theorems result_simps \<open>how results are sequenced\<close>
named_theorems bytes_simps \<open>lengths and contents of encoded byte strings\<close>

type_synonym byte = "8 word"
type_synonym bytes = "byte list"
type_synonym u8 = "8 word"
type_synonym u16 = "16 word"
type_synonym u32 = "32 word"
type_synonym u64 = "64 word"


section \<open>Errors and results\<close>

text \<open>
  The sentinel errors of the packages. \<open>fmt.Errorf("%w: text", ErrX)\<close> is represented by the
  sentinel it wraps, which is what \<open>errors.Is\<close> sees; the text is not modelled. \<open>ForeignError n\<close>
  is an error value made outside the repository (a system call's errno, a callback's error).
\<close>

datatype sentinel =
    ErrInvalid | ErrTruncated | ErrUnsupported | ErrLimit | ErrUnknownID | ErrIncomparableClocks
  | ErrInvalidName | ErrInvalidLevel | ErrInvalidValue | ErrState | ErrCountTooLarge
  | ErrMetadataTooLarge | ErrEventTooLarge | ErrNestingTooDeep | ErrTooManyFields
  | ErrStructArrayUnsupported
  | UeErrUnsupported | ErrClosed | ErrDisabled | ErrInvalidArgument
  | ErrNeedReaderAt | ErrUnsupportedCompression
  | IoEOF | IoErrUnexpectedEOF | IoErrShortWrite | ForeignError nat

text \<open>
  \<open>DecodeError\<close> is \<open>tracepoint.DecodeError\<close>: a byte offset and a stage around an error,
  \<open>PerfError\<close> is \<open>perfdata.DecodeError\<close>, \<open>ParseError\<close> is \<open>tracefs.ParseError\<close> and
  \<open>Joined\<close> is \<open>errors.Join\<close>.
\<close>

datatype goerr =
    Err sentinel
  | DecodeError (de_offset: int) (de_stage: string) (de_err: goerr)
  | PerfError (pe_offset: int) (pe_index: u64) (pe_stage: string) (pe_err: goerr)
  | ParseError (pa_line: nat) (pa_column: nat) (pa_err: goerr)
  | Joined "goerr list"

fun errors_is :: "goerr \<Rightarrow> sentinel \<Rightarrow> bool" where
  "errors_is (Err s) t \<longleftrightarrow> s = t"
| "errors_is (DecodeError _ _ e) t \<longleftrightarrow> errors_is e t"
| "errors_is (PerfError _ _ _ e) t \<longleftrightarrow> errors_is e t"
| "errors_is (ParseError _ _ e) t \<longleftrightarrow> errors_is e t"
| "errors_is (Joined es) t \<longleftrightarrow> (\<exists>e\<in>set es. errors_is e t)"

datatype failure = Fault | Fail goerr

type_synonym 'a result = "failure + 'a"

abbreviation fail :: "sentinel \<Rightarrow> 'a result" where
  "fail s \<equiv> Inl (Fail (Err s))"

text \<open>\<open>bindR m f\<close> is \<open>if err != nil { return err }\<close>: the first failure ends the sequence.\<close>

definition bindR :: "'e + 'a \<Rightarrow> ('a \<Rightarrow> 'e + 'b) \<Rightarrow> 'e + 'b" where
  "bindR m f = (case m of Inl e \<Rightarrow> Inl e | Inr x \<Rightarrow> f x)"

lemma bindR_Inl [simp, result_simps]: "bindR (Inl e) f = Inl e"
  by (simp add: bindR_def)

lemma bindR_Inr [simp, result_simps]: "bindR (Inr x) f = f x"
  by (simp add: bindR_def)

lemma bindR_eq_Inr [result_simps]: "bindR m f = Inr y \<longleftrightarrow> (\<exists>x. m = Inr x \<and> f x = Inr y)"
  by (cases m) auto

lemma bindR_eq_Inl [result_simps]:
  "bindR m f = Inl e \<longleftrightarrow> m = Inl e \<or> (\<exists>x. m = Inr x \<and> f x = Inl e)"
  by (cases m) auto

lemma bindR_cong [fundef_cong]:
  "m = m' \<Longrightarrow> (\<And>x. m' = Inr x \<Longrightarrow> f x = f' x) \<Longrightarrow> bindR m f = bindR m' f'"
  by (cases m') auto

lemma bindR_split: "P (bindR m f) \<longleftrightarrow> (\<forall>e. m = Inl e \<longrightarrow> P (Inl e)) \<and> (\<forall>x. m = Inr x \<longrightarrow> P (f x))"
  by (cases m) auto

text \<open>\<open>guardR c e\<close> is \<open>if !c { return e }\<close>.\<close>

definition guardR :: "bool \<Rightarrow> 'e \<Rightarrow> 'e + unit" where
  "guardR c e = (if c then Inr () else Inl e)"

lemma guardR_Inr [simp, result_simps]: "guardR c e = Inr u \<longleftrightarrow> c"
  by (simp add: guardR_def)

lemma guardR_Inl [simp, result_simps]: "guardR c e = Inl e' \<longleftrightarrow> \<not> c \<and> e' = e"
  by (auto simp: guardR_def)

lemma guardR_True [simp]: "guardR True e = Inr ()"
  by (simp add: guardR_def)

lemma guardR_False [simp]: "guardR False e = Inl e"
  by (simp add: guardR_def)

text \<open>A computation is safe when it does not panic.\<close>

definition safe :: "'a result \<Rightarrow> bool" where
  "safe r \<longleftrightarrow> r \<noteq> Inl Fault"

lemma safe_Inr [simp, intro]: "safe (Inr x)"
  by (simp add: safe_def)

lemma safe_Fail [simp, intro]: "safe (Inl (Fail e))"
  by (simp add: safe_def)

lemma not_safe_Fault [simp]: "\<not> safe (Inl Fault)"
  by (simp add: safe_def)

lemma safe_bindR: "safe m \<Longrightarrow> (\<And>x. m = Inr x \<Longrightarrow> safe (f x)) \<Longrightarrow> safe (bindR m f)"
  by (cases m) (auto simp: safe_def)

lemma safe_guardR [simp, intro]: "safe (guardR c (Fail e))"
  by (simp add: guardR_def)

lemma safe_if: "(c \<Longrightarrow> safe a) \<Longrightarrow> (\<not> c \<Longrightarrow> safe b) \<Longrightarrow> safe (if c then a else b)"
  by simp

lemma safe_case_option: "(x = None \<Longrightarrow> safe a) \<Longrightarrow> (\<And>y. x = Some y \<Longrightarrow> safe (f y)) \<Longrightarrow> safe (case_option a f x)"
  by (cases x) auto

lemma safe_case_prod: "(\<And>a b. p = (a, b) \<Longrightarrow> safe (f a b)) \<Longrightarrow> safe (case_prod f p)"
  by (cases p) auto

lemmas safe_rules = safe_if safe_case_option safe_case_prod safe_bindR safe_Inr safe_Fail

text \<open>\<open>returns P r\<close>: if the computation returns a value, the value satisfies \<open>P\<close>.\<close>

definition returns :: "('a \<Rightarrow> bool) \<Rightarrow> 'e + 'a \<Rightarrow> bool" where
  "returns P r \<longleftrightarrow> (\<forall>x. r = Inr x \<longrightarrow> P x)"

lemma returnsI: "(\<And>x. r = Inr x \<Longrightarrow> P x) \<Longrightarrow> returns P r"
  by (simp add: returns_def)

lemma returnsD: "returns P r \<Longrightarrow> r = Inr x \<Longrightarrow> P x"
  by (simp add: returns_def)

lemma returns_Inr: "P x \<Longrightarrow> returns P (Inr x)"
  by (simp add: returns_def)

lemma returns_Inl: "returns P (Inl e)"
  by (simp add: returns_def)

lemma returns_bindR: "(\<And>x. m = Inr x \<Longrightarrow> returns P (f x)) \<Longrightarrow> returns P (bindR m f)"
  by (cases m) (auto simp: returns_def)

lemma returns_if: "(c \<Longrightarrow> returns P a) \<Longrightarrow> (\<not> c \<Longrightarrow> returns P b) \<Longrightarrow> returns P (if c then a else b)"
  by simp

lemma returns_case_option:
  "(x = None \<Longrightarrow> returns P a) \<Longrightarrow> (\<And>y. x = Some y \<Longrightarrow> returns P (f y)) \<Longrightarrow> returns P (case_option a f x)"
  by (cases x) auto

lemma returns_case_prod: "(\<And>a b. p = (a, b) \<Longrightarrow> returns P (f a b)) \<Longrightarrow> returns P (case_prod f p)"
  by (cases p) auto

lemmas returns_rules =
  returns_if returns_case_option returns_case_prod returns_bindR returns_Inr returns_Inl

text \<open>A loop that fills a slice with fallible reads.\<close>

fun mapR :: "('a \<Rightarrow> 'e + 'b) \<Rightarrow> 'a list \<Rightarrow> 'e + 'b list" where
  "mapR f [] = Inr []"
| "mapR f (x # xs) = bindR (f x) (\<lambda>y. bindR (mapR f xs) (\<lambda>ys. Inr (y # ys)))"

lemma safe_mapR: "(\<And>x. x \<in> set xs \<Longrightarrow> safe (f x)) \<Longrightarrow> safe (mapR f xs)"
  by (induction xs) (auto intro!: safe_bindR)

lemma mapR_cong [fundef_cong]: "xs = ys \<Longrightarrow> (\<And>x. x \<in> set ys \<Longrightarrow> f x = g x) \<Longrightarrow> mapR f xs = mapR g ys"
  by (induction xs arbitrary: ys) auto

lemma mapR_Inr: "(\<And>x. x \<in> set xs \<Longrightarrow> f x = Inr (g x)) \<Longrightarrow> mapR f xs = Inr (map g xs)"
  by (induction xs) auto

lemma length_concat_const: "(\<And>x. x \<in> set xs \<Longrightarrow> length (f x) = k) \<Longrightarrow> length (concat (map f xs)) = length xs * k"
  by (induction xs) auto


section \<open>Go strings and slices\<close>

lemma unat_lt_pow: "unat (w :: 'a::len word) < 2 ^ LENGTH('a)"
  by (rule unsigned_less)

definition to_bytes :: "string \<Rightarrow> bytes" where
  "to_bytes s = map of_char s"

definition of_bytes :: "bytes \<Rightarrow> string" where
  "of_bytes bs = map (\<lambda>b. char_of (unat b)) bs"

lemma length_to_bytes [simp]: "length (to_bytes s) = length s"
  by (simp add: to_bytes_def)

lemma length_of_bytes [simp]: "length (of_bytes bs) = length bs"
  by (simp add: of_bytes_def)

lemma of_char_char_of_byte: "of_char (char_of (unat (b :: byte))) = b"
proof -
  have "unat b mod 256 = unat b" using unat_lt_pow [of b] by simp
  then have "(of_nat (of_char (char_of (unat b))) :: byte) = b"
    by (simp del: of_nat_of_char)
  then show ?thesis by (simp only: of_nat_of_char)
qed

lemma char_of_unat_of_char: "char_of (unat (of_char c :: byte)) = c"
proof -
  have "unat (of_nat (of_char c) :: byte) = (of_char c :: nat)"
    by (simp only: unat_of_nat take_bit_eq_mod) (simp add: of_char_mod_256)
  then have "unat (of_char c :: byte) = (of_char c :: nat)" by (simp only: of_nat_of_char)
  then show ?thesis by simp
qed

lemma of_bytes_to_bytes [simp]: "of_bytes (to_bytes s) = s"
  by (simp add: to_bytes_def of_bytes_def comp_def char_of_unat_of_char)

lemma to_bytes_of_bytes [simp]: "to_bytes (of_bytes bs) = bs"
  by (induction bs) (simp_all add: to_bytes_def of_bytes_def of_char_char_of_byte)

lemma to_bytes_append [simp]: "to_bytes (s @ t) = to_bytes s @ to_bytes t"
  by (simp add: to_bytes_def)

lemma to_bytes_Nil [simp]: "to_bytes [] = []"
  by (simp add: to_bytes_def)

lemma to_bytes_eq_Nil [simp]: "to_bytes s = [] \<longleftrightarrow> s = []"
  by (simp add: to_bytes_def)

text \<open>
  \<open>index xs i\<close> is Go's \<open>xs[i]\<close>, \<open>slice xs i j\<close> is \<open>xs[i:j]\<close> and \<open>slice_from xs i\<close> is \<open>xs[i:]\<close>.
  (For a slice with spare capacity Go lets \<open>j\<close> go up to the capacity; here a bound beyond the
  length is a fault, so a proof that no fault happens covers Go's rule as well.)
\<close>

definition index :: "'a list \<Rightarrow> nat \<Rightarrow> 'a result" where
  "index xs i = (if i < length xs then Inr (xs ! i) else Inl Fault)"

definition slice :: "'a list \<Rightarrow> nat \<Rightarrow> nat \<Rightarrow> 'a list result" where
  "slice xs i j = (if i \<le> j \<and> j \<le> length xs then Inr (take (j - i) (drop i xs)) else Inl Fault)"

definition slice_from :: "'a list \<Rightarrow> nat \<Rightarrow> 'a list result" where
  "slice_from xs i = slice xs i (length xs)"

lemma index_Inr [result_simps]: "index xs i = Inr x \<longleftrightarrow> i < length xs \<and> x = xs ! i"
  by (auto simp: index_def)

lemma slice_Inr [result_simps]:
  "slice xs i j = Inr ys \<longleftrightarrow> i \<le> j \<and> j \<le> length xs \<and> ys = take (j - i) (drop i xs)"
  by (auto simp: slice_def)

lemma slice_from_Inr [result_simps]: "slice_from xs i = Inr ys \<longleftrightarrow> i \<le> length xs \<and> ys = drop i xs"
  by (auto simp: slice_from_def slice_Inr)

lemma index_in: "i < length xs \<Longrightarrow> index xs i = Inr (xs ! i)"
  by (simp add: index_def)

lemma slice_in: "i \<le> j \<Longrightarrow> j \<le> length xs \<Longrightarrow> slice xs i j = Inr (take (j - i) (drop i xs))"
  by (simp add: slice_def)

lemma slice_from_in: "i \<le> length xs \<Longrightarrow> slice_from xs i = Inr (drop i xs)"
  by (simp add: slice_from_def slice_def)

lemma safe_index [intro]: "i < length xs \<Longrightarrow> safe (index xs i)"
  by (simp add: index_def)

lemma safe_slice [intro]: "i \<le> j \<Longrightarrow> j \<le> length xs \<Longrightarrow> safe (slice xs i j)"
  by (simp add: slice_def)

lemma safe_slice_from [intro]: "i \<le> length xs \<Longrightarrow> safe (slice_from xs i)"
  by (simp add: slice_from_in)

text \<open>Reading at the end of a known prefix.\<close>

lemma index_append_length [simp]: "index (xs @ y # ys) (length xs) = Inr y"
  by (simp add: index_def)

lemma slice_append_length: "n = length xs \<Longrightarrow> m = n + length ys \<Longrightarrow> slice (xs @ ys @ zs) n m = Inr ys"
  by (simp add: slice_def)

lemma slice_from_append_length [simp]: "slice_from (xs @ ys) (length xs) = Inr ys"
  by (simp add: slice_from_def slice_def)

text \<open>\<open>bytes.IndexByte\<close> and the decoder's own loops: the first position of a byte.\<close>

fun byteIndex :: "'a list \<Rightarrow> 'a \<Rightarrow> nat option" where
  "byteIndex [] v = None"
| "byteIndex (b # bs) v = (if b = v then Some 0 else map_option Suc (byteIndex bs v))"

lemma byteIndex_bound: "byteIndex bs v = Some i \<Longrightarrow> i < length bs"
  by (induction bs arbitrary: i) (auto split: if_splits)

lemma byteIndex_append: "v \<notin> set xs \<Longrightarrow> byteIndex (xs @ v # ys) v = Some (length xs)"
  by (induction xs) auto

lemma byteIndex_None: "byteIndex bs v = None \<longleftrightarrow> v \<notin> set bs"
  by (induction bs) auto

lemma byteIndex_take: "byteIndex bs v = Some i \<Longrightarrow> v \<notin> set (take i bs) \<and> bs ! i = v"
  by (induction bs arbitrary: i) (auto split: if_splits simp: nth_Cons')

lemma byteIndex_split: "byteIndex bs v = Some i \<Longrightarrow> bs = take i bs @ v # drop (Suc i) bs"
  using byteIndex_bound byteIndex_take id_take_nth_drop by metis


section \<open>Byte orders\<close>

text \<open>
  \<open>encoding/binary\<close>'s \<open>ByteOrder\<close> is an interface with a little- and a big-endian implementation.
  The locale states the laws the code relies on; both implementations are interpreted below and
  every codec of the development goes through it.
\<close>

locale byte_order =
  fixes put :: "nat \<Rightarrow> nat \<Rightarrow> bytes"
    and get :: "bytes \<Rightarrow> nat"
  assumes length_put: "length (put n v) = n"
    and get_put: "v < 256 ^ n \<Longrightarrow> get (put n v) = v"
    and put_get: "put (length bs) (get bs) = bs"
    and get_bound: "get bs < 256 ^ length bs"
begin

lemma put_inj: "v < 256 ^ n \<Longrightarrow> w < 256 ^ n \<Longrightarrow> put n v = put n w \<Longrightarrow> v = w"
  using get_put by metis

lemma get_inj: "length as = length bs \<Longrightarrow> get as = get bs \<Longrightarrow> as = bs"
  using put_get by metis

lemma get_prefix: "v < 256 ^ n \<Longrightarrow> get (take n (put n v @ rest)) = v"
  by (simp add: length_put get_put)

end

fun le_put :: "nat \<Rightarrow> nat \<Rightarrow> bytes" where
  "le_put 0 v = []"
| "le_put (Suc n) v = of_nat (v mod 256) # le_put n (v div 256)"

fun le_get :: "bytes \<Rightarrow> nat" where
  "le_get [] = 0"
| "le_get (b # bs) = unat b + 256 * le_get bs"

definition be_put :: "nat \<Rightarrow> nat \<Rightarrow> bytes" where
  "be_put n v = rev (le_put n v)"

definition be_get :: "bytes \<Rightarrow> nat" where
  "be_get bs = le_get (rev bs)"

lemma unat_of_nat_byte [simp]: "unat (of_nat (v mod 256) :: byte) = v mod 256"
  by (simp add: unat_of_nat take_bit_eq_mod)

lemma byte_lt_256 [simp]: "unat (b :: byte) < 256"
  using unat_lt_pow [of b] by simp

lemma length_le_put [simp]: "length (le_put n v) = n"
  by (induction n v rule: le_put.induct) auto

lemma le_get_put: "v < 256 ^ n \<Longrightarrow> le_get (le_put n v) = v"
proof (induction n v rule: le_put.induct)
  case (2 n v)
  then have "v div 256 < 256 ^ n"
    by (simp add: div_less_iff_less_mult mult.commute)
  with 2 show ?case by simp
qed simp

lemma le_put_get: "le_put (length bs) (le_get bs) = bs"
  by (induction bs) (simp_all add: mod_less)

lemma le_get_bound: "le_get bs < 256 ^ length bs"
proof (induction bs)
  case (Cons b bs)
  have "unat b + 256 * le_get bs < 256 + 256 * le_get bs" by simp
  also have "\<dots> \<le> 256 * 256 ^ length bs" using Cons by simp
  finally show ?case by simp
qed simp

interpretation le: byte_order le_put le_get
  by unfold_locales (simp_all add: le_get_put le_put_get le_get_bound)

lemma be_get_bound: "be_get bs < 256 ^ length bs"
  using le_get_bound [of "rev bs"] by (simp add: be_get_def)

lemma be_put_get: "be_put (length bs) (be_get bs) = bs"
  using le_put_get [of "rev bs"] by (simp add: be_put_def be_get_def)

interpretation be: byte_order be_put be_get
  by unfold_locales (simp_all add: be_put_get be_get_bound, simp_all add: be_put_def be_get_def le_get_put)

datatype endian = LittleEndian | BigEndian

definition order_put :: "endian \<Rightarrow> nat \<Rightarrow> nat \<Rightarrow> bytes" where
  "order_put e = (case e of LittleEndian \<Rightarrow> le_put | BigEndian \<Rightarrow> be_put)"

definition order_get :: "endian \<Rightarrow> bytes \<Rightarrow> nat" where
  "order_get e = (case e of LittleEndian \<Rightarrow> le_get | BigEndian \<Rightarrow> be_get)"

interpretation order: byte_order "order_put e" "order_get e" for e
  by (cases e) (simp_all add: order_put_def order_get_def le.byte_order_axioms be.byte_order_axioms)

declare order.length_put [simp, bytes_simps]
declare order.get_put [simp, bytes_simps]

text \<open>
  \<open>PutUint16\<close>, \<open>PutUint32\<close>, \<open>PutUint64\<close> as the bytes they store, and the checked reads
  \<open>order.Uint16(b)\<close> and so on, which panic on a slice that is too short.
\<close>

definition put16 :: "endian \<Rightarrow> u16 \<Rightarrow> bytes" where
  "put16 e w = order_put e 2 (unat w)"

definition put32 :: "endian \<Rightarrow> u32 \<Rightarrow> bytes" where
  "put32 e w = order_put e 4 (unat w)"

definition put64 :: "endian \<Rightarrow> u64 \<Rightarrow> bytes" where
  "put64 e w = order_put e 8 (unat w)"

definition get16 :: "endian \<Rightarrow> bytes \<Rightarrow> u16 result" where
  "get16 e bs = (if 2 \<le> length bs then Inr (of_nat (order_get e (take 2 bs))) else Inl Fault)"

definition get32 :: "endian \<Rightarrow> bytes \<Rightarrow> u32 result" where
  "get32 e bs = (if 4 \<le> length bs then Inr (of_nat (order_get e (take 4 bs))) else Inl Fault)"

definition get64 :: "endian \<Rightarrow> bytes \<Rightarrow> u64 result" where
  "get64 e bs = (if 8 \<le> length bs then Inr (of_nat (order_get e (take 8 bs))) else Inl Fault)"

lemma unat_bounds:
  "unat (a :: u16) < 256 ^ 2" "unat (b :: u32) < 256 ^ 4" "unat (c :: u64) < 256 ^ 8"
  using unat_lt_pow [of a] unat_lt_pow [of b] unat_lt_pow [of c] by simp_all

lemma length_put16 [simp, bytes_simps]: "length (put16 e w) = 2"
  by (simp add: put16_def)

lemma length_put32 [simp, bytes_simps]: "length (put32 e w) = 4"
  by (simp add: put32_def)

lemma length_put64 [simp, bytes_simps]: "length (put64 e w) = 8"
  by (simp add: put64_def)

lemma put16_not_Nil [simp]: "put16 e w \<noteq> []"
  using length_put16 [of e w] by (metis list.size(3) zero_neq_numeral)

lemma get16_put16 [simp, bytes_simps]: "get16 e (put16 e w @ rest) = Inr w"
  using unat_bounds(1) [of w] by (simp add: get16_def put16_def)

lemma get32_put32 [simp, bytes_simps]: "get32 e (put32 e w @ rest) = Inr w"
  using unat_bounds(2) [of w] by (simp add: get32_def put32_def)

lemma get64_put64 [simp, bytes_simps]: "get64 e (put64 e w @ rest) = Inr w"
  using unat_bounds(3) [of w] by (simp add: get64_def put64_def)

lemmas get16_put16_exact [simp] = get16_put16 [of e w "[]" for e w, simplified]
lemmas get32_put32_exact [simp] = get32_put32 [of e w "[]" for e w, simplified]
lemmas get64_put64_exact [simp] = get64_put64 [of e w "[]" for e w, simplified]

text \<open>The bytes a 16-bit number is stored as, for evaluating closed examples.\<close>

lemma put16_bytes:
  "put16 LittleEndian w = [of_nat (unat w mod 256), of_nat (unat w div 256 mod 256)]"
  "put16 BigEndian w = [of_nat (unat w div 256 mod 256), of_nat (unat w mod 256)]"
  by (simp_all add: put16_def order_put_def be_put_def numeral_2_eq_2)

lemma safe_get16 [intro]: "2 \<le> length bs \<Longrightarrow> safe (get16 e bs)"
  by (simp add: get16_def)

lemma safe_get32 [intro]: "4 \<le> length bs \<Longrightarrow> safe (get32 e bs)"
  by (simp add: get32_def)

lemma safe_get64 [intro]: "8 \<le> length bs \<Longrightarrow> safe (get64 e bs)"
  by (simp add: get64_def)

lemma put16_get16: "get16 e bs = Inr w \<Longrightarrow> put16 e w = take 2 bs"
proof -
  assume a: "get16 e bs = Inr w"
  then have l: "length (take 2 bs) = 2" by (auto simp: get16_def split: if_splits)
  have "order_get e (take 2 bs) < 2 ^ 16"
    using order.get_bound [of e "take 2 bs"] l by simp
  with a have "unat w = order_get e (take 2 bs)"
    by (auto simp: get16_def unat_of_nat take_bit_eq_mod split: if_splits)
  then show ?thesis
    using order.put_get [of e "take 2 bs"] l by (simp add: put16_def)
qed


section \<open>The host\<close>

text \<open>
  The producer writes in the byte order and with the pointer size of the machine it runs on
  (\<open>binary.NativeEndian\<close>, \<open>strconv.IntSize\<close>). Both are parameters of the model; the properties
  hold for every host. \<open>letter_rune\<close> and \<open>digit_rune\<close> are \<open>unicode.IsLetter\<close> and \<open>unicode.IsDigit\<close> of the
  Go release for code points beyond 255.
\<close>

record host =
  native :: endian
  int64 :: bool
  letter_rune :: "nat \<Rightarrow> bool"
  digit_rune :: "nat \<Rightarrow> bool"

end
