(* ===== verification/GoText.thy ===== *)
theory GoText imports Prelude "HOL-Library.Char_ord" begin

text \<open>
  What the source uses of Go's text libraries: \<open>utf8.Valid\<close> and \<open>utf8.ValidString\<close>,
  \<open>strings.ToValidUTF8\<close>, \<open>utf16.Decode\<close>, the conversion of runes to strings, \<open>strings.LastIndex\<close>,
  and \<open>strconv\<close>'s hexadecimal formatting and parsing. Everything works on bytes, as Go does.
\<close>


section \<open>UTF-8\<close>

definition is_cont :: "byte \<Rightarrow> bool" where
  "is_cont b \<longleftrightarrow> 0x80 \<le> b \<and> b \<le> 0xBF"

text \<open>
  The accept range of the second byte after a given first byte (\<open>unicode/utf8\<close>'s table): it rules
  out overlong forms, surrogates and code points beyond U+10FFFF.
\<close>

definition second_ok :: "byte \<Rightarrow> byte \<Rightarrow> bool" where
  "second_ok a b \<longleftrightarrow>
     (if a = 0xE0 then 0xA0 \<le> b \<and> b \<le> 0xBF
      else if a = 0xED then 0x80 \<le> b \<and> b \<le> 0x9F
      else if a = 0xF0 then 0x90 \<le> b \<and> b \<le> 0xBF
      else if a = 0xF4 then 0x80 \<le> b \<and> b \<le> 0x8F
      else is_cont b)"

text \<open>The length of the well-formed sequence a byte string starts with, if it starts with one.\<close>

fun utf8_len :: "bytes \<Rightarrow> nat option" where
  "utf8_len [] = None"
| "utf8_len (a # bs) =
     (if a < 0x80 then Some 1
      else if 0xC2 \<le> a \<and> a \<le> 0xDF then
        (case bs of b # _ \<Rightarrow> if is_cont b then Some 2 else None | _ \<Rightarrow> None)
      else if 0xE0 \<le> a \<and> a \<le> 0xEF then
        (case bs of b # c # _ \<Rightarrow> if second_ok a b \<and> is_cont c then Some 3 else None | _ \<Rightarrow> None)
      else if 0xF0 \<le> a \<and> a \<le> 0xF4 then
        (case bs of b # c # d # _ \<Rightarrow> if second_ok a b \<and> is_cont c \<and> is_cont d then Some 4 else None
         | _ \<Rightarrow> None)
      else None)"

lemma utf8_len_bounds: "utf8_len bs = Some k \<Longrightarrow> 1 \<le> k \<and> k \<le> length bs"
  by (cases bs) (auto split: if_splits list.splits)

lemma utf8_len_pos [simp]: "utf8_len bs \<noteq> Some 0"
  using utf8_len_bounds [of bs 0] by auto

lemma utf8_cases:
  obtains "bs = []" | a where "bs = [a]" | a b where "bs = [a, b]" | a b c where "bs = [a, b, c]"
    | a b c d ds where "bs = a # b # c # d # ds"
  by (metis list.exhaust)

lemma utf8_len_take: "utf8_len bs = Some k \<Longrightarrow> utf8_len (take k bs @ ys) = Some k"
  by (cases bs rule: utf8_cases) (auto split: if_splits)

lemma utf8_len_append: "utf8_len bs = Some k \<Longrightarrow> utf8_len (bs @ ys) = Some k"
  by (cases bs) (auto split: if_splits list.splits)

text \<open>\<open>utf8.Valid\<close>: the bytes are a concatenation of well-formed sequences.\<close>

function utf8_valid :: "bytes \<Rightarrow> bool" where
  "utf8_valid bs =
     (if bs = [] then True
      else case utf8_len bs of None \<Rightarrow> False | Some k \<Rightarrow> utf8_valid (drop k bs))"
  by pat_completeness auto
termination
  by (relation "measure length") (auto dest: utf8_len_bounds)

declare utf8_valid.simps [simp del]

lemma utf8_valid_Nil [simp]: "utf8_valid []"
  by (simp add: utf8_valid.simps)

lemma utf8_valid_step: "utf8_len bs = Some k \<Longrightarrow> utf8_valid bs \<longleftrightarrow> utf8_valid (drop k bs)"
  by (subst utf8_valid.simps) auto

lemma utf8_valid_invalid: "bs \<noteq> [] \<Longrightarrow> utf8_len bs = None \<Longrightarrow> \<not> utf8_valid bs"
  by (subst utf8_valid.simps) auto

lemma utf8_valid_ascii: "(\<And>b. b \<in> set bs \<Longrightarrow> b < 0x80) \<Longrightarrow> utf8_valid bs"
proof (induction bs)
  case (Cons b bs)
  then have "utf8_len (b # bs) = Some 1" by simp
  with Cons show ?case by (simp add: utf8_valid_step)
qed simp

lemma utf8_valid_append: "utf8_valid xs \<Longrightarrow> utf8_valid (xs @ ys) \<longleftrightarrow> utf8_valid ys"
proof (induction xs rule: utf8_valid.induct)
  case (1 bs)
  show ?case
  proof (cases "bs = []")
    case False
    with 1 obtain k where k: "utf8_len bs = Some k"
      by (cases "utf8_len bs") (auto simp: utf8_valid_invalid)
    then have "k \<le> length bs" by (simp add: utf8_len_bounds)
    with 1 False k show ?thesis
      by (simp add: utf8_valid_step utf8_len_append [OF k])
  qed simp
qed

text \<open>
  \<open>strings.ToValidUTF8(s, rep)\<close>: each maximal run of bytes that belong to no well-formed sequence
  is replaced by one \<open>rep\<close>. The flag says that the previous byte was replaced already.
\<close>

function to_valid :: "bytes \<Rightarrow> bool \<Rightarrow> bytes \<Rightarrow> bytes" where
  "to_valid rep run bs =
     (if bs = [] then []
      else case utf8_len bs of
        None \<Rightarrow> (if run then [] else rep) @ to_valid rep True (tl bs)
      | Some k \<Rightarrow> take k bs @ to_valid rep False (drop k bs))"
  by pat_completeness auto
termination
  by (relation "measure (\<lambda>(rep, run, bs). length bs)") (auto dest: utf8_len_bounds)

declare to_valid.simps [simp del]

definition ToValidUTF8 :: "bytes \<Rightarrow> bytes \<Rightarrow> bytes" where
  "ToValidUTF8 bs rep = to_valid rep False bs"

lemma to_valid_id: "utf8_valid bs \<Longrightarrow> to_valid rep run bs = bs"
proof (induction rep run bs rule: to_valid.induct)
  case (1 rep run bs)
  show ?case
  proof (cases "bs = []")
    case False
    with 1 obtain k where k: "utf8_len bs = Some k"
      by (cases "utf8_len bs") (auto simp: utf8_valid_invalid)
    with 1 False show ?thesis
      by (subst to_valid.simps) (simp add: utf8_valid_step)
  qed (simp add: to_valid.simps)
qed

lemma ToValidUTF8_id [simp]: "utf8_valid bs \<Longrightarrow> ToValidUTF8 bs rep = bs"
  by (simp add: ToValidUTF8_def to_valid_id)

lemma utf8_valid_to_valid: "utf8_valid rep \<Longrightarrow> utf8_valid (to_valid rep run bs)"
proof (induction rep run bs rule: to_valid.induct)
  case (1 rep run bs)
  show ?case
  proof (cases "bs = []")
    case False
    show ?thesis
    proof (cases "utf8_len bs")
      case None
      with 1 False show ?thesis
        by (subst to_valid.simps) (simp add: utf8_valid_append)
    next
      case (Some k)
      then have "k \<le> length bs" by (simp add: utf8_len_bounds)
      with 1 False Some show ?thesis
        by (subst to_valid.simps) (simp add: utf8_valid_step [OF utf8_len_take [OF Some]])
    qed
  qed (simp add: to_valid.simps)
qed

lemma ToValidUTF8_valid: "utf8_valid rep \<Longrightarrow> utf8_valid (ToValidUTF8 bs rep)"
  by (simp add: ToValidUTF8_def utf8_valid_to_valid)


section \<open>Runes and UTF-16\<close>

text \<open>
  \<open>string(runes)\<close> encodes each rune; a surrogate or a value beyond U+10FFFF becomes U+FFFD
  (\<open>utf8.RuneError\<close>).
\<close>

definition valid_rune :: "nat \<Rightarrow> bool" where
  "valid_rune r \<longleftrightarrow> r < 0xD800 \<or> (0xE000 \<le> r \<and> r \<le> 0x10FFFF)"

definition rune_error :: nat where
  "rune_error = 0xFFFD"

definition encode_rune :: "nat \<Rightarrow> bytes" where
  "encode_rune r0 =
     (let r = (if valid_rune r0 then r0 else rune_error) in
      if r < 0x80 then [of_nat r]
      else if r < 0x800 then [of_nat (0xC0 + r div 64), of_nat (0x80 + r mod 64)]
      else if r < 0x10000 then
        [of_nat (0xE0 + r div 4096), of_nat (0x80 + r div 64 mod 64), of_nat (0x80 + r mod 64)]
      else
        [of_nat (0xF0 + r div 262144), of_nat (0x80 + r div 4096 mod 64),
         of_nat (0x80 + r div 64 mod 64), of_nat (0x80 + r mod 64)])"

definition runes_to_string :: "nat list \<Rightarrow> bytes" where
  "runes_to_string rs = concat (map encode_rune rs)"

text \<open>\<open>utf16.Decode\<close>: a high surrogate followed by a low one is one rune, a lone surrogate U+FFFD.\<close>

fun utf16_decode :: "nat list \<Rightarrow> nat list" where
  "utf16_decode [] = []"
| "utf16_decode [u] = [if 0xD800 \<le> u \<and> u \<le> 0xDFFF then rune_error else u]"
| "utf16_decode (u # v # us) =
     (if 0xD800 \<le> u \<and> u \<le> 0xDBFF \<and> 0xDC00 \<le> v \<and> v \<le> 0xDFFF
      then ((u - 0xD800) * 1024 + (v - 0xDC00) + 0x10000) # utf16_decode us
      else (if 0xD800 \<le> u \<and> u \<le> 0xDFFF then rune_error else u) # utf16_decode (v # us))"


text \<open>Whatever the runes are, the string made of them is well-formed UTF-8.\<close>

lemma unat_byte: "n < 256 \<Longrightarrow> unat (of_nat n :: byte) = n"
  by (simp add: unat_of_nat take_bit_eq_mod)

lemma byte_of_nat_num:
  "n < 256 \<Longrightarrow> (numeral k :: nat) < 256 \<Longrightarrow> (of_nat n :: byte) \<le> numeral k \<longleftrightarrow> n \<le> numeral k"
  "n < 256 \<Longrightarrow> (numeral k :: nat) < 256 \<Longrightarrow> numeral k \<le> (of_nat n :: byte) \<longleftrightarrow> numeral k \<le> n"
  "n < 256 \<Longrightarrow> (numeral k :: nat) < 256 \<Longrightarrow> (of_nat n :: byte) < numeral k \<longleftrightarrow> n < numeral k"
  "n < 256 \<Longrightarrow> (numeral k :: nat) < 256 \<Longrightarrow> (of_nat n :: byte) = numeral k \<longleftrightarrow> n = numeral k"
  using unat_byte [of "numeral k"]
  by (simp_all add: word_le_nat_alt word_less_nat_alt word_unat_eq_iff unat_byte)

lemma is_cont_nat: "n < 256 \<Longrightarrow> is_cont (of_nat n) \<longleftrightarrow> 0x80 \<le> n \<and> n \<le> 0xBF"
  by (simp add: is_cont_def byte_of_nat_num)

lemma second_ok_nat: "n < 256 \<Longrightarrow> m < 256 \<Longrightarrow> second_ok (of_nat n) (of_nat m) \<longleftrightarrow>
   (if n = 0xE0 then 0xA0 \<le> m \<and> m \<le> 0xBF else if n = 0xED then 0x80 \<le> m \<and> m \<le> 0x9F
    else if n = 0xF0 then 0x90 \<le> m \<and> m \<le> 0xBF else if n = 0xF4 then 0x80 \<le> m \<and> m \<le> 0x8F
    else 0x80 \<le> m \<and> m \<le> 0xBF)"
  by (simp add: second_ok_def byte_of_nat_num is_cont_nat)

lemma utf8_len_encode_rune: "utf8_len (encode_rune r @ xs) = Some (length (encode_rune r))"
proof -
  define q where "q = (if valid_rune r then r else rune_error)"
  define a b c d f g where "a = q div 64" and "b = q mod 64" and "c = q div 4096"
    and "d = q div 64 mod 64" and "f = q div 262144" and "g = q div 4096 mod 64"
  note parts = a_def b_def c_def d_def f_def g_def
  have q: "valid_rune q" by (simp add: q_def valid_rune_def rune_error_def)
  have e: "encode_rune r = (if q < 0x80 then [of_nat q]
      else if q < 0x800 then [of_nat (0xC0 + a), of_nat (0x80 + b)]
      else if q < 0x10000 then [of_nat (0xE0 + c), of_nat (0x80 + d), of_nat (0x80 + b)]
      else [of_nat (0xF0 + f), of_nat (0x80 + g), of_nat (0x80 + d), of_nat (0x80 + b)])"
    by (simp only: encode_rune_def Let_def q_def parts)
  have digits: "q = 64 * a + b" "b \<le> 63" "a = 64 * c + d" "d \<le> 63" "c = 64 * f + g" "g \<le> 63"
    using mult_div_mod_eq [of 64 q] mult_div_mod_eq [of 64 "q div 64"] mult_div_mod_eq [of 64 "q div 4096"]
    unfolding parts by (simp_all add: div_mult2_eq [symmetric] less_Suc_eq_le [symmetric])
  consider "q < 0x80" | "0x80 \<le> q" "q < 0x800" | "0x800 \<le> q" "q < 0x10000" | "0x10000 \<le> q" "q \<le> 0x10FFFF"
    using q by (force simp: valid_rune_def)
  then show ?thesis
  proof cases
    case 1
    then show ?thesis by (simp add: e byte_of_nat_num)
  next
    case 2
    then have "2 \<le> a" "a < 32" using digits by linarith+
    then show ?thesis using 2 digits(2) by (simp add: e byte_of_nat_num is_cont_nat del: of_nat_add)
  next
    case 3
    then have "c < 16" "c = 0 \<Longrightarrow> 32 \<le> d" "c = 13 \<Longrightarrow> d \<le> 31"
      using q digits unfolding valid_rune_def by linarith+
    then show ?thesis using 3 digits(2,4)
      by (simp add: e byte_of_nat_num is_cont_nat second_ok_nat del: of_nat_add)
  next
    case 4
    then have "f \<le> 4" "f = 0 \<Longrightarrow> 16 \<le> g" "f = 4 \<Longrightarrow> g \<le> 15"
      using digits by linarith+
    then show ?thesis using 4 digits(2,4,6)
      by (simp add: e byte_of_nat_num is_cont_nat second_ok_nat del: of_nat_add)
  qed
qed

lemma utf8_valid_runes: "utf8_valid (runes_to_string rs)"
proof (induction rs)
  case (Cons r rs)
  then show ?case
    using utf8_valid_step [OF utf8_len_encode_rune [of r "runes_to_string rs"]]
    by (simp add: runes_to_string_def)
qed (simp add: runes_to_string_def)


section \<open>Strings\<close>

text \<open>\<open>strings.LastIndex(s, sub)\<close>.\<close>

fun lastIndex :: "string \<Rightarrow> string \<Rightarrow> nat option" where
  "lastIndex [] sub = (if sub = [] then Some 0 else None)"
| "lastIndex (c # s) sub =
     (case lastIndex s sub of
        Some i \<Rightarrow> Some (Suc i)
      | None \<Rightarrow> if take (length sub) (c # s) = sub then Some 0 else None)"

lemma lastIndex_absent: "c \<notin> set s \<Longrightarrow> lastIndex s (c # sub) = None"
  by (induction s) auto

lemma lastIndex_append: "lastIndex t sub = Some i \<Longrightarrow> lastIndex (s @ t) sub = Some (length s + i)"
  by (induction s) auto

lemma lastIndex_bound: "lastIndex s sub = Some i \<Longrightarrow> i + length sub \<le> length s"
proof (induction s arbitrary: i)
  case (Cons c s)
  show ?case
  proof (cases "lastIndex s sub")
    case None
    with Cons.prems have "take (length sub) (c # s) = sub" "i = 0"
      by (auto split: if_splits)
    then show ?thesis by (metis add_0 length_take min.cobounded1)
  next
    case (Some j)
    with Cons show ?thesis by auto
  qed
qed (auto split: if_splits)


section \<open>Hexadecimal numbers\<close>

text \<open>\<open>strconv.FormatUint(n, 16)\<close>.\<close>

text \<open>\<open>strconv.FormatUint(n, 10)\<close>.\<close>

fun format_dec :: "nat \<Rightarrow> string" where
  "format_dec n = (if n < 10 then [] else format_dec (n div 10)) @ [char_of (48 + n mod 10)]"

declare format_dec.simps [simp del]

definition hex_digit :: "nat \<Rightarrow> char" where
  "hex_digit d = char_of (if d < 10 then 48 + d else 87 + d)"

fun format_hex :: "nat \<Rightarrow> string" where
  "format_hex n = (if n < 16 then [hex_digit n] else format_hex (n div 16) @ [hex_digit (n mod 16)])"

declare format_hex.simps [simp del]

text \<open>\<open>strconv.ParseUint(s, 16, bits)\<close>; None stands for a syntax or range error.\<close>

definition hex_value :: "char \<Rightarrow> nat option" where
  "hex_value c =
     (if CHR ''0'' \<le> c \<and> c \<le> CHR ''9'' then Some (of_char c - 48)
      else if CHR ''a'' \<le> c \<and> c \<le> CHR ''f'' then Some (of_char c - 87)
      else if CHR ''A'' \<le> c \<and> c \<le> CHR ''F'' then Some (of_char c - 55)
      else None)"

fun hex_fold :: "nat \<Rightarrow> string \<Rightarrow> nat option" where
  "hex_fold acc [] = Some acc"
| "hex_fold acc (c # s) = (case hex_value c of None \<Rightarrow> None | Some d \<Rightarrow> hex_fold (16 * acc + d) s)"

definition ParseUint16 :: "string \<Rightarrow> nat \<Rightarrow> nat option" where
  "ParseUint16 s bits =
     (if s = [] then None
      else case hex_fold 0 s of None \<Rightarrow> None | Some v \<Rightarrow> if v < 2 ^ bits then Some v else None)"

lemma hex_digit_cases:
  assumes "(d :: nat) < 16"
  shows "d \<in> {0, 1, 2, 3, 4, 5, 6, 7, 8, 9, 10, 11, 12, 13, 14, 15}"
  using assms by (auto simp: numeral_eq_Suc less_Suc_eq)

lemma hex_value_digit: "d < 16 \<Longrightarrow> hex_value (hex_digit d) = Some d"
  by (drule hex_digit_cases) (auto simp: hex_value_def hex_digit_def less_eq_char_def)

lemma hex_fold_append:
  "hex_fold acc (s @ t) = (case hex_fold acc s of None \<Rightarrow> None | Some v \<Rightarrow> hex_fold v t)"
  by (induction s arbitrary: acc) (auto split: option.splits)

lemma hex_fold_format: "hex_fold 0 (format_hex n) = Some n"
proof (induction n rule: format_hex.induct)
  case (1 n)
  then show ?case
    by (subst format_hex.simps)
       (auto simp: hex_fold_append hex_value_digit)
qed

lemma format_hex_nonempty [simp]: "format_hex n \<noteq> []"
  by (subst format_hex.simps) simp

lemma ParseUint16_format: "n < 2 ^ bits \<Longrightarrow> ParseUint16 (format_hex n) bits = Some n"
  by (simp add: ParseUint16_def hex_fold_format)

definition lowerHex :: "char \<Rightarrow> bool" where
  "lowerHex b \<longleftrightarrow> CHR ''0'' \<le> b \<and> b \<le> CHR ''9'' \<or> CHR ''a'' \<le> b \<and> b \<le> CHR ''f''"

lemma lowerHex_digit: "d < 16 \<Longrightarrow> lowerHex (hex_digit d)"
  by (drule hex_digit_cases) (auto simp: lowerHex_def hex_digit_def less_eq_char_def)

lemma lowerHex_format: "c \<in> set (format_hex n) \<Longrightarrow> lowerHex c"
proof (induction n rule: format_hex.induct)
  case (1 n)
  then show ?case
    by (subst (asm) format_hex.simps) (auto simp: lowerHex_digit split: if_splits)
qed

lemma length_format_hex: "n < 16 ^ k \<Longrightarrow> 0 < k \<Longrightarrow> length (format_hex n) \<le> k"
proof (induction n arbitrary: k rule: format_hex.induct)
  case (1 n)
  show ?case
  proof (cases "n < 16")
    case True
    with 1 show ?thesis by (simp add: format_hex.simps)
  next
    case False
    then obtain j where j: "k = Suc j" "0 < j"
      using "1.prems" by (cases k; cases "k - 1") auto
    with "1.prems" have "n div 16 < 16 ^ j"
      by (simp add: less_mult_imp_div_less mult.commute)
    with "1.IH" [OF False, of j] j False show ?thesis
      by (simp add: format_hex.simps [of n])
  qed
qed


section \<open>White space\<close>

text \<open>\<open>strings.TrimSpace\<close>: the UTF-8 forms of the characters \<open>unicode.IsSpace\<close> accepts.\<close>

definition white_space :: "bytes list" where
  "white_space =
     [[9], [10], [11], [12], [13], [32], [0xC2, 0x85], [0xC2, 0xA0], [0xE1, 0x9A, 0x80],
      [0xE2, 0x80, 0x80], [0xE2, 0x80, 0x81], [0xE2, 0x80, 0x82], [0xE2, 0x80, 0x83],
      [0xE2, 0x80, 0x84], [0xE2, 0x80, 0x85], [0xE2, 0x80, 0x86], [0xE2, 0x80, 0x87],
      [0xE2, 0x80, 0x88], [0xE2, 0x80, 0x89], [0xE2, 0x80, 0x8A], [0xE2, 0x80, 0xA8],
      [0xE2, 0x80, 0xA9], [0xE2, 0x80, 0xAF], [0xE2, 0x81, 0x9F], [0xE3, 0x80, 0x80]]"

definition space_at :: "bytes list \<Rightarrow> bytes \<Rightarrow> nat" where
  "space_at ws bs = (case find (\<lambda>w. take (length w) bs = w) ws of None \<Rightarrow> 0 | Some w \<Rightarrow> length w)"

function trim_left :: "bytes list \<Rightarrow> bytes \<Rightarrow> bytes" where
  "trim_left ws bs =
     (let k = space_at ws bs in if k = 0 \<or> length bs < k then bs else trim_left ws (drop k bs))"
  by pat_completeness auto
termination
  by (relation "measure (\<lambda>(ws, bs). length bs)") (auto simp: Let_def)

declare trim_left.simps [simp del]

definition TrimSpace :: "bytes \<Rightarrow> bytes" where
  "TrimSpace bs = rev (trim_left (map rev white_space) (rev (trim_left white_space bs)))"

lemma set_trim_left: "set (trim_left ws bs) \<subseteq> set bs"
proof (induction ws bs rule: trim_left.induct)
  case (1 ws bs)
  show ?case
    using 1 [OF refl] by (subst trim_left.simps) (auto simp: Let_def dest: in_set_dropD)
qed

lemma set_TrimSpace: "set (TrimSpace bs) \<subseteq> set bs"
  using set_trim_left [of white_space bs] set_trim_left [of "map rev white_space" "rev (trim_left white_space bs)"]
  by (auto simp: TrimSpace_def)


text \<open>\<open>unicode.IsSpace(rune(b))\<close> of a byte.\<close>

definition space_byte :: "char \<Rightarrow> bool" where
  "space_byte c \<longleftrightarrow> (of_char c :: nat) \<in> {9, 10, 11, 12, 13, 32, 0x85, 0xA0}"

definition TrimSpace_string :: "string \<Rightarrow> string" where
  "TrimSpace_string s = of_bytes (TrimSpace (to_bytes s))"


section \<open>Searching and case\<close>

text \<open>\<open>strings.HasPrefix\<close>, \<open>strings.Contains\<close>, \<open>strings.Join\<close>.\<close>

definition has_prefix :: "string \<Rightarrow> string \<Rightarrow> bool" where
  "has_prefix s p \<longleftrightarrow> take (length p) s = p"

fun contains_text :: "string \<Rightarrow> string \<Rightarrow> bool" where
  "contains_text [] p = (p = [])"
| "contains_text (c # s) p = (has_prefix (c # s) p \<or> contains_text s p)"

fun join_text :: "string \<Rightarrow> string list \<Rightarrow> string" where
  "join_text sep [] = []"
| "join_text sep [w] = w"
| "join_text sep (w # ws) = w @ sep @ join_text sep ws"

text \<open>
  \<open>strings.ToLower\<close>, as far as ASCII text in the result is concerned: the source only compares the
  result with ASCII text. Besides the ASCII letters, U+0130 has the lower case \<open>i\<close> and U+212A has \<open>k\<close>;
  other characters beyond ASCII become characters beyond ASCII, here themselves.
\<close>

definition lower_char :: "char \<Rightarrow> char" where
  "lower_char c = (if CHR ''A'' \<le> c \<and> c \<le> CHR ''Z'' then char_of (of_char c + 32 :: nat) else c)"

fun ToLower :: "string \<Rightarrow> string" where
  "ToLower [] = []"
| "ToLower (c # s) =
     (if c = CHR 0xC4 \<and> s \<noteq> [] \<and> hd s = CHR 0xB0 then CHR ''i'' # ToLower (tl s)
      else if c = CHR 0xE2 \<and> take 2 s = [CHR 0x84, CHR 0xAA] then CHR ''k'' # ToLower (drop 2 s)
      else lower_char c # ToLower s)"


section \<open>Numbers\<close>

text \<open>
  \<open>strconv.ParseUint(s, base, bits)\<close>; None stands for a syntax or range error. \<open>c | 0x20\<close> of a byte
  is a letter exactly for the ASCII letters, whose value does not depend on their case.
\<close>

definition digit_value :: "char \<Rightarrow> nat option" where
  "digit_value c =
     (let c = lower_char c in
      if CHR ''0'' \<le> c \<and> c \<le> CHR ''9'' then Some (of_char c - 48)
      else if CHR ''a'' \<le> c \<and> c \<le> CHR ''z'' then Some (of_char c - 87)
      else None)"

fun digits_fold :: "nat \<Rightarrow> bool \<Rightarrow> nat \<Rightarrow> string \<Rightarrow> nat option" where
  "digits_fold base underscores acc [] = Some acc"
| "digits_fold base underscores acc (c # s) =
     (if c = CHR ''_'' \<and> underscores then digits_fold base underscores acc s
      else case digit_value c of
          None \<Rightarrow> None
        | Some d \<Rightarrow> if d \<ge> base then None else digits_fold base underscores (base * acc + d) s)"

definition ParseUint10 :: "string \<Rightarrow> nat \<Rightarrow> nat option" where
  "ParseUint10 s bits =
     (if s = [] then None
      else case digits_fold 10 False 0 s of None \<Rightarrow> None | Some v \<Rightarrow> if v < 2 ^ bits then Some v else None)"

text \<open>Base 0: the base is that of the prefix, and underscores may separate digits.\<close>

definition number_base :: "string \<Rightarrow> nat \<times> string" where
  "number_base s =
     (if hd s \<noteq> CHR ''0'' then (10, s)
      else if length s \<ge> 3 \<and> lower_char (s ! 1) = CHR ''b'' then (2, drop 2 s)
      else if length s \<ge> 3 \<and> lower_char (s ! 1) = CHR ''o'' then (8, drop 2 s)
      else if length s \<ge> 3 \<and> lower_char (s ! 1) = CHR ''x'' then (16, drop 2 s)
      else (8, drop 1 s))"

text \<open>The last thing seen: the beginning, a digit, an underscore or something else.\<close>

datatype saw = SawStart | SawDigit | SawUnderscore | SawOther

fun underscores_from :: "bool \<Rightarrow> saw \<Rightarrow> string \<Rightarrow> bool" where
  "underscores_from hex prev [] = (prev \<noteq> SawUnderscore)"
| "underscores_from hex prev (c # s) =
     (if CHR ''0'' \<le> c \<and> c \<le> CHR ''9'' \<or> hex \<and> CHR ''a'' \<le> lower_char c \<and> lower_char c \<le> CHR ''f''
      then underscores_from hex SawDigit s
      else if c = CHR ''_'' then prev = SawDigit \<and> underscores_from hex SawUnderscore s
      else prev \<noteq> SawUnderscore \<and> underscores_from hex SawOther s)"

definition underscoreOK :: "string \<Rightarrow> bool" where
  "underscoreOK s =
     (let s = (if s \<noteq> [] \<and> (hd s = CHR ''-'' \<or> hd s = CHR ''+'') then tl s else s) in
      if length s \<ge> 2 \<and> hd s = CHR ''0'' \<and> lower_char (s ! 1) \<in> {CHR ''b'', CHR ''o'', CHR ''x''}
      then underscores_from (lower_char (s ! 1) = CHR ''x'') SawDigit (drop 2 s)
      else underscores_from False SawStart s)"

definition ParseUint0 :: "string \<Rightarrow> nat \<Rightarrow> nat option" where
  "ParseUint0 s bits =
     (if s = [] then None
      else
        let (base, digits) = number_base s in
        case digits_fold base True 0 digits of
          None \<Rightarrow> None
        | Some v \<Rightarrow>
            if v \<ge> 2 ^ bits then None
            else if CHR ''_'' \<in> set digits \<and> \<not> underscoreOK s then None
            else Some v)"

text \<open>\<open>strconv.Atoi\<close>; numbers that do not fit in an \<open>int\<close> are not distinguished by the source.\<close>

definition Atoi :: "string \<Rightarrow> int option" where
  "Atoi s =
     (let digits = (if s \<noteq> [] \<and> (hd s = CHR ''-'' \<or> hd s = CHR ''+'') then tl s else s) in
      if digits = [] then None
      else map_option (\<lambda>v. if hd s = CHR ''-'' then - int v else int v) (digits_fold 10 False 0 digits))"


section \<open>Floating-point literals\<close>

text \<open>
  \<open>strconv.ParseFloat(s, 64)\<close>, as far as the comparison of its result with a constant goes. The digits
  of the mantissa give its value and the number of digits behind the point.
\<close>

fun mantissa_digits :: "nat \<Rightarrow> bool \<Rightarrow> bool \<Rightarrow> nat \<Rightarrow> nat \<Rightarrow> string \<Rightarrow> bool \<times> nat \<times> nat \<times> string" where
  "mantissa_digits base dot digits m frac [] = (digits, m, frac, [])"
| "mantissa_digits base dot digits m frac (c # s) =
     (if c = CHR ''_'' then mantissa_digits base dot digits m frac s
      else if c = CHR ''.'' \<and> \<not> dot then mantissa_digits base True digits m frac s
      else case digit_value c of
          None \<Rightarrow> (digits, m, frac, c # s)
        | Some d \<Rightarrow>
            if d \<ge> base then (digits, m, frac, c # s)
            else mantissa_digits base dot True (base * m + d) (if dot then frac + 1 else frac) s)"

text \<open>The exponent stops growing at 10000; underscores separate its digits.\<close>

fun exponent_digits :: "nat \<Rightarrow> string \<Rightarrow> nat \<times> string" where
  "exponent_digits e [] = (e, [])"
| "exponent_digits e (c # s) =
     (if c = CHR ''_'' then exponent_digits e s
      else if CHR ''0'' \<le> c \<and> c \<le> CHR ''9'' then exponent_digits (if e < 10000 then 10 * e + (of_char c - 48) else e) s
      else (e, c # s))"

definition exponent_part :: "string \<Rightarrow> (int \<times> string) option" where
  "exponent_part s =
     (let sign = (if s \<noteq> [] \<and> hd s = CHR ''-'' then -1 else 1);
          s = (if s \<noteq> [] \<and> (hd s = CHR ''-'' \<or> hd s = CHR ''+'') then tl s else s) in
      if s = [] \<or> \<not> (CHR ''0'' \<le> hd s \<and> hd s \<le> CHR ''9'') then None
      else case exponent_digits 0 s of (e, rest) \<Rightarrow> Some (sign * int e, rest))"

text \<open>
  A literal: its sign, mantissa, the exponent of 2 and the exponent of 10. The whole text has to be one.
\<close>

definition float_literal :: "string \<Rightarrow> (bool \<times> nat \<times> int \<times> int) option" where
  "float_literal s0 =
     (let neg = (s0 \<noteq> [] \<and> hd s0 = CHR ''-'');
          s = (if s0 \<noteq> [] \<and> (hd s0 = CHR ''-'' \<or> hd s0 = CHR ''+'') then tl s0 else s0);
          hex = (length s > 2 \<and> hd s = CHR ''0'' \<and> lower_char (s ! 1) = CHR ''x'');
          (digits, m, frac, rest) = mantissa_digits (if hex then 16 else 10) False False 0 0 (if hex then drop 2 s else s)
      in
      if \<not> digits then None
      else
        let marker = (if hex then CHR ''p'' else CHR ''e'');
            exp = (if rest \<noteq> [] \<and> lower_char (hd rest) = marker then exponent_part (tl rest)
                   else if hex then None else Some (0, rest))
        in case exp of
            None \<Rightarrow> None
          | Some (e, rest) \<Rightarrow>
              if rest \<noteq> [] \<or> CHR ''_'' \<in> set s0 \<and> \<not> underscoreOK s0 then None
              else if hex then Some (neg, m, e - 4 * int frac, 0) else Some (neg, m, 0, e - int frac))"

text \<open>
  \<open>m * 2^e2 * 10^e10\<close> compared with \<open>n * 2^k\<close>, all of them multiplied by what makes them integers.
\<close>

definition scaled :: "nat \<Rightarrow> int \<Rightarrow> int \<Rightarrow> nat" where
  "scaled m e2 e10 = m * 2 ^ nat e2 * 10 ^ nat e10"

text \<open>
  The number nearest to 0.6 is \<open>5404319552844595 * 2^-53\<close>; a literal is rounded to it or to a greater one
  when it is greater than the middle between this number and the one below (a tie goes to the even
  one below). From \<open>(2^54 - 1) * 2^970\<close> on literals are out of range, which is an error.
\<close>

definition literal_at_least_06 :: "nat \<Rightarrow> int \<Rightarrow> int \<Rightarrow> bool" where
  "literal_at_least_06 m e2 e10 \<longleftrightarrow>
     scaled m (e2 + 54) e10 > scaled 10808639105689189 (- e2 - 54) (- e10) \<and>
     scaled m (e2 - 970) e10 < scaled (2 ^ 54 - 1) (970 - e2) (- e10)"

definition float_at_least_06 :: "string \<Rightarrow> bool" where
  "float_at_least_06 s \<longleftrightarrow>
     map lower_char s \<in> {''inf'', ''+inf'', ''infinity'', ''+infinity''} \<or>
     (case float_literal s of
        None \<Rightarrow> False
      | Some (neg, m, e2, e10) \<Rightarrow> \<not> neg \<and> literal_at_least_06 m e2 e10)"

end
