(* ===== verification/Wire.thy ===== *)
theory Wire imports Prelude begin

text \<open>
  \<open>eventheader/enums.go\<close>: the constants and fixed records of the EventHeader wire format. The
  enumerations are the integers the code uses, with their flag bits, since the code combines and
  masks them; the constants are abbreviations of their numerals.
\<close>


section \<open>Header flags, extension kinds, levels and opcodes\<close>

abbreviation (input) HeaderFlagPointer64 :: u8 where "HeaderFlagPointer64 \<equiv> 0x01"
abbreviation (input) HeaderFlagLittleEndian :: u8 where "HeaderFlagLittleEndian \<equiv> 0x02"
abbreviation (input) HeaderFlagExtension :: u8 where "HeaderFlagExtension \<equiv> 0x04"

record header =
  hdr_Flags :: u8
  hdr_Version :: u8
  hdr_ID :: u16
  hdr_Tag :: u16
  hdr_Opcode :: u8
  hdr_Level :: u8

abbreviation (input) ExtensionInvalid :: u16 where "ExtensionInvalid \<equiv> 0"
abbreviation (input) ExtensionMetadata :: u16 where "ExtensionMetadata \<equiv> 1"
abbreviation (input) ExtensionActivityID :: u16 where "ExtensionActivityID \<equiv> 2"
abbreviation (input) ExtensionKindMask :: u16 where "ExtensionKindMask \<equiv> 0x7fff"
abbreviation (input) ExtensionKindChainFlag :: u16 where "ExtensionKindChainFlag \<equiv> 0x8000"

abbreviation (input) LevelInvalid :: u8 where "LevelInvalid \<equiv> 0"
abbreviation (input) LevelCritical :: u8 where "LevelCritical \<equiv> 1"
abbreviation (input) LevelError :: u8 where "LevelError \<equiv> 2"
abbreviation (input) LevelWarning :: u8 where "LevelWarning \<equiv> 3"
abbreviation (input) LevelInformation :: u8 where "LevelInformation \<equiv> 4"
abbreviation (input) LevelVerbose :: u8 where "LevelVerbose \<equiv> 5"

abbreviation (input) OpcodeInfo :: u8 where "OpcodeInfo \<equiv> 0"


section \<open>Field encodings\<close>

abbreviation (input) EncodingInvalid :: u8 where "EncodingInvalid \<equiv> 0"
abbreviation (input) EncodingStruct :: u8 where "EncodingStruct \<equiv> 1"
abbreviation (input) EncodingValue8 :: u8 where "EncodingValue8 \<equiv> 2"
abbreviation (input) EncodingValue16 :: u8 where "EncodingValue16 \<equiv> 3"
abbreviation (input) EncodingValue32 :: u8 where "EncodingValue32 \<equiv> 4"
abbreviation (input) EncodingValue64 :: u8 where "EncodingValue64 \<equiv> 5"
abbreviation (input) EncodingValue128 :: u8 where "EncodingValue128 \<equiv> 6"
abbreviation (input) EncodingZStringChar8 :: u8 where "EncodingZStringChar8 \<equiv> 7"
abbreviation (input) EncodingZStringChar16 :: u8 where "EncodingZStringChar16 \<equiv> 8"
abbreviation (input) EncodingZStringChar32 :: u8 where "EncodingZStringChar32 \<equiv> 9"
abbreviation (input) EncodingStringLength16Char8 :: u8 where "EncodingStringLength16Char8 \<equiv> 10"
abbreviation (input) EncodingStringLength16Char16 :: u8 where "EncodingStringLength16Char16 \<equiv> 11"
abbreviation (input) EncodingStringLength16Char32 :: u8 where "EncodingStringLength16Char32 \<equiv> 12"
abbreviation (input) EncodingBinaryLength16Char8 :: u8 where "EncodingBinaryLength16Char8 \<equiv> 13"

abbreviation (input) EncodingValueMask :: u8 where "EncodingValueMask \<equiv> 0x1f"
abbreviation (input) EncodingCArrayFlag :: u8 where "EncodingCArrayFlag \<equiv> 0x20"
abbreviation (input) EncodingVArrayFlag :: u8 where "EncodingVArrayFlag \<equiv> 0x40"
abbreviation (input) EncodingChainFlag :: u8 where "EncodingChainFlag \<equiv> 0x80"


section \<open>Field formats\<close>

abbreviation (input) FormatDefault :: u8 where "FormatDefault \<equiv> 0"
abbreviation (input) FormatUnsignedInt :: u8 where "FormatUnsignedInt \<equiv> 1"
abbreviation (input) FormatSignedInt :: u8 where "FormatSignedInt \<equiv> 2"
abbreviation (input) FormatHexInt :: u8 where "FormatHexInt \<equiv> 3"
abbreviation (input) FormatErrno :: u8 where "FormatErrno \<equiv> 4"
abbreviation (input) FormatPID :: u8 where "FormatPID \<equiv> 5"
abbreviation (input) FormatTime :: u8 where "FormatTime \<equiv> 6"
abbreviation (input) FormatBoolean :: u8 where "FormatBoolean \<equiv> 7"
abbreviation (input) FormatFloat :: u8 where "FormatFloat \<equiv> 8"
abbreviation (input) FormatHexBytes :: u8 where "FormatHexBytes \<equiv> 9"
abbreviation (input) FormatString8 :: u8 where "FormatString8 \<equiv> 10"
abbreviation (input) FormatStringUTF :: u8 where "FormatStringUTF \<equiv> 11"
abbreviation (input) FormatStringUTFBOM :: u8 where "FormatStringUTFBOM \<equiv> 12"
abbreviation (input) FormatStringXML :: u8 where "FormatStringXML \<equiv> 13"
abbreviation (input) FormatStringJSON :: u8 where "FormatStringJSON \<equiv> 14"
abbreviation (input) FormatUUID :: u8 where "FormatUUID \<equiv> 15"
abbreviation (input) FormatPort :: u8 where "FormatPort \<equiv> 16"
abbreviation (input) FormatIPAddress :: u8 where "FormatIPAddress \<equiv> 17"
abbreviation (input) FormatIPAddressObsolete :: u8 where "FormatIPAddressObsolete \<equiv> 18"

abbreviation (input) FormatValueMask :: u8 where "FormatValueMask \<equiv> 0x7f"
abbreviation (input) FormatChainFlag :: u8 where "FormatChainFlag \<equiv> 0x80"


section \<open>Array kinds, field options, native flags\<close>

text \<open>
  \<open>ArrayKind\<close> is a uint8; a value beyond the three constants can be passed in, so it is kept as
  \<open>ArrayOther\<close>.
\<close>

datatype array_kind = ArrayScalar | ArrayFixed | ArrayVariable | ArrayOther u8

record field_options =
  opt_Format :: u8
  opt_Tag :: u16

text \<open>\<open>nativeEndian.PutUint16\<close> and the others, on the host the producer runs on.\<close>

abbreviation (input) native16 :: "host \<Rightarrow> u16 \<Rightarrow> bytes" where "native16 h \<equiv> put16 (native h)"
abbreviation (input) native32 :: "host \<Rightarrow> u32 \<Rightarrow> bytes" where "native32 h \<equiv> put32 (native h)"
abbreviation (input) native64 :: "host \<Rightarrow> u64 \<Rightarrow> bytes" where "native64 h \<equiv> put64 (native h)"

text \<open>\<open>defaultHeaderFlags\<close>: the code probes the byte order by storing 1 and reading the first byte.\<close>

definition defaultHeaderFlags :: "host \<Rightarrow> u8" where
  "defaultHeaderFlags h =
     (let flags = HeaderFlagExtension;
          flags = (if int64 h then flags OR HeaderFlagPointer64 else flags);
          value = native16 h 1
      in if value ! 0 = 1 then flags OR HeaderFlagLittleEndian else flags)"

lemma native_probe: "native16 h 1 ! 0 = 1 \<longleftrightarrow> native h = LittleEndian"
  by (cases "native h") (simp_all add: put16_def order_put_def be_put_def numeral_2_eq_2)

lemma defaultHeaderFlags_eq:
  "defaultHeaderFlags h =
     (if int64 h then if native h = LittleEndian then 7 else 5
      else if native h = LittleEndian then 6 else 4)"
  by (simp add: defaultHeaderFlags_def native_probe Let_def)

end
