(* ===== verification/Builder.thy ===== *)
theory Builder imports GoText Wire begin

text \<open>
  \<open>eventheader/builder.go\<close>: the dynamic event builder. Its state is the record \<open>builder\<close>; every
  method takes the builder and returns the changed one or an error. All error returns of the source
  come before the first mutation, so after an error the builder is the one passed in, and the model
  returns the error alone. \<open>[16]byte\<close> and \<open>[4]byte\<close> values are byte lists of that length; a float
  is given by its IEEE bits (\<open>math.Float32bits\<close>), a signed integer by its two's-complement word,
  \<open>uintptr\<close> by a 64-bit word. Nil receivers are not modelled.
\<close>

abbreviation (input) maxCount :: nat where "maxCount \<equiv> 65535"
abbreviation (input) maxMetadataPayload :: nat where "maxMetadataPayload \<equiv> 65467"
abbreviation (input) maxStructDepth :: nat where "maxStructDepth \<equiv> 8"
abbreviation (input) maxStructChildFields :: u8 where "maxStructChildFields \<equiv> 127"

record struct_frame =
  fr_formatIndex :: nat
  fr_children :: u8

record builder =
  b_metadata :: bytes
  b_payload :: bytes
  b_version :: u8
  b_id :: u16
  b_tag :: u16
  b_opcode :: u8
  b_activity :: bytes
  b_related :: bytes
  b_hasAct :: bool
  b_hasRel :: bool
  b_active :: bool
  b_structs :: "struct_frame list"

definition zeroID :: bytes where
  "zeroID = replicate 16 0"

definition zero_builder :: builder where
  "zero_builder = \<lparr>b_metadata = [], b_payload = [], b_version = 0, b_id = 0, b_tag = 0, b_opcode = 0,
     b_activity = zeroID, b_related = zeroID, b_hasAct = False, b_hasRel = False, b_active = False,
     b_structs = []\<rparr>"


section \<open>Names and options\<close>

definition validateMetadataName :: "string \<Rightarrow> unit result" where
  "validateMetadataName name =
     (if name = [] then fail ErrInvalidName
      else if \<not> utf8_valid (to_bytes name) then fail ErrInvalidName
      else if \<exists>value\<in>set (to_bytes name). value = 0 \<or> value = of_char (CHR '';'')
        then fail ErrInvalidName
      else Inr ())"

definition resolveOptions :: "u8 \<Rightarrow> field_options list \<Rightarrow> field_options result" where
  "resolveOptions defaultFormat options =
     (if length options > 1 then fail ErrInvalidValue
      else
        let option = \<lparr>opt_Format = defaultFormat, opt_Tag = 0\<rparr>;
            option =
              (if length options = 1
               then let o0 = hd options;
                        option = option\<lparr>opt_Tag := opt_Tag o0\<rparr>
                    in if opt_Format o0 \<noteq> FormatDefault \<or> defaultFormat = FormatDefault
                       then option\<lparr>opt_Format := opt_Format o0\<rparr> else option
               else option)
        in if opt_Format option AND NOT FormatValueMask \<noteq> 0 then fail ErrInvalidValue
           else Inr option)"


section \<open>Reset and the header setters\<close>

definition Reset :: "string \<Rightarrow> builder \<Rightarrow> builder result" where
  "Reset name b =
     bindR (validateMetadataName name) (\<lambda>_.
     Inr (b\<lparr>b_metadata := to_bytes name @ [0], b_payload := [], b_version := 0, b_id := 0, b_tag := 0,
            b_opcode := OpcodeInfo, b_activity := zeroID, b_related := zeroID, b_hasAct := False,
            b_hasRel := False, b_active := True, b_structs := []\<rparr>))"

definition NewBuilder :: "string \<Rightarrow> builder result" where
  "NewBuilder name = Reset name zero_builder"

definition requireActive :: "builder \<Rightarrow> unit result" where
  "requireActive b = (if b_active b then Inr () else fail ErrState)"

definition SetVersion :: "u8 \<Rightarrow> builder \<Rightarrow> builder result" where
  "SetVersion v b = bindR (requireActive b) (\<lambda>_. Inr (b\<lparr>b_version := v\<rparr>))"

definition SetID :: "u16 \<Rightarrow> builder \<Rightarrow> builder result" where
  "SetID i b = bindR (requireActive b) (\<lambda>_. Inr (b\<lparr>b_id := i\<rparr>))"

definition SetIDVersion :: "u16 \<Rightarrow> u8 \<Rightarrow> builder \<Rightarrow> builder result" where
  "SetIDVersion i v b = bindR (requireActive b) (\<lambda>_. Inr (b\<lparr>b_id := i, b_version := v\<rparr>))"

definition SetTag :: "u16 \<Rightarrow> builder \<Rightarrow> builder result" where
  "SetTag t b = bindR (requireActive b) (\<lambda>_. Inr (b\<lparr>b_tag := t\<rparr>))"

definition SetOpcode :: "u8 \<Rightarrow> builder \<Rightarrow> builder result" where
  "SetOpcode op b = bindR (requireActive b) (\<lambda>_. Inr (b\<lparr>b_opcode := op\<rparr>))"

definition SetActivity :: "bytes option \<Rightarrow> bytes option \<Rightarrow> builder \<Rightarrow> builder result" where
  "SetActivity act rel b =
     bindR (requireActive b) (\<lambda>_.
     if rel \<noteq> None \<and> act = None then fail ErrInvalidValue
     else
       let b = b\<lparr>b_hasAct := act \<noteq> None, b_hasRel := rel \<noteq> None, b_activity := zeroID, b_related := zeroID\<rparr>;
           b = (case act of None \<Rightarrow> b | Some a \<Rightarrow> b\<lparr>b_activity := a\<rparr>)
       in Inr (case rel of None \<Rightarrow> b | Some r \<Rightarrow> b\<lparr>b_related := r\<rparr>))"


section \<open>Structures\<close>

definition canAddChild :: "builder \<Rightarrow> unit result" where
  "canAddChild b =
     (if b_structs b \<noteq> [] \<and> fr_children (last (b_structs b)) = maxStructChildFields
      then fail ErrTooManyFields else Inr ())"

definition noteChild :: "builder \<Rightarrow> builder" where
  "noteChild b =
     (if b_structs b \<noteq> []
      then b\<lparr>b_structs := butlast (b_structs b)
               @ [(last (b_structs b))\<lparr>fr_children := fr_children (last (b_structs b)) + 1\<rparr>]\<rparr>
      else b)"

definition BeginStruct :: "host \<Rightarrow> string \<Rightarrow> u16 \<Rightarrow> builder \<Rightarrow> builder result" where
  "BeginStruct h name tg b =
     bindR (requireActive b) (\<lambda>_.
     if length (b_structs b) \<ge> maxStructDepth then fail ErrNestingTooDeep
     else bindR (canAddChild b) (\<lambda>_.
     bindR (validateMetadataName name) (\<lambda>_.
       let m = b_metadata b @ to_bytes name;
           m = m @ [0, EncodingStruct OR EncodingChainFlag];
           index = length m;
           format = (if tg \<noteq> 0 then FormatChainFlag else 0);
           m = m @ [format];
           m = (if tg \<noteq> 0 then m @ native16 h tg else m);
           b = noteChild (b\<lparr>b_metadata := m\<rparr>)
       in Inr (b\<lparr>b_structs := b_structs b @ [\<lparr>fr_formatIndex = index, fr_children = 0\<rparr>]\<rparr>))))"

definition EndStruct :: "builder \<Rightarrow> builder result" where
  "EndStruct b =
     bindR (requireActive b) (\<lambda>_.
     if b_structs b = [] then fail ErrState
     else
       let frame = last (b_structs b) in
       if fr_children frame = 0 then fail ErrState
       else bindR (index (b_metadata b) (fr_formatIndex frame)) (\<lambda>old.
         Inr (b\<lparr>b_metadata := (b_metadata b)[fr_formatIndex frame := (old AND FormatChainFlag) OR fr_children frame],
                b_structs := butlast (b_structs b)\<rparr>)))"

definition BeginStructArray :: "builder \<Rightarrow> builder result" where
  "BeginStructArray b = bindR (requireActive b) (\<lambda>_. fail ErrStructArrayUnsupported)"


section \<open>Adding a field\<close>

definition addField ::
  "host \<Rightarrow> string \<Rightarrow> u8 \<Rightarrow> array_kind \<Rightarrow> u16 \<Rightarrow> bytes \<Rightarrow> field_options \<Rightarrow> builder \<Rightarrow> builder result" where
  "addField h name encoding kind count data option b =
     bindR (requireActive b) (\<lambda>_.
     bindR (canAddChild b) (\<lambda>_.
     bindR (validateMetadataName name) (\<lambda>_.
     if encoding = EncodingInvalid \<or> encoding AND NOT EncodingValueMask \<noteq> 0 \<or> encoding = EncodingStruct
     then fail ErrInvalidValue
     else
     bindR (case kind of
              ArrayScalar \<Rightarrow> Inr encoding
            | ArrayFixed \<Rightarrow> if count = 0 then fail ErrInvalidValue else Inr (encoding OR EncodingCArrayFlag)
            | ArrayVariable \<Rightarrow> Inr (encoding OR EncodingVArrayFlag)
            | ArrayOther k \<Rightarrow> fail ErrInvalidValue) (\<lambda>encoded.
       let m = b_metadata b @ to_bytes name @ [0];
           m = (if opt_Format option \<noteq> FormatDefault \<or> opt_Tag option \<noteq> 0
                then
                  let m = m @ [encoded OR EncodingChainFlag];
                      format = opt_Format option;
                      format = (if opt_Tag option \<noteq> 0 then format OR FormatChainFlag else format);
                      m = m @ [format]
                  in if opt_Tag option \<noteq> 0 then m @ native16 h (opt_Tag option) else m
                else m @ [encoded]);
           m = (if kind = ArrayFixed then m @ native16 h count else m);
           p = (if kind = ArrayVariable then b_payload b @ native16 h count else b_payload b)
       in Inr (noteChild (b\<lparr>b_metadata := m, b_payload := p @ data\<rparr>))))))"

definition addScalar ::
  "host \<Rightarrow> string \<Rightarrow> u8 \<Rightarrow> bytes \<Rightarrow> u8 \<Rightarrow> field_options list \<Rightarrow> builder \<Rightarrow> builder result" where
  "addScalar h name encoding data defaultFormat options b =
     bindR (resolveOptions defaultFormat options) (\<lambda>option.
     addField h name encoding ArrayScalar 0 data option b)"

definition addArray ::
  "host \<Rightarrow> string \<Rightarrow> u8 \<Rightarrow> nat \<Rightarrow> bytes \<Rightarrow> array_kind \<Rightarrow> u8 \<Rightarrow> field_options list \<Rightarrow> builder
    \<Rightarrow> builder result" where
  "addArray h name encoding count data kind defaultFormat options b =
     (if kind \<noteq> ArrayFixed \<and> kind \<noteq> ArrayVariable then fail ErrInvalidValue
      else if count > maxCount then fail ErrCountTooLarge
      else if kind = ArrayFixed \<and> count = 0 then fail ErrInvalidValue
      else bindR (resolveOptions defaultFormat options) (\<lambda>option.
        addField h name encoding kind (of_nat count) data option b))"

definition countedBytes :: "host \<Rightarrow> bytes \<Rightarrow> bytes result" where
  "countedBytes h value =
     (if length value > maxCount then fail ErrCountTooLarge
      else Inr (native16 h (of_nat (length value)) @ value))"

definition countedUint16 :: "host \<Rightarrow> u16 list \<Rightarrow> bytes result" where
  "countedUint16 h value =
     (if length value > maxCount then fail ErrCountTooLarge
      else Inr (native16 h (of_nat (length value)) @ concat (map (native16 h) value)))"


section \<open>The typed scalar methods\<close>

definition bool_byte :: "bool \<Rightarrow> byte" where
  "bool_byte v = (if v then 1 else 0)"

definition Builder_Int8 where
  "Builder_Int8 h name (value :: u8) options = addScalar h name EncodingValue8 [value] FormatSignedInt options"

definition Builder_Uint8 where
  "Builder_Uint8 h name (value :: u8) options = addScalar h name EncodingValue8 [value] FormatDefault options"

definition Builder_Int16 where
  "Builder_Int16 h name value options = addScalar h name EncodingValue16 (native16 h value) FormatSignedInt options"

definition Builder_Uint16 where
  "Builder_Uint16 h name value options = addScalar h name EncodingValue16 (native16 h value) FormatDefault options"

definition Builder_Int32 where
  "Builder_Int32 h name value options = addScalar h name EncodingValue32 (native32 h value) FormatSignedInt options"

definition Builder_Uint32 where
  "Builder_Uint32 h name value options = addScalar h name EncodingValue32 (native32 h value) FormatDefault options"

definition Builder_Int64 where
  "Builder_Int64 h name value options = addScalar h name EncodingValue64 (native64 h value) FormatSignedInt options"

definition Builder_Uint64 where
  "Builder_Uint64 h name value options = addScalar h name EncodingValue64 (native64 h value) FormatDefault options"

definition Builder_Bool where
  "Builder_Bool h name value options = addScalar h name EncodingValue8 [bool_byte value] FormatBoolean options"

definition Builder_Float32 where
  "Builder_Float32 h name value_bits options = addScalar h name EncodingValue32 (native32 h value_bits) FormatFloat options"

definition Builder_Float64 where
  "Builder_Float64 h name value_bits options = addScalar h name EncodingValue64 (native64 h value_bits) FormatFloat options"

definition Builder_Uintptr where
  "Builder_Uintptr h name (value :: u64) options =
     (if int64 h then addScalar h name EncodingValue64 (native64 h value) FormatDefault options
      else addScalar h name EncodingValue32 (native32 h (ucast value)) FormatDefault options)"

definition Builder_UUID where
  "Builder_UUID h name value options = addScalar h name EncodingValue128 value FormatUUID options"

definition Builder_IPv4 where
  "Builder_IPv4 h name value options = addScalar h name EncodingValue32 value FormatIPAddress options"

definition Builder_IPv6 where
  "Builder_IPv6 h name value options = addScalar h name EncodingValue128 value FormatIPAddress options"

definition Builder_Port where
  "Builder_Port h name value options = addScalar h name EncodingValue16 (put16 BigEndian value) FormatPort options"

definition Builder_String where
  "Builder_String h name value options b =
     (if \<not> utf8_valid (to_bytes value) then fail ErrInvalidValue
      else bindR (countedBytes h (to_bytes value)) (\<lambda>data.
        addScalar h name EncodingStringLength16Char8 data FormatDefault options b))"

definition Builder_UTF16 where
  "Builder_UTF16 h name value options b =
     bindR (countedUint16 h value) (\<lambda>data.
     addScalar h name EncodingStringLength16Char16 data FormatDefault options b)"

definition Builder_Binary where
  "Builder_Binary h name value options b =
     bindR (countedBytes h value) (\<lambda>data.
     addScalar h name EncodingBinaryLength16Char8 data FormatDefault options b)"


section \<open>The typed array methods\<close>

text \<open>A counted element list fails on its first over-long element.\<close>

fun counted_all :: "('a \<Rightarrow> bytes result) \<Rightarrow> 'a list \<Rightarrow> bytes result" where
  "counted_all f [] = Inr []"
| "counted_all f (v # vs) = bindR (f v) (\<lambda>e. bindR (counted_all f vs) (\<lambda>es. Inr (e @ es)))"

definition Builder_Int8Array where
  "Builder_Int8Array h name (values :: u8 list) kind options =
     addArray h name EncodingValue8 (length values) values kind FormatSignedInt options"

definition Builder_Uint8Array where
  "Builder_Uint8Array h name (values :: u8 list) kind options =
     addArray h name EncodingValue8 (length values) values kind FormatDefault options"

definition Builder_Int16Array where
  "Builder_Int16Array h name values kind options =
     addArray h name EncodingValue16 (length values) (concat (map (native16 h) values)) kind FormatSignedInt options"

definition Builder_Uint16Array where
  "Builder_Uint16Array h name values kind options =
     addArray h name EncodingValue16 (length values) (concat (map (native16 h) values)) kind FormatDefault options"

definition Builder_Int32Array where
  "Builder_Int32Array h name values kind options =
     addArray h name EncodingValue32 (length values) (concat (map (native32 h) values)) kind FormatSignedInt options"

definition Builder_Uint32Array where
  "Builder_Uint32Array h name values kind options =
     addArray h name EncodingValue32 (length values) (concat (map (native32 h) values)) kind FormatDefault options"

definition Builder_Int64Array where
  "Builder_Int64Array h name values kind options =
     addArray h name EncodingValue64 (length values) (concat (map (native64 h) values)) kind FormatSignedInt options"

definition Builder_Uint64Array where
  "Builder_Uint64Array h name values kind options =
     addArray h name EncodingValue64 (length values) (concat (map (native64 h) values)) kind FormatDefault options"

definition Builder_BoolArray where
  "Builder_BoolArray h name values kind options =
     addArray h name EncodingValue8 (length values) (map bool_byte values) kind FormatBoolean options"

definition Builder_Float32Array where
  "Builder_Float32Array h name values kind options =
     addArray h name EncodingValue32 (length values) (concat (map (native32 h) values)) kind FormatFloat options"

definition Builder_Float64Array where
  "Builder_Float64Array h name values kind options =
     addArray h name EncodingValue64 (length values) (concat (map (native64 h) values)) kind FormatFloat options"

definition Builder_UintptrArray where
  "Builder_UintptrArray h name (values :: u64 list) kind options =
     (if int64 h then
        addArray h name EncodingValue64 (length values) (concat (map (native64 h) values)) kind FormatDefault options
      else
        addArray h name EncodingValue32 (length values) (concat (map (\<lambda>v. native32 h (ucast v)) values)) kind
          FormatDefault options)"

definition Builder_UUIDArray where
  "Builder_UUIDArray h name values kind options =
     addArray h name EncodingValue128 (length values) (concat values) kind FormatUUID options"

definition Builder_IPv4Array where
  "Builder_IPv4Array h name values kind options =
     addArray h name EncodingValue32 (length values) (concat values) kind FormatIPAddress options"

definition Builder_IPv6Array where
  "Builder_IPv6Array h name values kind options =
     addArray h name EncodingValue128 (length values) (concat values) kind FormatIPAddress options"

definition Builder_PortArray where
  "Builder_PortArray h name values kind options =
     addArray h name EncodingValue16 (length values) (concat (map (put16 BigEndian) values)) kind FormatPort options"

definition Builder_StringArray where
  "Builder_StringArray h name values kind options b =
     bindR (counted_all (\<lambda>value. if \<not> utf8_valid (to_bytes value) then fail ErrInvalidValue
                                 else countedBytes h (to_bytes value)) values) (\<lambda>data.
     addArray h name EncodingStringLength16Char8 (length values) data kind FormatDefault options b)"

definition Builder_UTF16Array where
  "Builder_UTF16Array h name values kind options b =
     bindR (counted_all (countedUint16 h) values) (\<lambda>data.
     addArray h name EncodingStringLength16Char16 (length values) data kind FormatDefault options b)"

definition Builder_BinaryArray where
  "Builder_BinaryArray h name values kind options b =
     bindR (counted_all (countedBytes h) values) (\<lambda>data.
     addArray h name EncodingBinaryLength16Char8 (length values) data kind FormatDefault options b)"


section \<open>Encoding\<close>

definition encodeSegments :: "host \<Rightarrow> u8 \<Rightarrow> builder \<Rightarrow> (bytes \<times> bytes \<times> bytes) result" where
  "encodeSegments h level b =
     bindR (requireActive b) (\<lambda>_.
     if level < LevelCritical \<or> level > LevelVerbose then fail ErrInvalidLevel
     else if b_structs b \<noteq> [] then fail ErrState
     else if b_hasRel b \<and> \<not> b_hasAct b then fail ErrInvalidValue
     else if length (b_metadata b) > maxCount then fail ErrMetadataTooLarge
     else if length (b_metadata b) + length (b_payload b) > maxMetadataPayload then fail ErrEventTooLarge
     else
       let prefix = [defaultHeaderFlags h, b_version b];
           prefix = prefix @ native16 h (b_id b);
           prefix = prefix @ native16 h (b_tag b);
           prefix = prefix @ [b_opcode b, level];
           prefix =
             (if b_hasAct b then
                let prefix = prefix @ native16 h (if b_hasRel b then 32 else 16);
                    prefix = prefix @ native16 h (ExtensionActivityID OR ExtensionKindChainFlag);
                    prefix = prefix @ b_activity b
                in if b_hasRel b then prefix @ b_related b else prefix
              else prefix);
           prefix = prefix @ native16 h (of_nat (length (b_metadata b)));
           prefix = prefix @ native16 h ExtensionMetadata
       in Inr (prefix, b_metadata b, b_payload b))"

definition Encode :: "host \<Rightarrow> u8 \<Rightarrow> builder \<Rightarrow> bytes result" where
  "Encode h level b =
     bindR (encodeSegments h level b) (\<lambda>(prefix, metadata, payload).
     Inr (prefix @ metadata @ payload))"

end
