(* ===== verification/BuilderSpec.thy ===== *)
theory BuilderSpec imports Builder begin

text \<open>
  What an event builder promises, and that \<open>builder.go\<close> keeps it. The specification state
  \<open>event_spec\<close> is a tree: the fields completed so far, the structures still open, the payload and the
  header attributes. \<open>spec_metadata\<close> is the wire form of the tree. \<open>refines h s b\<close> relates it to the
  builder's byte buffer with its patch positions; every operation of the builder that succeeds is
  matched by the obvious operation on the tree.
\<close>


section \<open>Field trees and their wire form\<close>

datatype field_tree =
    Leaf (lf_name: string) (lf_encoding: u8) (lf_format: u8) (lf_tag: u16) (lf_kind: array_kind)
      (lf_count: u16)
  | Node (nd_name: string) (nd_tag: u16) (nd_children: "field_tree list")

definition valid_name :: "string \<Rightarrow> bool" where
  "valid_name n \<longleftrightarrow> validateMetadataName n = Inr ()"

definition chain_if :: "u16 \<Rightarrow> u8" where
  "chain_if t = (if t \<noteq> 0 then FormatChainFlag else 0)"

definition tag_bytes :: "host \<Rightarrow> u16 \<Rightarrow> bytes" where
  "tag_bytes h t = (if t \<noteq> 0 then native16 h t else [])"

definition kind_flag :: "array_kind \<Rightarrow> u8" where
  "kind_flag k = (case k of ArrayFixed \<Rightarrow> EncodingCArrayFlag | ArrayVariable \<Rightarrow> EncodingVArrayFlag | _ \<Rightarrow> 0)"

definition leaf_tail :: "host \<Rightarrow> u8 \<Rightarrow> u8 \<Rightarrow> u16 \<Rightarrow> array_kind \<Rightarrow> u16 \<Rightarrow> bytes" where
  "leaf_tail h e f t k c =
     (if f \<noteq> 0 \<or> t \<noteq> 0 then [e OR kind_flag k OR EncodingChainFlag, f OR chain_if t] @ tag_bytes h t
      else [e OR kind_flag k]) @
     (if k = ArrayFixed then native16 h c else [])"

definition struct_head :: "host \<Rightarrow> string \<Rightarrow> u16 \<Rightarrow> nat \<Rightarrow> bytes" where
  "struct_head h n t c = to_bytes n @ [0, 0x81, of_nat c OR chain_if t] @ tag_bytes h t"

fun ser_field :: "host \<Rightarrow> field_tree \<Rightarrow> bytes" where
  "ser_field h (Leaf n e f t k c) = to_bytes n @ [0] @ leaf_tail h e f t k c"
| "ser_field h (Node n t ts) = struct_head h n t (length ts) @ concat (map (ser_field h) ts)"

abbreviation (input) ser_fields :: "host \<Rightarrow> field_tree list \<Rightarrow> bytes" where
  "ser_fields h ts \<equiv> concat (map (ser_field h) ts)"

text \<open>
  Well-formed trees at a nesting depth: what the builder lets through. A field whose kind is not
  \<open>ArrayFixed\<close> carries no count.
\<close>

fun wf_tree :: "nat \<Rightarrow> field_tree \<Rightarrow> bool" where
  "wf_tree d (Leaf n e f t k c) \<longleftrightarrow>
     valid_name n \<and> e \<noteq> EncodingInvalid \<and> e \<noteq> EncodingStruct \<and> e AND NOT EncodingValueMask = 0 \<and>
     f AND NOT FormatValueMask = 0 \<and> (\<forall>x. k \<noteq> ArrayOther x) \<and>
     (k = ArrayFixed \<longleftrightarrow> c \<noteq> 0)"
| "wf_tree d (Node n t ts) \<longleftrightarrow>
     valid_name n \<and> d < 8 \<and> ts \<noteq> [] \<and> length ts \<le> 127 \<and> (\<forall>x\<in>set ts. wf_tree (Suc d) x)"

fun tree_size :: "field_tree \<Rightarrow> nat" where
  "tree_size (Leaf n e f t k c) = 1"
| "tree_size (Node n t ts) = 1 + sum_list (map tree_size ts)"


section \<open>The specification state\<close>

type_synonym open_struct = "string \<times> u16 \<times> field_tree list"

record event_spec =
  sp_name :: string
  sp_top :: "field_tree list"
  sp_open :: "open_struct list"
  sp_payload :: bytes

fun ser_open :: "host \<Rightarrow> open_struct \<Rightarrow> bytes" where
  "ser_open h (n, t, kids) = struct_head h n t 0 @ ser_fields h kids"

definition spec_base :: "host \<Rightarrow> event_spec \<Rightarrow> bytes" where
  "spec_base h s = to_bytes (sp_name s) @ [0] @ ser_fields h (sp_top s)"

definition spec_metadata :: "host \<Rightarrow> event_spec \<Rightarrow> bytes" where
  "spec_metadata h s = spec_base h s @ concat (map (ser_open h) (sp_open s))"

text \<open>
  The builder's stack for a list of open structures that starts at byte \<open>pos\<close>: the position of each
  one's format byte and its number of children, an open child structure counted in.
\<close>

fun frames :: "host \<Rightarrow> nat \<Rightarrow> open_struct list \<Rightarrow> struct_frame list" where
  "frames h pos [] = []"
| "frames h pos ((n, t, kids) # os) =
     \<lparr>fr_formatIndex = pos + length n + 2,
      fr_children = of_nat (length kids + (if os = [] then 0 else 1))\<rparr>
     # frames h (pos + length (ser_open h (n, t, kids))) os"

definition open_ok :: "nat \<Rightarrow> bool \<Rightarrow> open_struct \<Rightarrow> bool" where
  "open_ok d inner os =
     (case os of (n, t, kids) \<Rightarrow>
        valid_name n \<and> length kids + (if inner then 0 else 1) \<le> 127 \<and> (\<forall>x\<in>set kids. wf_tree (Suc d) x))"

fun opens_ok :: "nat \<Rightarrow> open_struct list \<Rightarrow> bool" where
  "opens_ok d [] = True"
| "opens_ok d (os # oss) \<longleftrightarrow> d < 8 \<and> open_ok d (oss = []) os \<and> opens_ok (Suc d) oss"

definition wf_spec :: "event_spec \<Rightarrow> bool" where
  "wf_spec s \<longleftrightarrow> valid_name (sp_name s) \<and> (\<forall>x\<in>set (sp_top s). wf_tree 0 x) \<and> opens_ok 0 (sp_open s)"

definition refines :: "host \<Rightarrow> event_spec \<Rightarrow> builder \<Rightarrow> bool" where
  "refines h s b \<longleftrightarrow>
     wf_spec s \<and> b_active b \<and> b_metadata b = spec_metadata h s \<and> b_payload b = sp_payload s \<and>
     b_structs b = frames h (length (spec_base h s)) (sp_open s)"

text \<open>The operations of the specification.\<close>

definition sp_add :: "field_tree \<Rightarrow> event_spec \<Rightarrow> event_spec" where
  "sp_add x s =
     (if sp_open s = [] then s\<lparr>sp_top := sp_top s @ [x]\<rparr>
      else case last (sp_open s) of (n, t, kids) \<Rightarrow>
        s\<lparr>sp_open := butlast (sp_open s) @ [(n, t, kids @ [x])]\<rparr>)"

definition sp_begin :: "string \<Rightarrow> u16 \<Rightarrow> event_spec \<Rightarrow> event_spec" where
  "sp_begin n t s = s\<lparr>sp_open := sp_open s @ [(n, t, [])]\<rparr>"

definition sp_end :: "event_spec \<Rightarrow> event_spec" where
  "sp_end s = (case last (sp_open s) of (n, t, kids) \<Rightarrow>
     sp_add (Node n t kids) (s\<lparr>sp_open := butlast (sp_open s)\<rparr>))"

definition sp_bytes :: "bytes \<Rightarrow> event_spec \<Rightarrow> event_spec" where
  "sp_bytes p s = s\<lparr>sp_payload := sp_payload s @ p\<rparr>"


section \<open>Frames and open structures\<close>

lemma length_struct_head [simp]:
  "length (struct_head h n t c) = length n + 3 + (if t = 0 then 0 else 2)"
  by (simp add: struct_head_def tag_bytes_def)

lemma frames_eq_Nil [simp]: "frames h pos os = [] \<longleftrightarrow> os = []"
  by (cases os) auto

lemma length_frames [simp]: "length (frames h pos os) = length os"
  by (induction h pos os rule: frames.induct) auto

lemma frames_snoc:
  "frames h pos (os @ [(n, t, kids)]) =
     (if os = [] then []
      else butlast (frames h pos os)
        @ [(last (frames h pos os))\<lparr>fr_children := fr_children (last (frames h pos os)) + 1\<rparr>])
     @ [\<lparr>fr_formatIndex = pos + length (concat (map (ser_open h) os)) + length n + 2,
         fr_children = of_nat (length kids)\<rparr>]"
proof (induction h pos os rule: frames.induct)
  case (2 h pos n t kids os)
  then show ?case by (cases os) (simp_all add: add.assoc)
qed simp

lemma last_frames_snoc:
  "last (frames h pos (os @ [(n, t, kids)])) =
     \<lparr>fr_formatIndex = pos + length (concat (map (ser_open h) os)) + length n + 2,
      fr_children = of_nat (length kids)\<rparr>"
  by (simp add: frames_snoc)

lemma opens_ok_snoc:
  "opens_ok d (os @ [x]) \<longleftrightarrow>
     opens_ok d os \<and> d + length os < 8 \<and> open_ok (d + length os) True x \<and>
     (os \<noteq> [] \<longrightarrow> open_ok (d + length os - 1) False (last os))"
proof (induction d os rule: opens_ok.induct)
  case (2 d os oss)
  have "open_ok d False os \<Longrightarrow> open_ok d (oss = []) os"
    by (auto simp: open_ok_def split: prod.splits)
  with 2 show ?case by (cases oss) auto
qed simp

lemmas opens_ok_snoc2 = opens_ok_snoc [of d "os @ [y]" x for d os x y, simplified]

lemma of_nat_lt_127: "(of_nat n :: u8) = 127 \<Longrightarrow> n \<le> 127 \<Longrightarrow> n = 127"
proof -
  assume a: "(of_nat n :: u8) = 127" "n \<le> 127"
  from a(2) have "unat (of_nat n :: u8) = n" by (simp add: unat_of_nat take_bit_eq_mod)
  moreover have "unat (of_nat n :: u8) = 127" using a(1) by simp
  ultimately show ?thesis by simp
qed



section \<open>Every operation refines its specification\<close>

lemma refinesD:
  assumes "refines h s b"
  shows "wf_spec s" "b_active b" "b_metadata b = spec_metadata h s" "b_payload b = sp_payload s"
    "b_structs b = frames h (length (spec_base h s)) (sp_open s)"
  using assms by (auto simp: refines_def)

lemma spec_cases:
  obtains (closed) "sp_open s = []"
  | (inside) os n t kids where "sp_open s = os @ [(n, t, kids)]"
  by (metis prod_cases3 rev_exhaust)

lemma canAddChild_room:
  assumes "refines h s b" "canAddChild b = Inr u" "sp_open s = os @ [(n, t, kids)]"
  shows "length kids < 127"
proof -
  have "b_structs b = frames h (length (spec_base h s)) (os @ [(n, t, kids)])"
    using refinesD(5) [OF assms(1)] assms(3) by simp
  then have "(of_nat (length kids) :: u8) \<noteq> 127"
    using assms(2) by (auto simp: canAddChild_def last_frames_snoc split: if_splits)
  moreover have "length kids \<le> 127"
    using refinesD(1) [OF assms(1)] assms(3) by (auto simp: wf_spec_def opens_ok_snoc open_ok_def)
  ultimately show ?thesis by (cases "length kids = 127") auto
qed

text \<open>Adding a completed subtree: the metadata grows by its wire form, the innermost frame counts it.\<close>

lemma spec_metadata_add: "spec_metadata h (sp_add x s) = spec_metadata h s @ ser_field h x"
  by (cases s rule: spec_cases) (simp_all add: sp_add_def spec_metadata_def spec_base_def)

lemma wf_spec_add:
  assumes "wf_spec s" "wf_tree (length (sp_open s)) x"
    "\<And>os n t kids. sp_open s = os @ [(n, t, kids)] \<Longrightarrow> length kids < 127"
  shows "wf_spec (sp_add x s)"
proof (cases s rule: spec_cases)
  case closed
  with assms show ?thesis by (auto simp: wf_spec_def sp_add_def)
next
  case (inside os n t kids)
  with assms(1,2) assms(3) [OF inside] show ?thesis
    by (auto simp: wf_spec_def sp_add_def opens_ok_snoc open_ok_def)
qed

lemma noteChild_frames:
  assumes "b_structs b = frames h (length (spec_base h s)) (sp_open s)"
  shows "b_structs (noteChild b) = frames h (length (spec_base h (sp_add x s))) (sp_open (sp_add x s))"
proof (cases s rule: spec_cases)
  case closed
  with assms show ?thesis by (simp add: noteChild_def sp_add_def)
next
  case (inside os n t kids)
  with assms have b: "b_structs b = frames h (length (spec_base h s)) (os @ [(n, t, kids)])"
    by simp
  have base: "spec_base h (sp_add x s) = spec_base h s"
    using inside by (simp add: sp_add_def spec_base_def)
  have "(of_nat (length kids) + 1 :: u8) = of_nat (length kids + 1)" by simp
  then show ?thesis
    unfolding base using inside b
    by (simp add: noteChild_def sp_add_def last_frames_snoc) (simp add: frames_snoc)
qed

lemma noteChild_simps [simp]:
  "b_metadata (noteChild b) = b_metadata b" "b_payload (noteChild b) = b_payload b"
  "b_active (noteChild b) = b_active b" "b_version (noteChild b) = b_version b"
  "b_id (noteChild b) = b_id b" "b_tag (noteChild b) = b_tag b" "b_opcode (noteChild b) = b_opcode b"
  "b_activity (noteChild b) = b_activity b" "b_related (noteChild b) = b_related b"
  "b_hasAct (noteChild b) = b_hasAct b" "b_hasRel (noteChild b) = b_hasRel b"
  by (simp_all add: noteChild_def)

lemma sp_add_payload [simp]: "sp_payload (sp_add x s) = sp_payload s" "sp_name (sp_add x s) = sp_name s"
  by (simp_all add: sp_add_def split: prod.splits)

lemma sp_bytes_simps [simp]:
  "sp_open (sp_bytes p s) = sp_open s" "sp_top (sp_bytes p s) = sp_top s"
  "sp_name (sp_bytes p s) = sp_name s" "sp_payload (sp_bytes p s) = sp_payload s @ p"
  by (simp_all add: sp_bytes_def)

lemma sp_bytes_spec [simp]:
  "spec_base h (sp_bytes p s) = spec_base h s" "spec_metadata h (sp_bytes p s) = spec_metadata h s"
  "wf_spec (sp_bytes p s) = wf_spec s"
  by (simp_all add: spec_base_def spec_metadata_def wf_spec_def)

lemma refines_Reset: "Reset name b0 = Inr b \<Longrightarrow>
    refines h \<lparr>sp_name = name, sp_top = [], sp_open = [], sp_payload = []\<rparr> b"
  by (auto simp: Reset_def result_simps refines_def wf_spec_def spec_metadata_def spec_base_def
      valid_name_def)

text \<open>The wire form of one field, as the code writes it.\<close>

definition kind_count :: "array_kind \<Rightarrow> u16 \<Rightarrow> u16" where
  "kind_count k c = (if k = ArrayFixed then c else 0)"

definition kind_prefix :: "host \<Rightarrow> array_kind \<Rightarrow> u16 \<Rightarrow> bytes" where
  "kind_prefix h k c = (if k = ArrayVariable then native16 h c else [])"

lemma addField_result:
  assumes "addField h name e k c data opt b = Inr b'"
  shows "b' = noteChild (b\<lparr>b_metadata := b_metadata b @
             ser_field h (Leaf name e (opt_Format opt) (opt_Tag opt) k (kind_count k c)),
           b_payload := b_payload b @ kind_prefix h k c @ data\<rparr>)"
    and "valid_name name" "canAddChild b = Inr ()" "e \<noteq> 0" "e \<noteq> 1" "e AND NOT EncodingValueMask = 0"
    "\<forall>x. k \<noteq> ArrayOther x" "k = ArrayFixed \<Longrightarrow> c \<noteq> 0"
  using assms
  by (auto simp: addField_def result_simps Let_def valid_name_def leaf_tail_def kind_flag_def
      chain_if_def tag_bytes_def kind_count_def kind_prefix_def or.assoc
      split: array_kind.splits if_splits)

text \<open>
  \<open>addField\<close> appends one leaf, and its value bytes after the element count of a variable array.
\<close>

lemma refines_addField:
  assumes "refines h s b" "addField h name e k c data opt b = Inr b'"
    "opt_Format opt AND NOT FormatValueMask = 0"
  shows "refines h (sp_bytes (kind_prefix h k c @ data)
      (sp_add (Leaf name e (opt_Format opt) (opt_Tag opt) k (kind_count k c)) s)) b'"
proof -
  note r = addField_result [OF assms(2)]
  let ?x = "Leaf name e (opt_Format opt) (opt_Tag opt) k (kind_count k c)"
  have "wf_tree (length (sp_open s)) ?x"
    using r(2-8) assms(3) by (auto simp: kind_count_def)
  then have "wf_spec (sp_add ?x s)"
    using wf_spec_add refinesD(1) [OF assms(1)] canAddChild_room [OF assms(1) r(3)] by blast
  moreover have "b_structs b' = frames h (length (spec_base h (sp_add ?x s))) (sp_open (sp_add ?x s))"
    unfolding r(1) by (rule noteChild_frames) (simp add: refinesD(5) [OF assms(1)])
  ultimately show ?thesis
    using refinesD(2-4) [OF assms(1)] r(1)
    by (simp add: refines_def spec_metadata_add)
qed

text \<open>\<open>BeginStruct\<close> opens a structure inside the innermost one.\<close>

lemma BeginStruct_result:
  assumes "BeginStruct h name t b = Inr b'"
  shows "b' = (let b1 = noteChild (b\<lparr>b_metadata := b_metadata b @ struct_head h name t 0\<rparr>) in
      b1\<lparr>b_structs := b_structs b1
          @ [\<lparr>fr_formatIndex = length (b_metadata b) + length name + 2, fr_children = 0\<rparr>]\<rparr>)"
    and "valid_name name" "canAddChild b = Inr ()" "length (b_structs b) < 8"
  using assms
  by (auto simp: BeginStruct_def result_simps Let_def valid_name_def struct_head_def chain_if_def
      tag_bytes_def split: if_splits)

lemma refines_BeginStruct:
  assumes "refines h s b" "BeginStruct h name t b = Inr b'"
  shows "refines h (sp_begin name t s) b'"
proof -
  note r = BeginStruct_result [OF assms(2)] and s = refinesD [OF assms(1)]
  have room: "\<And>os n u kids. sp_open s = os @ [(n, u, kids)] \<Longrightarrow> length kids < 127"
    using canAddChild_room [OF assms(1) r(3)] by blast
  have depth: "length (sp_open s) < 8" using r(4) s(5) by simp
  have base: "spec_base h (sp_begin name t s) = spec_base h s"
    by (simp add: spec_base_def sp_begin_def)
  have wf: "wf_spec (sp_begin name t s)"
    using s(1) r(2) depth room
    by (cases s rule: spec_cases)
       (auto simp: wf_spec_def sp_begin_def opens_ok_snoc opens_ok_snoc2 open_ok_def)
  have meta: "b_metadata b' = spec_metadata h (sp_begin name t s)"
    using r(1) s(3) base by (simp add: Let_def spec_metadata_def sp_begin_def)
  have "length (b_metadata b) = length (spec_base h s) + length (concat (map (ser_open h) (sp_open s)))"
    using s(3) by (simp add: spec_metadata_def)
  then have structs: "b_structs b' = frames h (length (spec_base h s)) (sp_open s @ [(name, t, [])])"
    using r(1) s(5) by (simp add: Let_def frames_snoc noteChild_def)
  show ?thesis
    using wf meta structs s(2,4) r(1) base by (simp add: refines_def Let_def) (simp add: sp_begin_def)
qed

text \<open>\<open>EndStruct\<close> patches the child count into the format byte it finds through the frame.\<close>

lemma struct_head_patch:
  assumes "p = length pre + length n + 2"
  shows "index (pre @ struct_head h n t 0 @ rest) p = Inr (chain_if t)"
    and "(pre @ struct_head h n t 0 @ rest)[p := of_nat c OR chain_if t] = pre @ struct_head h n t c @ rest"
proof -
  have split: "struct_head h n t k @ rest =
      (to_bytes n @ [0, 0x81]) @ (of_nat k OR chain_if t) # tag_bytes h t @ rest" for k
    by (simp add: struct_head_def)
  have p: "p = length (pre @ to_bytes n @ [0, 0x81])" using assms by simp
  have "index ((pre @ to_bytes n @ [0, 0x81]) @ (of_nat 0 OR chain_if t) # tag_bytes h t @ rest) p
      = Inr (of_nat 0 OR chain_if t)"
    unfolding p by (rule index_append_length)
  then show "index (pre @ struct_head h n t 0 @ rest) p = Inr (chain_if t)"
    by (simp add: split)
  have "((pre @ to_bytes n @ [0, 0x81]) @ (of_nat 0 OR chain_if t) # tag_bytes h t @ rest)
        [p := of_nat c OR chain_if t]
      = (pre @ to_bytes n @ [0, 0x81]) @ (of_nat c OR chain_if t) # tag_bytes h t @ rest"
    unfolding p by (rule list_update_length)
  then show "(pre @ struct_head h n t 0 @ rest)[p := of_nat c OR chain_if t]
      = pre @ struct_head h n t c @ rest"
    by (simp only: split append_assoc)
qed

lemma chain_if_mask: "chain_if t AND FormatChainFlag = chain_if t"
  by (simp add: chain_if_def)

lemma of_nat_eq_0: "n \<le> 127 \<Longrightarrow> (of_nat n :: u8) = 0 \<longleftrightarrow> n = 0"
proof -
  assume "n \<le> 127"
  then have "unat (of_nat n :: u8) = n" by (simp add: unat_of_nat take_bit_eq_mod)
  then show ?thesis by (metis unsigned_eq_0_iff)
qed

lemma EndStruct_spec:
  assumes "refines h s b" "sp_open s = os @ [(n, t, kids)]"
  shows "EndStruct b =
    (if kids = [] then fail ErrState
     else Inr (b\<lparr>b_metadata := spec_base h s @ concat (map (ser_open h) os)
                    @ struct_head h n t (length kids) @ ser_fields h kids,
                 b_structs := butlast (b_structs b)\<rparr>))"
proof -
  note s = refinesD [OF assms(1)]
  let ?pre = "spec_base h s @ concat (map (ser_open h) os)"
  let ?p = "length ?pre + length n + 2"
  have frame: "last (b_structs b) = \<lparr>fr_formatIndex = ?p, fr_children = of_nat (length kids)\<rparr>"
    "b_structs b \<noteq> []"
    using s(5) assms(2) by (simp_all add: last_frames_snoc)
  have len: "length kids \<le> 127"
    using s(1) assms(2) by (auto simp: wf_spec_def opens_ok_snoc open_ok_def)
  have meta: "b_metadata b = ?pre @ struct_head h n t 0 @ ser_fields h kids"
    using s(3) assms(2) by (simp add: spec_metadata_def)
  note patch = struct_head_patch [where p = ?p and pre = ?pre and n = n and h = h and t = t
      and rest = "ser_fields h kids", OF refl]
  show ?thesis
    using s(2) frame of_nat_eq_0 [OF len] patch(1) patch(2) [where c = "length kids"]
    by (simp add: EndStruct_def requireActive_def Let_def meta chain_if_mask or.commute)
qed

lemma butlast_frames_add:
  assumes "opens_ok 0 (os @ [(n, t, kids)])"
    "sp_open s = os @ [(n, t, kids)]" "s' = s\<lparr>sp_open := os\<rparr>"
  shows "butlast (frames h (length (spec_base h s)) (sp_open s))
    = frames h (length (spec_base h s)) (sp_open (sp_add x s'))"
proof (cases s' rule: spec_cases)
  case closed
  with assms show ?thesis by (simp add: sp_add_def)
next
  case (inside os' n' t' kids')
  with assms have os: "os = os' @ [(n', t', kids')]" by simp
  have "(of_nat (length kids') + 1 :: u8) = of_nat (length kids' + 1)" by simp
  then show ?thesis
    using assms(2,3) os
    by (simp add: sp_add_def frames_snoc [of h _ "os' @ [(n', t', kids')]", simplified] last_frames_snoc)
       (simp add: frames_snoc butlast_append add.commute)
qed

lemma refines_EndStruct:
  assumes "refines h s b" "EndStruct b = Inr b'"
  shows "refines h (sp_end s) b'"
proof -
  note s = refinesD [OF assms(1)]
  have "b_structs b \<noteq> []" using assms(2) by (auto simp: EndStruct_def result_simps)
  then obtain os n t kids where opened: "sp_open s = os @ [(n, t, kids)]"
    using s(5) by (cases s rule: spec_cases) auto
  note e = EndStruct_spec [OF assms(1) opened]
  have kids: "kids \<noteq> []" using assms(2) e by (auto split: if_splits)
  let ?s' = "s\<lparr>sp_open := os\<rparr>"
  have sp_end: "sp_end s = sp_add (Node n t kids) ?s'" using opened by (simp add: sp_end_def)
  have opens: "opens_ok 0 (os @ [(n, t, kids)])" using s(1) opened by (simp add: wf_spec_def)
  have "wf_spec ?s'" using s(1) opens by (auto simp: wf_spec_def opens_ok_snoc)
  moreover have "wf_tree (length (sp_open ?s')) (Node n t kids)"
    using opens kids by (auto simp: opens_ok_snoc open_ok_def)
  moreover have "\<And>os1 n1 t1 kids1. sp_open ?s' = os1 @ [(n1, t1, kids1)] \<Longrightarrow> length kids1 < 127"
    using opens by (auto simp: opens_ok_snoc2 opens_ok_snoc open_ok_def)
  ultimately have wf: "wf_spec (sp_end s)" unfolding sp_end by (rule wf_spec_add)
  have base: "spec_base h (sp_end s) = (if os = [] then spec_base h s @ ser_field h (Node n t kids)
      else spec_base h s)"
    unfolding sp_end by (auto simp: sp_add_def spec_base_def split: prod.splits)
  have b': "b' = b\<lparr>b_metadata := spec_base h s @ concat (map (ser_open h) os)
        @ struct_head h n t (length kids) @ ser_fields h kids, b_structs := butlast (b_structs b)\<rparr>"
    using assms(2) e kids by simp
  have meta: "b_metadata b' = spec_metadata h (sp_end s)"
    unfolding sp_end spec_metadata_add b' by (simp add: spec_metadata_def spec_base_def)
  have "b_structs b' = butlast (b_structs b)" by (simp add: b')
  then have "b_structs b' = frames h (length (spec_base h s)) (sp_open (sp_end s))"
    using s(5) butlast_frames_add [OF opens opened refl] by (simp add: sp_end)
  moreover have "sp_open (sp_end s) = []" if "os = []"
    using that by (simp add: sp_end sp_add_def)
  ultimately have structs: "b_structs b' = frames h (length (spec_base h (sp_end s))) (sp_open (sp_end s))"
    using base by (cases "os = []") simp_all
  show ?thesis
    using wf meta structs s(2,4) by (simp add: refines_def sp_end b')
qed

end
