(* ===== verification/BuilderApi.thy ===== *)
theory BuilderApi imports BuilderSpec begin

text \<open>
  The public field methods of the builder as one alphabet. \<open>go_value\<close> and \<open>go_array\<close> are the typed
  values the methods take, \<open>builder_scalar\<close> and \<open>builder_array\<close> dispatch to the method of the type,
  and \<open>run_calls\<close> is any sequence of calls on a new builder. The main result is that such a
  sequence, where it succeeds, is matched call for call by the tree specification.
\<close>


section \<open>Typed values\<close>

datatype go_value =
    VInt8 u8 | VUint8 u8 | VInt16 u16 | VUint16 u16 | VInt32 u32 | VUint32 u32 | VInt64 u64
  | VUint64 u64 | VBool bool | VFloat32 u32 | VFloat64 u64 | VUintptr u64 | VUUID bytes
  | VIPv4 bytes | VIPv6 bytes | VPort u16 | VString string | VUTF16 "u16 list" | VBinary bytes

datatype go_array =
    AInt8 "u8 list" | AUint8 "u8 list" | AInt16 "u16 list" | AUint16 "u16 list" | AInt32 "u32 list"
  | AUint32 "u32 list" | AInt64 "u64 list" | AUint64 "u64 list" | ABool "bool list"
  | AFloat32 "u32 list" | AFloat64 "u64 list" | AUintptr "u64 list" | AUUID "bytes list"
  | AIPv4 "bytes list" | AIPv6 "bytes list" | APort "u16 list" | AString "string list"
  | AUTF16 "u16 list list" | ABinary "bytes list"

text \<open>The elements of a typed array as scalars of its type.\<close>

fun elements :: "go_array \<Rightarrow> go_value list" where
  "elements (AInt8 vs) = map VInt8 vs"
| "elements (AUint8 vs) = map VUint8 vs"
| "elements (AInt16 vs) = map VInt16 vs"
| "elements (AUint16 vs) = map VUint16 vs"
| "elements (AInt32 vs) = map VInt32 vs"
| "elements (AUint32 vs) = map VUint32 vs"
| "elements (AInt64 vs) = map VInt64 vs"
| "elements (AUint64 vs) = map VUint64 vs"
| "elements (ABool vs) = map VBool vs"
| "elements (AFloat32 vs) = map VFloat32 vs"
| "elements (AFloat64 vs) = map VFloat64 vs"
| "elements (AUintptr vs) = map VUintptr vs"
| "elements (AUUID vs) = map VUUID vs"
| "elements (AIPv4 vs) = map VIPv4 vs"
| "elements (AIPv6 vs) = map VIPv6 vs"
| "elements (APort vs) = map VPort vs"
| "elements (AString vs) = map VString vs"
| "elements (AUTF16 vs) = map VUTF16 vs"
| "elements (ABinary vs) = map VBinary vs"

text \<open>The encoding and default format of a scalar, and of the elements of an array.\<close>

fun value_encoding :: "host \<Rightarrow> go_value \<Rightarrow> u8" where
  "value_encoding h (VInt8 _) = EncodingValue8"
| "value_encoding h (VUint8 _) = EncodingValue8"
| "value_encoding h (VInt16 _) = EncodingValue16"
| "value_encoding h (VUint16 _) = EncodingValue16"
| "value_encoding h (VInt32 _) = EncodingValue32"
| "value_encoding h (VUint32 _) = EncodingValue32"
| "value_encoding h (VInt64 _) = EncodingValue64"
| "value_encoding h (VUint64 _) = EncodingValue64"
| "value_encoding h (VBool _) = EncodingValue8"
| "value_encoding h (VFloat32 _) = EncodingValue32"
| "value_encoding h (VFloat64 _) = EncodingValue64"
| "value_encoding h (VUintptr _) = (if int64 h then EncodingValue64 else EncodingValue32)"
| "value_encoding h (VUUID _) = EncodingValue128"
| "value_encoding h (VIPv4 _) = EncodingValue32"
| "value_encoding h (VIPv6 _) = EncodingValue128"
| "value_encoding h (VPort _) = EncodingValue16"
| "value_encoding h (VString _) = EncodingStringLength16Char8"
| "value_encoding h (VUTF16 _) = EncodingStringLength16Char16"
| "value_encoding h (VBinary _) = EncodingBinaryLength16Char8"

fun value_format :: "go_value \<Rightarrow> u8" where
  "value_format (VInt8 _) = FormatSignedInt"
| "value_format (VInt16 _) = FormatSignedInt"
| "value_format (VInt32 _) = FormatSignedInt"
| "value_format (VInt64 _) = FormatSignedInt"
| "value_format (VBool _) = FormatBoolean"
| "value_format (VFloat32 _) = FormatFloat"
| "value_format (VFloat64 _) = FormatFloat"
| "value_format (VUUID _) = FormatUUID"
| "value_format (VIPv4 _) = FormatIPAddress"
| "value_format (VIPv6 _) = FormatIPAddress"
| "value_format (VPort _) = FormatPort"
| "value_format _ = FormatDefault"

text \<open>An array's encoding and format do not depend on its elements: a sample scalar of its type.\<close>

fun sample :: "go_array \<Rightarrow> go_value" where
  "sample (AInt8 _) = VInt8 0"
| "sample (AUint8 _) = VUint8 0"
| "sample (AInt16 _) = VInt16 0"
| "sample (AUint16 _) = VUint16 0"
| "sample (AInt32 _) = VInt32 0"
| "sample (AUint32 _) = VUint32 0"
| "sample (AInt64 _) = VInt64 0"
| "sample (AUint64 _) = VUint64 0"
| "sample (ABool _) = VBool False"
| "sample (AFloat32 _) = VFloat32 0"
| "sample (AFloat64 _) = VFloat64 0"
| "sample (AUintptr _) = VUintptr 0"
| "sample (AUUID _) = VUUID []"
| "sample (AIPv4 _) = VIPv4 []"
| "sample (AIPv6 _) = VIPv6 []"
| "sample (APort _) = VPort 0"
| "sample (AString _) = VString []"
| "sample (AUTF16 _) = VUTF16 []"
| "sample (ABinary _) = VBinary []"

text \<open>The wire form of a value: fixed-width bytes, or a 16-bit count and that many units.\<close>

fun value_wire :: "host \<Rightarrow> go_value \<Rightarrow> bytes" where
  "value_wire h (VInt8 v) = [v]"
| "value_wire h (VUint8 v) = [v]"
| "value_wire h (VInt16 v) = native16 h v"
| "value_wire h (VUint16 v) = native16 h v"
| "value_wire h (VInt32 v) = native32 h v"
| "value_wire h (VUint32 v) = native32 h v"
| "value_wire h (VInt64 v) = native64 h v"
| "value_wire h (VUint64 v) = native64 h v"
| "value_wire h (VBool v) = [bool_byte v]"
| "value_wire h (VFloat32 v) = native32 h v"
| "value_wire h (VFloat64 v) = native64 h v"
| "value_wire h (VUintptr v) = (if int64 h then native64 h v else native32 h (ucast v))"
| "value_wire h (VUUID v) = v"
| "value_wire h (VIPv4 v) = v"
| "value_wire h (VIPv6 v) = v"
| "value_wire h (VPort v) = put16 BigEndian v"
| "value_wire h (VString v) = native16 h (of_nat (length v)) @ to_bytes v"
| "value_wire h (VUTF16 v) = native16 h (of_nat (length v)) @ concat (map (native16 h) v)"
| "value_wire h (VBinary v) = native16 h (of_nat (length v)) @ v"

text \<open>The values the typed methods accept: UTF-8 strings, counts that fit in 16 bits.\<close>

fun value_ok :: "go_value \<Rightarrow> bool" where
  "value_ok (VString v) \<longleftrightarrow> utf8_valid (to_bytes v) \<and> length v \<le> maxCount"
| "value_ok (VUTF16 v) \<longleftrightarrow> length v \<le> maxCount"
| "value_ok (VBinary v) \<longleftrightarrow> length v \<le> maxCount"
| "value_ok _ \<longleftrightarrow> True"

text \<open>What Go's types guarantee of the fixed-size arrays.\<close>

fun typed :: "go_value \<Rightarrow> bool" where
  "typed (VUUID v) \<longleftrightarrow> length v = 16"
| "typed (VIPv4 v) \<longleftrightarrow> length v = 4"
| "typed (VIPv6 v) \<longleftrightarrow> length v = 16"
| "typed _ \<longleftrightarrow> True"


section \<open>The calls\<close>

fun builder_scalar ::
  "host \<Rightarrow> string \<Rightarrow> go_value \<Rightarrow> field_options list \<Rightarrow> builder \<Rightarrow> builder result" where
  "builder_scalar h n (VInt8 v) = Builder_Int8 h n v"
| "builder_scalar h n (VUint8 v) = Builder_Uint8 h n v"
| "builder_scalar h n (VInt16 v) = Builder_Int16 h n v"
| "builder_scalar h n (VUint16 v) = Builder_Uint16 h n v"
| "builder_scalar h n (VInt32 v) = Builder_Int32 h n v"
| "builder_scalar h n (VUint32 v) = Builder_Uint32 h n v"
| "builder_scalar h n (VInt64 v) = Builder_Int64 h n v"
| "builder_scalar h n (VUint64 v) = Builder_Uint64 h n v"
| "builder_scalar h n (VBool v) = Builder_Bool h n v"
| "builder_scalar h n (VFloat32 v) = Builder_Float32 h n v"
| "builder_scalar h n (VFloat64 v) = Builder_Float64 h n v"
| "builder_scalar h n (VUintptr v) = Builder_Uintptr h n v"
| "builder_scalar h n (VUUID v) = Builder_UUID h n v"
| "builder_scalar h n (VIPv4 v) = Builder_IPv4 h n v"
| "builder_scalar h n (VIPv6 v) = Builder_IPv6 h n v"
| "builder_scalar h n (VPort v) = Builder_Port h n v"
| "builder_scalar h n (VString v) = Builder_String h n v"
| "builder_scalar h n (VUTF16 v) = Builder_UTF16 h n v"
| "builder_scalar h n (VBinary v) = Builder_Binary h n v"

fun builder_array ::
  "host \<Rightarrow> string \<Rightarrow> go_array \<Rightarrow> array_kind \<Rightarrow> field_options list \<Rightarrow> builder \<Rightarrow> builder result" where
  "builder_array h n (AInt8 vs) = Builder_Int8Array h n vs"
| "builder_array h n (AUint8 vs) = Builder_Uint8Array h n vs"
| "builder_array h n (AInt16 vs) = Builder_Int16Array h n vs"
| "builder_array h n (AUint16 vs) = Builder_Uint16Array h n vs"
| "builder_array h n (AInt32 vs) = Builder_Int32Array h n vs"
| "builder_array h n (AUint32 vs) = Builder_Uint32Array h n vs"
| "builder_array h n (AInt64 vs) = Builder_Int64Array h n vs"
| "builder_array h n (AUint64 vs) = Builder_Uint64Array h n vs"
| "builder_array h n (ABool vs) = Builder_BoolArray h n vs"
| "builder_array h n (AFloat32 vs) = Builder_Float32Array h n vs"
| "builder_array h n (AFloat64 vs) = Builder_Float64Array h n vs"
| "builder_array h n (AUintptr vs) = Builder_UintptrArray h n vs"
| "builder_array h n (AUUID vs) = Builder_UUIDArray h n vs"
| "builder_array h n (AIPv4 vs) = Builder_IPv4Array h n vs"
| "builder_array h n (AIPv6 vs) = Builder_IPv6Array h n vs"
| "builder_array h n (APort vs) = Builder_PortArray h n vs"
| "builder_array h n (AString vs) = Builder_StringArray h n vs"
| "builder_array h n (AUTF16 vs) = Builder_UTF16Array h n vs"
| "builder_array h n (ABinary vs) = Builder_BinaryArray h n vs"

datatype call =
    CScalar string go_value "field_options list"
  | CArray string go_array array_kind "field_options list"
  | CBegin string u16
  | CEnd
  | CSetVersion u8 | CSetID u16 | CSetIDVersion u16 u8 | CSetTag u16 | CSetOpcode u8
  | CSetActivity "bytes option" "bytes option"

fun exec_call :: "host \<Rightarrow> call \<Rightarrow> builder \<Rightarrow> builder result" where
  "exec_call h (CScalar n v opts) = builder_scalar h n v opts"
| "exec_call h (CArray n vs k opts) = builder_array h n vs k opts"
| "exec_call h (CBegin n t) = BeginStruct h n t"
| "exec_call h CEnd = EndStruct"
| "exec_call h (CSetVersion v) = SetVersion v"
| "exec_call h (CSetID i) = SetID i"
| "exec_call h (CSetIDVersion i v) = SetIDVersion i v"
| "exec_call h (CSetTag t) = SetTag t"
| "exec_call h (CSetOpcode oc) = SetOpcode oc"
| "exec_call h (CSetActivity a r) = SetActivity a r"

fun run_calls :: "host \<Rightarrow> call list \<Rightarrow> builder \<Rightarrow> builder result" where
  "run_calls h [] b = Inr b"
| "run_calls h (c # cs) b = bindR (exec_call h c b) (run_calls h cs)"


section \<open>The calls on the specification\<close>

definition option_format :: "u8 \<Rightarrow> field_options list \<Rightarrow> u8" where
  "option_format d opts =
     (case opts of [] \<Rightarrow> d | opt # _ \<Rightarrow> if opt_Format opt \<noteq> FormatDefault then opt_Format opt else d)"

definition option_tag :: "field_options list \<Rightarrow> u16" where
  "option_tag opts = (case opts of [] \<Rightarrow> 0 | opt # _ \<Rightarrow> opt_Tag opt)"

fun spec_call :: "host \<Rightarrow> call \<Rightarrow> event_spec \<Rightarrow> event_spec" where
  "spec_call h (CScalar n v opts) s =
     sp_bytes (value_wire h v)
       (sp_add (Leaf n (value_encoding h v) (option_format (value_format v) opts) (option_tag opts)
                  ArrayScalar 0) s)"
| "spec_call h (CArray n vs k opts) s =
     (let count = of_nat (length (elements vs)) in
      sp_bytes (kind_prefix h k count @ concat (map (value_wire h) (elements vs)))
        (sp_add (Leaf n (value_encoding h (sample vs)) (option_format (value_format (sample vs)) opts)
                   (option_tag opts) k (kind_count k count)) s))"
| "spec_call h (CBegin n t) s = sp_begin n t s"
| "spec_call h CEnd s = sp_end s"
| "spec_call h _ s = s"

fun spec_calls :: "host \<Rightarrow> call list \<Rightarrow> event_spec \<Rightarrow> event_spec" where
  "spec_calls h [] s = s"
| "spec_calls h (c # cs) s = spec_calls h cs (spec_call h c s)"

definition spec_new :: "string \<Rightarrow> event_spec" where
  "spec_new name = \<lparr>sp_name = name, sp_top = [], sp_open = [], sp_payload = []\<rparr>"


section \<open>The refinement\<close>

lemma resolveOptions_result:
  "resolveOptions d opts = Inr opt \<Longrightarrow>
     opt_Format opt = option_format d opts \<and> opt_Tag opt = option_tag opts"
  by (cases opts)
     (auto simp: resolveOptions_def option_format_def option_tag_def Let_def split: if_splits)

lemma resolveOptions_mask:
  "resolveOptions d opts = Inr opt \<Longrightarrow> opt_Format opt AND NOT FormatValueMask = 0"
  by (auto simp: resolveOptions_def Let_def split: if_splits)

lemmas builder_scalar_defs =
  Builder_Int8_def Builder_Uint8_def Builder_Int16_def Builder_Uint16_def Builder_Int32_def
  Builder_Uint32_def Builder_Int64_def Builder_Uint64_def Builder_Bool_def Builder_Float32_def
  Builder_Float64_def Builder_Uintptr_def Builder_UUID_def Builder_IPv4_def Builder_IPv6_def
  Builder_Port_def Builder_String_def Builder_UTF16_def Builder_Binary_def

lemmas builder_array_defs =
  Builder_Int8Array_def Builder_Uint8Array_def Builder_Int16Array_def Builder_Uint16Array_def
  Builder_Int32Array_def Builder_Uint32Array_def Builder_Int64Array_def Builder_Uint64Array_def
  Builder_BoolArray_def Builder_Float32Array_def Builder_Float64Array_def Builder_UintptrArray_def
  Builder_UUIDArray_def Builder_IPv4Array_def Builder_IPv6Array_def Builder_PortArray_def
  Builder_StringArray_def Builder_UTF16Array_def Builder_BinaryArray_def

text \<open>Every scalar method is \<open>addScalar\<close> on the value's wire form, once the value is accepted.\<close>

lemma builder_scalar_wire:
  "builder_scalar h n v opts b =
     (if value_ok v then addScalar h n (value_encoding h v) (value_wire h v) (value_format v) opts b
      else if \<exists>s. v = VString s \<and> \<not> utf8_valid (to_bytes s) then fail ErrInvalidValue
      else fail ErrCountTooLarge)"
  by (cases v) (auto simp: builder_scalar_defs countedBytes_def countedUint16_def)

lemma counted_all_Inr:
  "counted_all f vs = Inr bs \<longleftrightarrow> (\<forall>v\<in>set vs. \<exists>d. f v = Inr d) \<and> bs = concat (map (projr \<circ> f) vs)"
  by (induction vs arbitrary: bs) (auto simp: result_simps)

lemma concat_singletons [simp]: "concat (map (\<lambda>x. [f x]) xs) = map f xs"
  by (induction xs) auto

lemma addArray_cong_wire:
  "addArray h n e (length xs) d k f opts b = Inr b' \<Longrightarrow> length xs = m \<Longrightarrow> d = d' \<Longrightarrow>
   addArray h n e m d' k f opts b = Inr b'"
  by simp

lemma builder_array_wire:
  assumes "builder_array h n vs k opts b = Inr b'"
  shows "addArray h n (value_encoding h (sample vs)) (length (elements vs))
           (concat (map (value_wire h) (elements vs))) k (value_format (sample vs)) opts b = Inr b'"
    and "\<forall>v\<in>set (elements vs). value_ok v"
  using assms
  by (cases vs; force simp: builder_array_defs countedBytes_def countedUint16_def result_simps
      counted_all_Inr comp_def split: if_splits cong: map_cong)+


lemma refines_addScalar:
  assumes "refines h s b" "addScalar h n e data d opts b = Inr b'"
  shows "refines h (sp_bytes data (sp_add (Leaf n e (option_format d opts) (option_tag opts) ArrayScalar 0) s)) b'"
proof -
  obtain opt where opt: "resolveOptions d opts = Inr opt" "addField h n e ArrayScalar 0 data opt b = Inr b'"
    using assms(2) by (auto simp: addScalar_def result_simps)
  show ?thesis
    using refines_addField [OF assms(1) opt(2) resolveOptions_mask [OF opt(1)]]
      resolveOptions_result [OF opt(1)]
    by (simp add: kind_prefix_def kind_count_def)
qed

lemma refines_addArray:
  assumes "refines h s b" "addArray h n e m data k d opts b = Inr b'"
  shows "refines h (sp_bytes (kind_prefix h k (of_nat m) @ data)
      (sp_add (Leaf n e (option_format d opts) (option_tag opts) k (kind_count k (of_nat m))) s)) b'"
proof -
  obtain opt where opt: "resolveOptions d opts = Inr opt"
      "addField h n e k (of_nat m) data opt b = Inr b'"
    using assms(2) by (auto simp: addArray_def result_simps split: if_splits)
  show ?thesis
    using refines_addField [OF assms(1) opt(2) resolveOptions_mask [OF opt(1)]]
      resolveOptions_result [OF opt(1)]
    by simp
qed

lemma setters_keep_refines:
  "refines h s b \<Longrightarrow> SetVersion v b = Inr b' \<Longrightarrow> refines h s b'"
  "refines h s b \<Longrightarrow> SetID i b = Inr b' \<Longrightarrow> refines h s b'"
  "refines h s b \<Longrightarrow> SetIDVersion i v b = Inr b' \<Longrightarrow> refines h s b'"
  "refines h s b \<Longrightarrow> SetTag t b = Inr b' \<Longrightarrow> refines h s b'"
  "refines h s b \<Longrightarrow> SetOpcode oc b = Inr b' \<Longrightarrow> refines h s b'"
  "refines h s b \<Longrightarrow> SetActivity a r b = Inr b' \<Longrightarrow> refines h s b'"
  by (auto simp: SetVersion_def SetID_def SetIDVersion_def SetTag_def SetOpcode_def SetActivity_def
      refines_def result_simps Let_def split: if_splits option.splits)

lemma refines_call:
  assumes "refines h s b" "exec_call h c b = Inr b'"
  shows "refines h (spec_call h c s) b'"
proof (cases c)
  case (CScalar n v opts)
  with assms(2) have "addScalar h n (value_encoding h v) (value_wire h v) (value_format v) opts b = Inr b'"
    by (auto simp: builder_scalar_wire split: if_splits)
  from refines_addScalar [OF assms(1) this] CScalar show ?thesis by simp
next
  case (CArray n vs k opts)
  with assms(2) have "builder_array h n vs k opts b = Inr b'" by simp
  from refines_addArray [OF assms(1) builder_array_wire(1) [OF this]] CArray
  show ?thesis by (simp add: Let_def)
next
  case (CBegin n t)
  with assms(2) refines_BeginStruct [OF assms(1)] show ?thesis by simp
next
  case CEnd
  with assms(2) refines_EndStruct [OF assms(1)] show ?thesis by simp
qed (use assms(2) setters_keep_refines [OF assms(1)] in simp_all)

lemma refines_calls:
  "refines h s b \<Longrightarrow> run_calls h cs b = Inr b' \<Longrightarrow> refines h (spec_calls h cs s) b'"
  by (induction cs arbitrary: s b) (auto simp: result_simps intro: refines_call)

lemma refines_new: "NewBuilder name = Inr b \<Longrightarrow> refines h (spec_new name) b"
  unfolding NewBuilder_def spec_new_def by (rule refines_Reset)

text \<open>
  C8. After any sequence of method calls that succeeds on a new builder, the builder's metadata
  buffer, patch positions and payload are those of the specification tree the calls describe:
  the patched bytes are the wire form of the tree.
\<close>

theorem builder_refines_spec:
  assumes "NewBuilder name = Inr b0" "run_calls h cs b0 = Inr b"
  shows "wf_spec (spec_calls h cs (spec_new name))
    \<and> b_metadata b = spec_metadata h (spec_calls h cs (spec_new name))
    \<and> b_payload b = sp_payload (spec_calls h cs (spec_new name))
    \<and> b_structs b = frames h (length (spec_base h (spec_calls h cs (spec_new name))))
                      (sp_open (spec_calls h cs (spec_new name)))"
  using refinesD [OF refines_calls [OF refines_new [OF assms(1)] assms(2)]] by blast

definition demo_host :: host where
  "demo_host = \<lparr>native = LittleEndian, int64 = True, letter_rune = \<lambda>_. False, digit_rune = \<lambda>_. False\<rparr>"

definition demo_calls :: "call list" where
  "demo_calls = [CBegin ''s'' 7, CScalar ''a'' (VUint16 5) [], CEnd]"

definition demo_builder :: builder where
  "demo_builder =
     \<lparr>b_metadata = [101, 0, 115, 0, 129, 129, 7, 0, 97, 0, 3], b_payload = [5, 0], b_version = 0,
      b_id = 0, b_tag = 0, b_opcode = 0, b_activity = zeroID, b_related = zeroID, b_hasAct = False,
      b_hasRel = False, b_active = True, b_structs = []\<rparr>"

lemma demo_run: "NewBuilder ''e'' = Inr (projr (NewBuilder ''e''))"
  "run_calls demo_host demo_calls (projr (NewBuilder ''e'')) = Inr demo_builder"
  by code_simp+

theorem builder_refines_spec_witness:
  "b_metadata demo_builder = spec_metadata demo_host (spec_calls demo_host demo_calls (spec_new ''e''))"
  using builder_refines_spec [OF demo_run] by blast

end
