(* ===== verification/Names.thy ===== *)
theory Names imports GoText Wire begin

text \<open>
  Tracepoint names: \<open>eventheader/name.go\<close> builds \<open>provider_LnKkeyword[Ggroup]\<close>, and
  \<open>parseTracepointName\<close> of \<open>eventheader/decode/parse.go\<close> takes such a name apart. The decoder
  accepts every name the producer builds and returns the parts it was built from.
\<close>


section \<open>Building a name\<close>

abbreviation (input) MaxTracepointName :: nat where "MaxTracepointName \<equiv> 255"
abbreviation (input) MaxProviderGroupLength :: nat where "MaxProviderGroupLength \<equiv> 233"

definition isASCIILetter :: "char \<Rightarrow> bool" where
  "isASCIILetter value \<longleftrightarrow>
     CHR ''A'' \<le> value \<and> value \<le> CHR ''Z'' \<or> CHR ''a'' \<le> value \<and> value \<le> CHR ''z''"

definition isASCIIDigit :: "char \<Rightarrow> bool" where
  "isASCIIDigit c \<longleftrightarrow> CHR ''0'' \<le> c \<and> c \<le> CHR ''9''"

definition validateProvider :: "string \<Rightarrow> unit result" where
  "validateProvider name =
     (if name = [] \<or> \<not> isASCIILetter (hd name) \<and> hd name \<noteq> CHR ''_'' then fail ErrInvalidName
      else if \<exists>c\<in>set (tl name). \<not> isASCIILetter c \<and> \<not> isASCIIDigit c \<and> c \<noteq> CHR ''_''
        then fail ErrInvalidName
      else Inr ())"

definition validateGroup :: "string \<Rightarrow> unit result" where
  "validateGroup grp =
     (if \<exists>c\<in>set grp. \<not> (CHR ''a'' \<le> c \<and> c \<le> CHR ''z'') \<and> \<not> isASCIIDigit c
      then fail ErrInvalidName else Inr ())"

definition TracepointName :: "string \<Rightarrow> u8 \<Rightarrow> u64 \<Rightarrow> string \<Rightarrow> string result" where
  "TracepointName provider level keyword grp =
     bindR (validateProvider provider) (\<lambda>_.
     if level < LevelCritical \<or> level > LevelVerbose then fail ErrInvalidLevel
     else bindR (validateGroup grp) (\<lambda>_.
     if length provider + length grp > MaxProviderGroupLength then fail ErrInvalidName
     else
       let name = provider @ ''_L'' @ format_hex (unat level) @ ''K'' @ format_hex (unat keyword);
           name = (if grp \<noteq> [] then name @ ''G'' @ grp else name)
       in if length name > MaxTracepointName then fail ErrInvalidName else Inr name))"


section \<open>Taking a name apart\<close>

definition name_error :: "'a result" where
  "name_error = Inl (Fail (DecodeError 0 ''tracepoint name'' (Err ErrInvalid)))"

definition is_identifier :: "string \<Rightarrow> bool" where
  "is_identifier s \<longleftrightarrow>
     \<not> (s = [] \<or> \<not> isASCIILetter (hd s) \<and> hd s \<noteq> CHR ''_'') \<and>
     (\<forall>c\<in>set (tl s). isASCIILetter c \<or> isASCIIDigit c \<or> c = CHR ''_'')"

definition allLowerHex :: "string \<Rightarrow> bool" where
  "allLowerHex s \<longleftrightarrow> s \<noteq> [] \<and> (\<forall>c\<in>set s. lowerHex c)"

definition optionChar :: "char \<Rightarrow> bool" where
  "optionChar c \<longleftrightarrow> CHR ''a'' \<le> c \<and> c \<le> CHR ''z'' \<or> isASCIIDigit c"

text \<open>The options loop: each option is an upper-case letter and then lower-case letters and digits.\<close>

function optionsOK :: "string \<Rightarrow> bool" where
  "optionsOK [] = True"
| "optionsOK (c # s) =
     (CHR ''A'' \<le> c \<and> c \<le> CHR ''Z'' \<and> optionsOK (dropWhile optionChar s))"
  by pat_completeness auto
termination
  by (relation "measure length") (auto simp: le_imp_less_Suc length_dropWhile_le)

definition parseTracepointName :: "string \<Rightarrow> (string \<times> u8 \<times> u64 \<times> string) result" where
  "parseTracepointName name =
     (if length name > MaxTracepointName then name_error
      else case lastIndex name ''_L'' of
        None \<Rightarrow> name_error
      | Some marker \<Rightarrow>
        if marker = 0 then name_error else
        let provider = take marker name in
        if \<not> is_identifier provider then name_error else
        let rest = drop (marker + 2) name in
        (case byteIndex rest (CHR ''K'') of
           None \<Rightarrow> name_error
         | Some k \<Rightarrow>
           if k = 0 then name_error else
           let levelText = take k rest;
               rest = drop (k + 1) rest;
               i = length (takeWhile lowerHex rest)
           in if i = 0 \<or> \<not> allLowerHex levelText then name_error else
           (case ParseUint16 levelText 8 of
              None \<Rightarrow> name_error
            | Some level64 \<Rightarrow>
              if level64 = 0 \<or> level64 > 5 then name_error else
              (case ParseUint16 (take i rest) 64 of
                 None \<Rightarrow> name_error
               | Some keyword \<Rightarrow>
                 let options = drop i rest in
                 if \<not> optionsOK options then name_error
                 else Inr (provider, of_nat level64, of_nat keyword, options)))))"


section \<open>The round trip\<close>

lemma validateProvider_identifier: "validateProvider p = Inr () \<longleftrightarrow> is_identifier p"
  by (auto simp: validateProvider_def is_identifier_def)

lemma hex_not_upper: "lowerHex c \<Longrightarrow> c \<noteq> CHR ''_'' \<and> c \<noteq> CHR ''K'' \<and> c \<noteq> CHR ''G''"
  by (auto simp: lowerHex_def less_eq_char_def)

lemma format_hex_no:
  "CHR ''_'' \<notin> set (format_hex n)" "CHR ''K'' \<notin> set (format_hex n)"
  using hex_not_upper lowerHex_format by blast+

lemma allLowerHex_format [simp]: "allLowerHex (format_hex n)"
  by (simp add: allLowerHex_def lowerHex_format)

lemma group_chars: "validateGroup g = Inr () \<Longrightarrow> c \<in> set g \<Longrightarrow> optionChar c \<and> c \<noteq> CHR ''_''"
  by (auto simp: validateGroup_def optionChar_def isASCIIDigit_def less_eq_char_def split: if_splits)

definition group_text :: "string \<Rightarrow> string" where
  "group_text grp = (if grp = [] then [] else CHR ''G'' # grp)"

lemma group_text_no: "validateGroup g = Inr () \<Longrightarrow> CHR ''_'' \<notin> set (group_text g)"
  using group_chars by (auto simp: group_text_def)

lemma group_text_options: "validateGroup g = Inr () \<Longrightarrow> optionsOK (group_text g)"
proof -
  assume "validateGroup g = Inr ()"
  then have none: "dropWhile optionChar g = []" using group_chars by simp
  show ?thesis by (simp only: group_text_def split: if_split) (simp add: none less_eq_char_def del: dropWhile_eq_Nil_conv)
qed

lemma takeWhile_lowerHex_text: "takeWhile lowerHex (format_hex n @ group_text g) = format_hex n"
proof -
  have "takeWhile lowerHex (group_text g) = []"
    by (simp add: group_text_def lowerHex_def less_eq_char_def)
  moreover have "takeWhile lowerHex (format_hex n @ group_text g)
      = format_hex n @ takeWhile lowerHex (group_text g)"
    by (rule takeWhile_append2) (simp add: lowerHex_format)
  ultimately show ?thesis by simp
qed

lemma TracepointName_parts:
  assumes "TracepointName p l k g = Inr name"
  shows "is_identifier p" "1 \<le> unat l" "unat l \<le> 5" "validateGroup g = Inr ()" "length name \<le> 255"
    "name = p @ ''_L'' @ format_hex (unat l) @ ''K'' @ format_hex (unat k) @ group_text g"
proof -
  have "\<not> l < 1 \<and> \<not> 5 < l" using assms
    by (auto simp: TracepointName_def result_simps split: if_splits)
  then show "1 \<le> unat l" "unat l \<le> 5" by (simp_all add: word_less_nat_alt)
qed (use assms in \<open>auto simp: TracepointName_def result_simps Let_def group_text_def
      validateProvider_identifier split: if_splits\<close>)

lemma lastIndex_name:
  assumes "CHR ''_'' \<notin> set t"
  shows "lastIndex (p @ ''_L'' @ t) ''_L'' = Some (length p)"
proof -
  have "lastIndex (''_L'' @ t) ''_L'' = Some 0"
    using lastIndex_absent [of "CHR ''_''" "CHR ''L'' # t" "''L''"] assms by simp
  then show ?thesis by (metis lastIndex_append add_0_right)
qed

lemma parse_TracepointName:
  assumes "TracepointName provider level keyword grp = Inr name"
  shows "parseTracepointName name = Inr (provider, level, keyword, group_text grp)"
proof -
  note parts = TracepointName_parts [OF assms]
  let ?lt = "format_hex (unat level)" and ?kt = "format_hex (unat keyword)"
  let ?tail = "?lt @ ''K'' @ ?kt @ group_text grp"
  have name: "name = provider @ ''_L'' @ ?tail" using parts(6) by simp
  have nounder: "CHR ''_'' \<notin> set ?tail"
    using format_hex_no group_text_no [OF parts(4)] by simp
  have provider: "provider \<noteq> []" using parts(1) by (auto simp: is_identifier_def)
  have marker: "lastIndex name ''_L'' = Some (length provider)"
    unfolding name by (rule lastIndex_name) (rule nounder)
  have k: "byteIndex ?tail (CHR ''K'') = Some (length ?lt)"
    using byteIndex_append [OF format_hex_no(2)] by simp
  have i: "takeWhile lowerHex (?kt @ group_text grp) = ?kt"
    by (rule takeWhile_lowerHex_text)
  have level: "ParseUint16 ?lt 8 = Some (unat level)" "ParseUint16 ?kt 64 = Some (unat keyword)"
    using unat_lt_pow [of level] unat_lt_pow [of keyword] by (simp_all add: ParseUint16_format)
  have drops: "drop (Suc (Suc (length provider))) name = ?tail" "take (length provider) name = provider"
    by (simp_all add: name)
  show ?thesis
    unfolding parseTracepointName_def
    using parts(1-3,5) provider marker k i level group_text_options [OF parts(4)]
    by (simp add: drops Let_def)
qed

text \<open>
  Every tracepoint name the producer builds is accepted by the decoder, which recovers the
  provider, the level and the keyword, and the group as the option text \<open>Ggroup\<close>.
\<close>

theorem tracepoint_name_roundtrip:
  assumes "TracepointName provider level keyword grp = Inr name"
  shows "parseTracepointName name
    = Inr (provider, level, keyword, if grp = [] then [] else CHR ''G'' # grp)"
  using parse_TracepointName [OF assms] by (simp add: group_text_def)

text \<open>The witness: provider \<open>P\<close>, level 4, keyword 16, group \<open>h\<close>.\<close>

theorem tracepoint_name_roundtrip_witness:
  "parseTracepointName ''P_L4K10Gh'' = Inr (''P'', 4, 0x10, ''Gh'')"
proof -
  have "TracepointName ''P'' 4 0x10 ''h'' = Inr ''P_L4K10Gh''"
    by code_simp
  from tracepoint_name_roundtrip [OF this] show ?thesis by simp
qed

end
