(* ===== verification/Tracepoint.thy ===== *)
theory Tracepoint imports Prelude begin

text \<open>
  The portable data model of package \<open>tracepoint\<close> (\<open>model.go\<close>, \<open>errors.go\<close>): timestamps in clock
  domains with their conversion and comparison, diagnostics, values, fields, identities and
  records. \<open>Optional[T]\<close> is \<open>'a option\<close>; \<open>int64\<close> is a 64-bit word read with \<open>sint\<close>.
\<close>


section \<open>Byte orders, clocks, diagnostics\<close>

datatype byte_order = ByteOrderUnknown | ByteOrderLittle | ByteOrderBig

datatype clock = ClockUnknown | ClockMonotonic | ClockBoot | ClockRealtime | ClockTAI

datatype severity = SeverityInfo | SeverityWarning | SeverityError

record diagnostic =
  diag_Severity :: severity
  diag_Offset :: int
  diag_Stage :: string
  diag_Message :: string
  diag_Err :: goerr


section \<open>Timestamps\<close>

record timestamp =
  Nanoseconds :: u64
  Clock :: clock
  EpochOffset :: u64
  EpochOffsetKnown :: bool

definition zero_timestamp :: timestamp where
  "zero_timestamp = \<lparr>Nanoseconds = 0, Clock = ClockUnknown, EpochOffset = 0, EpochOffsetKnown = False\<rparr>"

abbreviation (input) MaxInt64 :: u64 where "MaxInt64 \<equiv> 0x7FFFFFFFFFFFFFFF"
abbreviation (input) MinInt64 :: u64 where "MinInt64 \<equiv> 0x8000000000000000"

text \<open>\<open>Timestamp.UnixNano\<close>, with the code's wrap-around arithmetic; None is its \<open>(0, false)\<close>.\<close>

definition UnixNano :: "timestamp \<Rightarrow> u64 option" where
  "UnixNano t =
     (if \<not> EpochOffsetKnown t then None
      else if 0 \<le>s EpochOffset t then
        (let offset = EpochOffset t in
         if Nanoseconds t > MaxInt64 - offset then None else Some (Nanoseconds t + offset))
      else
        let magnitude = - (EpochOffset t + 1) + 1 in
        if Nanoseconds t \<ge> magnitude then
          (let value = Nanoseconds t - magnitude in
           if value > MaxInt64 then None else Some value)
        else
          let negative = magnitude - Nanoseconds t in
          if negative > MaxInt64 + 1 then None
          else if negative = MaxInt64 + 1 then Some MinInt64
          else Some (- negative))"

definition compareUint64 :: "u64 \<Rightarrow> u64 \<Rightarrow> int" where
  "compareUint64 a b = (if a < b then -1 else if a > b then 1 else 0)"

definition Compare :: "timestamp \<Rightarrow> timestamp \<Rightarrow> int result" where
  "Compare t other =
     (if Clock t = Clock other \<and>
         (\<not> EpochOffsetKnown t \<or> \<not> EpochOffsetKnown other \<or> EpochOffset t = EpochOffset other)
      then Inr (compareUint64 (Nanoseconds t) (Nanoseconds other))
      else case UnixNano t of
        None \<Rightarrow> fail ErrIncomparableClocks
      | Some a \<Rightarrow>
        (case UnixNano other of
           None \<Rightarrow> fail ErrIncomparableClocks
         | Some b \<Rightarrow> Inr (if a <s b then -1 else if b <s a then 1 else 0)))"


section \<open>Values, fields, records\<close>

datatype encoding =
    TpEncodingNone | TpEncodingInteger | TpEncodingFloat | TpEncodingBoolean | TpEncodingUTF8
  | TpEncodingBinary | TpEncodingUUID | TpEncodingIP | TpEncodingPort | TpEncodingTime
  | TpEncodingArray | TpEncodingStruct | TpEncodingDataLoc | TpEncodingRelLoc

text \<open>A \<open>float64\<close> by the bits it was read from: 64 bits, or 32 bits widened.\<close>

datatype go_float = F32 u32 | F64 u64

text \<open>
  \<open>Value\<close> is a Go struct whose \<open>Kind\<close> says which member is meaningful; the decoders set the member
  together with the kind and leave the others zero, so the members are the constructors of \<open>tdata\<close>.
  Text is the bytes of the Go string, an address its 4 or 16 bytes.
\<close>

datatype tvalue =
  TValue (tv_Data: tdata) (tv_Raw: bytes) (tv_ByteOrder: byte_order) (tv_Encoding: encoding)
    (tv_Format: string) (tv_Width: nat) (tv_Valid: bool) (tv_Diagnostics: "diagnostic list")
and tdata =
    ValueNull | ValueUnsigned u64 | ValueSigned u64 | ValueFloat go_float | ValueBool bool
  | ValueText bytes | ValueBinary bytes | ValueUUID bytes | ValueIP bytes | ValuePort u16
  | ValueTime timestamp | ValueArray "tvalue list" | ValueStruct "tfield list"
and tfield =
  TField (tf_Name: string) (tf_Value: tvalue) (tf_Offset: int) (tf_Diagnostics: "diagnostic list")

record identity =
  id_System :: string
  id_Name :: string
  id_ID :: u32

record event_header_extension =
  ehe_Kind :: u16
  ehe_Size :: u16
  ehe_Chain :: bool
  ehe_Offset :: nat
  ehe_Data :: bytes

record event_header_info =
  eh_Provider :: string
  eh_Keyword :: u64
  eh_Options :: string
  eh_Flags :: u8
  eh_Version :: u8
  eh_ID :: u16
  eh_Tag :: u16
  eh_Opcode :: u8
  eh_Level :: u8
  eh_ByteOrder :: byte_order
  eh_PointerWidth :: u8
  eh_EventName :: string
  eh_EventNameRaw :: bytes
  eh_ActivityID :: "bytes option"
  eh_RelatedActivityID :: "bytes option"
  eh_Extensions :: "event_header_extension list"
  eh_Metadata :: bytes
  eh_Payload :: bytes

record event_record =
  er_Common :: "tfield list"
  er_Fields :: "tfield list"
  er_EventHeader :: "event_header_info option"

text \<open>The record kinds with the payload each of them selects.\<close>

datatype record_body =
    RecordUnknown | RecordEvent event_record | RecordLost u64 | RecordCorrupt string | RecordRaw

record trecord =
  tr_Body :: record_body
  tr_Identity :: identity
  tr_Timestamp :: timestamp
  tr_CPU :: "u32 option"
  tr_PID :: "u32 option"
  tr_TID :: "u32 option"
  tr_Raw :: bytes
  tr_Diagnostics :: "diagnostic list"


section \<open>Timestamps are exact\<close>

text \<open>The exact Unix time of a timestamp, as an integer.\<close>

definition exact_unix :: "timestamp \<Rightarrow> int" where
  "exact_unix t = uint (Nanoseconds t) + sint (EpochOffset t)"

lemma u64_sint_range: "- (2 ^ 63) \<le> sint (x :: u64) \<and> sint x < 2 ^ 63"
  using sint_greater_eq [of x] sint_less [of x] by simp

lemma u64_uint_range: "0 \<le> uint (x :: u64) \<and> uint x < 2 ^ 64"
  using uint_bounded [of x] by simp

lemma u64_sint_uint: "sint (x :: u64) = (if uint x < 2 ^ 63 then uint x else uint x - 2 ^ 64)"
proof -
  have sint: "sint x = (uint x + 2 ^ 63) mod 2 ^ 64 - 2 ^ 63"
    using int_word_sint [of "uint x", where 'a = 64] by simp
  show ?thesis
  proof (cases "uint x < 2 ^ 63")
    case True
    then have "(uint x + 2 ^ 63) mod 2 ^ 64 = uint x + 2 ^ 63"
      by (intro mod_pos_pos_trivial) simp_all
    with True sint show ?thesis by simp
  next
    case False
    have "(uint x + 2 ^ 63) mod 2 ^ 64 = ((uint x - 2 ^ 63) + 2 ^ 64) mod 2 ^ 64"
      by (simp add: add.commute)
    also have "\<dots> = (uint x - 2 ^ 63) mod 2 ^ 64" by (rule mod_add_self2)
    also have "\<dots> = uint x - 2 ^ 63"
      using False u64_uint_range [of x] by (intro mod_pos_pos_trivial) simp_all
    finally show ?thesis using False sint by simp
  qed
qed

lemma u64_nonneg: "0 \<le>s (x :: u64) \<longleftrightarrow> uint x < 2 ^ 63"
  using u64_uint_range [of x] by (simp add: word_sle_eq u64_sint_uint)

lemma u64_minus: "uint y \<le> uint x \<Longrightarrow> uint (x - y :: u64) = uint x - uint y"
proof -
  assume "uint y \<le> uint x"
  then have "(uint x - uint y) mod 2 ^ 64 = uint x - uint y"
    using u64_uint_range [of x] u64_uint_range [of y] by (intro mod_pos_pos_trivial) linarith+
  then show ?thesis by (simp add: uint_word_ariths)
qed

lemma u64_neg: "uint (x :: u64) \<ge> 2 ^ 63 \<Longrightarrow> uint (- x) = 2 ^ 64 - uint x"
proof -
  assume a: "uint x \<ge> 2 ^ 63"
  have "uint (- x) = (- uint x) mod 2 ^ 64" by (simp add: uint_word_ariths)
  also have "\<dots> = (- uint x + 2 ^ 64) mod 2 ^ 64" by (rule mod_add_self2 [symmetric])
  also have "\<dots> = - uint x + 2 ^ 64"
    using a u64_uint_range [of x] by (intro mod_pos_pos_trivial) simp_all
  finally show ?thesis by simp
qed

lemma word_exact_unix: "word_of_int (exact_unix t) = Nanoseconds t + EpochOffset t"
  by (simp add: exact_unix_def)

lemma UnixNano_known:
  assumes "EpochOffsetKnown t"
  shows "UnixNano t = (if exact_unix t < 2 ^ 63 then Some (word_of_int (exact_unix t)) else None)"
proof (cases "uint (EpochOffset t) < 2 ^ 63")
  case True
  then have "uint (MaxInt64 - EpochOffset t) = 2 ^ 63 - 1 - uint (EpochOffset t)"
    by (subst u64_minus) simp_all
  then have "Nanoseconds t > MaxInt64 - EpochOffset t \<longleftrightarrow> \<not> exact_unix t < 2 ^ 63"
    using True by (auto simp: word_less_def exact_unix_def u64_sint_uint)
  with True assms show ?thesis
    unfolding word_exact_unix by (simp add: UnixNano_def u64_nonneg)
next
  case False
  let ?m = "- EpochOffset t"
  have m: "uint ?m = - sint (EpochOffset t)" "uint ?m \<le> 2 ^ 63"
    using False u64_neg [of "EpochOffset t"] by (simp_all add: u64_sint_uint)
  have mag: "- (EpochOffset t + 1) + 1 = ?m" by simp
  show ?thesis
  proof (cases "Nanoseconds t \<ge> ?m")
    case True
    then have "uint (Nanoseconds t - ?m) = uint (Nanoseconds t) - uint ?m"
      by (intro u64_minus) (simp add: word_le_def)
    then have "Nanoseconds t - ?m > MaxInt64 \<longleftrightarrow> \<not> exact_unix t < 2 ^ 63"
      using m by (auto simp: word_less_def exact_unix_def)
    with True False assms show ?thesis
      unfolding word_exact_unix by (simp add: UnixNano_def u64_nonneg mag Let_def)
  next
    case less: False
    then have "uint (Nanoseconds t) < uint ?m" by (simp add: word_le_def)
    moreover from this have "uint (?m - Nanoseconds t) = uint ?m - uint (Nanoseconds t)"
      by (intro u64_minus) simp
    moreover have "uint ?m - uint (Nanoseconds t) \<le> 2 ^ 63"
      using m(2) u64_uint_range [of "Nanoseconds t"] by linarith
    ultimately have "\<not> ?m - Nanoseconds t > MaxInt64 + 1" "exact_unix t < 2 ^ 63"
      using m by (simp_all add: word_less_def exact_unix_def)
    moreover have neg: "Nanoseconds t + EpochOffset t = - (?m - Nanoseconds t)" by simp
    have "?m - Nanoseconds t = MaxInt64 + 1 \<Longrightarrow> Nanoseconds t + EpochOffset t = MinInt64"
      unfolding neg by simp
    ultimately show ?thesis
      using False assms less
      unfolding word_exact_unix by (auto simp: UnixNano_def u64_nonneg mag Let_def)
  qed
qed

lemma sint_word_of_int_in:
  "- (2 ^ 63) \<le> x \<Longrightarrow> x < 2 ^ 63 \<Longrightarrow> sint (word_of_int x :: u64) = x"
proof -
  assume "- (2 ^ 63) \<le> x" "x < 2 ^ 63"
  then have "(x + 2 ^ 63) mod 2 ^ 64 = x + 2 ^ 63" by (intro mod_pos_pos_trivial) simp_all
  then show ?thesis using int_word_sint [of x, where 'a = 64] by simp
qed

lemma UnixNano_known_bounds:
  "UnixNano t = Some w \<Longrightarrow> EpochOffsetKnown t \<and> sint w = exact_unix t"
proof -
  assume a: "UnixNano t = Some w"
  then have known: "EpochOffsetKnown t"
    by (cases "EpochOffsetKnown t") (simp_all add: UnixNano_def)
  have "- (2 ^ 63) \<le> exact_unix t"
    using u64_sint_range [of "EpochOffset t"] u64_uint_range [of "Nanoseconds t"]
    unfolding exact_unix_def by linarith
  with a known show ?thesis
    by (auto simp: UnixNano_known sint_word_of_int_in split: if_splits)
qed

text \<open>
  \<open>Timestamp.UnixNano\<close> never overflows silently: it returns a value exactly when the offset is
  known and the mathematical sum of nanoseconds and offset fits in an int64, and the value is that
  sum.
\<close>

theorem UnixNano_exact:
  "UnixNano t =
     (if EpochOffsetKnown t \<and> - (2 ^ 63) \<le> exact_unix t \<and> exact_unix t < 2 ^ 63
      then Some (word_of_int (exact_unix t)) else None)"
proof -
  have "- (2 ^ 63) \<le> exact_unix t"
    using u64_sint_range [of "EpochOffset t"] u64_uint_range [of "Nanoseconds t"]
    unfolding exact_unix_def by linarith
  then show ?thesis
    by (cases "EpochOffsetKnown t") (simp_all add: UnixNano_known, simp add: UnixNano_def)
qed

text \<open>
  Comparing two timestamps whose epoch offsets are known gives the order of their exact Unix
  times, whatever their clocks and even where the sum would overflow int64; in particular \<open>Compare\<close>
  is antisymmetric and transitive on such timestamps.
\<close>

theorem Compare_exact:
  assumes "EpochOffsetKnown t" "EpochOffsetKnown u" "Compare t u = Inr c"
  shows "c = sgn (exact_unix t - exact_unix u)"
proof (cases "Clock t = Clock u \<and> EpochOffset t = EpochOffset u")
  case True
  with assms show ?thesis
    by (auto simp: Compare_def compareUint64_def exact_unix_def word_less_def sgn_if)
next
  case False
  with assms obtain a b where "UnixNano t = Some a" "UnixNano u = Some b"
    and c: "c = (if a <s b then -1 else if b <s a then 1 else 0)"
    by (auto simp: Compare_def split: option.splits if_splits)
  then have "sint a = exact_unix t" "sint b = exact_unix u"
    using UnixNano_known_bounds by blast+
  then show ?thesis
    using c by (auto simp: word_sless_alt sgn_if)
qed

text \<open>The witness compares a monotonic timestamp with a realtime one.\<close>

theorem Compare_exact_witness:
  "sgn (exact_unix \<lparr>Nanoseconds = 5, Clock = ClockMonotonic, EpochOffset = 10, EpochOffsetKnown = True\<rparr>
      - exact_unix \<lparr>Nanoseconds = 20, Clock = ClockRealtime, EpochOffset = 0, EpochOffsetKnown = True\<rparr>)
   = -1"
proof -
  let ?t = "\<lparr>Nanoseconds = 5, Clock = ClockMonotonic, EpochOffset = 10, EpochOffsetKnown = True\<rparr>"
  let ?u = "\<lparr>Nanoseconds = 20, Clock = ClockRealtime, EpochOffset = 0, EpochOffsetKnown = True\<rparr>"
  have "Compare ?t ?u = Inr (-1)"
    by code_simp
  from Compare_exact [OF _ _ this] show ?thesis by simp
qed

end
