(* ===== verification/Parse.thy ===== *)
theory Parse imports Names Tracepoint begin

text \<open>
  \<open>eventheader/decode/types.go\<close> and \<open>parse.go\<close>: the limits, the parsed event and the parser of
  header, extensions and metadata. Its input is untrusted, so every read of the source is a checked
  read here and the first theorem says that none of them panics. \<open>int\<close> limits can be negative and
  are \<open>int\<close>; positions and counts are \<open>nat\<close>.
\<close>


section \<open>Limits and the parsed event\<close>

record limits =
  MaxEventSize :: int
  MaxMetadataSize :: int
  MaxPayloadSize :: int
  MaxDepth :: int
  MaxItems :: int
  MaxTransitions :: int

abbreviation (input) defaultMaxEventSize :: int where "defaultMaxEventSize \<equiv> 16777216"
abbreviation (input) defaultMaxMetadataSize :: int where "defaultMaxMetadataSize \<equiv> 65536"
abbreviation (input) defaultMaxPayloadSize :: int where "defaultMaxPayloadSize \<equiv> 16777216"
abbreviation (input) defaultMaxDepth :: int where "defaultMaxDepth \<equiv> 8"
abbreviation (input) defaultMaxItems :: int where "defaultMaxItems \<equiv> 4096"
abbreviation (input) defaultMaxTransitions :: int where "defaultMaxTransitions \<equiv> 4096"

definition normalized :: "limits \<Rightarrow> limits" where
  "normalized l =
     (let l = (if MaxEventSize l = 0 then l\<lparr>MaxEventSize := defaultMaxEventSize\<rparr> else l);
          l = (if MaxMetadataSize l = 0 then l\<lparr>MaxMetadataSize := defaultMaxMetadataSize\<rparr> else l);
          l = (if MaxPayloadSize l = 0 then l\<lparr>MaxPayloadSize := defaultMaxPayloadSize\<rparr> else l);
          l = (if MaxDepth l = 0 then l\<lparr>MaxDepth := defaultMaxDepth\<rparr> else l);
          l = (if MaxItems l = 0 then l\<lparr>MaxItems := defaultMaxItems\<rparr> else l)
      in if MaxTransitions l = 0 then l\<lparr>MaxTransitions := defaultMaxTransitions\<rparr> else l)"

definition limits_valid :: "limits \<Rightarrow> bool" where
  "limits_valid l \<longleftrightarrow>
     MaxEventSize l > 0 \<and> MaxMetadataSize l > 0 \<and> MaxPayloadSize l > 0 \<and> MaxDepth l > 0 \<and>
     MaxDepth l \<le> 8 \<and> MaxItems l > 0 \<and> MaxTransitions l > 0"

definition zero_limits :: limits where
  "zero_limits = \<lparr>MaxEventSize = 0, MaxMetadataSize = 0, MaxPayloadSize = 0, MaxDepth = 0,
     MaxItems = 0, MaxTransitions = 0\<rparr>"

definition DefaultLimits :: limits where
  "DefaultLimits = normalized zero_limits"

record extension =
  ext_Kind :: u16
  ext_Size :: u16
  ext_Chain :: bool
  ext_Offset :: nat
  ext_Data :: bytes

record event_info =
  ei_Provider :: string
  ei_Keyword :: u64
  ei_Options :: string
  ei_Header :: header
  ei_ByteOrder :: byte_order
  ei_Pointer64 :: bool
  ei_EventName :: string
  ei_EventNameRaw :: bytes
  ei_ActivityID :: "bytes option"
  ei_RelatedID :: "bytes option"
  ei_Extensions :: "extension list"
  ei_Metadata :: bytes
  ei_Payload :: bytes
  ei_Diagnostics :: "diagnostic list"

datatype field_def =
  FieldDef (fd_name: string) (fd_nameRaw: bytes) (fd_encoding: u8) (fd_format: u8) (fd_tag: u16)
    (fd_arrayKind: array_kind) (fd_count: u16) (fd_depth: nat) (fd_offset: nat)
    (fd_children: "field_def list")

record parsed_event =
  pe_info :: event_info
  pe_order :: endian
  pe_payload :: bytes
  pe_payloadOffset :: nat
  pe_fields :: "field_def list"
  pe_raw :: bytes


section \<open>Errors and text\<close>

definition decodeError :: "nat \<Rightarrow> string \<Rightarrow> sentinel \<Rightarrow> 'a result" where
  "decodeError offset stage e = Inl (Fail (DecodeError (int offset) stage (Err e)))"

definition invalid :: "nat \<Rightarrow> string \<Rightarrow> 'a result" where
  "invalid offset stage = decodeError offset stage ErrInvalid"

definition truncated :: "nat \<Rightarrow> string \<Rightarrow> 'a result" where
  "truncated offset stage = decodeError offset stage ErrTruncated"

lemma safe_errors [simp, intro]:
  "safe (decodeError off st e)" "safe (invalid off st)" "safe (truncated off st)"
  by (simp_all add: decodeError_def invalid_def truncated_def)

lemma errors_not_Inr [simp]:
  "decodeError off st e \<noteq> Inr x" "invalid off st \<noteq> Inr x" "truncated off st \<noteq> Inr x"
  by (simp_all add: decodeError_def invalid_def truncated_def)

text \<open>The UTF-8 encoding of U+FFFD.\<close>

definition replacement :: bytes where
  "replacement = [0xEF, 0xBF, 0xBD]"

definition replacementString :: "bytes \<Rightarrow> string" where
  "replacementString raw = of_bytes (ToValidUTF8 raw replacement)"

definition containsSemicolon :: "bytes \<Rightarrow> bool" where
  "containsSemicolon data \<longleftrightarrow> (\<exists>b\<in>set data. b = of_char (CHR '';''))"

definition unicodeDiagnostic :: "nat \<Rightarrow> string \<Rightarrow> diagnostic" where
  "unicodeDiagnostic offset stage =
     \<lparr>diag_Severity = SeverityError, diag_Offset = int offset, diag_Stage = stage,
      diag_Message = ''invalid Unicode replaced'', diag_Err = Err ErrInvalid\<rparr>"

fun nameDiagnostics :: "nat \<Rightarrow> field_def \<Rightarrow> diagnostic list" where
  "nameDiagnostics base (FieldDef n raw e f t k c d off children) =
     (if utf8_valid raw then [] else [unicodeDiagnostic (base + off) ''field name'']) @
     concat (map (nameDiagnostics base) children)"

definition appendNameDiagnostics :: "diagnostic list \<Rightarrow> field_def list \<Rightarrow> nat \<Rightarrow> diagnostic list" where
  "appendNameDiagnostics target defs base = target @ concat (map (nameDiagnostics base) defs)"

text \<open>The readers \<open>order.Uint16(data[i : i+2])\<close> share the slice and the conversion.\<close>

definition read16 :: "endian \<Rightarrow> bytes \<Rightarrow> nat \<Rightarrow> u16 result" where
  "read16 order data i = bindR (slice data i (i + 2)) (get16 order)"

lemma safe_read16: "i + 2 \<le> length data \<Longrightarrow> safe (read16 order data i)"
  by (simp add: read16_def slice_in safe_get16)


text \<open>\<open>errors.As\<close> finds the offset of the decode error, and it is moved by an amount.\<close>

definition shiftDecodeError :: "nat \<Rightarrow> failure \<Rightarrow> failure" where
  "shiftDecodeError amount f =
     (case f of Fail (DecodeError off st e) \<Rightarrow> Fail (DecodeError (off + int amount) st e) | _ \<Rightarrow> f)"

definition shiftR :: "nat \<Rightarrow> 'a result \<Rightarrow> 'a result" where
  "shiftR amount r = (case r of Inl f \<Rightarrow> Inl (shiftDecodeError amount f) | Inr x \<Rightarrow> Inr x)"

lemma shiftR_Inr [simp, result_simps]: "shiftR n r = Inr x \<longleftrightarrow> r = Inr x"
  by (cases r) (auto simp: shiftR_def)

lemma safe_shiftR [simp]: "safe (shiftR n r) \<longleftrightarrow> safe r"
  by (cases r) (auto simp: shiftR_def safe_def shiftDecodeError_def split: failure.splits goerr.splits)


section \<open>The metadata parser\<close>

text \<open>The format byte and the tag that follow a chained encoding byte.\<close>

definition parseChain :: "bytes \<Rightarrow> endian \<Rightarrow> u8 \<Rightarrow> nat \<Rightarrow> (u8 \<times> u16 \<times> nat) result" where
  "parseChain data order encoded pos =
     (if encoded AND EncodingChainFlag \<noteq> 0 then
        if pos \<ge> length data then truncated pos ''field format''
        else bindR (index data pos) (\<lambda>formatByte.
          let format = formatByte AND FormatValueMask;
              pos = pos + 1
          in if formatByte AND FormatChainFlag \<noteq> 0 then
               if length data - pos < 2 then truncated pos ''field tag''
               else bindR (read16 order data pos) (\<lambda>tg. Inr (format, tg, pos + 2))
             else Inr (format, 0, pos))
      else Inr (FormatDefault, 0, pos))"

text \<open>The array kind and the fixed count.\<close>

definition parseCount :: "bytes \<Rightarrow> endian \<Rightarrow> u8 \<Rightarrow> nat \<Rightarrow> (array_kind \<times> u16 \<times> nat) result" where
  "parseCount data order encoded pos =
     (if encoded AND EncodingCArrayFlag \<noteq> 0 then
        if length data - pos < 2 then truncated pos ''fixed array count''
        else bindR (read16 order data pos) (\<lambda>count.
          let pos = pos + 2 in
          if count = 0 then invalid (pos - 2) ''fixed array count'' else Inr (ArrayFixed, count, pos))
      else if encoded AND EncodingVArrayFlag \<noteq> 0 then Inr (ArrayVariable, 0, pos)
      else Inr (ArrayScalar, 0, pos))"

text \<open>One field up to its children: \<open>parseField\<close> until the \<open>fieldDef\<close> is made.\<close>

definition parseHead ::
  "bytes \<Rightarrow> endian \<Rightarrow> limits \<Rightarrow> nat \<Rightarrow> nat \<Rightarrow> nat \<Rightarrow> (u8 \<times> field_def \<times> nat) result" where
  "parseHead data order lim depth pos items =
     (if int items \<ge> MaxItems lim then decodeError pos ''metadata'' ErrLimit else
      let start = pos in
      bindR (slice_from data pos) (\<lambda>rest.
      case byteIndex rest 0 of
        None \<Rightarrow> truncated pos ''field name''
      | Some nul \<Rightarrow>
        if nul = 0 then invalid pos ''field name'' else
        bindR (slice data pos (pos + nul)) (\<lambda>nameRaw.
        if containsSemicolon nameRaw then invalid pos ''field name'' else
        let pos = pos + nul + 1 in
        if pos \<ge> length data then truncated pos ''field encoding'' else
        bindR (index data pos) (\<lambda>encoded.
        let pos = pos + 1;
            base = encoded AND EncodingValueMask
        in
        if base = EncodingInvalid then invalid (pos - 1) ''field encoding''
        else if encoded AND EncodingCArrayFlag \<noteq> 0 \<and> encoded AND EncodingVArrayFlag \<noteq> 0
          then invalid (pos - 1) ''field encoding''
        else if base > EncodingBinaryLength16Char8
          then decodeError (pos - 1) ''field encoding'' ErrUnsupported
        else
        bindR (parseChain data order encoded pos) (\<lambda>(format, tg, pos).
        bindR (parseCount data order encoded pos) (\<lambda>(arrayKind, count, pos).
        Inr (encoded,
             FieldDef (replacementString nameRaw) nameRaw base format tg arrayKind count depth start [],
             pos)))))))"

definition with_children :: "field_def \<Rightarrow> field_def list \<Rightarrow> field_def" where
  "with_children f cs = (case f of FieldDef n raw e fm t k c d off _ \<Rightarrow> FieldDef n raw e fm t k c d off cs)"

lemma parseChain_bounds:
  "parseChain data order encoded pos = Inr (fm, t, pos') \<Longrightarrow> pos \<le> length data \<Longrightarrow>
     pos \<le> pos' \<and> pos' \<le> length data"
  by (auto simp: parseChain_def Let_def result_simps split: if_splits)

lemma parseCount_bounds:
  "parseCount data order encoded pos = Inr (k, c, pos') \<Longrightarrow> pos \<le> length data \<Longrightarrow>
     pos \<le> pos' \<and> pos' \<le> length data"
  by (auto simp: parseCount_def Let_def result_simps split: if_splits)

lemma parseHead_bounds:
  assumes "parseHead data order lim depth pos items = Inr (encoded, f, pos')"
  shows "pos + 2 \<le> pos' \<and> pos' \<le> length data"
proof -
  have step: "pos + 2 \<le> pos' \<and> pos' \<le> length data"
    if "parseChain data order e (Suc (Suc (pos + nul))) = Inr (fm, t, p)"
      "parseCount data order e p = Inr (k, c, pos')" "Suc (pos + nul) < length data"
    for nul e fm t p k c
    using that parseChain_bounds [of data order e "Suc (Suc (pos + nul))" fm t p]
      parseCount_bounds [of data order e p k c pos'] by auto
  show ?thesis
    using assms
    by (auto simp: parseHead_def Let_def result_simps not_le split: if_splits option.splits dest: step)
qed

text \<open>
  \<open>parseField\<close> with its loop over the children. Positions grow and a structure's children are one
  level deeper, up to \<open>MaxDepth\<close>: that is the measure.
\<close>

function parseField :: "bytes \<Rightarrow> endian \<Rightarrow> limits \<Rightarrow> nat \<Rightarrow> nat \<Rightarrow> nat \<Rightarrow> (field_def \<times> nat \<times> nat) result"
  and parseChildren ::
    "bytes \<Rightarrow> endian \<Rightarrow> limits \<Rightarrow> nat \<Rightarrow> nat \<Rightarrow> nat \<Rightarrow> nat \<Rightarrow> (field_def list \<times> nat \<times> nat) result"
where
  "parseField data order lim depth start items =
     bindR (parseHead data order lim depth start items) (\<lambda>(encoded, field, pos).
       let items = items + 1 in
       if fd_encoding field = EncodingStruct then
         if encoded AND EncodingChainFlag = 0 then invalid start ''struct''
         else
           let childCount = unat (fd_format field) in
           if childCount = 0 \<or> childCount > 127 then invalid start ''struct''
           else if int (depth + 1) > MaxDepth lim then decodeError start ''struct'' ErrLimit
           else bindR (parseChildren data order lim (depth + 1) childCount pos items)
             (\<lambda>(children, pos, items). Inr (with_children field children, pos, items))
       else Inr (field, pos, items))"
| "parseChildren data order lim depth n pos items =
     (case n of
        0 \<Rightarrow> Inr ([], pos, items)
      | Suc n \<Rightarrow>
        if pos = length data then Inr ([], pos, items)
        else bindR (parseField data order lim depth pos items) (\<lambda>(child, pos, items).
          bindR (parseChildren data order lim depth n pos items) (\<lambda>(children, pos, items).
          Inr (child # children, pos, items))))"
  by pat_completeness auto
termination
  by (relation "measures
        [\<lambda>x. case x of Inl (data, order, lim, depth, start, items) \<Rightarrow> nat (MaxDepth lim - int depth)
           | Inr (data, order, lim, depth, n, pos, items) \<Rightarrow> nat (MaxDepth lim - int depth),
         \<lambda>x. case x of Inl _ \<Rightarrow> 0 | Inr (data, order, lim, depth, n, pos, items) \<Rightarrow> Suc n]")
     auto

declare parseField.simps [simp del] parseChildren.simps [simp del]

lemma fields_bounds:
  "parseField data order lim depth pos items = Inr (f, pos', items') \<Longrightarrow>
     pos + 2 \<le> pos' \<and> pos' \<le> length data \<and> items < items'"
  "parseChildren data order lim depth n pos items = Inr (fs, pos', items') \<Longrightarrow> pos \<le> length data \<Longrightarrow>
     pos \<le> pos' \<and> pos' \<le> length data \<and> items \<le> items'"
proof (induction data order lim depth pos items and data order lim depth n pos items
    arbitrary: f pos' items' and fs pos' items' rule: parseField_parseChildren.induct)
  case (1 data order lim depth start items)
  from 1(2) obtain encoded field p where
    h: "parseHead data order lim depth start items = Inr (encoded, field, p)"
    by (auto simp: parseField.simps result_simps)
  note b = parseHead_bounds [OF h]
  show ?case
  proof (cases "fd_encoding field = EncodingStruct")
    case True
    with 1(2) h obtain children p' where
      c: "parseChildren data order lim (depth + 1) (unat (fd_format field)) p (items + 1)
            = Inr (children, p', items')" "pos' = p'" and
      g: "encoded AND EncodingChainFlag \<noteq> 0" "unat (fd_format field) \<noteq> 0"
         "\<not> unat (fd_format field) > 127" "\<not> int (depth + 1) > MaxDepth lim"
      by (auto simp: parseField.simps result_simps Let_def split: if_splits)
    have "p \<le> p' \<and> p' \<le> length data \<and> items + 1 \<le> items'"
      by (rule 1(1) [OF h refl refl refl True g(1) refl _ g(4) c(1)]) (use g b in auto)
    with b c(2) show ?thesis by auto
  next
    case False
    with 1(2) h b show ?thesis by (auto simp: parseField.simps)
  qed
next
  case (2 data order lim depth n pos items)
  show ?case
  proof (cases n)
    case 0
    with 2 show ?thesis by (simp add: parseChildren.simps)
  next
    case (Suc m)
    show ?thesis
    proof (cases "pos = length data")
      case True
      with 2(3) Suc show ?thesis by (simp add: parseChildren.simps)
    next
      case False
      with 2(3) Suc obtain child p its cs where
        c: "parseField data order lim depth pos items = Inr (child, p, its)"
           "parseChildren data order lim depth m p its = Inr (cs, pos', items')"
        by (subst (asm) parseChildren.simps) (auto simp: result_simps)
      note b = 2(1) [OF Suc False c(1)]
      from 2(2) [OF Suc False c(1) refl refl c(2)] b show ?thesis by auto
    qed
  qed
qed

text \<open>\<open>parseTop\<close> parses fields until the metadata ends.\<close>

function parseTop :: "bytes \<Rightarrow> endian \<Rightarrow> limits \<Rightarrow> nat \<Rightarrow> nat \<Rightarrow> field_def list result" where
  "parseTop data order lim pos items =
     (if pos < length data then
        bindR (parseField data order lim 0 pos items) (\<lambda>(field, pos, items).
        bindR (parseTop data order lim pos items) (\<lambda>fs. Inr (field # fs)))
      else Inr [])"
  by pat_completeness auto
termination
  by (relation "measure (\<lambda>(data, order, lim, pos, items). length data - pos)")
     (auto dest!: fields_bounds(1))

declare parseTop.simps [simp del]


section \<open>Header and extensions\<close>

record ext_state =
  xs_offset :: nat
  xs_metadata :: bytes
  xs_metadataOffset :: nat
  xs_haveMetadata :: bool
  xs_haveActivity :: bool
  xs_ActivityID :: "bytes option"
  xs_RelatedID :: "bytes option"
  xs_Extensions :: "extension list"

definition ext_start :: ext_state where
  "ext_start = \<lparr>xs_offset = 8, xs_metadata = [], xs_metadataOffset = 0, xs_haveMetadata = False,
     xs_haveActivity = False, xs_ActivityID = None, xs_RelatedID = None, xs_Extensions = []\<rparr>"

text \<open>The \<open>switch\<close> on the extension's kind.\<close>

definition extensionBody ::
  "u16 \<Rightarrow> nat \<Rightarrow> nat \<Rightarrow> bytes \<Rightarrow> ext_state \<Rightarrow> ext_state result" where
  "extensionBody rawKind sz extensionOffset body st =
     (let kind = rawKind AND ExtensionKindMask in
      if kind = ExtensionMetadata then
        if xs_haveMetadata st then invalid extensionOffset ''extension''
        else Inr (st\<lparr>xs_haveMetadata := True, xs_metadata := body, xs_metadataOffset := extensionOffset + 4\<rparr>)
      else if kind = ExtensionActivityID then
        if xs_haveActivity st then invalid extensionOffset ''extension''
        else if sz \<noteq> 16 \<and> sz \<noteq> 32 then invalid extensionOffset ''extension''
        else bindR (slice body 0 16) (\<lambda>activity.
          let st = st\<lparr>xs_haveActivity := True, xs_ActivityID := Some activity\<rparr> in
          if sz = 32 then bindR (slice_from body 16) (\<lambda>related. Inr (st\<lparr>xs_RelatedID := Some related\<rparr>))
          else Inr st)
      else Inr (st\<lparr>xs_Extensions := xs_Extensions st @
             [\<lparr>ext_Kind = kind, ext_Size = of_nat sz, ext_Chain = rawKind AND ExtensionKindChainFlag \<noteq> 0,
               ext_Offset = extensionOffset, ext_Data = body\<rparr>]\<rparr>))"

text \<open>One round of the extension loop; the flag says whether another extension follows.\<close>

definition extensionStep :: "bytes \<Rightarrow> endian \<Rightarrow> ext_state \<Rightarrow> (ext_state \<times> bool) result" where
  "extensionStep data order st =
     (let offset = xs_offset st in
      if length data - offset < 4 then truncated offset ''extension header'' else
      bindR (read16 order data offset) (\<lambda>size16.
      bindR (read16 order data (offset + 2)) (\<lambda>rawKind.
      let sz = unat size16;
          extensionOffset = offset;
          offset = offset + 4
      in
      if rawKind AND ExtensionKindMask = ExtensionInvalid then invalid (extensionOffset + 2) ''extension''
      else if sz > length data - offset then truncated offset ''extension data'' else
      bindR (slice data offset (offset + sz)) (\<lambda>body.
      bindR (extensionBody rawKind sz extensionOffset body (st\<lparr>xs_offset := offset + sz\<rparr>)) (\<lambda>st.
      Inr (st, rawKind AND ExtensionKindChainFlag \<noteq> 0))))))"

lemma extensionBody_offset:
  "extensionBody rawKind sz off body st = Inr st' \<Longrightarrow> xs_offset st' = xs_offset st"
  by (auto simp: extensionBody_def Let_def result_simps split: if_splits)

lemma extensionStep_offset:
  "extensionStep data order st = Inr (st', again) \<Longrightarrow>
     xs_offset st + 4 \<le> xs_offset st' \<and> xs_offset st' \<le> length data"
  by (auto simp: extensionStep_def Let_def result_simps not_less split: if_splits
      dest!: extensionBody_offset)

function parseExtensions :: "bytes \<Rightarrow> endian \<Rightarrow> ext_state \<Rightarrow> ext_state result" where
  "parseExtensions data order st =
     bindR (extensionStep data order st) (\<lambda>(st, again).
       if again then parseExtensions data order st else Inr st)"
  by pat_completeness auto
termination
  by (relation "measure (\<lambda>(data, order, st). length data - xs_offset st)")
     (auto dest!: extensionStep_offset)

declare parseExtensions.simps [simp del]


section \<open>The event\<close>

definition parseHeader :: "bytes \<Rightarrow> endian \<Rightarrow> u8 \<Rightarrow> header result" where
  "parseHeader data order flags =
     bindR (index data 1) (\<lambda>version.
     bindR (read16 order data 2) (\<lambda>i.
     bindR (read16 order data 4) (\<lambda>t.
     bindR (index data 6) (\<lambda>opcode.
     bindR (index data 7) (\<lambda>level.
     Inr \<lparr>hdr_Flags = flags, hdr_Version = version, hdr_ID = i, hdr_Tag = t, hdr_Opcode = opcode,
          hdr_Level = level\<rparr>)))))"

definition header_order :: "u8 \<Rightarrow> endian" where
  "header_order flags = (if flags AND HeaderFlagLittleEndian \<noteq> 0 then LittleEndian else BigEndian)"

definition header_byteOrder :: "u8 \<Rightarrow> byte_order" where
  "header_byteOrder flags =
     (if flags AND HeaderFlagLittleEndian \<noteq> 0 then ByteOrderLittle else ByteOrderBig)"

text \<open>The checks on the metadata, the event name, the fields and their diagnostics.\<close>

definition parseBody ::
  "limits \<Rightarrow> bytes \<Rightarrow> endian \<Rightarrow> event_info \<Rightarrow> ext_state \<Rightarrow> parsed_event result" where
  "parseBody lim data order info st =
     (let offset = xs_offset st;
          metadata = xs_metadata st;
          metadataOffset = xs_metadataOffset st
      in
      if \<not> xs_haveMetadata st then invalid offset ''extension''
      else if int (length metadata) > MaxMetadataSize lim then decodeError metadataOffset ''metadata'' ErrLimit
      else
      bindR (slice_from data offset) (\<lambda>payload.
      if int (length payload) > MaxPayloadSize lim then decodeError offset ''payload'' ErrLimit
      else case byteIndex metadata 0 of
        None \<Rightarrow> truncated metadataOffset ''event name''
      | Some nul \<Rightarrow>
        if nul = 0 then invalid metadataOffset ''event name'' else
        bindR (slice metadata 0 nul) (\<lambda>nameRaw.
        if containsSemicolon nameRaw then invalid metadataOffset ''event name'' else
        let info = info\<lparr>ei_ActivityID := xs_ActivityID st, ei_RelatedID := xs_RelatedID st,
                        ei_Extensions := xs_Extensions st, ei_EventNameRaw := nameRaw,
                        ei_EventName := replacementString nameRaw, ei_Metadata := metadata,
                        ei_Payload := payload\<rparr>;
            info = (if \<not> utf8_valid nameRaw
                    then info\<lparr>ei_Diagnostics := ei_Diagnostics info
                                @ [unicodeDiagnostic metadataOffset ''event name'']\<rparr>
                    else info)
        in
        bindR (shiftR metadataOffset (parseTop metadata order lim (nul + 1) 0)) (\<lambda>defs.
        Inr \<lparr>pe_info = info\<lparr>ei_Diagnostics := appendNameDiagnostics (ei_Diagnostics info) defs metadataOffset\<rparr>,
             pe_order = order, pe_payload = payload, pe_payloadOffset = offset, pe_fields = defs,
             pe_raw = data\<rparr>))))"

definition parse :: "limits \<Rightarrow> string \<Rightarrow> bytes \<Rightarrow> parsed_event result" where
  "parse limits tracepointName data =
     (let lim = normalized limits in
      if \<not> limits_valid lim then decodeError 0 ''limits'' ErrLimit
      else if int (length data) > MaxEventSize lim then decodeError 0 ''event'' ErrLimit
      else
      bindR (parseTracepointName tracepointName) (\<lambda>(provider, nameLevel, keyword, options).
      if length data < 8 then truncated (length data) ''header'' else
      bindR (index data 0) (\<lambda>flags.
      if flags AND NOT (HeaderFlagPointer64 OR HeaderFlagLittleEndian OR HeaderFlagExtension) \<noteq> 0
      then invalid 0 ''header'' else
      let order = header_order flags in
      bindR (parseHeader data order flags) (\<lambda>header.
      if hdr_Level header \<noteq> nameLevel then invalid 7 ''header'' else
      let info = \<lparr>ei_Provider = provider, ei_Keyword = keyword, ei_Options = options, ei_Header = header,
                  ei_ByteOrder = header_byteOrder flags,
                  ei_Pointer64 = (flags AND HeaderFlagPointer64 \<noteq> 0), ei_EventName = [],
                  ei_EventNameRaw = [], ei_ActivityID = None, ei_RelatedID = None,
                  ei_Extensions = [], ei_Metadata = [], ei_Payload = [], ei_Diagnostics = []\<rparr> in
      bindR (if flags AND HeaderFlagExtension \<noteq> 0 then parseExtensions data order ext_start
             else Inr ext_start) (\<lambda>st.
      parseBody lim data order info st)))))"


section \<open>No panic\<close>

lemma safe_parseChain: "safe (parseChain data order encoded pos)"
  by (auto simp: parseChain_def Let_def intro!: safe_bindR safe_index safe_read16)

lemma safe_parseCount: "safe (parseCount data order encoded pos)"
  by (auto simp: parseCount_def Let_def intro!: safe_bindR safe_read16)

lemma safe_parseHead: "pos \<le> length data \<Longrightarrow> safe (parseHead data order lim depth pos items)"
  using byteIndex_bound [of "drop pos data" 0]
  by (fastforce simp: parseHead_def Let_def slice_from_in
      intro!: safe_bindR safe_slice safe_index safe_parseChain safe_parseCount split: option.splits)

lemma safe_fields:
  "pos \<le> length data \<Longrightarrow> safe (parseField data order lim depth pos items)"
  "pos \<le> length data \<Longrightarrow> safe (parseChildren data order lim depth n pos items)"
proof (induction data order lim depth pos items and data order lim depth n pos items
    rule: parseField_parseChildren.induct)
  case (1 data order lim depth start items)
  have children: "safe (parseChildren data order lim (depth + 1) (unat (fd_format field)) p (items + 1))"
    if "parseHead data order lim depth start items = Inr (encoded, field, p)"
      "fd_encoding field = EncodingStruct" "\<not> encoded AND EncodingChainFlag = 0"
      "\<not> (unat (fd_format field) = 0 \<or> unat (fd_format field) > 127)"
      "\<not> int (depth + 1) > MaxDepth lim"
    for encoded field p
    using parseHead_bounds [OF that(1)] 1(1) [OF that(1) refl refl refl that(2,3) refl that(4,5)] by simp
  show ?case
    by (subst parseField.simps)
       (intro safe_bindR safe_parseHead 1(2); auto simp: Let_def intro!: safe_bindR children [simplified])
next
  case (2 data order lim depth n pos items)
  have rest: "safe (parseChildren data order lim depth m p its)"
    if "n = Suc m" "pos \<noteq> length data" "parseField data order lim depth pos items = Inr (child, p, its)"
    for m child p its
    using fields_bounds(1) [OF that(3)] 2(2) [OF that(1-3) refl refl] by simp
  show ?case
    using 2(1,3) by (subst parseChildren.simps) (auto intro!: safe_bindR rest split: nat.split)
qed

lemma safe_parseTop: "safe (parseTop data order lim pos items)"
proof (induction data order lim pos items rule: parseTop.induct)
  case (1 data order lim pos items)
  then show ?case
    by (subst parseTop.simps) (auto intro!: safe_bindR safe_fields)
qed

lemma safe_extensionBody:
  "sz = length body \<Longrightarrow> safe (extensionBody rawKind sz off body st)"
  by (auto simp: extensionBody_def Let_def intro!: safe_bindR safe_slice safe_slice_from)

lemma safe_extensionStep: "safe (extensionStep data order st)"
  by (auto simp: extensionStep_def Let_def result_simps
      intro!: safe_bindR safe_read16 safe_slice safe_extensionBody)

lemma safe_parseExtensions: "safe (parseExtensions data order st)"
proof (induction data order st rule: parseExtensions.induct)
  case (1 data order st)
  then show ?case
    by (subst parseExtensions.simps) (auto intro!: safe_bindR safe_extensionStep)
qed

lemma parseExtensions_offset:
  "parseExtensions data order st = Inr st' \<Longrightarrow>
     xs_offset st + 4 \<le> xs_offset st' \<and> xs_offset st' \<le> length data"
proof (induction data order st rule: parseExtensions.induct)
  case (1 data order st)
  from 1(2) obtain st1 again where s: "extensionStep data order st = Inr (st1, again)"
    "(if again then parseExtensions data order st1 else Inr st1) = Inr st'"
    by (subst (asm) parseExtensions.simps) (auto simp: result_simps)
  with 1(1) [OF s(1) refl] extensionStep_offset [OF s(1)] show ?case
    by (auto split: if_splits)
qed

lemma safe_parseBody: "xs_offset st \<le> length data \<Longrightarrow> safe (parseBody lim data order info st)"
  using byteIndex_bound [of "xs_metadata st" 0]
  by (fastforce simp: parseBody_def Let_def intro!: safe_bindR safe_slice safe_slice_from
      safe_parseTop split: option.splits)

lemma safe_parseHeader: "8 \<le> length data \<Longrightarrow> safe (parseHeader data order flags)"
  by (auto simp: parseHeader_def intro!: safe_bindR safe_index safe_read16)

lemma safe_parseTracepointName: "safe (parseTracepointName name)"
  by (auto simp: parseTracepointName_def name_error_def Let_def split: option.splits)

lemma safe_parse: "safe (parse limits name data)"
  by (auto simp: parse_def Let_def ext_start_def
      intro!: safe_bindR safe_parseTracepointName safe_index safe_parseHeader safe_parseExtensions
      safe_parseBody dest!: parseExtensions_offset)

text \<open>
  The parser never panics: on any tracepoint name, any input bytes and any limits, every index
  and slice expression it evaluates is in range.
\<close>

theorem parse_no_panic: "safe (parse limits name data)"
  by (rule safe_parse)

end
