(* ===== verification/RoundTrip.thy ===== *)
theory RoundTrip imports BuilderApi Parse begin

text \<open>
  What the producer's \<open>Builder.Encode\<close> writes, the consumer's \<open>parse\<close> reads back: the wire form of a
  field tree parses to the definitions of that tree, and an encoded event to its header, activity
  ids, name, fields and payload.
\<close>


section \<open>Bits of the encoding and format bytes\<close>

lemma mask_id: "(x :: u8) AND NOT m = 0 \<Longrightarrow> x AND m = x"
  by (metis or.right_neutral bit.conj_disj_distrib bit.disj_cancel_right and.right_neutral)

lemma mask_or: "(x :: u8) AND NOT m = 0 \<Longrightarrow> (x OR y) AND m = x OR (y AND m)"
  by (simp add: bit.conj_disj_distrib2 mask_id)

lemma mask_disjoint: "(x :: u8) AND NOT m = 0 \<Longrightarrow> m AND k = 0 \<Longrightarrow> x AND k = 0"
  by (metis and.assoc mask_id bit.conj_zero_right)

lemma mask_or_disjoint: "(x :: u8) AND NOT m = 0 \<Longrightarrow> m AND k = 0 \<Longrightarrow> (x OR y) AND k = y AND k"
  by (simp add: bit.conj_disj_distrib2 mask_disjoint)

lemma format_byte:
  assumes "f AND NOT FormatValueMask = 0"
  shows "(f OR chain_if t) AND FormatValueMask = f"
    and "(f OR chain_if t) AND FormatChainFlag \<noteq> 0 \<longleftrightarrow> t \<noteq> 0"
  using mask_or [OF assms, of "chain_if t"] mask_or_disjoint [OF assms, of FormatChainFlag "chain_if t"]
  by (simp_all add: chain_if_def)

lemma encoding_byte:
  assumes "e AND NOT EncodingValueMask = 0" "y = kind_flag k OR c" "c = 0 \<or> c = EncodingChainFlag"
  shows "(e OR y) AND EncodingValueMask = e"
    and "(e OR y) AND EncodingCArrayFlag \<noteq> 0 \<longleftrightarrow> k = ArrayFixed"
    and "(e OR y) AND EncodingVArrayFlag \<noteq> 0 \<longleftrightarrow> k = ArrayVariable"
    and "(e OR y) AND EncodingChainFlag \<noteq> 0 \<longleftrightarrow> c \<noteq> 0"
  using assms(2,3) mask_or [OF assms(1), of y] mask_or_disjoint [OF assms(1), of EncodingCArrayFlag y]
    mask_or_disjoint [OF assms(1), of EncodingVArrayFlag y]
    mask_or_disjoint [OF assms(1), of EncodingChainFlag y]
  by (auto simp: kind_flag_def split: array_kind.splits)


section \<open>One field\<close>

lemma read16_put16 [simp]: "i = length pre \<Longrightarrow> read16 e (pre @ put16 e w @ rest) i = Inr w"
  using slice_append_length [of i pre "i + 2" "put16 e w" rest] by (simp add: read16_def)

lemma nth_at [simp]: "(pre @ x # rest) ! length pre = x"
  by (simp add: nth_append)

lemma parseChain_ser:
  assumes "f AND NOT FormatValueMask = 0" "encoded AND EncodingChainFlag \<noteq> 0" "i = length pre"
  shows "parseChain (pre @ (f OR chain_if t) # tag_bytes h t @ rest) (native h) encoded i
    = Inr (f, t, i + 1 + length (tag_bytes h t))"
proof -
  have tag: "read16 (native h) (pre @ (f OR chain_if t) # native16 h t @ rest) (Suc i) = Inr t"
    using read16_put16 [of "Suc i" "pre @ [f OR chain_if t]" "native h" t rest] assms(3) by simp
  show ?thesis
    using format_byte [OF assms(1), of t] assms(2,3) tag
    by (cases "t = 0") (simp_all add: parseChain_def tag_bytes_def index_in Let_def)
qed

lemma parseCount_ser:
  assumes "i = length pre" "encoded AND EncodingCArrayFlag \<noteq> 0 \<longleftrightarrow> k = ArrayFixed"
    "encoded AND EncodingVArrayFlag \<noteq> 0 \<longleftrightarrow> k = ArrayVariable" "\<forall>x. k \<noteq> ArrayOther x"
    "k = ArrayFixed \<longleftrightarrow> c \<noteq> 0"
  shows "parseCount (pre @ (if k = ArrayFixed then native16 h c else []) @ rest) (native h) encoded i
    = Inr (k, c, i + (if k = ArrayFixed then 2 else 0))"
  using assms by (cases k) (simp_all add: parseCount_def Let_def)

lemma valid_nameD:
  assumes "valid_name n"
  shows "n \<noteq> []" "utf8_valid (to_bytes n)" "0 \<notin> set (to_bytes n)" "\<not> containsSemicolon (to_bytes n)"
    "replacementString (to_bytes n) = n"
  using assms
  by (auto simp: valid_name_def validateMetadataName_def containsSemicolon_def replacementString_def
      split: if_splits)

lemma parseHead_ser:
  assumes "valid_name n" "int items < MaxItems lim" "i = length pre"
    "encoded AND EncodingValueMask = e" "e \<noteq> 0" "e \<le> 13"
    "encoded AND EncodingCArrayFlag = 0 \<or> encoded AND EncodingVArrayFlag = 0"
    "data = pre @ to_bytes n @ 0 # encoded # rest"
    "parseChain data order encoded (i + length n + 2) = Inr (f, t, p)"
    "parseCount data order encoded p = Inr (k, c, p')"
  shows "parseHead data order lim d i items
    = Inr (encoded, FieldDef n (to_bytes n) e f t k c d i [], p')"
proof -
  note v = valid_nameD [OF assms(1)]
  have nul: "byteIndex (drop i data) 0 = Some (length n)"
    using v(3) assms(3,8) byteIndex_append [of 0 "to_bytes n" "encoded # rest"] by simp
  have name: "slice data i (i + length n) = Inr (to_bytes n)"
    using assms(3,8) slice_append_length [of i pre "i + length n" "to_bytes n"] by simp
  have enc: "index data (i + length n + 1) = Inr encoded"
    using index_append_length [of "pre @ to_bytes n @ [0]" encoded rest] assms(3,8) by simp
  have len: "i + length n + 1 < length data" using assms(3,8) by simp
  show ?thesis
    using v nul name enc len assms(2,4,5,6,7,9,10)
    by (auto simp: parseHead_def Let_def slice_from_in)
qed


section \<open>Trees\<close>

text \<open>The definitions the parser makes of a tree whose wire form starts at byte \<open>pos\<close>.\<close>

fun def_of :: "host \<Rightarrow> nat \<Rightarrow> nat \<Rightarrow> field_tree \<Rightarrow> field_def"
  and defs_of :: "host \<Rightarrow> nat \<Rightarrow> nat \<Rightarrow> field_tree list \<Rightarrow> field_def list" where
  "def_of h d pos (Leaf n e f t k c) = FieldDef n (to_bytes n) e f t k c d pos []"
| "def_of h d pos (Node n t ts) =
     FieldDef n (to_bytes n) EncodingStruct (of_nat (length ts)) t ArrayScalar 0 d pos
       (defs_of h (d + 1) (pos + length (struct_head h n t (length ts))) ts)"
| "defs_of h d pos [] = []"
| "defs_of h d pos (x # xs) = def_of h d pos x # defs_of h d (pos + length (ser_field h x)) xs"

text \<open>Encodings the decoder knows.\<close>

fun known :: "field_tree \<Rightarrow> bool" where
  "known (Leaf n e f t k c) \<longleftrightarrow> e \<le> EncodingBinaryLength16Char8"
| "known (Node n t ts) \<longleftrightarrow> (\<forall>x\<in>set ts. known x)"

abbreviation (input) trees_size :: "field_tree list \<Rightarrow> nat" where
  "trees_size ts \<equiv> sum_list (map tree_size ts)"

lemma parseField_leaf:
  assumes "wf_tree d (Leaf n e f t k c)" "known (Leaf n e f t k c)" "int items < MaxItems lim" "i = length pre"
  shows "parseField (pre @ ser_field h (Leaf n e f t k c) @ rest) (native h) lim d i items
    = Inr (def_of h d i (Leaf n e f t k c), i + length (ser_field h (Leaf n e f t k c)), items + 1)"
proof -
  define ch where "ch = (if f \<noteq> 0 \<or> t \<noteq> 0 then EncodingChainFlag else 0)"
  define encoded where "encoded = e OR (kind_flag k OR ch)"
  define chain where "chain = (if ch \<noteq> 0 then (f OR chain_if t) # tag_bytes h t else [])"
  define count where "count = (if k = ArrayFixed then native16 h c else [])"
  have e: "e AND NOT EncodingValueMask = 0" "e \<noteq> 0" "e \<noteq> 1" "e \<le> 13" and n: "valid_name n"
    and f: "f AND NOT FormatValueMask = 0" and k: "\<forall>x. k \<noteq> ArrayOther x" "k = ArrayFixed \<longleftrightarrow> c \<noteq> 0"
    using assms(1,2) by auto
  have ch: "ch = 0 \<or> ch = EncodingChainFlag" by (simp add: ch_def)
  note b = encoding_byte [OF e(1) refl ch, of k, folded encoded_def]
  have leaf: "leaf_tail h e f t k c = encoded # chain @ count"
    by (auto simp: leaf_tail_def encoded_def chain_def count_def ch_def or.assoc)
  let ?data = "pre @ to_bytes n @ 0 # encoded # chain @ count @ rest"
  let ?p = "i + length n + 2 + length chain"
  have pc: "parseChain ?data (native h) encoded (i + length n + 2) = Inr (f, t, ?p)"
  proof (cases "ch = 0")
    case True
    then have "f = 0 \<and> t = 0" by (auto simp: ch_def split: if_splits)
    with True b(4) show ?thesis by (simp add: parseChain_def chain_def)
  next
    case False
    then have "encoded AND EncodingChainFlag \<noteq> 0" using b(4) by blast
    from parseChain_ser [OF f this, of "i + length n + 2" "pre @ to_bytes n @ [0, encoded]" t h "count @ rest"]
    show ?thesis using False assms(4) by (simp add: chain_def)
  qed
  have pk: "parseCount ?data (native h) encoded ?p = Inr (k, c, ?p + length count)"
    using parseCount_ser [OF _ b(2,3) k, of ?p "pre @ to_bytes n @ 0 # encoded # chain" h rest] assms(4)
    by (simp add: count_def)
  have flags: "encoded AND EncodingCArrayFlag = 0 \<or> encoded AND EncodingVArrayFlag = 0"
    using b(2,3) by (cases k) auto
  have "parseHead ?data (native h) lim d i items
      = Inr (encoded, FieldDef n (to_bytes n) e f t k c d i [], ?p + length count)"
    by (rule parseHead_ser [OF n assms(3,4) b(1) e(2,4) flags refl pc pk])
  then show ?thesis
    using e(3) by (simp add: parseField.simps leaf Let_def)
qed

lemma parseHead_struct:
  assumes "valid_name n" "int items < MaxItems lim" "i = length pre" "0 < c" "c \<le> 127"
  shows "parseHead (pre @ struct_head h n t c @ rest) (native h) lim d i items
    = Inr (0x81, FieldDef n (to_bytes n) EncodingStruct (of_nat c) t ArrayScalar 0 d i [],
           i + length (struct_head h n t c))"
proof -
  define f :: u8 where "f = of_nat c"
  have "unat f = c" using assms(5) by (simp add: f_def unat_of_nat take_bit_eq_mod)
  then have "unat (take_bit 7 f) = unat f"
    using assms(5) by (simp only: unsigned_take_bit_eq) (simp add: take_bit_eq_mod)
  then have "take_bit 7 f = f" by (simp only: word_unat_eq_iff)
  then have "f AND 127 = f" by (simp add: take_bit_eq_mask mask_eq_exp_minus_1)
  then have f: "f AND NOT FormatValueMask = 0"
    by (metis and.assoc bit.conj_cancel_right bit.conj_zero_right)
  let ?data = "pre @ to_bytes n @ 0 # 0x81 # (f OR chain_if t) # tag_bytes h t @ rest"
  have pc: "parseChain ?data (native h) 0x81 (i + length n + 2)
      = Inr (f, t, i + length (struct_head h n t c))"
    using parseChain_ser [OF f, of "0x81" "i + length n + 2" "pre @ to_bytes n @ [0, 0x81]" t h rest] assms(3)
    by (auto simp: tag_bytes_def)
  have pk: "parseCount ?data (native h) 0x81 (i + length (struct_head h n t c))
      = Inr (ArrayScalar, 0, i + length (struct_head h n t c))"
    by (simp add: parseCount_def)
  have "parseHead ?data (native h) lim d i items
      = Inr (0x81, FieldDef n (to_bytes n) EncodingStruct f t ArrayScalar 0 d i [],
             i + length (struct_head h n t c))"
    by (rule parseHead_ser [OF assms(1,2,3) _ _ _ _ refl pc pk]) simp_all
  then show ?thesis by (simp add: struct_head_def f_def)
qed

lemma tree_size_pos [simp]: "0 < tree_size x"
  by (cases x) auto

lemma ser_field_nonempty [simp]: "ser_field h x \<noteq> []"
  by (cases x) (auto simp: struct_head_def)

lemma parse_trees:
  "wf_tree d x \<Longrightarrow> known x \<Longrightarrow> int (items + tree_size x) \<le> MaxItems lim \<Longrightarrow> 8 \<le> MaxDepth lim \<Longrightarrow>
   i = length pre \<Longrightarrow>
     parseField (pre @ ser_field h x @ rest) (native h) lim d i items
       = Inr (def_of h d i x, i + length (ser_field h x), items + tree_size x)"
  "\<forall>x\<in>set ts. wf_tree d x \<Longrightarrow> \<forall>x\<in>set ts. known x \<Longrightarrow> int (items + trees_size ts) \<le> MaxItems lim \<Longrightarrow>
   8 \<le> MaxDepth lim \<Longrightarrow> i = length pre \<Longrightarrow>
     parseChildren (pre @ ser_fields h ts @ rest) (native h) lim d (length ts) i items
       = Inr (defs_of h d i ts, i + length (ser_fields h ts), items + trees_size ts)"
proof (induction h d i x and h d i ts arbitrary: pre rest items and pre rest items
    rule: def_of_defs_of.induct)
  case (1 h d pos n e f t k c)
  then show ?case using parseField_leaf [of d n e f t k c items lim pos pre h rest] by simp
next
  case (2 h d pos n t ts)
  let ?c = "length ts" and ?hd = "struct_head h n t (length ts)"
  have c: "0 < ?c" "?c \<le> 127" "valid_name n" "d < 8" using 2(2) by auto
  have u: "unat (of_nat ?c :: u8) = ?c" using c(2) by (simp add: unat_of_nat take_bit_eq_mod)
  have head: "parseHead (pre @ ?hd @ ser_fields h ts @ rest) (native h) lim d pos items
      = Inr (0x81, FieldDef n (to_bytes n) EncodingStruct (of_nat ?c) t ArrayScalar 0 d pos [],
             pos + length ?hd)"
    by (rule parseHead_struct [OF c(3) _ 2(6) c(1,2)]) (use 2(4) in simp)
  have kids: "parseChildren ((pre @ ?hd) @ ser_fields h ts @ rest) (native h) lim (d + 1) ?c
        (pos + length ?hd) (items + 1)
      = Inr (defs_of h (d + 1) (pos + length ?hd) ts, pos + length ?hd + length (ser_fields h ts),
             items + 1 + trees_size ts)"
    by (rule 2(1)) (use 2(2-6) in auto)
  show ?case
    using head kids c u 2(5)
    by (subst parseField.simps) (simp add: with_children_def Let_def del: length_struct_head)
next
  case (3 h d pos)
  then show ?case by (simp add: parseChildren.simps)
next
  case (4 h d pos x xs)
  have x: "parseField (pre @ ser_field h x @ ser_fields h xs @ rest) (native h) lim d pos items
      = Inr (def_of h d pos x, pos + length (ser_field h x), items + tree_size x)"
    by (rule 4(1)) (use 4(3-7) in auto)
  have xs: "parseChildren ((pre @ ser_field h x) @ ser_fields h xs @ rest) (native h) lim d (length xs)
        (pos + length (ser_field h x)) (items + tree_size x)
      = Inr (defs_of h d (pos + length (ser_field h x)) xs,
             pos + length (ser_field h x) + length (ser_fields h xs),
             items + tree_size x + trees_size xs)"
    by (rule 4(2)) (use 4(3-7) in auto)
  have "pos \<noteq> length (pre @ ser_field h x @ ser_fields h xs @ rest)"
    using 4(7) by simp
  then show ?case
    using x xs by (subst parseChildren.simps) (simp add: add.assoc)
qed

lemma parseTop_trees:
  assumes "\<forall>x\<in>set ts. wf_tree 0 x" "\<forall>x\<in>set ts. known x" "int (items + trees_size ts) \<le> MaxItems lim"
    "8 \<le> MaxDepth lim" "i = length pre"
  shows "parseTop (pre @ ser_fields h ts) (native h) lim i items = Inr (defs_of h 0 i ts)"
  using assms
proof (induction ts arbitrary: pre i items)
  case Nil
  then show ?case by (simp add: parseTop.simps)
next
  case (Cons x xs)
  have x: "parseField (pre @ ser_field h x @ ser_fields h xs) (native h) lim 0 i items
      = Inr (def_of h 0 i x, i + length (ser_field h x), items + tree_size x)"
    by (rule parse_trees(1)) (use Cons.prems in auto)
  have xs: "parseTop ((pre @ ser_field h x) @ ser_fields h xs) (native h) lim
      (i + length (ser_field h x)) (items + tree_size x) = Inr (defs_of h 0 (i + length (ser_field h x)) xs)"
    by (rule Cons.IH) (use Cons.prems in auto)
  have "i < length (pre @ ser_field h x @ ser_fields h xs)" using Cons.prems(5) by simp
  then show ?case
    using x xs by (subst parseTop.simps) simp
qed


section \<open>Header and extensions\<close>

lemma extensionStep_ser:
  assumes "xs_offset st = length pre" "length body \<le> 65535" "raw AND ExtensionKindMask \<noteq> 0"
  shows "extensionStep (pre @ native16 h (of_nat (length body)) @ native16 h raw @ body @ rest) (native h) st
    = bindR (extensionBody raw (length body) (length pre) body
               (st\<lparr>xs_offset := length pre + 4 + length body\<rparr>))
        (\<lambda>st. Inr (st, raw AND ExtensionKindChainFlag \<noteq> 0))"
proof -
  let ?sz = "native16 h (of_nat (length body))"
  let ?data = "pre @ ?sz @ native16 h raw @ body @ rest"
  have sz: "unat (of_nat (length body) :: u16) = length body"
    using assms(2) by (simp add: unat_of_nat take_bit_eq_mod)
  have r1: "read16 (native h) ?data (length pre) = Inr (of_nat (length body))" by simp
  have r2: "read16 (native h) ?data (length pre + 2) = Inr raw"
    using read16_put16 [of "length pre + 2" "pre @ ?sz" "native h" raw "body @ rest"] by simp
  have body: "slice ?data (length pre + 4) (length pre + 4 + length body) = Inr body"
    using slice_append_length [of "length pre + 4" "pre @ ?sz @ native16 h raw" _ body rest] by simp
  show ?thesis
    unfolding extensionStep_def Let_def assms(1) r1 r2 bindR_Inr sz body using assms(3) by simp
qed

definition activity_ext :: "host \<Rightarrow> builder \<Rightarrow> bytes" where
  "activity_ext h b =
     (if b_hasAct b then
        native16 h (if b_hasRel b then 32 else 16) @ native16 h (ExtensionActivityID OR ExtensionKindChainFlag)
        @ b_activity b @ (if b_hasRel b then b_related b else [])
      else [])"

definition ids_ok :: "builder \<Rightarrow> bool" where
  "ids_ok b \<longleftrightarrow> length (b_activity b) = 16 \<and> length (b_related b) = 16"

lemma Encode_result:
  assumes "Encode h level b = Inr data"
  shows "data = [defaultHeaderFlags h, b_version b] @ native16 h (b_id b) @ native16 h (b_tag b)
      @ [b_opcode b, level] @ activity_ext h b
      @ native16 h (of_nat (length (b_metadata b))) @ native16 h ExtensionMetadata
      @ b_metadata b @ b_payload b"
    and "length (b_metadata b) \<le> 65535" "length (b_metadata b) + length (b_payload b) \<le> 65467"
    "b_structs b = []" "b_hasRel b \<longrightarrow> b_hasAct b"
  using assms
  by (auto simp: Encode_def encodeSegments_def Let_def result_simps activity_ext_def not_less
      split: if_splits)

lemma parseExtensions_ser:
  assumes "ids_ok b" "b_hasRel b \<longrightarrow> b_hasAct b" "length m \<le> 65535" "length pre = 8"
  shows "parseExtensions (pre @ activity_ext h b @ native16 h (of_nat (length m))
            @ native16 h ExtensionMetadata @ m @ rest) (native h) ext_start
    = Inr (ext_start\<lparr>
        xs_offset := 8 + length (activity_ext h b) + 4 + length m,
        xs_metadata := m, xs_metadataOffset := 8 + length (activity_ext h b) + 4,
        xs_haveMetadata := True, xs_haveActivity := b_hasAct b,
        xs_ActivityID := (if b_hasAct b then Some (b_activity b) else None),
        xs_RelatedID := (if b_hasRel b then Some (b_related b) else None)\<rparr>)"
proof -
  let ?tail = "native16 h (of_nat (length m)) @ native16 h ExtensionMetadata @ m @ rest"
  have final: "parseExtensions (pre' @ ?tail) (native h) st
      = Inr (st\<lparr>xs_offset := length pre' + 4 + length m, xs_haveMetadata := True, xs_metadata := m,
               xs_metadataOffset := length pre' + 4\<rparr>)"
    if "xs_offset st = length pre'" "\<not> xs_haveMetadata st" for pre' and st :: ext_state
    using extensionStep_ser [OF that(1) assms(3), of "1" h rest] that(2)
    by (subst parseExtensions.simps) (simp add: extensionBody_def)
  show ?thesis
  proof (cases "b_hasAct b")
    case False
    with assms(2) final [where st = ext_start and pre' = pre] assms(4) show ?thesis
      by (simp add: ext_start_def activity_ext_def)
  next
    case True
    define body where "body = b_activity b @ (if b_hasRel b then b_related b else [])"
    have len: "length body = (if b_hasRel b then 32 else 16)"
      and parts: "take 16 body = b_activity b" "b_hasRel b \<Longrightarrow> drop 16 body = b_related b"
      using assms(1) by (simp_all add: body_def ids_ok_def)
    have ext: "activity_ext h b = native16 h (of_nat (length body)) @ native16 h 0x8002 @ body"
      using True len by (simp add: activity_ext_def body_def)
    define st where "st = ext_start\<lparr>xs_offset := 12 + length body, xs_haveActivity := True,
        xs_ActivityID := Some (b_activity b),
        xs_RelatedID := (if b_hasRel b then Some (b_related b) else None)\<rparr>"
    have "extensionStep (pre @ activity_ext h b @ ?tail) (native h) ext_start = Inr (st, True)"
      using extensionStep_ser [of ext_start pre body "0x8002" h ?tail] assms(4) len parts
      by (simp add: ext ext_start_def extensionBody_def slice_def slice_from_def st_def)
    then have "parseExtensions (pre @ activity_ext h b @ ?tail) (native h) ext_start
        = parseExtensions ((pre @ activity_ext h b) @ ?tail) (native h) st"
      by (subst parseExtensions.simps) simp
    also have "\<dots> = Inr (st\<lparr>xs_offset := length (pre @ activity_ext h b) + 4 + length m,
        xs_haveMetadata := True, xs_metadata := m,
        xs_metadataOffset := length (pre @ activity_ext h b) + 4\<rparr>)"
      by (rule final) (simp_all add: st_def ext_start_def ext assms(4))
    finally show ?thesis
      using True assms(4) by (simp add: st_def ext_start_def ext)
  qed
qed


section \<open>Invariants of the calls\<close>

fun call_typed :: "call \<Rightarrow> bool" where
  "call_typed (CScalar n v opts) \<longleftrightarrow> typed v"
| "call_typed (CArray n vs k opts) \<longleftrightarrow> (\<forall>v\<in>set (elements vs). typed v)"
| "call_typed (CSetActivity a r) \<longleftrightarrow>
     (case a of None \<Rightarrow> True | Some x \<Rightarrow> length x = 16) \<and> (case r of None \<Rightarrow> True | Some x \<Rightarrow> length x = 16)"
| "call_typed _ \<longleftrightarrow> True"

lemma ids_noteChild [simp]: "ids_ok (noteChild b) = ids_ok b"
  by (simp add: ids_ok_def)

lemma ids_more [simp]:
  "ids_ok (b\<lparr>b_metadata := m, b_payload := p\<rparr>) = ids_ok b" "ids_ok (b\<lparr>b_metadata := m\<rparr>) = ids_ok b"
  "ids_ok (b\<lparr>b_structs := s\<rparr>) = ids_ok b"
  by (simp_all add: ids_ok_def)

lemma ids_addScalar: "addScalar h n e d f opts b = Inr b' \<Longrightarrow> ids_ok b \<Longrightarrow> ids_ok b'"
  by (auto simp: addScalar_def result_simps dest!: addField_result(1))

lemma ids_addArray: "addArray h n e m d k f opts b = Inr b' \<Longrightarrow> ids_ok b \<Longrightarrow> ids_ok b'"
  by (auto simp: addArray_def result_simps split: if_splits dest!: addField_result(1))

lemma ids_call:
  assumes "exec_call h c b = Inr b'" "call_typed c" "ids_ok b"
  shows "ids_ok b'"
proof (cases c)
  case (CScalar n v opts)
  with assms show ?thesis by (auto simp: builder_scalar_wire split: if_splits dest!: ids_addScalar)
next
  case (CArray n vs k opts)
  with assms(1) have "builder_array h n vs k opts b = Inr b'" by simp
  from ids_addArray [OF builder_array_wire(1) [OF this]] assms(3) show ?thesis .
next
  case (CBegin n t)
  with assms show ?thesis by (auto simp: Let_def dest!: BeginStruct_result(1))
next
  case CEnd
  with assms show ?thesis by (auto simp: EndStruct_def Let_def result_simps ids_ok_def split: if_splits)
next
  case (CSetActivity a r)
  with assms show ?thesis
    by (auto simp: SetActivity_def Let_def result_simps ids_ok_def zeroID_def
        split: if_splits option.splits)
qed (use assms in \<open>auto simp: SetVersion_def SetID_def SetIDVersion_def SetTag_def SetOpcode_def
      result_simps ids_ok_def\<close>)

lemma ids_calls:
  "run_calls h cs b = Inr b' \<Longrightarrow> \<forall>c\<in>set cs. call_typed c \<Longrightarrow> ids_ok b \<Longrightarrow> ids_ok b'"
  by (induction cs arbitrary: b) (auto simp: result_simps intro: ids_call)

lemma ids_new: "NewBuilder name = Inr b \<Longrightarrow> ids_ok b"
  by (auto simp: NewBuilder_def Reset_def result_simps ids_ok_def zeroID_def)

definition spec_known :: "event_spec \<Rightarrow> bool" where
  "spec_known s \<longleftrightarrow>
     (\<forall>x\<in>set (sp_top s). known x) \<and> (\<forall>(n, t, kids)\<in>set (sp_open s). \<forall>x\<in>set kids. known x)"

lemma known_add: "spec_known s \<Longrightarrow> known x \<Longrightarrow> spec_known (sp_add x s)"
  by (cases s rule: spec_cases) (auto simp: spec_known_def sp_add_def)

lemma value_encoding_known: "value_encoding h v \<le> 13"
  by (cases v) auto

lemma known_bytes [simp]: "spec_known (sp_bytes p s) = spec_known s"
  by (simp add: spec_known_def)

lemma known_call:
  assumes "spec_known s" "c = CEnd \<Longrightarrow> sp_open s \<noteq> []"
  shows "spec_known (spec_call h c s)"
proof (cases c)
  case CEnd
  with assms(2) obtain os n t kids where "sp_open s = os @ [(n, t, kids)]"
    by (cases s rule: spec_cases) auto
  moreover from this assms(1) have "spec_known (s\<lparr>sp_open := os\<rparr>)" "known (Node n t kids)"
    by (auto simp: spec_known_def)
  ultimately show ?thesis
    using CEnd known_add by (simp add: sp_end_def)
qed (use assms(1) value_encoding_known in
      \<open>auto simp: Let_def sp_begin_def spec_known_def intro!: known_add [unfolded spec_known_def]\<close>)

lemma known_calls:
  "refines h s b \<Longrightarrow> run_calls h cs b = Inr b' \<Longrightarrow> spec_known s \<Longrightarrow> spec_known (spec_calls h cs s)"
proof (induction cs arbitrary: s b)
  case (Cons c cs)
  from Cons.prems(2) obtain b1 where b1: "exec_call h c b = Inr b1" "run_calls h cs b1 = Inr b'"
    by (auto simp: result_simps)
  have "sp_open s \<noteq> []" if "c = CEnd"
    using b1(1) that refinesD(5) [OF Cons.prems(1)] by (auto simp: EndStruct_def result_simps)
  with Cons.IH [OF refines_call [OF Cons.prems(1) b1(1)] b1(2)] known_call [OF Cons.prems(3)]
  show ?case by simp
qed simp


section \<open>The round trip\<close>

lemma nameDiagnostics_none:
  "wf_tree d x \<Longrightarrow> nameDiagnostics base (def_of h d pos x) = []"
  "\<forall>x\<in>set xs. wf_tree d x \<Longrightarrow> concat (map (nameDiagnostics base) (defs_of h d pos xs)) = []"
proof (induction h d pos x and h d pos xs rule: def_of_defs_of.induct)
  case (2 h d pos n t ts)
  then show ?case using valid_nameD(2) [of n] by simp
qed (use valid_nameD(2) in simp_all)

lemma header_order_flags [simp]: "header_order (defaultHeaderFlags h) = native h"
  by (cases "native h") (simp_all add: header_order_def defaultHeaderFlags_eq)

lemma defaultHeaderFlags_bits:
  "defaultHeaderFlags h AND NOT (HeaderFlagPointer64 OR HeaderFlagLittleEndian OR HeaderFlagExtension) = 0"
  "defaultHeaderFlags h AND HeaderFlagExtension \<noteq> 0"
  "defaultHeaderFlags h AND HeaderFlagPointer64 \<noteq> 0 \<longleftrightarrow> int64 h"
  "header_byteOrder (defaultHeaderFlags h) = (if native h = LittleEndian then ByteOrderLittle else ByteOrderBig)"
  by (simp_all add: defaultHeaderFlags_eq header_byteOrder_def)

lemma parseHeader_ser:
  "parseHeader ([f, v] @ native16 h i @ native16 h t @ [oc, l] @ rest) (native h) f
     = Inr \<lparr>hdr_Flags = f, hdr_Version = v, hdr_ID = i, hdr_Tag = t, hdr_Opcode = oc, hdr_Level = l\<rparr>"
proof -
  let ?data = "[f, v] @ native16 h i @ native16 h t @ [oc, l] @ rest"
  have "read16 (native h) ?data 2 = Inr i"
    using read16_put16 [of 2 "[f, v]" "native h" i "native16 h t @ [oc, l] @ rest"] by simp
  moreover have "read16 (native h) ?data 4 = Inr t"
    using read16_put16 [of 4 "[f, v] @ native16 h i" "native h" t "[oc, l] @ rest"] by simp
  moreover have "index ?data 6 = Inr oc" "index ?data 7 = Inr l" "index ?data 1 = Inr v"
    by (simp_all add: index_def nth_append)
  ultimately show ?thesis by (simp add: parseHeader_def)
qed

lemma parseBody_ser:
  assumes "wf_spec s" "spec_known s" "sp_open s = []" "trees_size (sp_top s) \<le> 4096"
    "m = spec_metadata h s" "length m \<le> 65535" "length p \<le> 65467"
    "xs_metadata st = m" "xs_haveMetadata st" "xs_offset st = length pre"
    "ei_Diagnostics info = []" "mo = xs_metadataOffset st"
  shows "parseBody (normalized zero_limits) (pre @ p) (native h) info st
    = Inr \<lparr>pe_info = info\<lparr>ei_ActivityID := xs_ActivityID st, ei_RelatedID := xs_RelatedID st,
                 ei_Extensions := xs_Extensions st, ei_EventNameRaw := to_bytes (sp_name s),
                 ei_EventName := sp_name s, ei_Metadata := m, ei_Payload := p, ei_Diagnostics := []\<rparr>,
           pe_order = native h, pe_payload = p, pe_payloadOffset = length pre,
           pe_fields = defs_of h 0 (length (sp_name s) + 1) (sp_top s), pe_raw = pre @ p\<rparr>"
proof -
  have name: "valid_name (sp_name s)" and wf: "\<forall>x\<in>set (sp_top s). wf_tree 0 x"
    using assms(1) by (auto simp: wf_spec_def)
  note v = valid_nameD [OF name]
  have m: "m = to_bytes (sp_name s) @ 0 # ser_fields h (sp_top s)"
    using assms(3,5) by (simp add: spec_metadata_def spec_base_def)
  have nul: "byteIndex m 0 = Some (length (sp_name s))"
    using byteIndex_append [OF v(3)] by (simp add: m)
  have nm: "slice m 0 (length (sp_name s)) = Inr (to_bytes (sp_name s))"
    by (simp add: slice_def m)
  have "\<forall>x\<in>set (sp_top s). known x" using assms(2) by (simp add: spec_known_def)
  then have "parseTop ((to_bytes (sp_name s) @ [0]) @ ser_fields h (sp_top s)) (native h)
      (normalized zero_limits) (length (sp_name s) + 1) 0
      = Inr (defs_of h 0 (length (sp_name s) + 1) (sp_top s))"
    using wf assms(4) by (intro parseTop_trees) (simp_all add: normalized_def zero_limits_def)
  then have top: "parseTop m (native h) (normalized zero_limits) (Suc (length (sp_name s))) 0
      = Inr (defs_of h 0 (Suc (length (sp_name s))) (sp_top s))"
    by (simp add: m)
  have shift: "shiftR k (Inr x :: 'x result) = Inr x" for k and x :: 'x by simp
  have limits: "int (length m) \<le> MaxMetadataSize (normalized zero_limits)"
    "int (length p) \<le> MaxPayloadSize (normalized zero_limits)"
    using assms(6,7) by (simp_all add: normalized_def zero_limits_def)
  show ?thesis
    using assms(8-12) limits v nul nm top nameDiagnostics_none(2) [OF wf]
    by (simp add: parseBody_def Let_def not_less [symmetric] shift appendNameDiagnostics_def slice_from_def
        slice_def)
qed


text \<open>What the decoder is to report of an event, from the specification and the builder's attributes.\<close>

definition parsed_as ::
  "host \<Rightarrow> string \<Rightarrow> u64 \<Rightarrow> string \<Rightarrow> u8 \<Rightarrow> builder \<Rightarrow> event_spec \<Rightarrow> parsed_event \<Rightarrow> bool" where
  "parsed_as h provider keyword grp level b s pe \<longleftrightarrow>
     (let info = pe_info pe in
      ei_Provider info = provider \<and> ei_Keyword info = keyword \<and>
      ei_Options info = (if grp = [] then [] else CHR ''G'' # grp) \<and>
      ei_Header info = \<lparr>hdr_Flags = defaultHeaderFlags h, hdr_Version = b_version b, hdr_ID = b_id b,
                        hdr_Tag = b_tag b, hdr_Opcode = b_opcode b, hdr_Level = level\<rparr> \<and>
      ei_ByteOrder info = (if native h = LittleEndian then ByteOrderLittle else ByteOrderBig) \<and>
      ei_Pointer64 info = int64 h \<and>
      ei_EventName info = sp_name s \<and>
      ei_ActivityID info = (if b_hasAct b then Some (b_activity b) else None) \<and>
      ei_RelatedID info = (if b_hasRel b then Some (b_related b) else None) \<and>
      ei_Extensions info = [] \<and> ei_Diagnostics info = [] \<and>
      pe_order pe = native h \<and>
      pe_payload pe = sp_payload s \<and>
      pe_fields pe = defs_of h 0 (length (sp_name s) + 1) (sp_top s))"

lemma parse_encoded:
  assumes "refines h s b" "spec_known s" "ids_ok b" "Encode h level b = Inr data"
    "TracepointName provider level keyword grp = Inr tp" "trees_size (sp_top s) \<le> 4096"
  shows "\<exists>pe. parse zero_limits tp data = Inr pe \<and> parsed_as h provider keyword grp level b s pe"
proof -
  note r = refinesD [OF assms(1)] and e = Encode_result [OF assms(4)]
  have closed: "sp_open s = []" using r(5) e(4) by (metis frames_eq_Nil)
  define pre where "pre = [defaultHeaderFlags h, b_version b] @ native16 h (b_id b) @ native16 h (b_tag b)
      @ [b_opcode b, level]"
  define mid where "mid = activity_ext h b @ native16 h (of_nat (length (b_metadata b)))
      @ native16 h ExtensionMetadata @ b_metadata b"
  have data: "data = (pre @ mid) @ b_payload b" using e(1) by (simp add: pre_def mid_def)
  have pre: "length pre = 8" by (simp add: pre_def)
  have act: "length (activity_ext h b) \<le> 36"
    using assms(3) by (simp add: activity_ext_def ids_ok_def)
  have size: "length data \<le> 16777216"
    using e(3) act pre by (simp add: data mid_def)
  obtain st where st: "parseExtensions data (native h) ext_start = Inr st"
    "xs_metadata st = b_metadata b" "xs_haveMetadata st" "xs_offset st = length (pre @ mid)"
    "xs_ActivityID st = (if b_hasAct b then Some (b_activity b) else None)"
    "xs_RelatedID st = (if b_hasRel b then Some (b_related b) else None)" "xs_Extensions st = []"
    using parseExtensions_ser [OF assms(3) e(5,2) pre, of h "b_payload b"]
    by (simp add: data mid_def pre ext_start_def)
  have head: "index data 0 = Inr (defaultHeaderFlags h)"
    by (simp add: data pre_def index_def)
  have header: "parseHeader data (native h) (defaultHeaderFlags h)
      = Inr \<lparr>hdr_Flags = defaultHeaderFlags h, hdr_Version = b_version b, hdr_ID = b_id b,
             hdr_Tag = b_tag b, hdr_Opcode = b_opcode b, hdr_Level = level\<rparr>"
    using parseHeader_ser [of "defaultHeaderFlags h" "b_version b" h "b_id b" "b_tag b" "b_opcode b"
        level "mid @ b_payload b"] by (simp add: data pre_def)
  have body: "parseBody (normalized zero_limits) data (native h) info st
    = Inr \<lparr>pe_info = info\<lparr>ei_ActivityID := xs_ActivityID st, ei_RelatedID := xs_RelatedID st,
                 ei_Extensions := xs_Extensions st, ei_EventNameRaw := to_bytes (sp_name s),
                 ei_EventName := sp_name s, ei_Metadata := b_metadata b, ei_Payload := b_payload b,
                 ei_Diagnostics := []\<rparr>,
           pe_order = native h, pe_payload = b_payload b, pe_payloadOffset = length (pre @ mid),
           pe_fields = defs_of h 0 (length (sp_name s) + 1) (sp_top s), pe_raw = data\<rparr>"
    if "ei_Diagnostics info = []" for info
    unfolding data
    by (rule parseBody_ser [OF r(1) assms(2) closed assms(6) r(3) e(2) _ st(2,3,4) that refl])
       (use e(3) in simp)
  have limits: "limits_valid (normalized zero_limits)"
    "int (length data) \<le> MaxEventSize (normalized zero_limits)"
    using size by (simp_all add: limits_valid_def normalized_def zero_limits_def)
  have long: "8 \<le> length data" using pre by (simp add: data)
  note bits = defaultHeaderFlags_bits [of h]
  show ?thesis
    unfolding parse_def Let_def
    using limits long parse_TracepointName [OF assms(5)] head header st body bits r(4)
    by (auto simp: parsed_as_def Let_def group_text_def)
qed


text \<open>
  C1. An event built by any successful sequence of typed method calls and encoded at a level is
  accepted by the decoder under the tracepoint name of that level, and the decoder reports what was
  put in: provider, level and keyword, header, byte order and pointer size, event name, activity
  ids, the fields of the specification tree, and the payload, with no diagnostic. (The only limit
  that matters is the decoder's 4096 fields.)
\<close>

theorem encode_parse_roundtrip:
  assumes "NewBuilder name = Inr b0" "run_calls h cs b0 = Inr b" "\<forall>c\<in>set cs. call_typed c"
    "Encode h level b = Inr data" "TracepointName provider level keyword grp = Inr tp"
    "trees_size (sp_top (spec_calls h cs (spec_new name))) \<le> 4096"
  shows "\<exists>pe. parse zero_limits tp data = Inr pe
    \<and> parsed_as h provider keyword grp level b (spec_calls h cs (spec_new name)) pe"
proof (rule parse_encoded [OF _ _ _ assms(4,5,6)])
  show "refines h (spec_calls h cs (spec_new name)) b"
    by (rule refines_calls [OF refines_new [OF assms(1)] assms(2)])
  show "ids_ok b" by (rule ids_calls [OF assms(2,3) ids_new [OF assms(1)]])
  show "spec_known (spec_calls h cs (spec_new name))"
    by (rule known_calls [OF refines_new [OF assms(1)] assms(2)]) (simp add: spec_known_def spec_new_def)
qed

theorem encode_parse_roundtrip_witness:
  "\<exists>pe. parse zero_limits ''P_L4K10Gh''
          [7, 0, 0, 0, 0, 0, 0, 4, 11, 0, 1, 0, 101, 0, 115, 0, 129, 129, 7, 0, 97, 0, 3, 5, 0] = Inr pe
    \<and> pe_payload pe = [5, 0] \<and> ei_EventName (pe_info pe) = ''e''"
proof -
  have enc: "Encode demo_host 4 demo_builder
      = Inr [7, 0, 0, 0, 0, 0, 0, 4, 11, 0, 1, 0, 101, 0, 115, 0, 129, 129, 7, 0, 97, 0, 3, 5, 0]"
    by (simp add: Encode_def encodeSegments_def demo_builder_def demo_host_def requireActive_def
        Let_def defaultHeaderFlags_eq put16_bytes)
  have tp: "TracepointName ''P'' 4 0x10 ''h'' = Inr ''P_L4K10Gh''" by code_simp
  have typed: "\<forall>c\<in>set demo_calls. call_typed c" by (simp add: demo_calls_def)
  have spec: "spec_calls demo_host demo_calls (spec_new ''e'')
      = \<lparr>sp_name = ''e'', sp_top = [Node ''s'' 7 [Leaf ''a'' 3 0 0 ArrayScalar 0]], sp_open = [],
         sp_payload = put16 LittleEndian 5\<rparr>"
    by (simp add: demo_calls_def demo_host_def spec_new_def sp_add_def sp_begin_def sp_end_def
        sp_bytes_def option_format_def option_tag_def)
  have count: "trees_size (sp_top (spec_calls demo_host demo_calls (spec_new ''e''))) \<le> 4096"
    by (simp add: spec)
  have five: "put16 LittleEndian 5 = [5, 0]" by (simp add: put16_bytes)
  obtain pe where pe: "parse zero_limits ''P_L4K10Gh''
        [7, 0, 0, 0, 0, 0, 0, 4, 11, 0, 1, 0, 101, 0, 115, 0, 129, 129, 7, 0, 97, 0, 3, 5, 0] = Inr pe"
    "parsed_as demo_host ''P'' 0x10 ''h'' 4 demo_builder (spec_calls demo_host demo_calls (spec_new ''e'')) pe"
    using encode_parse_roundtrip [OF demo_run typed enc tp count] by blast
  have "pe_payload pe = [5, 0] \<and> ei_EventName (pe_info pe) = ''e''"
    using pe(2) by (simp add: parsed_as_def Let_def spec five)
  with pe(1) show ?thesis by blast
qed

end
