(* ===== verification/Value.thy ===== *)
theory Value imports Parse begin

text \<open>
  \<open>eventheader/decode/value.go\<close>: reading one wire value out of the payload and interpreting it by
  its encoding and format. A value is threaded through the functions as the code threads its
  \<open>*tracepoint.Value\<close>; reads of the raw bytes are checked.
\<close>


section \<open>Widths\<close>

definition fixedWidth :: "u8 \<Rightarrow> nat" where
  "fixedWidth e =
     (if e = EncodingValue8 then 1 else if e = EncodingValue16 then 2 else if e = EncodingValue32 then 4
      else if e = EncodingValue64 then 8 else if e = EncodingValue128 then 16 else 0)"

definition textWidth :: "u8 \<Rightarrow> nat" where
  "textWidth e =
     (if e = EncodingValue16 \<or> e = EncodingZStringChar16 \<or> e = EncodingStringLength16Char16 then 2
      else if e = EncodingValue32 \<or> e = EncodingZStringChar32 \<or> e = EncodingStringLength16Char32 then 4
      else 1)"

definition unitWidth :: "u8 \<Rightarrow> nat" where
  "unitWidth e =
     (if e = EncodingZStringChar16 \<or> e = EncodingStringLength16Char16 then 2
      else if e = EncodingZStringChar32 \<or> e = EncodingStringLength16Char32 then 4 else 1)"

lemma unitWidth_pos [simp]: "0 < unitWidth e"
  by (simp add: unitWidth_def)


section \<open>Reading a wire value\<close>

text \<open>
  The search for the terminator of a zero-terminated string: the position of the first all-zero
  unit at a multiple of the width, None when the payload ends first.
\<close>

function zeroScan :: "bytes \<Rightarrow> nat \<Rightarrow> nat \<Rightarrow> nat option result" where
  "zeroScan payload width i =
     (if width = 0 \<or> i + width > length payload then Inr None
      else bindR (slice payload i (i + width)) (\<lambda>u.
        if \<forall>b\<in>set u. b = 0 then Inr (Some i) else zeroScan payload width (i + width)))"
  by pat_completeness auto
termination
  by (relation "measure (\<lambda>(payload, width, i). length payload - i)") auto

declare zeroScan.simps [simp del]

definition readWireValue :: "u8 \<Rightarrow> bytes \<Rightarrow> nat \<Rightarrow> endian \<Rightarrow> (bytes \<times> nat \<times> nat) result" where
  "readWireValue e payload pos order =
     (let start = pos; width = fixedWidth e in
      if width \<noteq> 0 then
        if length payload - pos < width then truncated pos ''value''
        else bindR (slice payload pos (pos + width)) (\<lambda>raw. Inr (raw, pos, pos + width))
      else if e = EncodingZStringChar8 \<or> e = EncodingZStringChar16 \<or> e = EncodingZStringChar32 then
        let width = unitWidth e in
        bindR (zeroScan payload width pos) (\<lambda>found.
        case found of
          Some i \<Rightarrow> bindR (slice payload pos i) (\<lambda>raw. Inr (raw, pos, i + width))
        | None \<Rightarrow> bindR (slice_from payload pos) (\<lambda>raw. Inr (raw, pos, length payload)))
      else if e = EncodingStringLength16Char8 \<or> e = EncodingStringLength16Char16 \<or>
              e = EncodingStringLength16Char32 \<or> e = EncodingBinaryLength16Char8 then
        if length payload - pos < 2 then truncated pos ''value length''
        else bindR (read16 order payload pos) (\<lambda>count16.
          let count = unat count16;
              pos = pos + 2;
              width = (if e \<noteq> EncodingBinaryLength16Char8 then unitWidth e else 1)
          in if count > (length payload - pos) div width then truncated pos ''value data''
             else
               let sz = count * width in
               bindR (slice payload pos (pos + sz)) (\<lambda>raw. Inr (raw, pos, pos + sz)))
      else decodeError start ''value'' ErrUnsupported)"


section \<open>Values\<close>

definition valueEncoding :: "u8 \<Rightarrow> encoding" where
  "valueEncoding e =
     (if e = EncodingValue8 \<or> e = EncodingValue16 \<or> e = EncodingValue32 \<or> e = EncodingValue64
      then TpEncodingInteger
      else if e = EncodingValue128 \<or> e = EncodingBinaryLength16Char8 then TpEncodingBinary
      else if e = EncodingZStringChar8 \<or> e = EncodingZStringChar16 \<or> e = EncodingZStringChar32 \<or>
              e = EncodingStringLength16Char8 \<or> e = EncodingStringLength16Char16 \<or>
              e = EncodingStringLength16Char32 then TpEncodingUTF8
      else TpEncodingNone)"

definition format_names :: "string list" where
  "format_names =
     [''default'', ''unsigned'', ''signed'', ''hex'', ''errno'', ''pid'', ''time'',
      ''boolean'', ''float'', ''hex-bytes'', ''string8'', ''string-utf'',
      ''string-utf-bom'', ''xml'', ''json'', ''uuid'', ''port'', ''ip'', ''ip-obsolete'']"

definition formatName :: "u8 \<Rightarrow> string" where
  "formatName format =
     (if unat format < length format_names then format_names ! unat format else format_dec (unat format))"

definition bitWidth :: "nat \<Rightarrow> nat" where
  "bitWidth n = (if n = 0 then 0 else if n > 536870911 then 4294967295 else n * 8)"

text \<open>Assigning the kind, the member and the encoding of a value; marking it invalid.\<close>

definition set_data :: "tdata \<Rightarrow> encoding \<Rightarrow> tvalue \<Rightarrow> tvalue" where
  "set_data d e v = TValue d (tv_Raw v) (tv_ByteOrder v) e (tv_Format v) (tv_Width v) (tv_Valid v) (tv_Diagnostics v)"

definition markInvalid :: "tvalue \<Rightarrow> nat \<Rightarrow> string \<Rightarrow> tvalue" where
  "markInvalid v offset message =
     TValue (tv_Data v) (tv_Raw v) (tv_ByteOrder v) (tv_Encoding v) (tv_Format v) (tv_Width v) False
       (tv_Diagnostics v @ [\<lparr>diag_Severity = SeverityError, diag_Offset = int offset, diag_Stage = ''value'',
                             diag_Message = message, diag_Err = Err ErrInvalid\<rparr>])"

lemma set_data_simps [simp]:
  "tv_Data (set_data d e v) = d" "tv_Raw (set_data d e v) = tv_Raw v" "tv_Encoding (set_data d e v) = e"
  "tv_Valid (set_data d e v) = tv_Valid v" "tv_Diagnostics (set_data d e v) = tv_Diagnostics v"
  by (simp_all add: set_data_def)

lemma markInvalid_simps [simp]:
  "tv_Data (markInvalid v off m) = tv_Data v" "tv_Raw (markInvalid v off m) = tv_Raw v"
  "\<not> tv_Valid (markInvalid v off m)"
  by (simp_all add: markInvalid_def)

definition isUTFStringFormat :: "u8 \<Rightarrow> bool" where
  "isUTFStringFormat format \<longleftrightarrow>
     format = FormatStringUTF \<or> format = FormatStringUTFBOM \<or> format = FormatStringXML \<or> format = FormatStringJSON"

definition formatApplicable :: "u8 \<Rightarrow> u8 \<Rightarrow> bool" where
  "formatApplicable encoding format =
     (if format = FormatDefault \<or> format > FormatIPAddressObsolete then False
      else if encoding = EncodingValue8 then
        format = FormatUnsignedInt \<or> format = FormatSignedInt \<or> format = FormatHexInt \<or>
        format = FormatBoolean \<or> format = FormatHexBytes \<or> format = FormatString8
      else if encoding = EncodingValue16 then
        format = FormatUnsignedInt \<or> format = FormatSignedInt \<or> format = FormatHexInt \<or>
        format = FormatBoolean \<or> format = FormatHexBytes \<or> format = FormatStringUTF \<or> format = FormatPort
      else if encoding = EncodingValue32 then
        format = FormatUnsignedInt \<or> format = FormatSignedInt \<or> format = FormatHexInt \<or>
        format = FormatErrno \<or> format = FormatPID \<or> format = FormatTime \<or> format = FormatBoolean \<or>
        format = FormatFloat \<or> format = FormatHexBytes \<or> format = FormatStringUTF \<or>
        format = FormatIPAddress \<or> format = FormatIPAddressObsolete
      else if encoding = EncodingValue64 then
        format = FormatUnsignedInt \<or> format = FormatSignedInt \<or> format = FormatHexInt \<or>
        format = FormatTime \<or> format = FormatFloat \<or> format = FormatHexBytes
      else if encoding = EncodingValue128 then
        format = FormatHexBytes \<or> format = FormatUUID \<or> format = FormatIPAddress \<or>
        format = FormatIPAddressObsolete
      else if encoding = EncodingZStringChar8 then
        format = FormatHexBytes \<or> format = FormatString8 \<or> isUTFStringFormat format
      else if encoding = EncodingZStringChar16 \<or> encoding = EncodingZStringChar32 \<or>
              encoding = EncodingStringLength16Char16 \<or> encoding = EncodingStringLength16Char32 then
        format = FormatHexBytes \<or> isUTFStringFormat format
      else encoding = EncodingStringLength16Char8 \<or> encoding = EncodingBinaryLength16Char8)"

definition isFixedSemantic :: "u8 \<Rightarrow> bool" where
  "isFixedSemantic format \<longleftrightarrow>
     format = FormatUnsignedInt \<or> format = FormatSignedInt \<or> format = FormatHexInt \<or>
     format = FormatErrno \<or> format = FormatPID \<or> format = FormatTime \<or> format = FormatBoolean \<or>
     format = FormatFloat \<or> format = FormatUUID \<or> format = FormatPort \<or> format = FormatIPAddress \<or>
     format = FormatIPAddressObsolete"


section \<open>Integers\<close>

text \<open>\<open>unsigned\<close> and \<open>signed\<close>: None is the code's \<open>(0, false)\<close>; \<open>int64\<close> results are 64-bit words.\<close>

definition unsigned_value :: "bytes \<Rightarrow> endian \<Rightarrow> u64 option result" where
  "unsigned_value raw order =
     (if length raw = 1 then bindR (index raw 0) (\<lambda>b. Inr (Some (ucast b)))
      else if length raw = 2 then bindR (get16 order raw) (\<lambda>w. Inr (Some (ucast w)))
      else if length raw = 4 then bindR (get32 order raw) (\<lambda>w. Inr (Some (ucast w)))
      else if length raw = 8 then bindR (get64 order raw) (\<lambda>w. Inr (Some w))
      else Inr None)"

definition signed_value :: "bytes \<Rightarrow> endian \<Rightarrow> u64 option result" where
  "signed_value raw order =
     bindR (unsigned_value raw order) (\<lambda>u.
     case u of
       None \<Rightarrow> Inr None
     | Some u \<Rightarrow>
       Inr (Some (if length raw = 1 then scast (ucast u :: u8)
                  else if length raw = 2 then scast (ucast u :: u16)
                  else if length raw = 4 then scast (ucast u :: u32)
                  else u)))"


section \<open>Text\<close>

definition decodeLatin1 :: "bytes \<Rightarrow> bytes" where
  "decodeLatin1 raw = runes_to_string (map unat raw)"

fun utf16_valid :: "nat list \<Rightarrow> bool" where
  "utf16_valid [] = True"
| "utf16_valid [u] = (\<not> (0xD800 \<le> u \<and> u \<le> 0xDBFF) \<and> \<not> (0xDC00 \<le> u \<and> u \<le> 0xDFFF))"
| "utf16_valid (u # v # us) =
     (if 0xD800 \<le> u \<and> u \<le> 0xDBFF then
        if v < 0xDC00 \<or> v > 0xDFFF then False else utf16_valid us
      else if 0xDC00 \<le> u \<and> u \<le> 0xDFFF then False else utf16_valid (v # us))"

definition decodeUTF16 :: "bytes \<Rightarrow> endian \<Rightarrow> (bytes \<times> bool) result" where
  "decodeUTF16 raw order =
     (if length raw mod 2 \<noteq> 0 then Inr (encode_rune rune_error, False)
      else bindR (mapR (\<lambda>i. read16 order raw (i * 2)) [0..<length raw div 2]) (\<lambda>units.
        let units = map unat units in
        Inr (runes_to_string (utf16_decode units), utf16_valid units)))"

definition decodeUTF32 :: "bytes \<Rightarrow> endian \<Rightarrow> (bytes \<times> bool) result" where
  "decodeUTF32 raw order =
     (if length raw mod 4 \<noteq> 0 then Inr (encode_rune rune_error, False)
      else bindR (mapR (\<lambda>i. bindR (slice raw (i * 4) (i * 4 + 4)) (get32 order)) [0..<length raw div 4])
        (\<lambda>units.
         let rs = map unat units in
         Inr (runes_to_string (map (\<lambda>r. if valid_rune r then r else rune_error) rs),
              \<forall>r\<in>set rs. valid_rune r)))"

text \<open>The byte order marks: what is left of the text, its unit width and its byte order.\<close>

definition stripBOM :: "bytes \<Rightarrow> nat \<Rightarrow> endian \<Rightarrow> bytes \<times> nat \<times> endian" where
  "stripBOM raw width order =
     (if take 3 raw = [0xEF, 0xBB, 0xBF] then (drop 3 raw, 1, order)
      else if take 4 raw = [0, 0, 0xFE, 0xFF] then (drop 4 raw, 4, BigEndian)
      else if take 4 raw = [0xFF, 0xFE, 0, 0] then (drop 4 raw, 4, LittleEndian)
      else if take 2 raw = [0xFE, 0xFF] then (drop 2 raw, 2, BigEndian)
      else if take 2 raw = [0xFF, 0xFE] then (drop 2 raw, 2, LittleEndian)
      else (raw, width, order))"

definition decodeText :: "tvalue \<Rightarrow> bytes \<Rightarrow> nat \<Rightarrow> endian \<Rightarrow> bool \<Rightarrow> nat \<Rightarrow> tvalue result" where
  "decodeText v raw width order bom offset =
     (case (if bom then stripBOM raw width order else (raw, width, order)) of (raw, width, order) \<Rightarrow>
      bindR (if width = 1 then Inr (ToValidUTF8 raw replacement, utf8_valid raw)
             else if width = 2 then decodeUTF16 raw order
             else if width = 4 then decodeUTF32 raw order
             else Inr (ToValidUTF8 raw replacement, False)) (\<lambda>(text, valid).
      let v = set_data (ValueText text) TpEncodingUTF8 v in
      Inr (if \<not> valid then markInvalid v offset ''invalid Unicode replaced'' else v)))"


section \<open>Interpretation\<close>

definition defaultInterpretation :: "tvalue \<Rightarrow> u8 \<Rightarrow> bytes \<Rightarrow> nat \<Rightarrow> endian \<Rightarrow> tvalue result" where
  "defaultInterpretation v encoding raw offset order =
     (if encoding = EncodingValue8 \<or> encoding = EncodingValue16 \<or> encoding = EncodingValue32 \<or>
         encoding = EncodingValue64 then
        bindR (unsigned_value raw order) (\<lambda>u.
        Inr (set_data (ValueUnsigned (case u of Some x \<Rightarrow> x | None \<Rightarrow> 0)) TpEncodingInteger v))
      else if encoding = EncodingValue128 \<or> encoding = EncodingBinaryLength16Char8 then
        Inr (set_data (ValueBinary raw) TpEncodingBinary v)
      else if encoding = EncodingZStringChar8 \<or> encoding = EncodingStringLength16Char8 then
        decodeText v raw 1 order False offset
      else if encoding = EncodingZStringChar16 \<or> encoding = EncodingStringLength16Char16 then
        decodeText v raw 2 order False offset
      else if encoding = EncodingZStringChar32 \<or> encoding = EncodingStringLength16Char32 then
        decodeText v raw 4 order False offset
      else Inr (set_data (ValueBinary raw) TpEncodingBinary v))"

definition decodeTime :: "tvalue \<Rightarrow> u64 \<Rightarrow> nat \<Rightarrow> tvalue" where
  "decodeTime v seconds offset =
     (if 9223372036 <s seconds \<or> seconds <s -9223372036
      then markInvalid v offset ''Unix seconds overflow nanosecond timestamp''
      else
        let nanoseconds = seconds * 1000000000;
            t = \<lparr>Nanoseconds = 0, Clock = ClockRealtime, EpochOffset = 0, EpochOffsetKnown = True\<rparr>
        in set_data (ValueTime (if 0 \<le>s nanoseconds then t\<lparr>Nanoseconds := nanoseconds\<rparr>
                                else t\<lparr>EpochOffset := nanoseconds\<rparr>)) TpEncodingTime v)"

text \<open>\<open>decodeSemantic\<close>: the flag is its result, false when the raw width does not fit the format.\<close>

definition decodeSemantic :: "tvalue \<Rightarrow> u8 \<Rightarrow> bytes \<Rightarrow> nat \<Rightarrow> endian \<Rightarrow> (tvalue \<times> bool) result" where
  "decodeSemantic v format raw offset order =
     (if format = FormatUnsignedInt \<or> format = FormatHexInt then
        bindR (unsigned_value raw order) (\<lambda>u.
        case u of None \<Rightarrow> Inr (v, False)
        | Some u \<Rightarrow> Inr (set_data (ValueUnsigned u) TpEncodingInteger v, True))
      else if format = FormatSignedInt then
        bindR (signed_value raw order) (\<lambda>s.
        case s of None \<Rightarrow> Inr (v, False)
        | Some s \<Rightarrow> Inr (set_data (ValueSigned s) TpEncodingInteger v, True))
      else if format = FormatErrno \<or> format = FormatPID then
        if length raw \<noteq> 4 then Inr (v, False)
        else bindR (signed_value raw order) (\<lambda>s.
          Inr (set_data (ValueSigned (case s of Some x \<Rightarrow> x | None \<Rightarrow> 0)) TpEncodingInteger v, True))
      else if format = FormatBoolean then
        if length raw \<noteq> 1 \<and> length raw \<noteq> 2 \<and> length raw \<noteq> 4 then Inr (v, False)
        else bindR (unsigned_value raw order) (\<lambda>u.
          case u of None \<Rightarrow> Inr (v, False)
          | Some u \<Rightarrow>
            Inr (if u > 1
                 then markInvalid (set_data (ValueBool False) TpEncodingBoolean v) offset
                        ''Boolean value is not 0 or 1''
                 else set_data (ValueBool (u \<noteq> 0)) TpEncodingBoolean v, True))
      else if format = FormatFloat then
        let v = set_data (ValueFloat (F64 0)) TpEncodingFloat v in
        if length raw = 4 then
          bindR (get32 order raw) (\<lambda>w. Inr (set_data (ValueFloat (F32 w)) TpEncodingFloat v, True))
        else if length raw = 8 then
          bindR (get64 order raw) (\<lambda>w. Inr (set_data (ValueFloat (F64 w)) TpEncodingFloat v, True))
        else Inr (v, False)
      else if format = FormatUUID then
        if length raw \<noteq> 16 then Inr (v, False) else Inr (set_data (ValueUUID raw) TpEncodingUUID v, True)
      else if format = FormatPort then
        if length raw \<noteq> 2 then Inr (v, False)
        else bindR (get16 BigEndian raw) (\<lambda>w. Inr (set_data (ValuePort w) TpEncodingPort v, True))
      else if format = FormatIPAddress \<or> format = FormatIPAddressObsolete then
        if length raw = 4 \<or> length raw = 16 then Inr (set_data (ValueIP raw) TpEncodingIP v, True)
        else Inr (set_data (ValueIP []) TpEncodingIP v, False)
      else if format = FormatTime then
        let v = set_data (ValueTime zero_timestamp) TpEncodingTime v in
        if length raw = 4 then bindR (get32 order raw) (\<lambda>w. Inr (decodeTime v (scast w) offset, True))
        else if length raw = 8 then bindR (get64 order raw) (\<lambda>w. Inr (decodeTime v w offset, True))
        else Inr (v, False)
      else Inr (v, False))"

definition decodeScalar ::
  "u8 \<Rightarrow> u8 \<Rightarrow> bytes \<Rightarrow> nat \<Rightarrow> endian \<Rightarrow> byte_order \<Rightarrow> tvalue result" where
  "decodeScalar encoding format raw offset order byteOrder =
     (let v = TValue ValueNull raw byteOrder (valueEncoding encoding) (formatName format)
                (bitWidth (length raw)) True [];
          counted = encoding \<ge> EncodingZStringChar8
      in
      if \<not> formatApplicable encoding format then defaultInterpretation v encoding raw offset order
      else if isFixedSemantic format then
        if counted \<and> raw = [] then Inr v
        else bindR (decodeSemantic v format raw offset order) (\<lambda>(v, ok).
          if ok then Inr v else defaultInterpretation v encoding raw offset order)
      else if format = FormatUnsignedInt \<or> format = FormatHexInt then
        bindR (unsigned_value raw order) (\<lambda>u.
        case u of Some u \<Rightarrow> Inr (set_data (ValueUnsigned u) (tv_Encoding v) v)
        | None \<Rightarrow> defaultInterpretation v encoding raw offset order)
      else if format = FormatSignedInt \<or> format = FormatErrno \<or> format = FormatPID then
        bindR (signed_value raw order) (\<lambda>s.
        case s of Some s \<Rightarrow> Inr (set_data (ValueSigned s) (tv_Encoding v) v)
        | None \<Rightarrow> defaultInterpretation v encoding raw offset order)
      else if format = FormatHexBytes then Inr (set_data (ValueBinary raw) TpEncodingBinary v)
      else if format = FormatString8 then Inr (set_data (ValueText (decodeLatin1 raw)) TpEncodingUTF8 v)
      else if format = FormatStringUTF then
        decodeText v raw (textWidth encoding) order False offset
      else if format = FormatStringUTFBOM \<or> format = FormatStringXML \<or> format = FormatStringJSON then
        decodeText v raw (textWidth encoding) order True offset
      else defaultInterpretation v encoding raw offset order)"


section \<open>Reading is safe and stays inside the payload\<close>

lemma zeroScan_found:
  "zeroScan payload width i = Inr (Some j) \<Longrightarrow> i \<le> j \<and> j + width \<le> length payload"
proof (induction payload width i rule: zeroScan.induct)
  case (1 payload width i)
  from 1(2) show ?case
    by (subst (asm) zeroScan.simps) (auto simp: result_simps split: if_splits dest!: 1(1)[rotated -1])
qed

lemma safe_zeroScan: "safe (zeroScan payload width i)"
proof (induction payload width i rule: zeroScan.induct)
  case (1 payload width i)
  then show ?case by (subst zeroScan.simps) (auto intro!: safe_bindR safe_slice)
qed

text \<open>The three shapes of a wire value.\<close>

definition zstring_encoding :: "u8 \<Rightarrow> bool" where
  "zstring_encoding e \<longleftrightarrow> e = EncodingZStringChar8 \<or> e = EncodingZStringChar16 \<or> e = EncodingZStringChar32"

definition counted_encoding :: "u8 \<Rightarrow> bool" where
  "counted_encoding e \<longleftrightarrow>
     e = EncodingStringLength16Char8 \<or> e = EncodingStringLength16Char16 \<or>
     e = EncodingStringLength16Char32 \<or> e = EncodingBinaryLength16Char8"

definition counted_width :: "u8 \<Rightarrow> nat" where
  "counted_width e = (if e \<noteq> EncodingBinaryLength16Char8 then unitWidth e else 1)"

lemma readWireValue_fixed:
  "fixedWidth e \<noteq> 0 \<Longrightarrow> readWireValue e payload pos order =
     (if length payload - pos < fixedWidth e then truncated pos ''value''
      else bindR (slice payload pos (pos + fixedWidth e)) (\<lambda>raw. Inr (raw, pos, pos + fixedWidth e)))"
  by (simp add: readWireValue_def Let_def)

lemma readWireValue_zstring:
  "fixedWidth e = 0 \<Longrightarrow> zstring_encoding e \<Longrightarrow> readWireValue e payload pos order =
     bindR (zeroScan payload (unitWidth e) pos) (\<lambda>found.
     case found of
       Some i \<Rightarrow> bindR (slice payload pos i) (\<lambda>raw. Inr (raw, pos, i + unitWidth e))
     | None \<Rightarrow> bindR (slice_from payload pos) (\<lambda>raw. Inr (raw, pos, length payload)))"
  by (simp add: readWireValue_def Let_def zstring_encoding_def)

lemma readWireValue_counted:
  "fixedWidth e = 0 \<Longrightarrow> \<not> zstring_encoding e \<Longrightarrow> counted_encoding e \<Longrightarrow>
   readWireValue e payload pos order =
     (if length payload - pos < 2 then truncated pos ''value length''
      else bindR (read16 order payload pos) (\<lambda>c.
        if unat c > (length payload - (pos + 2)) div counted_width e then truncated (pos + 2) ''value data''
        else bindR (slice payload (pos + 2) (pos + 2 + unat c * counted_width e))
          (\<lambda>raw. Inr (raw, pos + 2, pos + 2 + unat c * counted_width e))))"
  unfolding readWireValue_def Let_def zstring_encoding_def counted_encoding_def counted_width_def
  by simp

lemma readWireValue_other:
  "fixedWidth e = 0 \<Longrightarrow> \<not> zstring_encoding e \<Longrightarrow> \<not> counted_encoding e \<Longrightarrow>
   readWireValue e payload pos order = decodeError pos ''value'' ErrUnsupported"
  by (simp add: readWireValue_def zstring_encoding_def counted_encoding_def)

lemmas readWireValue_shapes =
  readWireValue_fixed readWireValue_zstring readWireValue_counted readWireValue_other

lemma encoding_shape:
  obtains "fixedWidth e \<noteq> 0" | "fixedWidth e = 0" "zstring_encoding e"
  | "fixedWidth e = 0" "\<not> zstring_encoding e" "counted_encoding e"
  | "fixedWidth e = 0" "\<not> zstring_encoding e" "\<not> counted_encoding e"
  by blast

lemma counted_fits:
  "\<not> (n - p) div w < c \<Longrightarrow> p \<le> n \<Longrightarrow> p + c * w \<le> (n :: nat)"
  by (metis le_add_diff_inverse nat_add_left_cancel_le not_less div_times_less_eq_dividend le_trans
      mult_le_mono1)

lemma safe_readWireValue: "pos \<le> length payload \<Longrightarrow> safe (readWireValue e payload pos order)"
  by (cases e rule: encoding_shape)
     (auto simp: readWireValue_shapes dest!: zeroScan_found counted_fits split: option.split
       intro!: safe_bindR safe_slice safe_slice_from safe_zeroScan safe_read16)

lemma readWireValue_bounds:
  assumes "readWireValue e payload pos order = Inr (raw, off, next)" "pos \<le> length payload"
  shows "pos \<le> off" "off + length raw \<le> next" "next \<le> length payload"
    "raw = take (length raw) (drop off payload)"
  using assms
  by (cases e rule: encoding_shape;
      auto simp: readWireValue_shapes result_simps dest!: zeroScan_found
      split: if_splits option.splits)+


section \<open>Interpretation is safe\<close>

lemma safe_unsigned_value: "safe (unsigned_value raw order)"
  by (auto simp: unsigned_value_def intro!: safe_bindR safe_index safe_get16 safe_get32 safe_get64)

lemma safe_signed_value: "safe (signed_value raw order)"
  by (auto simp: signed_value_def intro!: safe_bindR safe_unsigned_value split: option.split)

lemma half_units: "x < n div k \<Longrightarrow> 0 < k \<Longrightarrow> x * k + k \<le> (n :: nat)"
proof -
  assume "x < n div k" "0 < k"
  then have "Suc x * k \<le> n div k * k" by (meson Suc_leI mult_le_mono1)
  also have "\<dots> \<le> n" by simp
  finally show ?thesis by simp
qed

lemma safe_decodeUTF16: "safe (decodeUTF16 raw order)"
  using half_units [of _ "length raw" 2]
  by (auto simp: decodeUTF16_def Let_def intro!: safe_bindR safe_mapR safe_read16)

lemma safe_decodeUTF32: "safe (decodeUTF32 raw order)"
  using half_units [of _ "length raw" 4]
  by (auto simp: decodeUTF32_def Let_def result_simps intro!: safe_bindR safe_mapR safe_slice safe_get32)

lemma safe_decodeText: "safe (decodeText v raw width order bom offset)"
  unfolding decodeText_def Let_def by (intro safe_rules safe_decodeUTF16 safe_decodeUTF32)

lemma safe_defaultInterpretation: "safe (defaultInterpretation v e raw offset order)"
  by (auto simp: defaultInterpretation_def intro!: safe_bindR safe_unsigned_value safe_decodeText)

lemma safe_decodeSemantic: "safe (decodeSemantic v format raw offset order)"
  unfolding decodeSemantic_def Let_def
  by (intro safe_rules safe_unsigned_value safe_signed_value safe_get16 safe_get32 safe_get64; simp)

lemma safe_decodeScalar: "safe (decodeScalar e f raw offset order bo)"
  unfolding decodeScalar_def Let_def
  by (intro safe_rules safe_unsigned_value safe_signed_value safe_decodeText
      safe_defaultInterpretation safe_decodeSemantic)


section \<open>Decoded text is well-formed UTF-8\<close>

definition text_ok :: "tdata \<Rightarrow> bool" where
  "text_ok d \<longleftrightarrow> (case d of ValueText t \<Rightarrow> utf8_valid t | _ \<Rightarrow> True)"

lemma text_ok_simps [simp]:
  "text_ok ValueNull" "text_ok (ValueUnsigned u)" "text_ok (ValueSigned u)" "text_ok (ValueFloat fl)"
  "text_ok (ValueBool b)" "text_ok (ValueBinary bs)" "text_ok (ValueUUID bs)" "text_ok (ValueIP bs)"
  "text_ok (ValuePort p)" "text_ok (ValueTime t)" "text_ok (ValueText t') = utf8_valid t'"
  by (simp_all add: text_ok_def)

lemma utf8_replacement [simp]: "utf8_valid replacement"
proof -
  have "utf8_len replacement = Some 3"
    by (simp add: replacement_def second_ok_def is_cont_def)
  from utf8_valid_step [OF this] show ?thesis by (simp add: replacement_def)
qed

lemma utf8_rune_error [simp]: "utf8_valid (encode_rune r)"
  using utf8_valid_runes [of "[r]"] by (simp add: runes_to_string_def)

lemma decodeUTF_valid:
  "decodeUTF16 raw order = Inr (t, ok) \<Longrightarrow> utf8_valid t"
  "decodeUTF32 raw order = Inr (t, ok) \<Longrightarrow> utf8_valid t"
  by (auto simp: decodeUTF16_def decodeUTF32_def Let_def result_simps utf8_valid_runes split: if_splits)

abbreviation (input) text_value :: "tvalue result \<Rightarrow> bool" where
  "text_value \<equiv> returns (\<lambda>v. text_ok (tv_Data v))"

lemma decodeText_valid: "text_value (decodeText v raw width order bom offset)"
  by (rule returnsI)
     (auto simp: decodeText_def Let_def result_simps ToValidUTF8_valid dest: decodeUTF_valid
      split: prod.splits if_splits)

lemma defaultInterpretation_valid: "text_value (defaultInterpretation v e raw offset order)"
  unfolding defaultInterpretation_def by (intro returns_rules decodeText_valid) simp_all

lemma decodeTime_valid: "text_ok (tv_Data v) \<Longrightarrow> text_ok (tv_Data (decodeTime v s off))"
  by (simp add: decodeTime_def Let_def)

lemma decodeSemantic_valid:
  "returns (\<lambda>(v, ok). ok \<longrightarrow> text_ok (tv_Data v)) (decodeSemantic v format raw offset order)"
  unfolding decodeSemantic_def Let_def by (intro returns_rules; simp add: decodeTime_valid)

lemma decodeScalar_valid: "text_value (decodeScalar encoding format raw offset order byteOrder)"
  unfolding decodeScalar_def Let_def
  by (intro returns_rules decodeText_valid defaultInterpretation_valid)
     (auto simp: decodeLatin1_def utf8_valid_runes dest: returnsD [OF decodeSemantic_valid])

text \<open>
  C33. Whatever bytes a field holds and whatever encoding and format its metadata claims, a text
  value the decoder returns is well-formed UTF-8.
\<close>

theorem decoded_text_valid:
  assumes "decodeScalar encoding format raw offset order byteOrder = Inr v" "tv_Data v = ValueText t"
  shows "utf8_valid t"
  using returnsD [OF decodeScalar_valid assms(1)] assms(2) by simp

theorem decoded_text_valid_witness:
  "decodeScalar EncodingValue8 FormatString8 [0xE9] 0 LittleEndian ByteOrderLittle
     = Inr (TValue (ValueText [0xC3, 0xA9]) [0xE9] ByteOrderLittle TpEncodingUTF8 ''string8'' 8 True [])
   \<and> utf8_valid [0xC3, 0xA9 :: byte]"
proof -
  have "decodeScalar EncodingValue8 FormatString8 [0xE9] 0 LittleEndian ByteOrderLittle
      = Inr (TValue (ValueText [0xC3, 0xA9]) [0xE9] ByteOrderLittle TpEncodingUTF8 ''string8'' 8 True [])"
    by (simp add: decodeScalar_def formatApplicable_def isFixedSemantic_def isUTFStringFormat_def
        decodeLatin1_def runes_to_string_def encode_rune_def valid_rune_def set_data_def formatName_def
        format_names_def bitWidth_def)
  with decoded_text_valid [OF this] show ?thesis by simp
qed


section \<open>Time values\<close>

lemma sint_seconds:
  assumes "- 9223372036 \<le> sint (w :: u64)" "sint w \<le> 9223372036"
  shows "sint (w * 1000000000) = sint w * 1000000000"
proof -
  have "(word_of_int (sint w * 1000000000) :: u64) = w * 1000000000" by simp
  moreover have "sint (word_of_int (sint w * 1000000000) :: u64) = sint w * 1000000000"
    using assms by (intro sint_word_of_int_in) simp_all
  ultimately show ?thesis by simp
qed

lemma decodeTime_exact:
  "if - 9223372036 \<le> sint w \<and> sint w \<le> 9223372036
   then \<exists>t. tv_Data (decodeTime v w off) = ValueTime t \<and> Clock t = ClockRealtime
          \<and> map_option sint (UnixNano t) = Some (sint w * 1000000000)
   else \<not> tv_Valid (decodeTime v w off)"
proof (cases "- 9223372036 \<le> sint w \<and> sint w \<le> 9223372036")
  case True
  let ?ns = "w * 1000000000"
  let ?t = "\<lparr>Nanoseconds = 0, Clock = ClockRealtime, EpochOffset = 0, EpochOffsetKnown = True\<rparr>"
  define t where "t = (if 0 \<le>s ?ns then ?t\<lparr>Nanoseconds := ?ns\<rparr> else ?t\<lparr>EpochOffset := ?ns\<rparr>)"
  have ns: "sint ?ns = sint w * 1000000000" using True by (simp add: sint_seconds)
  have "exact_unix t = sint ?ns"
    by (simp add: t_def exact_unix_def u64_nonneg) (simp add: u64_sint_uint)
  moreover from this have "exact_unix t < 2 ^ 63" using u64_sint_range [of ?ns] by simp
  moreover have "EpochOffsetKnown t" by (simp add: t_def)
  ultimately have "map_option sint (UnixNano t) = Some (sint w * 1000000000)"
    using ns by (simp add: UnixNano_known)
  moreover have "tv_Data (decodeTime v w off) = ValueTime t"
    using True by (simp add: decodeTime_def word_sless_alt t_def Let_def)
  moreover have "Clock t = ClockRealtime" by (simp add: t_def)
  ultimately show ?thesis using True by simp
next
  case False
  then show ?thesis by (auto simp: decodeTime_def word_sless_alt)
qed

text \<open>
  A field with the time format and eight bytes of Unix seconds decodes to the exact instant: its
  \<open>UnixNano\<close> is the seconds times a thousand million, for negative seconds as well; seconds whose
  nanoseconds do not fit in an int64 give a value marked invalid.
\<close>

theorem time_format_exact:
  "\<exists>v'. decodeSemantic v FormatTime (put64 order w) offset order = Inr (v', True) \<and>
     (if - 9223372036 \<le> sint w \<and> sint w \<le> 9223372036
      then \<exists>t. tv_Data v' = ValueTime t \<and> Clock t = ClockRealtime
             \<and> map_option sint (UnixNano t) = Some (sint w * 1000000000)
      else \<not> tv_Valid v')"
  using decodeTime_exact [of w "set_data (ValueTime zero_timestamp) TpEncodingTime v" offset]
  by (simp add: decodeSemantic_def Let_def)

end
