(* ===== verification/Enumerator.thy ===== *)
theory Enumerator imports Value begin

text \<open>
  \<open>eventheader/decode/enumerator.go\<close>: the bounded forward iterator over a parsed event. It is a
  machine with an explicit task stack (the top of the Go slice is the head of the list here); \<open>Next\<close>
  runs tasks until one of them emits an item, fails, or the stack is empty.
\<close>


section \<open>State\<close>

datatype state =
  BeforeFirst | ValueState | ArrayBegin | ArrayEnd | StructBegin | StructEnd | Done | ErrorState

record item =
  it_Name :: string
  it_NameRaw :: bytes
  it_Encoding :: u8
  it_Format :: u8
  it_Tag :: u16
  it_ArrayKind :: array_kind
  it_ArrayCount :: u16
  it_ArrayIndex :: int
  it_Depth :: nat
  it_Offset :: nat
  it_Raw :: bytes
  it_Value :: "tvalue option"

datatype enum_task =
    TaskFields "field_def list" nat
  | TaskField field_def int
  | TaskArray field_def nat nat nat
  | TaskArrayEnd field_def nat nat
  | TaskStructEnd field_def nat int

text \<open>
  The arguments after the definition: \<open>TaskFields\<close> its index; \<open>TaskField\<close> the array index;
  \<open>TaskArray\<close> count, start and index; \<open>TaskArrayEnd\<close> count and start; \<open>TaskStructEnd\<close> start and array
  index.
\<close>

record enumerator =
  en_event :: parsed_event
  en_limits :: limits
  en_state :: state
  en_item :: "item option"
  en_err :: "goerr option"
  en_pos :: nat
  en_transitions :: nat
  en_stack :: "enum_task list"

definition Start :: "limits \<Rightarrow> string \<Rightarrow> bytes \<Rightarrow> enumerator result" where
  "Start limits tracepointName data =
     bindR (parse limits tracepointName data) (\<lambda>event.
     Inr \<lparr>en_event = event, en_limits = normalized limits, en_state = BeforeFirst, en_item = None,
          en_err = None, en_pos = 0, en_transitions = 0, en_stack = [TaskFields (pe_fields event) 0]\<rparr>)"

definition Enumerator_Item :: "enumerator \<Rightarrow> item option" where
  "Enumerator_Item e =
     (if en_state e = BeforeFirst \<or> en_state e = Done \<or> en_state e = ErrorState then None else en_item e)"


section \<open>Emitting, failing, finishing\<close>

text \<open>The flag of these is the result of \<open>Next\<close>.\<close>

definition enum_fail :: "goerr \<Rightarrow> enumerator \<Rightarrow> enumerator \<times> bool" where
  "enum_fail err e = (e\<lparr>en_err := Some err, en_state := ErrorState\<rparr>, False)"

definition emit_item :: "field_def \<Rightarrow> nat \<Rightarrow> tvalue option \<Rightarrow> nat \<Rightarrow> int \<Rightarrow> bytes \<Rightarrow> item" where
  "emit_item def offset value count arrayIndex raw =
     (let it = \<lparr>it_Name = fd_name def, it_NameRaw = fd_nameRaw def, it_Encoding = fd_encoding def,
                it_Format = fd_format def, it_Tag = fd_tag def, it_ArrayKind = fd_arrayKind def,
                it_ArrayCount = of_nat count, it_ArrayIndex = arrayIndex, it_Depth = fd_depth def,
                it_Offset = offset, it_Raw = raw, it_Value = None\<rparr>
      in case value of None \<Rightarrow> it | Some v \<Rightarrow> it\<lparr>it_Value := Some v, it_Raw := tv_Raw v\<rparr>)"

definition emit ::
  "state \<Rightarrow> field_def \<Rightarrow> nat \<Rightarrow> tvalue option \<Rightarrow> nat \<Rightarrow> int \<Rightarrow> enumerator \<Rightarrow> (enumerator \<times> bool) result" where
  "emit st def offset value count arrayIndex e =
     (if int (en_transitions e) \<ge> MaxTransitions (en_limits e)
      then Inr (enum_fail (DecodeError (int (pe_payloadOffset (en_event e) + offset)) ''iteration'' (Err ErrLimit)) e)
      else
        let e = e\<lparr>en_transitions := en_transitions e + 1\<rparr> in
        bindR (if st = ArrayEnd \<or> st = StructEnd then slice (pe_payload (en_event e)) offset (en_pos e)
               else Inr []) (\<lambda>raw.
        Inr (e\<lparr>en_item := Some (emit_item def (pe_payloadOffset (en_event e) + offset) value count arrayIndex raw),
               en_state := st\<rparr>, True)))"

definition finish :: "enumerator \<Rightarrow> enumerator" where
  "finish e =
     (let event = en_event e;
          trailing = length (pe_payload event) - en_pos e;
          e = (if trailing \<noteq> 0 then
                 let severity = (if trailing \<le> 7 then SeverityWarning else SeverityError);
                     message = (if trailing \<le> 7 then ''possible perf padding remains after payload''
                                else ''unconsumed trailing payload'');
                     info = pe_info event
                 in e\<lparr>en_event := event\<lparr>pe_info := info\<lparr>ei_Diagnostics := ei_Diagnostics info @
                        [\<lparr>diag_Severity = severity, diag_Offset = int (pe_payloadOffset event + en_pos e),
                          diag_Stage = ''payload'', diag_Message = message,
                          diag_Err = Err ErrInvalid\<rparr>]\<rparr>\<rparr>\<rparr>
               else e)
      in e\<lparr>en_state := Done\<rparr>)"


section \<open>The tasks\<close>

text \<open>The element of an array: the definition with the array flag taken off.\<close>

definition element_def :: "field_def \<Rightarrow> field_def" where
  "element_def d = (case d of FieldDef n raw e f t k c dp off cs \<Rightarrow> FieldDef n raw e f t ArrayScalar c dp off cs)"

definition push :: "enum_task list \<Rightarrow> enumerator \<Rightarrow> enumerator" where
  "push ts e = e\<lparr>en_stack := ts @ en_stack e\<rparr>"

definition fieldTask :: "field_def \<Rightarrow> int \<Rightarrow> enumerator \<Rightarrow> (enumerator \<times> bool) result" where
  "fieldTask def arrayIndex e =
     (let event = en_event e; payload = pe_payload event in
      if fd_arrayKind def \<noteq> ArrayScalar then
        let start = en_pos e in
        if fd_arrayKind def = ArrayVariable then
          if length payload - en_pos e < 2 then
            Inr (enum_fail (DecodeError (int (pe_payloadOffset event + en_pos e)) ''variable array count''
                   (Err ErrTruncated)) e)
          else bindR (read16 (pe_order event) payload (en_pos e)) (\<lambda>c.
            let count = unat c; e = e\<lparr>en_pos := en_pos e + 2\<rparr> in
            emit ArrayBegin def start None count (-1)
              (push [TaskArray def count start 0, TaskArrayEnd def count start] e))
        else
          let count = unat (fd_count def) in
          emit ArrayBegin def start None count (-1)
            (push [TaskArray def count start 0, TaskArrayEnd def count start] e)
      else if fd_encoding def = EncodingStruct then
        let start = en_pos e in
        emit StructBegin def start None 0 arrayIndex
          (push [TaskFields (fd_children def) 0, TaskStructEnd def start arrayIndex] e)
      else
        case readWireValue (fd_encoding def) payload (en_pos e) (pe_order event) of
          Inl Fault \<Rightarrow> Inl Fault
        | Inl (Fail err) \<Rightarrow>
            (case shiftDecodeError (pe_payloadOffset event) (Fail err) of
               Fail err \<Rightarrow> Inr (enum_fail err e) | Fault \<Rightarrow> Inl Fault)
        | Inr (raw, rawOffset, nxt) \<Rightarrow>
            let e = e\<lparr>en_pos := nxt\<rparr> in
            bindR (decodeScalar (fd_encoding def) (fd_format def) raw (pe_payloadOffset event + rawOffset)
                     (pe_order event) (ei_ByteOrder (pe_info event))) (\<lambda>value.
            emit ValueState def rawOffset (Some value) 0 arrayIndex e))"

text \<open>The loop of \<open>Next\<close>. Only exhausted and unfolding container tasks go round again.\<close>

definition loop_weight :: "enum_task list \<Rightarrow> nat" where
  "loop_weight s = (case s of TaskFields _ _ # _ \<Rightarrow> length s | TaskArray _ _ _ _ # _ \<Rightarrow> length s | _ \<Rightarrow> 0)"

function next_loop :: "enumerator \<Rightarrow> (enumerator \<times> bool) result" where
  "next_loop e =
     (case en_stack e of
        [] \<Rightarrow> Inr (finish e, False)
      | task # rest \<Rightarrow>
        let e = e\<lparr>en_stack := rest\<rparr> in
        (case task of
           TaskFields defs i \<Rightarrow>
             if i = length defs then next_loop e
             else bindR (index defs i) (\<lambda>def.
               next_loop (push [TaskField def (-1), TaskFields defs (i + 1)] e))
         | TaskField def arrayIndex \<Rightarrow> fieldTask def arrayIndex e
         | TaskArray def count start i \<Rightarrow>
             if i = count then next_loop e
             else next_loop (push [TaskField (element_def def) (int i), TaskArray def count start (i + 1)] e)
         | TaskArrayEnd def count start \<Rightarrow> emit ArrayEnd def start None count (-1) e
         | TaskStructEnd def start arrayIndex \<Rightarrow> emit StructEnd def start None 0 arrayIndex e))"
  by pat_completeness auto
termination
  by (relation "measure (\<lambda>e. loop_weight (en_stack e))")
     (auto simp: loop_weight_def push_def split: list.splits enum_task.splits)

declare next_loop.simps [simp del]

definition Next :: "enumerator \<Rightarrow> (enumerator \<times> bool) result" where
  "Next e = (if en_state e = Done \<or> en_state e = ErrorState then Inr (e, False) else next_loop e)"


section \<open>Invariant\<close>

fun task_ok :: "nat \<Rightarrow> enum_task \<Rightarrow> bool" where
  "task_ok pos (TaskFields defs i) \<longleftrightarrow> i \<le> length defs"
| "task_ok pos (TaskField def i) \<longleftrightarrow> True"
| "task_ok pos (TaskArray def count start i) \<longleftrightarrow> start \<le> pos \<and> i \<le> count"
| "task_ok pos (TaskArrayEnd def count start) \<longleftrightarrow> start \<le> pos"
| "task_ok pos (TaskStructEnd def start i) \<longleftrightarrow> start \<le> pos"

definition enum_ok :: "enumerator \<Rightarrow> bool" where
  "enum_ok e \<longleftrightarrow> en_pos e \<le> length (pe_payload (en_event e)) \<and> (\<forall>t\<in>set (en_stack e). task_ok (en_pos e) t)"

lemma task_ok_mono: "task_ok p t \<Longrightarrow> p \<le> q \<Longrightarrow> task_ok q t"
  by (cases t) auto

text \<open>Containers that are open: the end tasks on the stack.\<close>

fun is_end :: "enum_task \<Rightarrow> bool" where
  "is_end (TaskArrayEnd def count start) = True"
| "is_end (TaskStructEnd def start i) = True"
| "is_end t = False"

definition ends :: "enumerator \<Rightarrow> nat" where
  "ends e = length (filter is_end (en_stack e))"

text \<open>What a call of \<open>Next\<close> does, seen from outside.\<close>

definition next_post :: "enumerator \<Rightarrow> enumerator \<times> bool \<Rightarrow> bool" where
  "next_post e = (\<lambda>(e', b).
     enum_ok e' \<and> en_limits e' = en_limits e \<and> pe_payload (en_event e') = pe_payload (en_event e) \<and>
     (if b then
        en_transitions e' = Suc (en_transitions e) \<and>
        int (en_transitions e') \<le> MaxTransitions (en_limits e) \<and>
        (\<exists>it. en_item e' = Some it \<and> (en_state e' = ValueState \<longrightarrow> it_Value it \<noteq> None)) \<and>
        (case en_state e' of
           ValueState \<Rightarrow> ends e' = ends e
         | ArrayBegin \<Rightarrow> ends e' = Suc (ends e)
         | StructBegin \<Rightarrow> ends e' = Suc (ends e)
         | ArrayEnd \<Rightarrow> ends e = Suc (ends e')
         | StructEnd \<Rightarrow> ends e = Suc (ends e')
         | _ \<Rightarrow> False)
      else en_state e' = Done \<and> en_stack e' = [] \<or> en_state e' = ErrorState \<and> en_err e' \<noteq> None))"

lemma enum_fail_post: "enum_ok e \<Longrightarrow> en_limits e = en_limits e0 \<Longrightarrow>
    pe_payload (en_event e) = pe_payload (en_event e0) \<Longrightarrow> next_post e0 (enum_fail err e)"
  by (simp add: next_post_def enum_fail_def enum_ok_def)

lemma finish_post: "enum_ok e \<Longrightarrow> en_stack e = [] \<Longrightarrow> next_post e (finish e, False)"
  by (simp add: next_post_def finish_def Let_def enum_ok_def)

lemma safe_emit:
  "(st = ArrayEnd \<or> st = StructEnd \<Longrightarrow> off \<le> en_pos e) \<Longrightarrow> en_pos e \<le> length (pe_payload (en_event e)) \<Longrightarrow>
   safe (emit st def off v c i e)"
  unfolding emit_def Let_def by (intro safe_rules safe_slice; auto)

lemma emit_post:
  assumes "enum_ok e" "en_limits e = en_limits e0" "pe_payload (en_event e) = pe_payload (en_event e0)"
    "en_transitions e = en_transitions e0" "st = ValueState \<longrightarrow> v \<noteq> None"
    "case st of ValueState \<Rightarrow> ends e = ends e0 | ArrayBegin \<Rightarrow> ends e = Suc (ends e0)
     | StructBegin \<Rightarrow> ends e = Suc (ends e0) | ArrayEnd \<Rightarrow> ends e0 = Suc (ends e)
     | StructEnd \<Rightarrow> ends e0 = Suc (ends e) | _ \<Rightarrow> False"
  shows "returns (next_post e0) (emit st def off v c i e)"
proof (rule returnsI)
  fix x
  assume "emit st def off v c i e = Inr x"
  then consider
      "x = enum_fail (DecodeError (int (pe_payloadOffset (en_event e) + off)) ''iteration'' (Err ErrLimit)) e"
    | raw where "int (en_transitions e) < MaxTransitions (en_limits e)"
        "x = (e\<lparr>en_transitions := en_transitions e + 1,
                 en_item := Some (emit_item def (pe_payloadOffset (en_event e) + off) v c i raw),
                 en_state := st\<rparr>, True)"
    unfolding emit_def Let_def by (fastforce simp: bindR_eq_Inr not_le split: if_splits)
  then show "next_post e0 x"
    using assms enum_fail_post [OF assms(1-3)]
    by cases (auto simp: next_post_def enum_ok_def ends_def emit_item_def split: state.splits)
qed

lemma push_simps [simp]:
  "en_event (push ts e) = en_event e" "en_limits (push ts e) = en_limits e" "en_pos (push ts e) = en_pos e"
  "en_transitions (push ts e) = en_transitions e" "en_stack (push ts e) = ts @ en_stack e"
  "en_state (push ts e) = en_state e"
  by (simp_all add: push_def)

lemma enum_ok_advance:
  "enum_ok e \<Longrightarrow> en_pos e \<le> p \<Longrightarrow> p \<le> length (pe_payload (en_event e)) \<Longrightarrow> enum_ok (e\<lparr>en_pos := p\<rparr>)"
  by (auto simp: enum_ok_def intro: task_ok_mono)

lemma enum_ok_push:
  "enum_ok (push ts e) \<longleftrightarrow> enum_ok e \<and> (\<forall>t\<in>set ts. task_ok (en_pos e) t)"
  by (auto simp: enum_ok_def)

lemma ends_simps [simp]:
  "ends (push ts e) = length (filter is_end ts) + ends e" "ends (e\<lparr>en_pos := p\<rparr>) = ends e"
  by (simp_all add: ends_def)

lemma fieldTask_ok:
  assumes "enum_ok e"
  shows "safe (fieldTask def i e)" "returns (next_post e) (fieldTask def i e)"
proof -
  note pos = assms [unfolded enum_ok_def, THEN conjunct1]
  note read = safe_readWireValue [OF pos, of "fd_encoding def" "pe_order (en_event e)"]
  have advance: "enum_ok (e\<lparr>en_pos := nxt\<rparr>)" "nxt \<le> length (pe_payload (en_event e))" "en_pos e \<le> nxt"
    if "readWireValue (fd_encoding def) (pe_payload (en_event e)) (en_pos e) (pe_order (en_event e)) =
        Inr (raw, off, nxt)" for raw off nxt
    using readWireValue_bounds [OF that pos] enum_ok_advance [OF assms] by auto
  show "safe (fieldTask def i e)"
    using pos read advance
    by (auto simp: fieldTask_def Let_def shiftDecodeError_def safe_def [of "Inl _"]
        intro!: safe_rules safe_emit safe_read16 safe_decodeScalar
        split: sum.split failure.splits goerr.split)
  show "returns (next_post e) (fieldTask def i e)"
    unfolding fieldTask_def Let_def
    using pos advance assms enum_fail_post [OF assms refl refl]
    by (auto intro!: returns_rules emit_post enum_ok_advance simp: enum_ok_push
        split: sum.split failure.split)
qed

lemma next_post_cong:
  "en_limits e = en_limits e0 \<Longrightarrow> pe_payload (en_event e) = pe_payload (en_event e0) \<Longrightarrow>
   en_transitions e = en_transitions e0 \<Longrightarrow> ends e = ends e0 \<Longrightarrow> next_post e = next_post e0"
  by (simp only: next_post_def)

lemma next_loop_ok: "enum_ok e \<Longrightarrow> safe (next_loop e) \<and> returns (next_post e) (next_loop e)"
proof (induction e rule: next_loop.induct)
  case (1 e)
  show ?case
  proof (cases "en_stack e")
    case Nil
    then have "next_loop e = Inr (finish e, False)" by (subst next_loop.simps) simp
    then show ?thesis using finish_post [OF 1(5) Nil] by (simp add: returns_Inr)
  next
    case (Cons task rest)
    let ?e = "e\<lparr>en_stack := rest\<rparr>"
    have ok: "enum_ok ?e" and task: "task_ok (en_pos e) task"
      using 1(5) Cons by (auto simp: enum_ok_def)
    have pos: "en_pos e \<le> length (pe_payload (en_event e))" using 1(5) by (simp add: enum_ok_def)
    have same: "next_post ?e = next_post e" if "\<not> is_end task"
      using that Cons by (intro next_post_cong) (simp_all add: ends_def)
    have pushed: "next_post (push ts ?e) = next_post e" if "\<not> is_end task" "filter is_end ts = []" for ts
      using that Cons by (intro next_post_cong) (simp_all add: ends_def)
    note step = next_loop.simps [of e, unfolded Cons, simplified]
    show ?thesis
    proof (cases task)
      case (TaskFields defs i)
      show ?thesis
      proof (cases "i = length defs")
        case True
        then have "next_loop e = next_loop ?e" using TaskFields by (simp add: step)
        with 1(1) [OF Cons refl TaskFields True ok] same TaskFields show ?thesis by simp
      next
        case False
        then have i: "index defs i = Inr (defs ! i)" using task TaskFields by (simp add: index_def)
        let ?p = "push [TaskField (defs ! i) (-1), TaskFields defs (i + 1)] ?e"
        have "enum_ok ?p" using ok False task TaskFields by (auto simp: enum_ok_push)
        with 1(2) [OF Cons refl TaskFields False i] pushed [of "[TaskField (defs ! i) (-1), TaskFields defs (i + 1)]"]
          TaskFields False i show ?thesis by (simp add: step)
      qed
    next
      case (TaskField def i)
      with fieldTask_ok [OF ok, of def i] same show ?thesis by (simp add: step)
    next
      case (TaskArray def count start i)
      show ?thesis
      proof (cases "i = count")
        case True
        then have "next_loop e = next_loop ?e" using TaskArray by (simp add: step)
        with 1(3) [OF Cons refl TaskArray True ok] same TaskArray show ?thesis by simp
      next
        case False
        let ?ts = "[TaskField (element_def def) (int i), TaskArray def count start (i + 1)]"
        have "enum_ok (push ?ts ?e)" using ok False task TaskArray by (auto simp: enum_ok_push)
        with 1(4) [OF Cons refl TaskArray False] pushed [of ?ts] TaskArray False show ?thesis by (simp add: step)
      qed
    next
      case (TaskArrayEnd def count start)
      have "returns (next_post e) (emit ArrayEnd def start None count (-1) ?e)"
        using TaskArrayEnd Cons by (intro emit_post ok) (simp_all add: ends_def)
      moreover have "safe (emit ArrayEnd def start None count (-1) ?e)"
        using TaskArrayEnd task pos by (intro safe_emit) simp_all
      ultimately show ?thesis using TaskArrayEnd by (simp add: step)
    next
      case (TaskStructEnd def start i)
      have "returns (next_post e) (emit StructEnd def start None 0 i ?e)"
        using TaskStructEnd Cons by (intro emit_post ok) (simp_all add: ends_def)
      moreover have "safe (emit StructEnd def start None 0 i ?e)"
        using TaskStructEnd task pos by (intro safe_emit) simp_all
      ultimately show ?thesis using TaskStructEnd by (simp add: step)
    qed
  qed
qed


lemma Next_ok: "enum_ok e \<Longrightarrow> safe (Next e)"
  "enum_ok e \<Longrightarrow> en_state e \<noteq> Done \<Longrightarrow> en_state e \<noteq> ErrorState \<Longrightarrow> returns (next_post e) (Next e)"
  using next_loop_ok [of e] by (auto simp: Next_def)

lemma safe_Start: "safe (Start limits name data)"
  by (auto simp: Start_def intro!: safe_bindR safe_parse)

lemma Start_ok:
  assumes "Start limits name data = Inr e"
  shows "enum_ok e" "en_state e = BeforeFirst" "en_transitions e = 0" "ends e = 0" "en_err e = None"
    "en_limits e = normalized limits" "limits_valid (normalized limits)"
proof -
  obtain pe where pe: "parse limits name data = Inr pe"
    "e = \<lparr>en_event = pe, en_limits = normalized limits, en_state = BeforeFirst, en_item = None,
          en_err = None, en_pos = 0, en_transitions = 0, en_stack = [TaskFields (pe_fields pe) 0]\<rparr>"
    using assms by (auto simp: Start_def bindR_eq_Inr)
  show "limits_valid (normalized limits)"
    using pe(1) by (auto simp: parse_def Let_def split: if_splits)
qed (use assms in \<open>auto simp: Start_def bindR_eq_Inr enum_ok_def ends_def\<close>)

section \<open>Progress\<close>

text \<open>Every item costs one transition, whatever state the machine is in.\<close>

definition counts :: "enumerator \<Rightarrow> enumerator \<times> bool \<Rightarrow> bool" where
  "counts e = (\<lambda>(e', b). en_limits e' = en_limits e \<and>
     (if b then en_transitions e' = Suc (en_transitions e) \<and> int (en_transitions e) < MaxTransitions (en_limits e)
      else en_transitions e' = en_transitions e))"

lemma counts_cong:
  "en_limits e = en_limits e0 \<Longrightarrow> en_transitions e = en_transitions e0 \<Longrightarrow> counts e = counts e0"
  by (simp only: counts_def)

lemma counts_push: "counts (push ts (e\<lparr>en_stack := r\<rparr>)) = counts e" "counts (e\<lparr>en_stack := r\<rparr>) = counts e"
  "counts (push ts (e\<lparr>en_pos := p\<rparr>)) = counts e" "counts (e\<lparr>en_pos := p\<rparr>) = counts e" "counts (push ts e) = counts e"
  by (rule counts_cong; simp)+

lemma emit_counts: "returns (counts e) (emit st def off v c i e)"
  unfolding emit_def Let_def
  by (intro returns_rules) (auto simp: counts_def enum_fail_def)

lemma fieldTask_counts: "returns (counts e) (fieldTask def i e)"
  unfolding fieldTask_def Let_def
  using emit_counts [of "push ts e" for ts] emit_counts [of "push ts (e\<lparr>en_pos := p\<rparr>)" for ts p]
    emit_counts [of "e\<lparr>en_pos := p\<rparr>" for p]
  by (auto intro!: returns_rules simp: counts_push split: sum.split failure.split)
     (auto simp: counts_def enum_fail_def)

lemma next_loop_counts: "returns (counts e) (next_loop e)"
proof (induction e rule: next_loop.induct)
  case (1 e)
  show ?case
    using 1 emit_counts [of "e\<lparr>en_stack := r\<rparr>" for r] fieldTask_counts [of "e\<lparr>en_stack := r\<rparr>" for r]
    by (subst next_loop.simps)
       (auto simp: counts_push Let_def intro!: returns_rules split: list.split enum_task.split;
        simp add: counts_def finish_def Let_def)
qed

lemma Next_progress:
  "Next e = Inr (e', True) \<Longrightarrow>
     en_transitions e' = Suc (en_transitions e) \<and> en_limits e' = en_limits e
     \<and> int (en_transitions e) < MaxTransitions (en_limits e)"
  using returnsD [OF next_loop_counts, of e] by (auto simp: Next_def counts_def split: if_splits)


section \<open>Reachable states\<close>

inductive reachable :: "limits \<Rightarrow> string \<Rightarrow> bytes \<Rightarrow> enumerator \<Rightarrow> bool" for limits name data where
  reach_start: "Start limits name data = Inr e \<Longrightarrow> reachable limits name data e"
| reach_next: "reachable limits name data e \<Longrightarrow> Next e = Inr (e', b) \<Longrightarrow> reachable limits name data e'"

lemma reachable_inv:
  "reachable limits name data e \<Longrightarrow>
     enum_ok e \<and> en_limits e = normalized limits \<and>
     int (en_transitions e) \<le> MaxTransitions (normalized limits)"
proof (induction rule: reachable.induct)
  case (reach_start e)
  from Start_ok [OF this] show ?case by (simp add: limits_valid_def)
next
  case (reach_next e e' b)
  show ?case
  proof (cases "en_state e = Done \<or> en_state e = ErrorState")
    case True
    with reach_next show ?thesis by (auto simp: Next_def)
  next
    case False
    then have "returns (next_post e) (Next e)" using reach_next.IH by (intro Next_ok(2)) auto
    from returnsD [OF this reach_next(2)] reach_next.IH show ?thesis
      using returnsD [OF next_loop_counts [of e], of "(e', b)"] reach_next(2) False
      by (cases b) (auto simp: next_post_def Next_def counts_def)
  qed
qed

text \<open>
  C31. In every state the iterator can reach on any input, \<open>Next\<close> does not panic, the read position
  is inside the payload, and the number of items handed out is at most \<open>MaxTransitions\<close>.
\<close>

theorem enumerator_safe:
  assumes "reachable limits name data e"
  shows "safe (Next e) \<and> en_pos e \<le> length (pe_payload (en_event e))
    \<and> int (en_transitions e) \<le> MaxTransitions (normalized limits)"
  using reachable_inv [OF assms] Next_ok(1) by (auto simp: enum_ok_def)

text \<open>A closed example: provider \<open>P\<close>, one 8-bit field \<open>a\<close> with the value 9.\<close>

definition demo_data :: bytes where
  "demo_data = [7, 0, 0, 0, 0, 0, 0, 4, 5, 0, 1, 0, 101, 0, 97, 0, 2, 9]"

lemma demo_name: "parseTracepointName ''P_L4K1'' = Inr (''P'', 4, 1, [])"
proof -
  have "TracepointName ''P'' 4 1 [] = Inr ''P_L4K1''" by code_simp
  from parse_TracepointName [OF this] show ?thesis by (simp add: group_text_def)
qed

lemma demo_parse:
  "\<exists>pe. parse zero_limits ''P_L4K1'' demo_data = Inr pe \<and> pe_payload pe = [9] \<and> pe_payloadOffset pe = 17
     \<and> pe_order pe = LittleEndian \<and> length (pe_fields pe) = 1"
  by (simp add: demo_data_def parse_def demo_name Let_def normalized_def zero_limits_def limits_valid_def
      index_def header_order_def parseHeader_def read16_def slice_def get16_def ext_start_def
      parseExtensions.simps extensionStep_def extensionBody_def order_get_def parseBody_def
      slice_from_def containsSemicolon_def parseTop.simps parseField.simps parseHead_def
      parseChain_def parseCount_def shiftR_def)

theorem enumerator_safe_witness:
  "\<exists>e. reachable zero_limits ''P_L4K1'' demo_data e \<and> safe (Next e)"
proof -
  obtain e where "Start zero_limits ''P_L4K1'' demo_data = Inr e"
    using demo_parse by (auto simp: Start_def)
  then have "reachable zero_limits ''P_L4K1'' demo_data e" by (rule reach_start)
  with enumerator_safe [OF this] show ?thesis by blast
qed

end
