(* ===== verification/Materialize.thy ===== *)
theory Materialize imports Enumerator begin

text \<open>
  \<open>eventheader/decode/decode.go\<close>: \<open>Decode\<close> drains the iterator into a tree of values. The slice of
  open containers is a list whose head is the innermost one. Its loop is a total function here: every
  item costs the iterator a transition, and those are bounded.
\<close>

record material_frame =
  mf_state :: state
  mf_item :: item
  mf_values :: "tvalue list"
  mf_fields :: "tfield list"

definition zero_tvalue :: tvalue where
  "zero_tvalue = TValue ValueNull [] ByteOrderUnknown TpEncodingNone [] 0 False []"

definition containerFormat :: "item \<Rightarrow> string" where
  "containerFormat it = (if it_Encoding it = EncodingStruct then ''struct'' else formatName (it_Format it))"

definition appendValue ::
  "item \<Rightarrow> tvalue \<Rightarrow> tfield list \<times> material_frame list \<Rightarrow> tfield list \<times> material_frame list" where
  "appendValue it value = (\<lambda>(top, stack).
     case stack of
       [] \<Rightarrow> (top @ [TField (it_Name it) value (int (it_Offset it)) []], [])
     | parent # rest \<Rightarrow>
         (top,
          (if mf_state parent = ArrayBegin
           then parent\<lparr>mf_values := mf_values parent @ [value]\<rparr>
           else parent\<lparr>mf_fields := mf_fields parent @ [TField (it_Name it) value (int (it_Offset it)) []]\<rparr>)
          # rest))"

text \<open>The body of the loop, on the item \<open>Next\<close> left behind.\<close>

definition materialize_item ::
  "enumerator \<Rightarrow> tfield list \<times> material_frame list \<Rightarrow> (tfield list \<times> material_frame list) result" where
  "materialize_item e m =
     (case Enumerator_Item e of
        None \<Rightarrow> Inl Fault
      | Some it \<Rightarrow>
        if en_state e = ValueState then
          Inr (appendValue it (case it_Value it of Some v \<Rightarrow> v | None \<Rightarrow> zero_tvalue) m)
        else if en_state e = ArrayBegin \<or> en_state e = StructBegin then
          Inr (fst m, \<lparr>mf_state = en_state e, mf_item = it, mf_values = [], mf_fields = []\<rparr> # snd m)
        else if en_state e = ArrayEnd \<or> en_state e = StructEnd then
          (case snd m of
             [] \<Rightarrow> Inl Fault
           | frame # rest \<Rightarrow>
             let bo = ei_ByteOrder (pe_info (en_event e));
                 value =
                   (if mf_state frame = ArrayBegin
                    then TValue (ValueArray (mf_values frame)) (it_Raw it) bo TpEncodingArray
                           (containerFormat (mf_item frame)) (bitWidth (length (it_Raw it))) True []
                    else TValue (ValueStruct (mf_fields frame)) (it_Raw it) bo TpEncodingStruct
                           (containerFormat (mf_item frame)) (bitWidth (length (it_Raw it))) True [])
             in Inr (appendValue (mf_item frame) value (fst m, rest)))
        else Inr m)"

function materialize ::
  "enumerator \<Rightarrow> tfield list \<times> material_frame list \<Rightarrow> (enumerator \<times> tfield list) result" where
  "materialize e m =
     bindR (Next e) (\<lambda>(e', b).
       if b then bindR (materialize_item e' m) (\<lambda>m'. materialize e' m')
       else Inr (e', fst m))"
  by pat_completeness auto
termination
  by (relation "measure (\<lambda>(e, m). nat (MaxTransitions (en_limits e) - int (en_transitions e)))")
     (auto dest!: Next_progress)

declare materialize.simps [simp del]

fun fieldDiagnostics :: "tfield \<Rightarrow> diagnostic list"
  and elementDiagnostics :: "tvalue \<Rightarrow> diagnostic list" where
  "fieldDiagnostics (TField n (TValue d r bo e f w va vds) off fds) =
     fds @ vds @
     (case d of
        ValueStruct fs \<Rightarrow> concat (map fieldDiagnostics fs)
      | ValueArray vs \<Rightarrow> concat (map elementDiagnostics vs)
      | _ \<Rightarrow> [])"
| "elementDiagnostics (TValue d r bo e f w va vds) =
     vds @ (case d of ValueStruct fs \<Rightarrow> concat (map fieldDiagnostics fs) | _ \<Rightarrow> [])"

definition collectValueDiagnostics :: "tfield list \<Rightarrow> diagnostic list" where
  "collectValueDiagnostics fs = concat (map fieldDiagnostics fs)"

definition materializeEventHeaderInfo :: "event_info \<Rightarrow> event_header_info" where
  "materializeEventHeaderInfo info =
     \<lparr>eh_Provider = ei_Provider info, eh_Keyword = ei_Keyword info, eh_Options = ei_Options info,
      eh_Flags = hdr_Flags (ei_Header info), eh_Version = hdr_Version (ei_Header info),
      eh_ID = hdr_ID (ei_Header info), eh_Tag = hdr_Tag (ei_Header info),
      eh_Opcode = hdr_Opcode (ei_Header info), eh_Level = hdr_Level (ei_Header info),
      eh_ByteOrder = ei_ByteOrder info,
      eh_PointerWidth = (if ei_Pointer64 info then 64 else 32),
      eh_EventName = ei_EventName info, eh_EventNameRaw = ei_EventNameRaw info,
      eh_ActivityID = ei_ActivityID info, eh_RelatedActivityID = ei_RelatedID info,
      eh_Extensions = map (\<lambda>x. \<lparr>ehe_Kind = ext_Kind x, ehe_Size = ext_Size x, ehe_Chain = ext_Chain x,
                                ehe_Offset = ext_Offset x, ehe_Data = ext_Data x\<rparr>) (ei_Extensions info),
      eh_Metadata = ei_Metadata info, eh_Payload = ei_Payload info\<rparr>"

definition Decode :: "limits \<Rightarrow> string \<Rightarrow> bytes \<Rightarrow> trecord result" where
  "Decode limits tracepointName data =
     bindR (Start limits tracepointName data) (\<lambda>enumerator.
     bindR (materialize enumerator ([], [])) (\<lambda>(e, top).
     case en_err e of
       Some err \<Rightarrow> Inl (Fail err)
     | None \<Rightarrow>
       let info = pe_info (en_event e) in
       Inr \<lparr>tr_Body = RecordEvent \<lparr>er_Common = [], er_Fields = top,
              er_EventHeader = Some (materializeEventHeaderInfo info)\<rparr>,
            tr_Identity = \<lparr>id_System = ei_Provider info, id_Name = ei_EventName info,
                           id_ID = ucast (hdr_ID (ei_Header info))\<rparr>,
            tr_Timestamp = zero_timestamp, tr_CPU = None, tr_PID = None, tr_TID = None, tr_Raw = data,
            tr_Diagnostics = ei_Diagnostics info @ collectValueDiagnostics top\<rparr>))"


section \<open>Decoding is total and does not panic\<close>

lemma safe_materialize:
  "enum_ok e \<Longrightarrow> length (snd m) = ends e \<Longrightarrow> safe (materialize e m)"
proof (induction e m rule: materialize.induct)
  case (1 e m)
  have "safe (Next e)" using 1(2) by (rule Next_ok(1))
  moreover have "safe (bindR (materialize_item e' m) (materialize e'))" if n: "Next e = Inr (e', True)" for e'
  proof -
    have run: "en_state e \<noteq> Done" "en_state e \<noteq> ErrorState" using n by (auto simp: Next_def)
    have post: "next_post e (e', True)" using returnsD [OF Next_ok(2) [OF 1(2) run] n] .
    have item: "safe (materialize_item e' m)"
      "returns (\<lambda>m'. length (snd m') = ends e') (materialize_item e' m)"
      using post 1(3)
      by (auto simp: next_post_def materialize_item_def Enumerator_Item_def appendValue_def Let_def returns_def
          split: state.splits list.splits prod.splits)
    show ?thesis
      using item post 1(1) [OF n refl] returnsD [OF item(2)]
      by (intro safe_bindR) (auto simp: next_post_def)
  qed
  ultimately show ?case
    by (subst materialize.simps) (auto intro!: safe_bindR)
qed

lemma safe_Decode: "safe (Decode limits name data)"
  unfolding Decode_def Let_def
  by (intro safe_rules safe_Start safe_materialize) (auto dest: Start_ok)

text \<open>
  C7. \<open>Decode\<close> is total and never panics: on any tracepoint name, any bytes and any limits it
  returns a record or an error. In particular container ends always match container begins.
\<close>

theorem Decode_no_panic: "safe (Decode limits name data)"
  by (rule safe_Decode)

end
