(* ===== verification/UserEvents.thy ===== *)
theory UserEvents imports GoText Wire begin

text \<open>
  Package \<open>userevents\<close>, file \<open>userevents.go\<close>: the commands that register and delete an event. The
  registrations themselves are in \<open>Registration\<close>, the search for the data file in \<open>MountInfo\<close> and the
  interleaving of concurrent calls in \<open>Lifecycle\<close>.
\<close>


section \<open>Commands\<close>

abbreviation (input) maxEventDescriptionSize :: nat where "maxEventDescriptionSize \<equiv> 512"
abbreviation (input) RegisterPersist :: u16 where "RegisterPersist \<equiv> 1"
abbreviation (input) RegisterMultiFormat :: u16 where "RegisterMultiFormat \<equiv> 2"
abbreviation (input) validRegisterFlags :: u16 where "validRegisterFlags \<equiv> 3"

definition name_char :: "char \<Rightarrow> bool" where
  "name_char char \<longleftrightarrow>
     (char \<ge> CHR ''a'' \<and> char \<le> CHR ''z'') \<or> (char \<ge> CHR ''A'' \<and> char \<le> CHR ''Z'') \<or>
     (char \<ge> CHR ''0'' \<and> char \<le> CHR ''9'') \<or> char = CHR ''_''"

definition validateName :: "string \<Rightarrow> unit result" where
  "validateName name =
     (if name = [] then fail ErrInvalidArgument
      else if \<exists>c\<in>set name. \<not> name_char c then fail ErrInvalidArgument else Inr ())"

definition makeRegistrationCommand :: "string \<Rightarrow> string \<Rightarrow> u16 \<Rightarrow> bytes result" where
  "makeRegistrationCommand name defs flags =
     bindR (validateName name) (\<lambda>_.
     if flags AND NOT validRegisterFlags \<noteq> 0 then fail ErrInvalidArgument
     else if \<not> utf8_valid (to_bytes defs) then fail ErrInvalidArgument
     else if \<exists>b\<in>set (to_bytes defs). b = 0 \<or> b = 13 \<or> b = 10 then fail ErrInvalidArgument
     else
       let defs = TrimSpace (to_bytes defs);
           command = to_bytes name;
           command = (if defs \<noteq> [] then command @ [32] @ defs else command)
       in if length command + 1 > maxEventDescriptionSize then fail ErrInvalidArgument
          else Inr (command @ [0]))"

definition makeDeleteCommand :: "string \<Rightarrow> bytes result" where
  "makeDeleteCommand name =
     bindR (validateName name) (\<lambda>_.
     if length name + 1 > maxEventDescriptionSize then fail ErrInvalidArgument
     else Inr (to_bytes name @ [0]))"


section \<open>Commands are one line\<close>

lemma of_char_inj: "(of_char c :: byte) = of_char d \<longleftrightarrow> c = d"
  by (metis char_of_unat_of_char)

lemma name_char_bytes:
  assumes "name_char c"
  shows "(of_char c :: byte) \<noteq> 0" "(of_char c :: byte) \<noteq> 10" "(of_char c :: byte) \<noteq> 13" "(of_char c :: byte) \<noteq> 32"
proof -
  have "(of_char (CHR 0x00) :: byte) = 0" "(of_char (CHR 0x0A) :: byte) = 10" "(of_char (CHR 0x0D) :: byte) = 13"
    "(of_char (CHR '' '') :: byte) = 32" by simp_all
  moreover have "c \<noteq> CHR 0x00" "c \<noteq> CHR 0x0A" "c \<noteq> CHR 0x0D" "c \<noteq> CHR '' ''"
    using assms by (auto simp: name_char_def less_eq_char_def)
  ultimately show "(of_char c :: byte) \<noteq> 0" "(of_char c :: byte) \<noteq> 10" "(of_char c :: byte) \<noteq> 13"
    "(of_char c :: byte) \<noteq> 32"
    by (metis of_char_inj)+
qed

lemma validateName_bytes:
  "validateName name = Inr () \<Longrightarrow> b \<in> set (to_bytes name) \<Longrightarrow> b \<noteq> 0 \<and> b \<noteq> 10 \<and> b \<noteq> 13 \<and> b \<noteq> 32"
  using name_char_bytes by (auto simp: validateName_def to_bytes_def split: if_splits)

text \<open>
  A registration command that is accepted is one NUL-terminated line of at most 512 bytes that
  starts with the event's name: there is no other NUL and no line break in it, and the name itself
  has no blank, so field text cannot change the name or inject a second command.
\<close>

theorem registration_command_shape:
  assumes "makeRegistrationCommand name defs flags = Inr command"
  shows "\<exists>rest. command = to_bytes name @ rest @ [0] \<and> length command \<le> 512
    \<and> (rest = [] \<or> rest = 32 # TrimSpace (to_bytes defs))
    \<and> set (to_bytes name @ rest) \<inter> {0, 10, 13} = {} \<and> 32 \<notin> set (to_bytes name) \<and> name \<noteq> []"
proof -
  have n: "validateName name = Inr ()" and d: "\<forall>b\<in>set (to_bytes defs). b \<noteq> 0 \<and> b \<noteq> 13 \<and> b \<noteq> 10"
    using assms by (auto simp: makeRegistrationCommand_def bindR_eq_Inr split: if_splits)
  define rest where "rest = (if TrimSpace (to_bytes defs) = [] then [] else 32 # TrimSpace (to_bytes defs))"
  have cmd: "command = to_bytes name @ rest @ [0]" "length command \<le> 512"
    using assms by (auto simp: makeRegistrationCommand_def bindR_eq_Inr rest_def Let_def not_less split: if_splits)
  have "set rest \<inter> {0, 10, 13} = {}"
    using d set_TrimSpace [of "to_bytes defs"] by (auto simp: rest_def)
  moreover have "name \<noteq> []" using n by (auto simp: validateName_def)
  ultimately show ?thesis
    using cmd validateName_bytes [OF n] by (intro exI [of _ rest]) (auto simp: rest_def)
qed

lemma demo_command: "makeRegistrationCommand ''P'' '' u8 a'' 0 = Inr [80, 32, 117, 56, 32, 97, 0]"
  by code_simp

theorem registration_command_shape_witness:
  "length [80, 32, 117, 56, 32, 97, 0 :: byte] \<le> 512
   \<and> (\<exists>rest. [80, 32, 117, 56, 32, 97, 0] = to_bytes ''P'' @ rest @ [0])"
  using registration_command_shape [OF demo_command] by blast


end
