(* ===== verification/Registration.thy ===== *)
theory Registration imports UserEvents begin

text \<open>
  Package \<open>userevents\<close>, file \<open>userevents_linux.go\<close>, one operation at a time: registrations and the
  data file that owns them. The kernel is a parameter: a \<open>kernel\<close> holds what the system calls answer,
  and every operation takes its own. The interleaving of concurrent calls is the subject of
  \<open>Lifecycle\<close>.
\<close>


section \<open>System calls\<close>

record user_reg =
  ur_Size :: u32
  ur_EnableBit :: u8
  ur_EnableSize :: u8
  ur_Flags :: u16
  ur_EnableAddr :: u64
  ur_NameArgs :: bytes
  ur_WriteIndex :: u32

record user_unreg =
  uu_Size :: u32
  uu_DisableBit :: u8
  uu_Reserved :: u8
  uu_Reserved2 :: u16
  uu_DisableAddr :: u64

text \<open>
  What the kernel answers: \<open>Inl errno\<close> or a result, an errno or None. The pointer \<open>NameArgs\<close> is
  replaced by the bytes it points to, and \<open>k_register\<close> returns the write index the kernel stores in
  the structure. The errno \<open>EBADF\<close> is 9, and \<open>os.NewSyscallError\<close> wraps an errno as a foreign error.
\<close>

record kernel =
  k_writev :: "int \<Rightarrow> bytes list \<Rightarrow> nat + nat"
  k_unregister :: "int \<Rightarrow> user_unreg \<Rightarrow> nat option"
  k_munmap :: "u64 \<Rightarrow> nat option"
  k_mmap :: "nat + u64"
  k_register :: "int \<Rightarrow> user_reg \<Rightarrow> nat + u32"
  k_delete :: "int \<Rightarrow> bytes \<Rightarrow> nat option"
  k_close :: "int \<Rightarrow> nat option"

abbreviation (input) EBADF :: nat where "EBADF \<equiv> 9"

definition unregister :: "kernel \<Rightarrow> int \<Rightarrow> u64 \<Rightarrow> nat option" where
  "unregister k fd enable =
     k_unregister k fd \<lparr>uu_Size = 16, uu_DisableBit = 0, uu_Reserved = 0, uu_Reserved2 = 0, uu_DisableAddr = enable\<rparr>"


section \<open>Registrations\<close>

abbreviation (input) registrationZero :: u64 where "registrationZero \<equiv> 0"
abbreviation (input) registrationOpen :: u64 where "registrationOpen \<equiv> 1"
abbreviation (input) registrationClosing :: u64 where "registrationClosing \<equiv> 2"
abbreviation (input) registrationClosed :: u64 where "registrationClosed \<equiv> 3"
abbreviation (input) registrationStateMask :: u64 where "registrationStateMask \<equiv> 3"
abbreviation (input) registrationActiveOne :: u64 where "registrationActiveOne \<equiv> 4"

text \<open>
  \<open>rg_enable\<close> is the mapped enable word, its address and what the kernel last stored in it, and None
  once the slice is nil.
\<close>

record registration =
  rg_lifecycle :: u64
  rg_fd :: int
  rg_name :: string
  rg_flags :: u16
  rg_writeIndex :: u32
  rg_enable :: "(u64 \<times> u32) option"

definition Closed :: "registration \<Rightarrow> bool" where
  "Closed r \<longleftrightarrow> rg_lifecycle r AND registrationStateMask \<noteq> registrationOpen"

definition acquire :: "registration \<Rightarrow> registration option" where
  "acquire r =
     (if rg_lifecycle r AND registrationStateMask \<noteq> registrationOpen then None
      else Some (r\<lparr>rg_lifecycle := rg_lifecycle r + registrationActiveOne\<rparr>))"

definition release :: "registration \<Rightarrow> registration" where
  "release r = r\<lparr>rg_lifecycle := rg_lifecycle r + NOT (registrationActiveOne - 1)\<rparr>"

definition enabled :: "registration \<Rightarrow> bool result" where
  "enabled r = (case rg_enable r of None \<Rightarrow> Inl Fault | Some (a, w) \<Rightarrow> Inr (w AND 1 \<noteq> 0))"

definition Enabled :: "registration \<Rightarrow> registration \<times> bool result" where
  "Enabled r = (case acquire r of None \<Rightarrow> (r, Inr False) | Some r \<Rightarrow> (release r, enabled r))"

text \<open>The size loop of \<open>Writev\<close>; \<open>MaxInt\<close> is the host's.\<close>

definition MaxInt :: "host \<Rightarrow> nat" where
  "MaxInt h = (if int64 h then 2 ^ 63 - 1 else 2 ^ 31 - 1)"

fun total_size :: "host \<Rightarrow> nat \<Rightarrow> bytes list \<Rightarrow> nat result" where
  "total_size h tot [] = Inr tot"
| "total_size h tot (p # ps) =
     (if int (length p) > int (MaxInt h) - int tot then fail ErrInvalidArgument
      else total_size h (tot + length p) ps)"

definition Writev :: "host \<Rightarrow> kernel \<Rightarrow> bytes list \<Rightarrow> registration \<Rightarrow> registration \<times> unit result" where
  "Writev h k payloads r =
     (case acquire r of
        None \<Rightarrow> (r, fail ErrClosed)
      | Some r \<Rightarrow>
        (release r,
         bindR (enabled r) (\<lambda>en.
         if \<not> en then fail ErrDisabled
         else bindR (total_size h 4 payloads) (\<lambda>tot.
           case k_writev k (rg_fd r) (native32 h (rg_writeIndex r) # payloads) of
             Inl errno \<Rightarrow> if errno = EBADF then fail ErrDisabled else fail (ForeignError errno)
           | Inr written \<Rightarrow> if written \<noteq> tot then fail IoErrShortWrite else Inr ()))))"

text \<open>
  \<open>Close\<close>, run while nothing else does: None is that it waits, for operations that are still active.
  The flag says that the registration is deleted from its file's set. \<open>Munmap\<close> of a nil slice is
  \<open>EINVAL\<close>, errno 22.
\<close>

definition unmap :: "kernel \<Rightarrow> registration \<Rightarrow> registration \<times> bool \<times> unit result" where
  "unmap k r =
     (case (case rg_enable r of None \<Rightarrow> Some 22 | Some (a, w) \<Rightarrow> k_munmap k a) of
        Some errno \<Rightarrow> (r, False, fail (ForeignError errno))
      | None \<Rightarrow> (r\<lparr>rg_enable := None, rg_lifecycle := registrationClosed\<rparr>, True, Inr ()))"

definition Close :: "kernel \<Rightarrow> registration \<Rightarrow> (registration \<times> bool \<times> unit result) option" where
  "Close k r =
     (let state = rg_lifecycle r AND registrationStateMask in
      if state = registrationZero then Some (r, False, fail ErrClosed)
      else if state = registrationClosed then Some (r, False, Inr ())
      else if state = registrationOpen then
        let r = r\<lparr>rg_lifecycle := (rg_lifecycle r AND NOT registrationStateMask) OR registrationClosing\<rparr> in
        if rg_lifecycle r \<noteq> registrationClosing then None
        else (case unregister k (rg_fd r) (case rg_enable r of None \<Rightarrow> 0 | Some (a, w) \<Rightarrow> a) of
                Some errno \<Rightarrow> Some (r\<lparr>rg_lifecycle := registrationOpen\<rparr>, False, fail (ForeignError errno))
              | None \<Rightarrow> Some (unmap k r))
      else Some (unmap k r))"


section \<open>The data file\<close>

datatype file_state = fileOpen | fileClosing | fileClosed

text \<open>
  \<open>uf_objects\<close> are the \<open>Registration\<close> objects the file has allocated, so that a \<open>*Registration\<close> is
  an index into it (and any other number the nil pointer); \<open>uf_regs\<close> is the set of the registrations
  that are not closed, in the order in which the map is iterated.
\<close>

record user_file =
  uf_fd :: int
  uf_path :: string
  uf_ready :: bool
  uf_state :: file_state
  uf_regs :: "nat list"
  uf_objects :: "registration list"

definition newFile :: "int \<Rightarrow> string \<Rightarrow> user_file" where
  "newFile fd path =
     \<lparr>uf_fd = fd, uf_path = path, uf_ready = True, uf_state = fileOpen, uf_regs = [], uf_objects = []\<rparr>"

definition Register :: "kernel \<Rightarrow> string \<Rightarrow> string \<Rightarrow> u16 \<Rightarrow> user_file \<Rightarrow> user_file \<times> nat result" where
  "Register k name defs flags f =
     (case makeRegistrationCommand name defs flags of
        Inl e \<Rightarrow> (f, Inl e)
      | Inr command \<Rightarrow>
        if \<not> uf_ready f \<or> uf_state f \<noteq> fileOpen then (f, fail ErrClosed)
        else case k_mmap k of
          Inl errno \<Rightarrow> (f, fail (ForeignError errno))
        | Inr enable \<Rightarrow>
          let reg = \<lparr>ur_Size = 28, ur_EnableBit = 0, ur_EnableSize = 4, ur_Flags = flags,
                     ur_EnableAddr = enable, ur_NameArgs = command, ur_WriteIndex = 0\<rparr> in
          (case k_register k (uf_fd f) reg of
             Inl errno \<Rightarrow>
               (f, case k_munmap k enable of
                     Some e2 \<Rightarrow> Inl (Fail (Joined [Err (ForeignError errno), Err (ForeignError e2)]))
                   | None \<Rightarrow> fail (ForeignError errno))
           | Inr writeIndex \<Rightarrow>
               let r = \<lparr>rg_lifecycle = registrationOpen, rg_fd = uf_fd f, rg_name = name, rg_flags = flags,
                        rg_writeIndex = writeIndex, rg_enable = Some (enable, 0)\<rparr>;
                   a = length (uf_objects f)
               in (f\<lparr>uf_regs := uf_regs f @ [a], uf_objects := uf_objects f @ [r]\<rparr>, Inr a)))"

definition Delete :: "kernel \<Rightarrow> string \<Rightarrow> user_file \<Rightarrow> unit result" where
  "Delete k name f =
     bindR (makeDeleteCommand name) (\<lambda>command.
     if \<not> uf_ready f \<or> uf_state f \<noteq> fileOpen then fail ErrClosed
     else case k_delete k (uf_fd f) command of Some errno \<Rightarrow> fail (ForeignError errno) | None \<Rightarrow> Inr ())"

text \<open>The registration methods at an address, with the checks for a nil receiver.\<close>

definition deref :: "user_file \<Rightarrow> nat \<Rightarrow> registration option" where
  "deref f a = (if a < length (uf_objects f) then Some (uf_objects f ! a) else None)"

definition store :: "nat \<Rightarrow> registration \<Rightarrow> user_file \<Rightarrow> user_file" where
  "store a r f = f\<lparr>uf_objects := (uf_objects f)[a := r]\<rparr>"

definition Registration_Closed :: "nat \<Rightarrow> user_file \<Rightarrow> bool" where
  "Registration_Closed a f = (case deref f a of None \<Rightarrow> True | Some r \<Rightarrow> Closed r)"

definition Registration_Enabled :: "nat \<Rightarrow> user_file \<Rightarrow> user_file \<times> bool result" where
  "Registration_Enabled a f =
     (case deref f a of None \<Rightarrow> (f, Inr False) | Some r \<Rightarrow> map_prod (\<lambda>r. store a r f) id (Enabled r))"

definition Registration_Writev ::
  "host \<Rightarrow> kernel \<Rightarrow> bytes list \<Rightarrow> nat \<Rightarrow> user_file \<Rightarrow> user_file \<times> unit result" where
  "Registration_Writev h k payloads a f =
     (case deref f a of
        None \<Rightarrow> (f, fail ErrClosed)
      | Some r \<Rightarrow> map_prod (\<lambda>r. store a r f) id (Writev h k payloads r))"

definition Registration_Close :: "kernel \<Rightarrow> nat \<Rightarrow> user_file \<Rightarrow> (user_file \<times> unit result) option" where
  "Registration_Close k a f =
     (case deref f a of
        None \<Rightarrow> Some (f, fail ErrClosed)
      | Some r \<Rightarrow>
        (case Close k r of
           None \<Rightarrow> None
         | Some (r, gone, res) \<Rightarrow>
           let f = store a r f in
           Some (if gone then f\<lparr>uf_regs := filter (\<lambda>x. x \<noteq> a) (uf_regs f)\<rparr> else f, res)))"

text \<open>The loop of \<open>File.Close\<close> over the registrations it found, with the errors it collects.\<close>

fun close_all :: "kernel \<Rightarrow> nat list \<Rightarrow> user_file \<Rightarrow> (user_file \<times> goerr list) option" where
  "close_all k [] f = Some (f, [])"
| "close_all k (a # as) f =
     (case Registration_Close k a f of
        None \<Rightarrow> None
      | Some (f, res) \<Rightarrow>
        map_option (\<lambda>(f, errs). (f, case res of Inl (Fail e) \<Rightarrow> e # errs | _ \<Rightarrow> errs)) (close_all k as f))"

text \<open>\<open>File.Close\<close>; None is that it waits, for another close or for a registration in use.\<close>

definition File_Close :: "kernel \<Rightarrow> user_file \<Rightarrow> (user_file \<times> unit result) option" where
  "File_Close k f =
     (if \<not> uf_ready f then Some (f, fail ErrClosed)
      else if uf_state f = fileClosing then None
      else if uf_state f = fileClosed then Some (f, Inr ())
      else case close_all k (uf_regs f) (f\<lparr>uf_state := fileClosing\<rparr>) of
        None \<Rightarrow> None
      | Some (f, errs) \<Rightarrow>
        if errs \<noteq> [] then Some (f\<lparr>uf_state := fileOpen\<rparr>, Inl (Fail (Joined errs)))
        else Some (f\<lparr>uf_fd := -1, uf_state := fileClosed\<rparr>,
                   case k_close k (uf_fd f) of Some errno \<Rightarrow> fail (ForeignError errno) | None \<Rightarrow> Inr ()))"

text \<open>What the kernel does on its own: it stores into the enable word of a registration.\<close>

definition set_enable :: "nat \<Rightarrow> u32 \<Rightarrow> user_file \<Rightarrow> user_file" where
  "set_enable a w f =
     (case deref f a of
        None \<Rightarrow> f
      | Some r \<Rightarrow> store a (r\<lparr>rg_enable := map_option (\<lambda>(p, _). (p, w)) (rg_enable r)\<rparr>) f)"


section \<open>Operations on a registration at rest\<close>

text \<open>
  Between operations no count is held: the lifecycle word is one of the states, and the enable word
  is mapped exactly until the registration is closed.
\<close>

definition rest_ok :: "registration \<Rightarrow> bool" where
  "rest_ok r \<longleftrightarrow> rg_lifecycle r \<in> {registrationOpen, registrationClosing, registrationClosed} \<and>
     (rg_enable r = None \<longleftrightarrow> rg_lifecycle r = registrationClosed)"

lemma release_acquire: "rg_lifecycle r = 1 \<Longrightarrow> acquire r = Some r' \<Longrightarrow> release r' = r"
  by (auto simp: acquire_def release_def)

lemma Closed_rest: "rest_ok r \<Longrightarrow> Closed r \<longleftrightarrow> rg_lifecycle r \<noteq> registrationOpen"
  by (auto simp: rest_ok_def Closed_def)

lemma acquire_rest:
  "rest_ok r \<Longrightarrow> acquire r = (if Closed r then None else Some (r\<lparr>rg_lifecycle := 5\<rparr>))"
  by (auto simp: rest_ok_def acquire_def Closed_def)

lemma Enabled_rest:
  assumes "rest_ok r"
  shows "Enabled r = (r, Inr (\<not> Closed r \<and> (\<exists>a w. rg_enable r = Some (a, w) \<and> w AND 1 \<noteq> 0)))"
proof (cases "Closed r")
  case False
  then have "rg_lifecycle r = 1" "rg_enable r \<noteq> None" using assms by (auto simp: Closed_rest rest_ok_def)
  with False assms show ?thesis
    by (auto simp: Enabled_def acquire_rest release_def enabled_def)
qed (use assms in \<open>simp add: Enabled_def acquire_rest\<close>)

lemma Writev_rest:
  assumes "rest_ok r"
  shows "Writev h k ps r =
    (r, if Closed r then fail ErrClosed
        else if snd (Enabled r) \<noteq> Inr True then fail ErrDisabled
        else bindR (total_size h 4 ps) (\<lambda>tot.
          case k_writev k (rg_fd r) (native32 h (rg_writeIndex r) # ps) of
            Inl errno \<Rightarrow> if errno = EBADF then fail ErrDisabled else fail (ForeignError errno)
          | Inr written \<Rightarrow> if written \<noteq> tot then fail IoErrShortWrite else Inr ()))"
proof (cases "Closed r")
  case False
  then have l: "rg_lifecycle r = 1" "rg_enable r \<noteq> None" using assms by (auto simp: Closed_rest rest_ok_def)
  then obtain a w where "rg_enable r = Some (a, w)" by auto
  then show ?thesis
    using False assms l Enabled_rest [OF assms]
    by (auto simp: Writev_def acquire_rest release_def enabled_def)
qed (use assms in \<open>simp add: Writev_def acquire_rest\<close>)

text \<open>\<open>Close\<close> at rest returns, leaves the registration at rest, and deletes it exactly on success.\<close>

lemma Close_rest:
  assumes "rest_ok r"
  shows "\<exists>r' gone res. Close k r = Some (r', gone, res) \<and> rest_ok r' \<and> rg_fd r' = rg_fd r \<and>
    (gone \<longleftrightarrow> rg_lifecycle r \<noteq> registrationClosed \<and> rg_lifecycle r' = registrationClosed) \<and>
    (res = Inr () \<longleftrightarrow> rg_lifecycle r' = registrationClosed) \<and> res \<noteq> Inl Fault \<and>
    (res \<noteq> Inr () \<longrightarrow> rg_enable r' = rg_enable r)"
  using assms
  by (auto simp: rest_ok_def Close_def unmap_def Let_def split: option.splits)

text \<open>A kernel that does not refuse to release a registration.\<close>

definition releases :: "kernel \<Rightarrow> bool" where
  "releases k \<longleftrightarrow> (\<forall>fd u. k_unregister k fd u = None) \<and> (\<forall>a. k_munmap k a = None)"

lemma Close_releases:
  assumes "rest_ok r" "releases k"
  shows "\<exists>r' gone. Close k r = Some (r', gone, Inr ())"
  using assms by (auto simp: rest_ok_def Close_def unmap_def unregister_def releases_def Let_def split: option.splits)


section \<open>The invariant of a data file\<close>

definition file_ok :: "user_file \<Rightarrow> bool" where
  "file_ok f \<longleftrightarrow>
     uf_ready f \<and> uf_state f \<noteq> fileClosing \<and> distinct (uf_regs f) \<and>
     (\<forall>r\<in>set (uf_objects f). rest_ok r) \<and>
     (\<forall>a. a \<in> set (uf_regs f) \<longleftrightarrow> a < length (uf_objects f) \<and> rg_lifecycle (uf_objects f ! a) \<noteq> registrationClosed) \<and>
     (uf_state f = fileClosed \<longrightarrow> uf_regs f = [] \<and> uf_fd f = -1)"

text \<open>The part of it that holds inside \<open>File.Close\<close> as well.\<close>

definition objects_ok :: "user_file \<Rightarrow> bool" where
  "objects_ok f \<longleftrightarrow>
     distinct (uf_regs f) \<and> (\<forall>r\<in>set (uf_objects f). rest_ok r) \<and>
     (\<forall>a. a \<in> set (uf_regs f) \<longleftrightarrow> a < length (uf_objects f) \<and> rg_lifecycle (uf_objects f ! a) \<noteq> registrationClosed)"

lemma file_ok_objects: "file_ok f \<longleftrightarrow> uf_ready f \<and> uf_state f \<noteq> fileClosing \<and> objects_ok f \<and>
    (uf_state f = fileClosed \<longrightarrow> uf_regs f = [] \<and> uf_fd f = -1)"
  by (auto simp: file_ok_def objects_ok_def)

lemma deref_ok: "objects_ok f \<Longrightarrow> deref f a = Some r \<Longrightarrow> rest_ok r"
  by (auto simp: objects_ok_def deref_def split: if_splits)

lemma deref_store: "deref (store a r f) b = (if a = b \<and> b < length (uf_objects f) then Some r else deref f b)"
  by (auto simp: deref_def store_def)

lemma store_deref: "deref f a = Some r \<Longrightarrow> store a r f = f"
  by (auto simp: deref_def store_def split: if_splits)

lemma Registration_Enabled_rest: "objects_ok f \<Longrightarrow> fst (Registration_Enabled a f) = f"
  by (auto simp: Registration_Enabled_def Enabled_rest store_deref dest: deref_ok split: option.splits)

lemma Registration_Enabled_safe: "objects_ok f \<Longrightarrow> \<exists>b. snd (Registration_Enabled a f) = Inr b"
  by (auto simp: Registration_Enabled_def Enabled_rest dest: deref_ok split: option.splits)

lemma Registration_Writev_rest: "objects_ok f \<Longrightarrow> fst (Registration_Writev h k ps a f) = f"
  by (auto simp: Registration_Writev_def Writev_rest store_deref dest: deref_ok split: option.splits)

lemma total_size_safe: "safe (total_size h tot ps)"
  by (induction h tot ps rule: total_size.induct) auto

lemma Writev_safe: "rest_ok r \<Longrightarrow> safe (snd (Writev h k ps r))"
  unfolding Writev_rest snd_conv
  by (intro safe_if safe_Fail safe_bindR total_size_safe) (auto split: sum.splits)

lemma Registration_Writev_safe: "objects_ok f \<Longrightarrow> safe (snd (Registration_Writev h k ps a f))"
  by (auto simp: Registration_Writev_def Writev_safe dest: deref_ok split: option.splits)

text \<open>
  One \<open>Close\<close> inside a file: it returns, the other registrations stay as they are, and the closed
  one leaves the set exactly when the call succeeds.
\<close>

lemma Registration_Close_rest:
  assumes "objects_ok f" "a < length (uf_objects f)"
  shows "\<exists>f' res. Registration_Close k a f = Some (f', res) \<and> objects_ok f' \<and> res \<noteq> Inl Fault \<and>
    uf_fd f' = uf_fd f \<and> uf_path f' = uf_path f \<and> uf_ready f' = uf_ready f \<and> uf_state f' = uf_state f \<and>
    length (uf_objects f') = length (uf_objects f) \<and>
    (\<forall>b. b \<noteq> a \<longrightarrow> uf_objects f' ! b = uf_objects f ! b) \<and>
    uf_regs f' = filter (\<lambda>b. b \<noteq> a \<or> res \<noteq> Inr ()) (uf_regs f) \<and>
    (res = Inr () \<longleftrightarrow> rg_lifecycle (uf_objects f' ! a) = registrationClosed)"
proof -
  let ?r = "uf_objects f ! a"
  have r: "rest_ok ?r" and d: "deref f a = Some ?r" using assms by (auto simp: objects_ok_def deref_def)
  obtain r' gone res where c: "Close k ?r = Some (r', gone, res)" and ok: "rest_ok r'"
    and g: "gone \<longleftrightarrow> rg_lifecycle ?r \<noteq> registrationClosed \<and> rg_lifecycle r' = registrationClosed"
    and res: "res = Inr () \<longleftrightarrow> rg_lifecycle r' = registrationClosed" "res \<noteq> Inl Fault"
    using Close_rest [OF r, of k] by blast
  have mem: "b \<in> set (uf_regs f) \<longleftrightarrow> b < length (uf_objects f) \<and> rg_lifecycle (uf_objects f ! b) \<noteq> registrationClosed" for b
    using assms(1) by (auto simp: objects_ok_def)
  have was: "rg_lifecycle ?r = registrationClosed \<Longrightarrow> rg_lifecycle r' = registrationClosed"
    using c by (auto simp: Close_def)
  define f' where "f' = (let f = store a r' f in if gone then f\<lparr>uf_regs := filter (\<lambda>x. x \<noteq> a) (uf_regs f)\<rparr> else f)"
  have regs: "uf_regs f' = filter (\<lambda>b. b \<noteq> a \<or> res \<noteq> Inr ()) (uf_regs f)"
    using g res(1) mem by (auto simp: f'_def store_def Let_def intro!: filter_cong filter_True [symmetric])
  have objs: "uf_objects f' = (uf_objects f)[a := r']" by (simp add: f'_def store_def Let_def)
  have "objects_ok f'"
    unfolding objects_ok_def regs objs
  proof (intro conjI allI ballI)
    show "distinct (filter (\<lambda>b. b \<noteq> a \<or> res \<noteq> Inr ()) (uf_regs f))"
      using assms(1) by (simp add: objects_ok_def)
    show "rest_ok r" if "r \<in> set ((uf_objects f)[a := r'])" for r
      using that assms(1) ok set_update_subset_insert [of "uf_objects f" a r'] by (auto simp: objects_ok_def)
    show "b \<in> set (filter (\<lambda>b. b \<noteq> a \<or> res \<noteq> Inr ()) (uf_regs f)) \<longleftrightarrow>
        b < length ((uf_objects f)[a := r']) \<and> rg_lifecycle ((uf_objects f)[a := r'] ! b) \<noteq> registrationClosed" for b
      using mem res(1) was assms(2) by (auto simp: nth_list_update)
  qed
  moreover have "Registration_Close k a f = Some (f', res)"
    by (simp add: Registration_Close_def d c f'_def Let_def)
  ultimately show ?thesis
    using regs objs res assms(2)
    by (intro exI [of _ f'] exI [of _ res]) (auto simp: f'_def store_def Let_def)
qed


definition same_file :: "user_file \<Rightarrow> user_file \<Rightarrow> bool" where
  "same_file f f' \<longleftrightarrow> uf_fd f' = uf_fd f \<and> uf_path f' = uf_path f \<and> uf_ready f' = uf_ready f \<and>
     uf_state f' = uf_state f \<and> length (uf_objects f') = length (uf_objects f)"

definition is_closed :: "user_file \<Rightarrow> nat \<Rightarrow> bool" where
  "is_closed f a \<longleftrightarrow> rg_lifecycle (uf_objects f ! a) = registrationClosed"

lemma close_all_rest:
  assumes "objects_ok f" "distinct as" "set as \<subseteq> {..<length (uf_objects f)}"
  shows "\<exists>f' errs. close_all k as f = Some (f', errs) \<and> objects_ok f' \<and> same_file f f' \<and>
    (\<forall>b. b \<notin> set as \<longrightarrow> uf_objects f' ! b = uf_objects f ! b) \<and> set (uf_regs f') \<subseteq> set (uf_regs f) \<and>
    length errs = length (filter (\<lambda>a. \<not> is_closed f' a) as)"
  using assms
proof (induction as arbitrary: f)
  case (Cons a as)
  from Cons(2-4) obtain f1 res where c: "Registration_Close k a f = Some (f1, res)" and ok: "objects_ok f1"
    and res: "res \<noteq> Inl Fault" "res = Inr () \<longleftrightarrow> is_closed f1 a" and s1: "same_file f f1"
    and other: "\<forall>b. b \<noteq> a \<longrightarrow> uf_objects f1 ! b = uf_objects f ! b" and r1: "set (uf_regs f1) \<subseteq> set (uf_regs f)"
    using Registration_Close_rest [of f a k] by (auto simp: same_file_def is_closed_def)
  have "distinct as" "set as \<subseteq> {..<length (uf_objects f1)}"
    using Cons(3,4) s1 by (auto simp: same_file_def)
  from Cons(1) [OF ok this] obtain f2 errs where c2: "close_all k as f1 = Some (f2, errs)" "objects_ok f2"
    and s2: "same_file f1 f2" and o2: "\<forall>b. b \<notin> set as \<longrightarrow> uf_objects f2 ! b = uf_objects f1 ! b"
    and r2: "set (uf_regs f2) \<subseteq> set (uf_regs f1)" and l2: "length errs = length (filter (\<lambda>a. \<not> is_closed f2 a) as)"
    by blast
  have a2: "is_closed f2 a \<longleftrightarrow> is_closed f1 a" using o2 Cons(3) by (simp add: is_closed_def)
  obtain errs' where e: "close_all k (a # as) f = Some (f2, errs')"
    and "length errs' = length (filter (\<lambda>a. \<not> is_closed f2 a) (a # as))"
  proof (cases res)
    case (Inl e)
    then obtain e' where "e = Fail e'" using res(1) by (cases e) auto
    with Inl that [of "e' # errs"] show ?thesis using c c2 l2 a2 res(2) by simp
  next
    case (Inr u)
    with that [of errs] show ?thesis using c c2 l2 a2 res(2) by simp
  qed
  then show ?case
    using c2(2) s1 s2 o2 other r1 r2 by (intro exI [of _ f2] exI [of _ errs']) (auto simp: same_file_def)
qed (simp add: same_file_def)

lemma file_ok_range: "file_ok f \<Longrightarrow> set (uf_regs f) \<subseteq> {..<length (uf_objects f)}"
  by (auto simp: file_ok_def)

text \<open>\<open>File.Close\<close> on an open file: it returns, and it succeeds or leaves the file as it found it, less what it closed.\<close>

lemma File_Close_open:
  assumes "file_ok f" "uf_state f = fileOpen"
  shows "\<exists>f' res. File_Close k f = Some (f', res) \<and> file_ok f' \<and> res \<noteq> Inl Fault \<and>
    set (uf_regs f') \<subseteq> set (uf_regs f) \<and> length (uf_objects f') = length (uf_objects f) \<and>
    (uf_state f' = fileClosed \<longleftrightarrow> uf_regs f' = []) \<and>
    (uf_state f' \<noteq> fileClosed \<longrightarrow> uf_state f' = fileOpen \<and> uf_fd f' = uf_fd f \<and>
       (\<exists>errs. res = Inl (Fail (Joined errs)) \<and> length errs = length (uf_regs f'))) \<and>
    (uf_state f' = fileClosed \<longrightarrow>
       res = (case k_close k (uf_fd f) of Some errno \<Rightarrow> fail (ForeignError errno) | None \<Rightarrow> Inr ()))"
proof -
  let ?f = "f\<lparr>uf_state := fileClosing\<rparr>"
  have ok: "objects_ok ?f" "distinct (uf_regs f)" "set (uf_regs f) \<subseteq> {..<length (uf_objects ?f)}"
    using assms(1) file_ok_range by (auto simp: file_ok_objects objects_ok_def)
  from close_all_rest [OF ok, of k] obtain f1 errs where c: "close_all k (uf_regs f) ?f = Some (f1, errs)"
    and o1: "objects_ok f1" and s: "same_file ?f f1" and sub: "set (uf_regs f1) \<subseteq> set (uf_regs f)"
    and l: "length errs = length (filter (\<lambda>a. \<not> is_closed f1 a) (uf_regs f))"
    by auto
  have "set (uf_regs f1) = set (filter (\<lambda>a. \<not> is_closed f1 a) (uf_regs f))"
    using sub o1 s ok(3) by (auto simp: objects_ok_def is_closed_def same_file_def)
  then have regs: "length (uf_regs f1) = length errs"
    using o1 ok(2) l by (metis distinct_card distinct_filter objects_ok_def)
  have fld: "uf_fd f1 = uf_fd f" "uf_ready f1" "length (uf_objects f1) = length (uf_objects f)"
    using s assms(1) by (auto simp: same_file_def file_ok_def)
  have oks: "objects_ok (f1\<lparr>uf_state := st, uf_fd := fd\<rparr>)" "objects_ok (f1\<lparr>uf_state := st\<rparr>)" for st fd
    using o1 by (auto simp: objects_ok_def)
  have ready: "uf_ready f" using assms(1) by (simp add: file_ok_def)
  show ?thesis
  proof (cases "errs = []")
    case True
    then have "uf_regs f1 = []" using regs by simp
    with True show ?thesis
      using assms(2) c ready fld oks(1) by (auto simp: File_Close_def file_ok_objects objects_ok_def split: option.splits)
  next
    case False
    then have "uf_regs f1 \<noteq> []" using regs by auto
    with False show ?thesis
      using assms(2) c ready fld oks(2) sub regs by (auto simp: File_Close_def file_ok_objects)
  qed
qed

lemma close_all_releases:
  "objects_ok f \<Longrightarrow> releases k \<Longrightarrow> set as \<subseteq> {..<length (uf_objects f)} \<Longrightarrow> close_all k as f = Some (f', errs) \<Longrightarrow> errs = []"
proof (induction as arbitrary: f errs)
  case (Cons a as)
  from Cons(2,4) have r: "rest_ok (uf_objects f ! a)" and d: "deref f a = Some (uf_objects f ! a)"
    by (auto simp: objects_ok_def deref_def)
  from Close_releases [OF r Cons(3)] obtain f1 where f1: "Registration_Close k a f = Some (f1, Inr ())"
    by (auto simp: Registration_Close_def d Let_def)
  then have "objects_ok f1" "length (uf_objects f1) = length (uf_objects f)"
    using Registration_Close_rest [OF Cons(2), of a k] Cons(4) by auto
  with Cons f1 show ?case by auto
qed simp

lemma File_Close_releases:
  assumes "file_ok f" "uf_state f = fileOpen" "releases k" "File_Close k f = Some (f', res)"
  shows "uf_state f' = fileClosed"
proof -
  let ?f = "f\<lparr>uf_state := fileClosing\<rparr>"
  have ok: "objects_ok ?f" "set (uf_regs f) \<subseteq> {..<length (uf_objects ?f)}" "uf_ready f"
    using assms(1) file_ok_range by (auto simp: file_ok_objects objects_ok_def)
  obtain f1 errs where c: "close_all k (uf_regs f) ?f = Some (f1, errs)"
    using assms(2,4) ok(3) by (auto simp: File_Close_def split: option.splits)
  from close_all_releases [OF ok(1) assms(3) ok(2) c] show ?thesis
    using assms(2,4) c ok(3) by (auto simp: File_Close_def)
qed


section \<open>Reachable data files\<close>

text \<open>
  The states of a data file under any sequence of calls, with whatever the kernel answers to each
  system call, and the kernel's own stores into enable words in between.
\<close>

inductive file_reachable :: "user_file \<Rightarrow> bool" where
  fr_new: "file_reachable (newFile fd path)"
| fr_register: "file_reachable f \<Longrightarrow> file_reachable (fst (Register k name defs flags f))"
| fr_enabled: "file_reachable f \<Longrightarrow> file_reachable (fst (Registration_Enabled a f))"
| fr_writev: "file_reachable f \<Longrightarrow> file_reachable (fst (Registration_Writev h k ps a f))"
| fr_close: "file_reachable f \<Longrightarrow> Registration_Close k a f = Some (f', res) \<Longrightarrow> file_reachable f'"
| fr_file_close: "file_reachable f \<Longrightarrow> File_Close k f = Some (f', res) \<Longrightarrow> file_reachable f'"
| fr_kernel: "file_reachable f \<Longrightarrow> file_reachable (set_enable a w f)"

lemma set_enable_ok: "objects_ok f \<Longrightarrow> objects_ok (set_enable a w f)"
  by (auto simp: objects_ok_def set_enable_def deref_def store_def rest_ok_def nth_list_update
      split: option.splits if_splits dest!: subsetD [OF set_update_subset_insert])

lemma Register_ok:
  assumes "file_ok f"
  shows "file_ok (fst (Register k name defs flags f))"
proof -
  have add: "file_ok (f\<lparr>uf_regs := uf_regs f @ [length (uf_objects f)], uf_objects := uf_objects f @ [r]\<rparr>)"
    if "uf_state f = fileOpen" "rest_ok r" "rg_lifecycle r = registrationOpen" for r
    using assms that by (auto simp: file_ok_def nth_append less_Suc_eq)
  show ?thesis
    using assms add
    by (auto simp: Register_def Let_def rest_ok_def split: sum.splits option.splits)
qed

lemma Registration_Close_ok:
  assumes "file_ok f" "Registration_Close k a f = Some (f', res)"
  shows "file_ok f'"
proof (cases "a < length (uf_objects f)")
  case True
  have "objects_ok f" using assms(1) by (simp add: file_ok_objects)
  from Registration_Close_rest [OF this True, of k] assms show ?thesis
    by (auto simp: file_ok_objects)
next
  case False
  with assms show ?thesis by (auto simp: Registration_Close_def deref_def)
qed

lemma File_Close_ok: "file_ok f \<Longrightarrow> File_Close k f = Some (f', res) \<Longrightarrow> file_ok f'"
  using File_Close_open [of f k] by (cases "uf_state f") (auto simp: File_Close_def file_ok_def)

lemma reachable_ok: "file_reachable f \<Longrightarrow> file_ok f"
proof (induction rule: file_reachable.induct)
  case (fr_new fd path)
  show ?case by (simp add: newFile_def file_ok_def)
next
  case (fr_enabled f a)
  then show ?case by (simp add: Registration_Enabled_rest file_ok_objects)
next
  case (fr_writev f h k ps a)
  then show ?case by (simp add: Registration_Writev_rest file_ok_objects)
next
  case (fr_kernel f a w)
  then have "objects_ok (set_enable a w f)" by (auto simp: file_ok_objects intro: set_enable_ok)
  moreover have "uf_ready (set_enable a w f) = uf_ready f" "uf_state (set_enable a w f) = uf_state f"
    "uf_regs (set_enable a w f) = uf_regs f" "uf_fd (set_enable a w f) = uf_fd f"
    by (auto simp: set_enable_def store_def split: option.splits)
  ultimately show ?case using fr_kernel by (simp add: file_ok_objects)
qed (auto intro: Register_ok Registration_Close_ok File_Close_ok)

text \<open>
  C9. In every reachable state of a data file: its set holds exactly the registrations that are not
  closed, a registration's enable word is mapped exactly as long as it is not closed, a closed file
  has no registrations left and no descriptor, and asking a registration whether it is enabled or
  writing through it never touches an unmapped enable word, whichever registration it is.
\<close>

theorem data_file_invariant:
  assumes "file_reachable f"
  shows "distinct (uf_regs f) \<and>
    (\<forall>a. a \<in> set (uf_regs f) \<longleftrightarrow> a < length (uf_objects f) \<and> rg_enable (uf_objects f ! a) \<noteq> None) \<and>
    (\<forall>a < length (uf_objects f).
      rg_enable (uf_objects f ! a) = None \<longleftrightarrow> rg_lifecycle (uf_objects f ! a) = registrationClosed) \<and>
    (uf_state f = fileClosed \<longrightarrow> uf_regs f = [] \<and> uf_fd f = -1) \<and>
    safe (snd (Registration_Enabled a f)) \<and> safe (snd (Registration_Writev h k ps a f))"
proof -
  have ok: "file_ok f" "objects_ok f" using reachable_ok [OF assms] by (simp_all add: file_ok_objects)
  have e: "rg_enable (uf_objects f ! a) = None \<longleftrightarrow> rg_lifecycle (uf_objects f ! a) = registrationClosed"
    if "a < length (uf_objects f)" for a
    using ok(2) that by (auto simp: objects_ok_def rest_ok_def)
  have "a \<in> set (uf_regs f) \<longleftrightarrow> a < length (uf_objects f) \<and> rg_enable (uf_objects f ! a) \<noteq> None" for a
    using ok(2) e [of a] by (metis objects_ok_def)
  moreover have "safe (snd (Registration_Enabled a f))" using Registration_Enabled_safe [OF ok(2), of a] by auto
  ultimately show ?thesis
    using ok e Registration_Writev_safe [OF ok(2)] by (auto simp: file_ok_def)
qed

definition demo_kernel :: kernel where
  "demo_kernel = \<lparr>k_writev = (\<lambda>fd vs. Inr (length (concat vs))), k_unregister = (\<lambda>fd u. None),
     k_munmap = (\<lambda>a. None), k_mmap = Inr 4096, k_register = (\<lambda>fd r. Inr 7), k_delete = (\<lambda>fd c. None),
     k_close = (\<lambda>fd. None)\<rparr>"

definition demo_file :: user_file where
  "demo_file = fst (Register demo_kernel ''P'' '' u8 a'' 0 (newFile 3 ''f''))"

lemma demo_file_reachable: "file_reachable demo_file"
  unfolding demo_file_def by (intro file_reachable.intros)

lemma demo_file_eq: "demo_file = \<lparr>uf_fd = 3, uf_path = ''f'', uf_ready = True, uf_state = fileOpen, uf_regs = [0],
   uf_objects = [\<lparr>rg_lifecycle = 1, rg_fd = 3, rg_name = ''P'', rg_flags = 0, rg_writeIndex = 7, rg_enable = Some (4096, 0)\<rparr>]\<rparr>"
  by (simp add: demo_file_def Register_def demo_command demo_kernel_def newFile_def)

theorem data_file_invariant_witness:
  "distinct (uf_regs demo_file) \<and> 0 \<in> set (uf_regs demo_file) \<and> safe (snd (Registration_Enabled 0 demo_file))
   \<and> (rg_enable (uf_objects demo_file ! 0) = None \<longleftrightarrow> rg_lifecycle (uf_objects demo_file ! 0) = 3)"
  using data_file_invariant [OF demo_file_reachable, of 0] by (simp add: demo_file_eq)

text \<open>
  C10. Closing a data file, from any reachable state in which it is open: the call returns (it never
  waits, since no operation is active). Either every registration is closed, the file is closed, and
  from then on registering and deleting fail and a second close succeeds without effect; or some
  registration could not be released, the file stays open with its descriptor and with exactly the
  registrations that failed, and one error for each of them is returned. If the kernel releases
  everything, as it may on a retry, the file is closed.
\<close>

theorem File_Close_outcome:
  assumes "file_reachable f" "uf_state f = fileOpen"
  shows "\<exists>f' res. File_Close k f = Some (f', res) \<and> file_reachable f' \<and>
    (if uf_state f' = fileClosed
     then (\<forall>a. Registration_Closed a f') \<and> uf_fd f' = -1 \<and>
       (\<forall>k2 name defs flags. \<exists>e. Register k2 name defs flags f' = (f', Inl e)) \<and>
       (\<forall>k2 name. \<exists>e. Delete k2 name f' = Inl e) \<and> (\<forall>k2. File_Close k2 f' = Some (f', Inr ()))
     else uf_state f' = fileOpen \<and> uf_fd f' = uf_fd f \<and> uf_regs f' \<noteq> [] \<and> set (uf_regs f') \<subseteq> set (uf_regs f) \<and>
       (\<exists>errs. res = Inl (Fail (Joined errs)) \<and> length errs = length (uf_regs f'))) \<and>
    (releases k \<longrightarrow> uf_state f' = fileClosed)"
proof -
  have ok: "file_ok f" by (rule reachable_ok [OF assms(1)])
  from File_Close_open [OF this assms(2), of k] obtain f' res where c: "File_Close k f = Some (f', res)"
    and ok': "file_ok f'" and sub: "set (uf_regs f') \<subseteq> set (uf_regs f)"
    and st: "uf_state f' = fileClosed \<longleftrightarrow> uf_regs f' = []"
    and op: "uf_state f' \<noteq> fileClosed \<longrightarrow> uf_state f' = fileOpen \<and> uf_fd f' = uf_fd f \<and>
       (\<exists>errs. res = Inl (Fail (Joined errs)) \<and> length errs = length (uf_regs f'))"
    by blast
  have closed: "(\<forall>a. Registration_Closed a f') \<and> uf_fd f' = -1 \<and>
       (\<forall>k2 name defs flags. \<exists>e. Register k2 name defs flags f' = (f', Inl e)) \<and>
       (\<forall>k2 name. \<exists>e. Delete k2 name f' = Inl e) \<and> (\<forall>k2. File_Close k2 f' = Some (f', Inr ()))"
    if cl: "uf_state f' = fileClosed"
  proof (intro conjI allI)
    have regs: "uf_regs f' = []" using cl st by simp
    show "Registration_Closed a f'" for a
    proof (cases "a < length (uf_objects f')")
      case True
      then have "rg_lifecycle (uf_objects f' ! a) = 3" using ok' regs by (auto simp: file_ok_def)
      with True show ?thesis by (simp add: Registration_Closed_def deref_def Closed_def)
    qed (simp add: Registration_Closed_def deref_def)
    show "uf_fd f' = -1" using ok' cl by (simp add: file_ok_def)
    show "\<exists>e. Register k2 name defs flags f' = (f', Inl e)" for k2 name defs flags
      using cl by (auto simp: Register_def split: sum.splits)
    show "\<exists>e. Delete k2 name f' = Inl e" for k2 name
      using cl by (cases "makeDeleteCommand name") (auto simp: Delete_def)
    show "File_Close k2 f' = Some (f', Inr ())" for k2
      using cl ok' by (simp add: File_Close_def file_ok_def)
  qed
  have rel: "releases k \<longrightarrow> uf_state f' = fileClosed"
    using File_Close_releases [OF ok assms(2) _ c] by simp
  show ?thesis
    using c closed op sub st rel fr_file_close [OF assms(1) c] by (intro exI [of _ f'] exI [of _ res]) auto
qed

theorem File_Close_outcome_witness:
  "\<exists>f'. File_Close demo_kernel demo_file = Some (f', Inr ()) \<and> (\<forall>a. Registration_Closed a f') \<and> uf_fd f' = -1"
proof -
  have r: "releases demo_kernel" by (simp add: releases_def demo_kernel_def)
  have s: "uf_state demo_file = fileOpen" by (simp add: demo_file_eq)
  have c: "File_Close demo_kernel demo_file =
     Some (fst (the (File_Close demo_kernel demo_file)), Inr ())"
    by (simp add: demo_file_eq File_Close_def Registration_Close_def deref_def store_def Close_def unmap_def
        unregister_def demo_kernel_def)
  from File_Close_outcome [OF demo_file_reachable s, of demo_kernel] r c show ?thesis by fastforce
qed

end
