(* ===== verification/EventSet.thy ===== *)
theory EventSet imports Registration BuilderApi Names begin

text \<open>
  \<open>eventheader/eventset.go\<close>: an event set writes events through one registration. The Go interface
  \<open>eventSetRegistration\<close> is a record of its methods; the locale \<open>event_registration\<close> states what the
  package relies on, the lemmas on event sets are proved in it, and the registrations of the package
  \<open>userevents\<close> are shown to satisfy it. A nil \<open>*EventSet\<close> or \<open>*Builder\<close> argument is None.
\<close>


section \<open>The registration interface\<close>

text \<open>\<open>'r\<close> is the interface value, \<open>'w\<close> the state its methods work on; None is that \<open>Close\<close> waits.\<close>

record ('w, 'r) registration_ops =
  op_Enabled :: "'r \<Rightarrow> 'w \<Rightarrow> 'w \<times> bool result"
  op_Closed :: "'r \<Rightarrow> 'w \<Rightarrow> bool"
  op_Writev :: "bytes list \<Rightarrow> 'r \<Rightarrow> 'w \<Rightarrow> 'w \<times> unit result"
  op_Close :: "'r \<Rightarrow> 'w \<Rightarrow> ('w \<times> unit result) option"

definition registration_interface :: "host \<Rightarrow> kernel \<Rightarrow> (user_file, nat) registration_ops" where
  "registration_interface h k =
     \<lparr>op_Enabled = Registration_Enabled, op_Closed = Registration_Closed,
      op_Writev = Registration_Writev h k, op_Close = Registration_Close k\<rparr>"


section \<open>Event sets\<close>

record 'r event_set =
  es_registration :: "'r option"
  es_name :: string
  es_level :: u8
  es_keyword :: u64
  es_closeDone :: bool

definition TracepointFields :: string where
  "TracepointFields = ''u8 eventheader_flags; u8 version; u16 id; u16 tag; u8 opcode; u8 level''"

definition NewEventSet ::
  "kernel \<Rightarrow> string \<Rightarrow> u8 \<Rightarrow> u64 \<Rightarrow> string \<Rightarrow> user_file \<Rightarrow> user_file \<times> nat event_set result" where
  "NewEventSet k provider level keyword grp file =
     (case TracepointName provider level keyword grp of
        Inl e \<Rightarrow> (file, Inl e)
      | Inr name \<Rightarrow>
        (case Register k name TracepointFields 0 file of
           (file, Inl e) \<Rightarrow> (file, Inl e)
         | (file, Inr registration) \<Rightarrow>
           (file, Inr \<lparr>es_registration = Some registration, es_name = name, es_level = level,
                       es_keyword = keyword, es_closeDone = False\<rparr>)))"

definition EventSet_Enabled :: "('w, 'r) registration_ops \<Rightarrow> 'r event_set \<Rightarrow> 'w \<Rightarrow> 'w \<times> bool result" where
  "EventSet_Enabled ops s w =
     (case es_registration s of
        None \<Rightarrow> (w, Inr False)
      | Some r \<Rightarrow> if es_closeDone s then (w, Inr False) else op_Enabled ops r w)"

definition EventSet_closed :: "('w, 'r) registration_ops \<Rightarrow> 'r event_set \<Rightarrow> 'w \<Rightarrow> bool" where
  "EventSet_closed ops s w =
     (case es_registration s of None \<Rightarrow> True | Some r \<Rightarrow> es_closeDone s \<or> op_Closed ops r w)"

definition EventSet_writev :: "('w, 'r) registration_ops \<Rightarrow> bytes list \<Rightarrow> 'r event_set \<Rightarrow> 'w \<Rightarrow> 'w \<times> unit result" where
  "EventSet_writev ops payloads s w =
     (case es_registration s of None \<Rightarrow> (w, fail ErrClosed) | Some r \<Rightarrow> op_Writev ops payloads r w)"

text \<open>
  The prologue that \<open>EventSet.Write\<close>, \<open>Event.Write\<close> and \<open>Event.WriteIfEnabled\<close> share: the checks for
  a closed and for a disabled set, then the rest.
\<close>

definition if_enabled ::
  "('w, 'r) registration_ops \<Rightarrow> 'r event_set \<Rightarrow> ('w \<Rightarrow> 'w \<times> 'a result) \<Rightarrow> 'w \<Rightarrow> 'w \<times> 'a result" where
  "if_enabled ops s rest w =
     (if EventSet_closed ops s w then (w, fail ErrClosed)
      else case EventSet_Enabled ops s w of
        (w, Inl e) \<Rightarrow> (w, Inl e)
      | (w, Inr en) \<Rightarrow>
        if \<not> en then (w, fail (if EventSet_closed ops s w then ErrClosed else ErrDisabled)) else rest w)"

definition EventSet_Write ::
  "host \<Rightarrow> ('w, 'r) registration_ops \<Rightarrow> builder option \<Rightarrow> 'r event_set \<Rightarrow> 'w \<Rightarrow> 'w \<times> unit result" where
  "EventSet_Write h ops builder s w =
     (case es_registration s of
        None \<Rightarrow> (w, fail ErrClosed)
      | Some r \<Rightarrow>
        if_enabled ops s (\<lambda>w.
          case builder of
            None \<Rightarrow> (w, fail ErrInvalidValue)
          | Some b \<Rightarrow>
            (case encodeSegments h (es_level s) b of
               Inl e \<Rightarrow> (w, Inl e)
             | Inr (prefix, metadata, payload) \<Rightarrow> op_Writev ops [prefix, metadata, payload] r w)) w)"

definition EventSet_Close ::
  "('w, 'r) registration_ops \<Rightarrow> 'r event_set \<Rightarrow> 'w \<Rightarrow> ('r event_set \<times> 'w \<times> unit result) option" where
  "EventSet_Close ops s w =
     (case es_registration s of
        None \<Rightarrow> Some (s, w, fail ErrClosed)
      | Some r \<Rightarrow>
        map_option (\<lambda>(w, res). (if res = Inr () then s\<lparr>es_closeDone := True\<rparr> else s, w, res)) (op_Close ops r w))"

definition Builder_Write ::
  "host \<Rightarrow> ('w, 'r) registration_ops \<Rightarrow> builder \<Rightarrow> 'r event_set option \<Rightarrow> 'w \<Rightarrow> 'w \<times> unit result" where
  "Builder_Write h ops b s w =
     (case s of None \<Rightarrow> (w, fail ErrClosed) | Some s \<Rightarrow> EventSet_Write h ops (Some b) s w)"


section \<open>What the package relies on\<close>

text \<open>
  \<open>ops k\<close> are the methods as they behave for the environment's answers \<open>k\<close>, and \<open>ok\<close> is the
  provider's invariant of the state.
\<close>

locale event_registration =
  fixes ops :: "'k \<Rightarrow> ('w, 'r) registration_ops" and ok :: "'w \<Rightarrow> bool"
  assumes closed_eq: "op_Closed (ops k) r w = op_Closed (ops k') r w"
    and enabled_keeps: "ok w \<Longrightarrow> fst (op_Enabled (ops k) r w) = w"
    and enabled_returns: "ok w \<Longrightarrow> \<exists>b. snd (op_Enabled (ops k) r w) = Inr b"
    and closed_not_enabled: "ok w \<Longrightarrow> op_Closed (ops k) r w \<Longrightarrow> snd (op_Enabled (ops k) r w) = Inr False"
    and writev_keeps: "ok w \<Longrightarrow> fst (op_Writev (ops k) ps r w) = w"
    and writev_safe: "ok w \<Longrightarrow> safe (snd (op_Writev (ops k) ps r w))"
    and writev_closed: "ok w \<Longrightarrow> op_Closed (ops k) r w \<Longrightarrow> snd (op_Writev (ops k) ps r w) = fail ErrClosed"
    and writev_disabled: "ok w \<Longrightarrow> \<not> op_Closed (ops k) r w \<Longrightarrow> snd (op_Enabled (ops k) r w) = Inr False \<Longrightarrow>
      snd (op_Writev (ops k) ps r w) = fail ErrDisabled"
    and close_returns: "ok w \<Longrightarrow> \<exists>w' res. op_Close (ops k) r w = Some (w', res) \<and> ok w' \<and> safe res"
    and close_closes: "ok w \<Longrightarrow> op_Close (ops k) r w = Some (w', Inr ()) \<Longrightarrow> op_Closed (ops k) r w'"
    and close_keeps_closed: "ok w \<Longrightarrow> op_Close (ops k) r w = Some (w', res) \<Longrightarrow> op_Closed (ops k) r' w \<Longrightarrow>
      op_Closed (ops k) r' w'"
begin

lemma set_closed_eq: "EventSet_closed (ops k) s w = EventSet_closed (ops k') s w"
  by (auto simp: EventSet_closed_def closed_eq [of k _ _ k'] split: option.splits)

lemma set_enabled_keeps: "ok w \<Longrightarrow> fst (EventSet_Enabled (ops k) s w) = w"
  by (auto simp: EventSet_Enabled_def enabled_keeps split: option.splits)

lemma set_enabled_returns: "ok w \<Longrightarrow> \<exists>b. snd (EventSet_Enabled (ops k) s w) = Inr b"
  by (auto simp: EventSet_Enabled_def enabled_returns split: option.splits)

lemma set_closed_not_enabled:
  assumes "ok w" "EventSet_closed (ops k) s w"
  shows "EventSet_Enabled (ops k) s w = (w, Inr False)"
proof (cases "es_registration s")
  case (Some r)
  show ?thesis
  proof (cases "es_closeDone s")
    case False
    then have "op_Closed (ops k) r w" using assms(2) Some by (simp add: EventSet_closed_def)
    then have "op_Enabled (ops k) r w = (w, Inr False)"
      using enabled_keeps [OF assms(1), of k r] closed_not_enabled [OF assms(1), of k r] by (metis prod.collapse)
    then show ?thesis using Some False by (simp add: EventSet_Enabled_def)
  qed (use Some in \<open>simp add: EventSet_Enabled_def\<close>)
qed (simp add: EventSet_Enabled_def)

text \<open>The prologue decides between closed, disabled and the rest.\<close>

lemma if_enabled_outcome:
  assumes "ok w"
  shows "if_enabled (ops k) s rest w =
    (if EventSet_closed (ops k) s w then (w, fail ErrClosed)
     else if EventSet_Enabled (ops k) s w = (w, Inr True) then rest w else (w, fail ErrDisabled))"
proof -
  obtain b where "EventSet_Enabled (ops k) s w = (w, Inr b)"
    using set_enabled_keeps [OF assms, of k s] set_enabled_returns [OF assms, of k s]
    by (metis prod.collapse)
  then show ?thesis by (cases b) (auto simp: if_enabled_def)
qed

lemma write_outcome:
  assumes "ok w" "es_registration s = Some r"
  shows "EventSet_Write h (ops k) b s w =
    (w, if EventSet_closed (ops k) s w then fail ErrClosed
        else if EventSet_Enabled (ops k) s w \<noteq> (w, Inr True) then fail ErrDisabled
        else case b of
          None \<Rightarrow> fail ErrInvalidValue
        | Some b \<Rightarrow> bindR (encodeSegments h (es_level s) b) (\<lambda>(p, m, d). snd (op_Writev (ops k) [p, m, d] r w)))"
proof -
  have "op_Writev (ops k) ps r w = (w, snd (op_Writev (ops k) ps r w))" for ps
    using writev_keeps [OF assms(1), of k ps r] by (metis prod.collapse)
  then show ?thesis
    by (auto simp: EventSet_Write_def assms if_enabled_outcome [OF assms(1)] bindR_def split: option.splits sum.splits)
qed

lemma close_returns_set:
  assumes "ok w"
  shows "\<exists>s' w' res. EventSet_Close (ops k) s w = Some (s', w', res) \<and> ok w' \<and> safe res \<and>
    es_registration s' = es_registration s \<and> es_name s' = es_name s \<and>
    (res = Inr () \<longrightarrow> EventSet_closed (ops k) s' w') \<and>
    (\<forall>t. EventSet_closed (ops k) t w \<longrightarrow> EventSet_closed (ops k) t w') \<and>
    (EventSet_closed (ops k) s w \<longrightarrow> EventSet_closed (ops k) s' w')"
proof (cases "es_registration s")
  case None
  with assms show ?thesis by (auto simp: EventSet_Close_def EventSet_closed_def)
next
  case (Some r)
  obtain w' res where c: "op_Close (ops k) r w = Some (w', res)" and w': "ok w'" "safe res"
    using close_returns [OF assms, of k r] by blast
  have mono: "op_Closed (ops k) r' w \<Longrightarrow> op_Closed (ops k) r' w'" for r' by (rule close_keeps_closed [OF assms c])
  have t: "EventSet_closed (ops k) t w \<Longrightarrow> EventSet_closed (ops k) t w'" for t :: "'r event_set"
    using mono by (auto simp: EventSet_closed_def split: option.splits)
  show ?thesis
    using w' Some t mono close_closes [OF assms, of k r w'] c
    by (auto simp: EventSet_Close_def EventSet_closed_def split: option.splits)
qed

end


section \<open>The registrations of a data file provide it\<close>

lemma Closed_at: "file_ok f \<Longrightarrow> Registration_Closed a f \<longleftrightarrow>
    (a < length (uf_objects f) \<longrightarrow> rg_lifecycle (uf_objects f ! a) \<noteq> registrationOpen)"
  by (auto simp: Registration_Closed_def deref_def Closed_rest file_ok_def)

lemma Close_keeps_Closing:
  "rest_ok r \<Longrightarrow> Close k r = Some (r', gone, res) \<Longrightarrow> Closed r \<Longrightarrow> Closed r'"
  by (auto simp: rest_ok_def Close_def unmap_def Closed_def Let_def split: option.splits)

lemma Registration_Close_mono:
  assumes "file_ok f" "Registration_Close k a f = Some (f', res)" "Registration_Closed b f"
  shows "Registration_Closed b f'"
proof (cases "deref f a")
  case None
  with assms show ?thesis by (auto simp: Registration_Close_def)
next
  case (Some r)
  have r: "rest_ok r" using assms(1) Some by (auto simp: file_ok_objects dest: deref_ok)
  obtain r' gone where c: "Close k r = Some (r', gone, res)"
    and f': "f' = (let f = store a r' f in if gone then f\<lparr>uf_regs := filter (\<lambda>x. x \<noteq> a) (uf_regs f)\<rparr> else f)"
    using assms(2) Some by (auto simp: Registration_Close_def Let_def split: option.splits)
  have "deref f' b = deref (store a r' f) b" by (simp add: f' Let_def deref_def)
  then show ?thesis
    using assms(3) Some Close_keeps_Closing [OF r c]
    by (auto simp: Registration_Closed_def deref_store split: option.splits if_splits)
qed

interpretation ue: event_registration "\<lambda>k. registration_interface h k" file_ok for h
proof unfold_locales
  fix f :: user_file and a b k k' ps f' res
  show "op_Closed (registration_interface h k) a f = op_Closed (registration_interface h k') a f"
    by (simp add: registration_interface_def)
  show "op_Closed (registration_interface h k) b f'"
    if "file_ok f" "op_Close (registration_interface h k) a f = Some (f', res)"
      "op_Closed (registration_interface h k) b f"
    using that Registration_Close_mono by (auto simp: registration_interface_def)
  assume ok: "file_ok f"
  then have objs: "objects_ok f" by (simp add: file_ok_objects)
  show "fst (op_Enabled (registration_interface h k) a f) = f"
    by (simp add: registration_interface_def Registration_Enabled_rest objs)
  show "\<exists>b. snd (op_Enabled (registration_interface h k) a f) = Inr b"
    by (simp add: registration_interface_def Registration_Enabled_safe objs)
  show "snd (op_Enabled (registration_interface h k) a f) = Inr False"
    if "op_Closed (registration_interface h k) a f"
    using that objs deref_ok [OF objs, of a]
    by (auto simp: registration_interface_def Registration_Closed_def Registration_Enabled_def Enabled_rest
        split: option.splits)
  show "fst (op_Writev (registration_interface h k) ps a f) = f"
    by (simp add: registration_interface_def Registration_Writev_rest objs)
  show "safe (snd (op_Writev (registration_interface h k) ps a f))"
    by (simp add: registration_interface_def Registration_Writev_safe objs)
  show "snd (op_Writev (registration_interface h k) ps a f) = fail ErrClosed"
    if "op_Closed (registration_interface h k) a f"
    using that deref_ok [OF objs, of a]
    by (auto simp: registration_interface_def Registration_Closed_def Registration_Writev_def Writev_rest
        split: option.splits)
  show "snd (op_Writev (registration_interface h k) ps a f) = fail ErrDisabled"
    if "\<not> op_Closed (registration_interface h k) a f" "snd (op_Enabled (registration_interface h k) a f) = Inr False"
    using that deref_ok [OF objs, of a]
    by (auto simp: registration_interface_def Registration_Closed_def Registration_Writev_def Registration_Enabled_def
        Writev_rest split: option.splits)
  show "\<exists>f' res. op_Close (registration_interface h k) a f = Some (f', res) \<and> file_ok f' \<and> safe res"
  proof (cases "a < length (uf_objects f)")
    case True
    from Registration_Close_rest [OF objs True, of k] obtain f' res
      where "Registration_Close k a f = Some (f', res)" "res \<noteq> Inl Fault" by blast
    with Registration_Close_ok [OF ok] show ?thesis by (auto simp: registration_interface_def safe_def)
  qed (use ok in \<open>simp add: registration_interface_def Registration_Close_def deref_def\<close>)
  show "op_Closed (registration_interface h k) a f'"
    if "op_Close (registration_interface h k) a f = Some (f', Inr ())"
  proof -
    have c: "Registration_Close k a f = Some (f', Inr ())" using that by (simp add: registration_interface_def)
    then have a: "a < length (uf_objects f)" by (auto simp: Registration_Close_def deref_def split: if_splits)
    from Registration_Close_rest [OF objs a, of k] c have "rg_lifecycle (uf_objects f' ! a) = registrationClosed"
      by auto
    then show ?thesis
      using Closed_at [OF Registration_Close_ok [OF ok c]] by (simp add: registration_interface_def)
  qed
qed


section \<open>Registering every tracepoint name\<close>

lemma TracepointFields_command:
  "utf8_valid (to_bytes TracepointFields)" "\<not> (\<exists>b\<in>set (to_bytes TracepointFields). b = 0 \<or> b = 13 \<or> b = 10)"
  "TrimSpace (to_bytes TracepointFields) = to_bytes TracepointFields" "length TracepointFields = 70"
  unfolding TracepointFields_def by code_simp+

lemma name_char_cases:
  "isASCIILetter c \<Longrightarrow> name_char c" "isASCIIDigit c \<Longrightarrow> name_char c" "lowerHex c \<Longrightarrow> name_char c"
  "optionChar c \<Longrightarrow> name_char c" "name_char (CHR ''_'')"
  by (auto simp: isASCIILetter_def isASCIIDigit_def lowerHex_def optionChar_def name_char_def less_eq_char_def)

lemma TracepointName_chars:
  assumes "TracepointName provider level keyword grp = Inr name"
  shows "validateName name = Inr ()" "length name \<le> 255"
proof -
  have p: "validateProvider provider = Inr ()" and g: "validateGroup grp = Inr ()"
    and n: "name = provider @ ''_L'' @ format_hex (unat level) @ ''K'' @ format_hex (unat keyword)
        @ (if grp \<noteq> [] then ''G'' @ grp else [])" and l: "length name \<le> 255"
    using assms by (auto simp: TracepointName_def bindR_eq_Inr Let_def not_less split: if_splits)
  have "\<forall>c\<in>set provider. name_char c"
    using p name_char_cases by (cases provider) (auto simp: validateProvider_def split: if_splits)
  moreover have "\<forall>c\<in>set grp. name_char c" using group_chars [OF g] name_char_cases(4) by blast
  moreover have "\<forall>c\<in>set (format_hex m). name_char c" for m
    using lowerHex_format name_char_cases(3) by blast
  moreover have "name_char (CHR ''L'')" "name_char (CHR ''K'')" "name_char (CHR ''G'')"
    by (simp_all add: name_char_def less_eq_char_def)
  ultimately have "\<forall>c\<in>set name. name_char c" using name_char_cases(5) by (auto simp: n)
  then show "validateName name = Inr ()" by (auto simp: validateName_def n)
  show "length name \<le> 255" by (rule l)
qed

lemma registration_command_ok:
  assumes "TracepointName provider level keyword grp = Inr name"
  shows "makeRegistrationCommand name TracepointFields 0 = Inr (to_bytes name @ [32] @ to_bytes TracepointFields @ [0])"
proof -
  have "to_bytes TracepointFields \<noteq> []" using TracepointFields_command(4) by (auto simp: to_bytes_def)
  then show ?thesis
    using TracepointName_chars [OF assms] TracepointFields_command
    by (simp add: makeRegistrationCommand_def Let_def to_bytes_def)
qed


text \<open>
  C14. Every EventHeader tracepoint can be registered: for a provider, level, keyword and group that
  make a tracepoint name, the command is well-formed and fits, so on an open file \<open>NewEventSet\<close> fails
  only when the kernel refuses, and otherwise adds one open registration and returns an event set
  that writes through it.
\<close>

theorem NewEventSet_registers:
  assumes "TracepointName provider level keyword grp = Inr name" "file_reachable f" "uf_state f = fileOpen"
    "k_mmap k = Inr enable"
    "\<forall>r. ur_NameArgs r = to_bytes name @ [32] @ to_bytes TracepointFields @ [0] \<longrightarrow> k_register k (uf_fd f) r = Inr ix"
  shows "\<exists>f' s. NewEventSet k provider level keyword grp f = (f', Inr s) \<and> file_reachable f' \<and>
    uf_regs f' = uf_regs f @ [length (uf_objects f)] \<and>
    es_registration s = Some (length (uf_objects f)) \<and> es_name s = name \<and> es_level s = level \<and>
    \<not> EventSet_closed (registration_interface h k') s f' \<and>
    rg_writeIndex (uf_objects f' ! length (uf_objects f)) = ix"
proof -
  define r where "r = \<lparr>rg_lifecycle = registrationOpen, rg_fd = uf_fd f, rg_name = name, rg_flags = 0,
                        rg_writeIndex = ix, rg_enable = Some (enable, 0)\<rparr>"
  define f' where "f' = f\<lparr>uf_regs := uf_regs f @ [length (uf_objects f)], uf_objects := uf_objects f @ [r]\<rparr>"
  have ready: "uf_ready f" using reachable_ok [OF assms(2)] by (simp add: file_ok_def)
  have reg: "Register k name TracepointFields 0 f = (f', Inr (length (uf_objects f)))"
    using ready assms(3-5)
    by (simp add: Register_def registration_command_ok [OF assms(1)] f'_def r_def Let_def)
  have "file_reachable f'" using fr_register [OF assms(2), of k name TracepointFields 0] reg by simp
  then show ?thesis
    using reg assms(1)
    by (simp add: NewEventSet_def EventSet_closed_def registration_interface_def Registration_Closed_def deref_def
        Closed_def f'_def r_def)
qed

lemma demo_tracepoint_name: "TracepointName ''P'' 4 0x10 ''h'' = Inr ''P_L4K10Gh''"
  by code_simp

theorem NewEventSet_registers_witness:
  "\<exists>f' s. NewEventSet demo_kernel ''P'' 4 0x10 ''h'' demo_file = (f', Inr s) \<and> uf_regs f' = [0, 1] \<and>
     es_registration s = Some 1"
  using NewEventSet_registers [OF demo_tracepoint_name demo_file_reachable, of demo_kernel 4096 7]
  by (fastforce simp: demo_file_eq demo_kernel_def)


section \<open>Writing an event\<close>

lemma total_size_fits: "tot + length (concat ps) \<le> MaxInt h \<Longrightarrow> total_size h tot ps = Inr (tot + length (concat ps))"
  by (induction ps arbitrary: tot) auto

lemma Encode_segments:
  "Encode h level b = bindR (encodeSegments h level b) (\<lambda>(p, m, d). Inr (concat [p, m, d]))"
  by (simp add: Encode_def)

lemma encodeSegments_size:
  assumes "encodeSegments h level b = Inr (p, m, d)" "length (b_activity b) = 16" "length (b_related b) = 16"
  shows "length (concat [p, m, d]) \<le> 65515"
  using assms by (auto simp: encodeSegments_def bindR_eq_Inr Let_def bytes_simps split: if_splits)

text \<open>How the kernel's answer to the one \<open>writev\<close> of an event is read.\<close>

definition write_result :: "nat \<Rightarrow> nat + nat \<Rightarrow> unit result" where
  "write_result expected answer =
     (case answer of
        Inl errno \<Rightarrow> fail (if errno = EBADF then ErrDisabled else ForeignError errno)
      | Inr written \<Rightarrow> if written = expected then Inr () else fail IoErrShortWrite)"

text \<open>
  C13. What \<open>EventSet.Write\<close> does, for a set over any registration of a reachable data file: it
  changes nothing in the process; on a closed set it fails with \<open>ErrClosed\<close> and on a disabled one
  with \<open>ErrDisabled\<close>, whatever the builder; otherwise it fails with the builder's encoding error or
  makes one \<open>writev\<close> of the write index followed by exactly the bytes \<open>Builder.Encode\<close> returns, and
  succeeds if and only if the kernel took all of them.
\<close>

theorem EventSet_Write_outcome:
  assumes "file_reachable f" "es_registration s = Some a" "deref f a = Some r"
    "length (b_activity b) = 16" "length (b_related b) = 16"
  shows "\<exists>ps. EventSet_Write h (registration_interface h k) (Some b) s f =
    (f, if EventSet_closed (registration_interface h k) s f then fail ErrClosed
        else if EventSet_Enabled (registration_interface h k) s f \<noteq> (f, Inr True) then fail ErrDisabled
        else bindR (Encode h (es_level s) b) (\<lambda>data.
          write_result (4 + length data) (k_writev k (rg_fd r) (native32 h (rg_writeIndex r) # ps))))
    \<and> (\<forall>data. Encode h (es_level s) b = Inr data \<longrightarrow> concat ps = data)"
proof -
  have ok: "file_ok f" "objects_ok f" using reachable_ok [OF assms(1)] by (simp_all add: file_ok_objects)
  note out = ue.write_outcome [OF ok(1) assms(2), where h = h and k = k and b = "Some b"]
  show ?thesis
  proof (cases "encodeSegments h (es_level s) b")
    case (Inl e)
    then show ?thesis unfolding out by (simp add: Encode_segments)
  next
    case (Inr pmd)
    obtain p m d where pmd: "pmd = (p, m, d)" by (cases pmd)
    have size: "total_size h 4 [p, m, d] = Inr (4 + length (concat [p, m, d]))"
      using encodeSegments_size [OF Inr [unfolded pmd] assms(4,5)] by (intro total_size_fits) (simp add: MaxInt_def)
    have rest: "rest_ok r" using deref_ok [OF ok(2) assms(3)] .
    have wr: "snd (Registration_Writev h k [p, m, d] a f) =
        write_result (4 + length (concat [p, m, d])) (k_writev k (rg_fd r) [native32 h (rg_writeIndex r), p, m, d])"
      if "\<not> EventSet_closed (registration_interface h k) s f"
        "EventSet_Enabled (registration_interface h k) s f = (f, Inr True)"
    proof -
      have "\<not> Closed r" "snd (Enabled r) = Inr True"
        using that assms(2,3)
        by (auto simp: EventSet_closed_def EventSet_Enabled_def registration_interface_def Registration_Closed_def
            Registration_Enabled_def prod_eq_iff split: if_splits)
      then show ?thesis
        using size by (auto simp: Registration_Writev_def assms(3) Writev_rest [OF rest] write_result_def split: sum.splits)
    qed
    show ?thesis
      unfolding out using Inr pmd wr
      by (intro exI [of _ "[p, m, d]"]) (auto simp: Encode_segments registration_interface_def)
  qed
qed

definition demo_enabled :: user_file where
  "demo_enabled = set_enable 0 1 demo_file"

lemma demo_enabled_reachable: "file_reachable demo_enabled"
  unfolding demo_enabled_def by (intro fr_kernel demo_file_reachable)

definition demo_set :: "nat event_set" where
  "demo_set = \<lparr>es_registration = Some 0, es_name = ''P_L4K10Gh'', es_level = 4, es_keyword = 16, es_closeDone = False\<rparr>"

definition demo_bytes :: bytes where
  "demo_bytes = [7, 0, 0, 0, 0, 0, 0, 4, 11, 0, 1, 0, 101, 0, 115, 0, 129, 129, 7, 0, 97, 0, 3, 5, 0]"

lemma demo_Encode: "Encode demo_host 4 demo_builder = Inr demo_bytes"
  by (simp add: Encode_def encodeSegments_def demo_builder_def demo_host_def requireActive_def demo_bytes_def
      Let_def defaultHeaderFlags_eq put16_bytes)

theorem EventSet_Write_outcome_witness:
  "EventSet_Write demo_host (registration_interface demo_host demo_kernel) (Some demo_builder) demo_set demo_enabled
     = (demo_enabled, Inr ())"
proof -
  let ?ops = "registration_interface demo_host demo_kernel"
  have s: "es_registration demo_set = Some 0" "es_level demo_set = 4" by (simp_all add: demo_set_def)
  obtain r where r: "deref demo_enabled 0 = Some r"
    by (simp add: demo_enabled_def set_enable_def store_def demo_file_eq deref_def)
  have b: "length (b_activity demo_builder) = 16" "length (b_related demo_builder) = 16"
    by (simp_all add: demo_builder_def zeroID_def)
  obtain ps where w: "EventSet_Write demo_host ?ops (Some demo_builder) demo_set demo_enabled =
    (demo_enabled, if EventSet_closed ?ops demo_set demo_enabled then fail ErrClosed
        else if EventSet_Enabled ?ops demo_set demo_enabled \<noteq> (demo_enabled, Inr True) then fail ErrDisabled
        else bindR (Encode demo_host 4 demo_builder) (\<lambda>data.
          write_result (4 + length data) (k_writev demo_kernel (rg_fd r) (native32 demo_host (rg_writeIndex r) # ps))))"
    and ps: "concat ps = demo_bytes"
    using EventSet_Write_outcome [OF demo_enabled_reachable s(1) r b, of demo_host demo_kernel, unfolded s(2)] demo_Encode
    by blast
  have "\<not> EventSet_closed ?ops demo_set demo_enabled" "EventSet_Enabled ?ops demo_set demo_enabled = (demo_enabled, Inr True)"
    by (simp_all add: demo_enabled_def demo_file_eq set_enable_def deref_def store_def demo_set_def EventSet_closed_def
        EventSet_Enabled_def registration_interface_def Registration_Closed_def Registration_Enabled_def Closed_def
        Enabled_def acquire_def release_def enabled_def)
  moreover have "k_writev demo_kernel fd vs = Inr (length (concat vs))" for fd vs by (simp add: demo_kernel_def)
  ultimately show ?thesis unfolding w demo_Encode using ps by (simp add: write_result_def bytes_simps)
qed

end
