(* ===== verification/Schema.thy ===== *)
theory Schema imports Builder begin

text \<open>
  \<open>eventheader/schema.go\<close>: immutable schemas. \<open>NewSchema\<close> validates a tree of field definitions and
  encodes the metadata once; the plan lists the values a binding has to supply. A \<open>*Schema\<close> is
  compared by address in \<open>event.go\<close>, so the record carries the address it was allocated at.
\<close>

datatype value_kind =
    valueInvalid | valueInt8 | valueUint8 | valueInt16 | valueUint16 | valueInt32 | valueUint32
  | valueInt64 | valueUint64 | valueBool | valueFloat32 | valueFloat64 | valueUintptr | valueUUID
  | valueIPv4 | valueIPv6 | valuePort | valueString | valueUTF16 | valueBinary | valueStruct

record schema_options =
  so_Name :: string
  so_ID :: u16
  so_Version :: u8
  so_Tag :: u16
  so_Opcode :: u8

datatype field_definition =
  FieldDefinition (fdn_name: string) (fdn_kind: value_kind) (fdn_encoding: u8) (fdn_format: u8)
    (fdn_options: "field_options list") (fdn_arrayKind: array_kind) (fdn_arrayCount: u16)
    (fdn_countArgs: int) (fdn_arrayField: bool) (fdn_children: "field_definition list")

record value_plan =
  vp_kind :: value_kind
  vp_arrayKind :: array_kind
  vp_arrayCount :: u16

record schema =
  sc_addr :: nat
  sc_options :: schema_options
  sc_metadata :: bytes
  sc_plan :: "value_plan list"


section \<open>The typed field constructors\<close>

definition scalarField :: "string \<Rightarrow> value_kind \<Rightarrow> u8 \<Rightarrow> u8 \<Rightarrow> field_options list \<Rightarrow> field_definition" where
  "scalarField name kind encoding format options =
     FieldDefinition name kind encoding format options ArrayScalar 0 0 False []"

definition Int8Field where
  "Int8Field name options = scalarField name valueInt8 EncodingValue8 FormatSignedInt options"

definition Uint8Field where
  "Uint8Field name options = scalarField name valueUint8 EncodingValue8 FormatDefault options"

definition Int16Field where
  "Int16Field name options = scalarField name valueInt16 EncodingValue16 FormatSignedInt options"

definition Uint16Field where
  "Uint16Field name options = scalarField name valueUint16 EncodingValue16 FormatDefault options"

definition Int32Field where
  "Int32Field name options = scalarField name valueInt32 EncodingValue32 FormatSignedInt options"

definition Uint32Field where
  "Uint32Field name options = scalarField name valueUint32 EncodingValue32 FormatDefault options"

definition Int64Field where
  "Int64Field name options = scalarField name valueInt64 EncodingValue64 FormatSignedInt options"

definition Uint64Field where
  "Uint64Field name options = scalarField name valueUint64 EncodingValue64 FormatDefault options"

definition BoolField where
  "BoolField name options = scalarField name valueBool EncodingValue8 FormatBoolean options"

definition Float32Field where
  "Float32Field name options = scalarField name valueFloat32 EncodingValue32 FormatFloat options"

definition Float64Field where
  "Float64Field name options = scalarField name valueFloat64 EncodingValue64 FormatFloat options"

definition UintptrField where
  "UintptrField h name options =
     (let encoding = (if int64 h then EncodingValue64 else EncodingValue32)
      in scalarField name valueUintptr encoding FormatDefault options)"

definition UUIDField where
  "UUIDField name options = scalarField name valueUUID EncodingValue128 FormatUUID options"

definition IPv4Field where
  "IPv4Field name options = scalarField name valueIPv4 EncodingValue32 FormatIPAddress options"

definition IPv6Field where
  "IPv6Field name options = scalarField name valueIPv6 EncodingValue128 FormatIPAddress options"

definition PortField where
  "PortField name options = scalarField name valuePort EncodingValue16 FormatPort options"

definition StringField where
  "StringField name options = scalarField name valueString EncodingStringLength16Char8 FormatDefault options"

definition UTF16Field where
  "UTF16Field name options = scalarField name valueUTF16 EncodingStringLength16Char16 FormatDefault options"

definition BinaryField where
  "BinaryField name options = scalarField name valueBinary EncodingBinaryLength16Char8 FormatDefault options"

definition ArrayField :: "field_definition \<Rightarrow> array_kind \<Rightarrow> u16 list \<Rightarrow> field_definition" where
  "ArrayField element kind count =
     (case element of FieldDefinition n k e f opts ak ac ca af cs \<Rightarrow>
        FieldDefinition n k e f opts kind (if count \<noteq> [] then hd count else ac)
          (if af then -1 else int (length count)) True cs)"

definition StructField :: "string \<Rightarrow> field_definition list \<Rightarrow> field_options list \<Rightarrow> field_definition" where
  "StructField name defs options =
     FieldDefinition name valueStruct EncodingStruct 0 options ArrayScalar 0 0 False defs"


section \<open>Building a schema\<close>

definition minimumValueSize :: "host \<Rightarrow> value_kind \<Rightarrow> nat" where
  "minimumValueSize h kind =
     (if kind \<in> {valueInt8, valueUint8, valueBool} then 1
      else if kind \<in> {valueInt16, valueUint16, valuePort} then 2
      else if kind \<in> {valueInt32, valueUint32, valueFloat32, valueIPv4} then 4
      else if kind \<in> {valueInt64, valueUint64, valueFloat64} then 8
      else if kind = valueUintptr then (if int64 h then 8 else 4)
      else if kind \<in> {valueUUID, valueIPv6} then 16
      else if kind \<in> {valueString, valueUTF16, valueBinary} then 2
      else 0)"

text \<open>Go's integer division truncates towards zero.\<close>

definition quot :: "int \<Rightarrow> int \<Rightarrow> int" where
  "quot a b = (if 0 \<le> a then a div b else - ((- a) div b))"

type_synonym schema_state = "bytes \<times> value_plan list \<times> nat"

text \<open>The metadata of a structure up to its children, and of any other field.\<close>

definition appendStructHead :: "host \<Rightarrow> string \<Rightarrow> nat \<Rightarrow> u16 \<Rightarrow> bytes \<Rightarrow> bytes" where
  "appendStructHead h name n tg metadata =
     (let metadata = metadata @ to_bytes name;
          metadata = metadata @ [0, EncodingStruct OR EncodingChainFlag];
          format = of_nat n;
          format = (if tg \<noteq> 0 then format OR FormatChainFlag else format);
          metadata = metadata @ [format]
      in if tg \<noteq> 0 then metadata @ native16 h tg else metadata)"

definition appendFieldMetadata ::
  "host \<Rightarrow> string \<Rightarrow> u8 \<Rightarrow> field_options \<Rightarrow> array_kind \<Rightarrow> u16 \<Rightarrow> bytes \<Rightarrow> bytes" where
  "appendFieldMetadata h name encoding option arrayKind arrayCount metadata =
     (let encoded = (if arrayKind = ArrayFixed then encoding OR EncodingCArrayFlag
                     else if arrayKind = ArrayVariable then encoding OR EncodingVArrayFlag else encoding);
          metadata = metadata @ to_bytes name;
          metadata = metadata @ [0];
          metadata =
            (if opt_Format option \<noteq> FormatDefault \<or> opt_Tag option \<noteq> 0 then
               let metadata = metadata @ [encoded OR EncodingChainFlag];
                   format = opt_Format option;
                   format = (if opt_Tag option \<noteq> 0 then format OR FormatChainFlag else format);
                   metadata = metadata @ [format]
               in if opt_Tag option \<noteq> 0 then metadata @ native16 h (opt_Tag option) else metadata
             else metadata @ [encoded])
      in if arrayKind = ArrayFixed then metadata @ native16 h arrayCount else metadata)"

definition checkArrayShape :: "array_kind \<Rightarrow> bool \<Rightarrow> int \<Rightarrow> u16 \<Rightarrow> unit result" where
  "checkArrayShape kind arrayField countArgs arrayCount =
     (case kind of
        ArrayScalar \<Rightarrow> if arrayField \<or> countArgs \<noteq> 0 then fail ErrInvalidValue else Inr ()
      | ArrayFixed \<Rightarrow> if countArgs \<noteq> 1 \<or> arrayCount = 0 then fail ErrInvalidValue else Inr ()
      | ArrayVariable \<Rightarrow> if countArgs \<noteq> 0 then fail ErrInvalidValue else Inr ()
      | ArrayOther _ \<Rightarrow> fail ErrInvalidValue)"

text \<open>The smallest payload a field needs, checked against what is left of an event.\<close>

definition addMinPayload :: "host \<Rightarrow> value_kind \<Rightarrow> array_kind \<Rightarrow> u16 \<Rightarrow> nat \<Rightarrow> nat result" where
  "addMinPayload h kind arrayKind arrayCount minPayload =
     (let elementSize = minimumValueSize h kind;
          count = (if arrayKind = ArrayFixed then unat arrayCount
                   else if arrayKind = ArrayVariable then 0 else 1);
          minPayload = (if arrayKind = ArrayVariable then minPayload + 2 else minPayload)
      in if elementSize \<noteq> 0 \<and> int count > quot (int maxMetadataPayload - int minPayload) (int elementSize)
         then fail ErrEventTooLarge else Inr (minPayload + count * elementSize))"

fun appendDefinition :: "host \<Rightarrow> nat \<Rightarrow> field_definition \<Rightarrow> schema_state \<Rightarrow> schema_state result"
  and appendDefinitions :: "host \<Rightarrow> nat \<Rightarrow> field_definition list \<Rightarrow> schema_state \<Rightarrow> schema_state result" where
  "appendDefinition h depth (FieldDefinition name kind encoding format options arrayKind arrayCount
       countArgs arrayField children) (metadata, plan, minPayload) =
     bindR (validateMetadataName name) (\<lambda>_.
     if kind = valueInvalid then fail ErrInvalidValue
     else if length options > 1 then fail ErrInvalidValue
     else if kind = valueStruct then
       if arrayField then fail ErrStructArrayUnsupported
       else if depth \<ge> maxStructDepth then fail ErrNestingTooDeep
       else if children = [] then fail ErrInvalidValue
       else if length children > 127 then fail ErrTooManyFields
       else bindR (resolveOptions FormatDefault options) (\<lambda>option.
         if opt_Format option \<noteq> FormatDefault then fail ErrInvalidValue
         else appendDefinitions h (depth + 1) children
                (appendStructHead h name (length children) (opt_Tag option) metadata, plan, minPayload))
     else if children \<noteq> [] then fail ErrInvalidValue
     else if encoding = EncodingInvalid \<or> encoding AND NOT EncodingValueMask \<noteq> 0 \<or> encoding = EncodingStruct
       then fail ErrInvalidValue
     else
     bindR (checkArrayShape arrayKind arrayField countArgs arrayCount) (\<lambda>_.
     bindR (resolveOptions format options) (\<lambda>option.
     bindR (addMinPayload h kind arrayKind arrayCount minPayload) (\<lambda>minPayload.
     Inr (appendFieldMetadata h name encoding option arrayKind arrayCount metadata,
          plan @ [\<lparr>vp_kind = kind, vp_arrayKind = arrayKind, vp_arrayCount = arrayCount\<rparr>], minPayload)))))"
| "appendDefinitions h depth [] s = Inr s"
| "appendDefinitions h depth (d # ds) s =
     bindR (appendDefinition h depth d s) (appendDefinitions h depth ds)"

definition NewSchema :: "host \<Rightarrow> nat \<Rightarrow> schema_options \<Rightarrow> field_definition list \<Rightarrow> schema result" where
  "NewSchema h addr options defs =
     bindR (validateMetadataName (so_Name options)) (\<lambda>_.
     bindR (appendDefinitions h 0 defs (to_bytes (so_Name options) @ [0], [], 0)) (\<lambda>(metadata, plan, minPayload).
     if length metadata > maxCount then fail ErrMetadataTooLarge
     else if length metadata + minPayload > maxMetadataPayload then fail ErrEventTooLarge
     else Inr \<lparr>sc_addr = addr, sc_options = options, sc_metadata = metadata, sc_plan = plan\<rparr>))"

end
