(* ===== verification/Binding.thy ===== *)
theory Binding imports Schema begin

text \<open>
  \<open>eventheader/binding.go\<close>: the payload state of one schema. The payload is a slice over retained
  storage: \<open>bd_buf\<close> is the backing array up to its capacity and \<open>bd_len\<close> the length of the slice, so
  bytes left over from an earlier use are part of the model. \<open>begin\<close> extends the slice without
  clearing it, and each typed method then writes its bytes into the new part.
\<close>

record binding =
  bd_schema :: "schema option"
  bd_buf :: bytes
  bd_len :: nat
  bd_index :: nat

definition NewBinding :: "schema option \<Rightarrow> bytes \<Rightarrow> binding" where
  "NewBinding sc storage = \<lparr>bd_schema = sc, bd_buf = storage, bd_len = 0, bd_index = 0\<rparr>"

definition Binding_Reset :: "binding \<Rightarrow> binding" where
  "Binding_Reset b = b\<lparr>bd_len := 0, bd_index := 0\<rparr>"

definition binding_payload :: "binding \<Rightarrow> bytes" where
  "binding_payload b = take (bd_len b) (bd_buf b)"

definition Complete :: "binding \<Rightarrow> unit result" where
  "Complete b =
     (case bd_schema b of
        None \<Rightarrow> fail ErrState
      | Some s \<Rightarrow> if bd_index b \<noteq> length (sc_plan s) then fail ErrState else Inr ())"

definition check :: "value_kind \<Rightarrow> bool \<Rightarrow> nat \<Rightarrow> binding \<Rightarrow> unit result" where
  "check kind array count b =
     (case bd_schema b of
        None \<Rightarrow> fail ErrState
      | Some s \<Rightarrow>
        if bd_index b \<ge> length (sc_plan s) then fail ErrState
        else bindR (index (sc_plan s) (bd_index b)) (\<lambda>plan.
          if vp_kind plan \<noteq> kind then fail ErrState
          else if array \<noteq> (vp_arrayKind plan \<noteq> ArrayScalar) then fail ErrState
          else if \<not> array then Inr ()
          else if count > maxCount then fail ErrCountTooLarge
          else if vp_arrayKind plan = ArrayFixed \<and> count \<noteq> unat (vp_arrayCount plan) then fail ErrInvalidValue
          else Inr ()))"

text \<open>Storing bytes at a position of a slice.\<close>

definition put_at :: "bytes \<Rightarrow> nat \<Rightarrow> bytes \<Rightarrow> bytes" where
  "put_at buf i bs = take i buf @ bs @ drop (i + length bs) buf"

text \<open>\<open>begin\<close> returns the binding and the position where the value's data starts.\<close>

definition begin_value ::
  "host \<Rightarrow> value_kind \<Rightarrow> bool \<Rightarrow> nat \<Rightarrow> nat \<Rightarrow> binding \<Rightarrow> (binding \<times> nat) result" where
  "begin_value h kind array count dataSize b =
     bindR (check kind array count b) (\<lambda>_.
     case bd_schema b of
       None \<Rightarrow> Inl Fault
     | Some s \<Rightarrow>
       bindR (index (sc_plan s) (bd_index b)) (\<lambda>plan.
       let prefixSize = (if vp_arrayKind plan = ArrayVariable then 2 else 0) in
       if int dataSize > int maxMetadataPayload - int prefixSize - int (bd_len b) \<or>
          length (sc_metadata s) + bd_len b + prefixSize + dataSize > maxMetadataPayload
       then fail ErrEventTooLarge
       else
         let oldLength = bd_len b;
             newLength = oldLength + prefixSize + dataSize;
             buf = (if newLength > length (bd_buf b)
                    then binding_payload b @ replicate (newLength - oldLength) 0 else bd_buf b);
             buf = (if prefixSize \<noteq> 0 then put_at buf oldLength (native16 h (of_nat count)) else buf)
         in Inr (b\<lparr>bd_buf := buf, bd_len := newLength, bd_index := bd_index b + 1\<rparr>,
                 oldLength + prefixSize)))"

definition bind_value ::
  "host \<Rightarrow> value_kind \<Rightarrow> bool \<Rightarrow> nat \<Rightarrow> nat \<Rightarrow> bytes \<Rightarrow> binding \<Rightarrow> binding result" where
  "bind_value h kind array count dataSize data b =
     bindR (begin_value h kind array count dataSize b) (\<lambda>(b, at).
     Inr (b\<lparr>bd_buf := put_at (bd_buf b) at data\<rparr>))"

text \<open>
  \<open>bind_value\<close> is the shape of every method: \<open>begin\<close> with the size the method computes, then the
  stores, here the bytes they put from the start of the region on.
\<close>


section \<open>The typed scalar methods\<close>

definition Binding_Int8 where
  "Binding_Int8 h v = bind_value h valueInt8 False 1 1 ([v])"

definition Binding_Uint8 where
  "Binding_Uint8 h v = bind_value h valueUint8 False 1 1 ([v])"

definition Binding_Int16 where
  "Binding_Int16 h v = bind_value h valueInt16 False 1 2 (native16 h v)"

definition Binding_Uint16 where
  "Binding_Uint16 h v = bind_value h valueUint16 False 1 2 (native16 h v)"

definition Binding_Int32 where
  "Binding_Int32 h v = bind_value h valueInt32 False 1 4 (native32 h v)"

definition Binding_Uint32 where
  "Binding_Uint32 h v = bind_value h valueUint32 False 1 4 (native32 h v)"

definition Binding_Int64 where
  "Binding_Int64 h v = bind_value h valueInt64 False 1 8 (native64 h v)"

definition Binding_Uint64 where
  "Binding_Uint64 h v = bind_value h valueUint64 False 1 8 (native64 h v)"

definition Binding_Bool where
  "Binding_Bool h v = bind_value h valueBool False 1 1 ([bool_byte v])"

definition Binding_Float32 where
  "Binding_Float32 h v = bind_value h valueFloat32 False 1 4 (native32 h v)"

definition Binding_Float64 where
  "Binding_Float64 h v = bind_value h valueFloat64 False 1 8 (native64 h v)"

definition Binding_Uintptr :: "host \<Rightarrow> u64 \<Rightarrow> binding \<Rightarrow> binding result" where
  "Binding_Uintptr h v =
     (let sz = (if int64 h then 8 else 4) in
      bind_value h valueUintptr False 1 sz (if sz = 8 then native64 h v else native32 h (ucast v)))"

definition Binding_UUID where
  "Binding_UUID h v = bind_value h valueUUID False 1 (length v) v"

definition Binding_IPv4 where
  "Binding_IPv4 h v = bind_value h valueIPv4 False 1 (length v) v"

definition Binding_IPv6 where
  "Binding_IPv6 h v = bind_value h valueIPv6 False 1 (length v) v"

definition Binding_Port where
  "Binding_Port h v = bind_value h valuePort False 1 2 (put16 BigEndian v)"

definition Binding_String :: "host \<Rightarrow> string \<Rightarrow> binding \<Rightarrow> binding result" where
  "Binding_String h v b =
     bindR (check valueString False 1 b) (\<lambda>_.
     if \<not> utf8_valid (to_bytes v) then fail ErrInvalidValue
     else if length v > maxCount then fail ErrCountTooLarge
     else bind_value h valueString False 1 (2 + length v)
            (native16 h (of_nat (length v)) @ to_bytes v) b)"

definition Binding_UTF16 :: "host \<Rightarrow> u16 list \<Rightarrow> binding \<Rightarrow> binding result" where
  "Binding_UTF16 h v b =
     bindR (check valueUTF16 False 1 b) (\<lambda>_.
     if length v > maxCount then fail ErrCountTooLarge
     else bind_value h valueUTF16 False 1 (2 + length v * 2)
            (native16 h (of_nat (length v)) @ concat (map (native16 h) v)) b)"

definition Binding_Binary :: "host \<Rightarrow> bytes \<Rightarrow> binding \<Rightarrow> binding result" where
  "Binding_Binary h v b =
     bindR (check valueBinary False 1 b) (\<lambda>_.
     if length v > maxCount then fail ErrCountTooLarge
     else bind_value h valueBinary False 1 (2 + length v) (native16 h (of_nat (length v)) @ v) b)"


section \<open>The typed array methods\<close>

definition Binding_Int8Array where
  "Binding_Int8Array h vs = bind_value h valueInt8 True (length vs) (length vs) (vs)"

definition Binding_Uint8Array where
  "Binding_Uint8Array h vs = bind_value h valueUint8 True (length vs) (length vs) (vs)"

definition Binding_Int16Array where
  "Binding_Int16Array h vs = bind_value h valueInt16 True (length vs) (length vs * 2) (concat (map (native16 h) vs))"

definition Binding_Uint16Array where
  "Binding_Uint16Array h vs = bind_value h valueUint16 True (length vs) (length vs * 2) (concat (map (native16 h) vs))"

definition Binding_Int32Array where
  "Binding_Int32Array h vs = bind_value h valueInt32 True (length vs) (length vs * 4) (concat (map (native32 h) vs))"

definition Binding_Uint32Array where
  "Binding_Uint32Array h vs = bind_value h valueUint32 True (length vs) (length vs * 4) (concat (map (native32 h) vs))"

definition Binding_Int64Array where
  "Binding_Int64Array h vs = bind_value h valueInt64 True (length vs) (length vs * 8) (concat (map (native64 h) vs))"

definition Binding_Uint64Array where
  "Binding_Uint64Array h vs = bind_value h valueUint64 True (length vs) (length vs * 8) (concat (map (native64 h) vs))"

definition Binding_BoolArray where
  "Binding_BoolArray h vs = bind_value h valueBool True (length vs) (length vs) (map bool_byte vs)"

definition Binding_Float32Array where
  "Binding_Float32Array h vs = bind_value h valueFloat32 True (length vs) (length vs * 4) (concat (map (native32 h) vs))"

definition Binding_Float64Array where
  "Binding_Float64Array h vs = bind_value h valueFloat64 True (length vs) (length vs * 8) (concat (map (native64 h) vs))"

definition Binding_UintptrArray :: "host \<Rightarrow> u64 list \<Rightarrow> binding \<Rightarrow> binding result" where
  "Binding_UintptrArray h vs =
     (let sz = (if int64 h then 8 else 4) in
      bind_value h valueUintptr True (length vs) (length vs * sz)
        (concat (map (\<lambda>v. if sz = 8 then native64 h v else native32 h (ucast v)) vs)))"

definition Binding_UUIDArray where
  "Binding_UUIDArray h vs = bind_value h valueUUID True (length vs) (length vs * 16) (concat vs)"

definition Binding_IPv4Array where
  "Binding_IPv4Array h vs = bind_value h valueIPv4 True (length vs) (length vs * 4) (concat vs)"

definition Binding_IPv6Array where
  "Binding_IPv6Array h vs = bind_value h valueIPv6 True (length vs) (length vs * 16) (concat vs)"

definition Binding_PortArray where
  "Binding_PortArray h vs =
     bind_value h valuePort True (length vs) (length vs * 2) (concat (map (put16 BigEndian) vs))"

text \<open>The size loops of the counted arrays, with the checks in the order the code makes them.\<close>

fun counted_size :: "('a \<Rightarrow> unit result) \<Rightarrow> ('a \<Rightarrow> nat) \<Rightarrow> nat \<Rightarrow> 'a list \<Rightarrow> nat result" where
  "counted_size ok len sz [] = Inr sz"
| "counted_size ok len sz (v # vs) =
     bindR (ok v) (\<lambda>_.
     if int (len v) > int maxMetadataPayload - int sz then fail ErrEventTooLarge
     else counted_size ok len (sz + len v) vs)"

definition Binding_StringArray :: "host \<Rightarrow> string list \<Rightarrow> binding \<Rightarrow> binding result" where
  "Binding_StringArray h vs b =
     bindR (check valueString True (length vs) b) (\<lambda>_.
     bindR (counted_size (\<lambda>v. if \<not> utf8_valid (to_bytes v) then fail ErrInvalidValue
                              else if length v > maxCount then fail ErrCountTooLarge else Inr ())
              (\<lambda>v. length v + 2) 0 vs) (\<lambda>sz.
     bind_value h valueString True (length vs) sz
       (concat (map (\<lambda>v. native16 h (of_nat (length v)) @ to_bytes v) vs)) b))"

definition Binding_UTF16Array :: "host \<Rightarrow> u16 list list \<Rightarrow> binding \<Rightarrow> binding result" where
  "Binding_UTF16Array h vs b =
     bindR (check valueUTF16 True (length vs) b) (\<lambda>_.
     bindR (counted_size (\<lambda>v. if length v > maxCount then fail ErrCountTooLarge else Inr ())
              (\<lambda>v. 2 + length v * 2) 0 vs) (\<lambda>sz.
     bind_value h valueUTF16 True (length vs) sz
       (concat (map (\<lambda>v. native16 h (of_nat (length v)) @ concat (map (native16 h) v)) vs)) b))"

definition Binding_BinaryArray :: "host \<Rightarrow> bytes list \<Rightarrow> binding \<Rightarrow> binding result" where
  "Binding_BinaryArray h vs b =
     bindR (check valueBinary True (length vs) b) (\<lambda>_.
     bindR (counted_size (\<lambda>v. if length v > maxCount then fail ErrCountTooLarge else Inr ())
              (\<lambda>v. length v + 2) 0 vs) (\<lambda>sz.
     bind_value h valueBinary True (length vs) sz
       (concat (map (\<lambda>v. native16 h (of_nat (length v)) @ v) vs)) b))"

end
