(* ===== verification/SchemaEquiv.thy ===== *)
theory SchemaEquiv imports BuilderApi Binding begin

text \<open>
  The two producers agree. An event description (a list of \<open>entry\<close> trees with their values) can be
  written through a schema and a binding, or through the dynamic builder. Where the schema accepts
  the description and the binding its values, the builder accepts the calls, and the metadata and
  payload bytes are the same. The bytes do not depend on what the binding's storage held before.
\<close>


section \<open>Event descriptions\<close>

datatype entry =
    EScalar string go_value "field_options list"
  | EArray string go_array array_kind "field_options list"
  | EStruct string "field_options list" "entry list"

fun value_kind_of :: "go_value \<Rightarrow> value_kind" where
  "value_kind_of (VInt8 _) = valueInt8"
| "value_kind_of (VUint8 _) = valueUint8"
| "value_kind_of (VInt16 _) = valueInt16"
| "value_kind_of (VUint16 _) = valueUint16"
| "value_kind_of (VInt32 _) = valueInt32"
| "value_kind_of (VUint32 _) = valueUint32"
| "value_kind_of (VInt64 _) = valueInt64"
| "value_kind_of (VUint64 _) = valueUint64"
| "value_kind_of (VBool _) = valueBool"
| "value_kind_of (VFloat32 _) = valueFloat32"
| "value_kind_of (VFloat64 _) = valueFloat64"
| "value_kind_of (VUintptr _) = valueUintptr"
| "value_kind_of (VUUID _) = valueUUID"
| "value_kind_of (VIPv4 _) = valueIPv4"
| "value_kind_of (VIPv6 _) = valueIPv6"
| "value_kind_of (VPort _) = valuePort"
| "value_kind_of (VString _) = valueString"
| "value_kind_of (VUTF16 _) = valueUTF16"
| "value_kind_of (VBinary _) = valueBinary"

text \<open>The typed constructor of a value's type.\<close>

fun scalar_def :: "host \<Rightarrow> string \<Rightarrow> go_value \<Rightarrow> field_options list \<Rightarrow> field_definition" where
  "scalar_def h n (VInt8 _) opts = Int8Field n opts"
| "scalar_def h n (VUint8 _) opts = Uint8Field n opts"
| "scalar_def h n (VInt16 _) opts = Int16Field n opts"
| "scalar_def h n (VUint16 _) opts = Uint16Field n opts"
| "scalar_def h n (VInt32 _) opts = Int32Field n opts"
| "scalar_def h n (VUint32 _) opts = Uint32Field n opts"
| "scalar_def h n (VInt64 _) opts = Int64Field n opts"
| "scalar_def h n (VUint64 _) opts = Uint64Field n opts"
| "scalar_def h n (VBool _) opts = BoolField n opts"
| "scalar_def h n (VFloat32 _) opts = Float32Field n opts"
| "scalar_def h n (VFloat64 _) opts = Float64Field n opts"
| "scalar_def h n (VUintptr _) opts = UintptrField h n opts"
| "scalar_def h n (VUUID _) opts = UUIDField n opts"
| "scalar_def h n (VIPv4 _) opts = IPv4Field n opts"
| "scalar_def h n (VIPv6 _) opts = IPv6Field n opts"
| "scalar_def h n (VPort _) opts = PortField n opts"
| "scalar_def h n (VString _) opts = StringField n opts"
| "scalar_def h n (VUTF16 _) opts = UTF16Field n opts"
| "scalar_def h n (VBinary _) opts = BinaryField n opts"

fun entry_def :: "host \<Rightarrow> entry \<Rightarrow> field_definition" where
  "entry_def h (EScalar n v opts) = scalar_def h n v opts"
| "entry_def h (EArray n vs k opts) =
     ArrayField (scalar_def h n (sample vs) opts) k
       (if k = ArrayFixed then [of_nat (length (elements vs))] else [])"
| "entry_def h (EStruct n opts es) = StructField n (map (entry_def h) es) opts"

text \<open>The same description as builder calls, and as the values a binding is given.\<close>

fun entry_calls :: "entry \<Rightarrow> call list" where
  "entry_calls (EScalar n v opts) = [CScalar n v opts]"
| "entry_calls (EArray n vs k opts) = [CArray n vs k opts]"
| "entry_calls (EStruct n opts es) = CBegin n (option_tag opts) # concat (map entry_calls es) @ [CEnd]"

datatype bind_arg = BScalar go_value | BArray go_array

fun entry_args :: "entry \<Rightarrow> bind_arg list" where
  "entry_args (EScalar n v opts) = [BScalar v]"
| "entry_args (EArray n vs k opts) = [BArray vs]"
| "entry_args (EStruct n opts es) = concat (map entry_args es)"

fun bind_scalar :: "host \<Rightarrow> go_value \<Rightarrow> binding \<Rightarrow> binding result" where
  "bind_scalar h (VInt8 v) = Binding_Int8 h v"
| "bind_scalar h (VUint8 v) = Binding_Uint8 h v"
| "bind_scalar h (VInt16 v) = Binding_Int16 h v"
| "bind_scalar h (VUint16 v) = Binding_Uint16 h v"
| "bind_scalar h (VInt32 v) = Binding_Int32 h v"
| "bind_scalar h (VUint32 v) = Binding_Uint32 h v"
| "bind_scalar h (VInt64 v) = Binding_Int64 h v"
| "bind_scalar h (VUint64 v) = Binding_Uint64 h v"
| "bind_scalar h (VBool v) = Binding_Bool h v"
| "bind_scalar h (VFloat32 v) = Binding_Float32 h v"
| "bind_scalar h (VFloat64 v) = Binding_Float64 h v"
| "bind_scalar h (VUintptr v) = Binding_Uintptr h v"
| "bind_scalar h (VUUID v) = Binding_UUID h v"
| "bind_scalar h (VIPv4 v) = Binding_IPv4 h v"
| "bind_scalar h (VIPv6 v) = Binding_IPv6 h v"
| "bind_scalar h (VPort v) = Binding_Port h v"
| "bind_scalar h (VString v) = Binding_String h v"
| "bind_scalar h (VUTF16 v) = Binding_UTF16 h v"
| "bind_scalar h (VBinary v) = Binding_Binary h v"

fun bind_array :: "host \<Rightarrow> go_array \<Rightarrow> binding \<Rightarrow> binding result" where
  "bind_array h (AInt8 vs) = Binding_Int8Array h vs"
| "bind_array h (AUint8 vs) = Binding_Uint8Array h vs"
| "bind_array h (AInt16 vs) = Binding_Int16Array h vs"
| "bind_array h (AUint16 vs) = Binding_Uint16Array h vs"
| "bind_array h (AInt32 vs) = Binding_Int32Array h vs"
| "bind_array h (AUint32 vs) = Binding_Uint32Array h vs"
| "bind_array h (AInt64 vs) = Binding_Int64Array h vs"
| "bind_array h (AUint64 vs) = Binding_Uint64Array h vs"
| "bind_array h (ABool vs) = Binding_BoolArray h vs"
| "bind_array h (AFloat32 vs) = Binding_Float32Array h vs"
| "bind_array h (AFloat64 vs) = Binding_Float64Array h vs"
| "bind_array h (AUintptr vs) = Binding_UintptrArray h vs"
| "bind_array h (AUUID vs) = Binding_UUIDArray h vs"
| "bind_array h (AIPv4 vs) = Binding_IPv4Array h vs"
| "bind_array h (AIPv6 vs) = Binding_IPv6Array h vs"
| "bind_array h (APort vs) = Binding_PortArray h vs"
| "bind_array h (AString vs) = Binding_StringArray h vs"
| "bind_array h (AUTF16 vs) = Binding_UTF16Array h vs"
| "bind_array h (ABinary vs) = Binding_BinaryArray h vs"

fun bind_call :: "host \<Rightarrow> bind_arg \<Rightarrow> binding \<Rightarrow> binding result" where
  "bind_call h (BScalar v) = bind_scalar h v"
| "bind_call h (BArray vs) = bind_array h vs"

fun run_binds :: "host \<Rightarrow> bind_arg list \<Rightarrow> binding \<Rightarrow> binding result" where
  "run_binds h [] b = Inr b"
| "run_binds h (a # as) b = bindR (bind_call h a b) (run_binds h as)"

text \<open>What the description means: its tree, its payload bytes and its plan.\<close>

fun entry_tree :: "host \<Rightarrow> entry \<Rightarrow> field_tree" where
  "entry_tree h (EScalar n v opts) =
     Leaf n (value_encoding h v) (option_format (value_format v) opts) (option_tag opts) ArrayScalar 0"
| "entry_tree h (EArray n vs k opts) =
     Leaf n (value_encoding h (sample vs)) (option_format (value_format (sample vs)) opts)
       (option_tag opts) k (kind_count k (of_nat (length (elements vs))))"
| "entry_tree h (EStruct n opts es) = Node n (option_tag opts) (map (entry_tree h) es)"

fun entry_wire :: "host \<Rightarrow> entry \<Rightarrow> bytes" where
  "entry_wire h (EScalar n v opts) = value_wire h v"
| "entry_wire h (EArray n vs k opts) =
     kind_prefix h k (of_nat (length (elements vs))) @ concat (map (value_wire h) (elements vs))"
| "entry_wire h (EStruct n opts es) = concat (map (entry_wire h) es)"

fun entry_plan :: "entry \<Rightarrow> value_plan list" where
  "entry_plan (EScalar n v opts) =
     [\<lparr>vp_kind = value_kind_of v, vp_arrayKind = ArrayScalar, vp_arrayCount = 0\<rparr>]"
| "entry_plan (EArray n vs k opts) =
     [\<lparr>vp_kind = value_kind_of (sample vs), vp_arrayKind = k,
       vp_arrayCount = (if k = ArrayFixed then of_nat (length (elements vs)) else 0)\<rparr>]"
| "entry_plan (EStruct n opts es) = concat (map entry_plan es)"


section \<open>The calls on the specification\<close>

lemma sp_bytes_Nil [simp]: "sp_bytes [] s = s"
  by (simp add: sp_bytes_def)

lemma sp_bytes_bytes [simp]: "sp_bytes q (sp_bytes p s) = sp_bytes (p @ q) s"
  by (simp add: sp_bytes_def)

lemma sp_add_bytes: "sp_add x (sp_bytes p s) = sp_bytes p (sp_add x s)"
  by (simp add: sp_add_def sp_bytes_def split: prod.split)

lemma sp_begin_bytes: "sp_begin n t (sp_bytes p s) = sp_bytes p (sp_begin n t s)"
  by (simp add: sp_begin_def sp_bytes_def)

lemma sp_end_bytes: "sp_end (sp_bytes p s) = sp_bytes p (sp_end s)"
  by (simp add: sp_end_def sp_bytes_def sp_add_def split: prod.split)

lemma spec_calls_append: "spec_calls h (cs @ ds) s = spec_calls h ds (spec_calls h cs s)"
  by (induction cs arbitrary: s) auto

lemma run_calls_append: "run_calls h (cs @ ds) b = bindR (run_calls h cs b) (run_calls h ds)"
proof (induction cs arbitrary: b)
  case (Cons c cs)
  then show ?case by (cases "exec_call h c b") simp_all
qed simp

lemma fold_sp_add_inside:
  "sp_open s = os @ [(n, t, kids)] \<Longrightarrow>
   fold sp_add xs s = s\<lparr>sp_open := os @ [(n, t, kids @ xs)]\<rparr>"
  by (induction xs arbitrary: s kids) (simp_all add: sp_add_def)

lemma fold_sp_add_bytes: "fold sp_add xs (sp_bytes p s) = sp_bytes p (fold sp_add xs s)"
  by (induction xs arbitrary: s) (simp_all add: sp_add_bytes)

lemma spec_entries:
  assumes "\<And>e s. e \<in> set es \<Longrightarrow>
      spec_calls h (entry_calls e) s = sp_bytes (entry_wire h e) (sp_add (entry_tree h e) s)"
  shows "spec_calls h (concat (map entry_calls es)) s
    = sp_bytes (concat (map (entry_wire h) es)) (fold sp_add (map (entry_tree h) es) s)"
  using assms
  by (induction es arbitrary: s) (simp_all add: spec_calls_append fold_sp_add_bytes)

lemma spec_entry: "spec_calls h (entry_calls e) s = sp_bytes (entry_wire h e) (sp_add (entry_tree h e) s)"
proof (induction e arbitrary: s)
  case (EStruct n opts es)
  let ?s = "sp_begin n (option_tag opts) s"
  have opened: "sp_open ?s = sp_open s @ [(n, option_tag opts, [])]" by (simp add: sp_begin_def)
  have "sp_end (fold sp_add (map (entry_tree h) es) ?s) = sp_add (entry_tree h (EStruct n opts es)) s"
    unfolding fold_sp_add_inside [OF opened] by (simp add: sp_end_def sp_begin_def)
  then show ?case
    using spec_entries [OF EStruct] by (simp add: spec_calls_append sp_end_bytes)
qed (simp_all add: Let_def)


section \<open>The builder accepts what the schema and the binding accept\<close>

definition options_ok :: "u8 \<Rightarrow> field_options list \<Rightarrow> bool" where
  "options_ok d opts \<longleftrightarrow> (\<exists>opt. resolveOptions d opts = Inr opt)"

fun entry_ok :: "entry \<Rightarrow> bool" where
  "entry_ok (EScalar n v opts) \<longleftrightarrow> value_ok v \<and> options_ok (value_format v) opts"
| "entry_ok (EArray n vs k opts) \<longleftrightarrow>
     (\<forall>v\<in>set (elements vs). value_ok v) \<and> length (elements vs) \<le> maxCount \<and>
     (k = ArrayFixed \<or> k = ArrayVariable) \<and> (k = ArrayFixed \<longrightarrow> elements vs \<noteq> []) \<and>
     options_ok (value_format (sample vs)) opts"
| "entry_ok (EStruct n opts es) \<longleftrightarrow> (\<forall>e\<in>set es. entry_ok e)"

definition room :: "event_spec \<Rightarrow> nat \<Rightarrow> bool" where
  "room s k \<longleftrightarrow> (\<forall>os n t kids. sp_open s = os @ [(n, t, kids)] \<longrightarrow> length kids + k \<le> 127)"

lemma canAddChild_ok:
  assumes "refines h s b" "room s 1"
  shows "canAddChild b = Inr ()"
proof (cases s rule: spec_cases)
  case closed
  with refinesD(5) [OF assms(1)] show ?thesis by (simp add: canAddChild_def)
next
  case (inside os n t kids)
  then have "length kids \<le> 126" using assms(2) by (auto simp: room_def)
  then have "(of_nat (length kids) :: u8) \<noteq> 127" using of_nat_lt_127 [of "length kids"] by auto
  with refinesD(5) [OF assms(1)] inside show ?thesis
    by (simp add: canAddChild_def last_frames_snoc)
qed

lemma addField_ok:
  assumes "refines h s b" "room s 1" "valid_name n" "e \<noteq> 0" "e \<noteq> 1" "e AND NOT EncodingValueMask = 0"
    "\<forall>x. k \<noteq> ArrayOther x" "k = ArrayFixed \<longrightarrow> c \<noteq> 0"
  shows "\<exists>b'. addField h n e k c data opt b = Inr b'"
  using assms(3-8) refinesD(2) [OF assms(1)] canAddChild_ok [OF assms(1,2)]
  by (cases k) (auto simp: addField_def requireActive_def valid_name_def Let_def)

lemma counted_all_ok:
  "(\<And>x. x \<in> set xs \<Longrightarrow> f x = Inr (g x)) \<Longrightarrow> counted_all f xs = Inr (concat (map g xs))"
  by (induction xs) simp_all

lemma counted_wires:
  "\<forall>x\<in>set xs. utf8_valid (to_bytes x) \<and> length x \<le> 65535 \<Longrightarrow>
     counted_all (\<lambda>value. if \<not> utf8_valid (to_bytes value) then fail ErrInvalidValue
                          else countedBytes h (to_bytes value)) xs
     = Inr (concat (map (\<lambda>v. native16 h (of_nat (length v)) @ to_bytes v) xs))"
  "\<forall>x\<in>set ys. length x \<le> 65535 \<Longrightarrow>
     counted_all (countedUint16 h) ys
     = Inr (concat (map (\<lambda>v. native16 h (of_nat (length v)) @ concat (map (native16 h) v)) ys))"
  "\<forall>x\<in>set zs. length x \<le> 65535 \<Longrightarrow>
     counted_all (countedBytes h) zs = Inr (concat (map (\<lambda>v. native16 h (of_nat (length v)) @ v) zs))"
  by (rule counted_all_ok, simp add: countedBytes_def countedUint16_def not_less)+

lemma builder_array_eq:
  assumes "\<forall>v\<in>set (elements vs). value_ok v"
  shows "builder_array h n vs k opts b = addArray h n (value_encoding h (sample vs)) (length (elements vs))
           (concat (map (value_wire h) (elements vs))) k (value_format (sample vs)) opts b"
  using assms by (cases vs) (simp_all add: builder_array_defs comp_def counted_wires)

lemma call_scalar_ok:
  assumes "refines h s b" "room s 1" "wf_tree (length (sp_open s)) (entry_tree h (EScalar n v opts))"
    "entry_ok (EScalar n v opts)"
  shows "\<exists>b'. builder_scalar h n v opts b = Inr b'"
proof -
  obtain opt where "resolveOptions (value_format v) opts = Inr opt"
    using assms(4) by (auto simp: options_ok_def)
  moreover have "\<exists>b'. addField h n (value_encoding h v) ArrayScalar 0 (value_wire h v) opt b = Inr b'"
    using assms(3) by (intro addField_ok [OF assms(1,2)]) auto
  ultimately show ?thesis
    using assms(4) by (simp add: builder_scalar_wire addScalar_def)
qed

lemma call_array_ok:
  assumes "refines h s b" "room s 1" "wf_tree (length (sp_open s)) (entry_tree h (EArray n vs k opts))"
    "entry_ok (EArray n vs k opts)"
  shows "\<exists>b'. builder_array h n vs k opts b = Inr b'"
proof -
  obtain opt where "resolveOptions (value_format (sample vs)) opts = Inr opt"
    using assms(4) by (auto simp: options_ok_def)
  moreover have "\<exists>b'. addField h n (value_encoding h (sample vs)) k (of_nat (length (elements vs)))
      (concat (map (value_wire h) (elements vs))) opt b = Inr b'"
    using assms(3) by (intro addField_ok [OF assms(1,2)]) (auto simp: kind_count_def)
  ultimately show ?thesis
    using assms(4) by (auto simp: builder_array_eq addArray_def)
qed

lemma BeginStruct_ok:
  assumes "refines h s b" "room s 1" "valid_name n" "length (sp_open s) < 8"
  shows "\<exists>b'. BeginStruct h n t b = Inr b'"
  using assms(3,4) refinesD(2,5) [OF assms(1)] canAddChild_ok [OF assms(1,2)]
  by (simp add: BeginStruct_def requireActive_def valid_name_def Let_def)

lemma entries_run:
  assumes IH: "\<And>e s b. e \<in> set es \<Longrightarrow> refines h s b \<Longrightarrow> room s 1 \<Longrightarrow>
      wf_tree (length (sp_open s)) (entry_tree h e) \<Longrightarrow> entry_ok e \<Longrightarrow>
      \<exists>b'. run_calls h (entry_calls e) b = Inr b'"
    and "refines h s b" "room s (length es)" "\<forall>e\<in>set es. wf_tree (length (sp_open s)) (entry_tree h e)"
    "\<forall>e\<in>set es. entry_ok e"
  shows "\<exists>b'. run_calls h (concat (map entry_calls es)) b = Inr b'"
  using assms
proof (induction es arbitrary: s b)
  case (Cons e es)
  have "room s 1" using Cons.prems(3) by (auto simp: room_def)
  then obtain b1 where b1: "run_calls h (entry_calls e) b = Inr b1"
    using Cons.prems by (meson list.set_intros(1))
  let ?s = "sp_bytes (entry_wire h e) (sp_add (entry_tree h e) s)"
  have r: "refines h ?s b1" using refines_calls [OF Cons.prems(2) b1] by (simp add: spec_entry)
  have len: "length (sp_open (sp_add (entry_tree h e) s)) = length (sp_open s)"
    by (cases s rule: spec_cases) (simp_all add: sp_add_def)
  have "room ?s (length es)"
    using Cons.prems(3) by (cases s rule: spec_cases) (auto simp: room_def sp_add_def)
  then have "\<exists>b'. run_calls h (concat (map entry_calls es)) b1 = Inr b'"
    using Cons.prems(1,4,5) by (intro Cons.IH [OF _ r]) (auto simp: len)
  with b1 show ?case by (simp add: run_calls_append)
qed simp

lemma entry_run:
  "refines h s b \<Longrightarrow> room s 1 \<Longrightarrow> wf_tree (length (sp_open s)) (entry_tree h e) \<Longrightarrow> entry_ok e \<Longrightarrow>
   \<exists>b'. run_calls h (entry_calls e) b = Inr b'"
proof (induction e arbitrary: s b)
  case (EScalar n v opts)
  from call_scalar_ok [OF this] show ?case by auto
next
  case (EArray n vs k opts)
  from call_array_ok [OF this] show ?case by auto
next
  case (EStruct n opts es)
  have wf: "valid_name n" "length (sp_open s) < 8" "es \<noteq> []" "length es \<le> 127"
    "\<forall>e\<in>set es. wf_tree (Suc (length (sp_open s))) (entry_tree h e)"
    using EStruct.prems(3) by auto
  obtain b1 where b1: "BeginStruct h n (option_tag opts) b = Inr b1"
    using BeginStruct_ok [OF EStruct.prems(1,2) wf(1,2)] by blast
  let ?s = "sp_begin n (option_tag opts) s"
  note r1 = refines_BeginStruct [OF EStruct.prems(1) b1]
  have opened: "sp_open ?s = sp_open s @ [(n, option_tag opts, [])]" by (simp add: sp_begin_def)
  have "room ?s (length es)" using wf(4) by (simp add: room_def opened)
  then obtain b2 where b2: "run_calls h (concat (map entry_calls es)) b1 = Inr b2"
    using entries_run [OF EStruct.IH r1] wf(5) EStruct.prems(4) opened by fastforce
  have "spec_calls h (concat (map entry_calls es)) ?s
      = sp_bytes (concat (map (entry_wire h) es))
          (?s\<lparr>sp_open := sp_open s @ [(n, option_tag opts, map (entry_tree h) es)]\<rparr>)"
    using spec_entries [OF spec_entry] fold_sp_add_inside [OF opened] by simp
  then have "sp_open (spec_calls h (concat (map entry_calls es)) ?s)
      = sp_open s @ [(n, option_tag opts, map (entry_tree h) es)]" by simp
  from EndStruct_spec [OF refines_calls [OF r1 b2] this] wf(3)
  obtain b3 where "EndStruct b2 = Inr b3" by simp
  with b1 b2 show ?case by (simp add: run_calls_append)
qed


section \<open>The schema encodes the description's tree\<close>

lemma scalar_def_eq:
  "scalar_def h n v opts = scalarField n (value_kind_of v) (value_encoding h v) (value_format v) opts"
  by (cases v) (simp_all add: Int8Field_def Uint8Field_def Int16Field_def Uint16Field_def Int32Field_def
      Uint32Field_def Int64Field_def Uint64Field_def BoolField_def Float32Field_def Float64Field_def
      UintptrField_def UUIDField_def IPv4Field_def IPv6Field_def PortField_def StringField_def
      UTF16Field_def BinaryField_def Let_def)

lemma value_kind_of_simps [simp]: "value_kind_of v \<noteq> valueInvalid" "value_kind_of v \<noteq> valueStruct"
  by (cases v; simp)+

lemma appendFieldMetadata_ser:
  "appendFieldMetadata h n e opt k c m
     = m @ ser_field h (Leaf n e (opt_Format opt) (opt_Tag opt) k (kind_count k c))"
  by (auto simp: appendFieldMetadata_def Let_def leaf_tail_def kind_flag_def chain_if_def tag_bytes_def
      kind_count_def or.assoc split: array_kind.split)

lemma appendStructHead_ser: "appendStructHead h n c t m = m @ struct_head h n t c"
  by (simp add: appendStructHead_def Let_def struct_head_def chain_if_def tag_bytes_def)

text \<open>What \<open>NewSchema\<close> guarantees of one entry it accepted.\<close>

definition schema_adds :: "host \<Rightarrow> nat \<Rightarrow> entry list \<Rightarrow> schema_state \<Rightarrow> schema_state \<Rightarrow> bool" where
  "schema_adds h d es s s' \<longleftrightarrow>
     fst s' = fst s @ ser_fields h (map (entry_tree h) es) \<and>
     fst (snd s') = fst (snd s) @ concat (map entry_plan es) \<and>
     (\<forall>e\<in>set es. wf_tree d (entry_tree h e))"

fun shape_ok :: "entry \<Rightarrow> bool" where
  "shape_ok (EScalar n v opts) \<longleftrightarrow> options_ok (value_format v) opts"
| "shape_ok (EArray n vs k opts) \<longleftrightarrow>
     (k = ArrayFixed \<or> k = ArrayVariable) \<and> options_ok (value_format (sample vs)) opts"
| "shape_ok (EStruct n opts es) \<longleftrightarrow> (\<forall>e\<in>set es. shape_ok e)"

lemma schema_scalar:
  assumes "appendDefinition h d (entry_def h (EScalar n v opts)) s = Inr s'"
  shows "schema_adds h d [EScalar n v opts] s s' \<and> shape_ok (EScalar n v opts)"
proof -
  obtain m p mp where s: "s = (m, p, mp)" by (cases s) auto
  from assms obtain opt where opt: "resolveOptions (value_format v) opts = Inr opt"
    by (auto simp: s scalar_def_eq scalarField_def bindR_eq_Inr split: if_splits)
  show ?thesis
    using assms resolveOptions_result [OF opt] resolveOptions_mask [OF opt] opt
    by (auto simp: s scalar_def_eq scalarField_def bindR_eq_Inr schema_adds_def appendFieldMetadata_ser
        kind_count_def options_ok_def valid_name_def split: if_splits)
qed

lemma schema_array:
  assumes "appendDefinition h d (entry_def h (EArray n vs k opts)) s = Inr s'"
  shows "schema_adds h d [EArray n vs k opts] s s' \<and> shape_ok (EArray n vs k opts)"
proof -
  obtain m p mp where s: "s = (m, p, mp)" by (cases s) auto
  from assms obtain opt where opt: "resolveOptions (value_format (sample vs)) opts = Inr opt"
    by (auto simp: s scalar_def_eq scalarField_def ArrayField_def bindR_eq_Inr split: if_splits)
  show ?thesis
    using assms resolveOptions_result [OF opt] resolveOptions_mask [OF opt] opt
    by (auto simp: s scalar_def_eq scalarField_def ArrayField_def bindR_eq_Inr schema_adds_def
        appendFieldMetadata_ser kind_count_def options_ok_def valid_name_def checkArrayShape_def
        split: if_splits array_kind.splits)
qed

lemma schema_entries:
  assumes "\<And>e s s'. e \<in> set es \<Longrightarrow> appendDefinition h d (entry_def h e) s = Inr s' \<Longrightarrow>
      schema_adds h d [e] s s' \<and> shape_ok e"
    "appendDefinitions h d (map (entry_def h) es) s = Inr s'"
  shows "schema_adds h d es s s' \<and> (\<forall>e\<in>set es. shape_ok e)"
  using assms
proof (induction es arbitrary: s)
  case Nil
  then show ?case by (simp add: schema_adds_def)
next
  case (Cons e es)
  from Cons.prems(2) obtain s1 where s1: "appendDefinition h d (entry_def h e) s = Inr s1"
    "appendDefinitions h d (map (entry_def h) es) s1 = Inr s'" by (auto simp: bindR_eq_Inr)
  from Cons.prems(1) [OF _ s1(1)] Cons.IH [OF _ s1(2)] Cons.prems(1) show ?case
    by (auto simp: schema_adds_def)
qed

lemma schema_entry:
  "appendDefinition h d (entry_def h e) s = Inr s' \<Longrightarrow> schema_adds h d [e] s s' \<and> shape_ok e"
proof (induction e arbitrary: d s s')
  case (EStruct n opts es)
  obtain m p mp where s: "s = (m, p, mp)" by (cases s) auto
  from EStruct.prems obtain opt where opt: "resolveOptions 0 opts = Inr opt" "opt_Format opt = 0"
    and c: "valid_name n" "d < 8" "es \<noteq> []" "length es \<le> 127"
    and kids: "appendDefinitions h (d + 1) (map (entry_def h) es)
        (m @ struct_head h n (opt_Tag opt) (length es), p, mp) = Inr s'"
    by (auto simp: s StructField_def bindR_eq_Inr appendStructHead_ser valid_name_def not_le not_less
        split: if_splits)
  have tg: "opt_Tag opt = option_tag opts" using resolveOptions_result [OF opt(1)] by simp
  from schema_entries [OF EStruct.IH kids] have k: "schema_adds h (d + 1) es
      (m @ struct_head h n (opt_Tag opt) (length es), p, mp) s'" "\<forall>e\<in>set es. shape_ok e" by auto
  then show ?case using c by (auto simp: schema_adds_def s tg)
qed (use schema_scalar schema_array in blast)+


section \<open>The binding appends the description's bytes\<close>

definition bd_ok :: "binding \<Rightarrow> bool" where
  "bd_ok b \<longleftrightarrow> bd_len b \<le> length (bd_buf b)"

lemma put_at_end:
  "length pre = i \<Longrightarrow> length xs = length bs \<Longrightarrow> put_at (pre @ xs @ rest) i bs = pre @ bs @ rest"
  by (simp add: put_at_def)

text \<open>The new part of the slice, whatever bytes it exposes, is overwritten completely.\<close>

lemma bind_value_payload:
  assumes "bind_value h kind arr cnt (length data) data b = Inr b'" "bd_ok b" "bd_schema b = Some sc"
  defines "plan \<equiv> sc_plan sc ! bd_index b"
  shows "binding_payload b' = binding_payload b @ kind_prefix h (vp_arrayKind plan) (of_nat cnt) @ data"
    and "bd_ok b'" "bd_schema b' = Some sc" "bd_index b' = Suc (bd_index b)"
    and "bd_index b < length (sc_plan sc)" "vp_kind plan = kind" "arr = (vp_arrayKind plan \<noteq> ArrayScalar)"
    and "arr \<Longrightarrow> cnt \<le> maxCount" "arr \<Longrightarrow> vp_arrayKind plan = ArrayFixed \<Longrightarrow> cnt = unat (vp_arrayCount plan)"
proof -
  have c: "check kind arr cnt b = Inr ()" using assms(1) by (auto simp: bind_value_def begin_value_def bindR_eq_Inr)
  then show facts: "bd_index b < length (sc_plan sc)" "vp_kind plan = kind" "arr = (vp_arrayKind plan \<noteq> ArrayScalar)"
    "arr \<Longrightarrow> cnt \<le> maxCount" "arr \<Longrightarrow> vp_arrayKind plan = ArrayFixed \<Longrightarrow> cnt = unat (vp_arrayCount plan)"
    by (auto simp: check_def assms(3) plan_def index_def split: if_splits)
  define pre where "pre = kind_prefix h (vp_arrayKind plan) (of_nat cnt)"
  define old where "old = binding_payload b"
  define buf where "buf = (if bd_len b + length pre + length data > length (bd_buf b)
      then old @ replicate (length pre + length data) 0 else bd_buf b)"
  have old: "length old = bd_len b" using assms(2) by (simp add: old_def binding_payload_def bd_ok_def)
  have "\<exists>xs ys rest. buf = old @ xs @ ys @ rest \<and> length xs = length pre \<and> length ys = length data"
  proof (cases "bd_len b + length pre + length data > length (bd_buf b)")
    case True
    then have "buf = old @ replicate (length pre) 0 @ replicate (length data) 0 @ []"
      by (simp add: buf_def replicate_add)
    then show ?thesis by (metis length_replicate)
  next
    case False
    let ?t = "drop (bd_len b) (bd_buf b)"
    have "buf = old @ take (length pre) ?t @ take (length data) (drop (length pre) ?t)
        @ drop (length data) (drop (length pre) ?t)"
      using False by (simp only: append_take_drop_id buf_def old_def binding_payload_def if_False)
    moreover have "length (take (length pre) ?t) = length pre"
      "length (take (length data) (drop (length pre) ?t)) = length data" using False by auto
    ultimately show ?thesis by blast
  qed
  then obtain xs ys rest where buf: "buf = old @ xs @ ys @ rest" "length xs = length pre" "length ys = length data"
    by blast
  have len: "length pre = (if vp_arrayKind plan = ArrayVariable then 2 else 0)"
    by (simp add: pre_def kind_prefix_def)
  have "b' = b\<lparr>bd_buf := put_at (if length pre \<noteq> 0 then put_at buf (bd_len b) (native16 h (of_nat cnt)) else buf)
        (bd_len b + length pre) data, bd_len := bd_len b + length pre + length data, bd_index := bd_index b + 1\<rparr>"
    using assms(1) c facts(1)
    unfolding bind_value_def begin_value_def Let_def assms(3) len buf_def old_def plan_def
    by (auto simp: index_def len bindR_eq_Inr split: if_splits)
  moreover have "put_at (if length pre \<noteq> 0 then put_at buf (bd_len b) (native16 h (of_nat cnt)) else buf)
      (bd_len b + length pre) data = old @ pre @ data @ rest"
    using buf old put_at_end [of old "bd_len b" xs pre "ys @ rest"]
      put_at_end [of "old @ pre" "bd_len b + length pre" ys data rest]
    by (auto simp: pre_def kind_prefix_def split: if_splits)
  ultimately show "binding_payload b' = binding_payload b @ kind_prefix h (vp_arrayKind plan) (of_nat cnt) @ data"
    "bd_ok b'" "bd_schema b' = Some sc" "bd_index b' = Suc (bd_index b)"
    using old assms(3) by (simp_all add: binding_payload_def bd_ok_def pre_def old_def)
qed

lemma counted_size_result:
  "counted_size ok len sz vs = Inr n \<Longrightarrow> n = sz + sum_list (map len vs) \<and> (\<forall>v\<in>set vs. ok v = Inr ())"
proof (induction vs arbitrary: sz)
  case (Cons v vs)
  then have "ok v = Inr ()" "counted_size ok len (sz + len v) vs = Inr n"
    by (auto simp: bindR_eq_Inr split: if_splits)
  with Cons.IH show ?case by fastforce
qed simp

lemmas binding_scalar_defs =
  Binding_Int8_def Binding_Uint8_def Binding_Int16_def Binding_Uint16_def Binding_Int32_def
  Binding_Uint32_def Binding_Int64_def Binding_Uint64_def Binding_Bool_def Binding_Float32_def
  Binding_Float64_def Binding_Uintptr_def Binding_UUID_def Binding_IPv4_def Binding_IPv6_def
  Binding_Port_def Binding_String_def Binding_UTF16_def Binding_Binary_def

lemmas binding_array_defs =
  Binding_Int8Array_def Binding_Uint8Array_def Binding_Int16Array_def Binding_Uint16Array_def
  Binding_Int32Array_def Binding_Uint32Array_def Binding_Int64Array_def Binding_Uint64Array_def
  Binding_BoolArray_def Binding_Float32Array_def Binding_Float64Array_def Binding_UintptrArray_def
  Binding_UUIDArray_def Binding_IPv4Array_def Binding_IPv6Array_def Binding_PortArray_def

lemma bind_scalar_wire:
  assumes "bind_scalar h v b = Inr b'" "typed v"
  shows "bind_value h (value_kind_of v) False 1 (length (value_wire h v)) (value_wire h v) b = Inr b'"
    and "value_ok v"
  using assms
  by (cases v; auto simp: binding_scalar_defs Let_def bindR_eq_Inr length_concat_const [where k = 2]
      mult.commute split: if_splits)+

lemma wire_lengths:
  "length (concat (map (native16 h) ws)) = length ws * 2"
  "length (concat (map (put16 BigEndian) ws)) = length ws * 2"
  "length (concat (map (native32 h) xs)) = length xs * 4"
  "length (concat (map (native64 h) ys)) = length ys * 8"
  "\<forall>z\<in>set zs. length z = k \<Longrightarrow> length (concat zs) = length zs * k"
  using length_concat_const [where f = "\<lambda>z. z" and xs = zs]
  by (simp_all add: length_concat_const)

lemma bind_array_fixed:
  assumes "bind_array h vs b = Inr b'" "\<forall>v\<in>set (elements vs). typed v"
    "\<nexists>xs. vs = AString xs \<or> (\<exists>ys. vs = AUTF16 ys) \<or> (\<exists>zs. vs = ABinary zs)"
  shows "bind_value h (value_kind_of (sample vs)) True (length (elements vs))
           (length (concat (map (value_wire h) (elements vs)))) (concat (map (value_wire h) (elements vs))) b
         = Inr b' \<and> (\<forall>v\<in>set (elements vs). value_ok v)"
  using assms
  by (cases vs) (auto simp: binding_array_defs Let_def comp_def wire_lengths wire_lengths(5) [where k = 16]
      wire_lengths(5) [where k = 4] length_concat_const [where k = 8] length_concat_const [where k = 4]
      split: if_splits)

lemma bind_array_counted:
  "bind_array h (AString xs) b = Inr b' \<Longrightarrow>
     bind_value h valueString True (length xs) (length (concat (map (\<lambda>v. native16 h (of_nat (length v)) @ to_bytes v) xs)))
       (concat (map (\<lambda>v. native16 h (of_nat (length v)) @ to_bytes v) xs)) b = Inr b'
     \<and> (\<forall>x\<in>set xs. value_ok (VString x))"
  "bind_array h (AUTF16 ys) b = Inr b' \<Longrightarrow>
     bind_value h valueUTF16 True (length ys)
       (length (concat (map (\<lambda>v. native16 h (of_nat (length v)) @ concat (map (native16 h) v)) ys)))
       (concat (map (\<lambda>v. native16 h (of_nat (length v)) @ concat (map (native16 h) v)) ys)) b = Inr b'
     \<and> (\<forall>y\<in>set ys. value_ok (VUTF16 y))"
  "bind_array h (ABinary zs) b = Inr b' \<Longrightarrow>
     bind_value h valueBinary True (length zs) (length (concat (map (\<lambda>v. native16 h (of_nat (length v)) @ v) zs)))
       (concat (map (\<lambda>v. native16 h (of_nat (length v)) @ v) zs)) b = Inr b'
     \<and> (\<forall>z\<in>set zs. value_ok (VBinary z))"
  by (auto simp: Binding_StringArray_def Binding_UTF16Array_def Binding_BinaryArray_def bindR_eq_Inr
      length_concat comp_def sum_list_triv wire_lengths add.commute not_less dest!: counted_size_result split: if_splits)

lemma bind_array_wire:
  assumes "bind_array h vs b = Inr b'" "\<forall>v\<in>set (elements vs). typed v"
  shows "bind_value h (value_kind_of (sample vs)) True (length (elements vs))
           (length (concat (map (value_wire h) (elements vs)))) (concat (map (value_wire h) (elements vs))) b
         = Inr b' \<and> (\<forall>v\<in>set (elements vs). value_ok v)"
proof (cases "\<exists>xs. vs = AString xs \<or> (\<exists>ys. vs = AUTF16 ys) \<or> (\<exists>zs. vs = ABinary zs)")
  case True
  then show ?thesis using assms(1) bind_array_counted by (auto simp: comp_def)
next
  case False
  then show ?thesis using bind_array_fixed [OF assms] by blast
qed

text \<open>The entries of a description, against the rest of the plan.\<close>

fun entry_typed :: "entry \<Rightarrow> bool" where
  "entry_typed (EScalar n v opts) \<longleftrightarrow> typed v"
| "entry_typed (EArray n vs k opts) \<longleftrightarrow> (\<forall>v\<in>set (elements vs). typed v)"
| "entry_typed (EStruct n opts es) \<longleftrightarrow> (\<forall>e\<in>set es. entry_typed e)"

definition binds_add :: "host \<Rightarrow> schema \<Rightarrow> value_plan list \<Rightarrow> entry list \<Rightarrow> binding \<Rightarrow> binding \<Rightarrow> bool" where
  "binds_add h sc ps es b b' \<longleftrightarrow>
     bd_ok b' \<and> bd_schema b' = Some sc \<and> drop (bd_index b') (sc_plan sc) = ps \<and>
     bd_index b' = bd_index b + length (concat (map entry_plan es)) \<and>
     binding_payload b' = binding_payload b @ concat (map (entry_wire h) es) \<and> (\<forall>e\<in>set es. entry_ok e)"

lemma plan_head: "drop i xs = p # ps \<Longrightarrow> xs ! i = p \<and> drop (Suc i) xs = ps"
  by (metis Cons_nth_drop_Suc drop_eq_Nil linorder_not_less list.distinct(1) list.inject)

lemma run_binds_append: "run_binds h (as @ cs) b = bindR (run_binds h as b) (run_binds h cs)"
proof (induction as arbitrary: b)
  case (Cons a as)
  then show ?case by (cases "bind_call h a b") simp_all
qed simp

lemma binds_scalar:
  assumes "run_binds h (entry_args (EScalar n v opts)) b = Inr b'" "bd_ok b" "bd_schema b = Some sc"
    "drop (bd_index b) (sc_plan sc) = entry_plan (EScalar n v opts) @ ps"
    "entry_typed (EScalar n v opts)" "shape_ok (EScalar n v opts)"
  shows "binds_add h sc ps [EScalar n v opts] b b'"
proof -
  have b: "bind_scalar h v b = Inr b'" using assms(1) by (auto simp: bindR_eq_Inr)
  note w = bind_scalar_wire [OF b assms(5) [simplified]]
  note p = plan_head [OF assms(4) [simplified]]
  from bind_value_payload [OF w(1) assms(2,3)] p w(2) assms(6) show ?thesis
    by (simp add: binds_add_def kind_prefix_def)
qed

lemma binds_array:
  assumes "run_binds h (entry_args (EArray n vs k opts)) b = Inr b'" "bd_ok b" "bd_schema b = Some sc"
    "drop (bd_index b) (sc_plan sc) = entry_plan (EArray n vs k opts) @ ps"
    "entry_typed (EArray n vs k opts)" "shape_ok (EArray n vs k opts)"
    "wf_tree d (entry_tree h (EArray n vs k opts))"
  shows "binds_add h sc ps [EArray n vs k opts] b b'"
proof -
  have b: "bind_array h vs b = Inr b'" using assms(1) by (auto simp: bindR_eq_Inr)
  note w = bind_array_wire [OF b assms(5) [simplified]]
  note p = plan_head [OF assms(4) [simplified]]
  note r = bind_value_payload [OF w [THEN conjunct1] assms(2,3)]
  have "k = ArrayFixed \<Longrightarrow> elements vs \<noteq> []"
    using assms(7) by (auto simp: kind_count_def)
  with r p w assms(6) show ?thesis by (auto simp: binds_add_def)
qed

lemma binds_entries:
  assumes "\<And>e b b' ps. e \<in> set es \<Longrightarrow> run_binds h (entry_args e) b = Inr b' \<Longrightarrow> bd_ok b \<Longrightarrow>
      bd_schema b = Some sc \<Longrightarrow> drop (bd_index b) (sc_plan sc) = entry_plan e @ ps \<Longrightarrow>
      binds_add h sc ps [e] b b'"
    "run_binds h (concat (map entry_args es)) b = Inr b'" "bd_ok b" "bd_schema b = Some sc"
    "drop (bd_index b) (sc_plan sc) = concat (map entry_plan es) @ ps"
  shows "binds_add h sc ps es b b'"
  using assms
proof (induction es arbitrary: b)
  case Nil
  then show ?case by (simp add: binds_add_def)
next
  case (Cons e es)
  from Cons.prems(2) obtain b1 where b1: "run_binds h (entry_args e) b = Inr b1"
    "run_binds h (concat (map entry_args es)) b1 = Inr b'" by (auto simp: run_binds_append bindR_eq_Inr)
  from Cons.prems(1) [OF _ b1(1) Cons.prems(3,4)] Cons.prems(5)
  have one: "binds_add h sc (concat (map entry_plan es) @ ps) [e] b b1" by simp
  have "binds_add h sc ps es b1 b'"
    using one Cons.prems(1) b1(2) by (intro Cons.IH) (auto simp: binds_add_def)
  with one show ?case by (auto simp: binds_add_def)
qed

lemma binds_entry:
  "run_binds h (entry_args e) b = Inr b' \<Longrightarrow> bd_ok b \<Longrightarrow> bd_schema b = Some sc \<Longrightarrow>
   drop (bd_index b) (sc_plan sc) = entry_plan e @ ps \<Longrightarrow> entry_typed e \<Longrightarrow> shape_ok e \<Longrightarrow>
   wf_tree d (entry_tree h e) \<Longrightarrow> binds_add h sc ps [e] b b'"
proof (induction e arbitrary: b b' ps d)
  case (EStruct n opts es)
  have "binds_add h sc ps es b b'"
    by (rule binds_entries [where b = b]) (use EStruct in auto)
  then show ?case by (auto simp: binds_add_def)
qed (use binds_scalar binds_array in blast)+

text \<open>A binding never outgrows an event.\<close>

definition fits :: "schema \<Rightarrow> binding \<Rightarrow> bool" where
  "fits sc b \<longleftrightarrow> bd_schema b = Some sc \<and> length (sc_metadata sc) + bd_len b \<le> maxMetadataPayload"

lemma bind_value_fits: "bind_value h kind array count n data b = Inr b' \<Longrightarrow> fits sc b \<Longrightarrow> fits sc b'"
  by (auto simp: bind_value_def begin_value_def bindR_eq_Inr Let_def fits_def split: if_splits option.splits)

lemma bind_call_fits:
  assumes "bind_call h a b = Inr b'" "fits sc b"
  shows "fits sc b'"
proof (cases a)
  case (BScalar v)
  with assms show ?thesis
    by (cases v) (auto simp: binding_scalar_defs bindR_eq_Inr split: if_splits intro: bind_value_fits)
next
  case (BArray vs)
  with assms show ?thesis
    by (cases vs) (auto simp: binding_array_defs Binding_StringArray_def Binding_UTF16Array_def
        Binding_BinaryArray_def Let_def bindR_eq_Inr split: if_splits intro: bind_value_fits)
qed

lemma binds_fit: "run_binds h as b = Inr b' \<Longrightarrow> fits sc b \<Longrightarrow> fits sc b'"
  by (induction as arbitrary: b) (auto simp: bindR_eq_Inr intro: bind_call_fits)

lemma schema_binding_builder:
  assumes "NewSchema h addr options (map (entry_def h) es) = Inr sc"
    "run_binds h (concat (map entry_args es)) (NewBinding (Some sc) storage) = Inr bd"
    "\<forall>e\<in>set es. entry_typed e"
  shows "\<exists>b0 b. NewBuilder (so_Name options) = Inr b0 \<and> run_calls h (concat (map entry_calls es)) b0 = Inr b
    \<and> b_metadata b = sc_metadata sc \<and> b_payload b = binding_payload bd \<and> b_structs b = []
    \<and> Complete bd = Inr () \<and> b_active b \<and> bd_schema bd = Some sc \<and> so_Name options \<noteq> [] \<and> sc_options sc = options
    \<and> length (b_metadata b) \<le> maxCount \<and> length (b_metadata b) + length (b_payload b) \<le> maxMetadataPayload"
proof -
  obtain m plan mp where name: "validateMetadataName (so_Name options) = Inr ()"
    and app: "appendDefinitions h 0 (map (entry_def h) es) (to_bytes (so_Name options) @ [0], [], 0) = Inr (m, plan, mp)"
    and sc: "sc_metadata sc = m" "sc_plan sc = plan"
    using assms(1) by (auto simp: NewSchema_def bindR_eq_Inr split: if_splits)
  have s: "m = to_bytes (so_Name options) @ [0] @ ser_fields h (map (entry_tree h) es)"
      "plan = concat (map entry_plan es)" "\<forall>e\<in>set es. wf_tree 0 (entry_tree h e)" "\<forall>e\<in>set es. shape_ok e"
    using schema_entries [OF schema_entry app] by (auto simp: schema_adds_def)
  have bd: "binds_add h sc [] es (NewBinding (Some sc) storage) bd"
    by (rule binds_entries [OF binds_entry assms(2)])
       (use assms(3) s sc in \<open>auto simp: NewBinding_def bd_ok_def\<close>)
  obtain b0 where b0: "NewBuilder (so_Name options) = Inr b0"
    using name by (auto simp: NewBuilder_def Reset_def)
  note r0 = refines_new [OF b0, of h]
  have new: "sp_open (spec_new n) = []" "sp_top (spec_new n) = []" "sp_name (spec_new n) = n"
      "sp_payload (spec_new n) = []" for n
    by (simp_all add: spec_new_def)
  have ok: "\<forall>e\<in>set es. entry_ok e" using bd by (simp add: binds_add_def)
  have "\<exists>b. run_calls h (concat (map entry_calls es)) b0 = Inr b"
    by (rule entries_run [OF entry_run r0]) (use s(3) ok in \<open>simp_all add: new room_def\<close>)
  then obtain b where b: "run_calls h (concat (map entry_calls es)) b0 = Inr b" by blast
  have fold_top: "fold sp_add xs s' = s'\<lparr>sp_top := sp_top s' @ xs\<rparr>" if "sp_open s' = []" for xs s'
    using that by (induction xs arbitrary: s') (simp_all add: sp_add_def)
  have "spec_calls h (concat (map entry_calls es)) (spec_new (so_Name options))
      = sp_bytes (concat (map (entry_wire h) es)) ((spec_new (so_Name options))\<lparr>sp_top := map (entry_tree h) es\<rparr>)"
    using spec_entries [OF spec_entry] fold_top [OF new(1)] by (simp add: new)
  with refines_calls [OF r0 b] have "b_metadata b = m \<and> b_payload b = concat (map (entry_wire h) es) \<and> b_structs b = [] \<and> b_active b"
    by (simp add: refines_def spec_metadata_def spec_base_def new s)
  moreover have "binding_payload bd = concat (map (entry_wire h) es)" "Complete bd = Inr ()" "bd_schema bd = Some sc"
    using bd s sc by (auto simp: binds_add_def binding_payload_def NewBinding_def Complete_def)
  moreover have "length (sc_metadata sc) \<le> maxCount" "length (sc_metadata sc) \<le> maxMetadataPayload"
      "sc_options sc = options" "so_Name options \<noteq> []"
    using assms(1) name by (auto simp: NewSchema_def bindR_eq_Inr validateMetadataName_def split: if_splits)
  moreover have "length (sc_metadata sc) + length (binding_payload bd) \<le> maxMetadataPayload"
    using binds_fit [OF assms(2)] calculation(6) by (auto simp: fits_def NewBinding_def binding_payload_def)
  ultimately show ?thesis using b0 b sc by auto
qed


text \<open>
  C2. Schema and binding are equivalent to the builder: if \<open>NewSchema\<close> accepts the definitions of
  an event description and the binding accepts its values one after the other, then the builder
  accepts the corresponding calls, and the schema's metadata and the binding's payload are, byte for
  byte, the builder's. This holds whatever storage the binding was given.
\<close>

theorem schema_binding_equiv_builder:
  assumes "NewSchema h addr options (map (entry_def h) es) = Inr sc"
    "run_binds h (concat (map entry_args es)) (NewBinding (Some sc) storage) = Inr bd"
    "\<forall>e\<in>set es. entry_typed e"
  shows "\<exists>b0 b. NewBuilder (so_Name options) = Inr b0 \<and> run_calls h (concat (map entry_calls es)) b0 = Inr b
    \<and> b_metadata b = sc_metadata sc \<and> b_payload b = binding_payload bd \<and> b_structs b = []
    \<and> Complete bd = Inr ()"
  using schema_binding_builder [OF assms] by blast

text \<open>The example of the builder, written into storage that held other bytes before.\<close>

definition demo_entries :: "entry list" where
  "demo_entries = [EStruct ''s'' [\<lparr>opt_Format = 0, opt_Tag = 7\<rparr>] [EScalar ''a'' (VUint16 5) []]]"

definition demo_schema :: schema where
  "demo_schema =
     \<lparr>sc_addr = 1, sc_options = \<lparr>so_Name = ''e'', so_ID = 0, so_Version = 0, so_Tag = 0, so_Opcode = 0\<rparr>,
      sc_metadata = [101, 0, 115, 0, 129, 129, 7, 0, 97, 0, 3],
      sc_plan = [\<lparr>vp_kind = valueUint16, vp_arrayKind = ArrayScalar, vp_arrayCount = 0\<rparr>]\<rparr>"

definition demo_binding :: binding where
  "demo_binding = \<lparr>bd_schema = Some demo_schema, bd_buf = [5, 0, 9], bd_len = 2, bd_index = 1\<rparr>"

lemma demo_names: "validateMetadataName ''e'' = Inr ()" "validateMetadataName ''s'' = Inr ()"
  "validateMetadataName ''a'' = Inr ()"
  by code_simp+

lemma demo_NewSchema:
  "NewSchema demo_host 1 (sc_options demo_schema) (map (entry_def demo_host) demo_entries) = Inr demo_schema"
  by (simp add: NewSchema_def demo_schema_def demo_entries_def demo_names StructField_def Uint16Field_def
      scalarField_def resolveOptions_def appendStructHead_def appendFieldMetadata_def checkArrayShape_def
      addMinPayload_def minimumValueSize_def quot_def Let_def demo_host_def put16_bytes to_bytes_def)

lemma demo_binds:
  "run_binds demo_host (concat (map entry_args demo_entries)) (NewBinding (Some demo_schema) [9, 9, 9])
     = Inr demo_binding"
  by (simp add: demo_entries_def NewBinding_def Binding_Uint16_def bind_value_def begin_value_def check_def
      demo_schema_def demo_binding_def index_def put_at_def Let_def demo_host_def put16_bytes)

theorem schema_binding_equiv_builder_witness:
  "\<exists>b0 b. NewBuilder ''e'' = Inr b0 \<and> run_calls demo_host (concat (map entry_calls demo_entries)) b0 = Inr b
    \<and> b_metadata b = sc_metadata demo_schema \<and> b_payload b = [5, 0]"
proof -
  have "\<forall>e\<in>set demo_entries. entry_typed e" by (simp add: demo_entries_def)
  moreover have "so_Name (sc_options demo_schema) = ''e''" "binding_payload demo_binding = [5, 0]"
    by (simp_all add: demo_schema_def demo_binding_def binding_payload_def)
  ultimately show ?thesis
    using schema_binding_equiv_builder [OF demo_NewSchema demo_binds] by auto
qed

end
