(* ===== verification/Event.thy ===== *)
theory Event imports EventSet SchemaEquiv begin

text \<open>
  \<open>eventheader/event.go\<close>: an event binds a schema to an event set and writes bindings through it. An
  \<open>*EventSet\<close> is passed as the set it points to, and two schemas are the same object when their
  addresses are. Writing a binding puts exactly the bytes on the wire that the dynamic builder
  encodes for the same event.
\<close>


section \<open>Operations\<close>

record event =
  ev_schema :: schema
  ev_prefix :: bytes

definition NewEvent ::
  "host \<Rightarrow> ('w, 'r) registration_ops \<Rightarrow> 'r event_set option \<Rightarrow> schema option \<Rightarrow> 'w \<Rightarrow> event result" where
  "NewEvent h ops st sc w =
     (case st of
        None \<Rightarrow> fail ErrClosed
      | Some s \<Rightarrow>
        if EventSet_closed ops s w then fail ErrClosed
        else if es_level s < LevelCritical \<or> es_level s > LevelVerbose then fail ErrInvalidLevel
        else case sc of
          None \<Rightarrow> fail ErrInvalidValue
        | Some c \<Rightarrow>
          if so_Name (sc_options c) = [] \<or> sc_metadata c = [] then fail ErrInvalidValue
          else
            let options = sc_options c in
            Inr \<lparr>ev_schema = c,
              ev_prefix = [defaultHeaderFlags h, so_Version options]
                @ native16 h (so_ID options) @ native16 h (so_Tag options)
                @ [so_Opcode options, es_level s]
                @ native16 h (of_nat (length (sc_metadata c))) @ native16 h ExtensionMetadata\<rparr>)"

definition Event_Enabled :: "('w, 'r) registration_ops \<Rightarrow> 'r event_set \<Rightarrow> 'w \<Rightarrow> 'w \<times> bool result" where
  "Event_Enabled ops s w = EventSet_Enabled ops s w"

definition Event_Bind :: "event \<Rightarrow> bytes \<Rightarrow> binding" where
  "Event_Bind e storage = NewBinding (Some (ev_schema e)) storage"

definition other_schema :: "event \<Rightarrow> binding \<Rightarrow> bool" where
  "other_schema e b = (case bd_schema b of None \<Rightarrow> True | Some s \<Rightarrow> sc_addr s \<noteq> sc_addr (ev_schema e))"

text \<open>The prefix with an activity extension in front of the metadata extension.\<close>

definition activityPrefix :: "host \<Rightarrow> event \<Rightarrow> bytes \<Rightarrow> bytes option \<Rightarrow> bytes" where
  "activityPrefix h e activity related =
     (let activitySize = (if related \<noteq> None then 32 else 16) in
      take 8 (ev_prefix e) @ native16 h activitySize @ native16 h (ExtensionActivityID OR ExtensionKindChainFlag)
      @ activity @ (case related of None \<Rightarrow> [] | Some r \<Rightarrow> r) @ take 4 (drop 8 (ev_prefix e)))"

text \<open>The argument checks that \<open>Write\<close> and \<open>WriteIfEnabled\<close> share.\<close>

definition checkArguments :: "event \<Rightarrow> binding option \<Rightarrow> bytes option \<Rightarrow> bytes option \<Rightarrow> binding result" where
  "checkArguments e bd activity related =
     (if related \<noteq> None \<and> activity = None then fail ErrInvalidValue
      else case bd of
        None \<Rightarrow> fail ErrInvalidValue
      | Some b \<Rightarrow> if other_schema e b then fail ErrState else Inr b)"

definition Event_Write ::
  "host \<Rightarrow> ('w, 'r) registration_ops \<Rightarrow> binding option \<Rightarrow> bytes option \<Rightarrow> bytes option \<Rightarrow> event
    \<Rightarrow> 'r event_set \<Rightarrow> 'w \<Rightarrow> 'w \<times> unit result" where
  "Event_Write h ops bd activity related e s =
     if_enabled ops s (\<lambda>w.
       case bindR (checkArguments e bd activity related) (\<lambda>b. bindR (Complete b) (\<lambda>_. Inr b)) of
         Inl err \<Rightarrow> (w, Inl err)
       | Inr b \<Rightarrow>
         (case activity of
            None \<Rightarrow> EventSet_writev ops [ev_prefix e, sc_metadata (ev_schema e), binding_payload b] s w
          | Some act \<Rightarrow>
            EventSet_writev ops [activityPrefix h e act related, sc_metadata (ev_schema e), binding_payload b] s w))"

text \<open>
  The callback fills the binding; it returns the binding as it left it and its error. The result
  has the binding as the call leaves it.
\<close>

definition WriteIfEnabled ::
  "host \<Rightarrow> ('w, 'r) registration_ops \<Rightarrow> binding option \<Rightarrow> bytes option \<Rightarrow> bytes option
    \<Rightarrow> (binding \<Rightarrow> binding \<times> unit result) option \<Rightarrow> event \<Rightarrow> 'r event_set \<Rightarrow> 'w
    \<Rightarrow> 'w \<times> binding option \<times> unit result" where
  "WriteIfEnabled h ops bd activity related bind e s w =
     (let (w, r) =
        if_enabled ops s (\<lambda>w.
          (w, bindR (checkArguments e bd activity related) (\<lambda>b.
              case bind of None \<Rightarrow> fail ErrInvalidValue | Some f \<Rightarrow> Inr (f (Binding_Reset b))))) w
      in case r of
        Inl err \<Rightarrow> (w, bd, Inl err)
      | Inr (b, Inl err) \<Rightarrow> (w, Some b, Inl err)
      | Inr (b, Inr _) \<Rightarrow> (case Event_Write h ops (Some b) activity related e s w of (w, res) \<Rightarrow> (w, Some b, res)))"


section \<open>The outcome of a write\<close>

context event_registration
begin

lemma set_writev_keeps: "ok w \<Longrightarrow> EventSet_writev (ops k) ps s w = (w, snd (EventSet_writev (ops k) ps s w))"
  using writev_keeps [of w k ps] by (auto simp: EventSet_writev_def prod_eq_iff split: option.splits)

text \<open>A write leaves the set and the registration's state alone, and writes at most once.\<close>

lemma event_write_outcome:
  assumes "ok w"
  shows "Event_Write h (ops k) bd act rel e s w =
    (w, if EventSet_closed (ops k) s w then fail ErrClosed
        else if EventSet_Enabled (ops k) s w \<noteq> (w, Inr True) then fail ErrDisabled
        else bindR (checkArguments e bd act rel) (\<lambda>b. bindR (Complete b) (\<lambda>_.
          snd (EventSet_writev (ops k)
            [case act of None \<Rightarrow> ev_prefix e | Some a \<Rightarrow> activityPrefix h e a rel, sc_metadata (ev_schema e),
             binding_payload b] s w))))"
proof -
  have w: "(case bindR m (\<lambda>b. bindR (c b) (\<lambda>_. Inr b)) of
      Inl err \<Rightarrow> (w, Inl err)
    | Inr b \<Rightarrow>
      (case act of
         None \<Rightarrow> EventSet_writev (ops k) [p, d, binding_payload b] s w
       | Some a \<Rightarrow> EventSet_writev (ops k) [q a, d, binding_payload b] s w))
    = (w, bindR m (\<lambda>b. bindR (c b) (\<lambda>_.
        snd (EventSet_writev (ops k) [case act of None \<Rightarrow> p | Some a \<Rightarrow> q a, d, binding_payload b] s w))))"
    for m c p q d
    using set_writev_keeps [OF assms]
    by (cases m; cases act; force simp: bindR_def split: sum.splits)
  from w [of "ev_prefix e" "sc_metadata (ev_schema e)" "\<lambda>a. activityPrefix h e a rel"
      "checkArguments e bd act rel" Complete]
  show ?thesis by (simp add: Event_Write_def if_enabled_outcome [OF assms])
qed

text \<open>
  When the set is not enabled, \<open>WriteIfEnabled\<close> neither looks at the binding nor calls the callback.
  When it is, the callback sees the binding after a reset.
\<close>

lemma write_if_enabled_outcome:
  assumes "ok w"
  shows "WriteIfEnabled h (ops k) bd act rel bind e s w =
    (if EventSet_closed (ops k) s w then (w, bd, fail ErrClosed)
     else if EventSet_Enabled (ops k) s w \<noteq> (w, Inr True) then (w, bd, fail ErrDisabled)
     else case checkArguments e bd act rel of
       Inl err \<Rightarrow> (w, bd, Inl err)
     | Inr b \<Rightarrow>
       (case bind of
          None \<Rightarrow> (w, bd, fail ErrInvalidValue)
        | Some f \<Rightarrow>
          (case f (Binding_Reset b) of
             (b', Inl err) \<Rightarrow> (w, Some b', Inl err)
           | (b', Inr _) \<Rightarrow> (w, Some b', snd (Event_Write h (ops k) (Some b') act rel e s w)))))"
proof -
  have ew: "Event_Write h (ops k) (Some b') act rel e s w = (w, snd (Event_Write h (ops k) (Some b') act rel e s w))" for b'
    using event_write_outcome [OF assms] by simp
  show ?thesis
    by (auto simp: WriteIfEnabled_def Let_def if_enabled_outcome [OF assms] bindR_def split: sum.splits option.splits prod.splits)
       (metis ew prod.inject)+
qed

end


section \<open>The same bytes as the builder\<close>

text \<open>The calls that give a builder the header of an event.\<close>

definition header_calls :: "schema_options \<Rightarrow> bytes option \<Rightarrow> bytes option \<Rightarrow> call list" where
  "header_calls options act rel =
     [CSetIDVersion (so_ID options) (so_Version options), CSetTag (so_Tag options), CSetOpcode (so_Opcode options),
      CSetActivity act rel]"

definition with_header :: "schema_options \<Rightarrow> bytes option \<Rightarrow> bytes option \<Rightarrow> builder \<Rightarrow> builder" where
  "with_header options act rel b =
     b\<lparr>b_id := so_ID options, b_version := so_Version options, b_tag := so_Tag options, b_opcode := so_Opcode options,
       b_hasAct := act \<noteq> None, b_hasRel := rel \<noteq> None,
       b_activity := (case act of None \<Rightarrow> zeroID | Some a \<Rightarrow> a),
       b_related := (case rel of None \<Rightarrow> zeroID | Some r \<Rightarrow> r)\<rparr>"

lemma run_header_calls:
  assumes "b_active b" "act = None \<longrightarrow> rel = None"
  shows "run_calls h (header_calls options act rel) b = Inr (with_header options act rel b)"
  using assms
  by (auto simp: header_calls_def with_header_def SetIDVersion_def SetTag_def SetOpcode_def SetActivity_def
      requireActive_def Let_def split: option.splits)

lemma NewEvent_Inr:
  assumes "NewEvent h ops (Some s) (Some sc) w = Inr e"
  shows "ev_schema e = sc" "\<not> es_level s < LevelCritical" "\<not> LevelVerbose < es_level s"
    "ev_prefix e = [defaultHeaderFlags h, so_Version (sc_options sc)]
       @ native16 h (so_ID (sc_options sc)) @ native16 h (so_Tag (sc_options sc))
       @ [so_Opcode (sc_options sc), es_level s]
       @ native16 h (of_nat (length (sc_metadata sc))) @ native16 h ExtensionMetadata"
  using assms by (auto simp: NewEvent_def Let_def not_less split: if_splits)

text \<open>The event's prefix is the one the builder computes.\<close>

lemma encodeSegments_event:
  assumes e: "NewEvent h ops (Some s) (Some sc) w = Inr e"
    and b: "b_metadata b = sc_metadata sc" "b_payload b = p" "b_structs b = []" "b_active b"
      "length (b_metadata b) \<le> maxCount" "length (b_metadata b) + length (b_payload b) \<le> maxMetadataPayload"
    and ids: "act = None \<longrightarrow> rel = None"
  shows "encodeSegments h (es_level s) (with_header (sc_options sc) act rel b)
    = Inr (case act of None \<Rightarrow> ev_prefix e | Some a \<Rightarrow> activityPrefix h e a rel, sc_metadata sc, p)"
proof -
  note n = NewEvent_Inr [OF e]
  show ?thesis
    using b ids n(2-4)
    by (cases act; cases rel)
       (simp_all add: encodeSegments_def with_header_def requireActive_def activityPrefix_def Let_def bytes_simps)
qed

text \<open>
  C3. Writing a binding through an event is writing the corresponding builder through its event set:
  if the schema accepts the definitions of a description and the binding (from the event, over any
  storage) its values, then the builder accepts the corresponding calls with the schema's header and
  the activity ids, and \<open>Event.Write\<close> does exactly what \<open>EventSet.Write\<close> does with that builder: the
  same checks, the same errors, and one \<open>Writev\<close> of the same bytes in the same segments.
\<close>

theorem Event_Write_equiv_builder:
  assumes "NewSchema h addr options (map (entry_def h) es) = Inr sc"
    "NewEvent h ops (Some s) (Some sc) w0 = Inr e"
    "run_binds h (concat (map entry_args es)) (Event_Bind e storage) = Inr bd"
    "\<forall>e\<in>set es. entry_typed e" "act = None \<longrightarrow> rel = None"
  shows "\<exists>b0 b. NewBuilder (so_Name options) = Inr b0
    \<and> run_calls h (concat (map entry_calls es) @ header_calls options act rel) b0 = Inr b
    \<and> (\<forall>w. Event_Write h ops (Some bd) act rel e s w = EventSet_Write h ops (Some b) s w)"
proof -
  note e = NewEvent_Inr [OF assms(2)]
  have bind: "run_binds h (concat (map entry_args es)) (NewBinding (Some sc) storage) = Inr bd"
    using assms(3) e(1) by (simp add: Event_Bind_def)
  obtain b0 b where b0: "NewBuilder (so_Name options) = Inr b0" "run_calls h (concat (map entry_calls es)) b0 = Inr b"
    and m: "b_metadata b = sc_metadata sc" "b_payload b = binding_payload bd" "b_structs b = []" "b_active b"
      "length (b_metadata b) \<le> maxCount" "length (b_metadata b) + length (b_payload b) \<le> maxMetadataPayload"
    and bd: "Complete bd = Inr ()" "bd_schema bd = Some sc" "sc_options sc = options"
    using schema_binding_builder [OF assms(1) bind assms(4)] by blast
  have enc: "encodeSegments h (es_level s) (with_header options act rel b)
    = Inr (case act of None \<Rightarrow> ev_prefix e | Some a \<Rightarrow> activityPrefix h e a rel, sc_metadata sc, binding_payload bd)"
    using encodeSegments_event [OF assms(2) m assms(5)] bd(3) by simp
  have chk: "checkArguments e (Some bd) act rel = Inr bd"
    using assms(5) bd(2) e(1) by (auto simp: checkArguments_def other_schema_def)
  have "Event_Write h ops (Some bd) act rel e s w = EventSet_Write h ops (Some (with_header options act rel b)) s w" for w
  proof (cases "es_registration s")
    case None
    then show ?thesis by (simp add: Event_Write_def EventSet_Write_def if_enabled_def EventSet_closed_def)
  next
    case (Some r)
    then show ?thesis
      using chk enc bd(1) e(1)
      by (cases act) (simp_all add: Event_Write_def EventSet_Write_def EventSet_writev_def)
  qed
  moreover have "run_calls h (concat (map entry_calls es) @ header_calls options act rel) b0
      = Inr (with_header options act rel b)"
    using b0(2) run_header_calls [OF m(4) assms(5)] by (simp add: run_calls_append)
  ultimately show ?thesis using b0(1) by blast
qed

definition demo_event :: event where
  "demo_event = projr (NewEvent demo_host (registration_interface demo_host demo_kernel) (Some demo_set) (Some demo_schema) demo_file)"

lemma demo_NewEvent:
  "NewEvent demo_host (registration_interface demo_host demo_kernel) (Some demo_set) (Some demo_schema) demo_file
     = Inr demo_event"
  by (simp add: demo_event_def NewEvent_def demo_set_def demo_schema_def registration_interface_def EventSet_closed_def
      Registration_Closed_def deref_def Closed_def demo_file_eq Let_def)

theorem Event_Write_equiv_builder_witness:
  "\<exists>b0 b. NewBuilder ''e'' = Inr b0
    \<and> run_calls demo_host (concat (map entry_calls demo_entries) @ header_calls (sc_options demo_schema) (Some zeroID) None) b0 = Inr b
    \<and> (\<forall>w. Event_Write demo_host (registration_interface demo_host demo_kernel) (Some demo_binding) (Some zeroID) None
             demo_event demo_set w
           = EventSet_Write demo_host (registration_interface demo_host demo_kernel) (Some b) demo_set w)"
proof -
  have typed: "\<forall>e\<in>set demo_entries. entry_typed e" by (simp add: demo_entries_def)
  have name: "so_Name (sc_options demo_schema) = ''e''" by (simp add: demo_schema_def)
  have bind: "run_binds demo_host (concat (map entry_args demo_entries)) (Event_Bind demo_event [9, 9, 9]) = Inr demo_binding"
    using demo_binds NewEvent_Inr(1) [OF demo_NewEvent] by (simp add: Event_Bind_def)
  show ?thesis
    using Event_Write_equiv_builder [OF demo_NewSchema demo_NewEvent bind typed, of "Some zeroID" None] name by simp
qed

end
