(* ===== verification/MountInfo.thy ===== *)
theory MountInfo imports UserEvents begin

text \<open>
  Package \<open>userevents\<close>, file \<open>userevents_linux.go\<close>: the search for the data file, through the mount
  points that \<open>/proc/self/mountinfo\<close> lists. What the code uses of \<open>bufio.Scanner\<close>, \<open>strings.Fields\<close>
  and \<open>filepath.Join\<close> is modelled; the system calls are parameters: what \<open>open\<close> answers for a path,
  and what opening, reading and closing the mount table gives. An error without an identity of its
  own (\<open>fmt.Errorf\<close> without \<open>%w\<close>, \<open>bufio.ErrTooLong\<close>) is \<open>ForeignError 0\<close>, an errno \<open>ForeignError errno\<close>.
\<close>


section \<open>The standard library's part\<close>

text \<open>\<open>bufio.Scanner\<close> with its default split function: lines without their line break.\<close>

function scan_lines :: "bytes \<Rightarrow> bytes list" where
  "scan_lines bs =
     (if bs = [] then [] else takeWhile (\<lambda>b. b \<noteq> 10) bs # scan_lines (drop 1 (dropWhile (\<lambda>b. b \<noteq> 10) bs)))"
  by pat_completeness auto
termination
proof (relation "measure length")
  fix bs :: bytes
  assume "bs \<noteq> []"
  then show "(drop 1 (dropWhile (\<lambda>b. b \<noteq> 10) bs), bs) \<in> measure length"
    using length_dropWhile_le [of "\<lambda>b. b \<noteq> 10" bs] by (cases bs) (auto simp: less_Suc_eq_le)
qed simp

declare scan_lines.simps [simp del]

definition dropCR :: "bytes \<Rightarrow> bytes" where
  "dropCR line = (if line \<noteq> [] \<and> last line = 13 then butlast line else line)"

text \<open>\<open>strings.Fields\<close>.\<close>

function split_fields :: "bytes \<Rightarrow> bytes \<Rightarrow> bytes list" where
  "split_fields cur [] = (if cur = [] then [] else [cur])"
| "split_fields cur (b # bs) =
     (let k = space_at white_space (b # bs) in
      if k = 0 then split_fields (cur @ [b]) bs
      else (if cur = [] then [] else [cur]) @ split_fields [] (drop (k - 1) bs))"
  by pat_completeness auto
termination
  by (relation "measure (\<lambda>(cur, bs). length bs)") auto

definition Fields :: "bytes \<Rightarrow> string list" where
  "Fields bs = map of_bytes (split_fields [] bs)"

text \<open>\<open>filepath.Clean\<close> and \<open>filepath.Join\<close> on Unix. The stack holds the path elements, last one first.\<close>

fun split_path :: "string \<Rightarrow> string \<Rightarrow> string list" where
  "split_path cur [] = [cur]"
| "split_path cur (c # s) = (if c = CHR ''/'' then cur # split_path [] s else split_path (cur @ [c]) s)"

fun clean_path :: "bool \<Rightarrow> string list \<Rightarrow> string list \<Rightarrow> string list" where
  "clean_path rooted st [] = rev st"
| "clean_path rooted st (x # xs) =
     (if x = [] \<or> x = ''.'' then clean_path rooted st xs
      else if x = ''..'' then
        (if st \<noteq> [] \<and> hd st \<noteq> ''..'' then clean_path rooted (tl st) xs
         else if rooted then clean_path rooted st xs
         else clean_path rooted (x # st) xs)
      else clean_path rooted (x # st) xs)"

fun join_with :: "string \<Rightarrow> string list \<Rightarrow> string" where
  "join_with sep [] = []"
| "join_with sep [x] = x"
| "join_with sep (x # y # xs) = x @ sep @ join_with sep (y # xs)"

definition filepath_Clean :: "string \<Rightarrow> string" where
  "filepath_Clean path =
     (let rooted = path \<noteq> [] \<and> hd path = CHR ''/'';
          out = join_with ''/'' (clean_path rooted [] (split_path [] path))
      in if rooted then CHR ''/'' # out else if out = [] then ''.'' else out)"

definition filepath_Join :: "string list \<Rightarrow> string" where
  "filepath_Join elem =
     (let rest = dropWhile (\<lambda>e. e = []) elem in if rest = [] then [] else filepath_Clean (join_with ''/'' rest))"


section \<open>Mount points\<close>

definition octal_digit :: "char \<Rightarrow> bool" where
  "octal_digit c \<longleftrightarrow> CHR ''0'' \<le> c \<and> c \<le> CHR ''7''"

definition octal_byte :: "char \<Rightarrow> char \<Rightarrow> char \<Rightarrow> char" where
  "octal_byte a b c =
     char_of ((((of_char a - 48) * 8 + (of_char b - 48)) * 8 + (of_char c - 48)) mod 256 :: nat)"

text \<open>\<open>unescapeMountField\<close>; None is an error (a truncated or a non-octal escape).\<close>

fun unescapeMountField :: "string \<Rightarrow> string option" where
  "unescapeMountField [] = Some []"
| "unescapeMountField (c # s) =
     (if c \<noteq> CHR 0x5C then map_option (Cons c) (unescapeMountField s)
      else case s of
        x # y # z # rest \<Rightarrow>
          if octal_digit x \<and> octal_digit y \<and> octal_digit z
          then map_option (Cons (octal_byte x y z)) (unescapeMountField rest) else None
      | _ \<Rightarrow> None)"

text \<open>How the kernel escapes a mount point: blanks and backslashes as three octal digits.\<close>

definition octal_escape :: "char \<Rightarrow> string" where
  "octal_escape c =
     [CHR 0x5C, char_of (48 + of_char c div 64 :: nat), char_of (48 + of_char c div 8 mod 8 :: nat),
      char_of (48 + of_char c mod 8 :: nat)]"

definition escapeMountField :: "char set \<Rightarrow> string \<Rightarrow> string" where
  "escapeMountField special s =
     concat (map (\<lambda>c. if c = CHR 0x5C \<or> c \<in> special then octal_escape c else [c]) s)"

text \<open>
  One line of \<open>mountinfo\<close>, split into its fields: the candidate path, if the line is a tracefs or
  debugfs mount (the flag tells them apart).
\<close>

definition mountLine :: "string list \<Rightarrow> (bool \<times> string) option result" where
  "mountLine defs =
     (case byteIndex defs ''-'' of
        None \<Rightarrow> Inr None
      | Some separator \<Rightarrow>
        if separator < 6 \<or> separator + 2 \<ge> length defs then Inr None
        else bindR (index defs 4) (\<lambda>raw.
          case unescapeMountField raw of
            None \<Rightarrow> fail (ForeignError 0)
          | Some mountPoint \<Rightarrow>
            bindR (index defs (separator + 1)) (\<lambda>kind.
            Inr (if kind = ''tracefs'' then Some (True, filepath_Join [mountPoint, ''user_events_data''])
                 else if kind = ''debugfs'' then Some (False, filepath_Join [mountPoint, ''tracing'', ''user_events_data''])
                 else None))))"

abbreviation (input) maxScanTokenSize :: nat where "maxScanTokenSize \<equiv> 65536"

fun mountLines :: "bytes list \<Rightarrow> string list \<times> string list \<Rightarrow> (string list \<times> string list) result" where
  "mountLines [] found = Inr found"
| "mountLines (line # ls) (tracefsPaths, debugfsPaths) =
     (if length line \<ge> maxScanTokenSize then fail (ForeignError 0)
      else bindR (mountLine (Fields (dropCR line))) (\<lambda>r.
        mountLines ls
          (case r of
             None \<Rightarrow> (tracefsPaths, debugfsPaths)
           | Some (True, p) \<Rightarrow> (tracefsPaths @ [p], debugfsPaths)
           | Some (False, p) \<Rightarrow> (tracefsPaths, debugfsPaths @ [p]))))"

definition mountDataFileCandidates :: "bytes \<Rightarrow> nat option \<Rightarrow> string list result" where
  "mountDataFileCandidates content readErr =
     bindR (mountLines (scan_lines content) ([], [])) (\<lambda>(tracefsPaths, debugfsPaths).
     case readErr of Some errno \<Rightarrow> fail (ForeignError errno) | None \<Rightarrow> Inr (tracefsPaths @ debugfsPaths))"


section \<open>Opening the data file\<close>

definition defaultDataFilePath :: string where
  "defaultDataFilePath = ''/sys/kernel/tracing/user_events_data''"

text \<open>What \<open>open\<close> answers for a path, and the mount table: its content, read error and close error.\<close>

record file_system =
  fs_open :: "string \<Rightarrow> nat + int"
  fs_mountinfo :: "nat + (bytes \<times> nat option \<times> nat option)"

definition not_found :: "nat \<Rightarrow> bool" where
  "not_found errno \<longleftrightarrow> errno = 2 \<or> errno = 20"

text \<open>The loop over the candidates: the first that opens, or the errors and the flag \<open>notFoundOnly\<close>.\<close>

fun tryOpen ::
  "(string \<Rightarrow> nat + int) \<Rightarrow> string set \<Rightarrow> string list \<Rightarrow> goerr list \<times> bool \<Rightarrow> (goerr list \<times> bool) + (int \<times> string)" where
  "tryOpen op seen [] st = Inl st"
| "tryOpen op seen (candidate # cs) (openErrors, notFoundOnly) =
     (if candidate \<in> seen then tryOpen op seen cs (openErrors, notFoundOnly)
      else case op candidate of
        Inr fd \<Rightarrow> Inr (fd, candidate)
      | Inl errno \<Rightarrow>
        tryOpen op (insert candidate seen) cs
          (openErrors @ [Err (ForeignError errno)], notFoundOnly \<and> not_found errno))"

definition searchMounts :: "file_system \<Rightarrow> goerr list \<times> bool \<Rightarrow> ((goerr list \<times> bool) + (int \<times> string)) result" where
  "searchMounts fs st =
     (case fs_mountinfo fs of
        Inl errno \<Rightarrow> Inr (Inl (fst st @ [Err (ForeignError errno)], False))
      | Inr (content, readErr, closeErr) \<Rightarrow>
        bindR (case mountDataFileCandidates content readErr of
                 Inr candidates \<Rightarrow> Inr (candidates, st)
               | Inl Fault \<Rightarrow> Inl Fault
               | Inl (Fail parseErr) \<Rightarrow> Inr ([], fst st @ [parseErr], False)) (\<lambda>(candidates, st).
        let st = (case closeErr of None \<Rightarrow> st | Some errno \<Rightarrow> (fst st @ [Err (ForeignError errno)], False))
        in Inr (tryOpen (fs_open fs) {defaultDataFilePath} candidates st)))"

definition openDataFile :: "file_system \<Rightarrow> (int \<times> string) result" where
  "openDataFile fs =
     (case fs_open fs defaultDataFilePath of
        Inr fd \<Rightarrow> Inr (fd, defaultDataFilePath)
      | Inl errno \<Rightarrow>
        bindR (searchMounts fs ([Err (ForeignError errno)], not_found errno)) (\<lambda>searched.
        case searched of
          Inr found \<Rightarrow> Inr found
        | Inl (openErrors, notFoundOnly) \<Rightarrow>
          if notFoundOnly then Inl (Fail (Joined [Err UeErrUnsupported, Joined openErrors]))
          else Inl (Fail (Joined openErrors))))"


section \<open>Which file is opened\<close>

definition anonymous :: "goerr \<Rightarrow> bool" where
  "anonymous e \<longleftrightarrow> (\<exists>n. e = Err (ForeignError n))"

lemma mountLine_fails: "mountLine defs = Inl e \<Longrightarrow> e = Fail (Err (ForeignError 0))"
  by (auto simp: mountLine_def result_simps index_def split: option.splits if_splits)

lemma mountLines_fails: "mountLines ls found = Inl e \<Longrightarrow> e = Fail (Err (ForeignError 0))"
  by (induction ls found rule: mountLines.induct) (auto simp: result_simps dest: mountLine_fails split: if_splits)

lemma candidates_fail:
  "mountDataFileCandidates content readErr = Inl e \<Longrightarrow> \<exists>n. e = Fail (Err (ForeignError n))"
  by (auto simp: mountDataFileCandidates_def result_simps dest: mountLines_fails split: option.splits)

lemma candidates_read: "mountDataFileCandidates content readErr = Inr cs \<Longrightarrow> readErr = None"
  by (auto simp: mountDataFileCandidates_def result_simps split: option.splits)

lemma tryOpen_found:
  "tryOpen op seen cs st = Inr (fd, p) \<Longrightarrow>
     \<exists>pre post. cs = pre @ p # post \<and> op p = Inr fd \<and> p \<notin> seen \<and> (\<forall>q\<in>set pre. q \<in> seen \<or> (\<exists>n. op q = Inl n))"
proof (induction op seen cs st rule: tryOpen.induct)
  case (2 op seen c cs errs only)
  then consider (seen) "c \<in> seen" "tryOpen op seen cs (errs, only) = Inr (fd, p)"
    | (here) "c \<notin> seen" "op c = Inr fd" "p = c"
    | (failed) n where "c \<notin> seen" "op c = Inl n"
        "tryOpen op (insert c seen) cs (errs @ [Err (ForeignError n)], only \<and> not_found n) = Inr (fd, p)"
    by (auto split: if_splits sum.splits)
  then show ?case
  proof cases
    case seen
    with 2(1) obtain pre post where "cs = pre @ p # post" "op p = Inr fd" "p \<notin> seen"
      "\<forall>q\<in>set pre. q \<in> seen \<or> (\<exists>n. op q = Inl n)" by auto
    with seen show ?thesis by (intro exI [of _ "c # pre"] exI [of _ post]) auto
  next
    case here
    then show ?thesis by (intro exI [of _ "[]"] exI [of _ cs]) auto
  next
    case failed
    with 2(2) obtain pre post where "cs = pre @ p # post" "op p = Inr fd" "p \<notin> insert c seen"
      "\<forall>q\<in>set pre. q \<in> insert c seen \<or> (\<exists>n. op q = Inl n)" by auto
    with failed show ?thesis by (intro exI [of _ "c # pre"] exI [of _ post]) auto
  qed
qed simp

lemma tryOpen_failed:
  "tryOpen op seen cs (errs, only) = Inl (errs', only') \<Longrightarrow>
     (list_all anonymous errs \<longrightarrow> list_all anonymous errs') \<and>
     (only' \<longleftrightarrow> only \<and> (\<forall>p\<in>set cs - seen. \<exists>n. op p = Inl n \<and> not_found n)) \<and>
     (\<forall>p\<in>set cs - seen. \<exists>n. op p = Inl n)"
proof (induction op seen cs "(errs, only)" arbitrary: errs only rule: tryOpen.induct)
  case (2 op seen c cs errs only)
  show ?case
  proof (cases "c \<in> seen")
    case True
    with 2(1,3) show ?thesis by (auto simp: insert_Diff_if)
  next
    case False
    with 2(3) obtain n where n: "op c = Inl n" by (auto split: sum.splits)
    with False 2(3) have "tryOpen op (insert c seen) cs (errs @ [Err (ForeignError n)], only \<and> not_found n) = Inl (errs', only')"
      by simp
    note IH = 2(2) [OF False n this]
    have s: "set (c # cs) - seen = insert c (set cs - insert c seen)" using False by auto
    show ?thesis using IH unfolding s by (auto simp: n anonymous_def)
  qed
qed auto

lemma anonymous_not: "list_all anonymous es \<Longrightarrow> \<not> errors_is (Joined es) UeErrUnsupported"
  by (auto simp: list_all_iff anonymous_def)

lemma searchMounts_found:
  assumes "searchMounts fs st = Inr (Inr (fd, path))"
  shows "fs_open fs path = Inr fd \<and> path \<noteq> defaultDataFilePath \<and>
    (\<exists>content cl cs pre post. fs_mountinfo fs = Inr (content, None, cl) \<and>
      mountDataFileCandidates content None = Inr cs \<and> cs = pre @ path # post \<and>
      (\<forall>p\<in>set pre. p = defaultDataFilePath \<or> (\<exists>errno. fs_open fs p = Inl errno)))"
proof -
  obtain content rd cl where m: "fs_mountinfo fs = Inr (content, rd, cl)"
    using assms by (auto simp: searchMounts_def split: sum.splits)
  obtain cs st' where c: "mountDataFileCandidates content rd = Inr cs"
    and t: "tryOpen (fs_open fs) {defaultDataFilePath} cs st' = Inr (fd, path)"
    using assms m
    by (auto simp: searchMounts_def bindR_def Let_def split: sum.splits failure.splits option.splits prod.splits)
  show ?thesis
    using tryOpen_found [OF t] candidates_read [OF c] c m by fastforce
qed

lemma searchMounts_failed:
  assumes "searchMounts fs ([Err (ForeignError n)], only) = Inr (Inl (errs, only'))"
  shows "list_all anonymous errs"
    and "only' \<longleftrightarrow> only \<and> (\<exists>content cs. fs_mountinfo fs = Inr (content, None, None) \<and>
      mountDataFileCandidates content None = Inr cs \<and>
      (\<forall>p\<in>set cs - {defaultDataFilePath}. \<exists>errno. fs_open fs p = Inl errno \<and> not_found errno))"
proof -
  note d = searchMounts_def bindR_def Let_def
  have "list_all anonymous errs \<and> (only' \<longleftrightarrow> only \<and> (\<exists>content cs. fs_mountinfo fs = Inr (content, None, None) \<and>
      mountDataFileCandidates content None = Inr cs \<and>
      (\<forall>p\<in>set cs - {defaultDataFilePath}. \<exists>errno. fs_open fs p = Inl errno \<and> not_found errno)))"
  proof (cases "fs_mountinfo fs")
    case (Inl e)
    with assms show ?thesis by (auto simp: d anonymous_def)
  next
    case (Inr t)
    then obtain content rd cl where m: "fs_mountinfo fs = Inr (content, rd, cl)" by (cases t) auto
    show ?thesis
    proof (cases "mountDataFileCandidates content rd")
      case (Inl f)
      with candidates_fail [OF Inl] m assms show ?thesis
        by (auto simp: d anonymous_def split: option.splits dest: candidates_read)
    next
      case (Inr cs)
      define errs0 where "errs0 = (case cl of None \<Rightarrow> [Err (ForeignError n)] | Some e \<Rightarrow> [Err (ForeignError n), Err (ForeignError e)])"
      have "tryOpen (fs_open fs) {defaultDataFilePath} cs (errs0, only \<and> cl = None) = Inl (errs, only')"
        using assms m Inr by (auto simp: d errs0_def split: option.splits)
      moreover have "list_all anonymous errs0" by (auto simp: errs0_def anonymous_def split: option.splits)
      ultimately show ?thesis
        using tryOpen_failed candidates_read [OF Inr] Inr m by fastforce
    qed
  qed
  then show "list_all anonymous errs"
    and "only' \<longleftrightarrow> only \<and> (\<exists>content cs. fs_mountinfo fs = Inr (content, None, None) \<and>
      mountDataFileCandidates content None = Inr cs \<and>
      (\<forall>p\<in>set cs - {defaultDataFilePath}. \<exists>errno. fs_open fs p = Inl errno \<and> not_found errno))"
    by blast+
qed

lemma searchMounts_safe: "safe (searchMounts fs st)"
  unfolding searchMounts_def
  by (auto simp: safe_def bindR_def dest: candidates_fail split: sum.splits failure.splits)

text \<open>
  C32. Which file \<open>openDataFile\<close> opens, and how it fails. The default path comes first; otherwise the
  path is the first that opens among the mount table's candidates, where every tracefs mount precedes
  every debugfs mount. It never panics, and the error is \<open>ErrUnsupported\<close> exactly when the mount table
  was read, parsed and closed without error and each path answers that it does not exist, so a
  permission problem is not reported as a missing feature.
\<close>

theorem openDataFile_outcome:
  "case openDataFile fs of
     Inr (fd, path) \<Rightarrow> fs_open fs path = Inr fd \<and>
       (path = defaultDataFilePath \<or>
        (\<exists>errno content cl cs pre post. fs_open fs defaultDataFilePath = Inl errno \<and>
           fs_mountinfo fs = Inr (content, None, cl) \<and> mountDataFileCandidates content None = Inr cs \<and>
           cs = pre @ path # post \<and>
           (\<forall>p\<in>set pre. p = defaultDataFilePath \<or> (\<exists>errno. fs_open fs p = Inl errno))))
   | Inl Fault \<Rightarrow> False
   | Inl (Fail e) \<Rightarrow>
       errors_is e UeErrUnsupported \<longleftrightarrow>
         (\<exists>content cs. fs_mountinfo fs = Inr (content, None, None) \<and>
            mountDataFileCandidates content None = Inr cs \<and>
            (\<forall>p\<in>insert defaultDataFilePath (set cs). \<exists>errno. fs_open fs p = Inl errno \<and> not_found errno))"
proof (cases "fs_open fs defaultDataFilePath")
  case (Inr fd)
  then show ?thesis by (simp add: openDataFile_def)
next
  case (Inl errno)
  let ?st = "([Err (ForeignError errno)], not_found errno)"
  obtain r where r: "searchMounts fs ?st = Inr r"
    using searchMounts_safe [of fs ?st] candidates_fail
    by (auto simp: searchMounts_def bindR_def split: sum.splits failure.splits)
  show ?thesis
  proof (cases r)
    case found: (Inr p)
    obtain fd path where p: "p = (fd, path)" by (cases p)
    have o: "openDataFile fs = Inr (fd, path)" using Inl r found p by (simp add: openDataFile_def)
    from searchMounts_found [of fs ?st fd path] r found p Inl show ?thesis unfolding o by auto
  next
    case failed: (Inl p)
    obtain errs only where p: "p = (errs, only)" by (cases p)
    have o: "openDataFile fs = Inl (Fail (if only then Joined [Err UeErrUnsupported, Joined errs] else Joined errs))"
      using Inl r failed p by (simp add: openDataFile_def)
    note f = searchMounts_failed [OF r [unfolded failed p]]
    have "errors_is (if only then Joined [Err UeErrUnsupported, Joined errs] else Joined errs) UeErrUnsupported \<longleftrightarrow> only"
      using anonymous_not [OF f(1)] by auto
    then show ?thesis unfolding o using f(2) Inl by (auto simp: insert_Diff_if)
  qed
qed

definition demo_fs :: file_system where
  "demo_fs = \<lparr>fs_open = (\<lambda>p. Inl 2), fs_mountinfo = Inr ([], None, None)\<rparr>"

lemma demo_open:
  "openDataFile demo_fs = Inl (Fail (Joined [Err UeErrUnsupported, Joined [Err (ForeignError 2)]]))"
  by (simp add: openDataFile_def demo_fs_def searchMounts_def mountDataFileCandidates_def not_found_def
      scan_lines.simps)

theorem openDataFile_outcome_witness:
  "\<exists>cs. mountDataFileCandidates [] None = Inr cs \<and>
     (\<forall>p\<in>insert defaultDataFilePath (set cs). \<exists>errno. fs_open demo_fs p = Inl errno \<and> not_found errno)"
  using openDataFile_outcome [of demo_fs] unfolding demo_open by (simp add: demo_fs_def)


section \<open>Mount points survive escaping\<close>

lemma octal_digits:
  "octal_digit (char_of (48 + n :: nat)) \<and> of_char (char_of (48 + n :: nat)) = 48 + n" if "n < 8"
proof -
  have "48 + n < 256" using that by simp
  then have "of_char (char_of (48 + n :: nat)) = 48 + n" by simp
  with that show ?thesis by (simp add: octal_digit_def less_eq_char_def)
qed

lemma octal_byte_escape:
  fixes c :: char
  defines "n \<equiv> (of_char c :: nat)"
  shows "octal_byte (char_of (48 + n div 64)) (char_of (48 + n div 8 mod 8)) (char_of (48 + n mod 8)) = c"
    and "octal_digit (char_of (48 + n div 64))" "octal_digit (char_of (48 + n div 8 mod 8))"
    "octal_digit (char_of (48 + n mod 8))"
proof -
  have n: "n < 256" by (simp add: n_def)
  then have d: "n div 64 < 8" "n div 8 mod 8 < 8" "n mod 8 < 8" by (simp_all add: div_less_iff_less_mult)
  then show "octal_digit (char_of (48 + n div 64))" "octal_digit (char_of (48 + n div 8 mod 8))"
    "octal_digit (char_of (48 + n mod 8))"
    using octal_digits by blast+
  have "n div 64 = n div 8 div 8" by (simp add: div_mult2_eq [symmetric])
  then have "(n div 64 * 8 + n div 8 mod 8) * 8 + n mod 8 = n" by simp
  then show "octal_byte (char_of (48 + n div 64)) (char_of (48 + n div 8 mod 8)) (char_of (48 + n mod 8)) = c"
    using octal_digits [OF d(1)] octal_digits [OF d(2)] octal_digits [OF d(3)] n
    by (simp add: octal_byte_def) (simp add: n_def)
qed

lemma unescape_octal: "unescapeMountField (octal_escape c @ s) = map_option (Cons c) (unescapeMountField s)"
  using octal_byte_escape [of c] by (simp add: octal_escape_def)

text \<open>
  Reading a mount point out of \<open>mountinfo\<close> undoes the kernel's escaping: whichever characters
  the kernel escapes (it always escapes the backslash), the original path comes back.
\<close>

theorem unescape_escape: "unescapeMountField (escapeMountField special s) = Some s"
proof (induction s)
  case (Cons c s)
  show ?case
  proof (cases "c = CHR 0x5C \<or> c \<in> special")
    case True
    with Cons unescape_octal [of c "escapeMountField special s"] show ?thesis
      by (simp add: escapeMountField_def)
  next
    case False
    with Cons show ?thesis by (simp add: escapeMountField_def)
  qed
qed (simp add: escapeMountField_def)

end
