(* ===== verification/Provider.thy ===== *)
theory Provider imports EventSet MountInfo begin

text \<open>
  \<open>eventheader/provider.go\<close>: a provider caches one event set per level, keyword and group, and owns
  them. An \<open>*EventSet\<close> is an index into \<open>pv_objects\<close>, the sets the provider has created, so that the
  caller's pointer and the cache's pointer are to the same set; \<open>pv_sets\<close> is the cache, in the order
  in which the map is iterated. \<open>createSet\<close> and \<open>closeFile\<close> are arguments, as they are fields in the
  code. The mutex makes each call one step.
\<close>


section \<open>Operations\<close>

datatype provider_state = providerZero | providerOpen | providerClosing | providerClosed

record event_set_key =
  ky_level :: u8
  ky_keyword :: u64
  ky_group :: string

record 'r provider =
  pv_name :: string
  pv_sets :: "(event_set_key \<times> nat) list"
  pv_state :: provider_state
  pv_ownFile :: bool
  pv_objects :: "'r event_set list"

type_synonym ('w, 'r) creator = "u8 \<Rightarrow> u64 \<Rightarrow> string \<Rightarrow> 'w \<Rightarrow> 'w \<times> 'r event_set option result"
type_synonym 'w closer = "'w \<Rightarrow> ('w \<times> unit result) option"

definition validateProviderName :: "string \<Rightarrow> unit result" where
  "validateProviderName name =
     bindR (validateProvider name) (\<lambda>_.
     if length name > MaxProviderGroupLength then fail ErrInvalidName else Inr ())"

text \<open>The flags say whether a creator and a file closer were passed.\<close>

definition newProvider :: "string \<Rightarrow> bool \<Rightarrow> bool \<Rightarrow> bool \<Rightarrow> 'r provider result" where
  "newProvider name ownFile create closeFile =
     bindR (validateProviderName name) (\<lambda>_.
     if \<not> create then fail ErrInvalidValue
     else if ownFile \<and> \<not> closeFile then fail ErrInvalidValue
     else Inr \<lparr>pv_name = name, pv_sets = [], pv_state = providerOpen, pv_ownFile = ownFile, pv_objects = []\<rparr>)"

definition NewProvider :: "user_file option \<Rightarrow> string \<Rightarrow> nat provider result" where
  "NewProvider file name =
     (case file of None \<Rightarrow> fail ErrInvalidValue | Some _ \<Rightarrow> newProvider name False True False)"

text \<open>\<open>Open\<close> of \<open>userevents_linux.go\<close>, and the provider that owns the file it opens.\<close>

definition Open_file :: "file_system \<Rightarrow> user_file result" where
  "Open_file fs = bindR (openDataFile fs) (\<lambda>(fd, path). Inr (newFile fd path))"

definition OpenProvider :: "file_system \<Rightarrow> kernel \<Rightarrow> string \<Rightarrow> (nat provider \<times> user_file) result" where
  "OpenProvider fs k name =
     bindR (validateProviderName name) (\<lambda>_.
     bindR (Open_file fs) (\<lambda>file.
     case newProvider name True True True of
       Inr p \<Rightarrow> Inr (p, file)
     | Inl Fault \<Rightarrow> Inl Fault
     | Inl (Fail e) \<Rightarrow>
       Inl (Fail (Joined (e # (case File_Close k file of Some (_, Inl (Fail e2)) \<Rightarrow> [e2] | _ \<Rightarrow> []))))))"

definition create_file_set :: "kernel \<Rightarrow> string \<Rightarrow> (user_file, nat) creator" where
  "create_file_set k name level keyword grp file =
     (case NewEventSet k name level keyword grp file of
        (file, Inl e) \<Rightarrow> (file, Inl e)
      | (file, Inr s) \<Rightarrow> (file, Inr (Some s)))"

text \<open>The second half of \<open>Provider.EventSet\<close>: create a set and put it into the cache.\<close>

definition cacheNew ::
  "('w, 'r) creator \<Rightarrow> event_set_key \<Rightarrow> 'r provider \<Rightarrow> 'w \<Rightarrow> 'r provider \<times> 'w \<times> nat result" where
  "cacheNew create key p w =
     (case create (ky_level key) (ky_keyword key) (ky_group key) w of
        (w, Inl e) \<Rightarrow> (p, w, Inl e)
      | (w, Inr None) \<Rightarrow> (p, w, fail ErrState)
      | (w, Inr (Some s)) \<Rightarrow>
        if es_registration s = None then (p, w, fail ErrState)
        else
          let i = length (pv_objects p) in
          (p\<lparr>pv_objects := pv_objects p @ [s], pv_sets := pv_sets p @ [(key, i)]\<rparr>, w, Inr i))"

definition Provider_EventSet ::
  "('w, 'r) registration_ops \<Rightarrow> ('w, 'r) creator \<Rightarrow> u8 \<Rightarrow> u64 \<Rightarrow> string \<Rightarrow> 'r provider \<Rightarrow> 'w
    \<Rightarrow> ('r provider \<times> 'w \<times> nat result) option" where
  "Provider_EventSet ops create level keyword grp p w =
     (if pv_state p \<noteq> providerOpen then Some (p, w, fail ErrClosed)
      else if level < LevelCritical \<or> level > LevelVerbose then Some (p, w, fail ErrInvalidLevel)
      else case validateGroup grp of
        Inl e \<Rightarrow> Some (p, w, Inl e)
      | Inr _ \<Rightarrow>
        if length (pv_name p) + length grp > MaxProviderGroupLength then Some (p, w, fail ErrInvalidName)
        else
          let key = \<lparr>ky_level = level, ky_keyword = keyword, ky_group = grp\<rparr> in
          case map_of (pv_sets p) key of
            None \<Rightarrow> Some (cacheNew create key p w)
          | Some i \<Rightarrow>
            let s = pv_objects p ! i in
            if \<not> EventSet_closed ops s w then Some (p, w, Inr i)
            else case EventSet_Close ops s w of
              None \<Rightarrow> None
            | Some (s, w, res) \<Rightarrow>
              let p = p\<lparr>pv_objects := (pv_objects p)[i := s]\<rparr> in
              (case res of
                 Inl e \<Rightarrow> Some (p, w, Inl e)
               | Inr _ \<Rightarrow> Some (cacheNew create key (p\<lparr>pv_sets := filter (\<lambda>(k, _). k \<noteq> key) (pv_sets p)\<rparr>) w)))"

text \<open>The loop of \<open>Provider.Close\<close>: what stays in the cache, and the errors.\<close>

fun closeSets ::
  "('w, 'r) registration_ops \<Rightarrow> (event_set_key \<times> nat) list \<Rightarrow> 'r event_set list \<Rightarrow> 'w
    \<Rightarrow> ((event_set_key \<times> nat) list \<times> 'r event_set list \<times> 'w \<times> goerr list) option" where
  "closeSets ops [] objs w = Some ([], objs, w, [])"
| "closeSets ops ((key, i) # sets) objs w =
     (case EventSet_Close ops (objs ! i) w of
        None \<Rightarrow> None
      | Some (s, w, res) \<Rightarrow>
        (case closeSets ops sets (objs[i := s]) w of
           None \<Rightarrow> None
         | Some (rest, objs, w, errs) \<Rightarrow>
           (case res of
              Inl (Fail e) \<Rightarrow> Some ((key, i) # rest, objs, w, e # errs)
            | _ \<Rightarrow> Some (rest, objs, w, errs))))"

definition Provider_Close ::
  "('w, 'r) registration_ops \<Rightarrow> 'w closer \<Rightarrow> 'r provider \<Rightarrow> 'w \<Rightarrow> ('r provider \<times> 'w \<times> unit result) option" where
  "Provider_Close ops closeFile p w =
     (if pv_state p = providerZero then Some (p, w, fail ErrClosed)
      else if pv_state p = providerClosed then Some (p, w, Inr ())
      else
        case closeSets ops (pv_sets p) (pv_objects p) w of
          None \<Rightarrow> None
        | Some (rest, objs, w, errs) \<Rightarrow>
          let p = p\<lparr>pv_state := providerClosing, pv_sets := rest, pv_objects := objs\<rparr> in
          if errs \<noteq> [] then Some (p, w, Inl (Fail (Joined errs)))
          else if pv_ownFile p then
            (case closeFile w of
               None \<Rightarrow> None
             | Some (w, Inl e) \<Rightarrow> Some (p, w, Inl e)
             | Some (w, Inr _) \<Rightarrow> Some (p\<lparr>pv_state := providerClosed\<rparr>, w, Inr ()))
          else Some (p\<lparr>pv_state := providerClosed\<rparr>, w, Inr ()))"


section \<open>What a provider relies on, and its invariant\<close>

text \<open>
  \<open>create k\<close> and \<open>close_file k\<close> are the creator and the file closer for the environment's answers
  \<open>k\<close>; \<open>valid w r\<close> says that \<open>r\<close> is a registration of the state \<open>w\<close>, and \<open>good k\<close> that the
  environment does not refuse to release anything.
\<close>

locale set_creator = event_registration ops ok
  for ops :: "'k \<Rightarrow> ('w, 'r) registration_ops" and ok :: "'w \<Rightarrow> bool" +
  fixes create :: "'k \<Rightarrow> ('w, 'r) creator" and close_file :: "'k \<Rightarrow> 'w closer" and valid :: "'w \<Rightarrow> 'r \<Rightarrow> bool"
    and good :: "'k \<Rightarrow> bool"
  assumes close_valid: "ok w \<Longrightarrow> op_Close (ops k) r w = Some (w', res) \<Longrightarrow> valid w r' \<Longrightarrow> valid w' r'"
    and create_ok: "ok w \<Longrightarrow> create k l kw g w = (w', made) \<Longrightarrow> ok w' \<and> safe made"
    and create_keeps: "ok w \<Longrightarrow> create k l kw g w = (w', made) \<Longrightarrow> valid w r \<Longrightarrow>
      valid w' r \<and> op_Closed (ops k) r w' = op_Closed (ops k) r w"
    and create_new: "ok w \<Longrightarrow> create k l kw g w = (w', Inr (Some s)) \<Longrightarrow> es_registration s = Some r \<Longrightarrow>
      valid w' r \<and> \<not> op_Closed (ops k) r w' \<and> es_level s = l \<and> es_keyword s = kw \<and> \<not> es_closeDone s"
    and close_file_returns: "ok w \<Longrightarrow> \<exists>w' res. close_file k w = Some (w', res) \<and> ok w' \<and> safe res \<and>
      (\<forall>r. valid w r \<longrightarrow> valid w' r \<and> (op_Closed (ops k) r w \<longrightarrow> op_Closed (ops k) r w'))"
    and good_close: "ok w \<Longrightarrow> good k \<Longrightarrow> valid w r \<Longrightarrow> \<exists>w'. op_Close (ops k) r w = Some (w', Inr ())"
    and good_close_file: "ok w \<Longrightarrow> good k \<Longrightarrow> \<exists>w'. close_file k w = Some (w', Inr ())"

definition provider_ok ::
  "('w, 'r) registration_ops \<Rightarrow> ('w \<Rightarrow> bool) \<Rightarrow> ('w \<Rightarrow> 'r \<Rightarrow> bool) \<Rightarrow> 'r provider \<Rightarrow> 'w \<Rightarrow> bool" where
  "provider_ok ops ok valid p w \<longleftrightarrow>
     ok w \<and> pv_state p \<noteq> providerZero \<and> distinct (map fst (pv_sets p)) \<and> distinct (map snd (pv_sets p)) \<and>
     (\<forall>s\<in>set (pv_objects p). \<exists>r. es_registration s = Some r \<and> valid w r) \<and>
     (\<forall>(key, i)\<in>set (pv_sets p). i < length (pv_objects p) \<and> es_level (pv_objects p ! i) = ky_level key \<and>
        es_keyword (pv_objects p ! i) = ky_keyword key) \<and>
     (\<forall>i < length (pv_objects p). i \<notin> snd ` set (pv_sets p) \<longrightarrow> EventSet_closed ops (pv_objects p ! i) w) \<and>
     (pv_state p = providerClosed \<longrightarrow> pv_sets p = [])"

lemma provider_object: "provider_ok ops ok valid p w \<Longrightarrow> i < length (pv_objects p) \<Longrightarrow>
    \<exists>r. es_registration (pv_objects p ! i) = Some r \<and> valid w r"
  unfolding provider_ok_def using nth_mem by blast

lemma provider_cached: "provider_ok ops ok valid p w \<Longrightarrow> (key, i) \<in> set (pv_sets p) \<Longrightarrow>
    i < length (pv_objects p) \<and> es_level (pv_objects p ! i) = ky_level key \<and>
    es_keyword (pv_objects p ! i) = ky_keyword key"
  unfolding provider_ok_def by blast

lemma provider_uncached: "provider_ok ops ok valid p w \<Longrightarrow> i < length (pv_objects p) \<Longrightarrow>
    i \<notin> snd ` set (pv_sets p) \<Longrightarrow> EventSet_closed ops (pv_objects p ! i) w"
  unfolding provider_ok_def by blast

context set_creator
begin

lemma provider_ok_eq: "provider_ok (ops k) ok valid p w = provider_ok (ops k') ok valid p w"
  unfolding provider_ok_def by (simp only: set_closed_eq [of k _ _ k'])

text \<open>The state may change under a provider as long as registrations stay, and stay closed.\<close>

lemma provider_ok_world:
  assumes "provider_ok (ops k) ok valid p w" "ok w'"
    "\<And>r. valid w r \<Longrightarrow> valid w' r \<and> (op_Closed (ops k) r w \<longrightarrow> op_Closed (ops k) r w')"
  shows "provider_ok (ops k) ok valid p w'"
proof -
  have "EventSet_closed (ops k) (pv_objects p ! i) w'" if i: "i < length (pv_objects p)"
    and c: "EventSet_closed (ops k) (pv_objects p ! i) w" for i
  proof -
    obtain r where "es_registration (pv_objects p ! i) = Some r" "valid w r"
      using provider_object [OF assms(1) i] by blast
    with c assms(3) [of r] show ?thesis by (auto simp: EventSet_closed_def)
  qed
  with assms show ?thesis unfolding provider_ok_def by blast
qed

lemma EventSet_Close_frame:
  assumes "ok w" "EventSet_Close (ops k) s w = Some (s', w', res)"
  shows "ok w'" "safe res" "es_registration s' = es_registration s" "es_level s' = es_level s"
    "es_keyword s' = es_keyword s" "res = Inr () \<Longrightarrow> EventSet_closed (ops k) s' w'"
    "EventSet_closed (ops k) t w \<Longrightarrow> EventSet_closed (ops k) t w'"
    "EventSet_closed (ops k) s w \<Longrightarrow> EventSet_closed (ops k) s' w'"
    "valid w r \<Longrightarrow> valid w' r \<and> (op_Closed (ops k) r w \<longrightarrow> op_Closed (ops k) r w')"
proof -
  show "ok w'" "safe res" "es_registration s' = es_registration s"
    "res = Inr () \<Longrightarrow> EventSet_closed (ops k) s' w'" "EventSet_closed (ops k) t w \<Longrightarrow> EventSet_closed (ops k) t w'"
    "EventSet_closed (ops k) s w \<Longrightarrow> EventSet_closed (ops k) s' w'"
    using close_returns_set [OF assms(1), of k s] assms(2) by auto
  show "es_level s' = es_level s" "es_keyword s' = es_keyword s"
    using assms(2) by (auto simp: EventSet_Close_def split: option.splits if_splits)
  show "valid w' r \<and> (op_Closed (ops k) r w \<longrightarrow> op_Closed (ops k) r w')" if "valid w r"
  proof (cases "es_registration s")
    case None
    with assms(2) that show ?thesis by (simp add: EventSet_Close_def)
  next
    case (Some r')
    then have "op_Close (ops k) r' w = Some (w', res)" using assms(2) by (auto simp: EventSet_Close_def)
    with close_valid [OF assms(1)] close_keeps_closed [OF assms(1)] that show ?thesis by blast
  qed
qed

text \<open>Closing one of the sets, by the provider or by a caller.\<close>

lemma provider_ok_close:
  assumes p: "provider_ok (ops k) ok valid p w" and i: "i < length (pv_objects p)"
    and c: "EventSet_Close (ops k) (pv_objects p ! i) w = Some (s', w', res)"
  shows "provider_ok (ops k) ok valid (p\<lparr>pv_objects := (pv_objects p)[i := s']\<rparr>) w'"
proof -
  have ok: "ok w" using p by (simp add: provider_ok_def)
  note f = EventSet_Close_frame [OF ok c]
  have p': "provider_ok (ops k) ok valid p w'" by (rule provider_ok_world [OF p f(1) f(9)])
  have cl: "EventSet_closed (ops k) ((pv_objects p)[i := s'] ! j) w'"
    if "j < length (pv_objects p)" "j \<notin> snd ` set (pv_sets p)" for j
  proof (cases "j = i")
    case True
    with that p have "EventSet_closed (ops k) (pv_objects p ! i) w" by (auto simp: provider_ok_def)
    with True i f(8) show ?thesis by simp
  next
    case False
    with that p' show ?thesis by (auto simp: provider_ok_def)
  qed
  have regs: "\<forall>s\<in>set ((pv_objects p)[i := s']). \<exists>r. es_registration s = Some r \<and> valid w' r"
    using p' i f(3) by (auto simp: provider_ok_def dest!: subsetD [OF set_update_subset_insert])
  have lv: "es_level ((pv_objects p)[i := s'] ! j) = es_level (pv_objects p ! j)"
    "es_keyword ((pv_objects p)[i := s'] ! j) = es_keyword (pv_objects p ! j)" for j
    using f(4,5) i by (auto simp: nth_list_update)
  show ?thesis
    using p' cl regs by (auto simp: provider_ok_def lv)
qed

text \<open>A new set enters the cache.\<close>

lemma cacheNew_ok:
  assumes p: "provider_ok (ops k) ok valid p w" and st: "pv_state p = providerOpen"
    and fresh: "key \<notin> fst ` set (pv_sets p)" and c: "cacheNew (create k) key p w = (p', w', res)"
  shows "provider_ok (ops k) ok valid p' w' \<and> safe res \<and> pv_name p' = pv_name p \<and> pv_state p' = pv_state p \<and>
    (\<forall>i. res = Inr i \<longrightarrow> map_of (pv_sets p') key = Some i \<and> \<not> EventSet_closed (ops k) (pv_objects p' ! i) w')"
proof -
  obtain w1 made where m: "create k (ky_level key) (ky_keyword key) (ky_group key) w = (w1, made)"
    by (cases "create k (ky_level key) (ky_keyword key) (ky_group key) w")
  have ok: "ok w" using p by (simp add: provider_ok_def)
  have w1: "ok w1" "safe made" using create_ok [OF ok m] by auto
  have p1: "provider_ok (ops k) ok valid p w1"
    by (rule provider_ok_world [OF p w1(1)]) (use create_keeps [OF ok m] in auto)
  show ?thesis
  proof (cases "\<exists>s r. made = Inr (Some s) \<and> es_registration s = Some r")
    case False
    then have "p' = p" "w' = w1" "\<nexists>i. res = Inr i" "safe res"
      using c m w1(2) by (auto simp: cacheNew_def safe_def Let_def split: sum.splits option.splits if_splits)
    with p1 show ?thesis by auto
  next
    case True
    then obtain s r where s: "made = Inr (Some s)" "es_registration s = Some r" by blast
    let ?i = "length (pv_objects p)"
    have eq: "p' = p\<lparr>pv_objects := pv_objects p @ [s], pv_sets := pv_sets p @ [(key, ?i)]\<rparr>" "w' = w1" "res = Inr ?i"
      using c m s by (simp_all add: cacheNew_def Let_def)
    note n = create_new [OF ok m [unfolded s(1)] s(2)]
    have "?i \<notin> snd ` set (pv_sets p)" using provider_cached [OF p] by fastforce
    moreover have "map_of (pv_sets p @ [(key, ?i)]) key = Some ?i"
      using fresh by (simp add: map_add_Some_iff map_of_eq_None_iff)
    moreover have "provider_ok (ops k) ok valid p' w1"
      using p1 n s(2) fresh calculation(1) provider_cached [OF p1] st
      unfolding provider_ok_def eq
      by (auto simp: nth_append less_Suc_eq image_iff split: if_splits)
    moreover have "\<not> EventSet_closed (ops k) s w1" using n s(2) by (simp add: EventSet_closed_def)
    ultimately show ?thesis by (simp add: eq)
  qed
qed

text \<open>\<open>Provider.EventSet\<close> returns, and a set it returns is cached under its key and is open.\<close>

lemma EventSet_outcome:
  assumes "provider_ok (ops k) ok valid p w"
  defines "key \<equiv> \<lambda>level keyword grp. \<lparr>ky_level = level, ky_keyword = keyword, ky_group = grp\<rparr>"
  shows "\<exists>p' w' res. Provider_EventSet (ops k) (create k) level keyword grp p w = Some (p', w', res) \<and>
    provider_ok (ops k) ok valid p' w' \<and> safe res \<and> pv_name p' = pv_name p \<and> pv_state p' = pv_state p \<and>
    (\<forall>i. res = Inr i \<longrightarrow> pv_state p = providerOpen \<and> map_of (pv_sets p') (key level keyword grp) = Some i \<and>
       \<not> EventSet_closed (ops k) (pv_objects p' ! i) w')"
proof (cases "pv_state p \<noteq> providerOpen \<or> level < LevelCritical \<or> level > LevelVerbose \<or> validateGroup grp \<noteq> Inr () \<or>
    length (pv_name p) + length grp > MaxProviderGroupLength")
  case True
  moreover have "validateGroup grp = Inr () \<or> validateGroup grp = fail ErrInvalidName"
    by (simp add: validateGroup_def)
  ultimately show ?thesis
    using assms(1) by (cases "validateGroup grp") (auto simp: Provider_EventSet_def)
next
  case False
  let ?k = "key level keyword grp"
  have st: "pv_state p = providerOpen" using False by simp
  have P: "Provider_EventSet (ops k) (create k) level keyword grp p w =
     (case map_of (pv_sets p) ?k of
        None \<Rightarrow> Some (cacheNew (create k) ?k p w)
      | Some i \<Rightarrow>
        if \<not> EventSet_closed (ops k) (pv_objects p ! i) w then Some (p, w, Inr i)
        else case EventSet_Close (ops k) (pv_objects p ! i) w of
          None \<Rightarrow> None
        | Some (s, w, res) \<Rightarrow>
          let p = p\<lparr>pv_objects := (pv_objects p)[i := s]\<rparr> in
          (case res of
             Inl e \<Rightarrow> Some (p, w, Inl e)
           | Inr _ \<Rightarrow> Some (cacheNew (create k) ?k (p\<lparr>pv_sets := filter (\<lambda>(k, _). k \<noteq> ?k) (pv_sets p)\<rparr>) w)))"
    using False unfolding Provider_EventSet_def key_def Let_def by simp
  show ?thesis
  proof (cases "map_of (pv_sets p) ?k")
    case None
    then have "?k \<notin> fst ` set (pv_sets p)" by (simp add: map_of_eq_None_iff)
    with cacheNew_ok [OF assms(1) st this] None P st show ?thesis by (cases "cacheNew (create k) ?k p w") auto
  next
    case (Some i)
    then have i: "i < length (pv_objects p)" using provider_cached [OF assms(1)] by (meson map_of_SomeD)
    show ?thesis
    proof (cases "EventSet_closed (ops k) (pv_objects p ! i) w")
      case False
      with P Some assms(1) st show ?thesis by auto
    next
      case closed: True
      have ok: "ok w" using assms(1) by (simp add: provider_ok_def)
      obtain s' w' res where c: "EventSet_Close (ops k) (pv_objects p ! i) w = Some (s', w', res)"
        using close_returns_set [OF ok] by blast
      let ?p = "p\<lparr>pv_objects := (pv_objects p)[i := s']\<rparr>"
      note p1 = provider_ok_close [OF assms(1) i c] and f = EventSet_Close_frame [OF ok c]
      show ?thesis
      proof (cases res)
        case (Inl e)
        with P Some closed c p1 f(2) show ?thesis by (auto simp: safe_def)
      next
        case (Inr u)
        let ?q = "?p\<lparr>pv_sets := filter (\<lambda>(k, _). k \<noteq> ?k) (pv_sets p)\<rparr>"
        have "distinct (map fst (pv_sets p))" using assms(1) by (simp add: provider_ok_def)
        then have only: "j = i" if "(?k, j) \<in> set (pv_sets p)" for j
          using that Some by (auto dest: map_of_is_SomeI)
        have q: "provider_ok (ops k) ok valid ?q w'"
        proof -
          have sub: "j = i \<or> j \<in> snd ` set (pv_sets ?q)" if "j \<in> snd ` set (pv_sets p)" for j
            using that only by auto
          have "EventSet_closed (ops k) (pv_objects ?q ! j) w'"
            if j: "j < length (pv_objects p)" "j \<notin> snd ` set (pv_sets ?q)" for j
          proof (cases "j = i")
            case True
            with f(6) Inr i show ?thesis by simp
          next
            case False
            with sub j(2) have "j \<notin> snd ` set (pv_sets ?p)" by auto
            from provider_uncached [OF p1 _ this] j(1) show ?thesis by simp
          qed
          with p1 st show ?thesis
            unfolding provider_ok_def by (auto simp: distinct_map_filter)
        qed
        have "?k \<notin> fst ` set (pv_sets ?q)" by auto
        from cacheNew_ok [OF q _ this] st P Some closed c Inr show ?thesis
          by (cases "cacheNew (create k) ?k ?q w'") auto
      qed
    qed
  qed
qed

text \<open>The loop over the cache.\<close>

lemma closeSets_outcome:
  assumes "ok w" "\<forall>s\<in>set objs. \<exists>r. es_registration s = Some r \<and> valid w r" "distinct (map snd sets)"
    "\<forall>(key, i)\<in>set sets. i < length objs"
  shows "\<exists>rest objs' w' errs. closeSets (ops k) sets objs w = Some (rest, objs', w', errs) \<and> ok w' \<and>
    length objs' = length objs \<and> length errs = length rest \<and> (\<exists>P. rest = filter P sets) \<and>
    (\<forall>r. valid w r \<longrightarrow> valid w' r \<and> (op_Closed (ops k) r w \<longrightarrow> op_Closed (ops k) r w')) \<and>
    (\<forall>i. es_registration (objs' ! i) = es_registration (objs ! i) \<and> es_level (objs' ! i) = es_level (objs ! i) \<and>
       es_keyword (objs' ! i) = es_keyword (objs ! i)) \<and>
    (\<forall>i. i < length objs \<longrightarrow> (i \<in> snd ` set sets \<and> i \<notin> snd ` set rest \<or> EventSet_closed (ops k) (objs ! i) w) \<longrightarrow>
       EventSet_closed (ops k) (objs' ! i) w')"
  using assms
proof (induction sets arbitrary: objs w)
  case Nil
  then show ?case by simp
next
  case (Cons ki sets)
  obtain key i where ki: "ki = (key, i)" by (cases ki)
  have i: "i < length objs" using Cons.prems(4) ki by simp
  obtain s' w1 res where c: "EventSet_Close (ops k) (objs ! i) w = Some (s', w1, res)"
    using close_returns_set [OF Cons.prems(1), of k "objs ! i"] by blast
  note f = EventSet_Close_frame [OF Cons.prems(1) c]
  let ?objs = "objs[i := s']"
  have regs: "\<forall>s\<in>set ?objs. \<exists>r. es_registration s = Some r \<and> valid w1 r"
    using Cons.prems(2) f(3,9) i by (metis in_set_conv_nth length_list_update nth_list_update_eq nth_list_update_neq nth_mem)
  have "distinct (map snd sets)" "\<forall>(key, i)\<in>set sets. i < length ?objs" using Cons.prems(3,4) by auto
  from Cons.IH [OF f(1) regs this] obtain rest objs' w' errs
    where r: "closeSets (ops k) sets ?objs w1 = Some (rest, objs', w', errs)" "ok w'" "length objs' = length objs"
      "length errs = length rest" "\<exists>P. rest = filter P sets"
    and v: "\<forall>r. valid w1 r \<longrightarrow> valid w' r \<and> (op_Closed (ops k) r w1 \<longrightarrow> op_Closed (ops k) r w')"
    and e: "\<forall>j. es_registration (objs' ! j) = es_registration (?objs ! j) \<and> es_level (objs' ! j) = es_level (?objs ! j) \<and>
       es_keyword (objs' ! j) = es_keyword (?objs ! j)"
    and cl: "\<forall>j. j < length objs \<longrightarrow> (j \<in> snd ` set sets \<and> j \<notin> snd ` set rest \<or> EventSet_closed (ops k) (?objs ! j) w1) \<longrightarrow>
       EventSet_closed (ops k) (objs' ! j) w'"
    unfolding length_list_update by blast
  obtain P where P: "rest = filter P sets" using r(5) by blast
  define rest' where "rest' = (if res = Inr () then rest else ki # rest)"
  obtain errs' where eq: "closeSets (ops k) (ki # sets) objs w = Some (rest', objs', w', errs')" "length errs' = length rest'"
  proof (cases res)
    case (Inl e)
    then obtain e' where "e = Fail e'" using f(2) by (cases e) (auto simp: safe_def)
    with Inl that [of "e' # errs"] show ?thesis using c r ki by (simp add: rest'_def)
  next
    case (Inr u)
    with that [of errs] show ?thesis using c r ki by (simp add: rest'_def)
  qed
  have notin: "i \<notin> snd ` set sets" using Cons.prems(3) ki by (auto simp: image_iff)
  then have "ki \<notin> set sets" using ki by force
  then have "rest' = filter (\<lambda>x. if x = ki then res \<noteq> Inr () else P x) (ki # sets)"
    using ki by (auto simp: rest'_def P intro!: filter_cong)
  then have filt: "\<exists>P. rest' = filter P (ki # sets)" by blast
  have closed: "EventSet_closed (ops k) (objs' ! j) w'" if j: "j < length objs"
    "j \<in> snd ` set (ki # sets) \<and> j \<notin> snd ` set rest' \<or> EventSet_closed (ops k) (objs ! j) w" for j
  proof (cases "j = i")
    case True
    have "i \<notin> snd ` set rest" using notin P by auto
    then have "res = Inr () \<or> EventSet_closed (ops k) (objs ! i) w" using j(2) True ki by (auto simp: rest'_def split: if_splits)
    then have "EventSet_closed (ops k) s' w1" using f(6,8) by blast
    with cl i True show ?thesis by auto
  next
    case False
    then have "j \<in> snd ` set sets \<and> j \<notin> snd ` set rest \<or> EventSet_closed (ops k) (objs ! j) w1"
      using j(2) ki f(7) by (auto simp: rest'_def split: if_splits)
    with cl j(1) False show ?thesis by auto
  qed
  have ee: "es_registration (objs' ! j) = es_registration (objs ! j)" "es_level (objs' ! j) = es_level (objs ! j)"
      "es_keyword (objs' ! j) = es_keyword (objs ! j)" for j
    using e f(3-5) i by (cases "j = i"; simp)+
  have vv: "\<forall>r. valid w r \<longrightarrow> valid w' r \<and> (op_Closed (ops k) r w \<longrightarrow> op_Closed (ops k) r w')"
    using v f(9) by blast
  show ?case
    by (intro exI [of _ rest'] exI [of _ objs'] exI [of _ w'] exI [of _ errs'])
       (use eq r(2,3) filt closed ee vv in auto)
qed

lemma closeSets_good:
  assumes "ok w" "good k" "\<forall>s\<in>set objs. \<exists>r. es_registration s = Some r \<and> valid w r"
    "\<forall>(key, i)\<in>set sets. i < length objs" "closeSets (ops k) sets objs w = Some (rest, objs', w', errs)"
  shows "errs = []"
  using assms
proof (induction sets arbitrary: objs w rest errs)
  case (Cons ki sets)
  obtain key i where ki: "ki = (key, i)" by (cases ki)
  have i: "i < length objs" using Cons.prems(4) ki by simp
  then obtain r where r: "es_registration (objs ! i) = Some r" "valid w r" using Cons.prems(3) nth_mem by blast
  obtain w1 where w1: "op_Close (ops k) r w = Some (w1, Inr ())" using good_close [OF Cons.prems(1,2) r(2)] by blast
  then have c: "EventSet_Close (ops k) (objs ! i) w = Some ((objs ! i)\<lparr>es_closeDone := True\<rparr>, w1, Inr ())"
    using r by (simp add: EventSet_Close_def)
  note f = EventSet_Close_frame [OF Cons.prems(1) c]
  let ?objs = "objs[i := (objs ! i)\<lparr>es_closeDone := True\<rparr>]"
  have regs: "\<forall>s\<in>set ?objs. \<exists>r. es_registration s = Some r \<and> valid w1 r"
    using Cons.prems(3) f(3,9) i by (metis in_set_conv_nth length_list_update nth_list_update_eq nth_list_update_neq nth_mem)
  have "\<forall>(key, i)\<in>set sets. i < length ?objs" using Cons.prems(4) by auto
  moreover obtain rest' where "closeSets (ops k) sets ?objs w1 = Some (rest', objs', w', errs)"
    using Cons.prems(5) ki c by (auto split: option.splits)
  ultimately show ?case by (rule Cons.IH [OF f(1) Cons.prems(2) regs])
qed simp

text \<open>\<open>Provider.Close\<close>.\<close>

lemma Close_outcome:
  assumes p: "provider_ok (ops k) ok valid p w"
  shows "\<exists>p' w' res. Provider_Close (ops k) (close_file k) p w = Some (p', w', res) \<and>
    provider_ok (ops k) ok valid p' w' \<and> safe res \<and> length (pv_objects p') = length (pv_objects p) \<and>
    (res = Inr () \<longleftrightarrow> pv_state p' = providerClosed) \<and>
    (pv_state p' \<noteq> providerClosed \<longrightarrow> pv_state p' = providerClosing \<and> set (pv_sets p') \<subseteq> set (pv_sets p)) \<and>
    (good k \<longrightarrow> pv_state p' = providerClosed)"
proof (cases "pv_state p = providerClosed")
  case True
  with p show ?thesis by (auto simp: Provider_Close_def provider_ok_def)
next
  case False
  have ok: "ok w" and zero: "pv_state p \<noteq> providerZero" and d: "distinct (map snd (pv_sets p))" "distinct (map fst (pv_sets p))"
    and reg: "\<forall>s\<in>set (pv_objects p). \<exists>r. es_registration s = Some r \<and> valid w r"
    using p by (auto simp: provider_ok_def)
  have range: "\<forall>(key, i)\<in>set (pv_sets p). i < length (pv_objects p)" using provider_cached [OF p] by blast
  from closeSets_outcome [OF ok reg d(1) range, of k] obtain rest objs w1 errs P
    where c: "closeSets (ops k) (pv_sets p) (pv_objects p) w = Some (rest, objs, w1, errs)" "ok w1"
      "length objs = length (pv_objects p)" "length errs = length rest" "rest = filter P (pv_sets p)"
    and v: "\<forall>r. valid w r \<longrightarrow> valid w1 r \<and> (op_Closed (ops k) r w \<longrightarrow> op_Closed (ops k) r w1)"
    and e: "\<forall>i. es_registration (objs ! i) = es_registration (pv_objects p ! i) \<and>
       es_level (objs ! i) = es_level (pv_objects p ! i) \<and> es_keyword (objs ! i) = es_keyword (pv_objects p ! i)"
    and cl: "\<forall>i. i < length (pv_objects p) \<longrightarrow> (i \<in> snd ` set (pv_sets p) \<and> i \<notin> snd ` set rest \<or>
       EventSet_closed (ops k) (pv_objects p ! i) w) \<longrightarrow> EventSet_closed (ops k) (objs ! i) w1"
    by blast
  let ?p = "\<lambda>st. p\<lparr>pv_state := st, pv_sets := rest, pv_objects := objs\<rparr>"
  have regs: "\<forall>s\<in>set objs. \<exists>r. es_registration s = Some r \<and> valid w1 r"
    using reg e v c(3) by (metis in_set_conv_nth)
  have unc: "EventSet_closed (ops k) (objs ! i) w1" if "i < length objs" "i \<notin> snd ` set rest" for i
    using cl that c(3) provider_uncached [OF p, of i] by auto
  have p1: "provider_ok (ops k) ok valid (?p st) w1" if "st = providerClosing \<or> st = providerClosed \<and> rest = []" for st
    using that d c(2,3,5) e regs unc provider_cached [OF p] unfolding provider_ok_def
    by (auto simp: distinct_map_filter)
  have P: "Provider_Close (ops k) (close_file k) p w =
     (if errs \<noteq> [] then Some (?p providerClosing, w1, Inl (Fail (Joined errs)))
      else if pv_ownFile p then
        (case close_file k w1 of
           None \<Rightarrow> None
         | Some (w, Inl e) \<Rightarrow> Some (?p providerClosing, w, Inl e)
         | Some (w, Inr _) \<Rightarrow> Some (?p providerClosed, w, Inr ()))
      else Some (?p providerClosed, w1, Inr ()))"
    using False zero c(1) by (auto simp: Provider_Close_def Let_def split: option.splits sum.splits)
  have good: "good k \<longrightarrow> errs = []" using closeSets_good [OF ok _ reg range c(1)] by blast
  show ?thesis
  proof (cases "errs = []")
    case False
    with P p1 [of providerClosing] good c(3,5) show ?thesis by auto
  next
    case True
    then have r: "rest = []" using c(4) by simp
    show ?thesis
    proof (cases "pv_ownFile p")
      case False
      with True r P p1 [of providerClosed] c(3) show ?thesis by auto
    next
      case own: True
      obtain w' res where f: "close_file k w1 = Some (w', res)" "ok w'" "safe res"
        "\<forall>r. valid w1 r \<longrightarrow> valid w' r \<and> (op_Closed (ops k) r w1 \<longrightarrow> op_Closed (ops k) r w')"
        using close_file_returns [OF c(2)] by blast
      have p2: "provider_ok (ops k) ok valid (?p st) w'" if "st = providerClosing \<or> st = providerClosed" for st
        using provider_ok_world [OF p1 f(2)] f(4) that r by blast
      have g: "good k \<longrightarrow> res = Inr ()" using good_close_file [OF c(2)] f(1) by fastforce
      show ?thesis
      proof (cases res)
        case (Inl e)
        with True own P f p2 [of providerClosing] g c(3) r show ?thesis by (auto simp: safe_def)
      next
        case (Inr u)
        with True own P f p2 [of providerClosed] c(3) show ?thesis by auto
      qed
    qed
  qed
qed

end


section \<open>Providers over a data file\<close>

definition file_valid :: "user_file \<Rightarrow> nat \<Rightarrow> bool" where
  "file_valid f a \<longleftrightarrow> a < length (uf_objects f)"

definition good_kernel :: "kernel \<Rightarrow> bool" where
  "good_kernel k \<longleftrightarrow> releases k \<and> (\<forall>fd. k_close k fd = None)"

lemma Registration_Close_length:
  "Registration_Close k a f = Some (f', res) \<Longrightarrow> length (uf_objects f') = length (uf_objects f)"
  by (auto simp: Registration_Close_def store_def Let_def split: option.splits if_splits)

lemma Register_cases:
  "Register k name defs flags f = (f', Inl e) \<Longrightarrow> f' = f"
  "Register k name defs flags f = (f', Inr a) \<Longrightarrow>
     \<exists>r. rg_lifecycle r = registrationOpen \<and> a = length (uf_objects f) \<and>
       f' = f\<lparr>uf_regs := uf_regs f @ [a], uf_objects := uf_objects f @ [r]\<rparr>"
   apply (auto simp: Register_def Let_def split: sum.splits option.splits if_splits)
  apply (rule exI, rule conjI [rotated], rule refl, simp)
  done

lemma Register_safe: "safe (snd (Register k name defs flags f))"
proof -
  have "safe (makeRegistrationCommand name defs flags)"
    by (auto simp: makeRegistrationCommand_def validateName_def Let_def bindR_def safe_def)
  then show ?thesis by (auto simp: Register_def Let_def safe_def split: sum.splits option.splits)
qed

lemma TracepointName_safe: "safe (TracepointName provider level keyword grp)"
  by (auto simp: TracepointName_def validateProvider_def validateGroup_def Let_def bindR_def safe_def)

lemma create_file_set_cases:
  assumes "create_file_set k name l kw g f = (f', made)"
  obtains (failed) e where "f' = f" "made = Inl e" "safe made"
  | (made) r s where "rg_lifecycle r = registrationOpen" "es_registration s = Some (length (uf_objects f))"
      "f' = f\<lparr>uf_regs := uf_regs f @ [length (uf_objects f)], uf_objects := uf_objects f @ [r]\<rparr>"
      "made = Inr (Some s)" "es_level s = l" "es_keyword s = kw" "\<not> es_closeDone s"
      "f' = fst (Register k (es_name s) TracepointFields 0 f)" "TracepointName name l kw g = Inr (es_name s)"
proof (cases "TracepointName name l kw g")
  case (Inl e)
  then show ?thesis
    using assms TracepointName_safe [of name l kw g]
    by (intro failed [of e]) (auto simp: create_file_set_def NewEventSet_def safe_def)
next
  case (Inr n)
  obtain f1 res where r: "Register k n TracepointFields 0 f = (f1, res)" by (cases "Register k n TracepointFields 0 f")
  show ?thesis
  proof (cases res)
    case (Inl e)
    then show ?thesis
      using assms Inr r Register_cases(1) Register_safe [of k n TracepointFields 0 f]
      by (intro failed [of e]) (auto simp: create_file_set_def NewEventSet_def safe_def)
  next
    case made': (Inr a)
    obtain reg where "rg_lifecycle reg = registrationOpen" "a = length (uf_objects f)"
      "f1 = f\<lparr>uf_regs := uf_regs f @ [a], uf_objects := uf_objects f @ [reg]\<rparr>"
      using Register_cases(2) r made' by blast
    then show ?thesis
      using assms Inr r made'
      by (intro made [of reg "\<lparr>es_registration = Some a, es_name = n, es_level = l, es_keyword = kw, es_closeDone = False\<rparr>"])
         (auto simp: create_file_set_def NewEventSet_def)
  qed
qed

lemma close_all_frame:
  "file_ok (f\<lparr>uf_state := st\<rparr>) \<Longrightarrow> close_all k as f = Some (f', errs) \<Longrightarrow>
     length (uf_objects f') = length (uf_objects f) \<and> (Registration_Closed b f \<longrightarrow> Registration_Closed b f')"
proof (induction as arbitrary: f errs)
  case (Cons a as)
  then obtain f1 res errs1 where c: "Registration_Close k a f = Some (f1, res)" "close_all k as f1 = Some (f', errs1)"
    by (auto split: option.splits)
  let ?f = "f\<lparr>uf_state := st\<rparr>"
  have d: "deref (g\<lparr>uf_state := st\<rparr>) x = deref g x"
    "Registration_Closed x (g\<lparr>uf_state := st\<rparr>) = Registration_Closed x g" for x g
    by (simp_all add: deref_def Registration_Closed_def)
  have c': "Registration_Close k a ?f = Some (f1\<lparr>uf_state := st\<rparr>, res)"
    using c(1) by (auto simp: Registration_Close_def d store_def Let_def split: option.splits if_splits)
  have "file_ok (f1\<lparr>uf_state := st\<rparr>)" by (rule Registration_Close_ok [OF Cons.prems(1) c'])
  from Cons.IH [OF this c(2)] Registration_Close_mono [OF Cons.prems(1) c', of b] Registration_Close_length [OF c(1)] d
  show ?case by auto
qed simp

lemma File_Close_done:
  assumes "file_ok f" "uf_state f \<noteq> fileOpen"
  shows "File_Close k f = Some (f, Inr ())"
  using assms by (cases "uf_state f") (auto simp: File_Close_def file_ok_def)

lemma File_Close_frame:
  assumes "file_ok f" "File_Close k f = Some (f', res)"
  shows "length (uf_objects f') = length (uf_objects f)" "Registration_Closed b f \<Longrightarrow> Registration_Closed b f'"
proof -
  have "length (uf_objects f') = length (uf_objects f) \<and> (Registration_Closed b f \<longrightarrow> Registration_Closed b f')"
  proof (cases "uf_state f = fileOpen")
    case True
    have "(f\<lparr>uf_state := fileClosing\<rparr>)\<lparr>uf_state := fileOpen\<rparr> = f" using True by simp
    then have ok: "file_ok ((f\<lparr>uf_state := fileClosing\<rparr>)\<lparr>uf_state := fileOpen\<rparr>)" using assms(1) by simp
    have ready: "uf_ready f" using assms(1) by (simp add: file_ok_def)
    obtain f1 errs where c: "close_all k (uf_regs f) (f\<lparr>uf_state := fileClosing\<rparr>) = Some (f1, errs)"
      using assms(2) True ready by (auto simp: File_Close_def split: option.splits)
    then have "uf_objects f' = uf_objects f1"
      using assms(2) True ready by (auto simp: File_Close_def split: if_splits)
    then have "Registration_Closed b f' = Registration_Closed b f1" by (simp add: Registration_Closed_def deref_def)
    then show ?thesis
      using close_all_frame [OF ok c, of b] \<open>uf_objects f' = uf_objects f1\<close>
      by (auto simp: Registration_Closed_def deref_def split: if_splits)
  qed (use assms File_Close_done in auto)
  then show "length (uf_objects f') = length (uf_objects f)" "Registration_Closed b f \<Longrightarrow> Registration_Closed b f'" by auto
qed

lemma good_Registration_Close:
  assumes "file_ok f" "releases k" "file_valid f a"
  shows "\<exists>f'. Registration_Close k a f = Some (f', Inr ())"
proof -
  have d: "deref f a = Some (uf_objects f ! a)" "rest_ok (uf_objects f ! a)"
    using assms(1,3) by (auto simp: file_valid_def deref_def file_ok_def)
  from Close_releases [OF d(2) assms(2)] d(1) show ?thesis by (auto simp: Registration_Close_def Let_def)
qed

lemma good_File_Close:
  assumes "file_ok f" "good_kernel k"
  shows "\<exists>f'. File_Close k f = Some (f', Inr ())"
proof (cases "uf_state f = fileOpen")
  case True
  from File_Close_open [OF assms(1) True, of k] obtain f' res where c: "File_Close k f = Some (f', res)"
    and r: "uf_state f' = fileClosed \<longrightarrow>
       res = (case k_close k (uf_fd f) of Some errno \<Rightarrow> fail (ForeignError errno) | None \<Rightarrow> Inr ())" by blast
  have "uf_state f' = fileClosed" using File_Close_releases [OF assms(1) True _ c] assms(2) by (simp add: good_kernel_def)
  with r c assms(2) show ?thesis by (simp add: good_kernel_def)
qed (use assms File_Close_done in auto)

interpretation ue_provider: set_creator "\<lambda>k. registration_interface h k" file_ok
  "\<lambda>k. create_file_set k name" "\<lambda>k. File_Close k" file_valid good_kernel for h name
proof unfold_locales
  fix f f' :: user_file and a b k and l :: u8 and kw :: u64 and g made s
  let ?ri = "registration_interface h k"
  assume ok: "file_ok f"
  show "file_valid f' b" if "op_Close ?ri a f = Some (f', res)" "file_valid f b" for res
    using that Registration_Close_length by (fastforce simp: registration_interface_def file_valid_def)
  show "file_ok f' \<and> safe made" if "create_file_set k name l kw g f = (f', made)"
    using that
  proof (cases rule: create_file_set_cases)
    case (made r s)
    have "file_ok f'" unfolding made(8) by (rule Register_ok [OF ok])
    then show ?thesis using made(4) by simp
  qed (use ok in auto)
  show "file_valid f' b \<and> op_Closed ?ri b f' = op_Closed ?ri b f"
    if "create_file_set k name l kw g f = (f', made)" "file_valid f b"
    using that(1)
  proof (cases rule: create_file_set_cases)
    case (made r s)
    with that(2) show ?thesis
      by (auto simp: file_valid_def registration_interface_def Registration_Closed_def deref_def nth_append)
  qed (use that(2) in auto)
  show "file_valid f' b \<and> \<not> op_Closed ?ri b f' \<and> es_level s = l \<and> es_keyword s = kw \<and> \<not> es_closeDone s"
    if "create_file_set k name l kw g f = (f', Inr (Some s))" "es_registration s = Some b"
    using that(1)
  proof (cases rule: create_file_set_cases)
    case (made r s')
    with that(2) show ?thesis
      by (auto simp: file_valid_def registration_interface_def Registration_Closed_def deref_def Closed_def)
  qed auto
  show "\<exists>f' res. File_Close k f = Some (f', res) \<and> file_ok f' \<and> safe res \<and>
      (\<forall>r. file_valid f r \<longrightarrow> file_valid f' r \<and> (op_Closed ?ri r f \<longrightarrow> op_Closed ?ri r f'))"
  proof -
    obtain f' res where c: "File_Close k f = Some (f', res)" "res \<noteq> Inl Fault"
    proof (cases "uf_state f = fileOpen")
      case True
      then show ?thesis using File_Close_open [OF ok True, of k] that by blast
    next
      case False
      then show ?thesis using that [of f "Inr ()"] File_Close_done [OF ok] by simp
    qed
    with File_Close_ok [OF ok c(1)] File_Close_frame [OF ok c(1)] show ?thesis
      by (auto simp: safe_def file_valid_def registration_interface_def)
  qed
  show "\<exists>f'. op_Close ?ri a f = Some (f', Inr ())" if "good_kernel k" "file_valid f a"
    using good_Registration_Close [OF ok _ that(2), of k] that(1) by (simp add: registration_interface_def good_kernel_def)
  show "\<exists>f'. File_Close k f = Some (f', Inr ())" if "good_kernel k"
    by (rule good_File_Close [OF ok that])
qed

end
