(* ===== verification/ProviderSystem.thy ===== *)
theory ProviderSystem imports Provider begin

text \<open>
  A provider together with its data file: the states they reach under any sequence of calls by the
  program, with whatever the kernel answers, including event sets closed behind the provider's back
  and other users of the file. The properties follow from the lemmas of \<open>set_creator\<close>.
\<close>

type_synonym system = "nat provider \<times> user_file"

inductive system_reachable :: "host \<Rightarrow> system \<Rightarrow> bool" for h where
  sr_new: "NewProvider (Some f) name = Inr p \<Longrightarrow> file_reachable f \<Longrightarrow> system_reachable h (p, f)"
| sr_open: "OpenProvider fs k name = Inr (p, f) \<Longrightarrow> system_reachable h (p, f)"
| sr_event_set: "system_reachable h (p, f) \<Longrightarrow>
    Provider_EventSet (registration_interface h k) (create_file_set k (pv_name p)) l kw g p f = Some (p', f', made) \<Longrightarrow>
    system_reachable h (p', f')"
| sr_close: "system_reachable h (p, f) \<Longrightarrow>
    Provider_Close (registration_interface h k) (File_Close k) p f = Some (p', f', res) \<Longrightarrow>
    system_reachable h (p', f')"
| sr_set_close: "system_reachable h (p, f) \<Longrightarrow> i < length (pv_objects p) \<Longrightarrow>
    EventSet_Close (registration_interface h k) (pv_objects p ! i) f = Some (s, f', res) \<Longrightarrow>
    system_reachable h (p\<lparr>pv_objects := (pv_objects p)[i := s]\<rparr>, f')"
| sr_register: "system_reachable h (p, f) \<Longrightarrow> system_reachable h (p, fst (Register k name defs flags f))"
| sr_registration_close: "system_reachable h (p, f) \<Longrightarrow> Registration_Close k a f = Some (f', res) \<Longrightarrow>
    system_reachable h (p, f')"
| sr_file_close: "system_reachable h (p, f) \<Longrightarrow> File_Close k f = Some (f', res) \<Longrightarrow> system_reachable h (p, f')"
| sr_kernel: "system_reachable h (p, f) \<Longrightarrow> system_reachable h (p, set_enable a w f)"

abbreviation system_ok :: "host \<Rightarrow> kernel \<Rightarrow> nat provider \<Rightarrow> user_file \<Rightarrow> bool" where
  "system_ok h k \<equiv> provider_ok (registration_interface h k) file_ok file_valid"

lemma system_ok_kernel: "system_ok h k p f = system_ok h k' p f"
  by (rule ue_provider.provider_ok_eq)

lemma new_ok:
  assumes "newProvider name own True c = Inr p" "file_ok f"
  shows "system_ok h k p f"
  using assms by (auto simp: newProvider_def provider_ok_def bindR_eq_Inr split: if_splits)

lemma newFile_ok: "file_ok (newFile fd path)"
  by (rule reachable_ok [OF fr_new])

text \<open>The file changes under the provider.\<close>

lemma system_ok_file:
  assumes "system_ok h k p f" "file_ok f'" "length (uf_objects f) \<le> length (uf_objects f')"
    "\<And>a. a < length (uf_objects f) \<Longrightarrow> Registration_Closed a f \<Longrightarrow> Registration_Closed a f'"
  shows "system_ok h k p f'"
  using assms
  by (intro ue_provider.provider_ok_world [OF assms(1)])
     (auto simp: file_valid_def registration_interface_def)

lemma Register_frame:
  "length (uf_objects f) \<le> length (uf_objects (fst (Register k name defs flags f)))"
  "a < length (uf_objects f) \<Longrightarrow> Registration_Closed a f \<Longrightarrow> Registration_Closed a (fst (Register k name defs flags f))"
  using Register_cases [of k name defs flags f]
  by (cases "Register k name defs flags f"; cases "snd (Register k name defs flags f)";
      force simp: Registration_Closed_def deref_def nth_append)+

lemma set_enable_frame:
  "length (uf_objects (set_enable a w f)) = length (uf_objects f)"
  "Registration_Closed b f \<Longrightarrow> Registration_Closed b (set_enable a w f)"
  by (auto simp: set_enable_def store_def Registration_Closed_def deref_def Closed_def nth_list_update split: option.splits if_splits)

lemma set_enable_file_ok: "file_ok f \<Longrightarrow> file_ok (set_enable a w f)"
proof -
  assume ok: "file_ok f"
  then have "objects_ok (set_enable a w f)" by (auto simp: file_ok_objects intro: set_enable_ok)
  moreover have "uf_ready (set_enable a w f) = uf_ready f" "uf_state (set_enable a w f) = uf_state f"
    "uf_regs (set_enable a w f) = uf_regs f" "uf_fd (set_enable a w f) = uf_fd f"
    by (auto simp: set_enable_def store_def split: option.splits)
  ultimately show ?thesis using ok by (simp add: file_ok_objects)
qed

lemma system_file_ok: "system_ok h k p f \<Longrightarrow> file_ok f"
  by (simp add: provider_ok_def)

lemma distinct_snd_unique: "distinct (map snd xs) \<Longrightarrow> (a, i) \<in> set xs \<Longrightarrow> (b, i) \<in> set xs \<Longrightarrow> a = b"
  by (induction xs) force+

lemma system_reachable_ok: "system_reachable h s \<Longrightarrow> \<forall>k. system_ok h k (fst s) (snd s)"
proof (induction rule: system_reachable.induct)
  case (sr_new f name p)
  then show ?case using new_ok reachable_ok by (auto simp: NewProvider_def)
next
  case (sr_open fs k name p f)
  then obtain fd path where "f = newFile fd path" "newProvider name True True True = Inr p"
    by (cases "newProvider name True True True :: nat provider result")
       (auto simp: OpenProvider_def Open_file_def bindR_eq_Inr split: failure.splits intro: failure.exhaust)
  then show ?case using new_ok newFile_ok by auto
next
  case (sr_event_set p f k l kw g p' f' made)
  from ue_provider.EventSet_outcome [of h k p f "pv_name p" l kw g] sr_event_set
  have "system_ok h k p' f'" by auto
  then show ?case using system_ok_kernel unfolding fst_conv snd_conv by blast
next
  case (sr_close p f k p' f' res)
  from ue_provider.Close_outcome [of h k p f] sr_close have "system_ok h k p' f'" by auto
  then show ?case using system_ok_kernel unfolding fst_conv snd_conv by blast
next
  case (sr_set_close p f i k s f' res)
  from ue_provider.provider_ok_close [OF _ sr_set_close(2,3)] sr_set_close(4)
  have "system_ok h k (p\<lparr>pv_objects := (pv_objects p)[i := s]\<rparr>) f'" by auto
  then show ?case using system_ok_kernel unfolding fst_conv snd_conv by blast
next
  case (sr_register p f k name defs flags)
  then show ?case using system_ok_file Register_ok Register_frame system_file_ok by (metis fst_conv snd_conv)
next
  case (sr_registration_close p f k a f' res)
  show ?case
  proof
    fix k'
    have ok: "system_ok h k' p f" using sr_registration_close by auto
    note fok = system_file_ok [OF this]
    show "system_ok h k' (fst (p, f')) (snd (p, f'))"
      using system_ok_file [OF ok Registration_Close_ok [OF fok sr_registration_close(2)]]
        Registration_Close_mono [OF fok sr_registration_close(2)] Registration_Close_length [OF sr_registration_close(2)]
      by auto
  qed
next
  case (sr_file_close p f k f' res)
  show ?case
  proof
    fix k'
    have ok: "system_ok h k' p f" using sr_file_close by auto
    note fok = system_file_ok [OF this]
    show "system_ok h k' (fst (p, f')) (snd (p, f'))"
      using system_ok_file [OF ok File_Close_ok [OF fok sr_file_close(2)]] File_Close_frame [OF fok sr_file_close(2)]
      by auto
  qed
next
  case (sr_kernel p f a w)
  then show ?case
    using system_ok_file set_enable_file_ok set_enable_frame system_file_ok by (metis fst_conv order_refl snd_conv)
qed


text \<open>
  C11. The cache of a provider, in every reachable system: \<open>Provider.EventSet\<close> returns (it never waits
  or panics); a set that it returns is open and has the level and keyword asked for; asking again
  returns the same set, without any effect and whatever the kernel would answer; and a different
  level, keyword or group gets a different set.
\<close>

theorem Provider_EventSet_cached:
  assumes "system_reachable h (p, f)"
  shows "\<exists>p' f' made. Provider_EventSet (registration_interface h k) (create_file_set k (pv_name p)) l kw g p f = Some (p', f', made) \<and>
    safe made \<and>
    (\<forall>i. made = Inr i \<longrightarrow>
       es_level (pv_objects p' ! i) = l \<and> es_keyword (pv_objects p' ! i) = kw \<and>
       \<not> EventSet_closed (registration_interface h k) (pv_objects p' ! i) f' \<and>
       (\<forall>k2. Provider_EventSet (registration_interface h k2) (create_file_set k2 (pv_name p')) l kw g p' f' = Some (p', f', Inr i)) \<and>
       (\<forall>k2 l2 kw2 g2 p2 f2 j. (l2, kw2, g2) \<noteq> (l, kw, g) \<longrightarrow>
          Provider_EventSet (registration_interface h k2) (create_file_set k2 (pv_name p')) l2 kw2 g2 p' f' = Some (p2, f2, Inr j) \<longrightarrow> j \<noteq> i))"
proof -
  let ?ri = "registration_interface h"
  let ?key = "\<lambda>l kw g. \<lparr>ky_level = l, ky_keyword = kw, ky_group = g\<rparr>"
  have ok: "system_ok h k p f" using system_reachable_ok [OF assms] by simp
  from ue_provider.EventSet_outcome [OF ok, of "pv_name p" l kw g] obtain p' f' made
    where e: "Provider_EventSet (?ri k) (create_file_set k (pv_name p)) l kw g p f = Some (p', f', made)"
      and ok': "system_ok h k p' f'" and s: "safe made" "pv_name p' = pv_name p" "pv_state p' = pv_state p"
      and m: "\<forall>i. made = Inr i \<longrightarrow> pv_state p = providerOpen \<and> map_of (pv_sets p') (?key l kw g) = Some i \<and>
        \<not> EventSet_closed (?ri k) (pv_objects p' ! i) f'"
    by blast
  have again: "es_level (pv_objects p' ! i) = l \<and> es_keyword (pv_objects p' ! i) = kw \<and>
      Provider_EventSet (?ri k2) (create_file_set k2 (pv_name p')) l kw g p' f' = Some (p', f', Inr i)"
    if i: "made = Inr i" for i k2
  proof -
    have c: "\<not> EventSet_closed (?ri k2) (pv_objects p' ! i) f'" "map_of (pv_sets p') (?key l kw g) = Some i"
      using m i ue.set_closed_eq by blast+
    have lv: "es_level (pv_objects p' ! i) = l \<and> es_keyword (pv_objects p' ! i) = kw"
      using provider_cached [OF ok' map_of_SomeD [OF c(2)]] by simp
    have "pv_state p = providerOpen" "\<not> l < LevelCritical" "\<not> l > LevelVerbose" "validateGroup g = Inr ()"
      "\<not> length (pv_name p) + length g > MaxProviderGroupLength"
      using e i m by (auto simp: Provider_EventSet_def validateGroup_def split: if_splits)
    then show ?thesis using c s(2,3) lv by (simp add: Provider_EventSet_def)
  qed
  have other: "j \<noteq> i" if i: "made = Inr i" and d: "(l2, kw2, g2) \<noteq> (l, kw, g)"
    and e2: "Provider_EventSet (?ri k2) (create_file_set k2 (pv_name p')) l2 kw2 g2 p' f' = Some (p2, f2, Inr j)"
    for i k2 l2 kw2 g2 p2 f2 j
  proof -
    have ok2: "system_ok h k2 p' f'" using ok' system_ok_kernel by blast
    have j: "map_of (pv_sets p2) (?key l2 kw2 g2) = Some j" and ok3: "system_ok h k2 p2 f2"
      using ue_provider.EventSet_outcome [OF ok2, of "pv_name p'" l2 kw2 g2] e2 by auto
    have in1: "(?key l kw g, i) \<in> set (pv_sets p')" using m i map_of_SomeD by fastforce
    have "(?key l kw g, i) \<in> set (pv_sets p2)"
      using e2 in1 d by (auto simp: Provider_EventSet_def cacheNew_def Let_def split: if_splits option.splits sum.splits prod.splits)
    moreover have "(?key l2 kw2 g2, j) \<in> set (pv_sets p2)" using j map_of_SomeD by fastforce
    moreover have "distinct (map snd (pv_sets p2))" using ok3 by (simp add: provider_ok_def)
    ultimately have "j = i \<Longrightarrow> ?key l2 kw2 g2 = ?key l kw g" using distinct_snd_unique by metis
    then show ?thesis using d by auto
  qed
  show ?thesis
    using e s(1) m again other by (intro exI [of _ p'] exI [of _ f'] exI [of _ made]) blast
qed

definition demo_provider :: "nat provider" where
  "demo_provider = \<lparr>pv_name = ''P'', pv_sets = [], pv_state = providerOpen, pv_ownFile = False, pv_objects = []\<rparr>"

lemma demo_system: "system_reachable h (demo_provider, demo_file)"
proof (rule sr_new [OF _ demo_file_reachable])
  have "validateProviderName ''P'' = Inr ()" by code_simp
  then show "NewProvider (Some demo_file) ''P'' = Inr demo_provider"
    by (simp add: NewProvider_def newProvider_def demo_provider_def)
qed

lemma demo_EventSet:
  "\<exists>p f. Provider_EventSet (registration_interface demo_host demo_kernel) (create_file_set demo_kernel ''P'') 4 0x10 ''h''
     demo_provider demo_file = Some (p, f, Inr 0)"
proof -
  have g: "validateGroup ''h'' = Inr ()" by code_simp
  obtain f s where "NewEventSet demo_kernel ''P'' 4 0x10 ''h'' demo_file = (f, Inr s)" "es_registration s = Some 1"
    by (simp add: NewEventSet_def demo_tracepoint_name Register_def registration_command_ok [OF demo_tracepoint_name] Let_def demo_kernel_def
        demo_file_eq)
  then show ?thesis
    by (simp add: Provider_EventSet_def demo_provider_def g cacheNew_def create_file_set_def Let_def)
qed

theorem Provider_EventSet_cached_witness:
  "\<exists>p f. Provider_EventSet (registration_interface demo_host demo_kernel) (create_file_set demo_kernel ''P'') 4 0x10 ''h''
       demo_provider demo_file = Some (p, f, Inr 0) \<and> es_level (pv_objects p ! 0) = 4 \<and>
     Provider_EventSet (registration_interface demo_host demo_kernel) (create_file_set demo_kernel (pv_name p)) 4 0x10 ''h'' p f
       = Some (p, f, Inr 0)"
proof -
  have n: "pv_name demo_provider = ''P''" by (simp add: demo_provider_def)
  from demo_EventSet Provider_EventSet_cached [OF demo_system, where h = demo_host and k = demo_kernel and l = 4 and kw = 16 and g = "''h''", unfolded n]
  show ?thesis by auto
qed

text \<open>
  C12. Closing a provider, from every reachable system: \<open>Provider.Close\<close> returns. If it succeeds, every
  event set the provider ever handed out is closed, so that writing through it fails with \<open>ErrClosed\<close>,
  and closing again succeeds without effect. If it fails, the provider keeps the sets it could not
  release. In both cases it hands out no more sets. If the kernel releases everything, as it may on a
  retry, the call succeeds.
\<close>

theorem Provider_Close_outcome:
  assumes "system_reachable h (p, f)"
  shows "\<exists>p' f' res. Provider_Close (registration_interface h k) (File_Close k) p f = Some (p', f', res) \<and>
    safe res \<and> length (pv_objects p') = length (pv_objects p) \<and>
    (\<forall>k2 l kw g. Provider_EventSet (registration_interface h k2) (create_file_set k2 (pv_name p')) l kw g p' f'
       = Some (p', f', fail ErrClosed)) \<and>
    (res = Inr () \<longrightarrow>
       (\<forall>s k2 b. s \<in> set (pv_objects p') \<longrightarrow> EventSet_closed (registration_interface h k2) s f' \<and>
          EventSet_Write h (registration_interface h k2) (Some b) s f' = (f', fail ErrClosed)) \<and>
       (\<forall>k2. Provider_Close (registration_interface h k2) (File_Close k2) p' f' = Some (p', f', Inr ()))) \<and>
    (res \<noteq> Inr () \<longrightarrow> pv_state p' = providerClosing \<and> set (pv_sets p') \<subseteq> set (pv_sets p)) \<and>
    (good_kernel k \<longrightarrow> res = Inr ())"
proof -
  let ?ri = "registration_interface h"
  have ok: "system_ok h k p f" using system_reachable_ok [OF assms] by simp
  from ue_provider.Close_outcome [OF ok] obtain p' f' res
    where c: "Provider_Close (?ri k) (File_Close k) p f = Some (p', f', res)" and ok': "system_ok h k p' f'"
      and s: "safe res" "length (pv_objects p') = length (pv_objects p)" "res = Inr () \<longleftrightarrow> pv_state p' = providerClosed"
      "pv_state p' \<noteq> providerClosed \<longrightarrow> pv_state p' = providerClosing \<and> set (pv_sets p') \<subseteq> set (pv_sets p)"
      "good_kernel k \<longrightarrow> pv_state p' = providerClosed"
    by blast
  have st: "pv_state p' \<noteq> providerOpen" using s(4) by (cases "pv_state p'") auto
  have dead: "EventSet_closed (?ri k2) t f' \<and> EventSet_Write h (?ri k2) (Some b) t f' = (f', fail ErrClosed)"
    if r: "res = Inr ()" and t: "t \<in> set (pv_objects p')" for t k2 b
  proof -
    have ok2: "system_ok h k2 p' f'" using ok' system_ok_kernel by blast
    obtain i where i: "i < length (pv_objects p')" "t = pv_objects p' ! i" using t by (auto simp: in_set_conv_nth)
    have "pv_sets p' = []" using ok' r s(3) by (simp add: provider_ok_def)
    then have "EventSet_closed (?ri k2) t f'" using provider_uncached [OF ok2 i(1)] i(2) by simp
    moreover obtain a where "es_registration t = Some a" using provider_object [OF ok2 i(1)] i(2) by blast
    ultimately show ?thesis using ue.write_outcome [OF system_file_ok [OF ok2]] by simp
  qed
  have closed: "Provider_EventSet (?ri k2) (create_file_set k2 (pv_name p')) l kw g p' f' = Some (p', f', fail ErrClosed)"
    for k2 l kw g using st by (simp add: Provider_EventSet_def)
  have again: "Provider_Close (?ri k2) (File_Close k2) p' f' = Some (p', f', Inr ())" if "res = Inr ()" for k2
    using that s(3) by (simp add: Provider_Close_def)
  show ?thesis
    using c s dead closed again by (intro exI [of _ p'] exI [of _ f'] exI [of _ res]) blast
qed

theorem Provider_Close_outcome_witness:
  "\<exists>p f. Provider_Close (registration_interface demo_host demo_kernel) (File_Close demo_kernel) demo_provider demo_file
     = Some (p, f, Inr ())"
proof -
  have "good_kernel demo_kernel" by (simp add: good_kernel_def releases_def demo_kernel_def)
  with Provider_Close_outcome [OF demo_system, where h = demo_host and k = demo_kernel] show ?thesis by auto
qed

end
