(* ===== verification/Lifecycle.thy ===== *)
theory Lifecycle imports Registration "HOL-Library.Multiset" begin

text \<open>
  Concurrent use of one registration (\<open>userevents_linux.go\<close>): goroutines that call \<open>Enabled\<close>, \<open>Writev\<close>
  and \<open>Close\<close>, interleaved at their atomic operations, lock operations and system calls. \<open>lnext c t\<close> is
  the next step of goroutine \<open>t\<close>; None is that it cannot go on now (it is blocked, or idle and not
  given anything to do), and \<open>c\<close> decides what the environment decides. \<open>Enabled\<close> and \<open>Writev\<close> are the
  same here: both read the enable word, and write, between \<open>acquire\<close> and \<open>release\<close>.
\<close>


section \<open>Steps\<close>

text \<open>Where a goroutine is; the word in \<open>AcqCAS\<close> and \<open>CloseCAS\<close> is the one it loaded.\<close>

datatype pc =
    Idle
  | AcqLoad | AcqCAS u64 | Using | Used | NotifyLock | NotifyHeld
  | CloseLock | CloseCheck | CloseLoad | CloseCAS u64 | CloseWait | Waiting | Woken
  | CloseUnreg | CloseUnmap | CloseStore
  | Crashed

text \<open>
  The shared state: the lifecycle word, whether \<open>closeMu\<close> is locked, whether the enable word is
  mapped and whether the kernel has it registered.
\<close>

record lifecycle =
  lc_word :: u64
  lc_locked :: bool
  lc_mapped :: bool
  lc_registered :: bool
  lc_pcs :: "pc list"

datatype choice = StartUse | StartClose | KernelOk | KernelFail

definition goto :: "nat \<Rightarrow> pc \<Rightarrow> lifecycle \<Rightarrow> lifecycle" where
  "goto t p s = s\<lparr>lc_pcs := (lc_pcs s)[t := p]\<rparr>"

definition wake :: "pc \<Rightarrow> pc" where
  "wake p = (if p = Waiting then Woken else p)"

text \<open>\<open>acquire\<close>, the guarded code, and \<open>release\<close> with its broadcast.\<close>

definition use_step :: "nat \<Rightarrow> pc \<Rightarrow> lifecycle \<Rightarrow> lifecycle option" where
  "use_step t p s =
     (case p of
        AcqLoad \<Rightarrow>
          if lc_word s AND registrationStateMask \<noteq> registrationOpen then Some (goto t Idle s)
          else Some (goto t (AcqCAS (lc_word s)) s)
      | AcqCAS state \<Rightarrow>
          if lc_word s = state then Some (goto t Using (s\<lparr>lc_word := state + registrationActiveOne\<rparr>))
          else Some (goto t AcqLoad s)
      | Using \<Rightarrow> if lc_mapped s then Some (goto t Used s) else Some (goto t Crashed s)
      | Used \<Rightarrow>
          let state = lc_word s + NOT (registrationActiveOne - 1) in
          Some (goto t (if state = registrationClosing then NotifyLock else Idle) (s\<lparr>lc_word := state\<rparr>))
      | NotifyLock \<Rightarrow> if lc_locked s then None else Some (goto t NotifyHeld (s\<lparr>lc_locked := True\<rparr>))
      | NotifyHeld \<Rightarrow> Some (goto t Idle (s\<lparr>lc_locked := False, lc_pcs := map wake (lc_pcs s)\<rparr>))
      | _ \<Rightarrow> None)"

text \<open>\<open>Close\<close>; \<open>Cond.Wait\<close> unlocks, and locks again once it was woken.\<close>

definition close_step :: "choice \<Rightarrow> nat \<Rightarrow> pc \<Rightarrow> lifecycle \<Rightarrow> lifecycle option" where
  "close_step c t p s =
     (case p of
        CloseLock \<Rightarrow> if lc_locked s then None else Some (goto t CloseCheck (s\<lparr>lc_locked := True\<rparr>))
      | CloseCheck \<Rightarrow>
          let state = lc_word s AND registrationStateMask in
          if state = registrationZero \<or> state = registrationClosed then Some (goto t Idle (s\<lparr>lc_locked := False\<rparr>))
          else if state = registrationOpen then Some (goto t CloseLoad s)
          else Some (goto t CloseUnmap s)
      | CloseLoad \<Rightarrow> Some (goto t (CloseCAS (lc_word s)) s)
      | CloseCAS loaded \<Rightarrow>
          if lc_word s = loaded
          then Some (goto t CloseWait (s\<lparr>lc_word := (loaded AND NOT registrationStateMask) OR registrationClosing\<rparr>))
          else Some (goto t CloseLoad s)
      | CloseWait \<Rightarrow>
          if lc_word s \<noteq> registrationClosing then Some (goto t Waiting (s\<lparr>lc_locked := False\<rparr>))
          else Some (goto t CloseUnreg s)
      | Woken \<Rightarrow> if lc_locked s then None else Some (goto t CloseWait (s\<lparr>lc_locked := True\<rparr>))
      | CloseUnreg \<Rightarrow>
          (case c of
             KernelOk \<Rightarrow> Some (goto t CloseUnmap (s\<lparr>lc_registered := False\<rparr>))
           | KernelFail \<Rightarrow> Some (goto t Idle (s\<lparr>lc_word := registrationOpen, lc_locked := False\<rparr>))
           | _ \<Rightarrow> None)
      | CloseUnmap \<Rightarrow>
          (case c of
             KernelOk \<Rightarrow>
               if lc_mapped s then Some (goto t CloseStore (s\<lparr>lc_mapped := False\<rparr>))
               else Some (goto t Idle (s\<lparr>lc_locked := False\<rparr>))
           | KernelFail \<Rightarrow> Some (goto t Idle (s\<lparr>lc_locked := False\<rparr>))
           | _ \<Rightarrow> None)
      | CloseStore \<Rightarrow> Some (goto t Idle (s\<lparr>lc_word := registrationClosed, lc_locked := False\<rparr>))
      | _ \<Rightarrow> None)"

definition lnext :: "choice \<Rightarrow> nat \<Rightarrow> lifecycle \<Rightarrow> lifecycle option" where
  "lnext c t s =
     (if t \<ge> length (lc_pcs s) then None
      else
        let p = lc_pcs s ! t in
        if p = Idle then
          (case c of
             StartUse \<Rightarrow> Some (goto t AcqLoad s)
           | StartClose \<Rightarrow> Some (goto t CloseLock s)
           | _ \<Rightarrow> None)
        else case use_step t p s of Some s' \<Rightarrow> Some s' | None \<Rightarrow> close_step c t p s)"

text \<open>\<open>n\<close> idle goroutines and a registration as \<open>Register\<close> leaves it.\<close>

definition linit :: "nat \<Rightarrow> lifecycle" where
  "linit n = \<lparr>lc_word = registrationOpen, lc_locked = False, lc_mapped = True, lc_registered = True,
     lc_pcs = replicate n Idle\<rparr>"

fun lrun :: "(choice \<times> nat) list \<Rightarrow> lifecycle \<Rightarrow> lifecycle option" where
  "lrun [] s = Some s"
| "lrun ((c, t) # cs) s = (case lnext c t s of None \<Rightarrow> None | Some s' \<Rightarrow> lrun cs s')"


section \<open>The lifecycle word\<close>

lemma unat_state: "unat (w AND 3 :: u64) = unat w mod 4"
proof -
  have "w AND 3 = take_bit 2 w" by (simp add: take_bit_eq_mask mask_eq_exp_minus_1)
  then show ?thesis by (simp add: take_bit_eq_mod unat_mod)
qed

lemma state_eq: "(w AND 3 :: u64) = v \<longleftrightarrow> unat w mod 4 = unat v"
  by (metis unat_state word_unat_eq_iff)

lemma closing_iff: "(w :: u64) = 2 \<longleftrightarrow> unat w = 2"
  by (simp add: word_unat_eq_iff)

lemma unat_enter: "unat w + 4 < 2 ^ 64 \<Longrightarrow> unat (w + 4 :: u64) = unat w + 4"
  by (simp add: unat_word_ariths)

lemma unat_leave: "4 \<le> unat w \<Longrightarrow> unat (w + NOT 3 :: u64) = unat w - 4"
proof -
  assume a: "4 \<le> unat w"
  have e: "w + NOT 3 = w - 4" by (simp add: not_eq_complement)
  have "4 \<le> w" using a by (simp add: word_le_nat_alt)
  then show ?thesis unfolding e by (simp add: unat_sub)
qed

lemma unat_closing: "unat ((w AND NOT 3) OR 2 :: u64) = 4 * (unat w div 4) + 2"
proof -
  have o: "(w AND NOT 3) OR 2 = (w AND NOT 3) + 2"
    by (rule disjunctive_add [symmetric]) (auto simp: bit_simps)
  have "(w AND NOT 3) + (w AND 3) = (w AND NOT 3) OR (w AND 3)"
    by (rule disjunctive_add) (auto simp: bit_simps)
  also have "\<dots> = w" by (rule bit_eqI) (auto simp: bit_simps)
  finally have "w AND NOT 3 = w - (w AND 3)" by (simp add: algebra_simps)
  moreover have "(w AND 3) \<le> w" by (simp add: word_le_nat_alt unat_state)
  ultimately have u: "unat (w AND NOT 3) = unat w - unat w mod 4" by (simp add: unat_sub unat_state)
  then have v: "unat (w AND NOT 3) = 4 * (unat w div 4)" by (simp add: minus_mod_eq_mult_div)
  have "unat w < 18446744073709551616" using unsigned_less [of w] by simp
  then have "unat w div 4 < 4611686018427387904" by linarith
  then have "4 * (unat w div 4) + 2 < 18446744073709551616" by linarith
  then show ?thesis unfolding o using v by (simp add: unat_word_ariths)
qed


section \<open>Calls of Close that do not overlap\<close>

definition closing :: "pc \<Rightarrow> bool" where
  "closing p = (case p of
     CloseLock \<Rightarrow> True | CloseCheck \<Rightarrow> True | CloseLoad \<Rightarrow> True | CloseCAS _ \<Rightarrow> True | CloseWait \<Rightarrow> True
   | Waiting \<Rightarrow> True | Woken \<Rightarrow> True | CloseUnreg \<Rightarrow> True | CloseUnmap \<Rightarrow> True | CloseStore \<Rightarrow> True
   | _ \<Rightarrow> False)"

definition in_use :: "pc \<Rightarrow> bool" where
  "in_use p \<longleftrightarrow> p = Using \<or> p = Used"

definition holds_lock :: "pc \<Rightarrow> bool" where
  "holds_lock p \<longleftrightarrow> p = NotifyHeld \<or> closing p \<and> p \<noteq> CloseLock \<and> p \<noteq> Waiting \<and> p \<noteq> Woken"

text \<open>The states that \<open>n\<close> goroutines reach when no \<open>Close\<close> is called while another one runs.\<close>

inductive serial :: "nat \<Rightarrow> lifecycle \<Rightarrow> bool" for n where
  serial_init: "serial n (linit n)"
| serial_step: "serial n s \<Longrightarrow> lnext c t s = Some s' \<Longrightarrow>
    (lc_pcs s ! t = Idle \<and> c = StartClose \<longrightarrow> (\<forall>p\<in>set (lc_pcs s). \<not> closing p)) \<Longrightarrow> serial n s'"

text \<open>
  The invariant, on the lifecycle word, the flags and the multiset of the goroutines' positions.
  \<open>pc_ok\<close> is what holds while a goroutine is at a position, and \<open>at_rest\<close> what holds when no \<open>Close\<close>
  has got anywhere.
\<close>

definition at_rest :: "nat \<Rightarrow> bool \<Rightarrow> bool \<Rightarrow> bool" where
  "at_rest w mapped registered \<longleftrightarrow>
     w mod 4 = 1 \<and> mapped \<and> registered \<or> w = 2 \<and> mapped \<and> \<not> registered \<or> w = 3 \<and> \<not> mapped \<and> \<not> registered"

definition pc_ok :: "pc \<Rightarrow> nat \<Rightarrow> bool \<Rightarrow> bool \<Rightarrow> bool" where
  "pc_ok p w mapped registered =
     (case p of
        CloseLock \<Rightarrow> at_rest w mapped registered
      | CloseCheck \<Rightarrow> at_rest w mapped registered
      | CloseLoad \<Rightarrow> w mod 4 = 1 \<and> mapped \<and> registered
      | CloseCAS _ \<Rightarrow> w mod 4 = 1 \<and> mapped \<and> registered
      | CloseWait \<Rightarrow> w mod 4 = 2 \<and> mapped \<and> registered
      | Waiting \<Rightarrow> w mod 4 = 2 \<and> mapped \<and> registered
      | Woken \<Rightarrow> w mod 4 = 2 \<and> mapped \<and> registered
      | CloseUnreg \<Rightarrow> w = 2 \<and> mapped \<and> registered
      | CloseUnmap \<Rightarrow> w = 2 \<and> mapped \<and> \<not> registered
      | CloseStore \<Rightarrow> w = 2 \<and> \<not> mapped \<and> \<not> registered
      | AcqCAS v \<Rightarrow> v AND 3 = 1
      | Crashed \<Rightarrow> False
      | _ \<Rightarrow> True)"

definition linv :: "nat \<Rightarrow> bool \<Rightarrow> bool \<Rightarrow> bool \<Rightarrow> pc multiset \<Rightarrow> bool" where
  "linv w locked mapped registered M \<longleftrightarrow>
     w div 4 = size (filter_mset in_use M) \<and> size (filter_mset closing M) \<le> 1 \<and>
     (filter_mset closing M = {#} \<longrightarrow> at_rest w mapped registered) \<and>
     (\<forall>p\<in>#M. pc_ok p w mapped registered) \<and>
     size (filter_mset holds_lock M) = of_bool locked \<and>
     (Waiting \<in># M \<longrightarrow> 0 < w div 4 \<or> NotifyLock \<in># M \<or> NotifyHeld \<in># M)"

definition lc_inv :: "lifecycle \<Rightarrow> bool" where
  "lc_inv s \<longleftrightarrow> linv (unat (lc_word s)) (lc_locked s) (lc_mapped s) (lc_registered s) (mset (lc_pcs s)) \<and>
     length (lc_pcs s) < 2 ^ 61"

lemma pc_ok_other: "\<not> closing p \<Longrightarrow> pc_ok p w m r \<Longrightarrow> pc_ok p w' m' r'"
  by (cases p) (simp_all add: pc_ok_def closing_def)

lemma pc_ok_mod: "w' mod 4 = w mod 4 \<Longrightarrow> 4 \<le> w \<or> w mod 4 = 1 \<Longrightarrow> pc_ok p w m r \<Longrightarrow> pc_ok p w' m r"
  by (cases p) (auto simp: pc_ok_def at_rest_def)

lemma at_rest_mod: "w' mod 4 = w mod 4 \<Longrightarrow> 4 \<le> w \<or> w mod 4 = 1 \<Longrightarrow> at_rest w m r \<Longrightarrow> at_rest w' m r"
  by (auto simp: at_rest_def)

lemma mset_goto:
  assumes "t < length ps"
  obtains R where "mset ps = add_mset (ps ! t) R" "\<And>q. mset (ps[t := q]) = add_mset q R"
  using assms by (intro that [of "mset ps - {#ps ! t#}"]) (simp_all add: mset_update)

lemma size_filter_add: "size (filter_mset P (add_mset x M)) = of_bool (P x) + size (filter_mset P M)"
  by simp

lemma linvD:
  assumes "linv w l m r M"
  shows "w div 4 = size (filter_mset in_use M)" "size (filter_mset closing M) \<le> 1"
    "filter_mset closing M = {#} \<Longrightarrow> at_rest w m r" "p \<in># M \<Longrightarrow> pc_ok p w m r"
    "size (filter_mset holds_lock M) = of_bool l"
    "Waiting \<in># M \<Longrightarrow> 0 < w div 4 \<or> NotifyLock \<in># M \<or> NotifyHeld \<in># M"
  using assms unfolding linv_def by blast+

lemma linvI:
  assumes "w div 4 = size (filter_mset in_use M)" "size (filter_mset closing M) \<le> 1"
    "filter_mset closing M = {#} \<Longrightarrow> at_rest w m r" "\<And>p. p \<in># M \<Longrightarrow> pc_ok p w m r"
    "size (filter_mset holds_lock M) = of_bool l"
    "Waiting \<in># M \<Longrightarrow> 0 < w div 4 \<or> NotifyLock \<in># M \<or> NotifyHeld \<in># M"
  shows "linv w l m r M"
  using assms unfolding linv_def by blast

text \<open>While an operation is active, the enable word is mapped and registered.\<close>

lemma linv_mapped:
  assumes inv: "linv w l m r M" and p: "p \<in># M" "in_use p"
  shows "m \<and> r \<and> (w mod 4 = 1 \<or> w mod 4 = 2)"
proof -
  have "p \<in># filter_mset in_use M" using p by simp
  then have "size (filter_mset in_use M) \<noteq> 0" by (metis empty_iff set_mset_empty size_eq_0_iff_empty)
  then have w: "4 \<le> w" using linvD(1) [OF inv] by (cases "4 \<le> w") auto
  show ?thesis
  proof (cases "filter_mset closing M = {#}")
    case True
    from linvD(3) [OF inv True] w show ?thesis by (auto simp: at_rest_def)
  next
    case False
    then obtain c where c: "c \<in># M" "closing c" by (auto simp: filter_mset_eq_mempty_iff)
    from linvD(4) [OF inv c(1)] c(2) w show ?thesis
      by (cases c) (auto simp: pc_ok_def closing_def at_rest_def)
  qed
qed

text \<open>A goroutine that is in \<open>Close\<close> moves on.\<close>

lemma linv_close:
  assumes inv: "linv w l m r (add_mset p R)" and p: "closing p"
    and w: "w' div 4 = w div 4" and q: "if closing q then pc_ok q w' m' r' else q = Idle \<and> at_rest w' m' r'"
    and lock: "of_bool l' + of_bool (holds_lock p) = (of_bool l + of_bool (holds_lock q) :: nat)"
    and wait: "q = Waiting \<Longrightarrow> 0 < w div 4"
  shows "linv w' l' m' r' (add_mset q R)"
proof (rule linvI)
  have R: "size (filter_mset closing R) = 0" using linvD(2) [OF inv] p unfolding size_filter_add by simp
  then have none: "\<not> closing x" if "x \<in># R" for x
    using that by (meson filter_mset_eq_mempty_iff size_eq_0_iff_empty)
  have use: "\<not> in_use p" "\<not> in_use q" using p q by (auto simp: in_use_def closing_def split: if_splits)
  show "w' div 4 = size (filter_mset in_use (add_mset q R))"
    using linvD(1) [OF inv] w use unfolding size_filter_add by simp
  show "size (filter_mset closing (add_mset q R)) \<le> 1" unfolding size_filter_add R by simp
  show "at_rest w' m' r'" if "filter_mset closing (add_mset q R) = {#}"
    using that q by (simp split: if_splits)
  show "pc_ok x w' m' r'" if "x \<in># add_mset q R" for x
  proof (cases "x \<in># R")
    case True
    from pc_ok_other [OF none [OF this] linvD(4) [OF inv]] True show ?thesis by simp
  next
    case False
    with that q show ?thesis by (auto simp: pc_ok_def split: if_splits)
  qed
  show "size (filter_mset holds_lock (add_mset q R)) = of_bool l'"
    using linvD(5) [OF inv] lock unfolding size_filter_add by linarith
  have "closing Waiting" by (simp add: closing_def)
  then have "Waiting \<notin># R" using none by blast
  then show "0 < w' div 4 \<or> NotifyLock \<in># add_mset q R \<or> NotifyHeld \<in># add_mset q R" if "Waiting \<in># add_mset q R"
    using that wait w by simp
qed

text \<open>A goroutine that is not in \<open>Close\<close> moves on.\<close>

lemma linv_use:
  assumes inv: "linv w l m r (add_mset p R)" and pq: "\<not> closing p" "\<not> closing q" "pc_ok q w m r"
    and use: "w' div 4 + of_bool (in_use p) = w div 4 + of_bool (in_use q)"
    and w: "w' = w \<or> w' mod 4 = w mod 4 \<and> (4 \<le> w \<or> w mod 4 = 1)"
    and lock: "of_bool l' + of_bool (holds_lock p) = (of_bool l + of_bool (holds_lock q) :: nat)"
    and wait: "0 < w' div 4 \<or> q = NotifyLock \<or> q = NotifyHeld \<or>
      w' = w \<and> p \<noteq> NotifyLock \<and> p \<noteq> NotifyHeld \<or> w mod 4 \<noteq> 2"
  shows "linv w' l' m r (add_mset q R)"
proof (rule linvI)
  show "w' div 4 = size (filter_mset in_use (add_mset q R))"
    using linvD(1) [OF inv] use unfolding size_filter_add by linarith
  show "size (filter_mset closing (add_mset q R)) \<le> 1"
    using linvD(2) [OF inv] pq unfolding size_filter_add by simp
  show "at_rest w' m r" if c: "filter_mset closing (add_mset q R) = {#}"
  proof -
    have "at_rest w m r" using linvD(3) [OF inv] c pq(1,2) by simp
    with w at_rest_mod show ?thesis by blast
  qed
  show "pc_ok x w' m r" if "x \<in># add_mset q R" for x
  proof -
    have "pc_ok x w m r" using that linvD(4) [OF inv] pq(3) by auto
    with w pc_ok_mod show ?thesis by blast
  qed
  show "size (filter_mset holds_lock (add_mset q R)) = of_bool l'"
    using linvD(5) [OF inv] lock unfolding size_filter_add by linarith
  show "0 < w' div 4 \<or> NotifyLock \<in># add_mset q R \<or> NotifyHeld \<in># add_mset q R" if "Waiting \<in># add_mset q R"
  proof -
    have "q \<noteq> Waiting" using pq(2) by (auto simp: closing_def)
    then have W: "Waiting \<in># add_mset p R" using that by simp
    then have "w mod 4 = 2" using linvD(4) [OF inv W] by (simp add: pc_ok_def)
    with wait linvD(6) [OF inv W] show ?thesis by auto
  qed
qed

text \<open>The broadcast: the goroutine at \<open>NotifyHeld\<close> wakes those that wait, and unlocks.\<close>

lemma wake_simps [simp]: "closing (wake p) = closing p" "in_use (wake p) = in_use p" "holds_lock (wake p) = holds_lock p"
  "wake p \<noteq> Waiting"
  by (cases p; simp add: wake_def closing_def in_use_def holds_lock_def)+

lemma pc_ok_wake: "pc_ok p w m r \<Longrightarrow> pc_ok (wake p) w m r"
  by (cases p) (simp_all add: wake_def pc_ok_def)

lemma filter_wake: "(\<And>p. P (wake p) = P p) \<Longrightarrow> filter_mset P (image_mset wake M) = image_mset wake (filter_mset P M)"
  by (simp add: filter_mset_image_mset)

lemma linv_broadcast:
  assumes inv: "linv w l m r (add_mset NotifyHeld R)"
  shows "linv w False m r (add_mset Idle (image_mset wake R))"
proof (rule linvI)
  have p: "in_use Idle = False" "closing Idle = False" "holds_lock Idle = False" "in_use NotifyHeld = False"
    "closing NotifyHeld = False" "holds_lock NotifyHeld = True"
    by (simp_all add: in_use_def closing_def holds_lock_def)
  show "w div 4 = size (filter_mset in_use (add_mset Idle (image_mset wake R)))"
    using linvD(1) [OF inv] p unfolding size_filter_add by (simp add: filter_wake)
  show "size (filter_mset closing (add_mset Idle (image_mset wake R))) \<le> 1"
    using linvD(2) [OF inv] p unfolding size_filter_add by (simp add: filter_wake)
  show "at_rest w m r" if "filter_mset closing (add_mset Idle (image_mset wake R)) = {#}"
  proof (rule linvD(3) [OF inv])
    have "\<not> closing (wake x)" if "x \<in># R" for x
      using that \<open>filter_mset closing (add_mset Idle (image_mset wake R)) = {#}\<close> p(2) by auto
    then show "filter_mset closing (add_mset NotifyHeld R) = {#}" using p(5) by simp
  qed
  show "pc_ok x w m r" if "x \<in># add_mset Idle (image_mset wake R)" for x
    using that linvD(4) [OF inv] pc_ok_wake by (auto simp: pc_ok_def [of Idle])
  show "size (filter_mset holds_lock (add_mset Idle (image_mset wake R))) = of_bool False"
    using linvD(5) [OF inv] p unfolding size_filter_add by (cases l) (simp_all add: filter_wake)
  show "0 < w div 4 \<or> NotifyLock \<in># add_mset Idle (image_mset wake R) \<or> NotifyHeld \<in># add_mset Idle (image_mset wake R)"
    if "Waiting \<in># add_mset Idle (image_mset wake R)"
    using that wake_simps(4) by (auto simp: image_iff) (metis wake_simps(4))
qed


section \<open>Every step keeps the invariant\<close>

lemmas pc_simps = closing_def in_use_def holds_lock_def pc_ok_def at_rest_def

lemma use_step_inv:
  assumes inv: "lc_inv s" and t: "t < length (lc_pcs s)" and st: "use_step t (lc_pcs s ! t) s = Some s'"
  shows "lc_inv s'"
proof -
  obtain R where R: "mset (lc_pcs s) = add_mset (lc_pcs s ! t) R" "\<And>q. mset ((lc_pcs s)[t := q]) = add_mset q R"
    by (rule mset_goto [OF t]) blast
  let ?w = "unat (lc_word s)"
  have li: "linv ?w (lc_locked s) (lc_mapped s) (lc_registered s) (add_mset (lc_pcs s ! t) R)"
    and n: "length (lc_pcs s) < 2 ^ 61"
    using inv by (simp_all add: lc_inv_def R(1))
  have "?w div 4 \<le> length (lc_pcs s)"
    using linvD(1) [OF li] R(1) by (metis size_filter_mset_lesseq size_mset)
  then have bound: "?w + 4 < 2 ^ 64" using n by simp
  show ?thesis
  proof (cases "lc_pcs s ! t")
    case AcqLoad
    show ?thesis
    proof (cases "lc_word s AND 3 = 1")
      case True
      with st AcqLoad have s': "s' = goto t (AcqCAS (lc_word s)) s" by (simp add: use_step_def)
      from linv_use [OF li, of "AcqCAS (lc_word s)" ?w "lc_locked s"] AcqLoad True n show ?thesis
        by (simp add: s' lc_inv_def goto_def R(2) pc_simps)
    next
      case False
      with st AcqLoad have s': "s' = goto t Idle s" by (simp add: use_step_def)
      from linv_use [OF li, of Idle ?w "lc_locked s"] AcqLoad n show ?thesis
        by (simp add: s' lc_inv_def goto_def R(2) pc_simps)
    qed
  next
    case (AcqCAS v)
    have v: "v AND 3 = 1" using linvD(4) [OF li, of "AcqCAS v"] AcqCAS by (simp add: pc_ok_def)
    show ?thesis
    proof (cases "lc_word s = v")
      case True
      then have m: "?w mod 4 = 1" using v by (simp add: state_eq)
      from st AcqCAS True have s': "s' = goto t Using (s\<lparr>lc_word := v + 4\<rparr>)" by (simp add: use_step_def)
      from linv_use [OF li, of Using "?w + 4" "lc_locked s"] AcqCAS m n show ?thesis
        using True unat_enter [OF bound] by (simp add: s' lc_inv_def goto_def R(2) pc_simps)
    next
      case False
      with st AcqCAS have s': "s' = goto t AcqLoad s" by (simp add: use_step_def)
      from linv_use [OF li, of AcqLoad ?w "lc_locked s"] AcqCAS n show ?thesis
        by (simp add: s' lc_inv_def goto_def R(2) pc_simps)
    qed
  next
    case Using
    have "lc_mapped s" using linv_mapped [OF li, of Using] Using by (simp add: in_use_def)
    with st Using have s': "s' = goto t Used s" by (simp add: use_step_def)
    from linv_use [OF li, of Used ?w "lc_locked s"] Using n show ?thesis
      by (simp add: s' lc_inv_def goto_def R(2) pc_simps)
  next
    case Used
    have w4: "4 \<le> ?w" using linvD(1) [OF li] Used by (simp add: in_use_def)
    define w' where "w' = lc_word s + NOT 3"
    define q where "q = (if w' = 2 then NotifyLock else Idle)"
    from st Used have s': "s' = goto t q (s\<lparr>lc_word := w'\<rparr>)" by (simp add: use_step_def Let_def w'_def q_def)
    have u: "unat w' = ?w - 4" unfolding w'_def by (rule unat_leave [OF w4])
    have two: "w' = 2 \<longleftrightarrow> ?w - 4 = 2" unfolding closing_iff u ..
    have "linv (?w - 4) (lc_locked s) (lc_mapped s) (lc_registered s) (add_mset q R)"
    proof (rule linv_use [OF li])
      show "(?w - 4) div 4 + of_bool (in_use (lc_pcs s ! t)) = ?w div 4 + of_bool (in_use q)"
        using w4 Used le_div_geq [of 4 ?w] by (simp add: in_use_def q_def)
      show "?w - 4 = ?w \<or> (?w - 4) mod 4 = ?w mod 4 \<and> (4 \<le> ?w \<or> ?w mod 4 = 1)"
        using w4 by (simp add: le_mod_geq)
      show "0 < (?w - 4) div 4 \<or> q = NotifyLock \<or> q = NotifyHeld \<or>
        ?w - 4 = ?w \<and> lc_pcs s ! t \<noteq> NotifyLock \<and> lc_pcs s ! t \<noteq> NotifyHeld \<or> ?w mod 4 \<noteq> 2"
        using w4 two by (cases "?w mod 4 = 2") (auto simp: le_mod_geq q_def)
    qed (use Used in \<open>auto simp: pc_simps q_def\<close>)
    with n show ?thesis unfolding s' by (simp add: lc_inv_def goto_def R(2) u)
  next
    case NotifyLock
    with st have s': "s' = goto t NotifyHeld (s\<lparr>lc_locked := True\<rparr>)" "\<not> lc_locked s" by (simp_all add: use_step_def split: if_splits)
    from linv_use [OF li, of NotifyHeld ?w True] NotifyLock n s'(2) show ?thesis
      by (simp add: s'(1) lc_inv_def goto_def R(2) pc_simps)
  next
    case NotifyHeld
    with st have s': "s' = goto t Idle (s\<lparr>lc_locked := False, lc_pcs := map wake (lc_pcs s)\<rparr>)" by (simp add: use_step_def)
    have "mset ((map wake (lc_pcs s))[t := Idle]) = add_mset Idle (image_mset wake R)"
      using t R(1) NotifyHeld by (simp add: mset_update)
    with linv_broadcast [of ?w "lc_locked s" "lc_mapped s" "lc_registered s" R] li NotifyHeld n show ?thesis
      by (simp add: s' lc_inv_def goto_def)
  qed (use st in \<open>simp_all add: use_step_def\<close>)
qed

text \<open>What a goroutine that is in \<open>Close\<close> may do.\<close>

lemma closer_ok: "lc_inv s \<Longrightarrow> t < length (lc_pcs s) \<Longrightarrow> pc_ok (lc_pcs s ! t) (unat (lc_word s)) (lc_mapped s) (lc_registered s)"
  using linvD(4) by (force simp: lc_inv_def)

lemma holder_locked:
  assumes inv: "lc_inv s" and t: "t < length (lc_pcs s)" and p: "holds_lock (lc_pcs s ! t)"
  shows "lc_locked s"
proof -
  obtain R where R: "mset (lc_pcs s) = add_mset (lc_pcs s ! t) R" by (rule mset_goto [OF t]) blast
  have "size (filter_mset holds_lock (add_mset (lc_pcs s ! t) R)) = of_bool (lc_locked s)"
    using inv by (auto simp: lc_inv_def R dest: linvD(5))
  then show ?thesis using p unfolding size_filter_add by (cases "lc_locked s") simp_all
qed

lemma closer_moves:
  assumes inv: "lc_inv s" and t: "t < length (lc_pcs s)"
    and moves: "closing (lc_pcs s ! t)" "unat w' div 4 = unat (lc_word s) div 4"
      "if closing q then pc_ok q (unat w') m' r' else q = Idle \<and> at_rest (unat w') m' r'"
      "of_bool l' + of_bool (holds_lock (lc_pcs s ! t)) = (of_bool (lc_locked s) + of_bool (holds_lock q) :: nat)"
      "q = Waiting \<Longrightarrow> 0 < unat (lc_word s) div 4"
  shows "lc_inv (goto t q (s\<lparr>lc_word := w', lc_locked := l', lc_mapped := m', lc_registered := r'\<rparr>))"
proof -
  obtain R where R: "mset (lc_pcs s) = add_mset (lc_pcs s ! t) R" "\<And>q. mset ((lc_pcs s)[t := q]) = add_mset q R"
    by (rule mset_goto [OF t]) blast
  have "linv (unat (lc_word s)) (lc_locked s) (lc_mapped s) (lc_registered s) (add_mset (lc_pcs s ! t) R)"
    using inv by (simp add: lc_inv_def R(1))
  from linv_close [OF this moves] inv show ?thesis by (simp add: lc_inv_def goto_def R(2))
qed

lemma closer_relocks:
  assumes "lc_inv s" "t < length (lc_pcs s)" "closing (lc_pcs s ! t)"
    "if closing q then pc_ok q (unat (lc_word s)) (lc_mapped s) (lc_registered s)
     else q = Idle \<and> at_rest (unat (lc_word s)) (lc_mapped s) (lc_registered s)"
    "of_bool l' + of_bool (holds_lock (lc_pcs s ! t)) = (of_bool (lc_locked s) + of_bool (holds_lock q) :: nat)"
    "q = Waiting \<Longrightarrow> 0 < unat (lc_word s) div 4"
  shows "lc_inv (goto t q (s\<lparr>lc_locked := l'\<rparr>))"
  using closer_moves [of s t "lc_word s" q "lc_mapped s" "lc_registered s" l'] assms by simp

lemma closer_stays:
  assumes "lc_inv s" "t < length (lc_pcs s)" "closing (lc_pcs s ! t)"
    "if closing q then pc_ok q (unat (lc_word s)) (lc_mapped s) (lc_registered s)
     else q = Idle \<and> at_rest (unat (lc_word s)) (lc_mapped s) (lc_registered s)"
    "holds_lock (lc_pcs s ! t) = holds_lock q" "q \<noteq> Waiting"
  shows "lc_inv (goto t q s)"
  using closer_relocks [of s t q "lc_locked s"] assms by simp

text \<open>Each step of \<open>Close\<close> in turn.\<close>

lemma close_lock_inv:
  assumes inv: "lc_inv s" and t: "t < length (lc_pcs s)" and st: "close_step c t (lc_pcs s ! t) s = Some s'"
    and CloseLock: "lc_pcs s ! t = CloseLock"
  shows "lc_inv s'"
proof -
  note ok = closer_ok [OF inv t] and held = holder_locked [OF inv t] and go = closer_moves [OF inv t]
    and relock = closer_relocks [OF inv t] and stay = closer_stays [OF inv t]
  let ?w = "unat (lc_word s)"
  from st CloseLock have "s' = goto t CloseCheck (s\<lparr>lc_locked := True\<rparr>)" "\<not> lc_locked s"
    by (simp_all add: close_step_def split: if_splits)
  with relock [of CloseCheck True] CloseLock ok show ?thesis by (simp add: pc_simps)
qed

lemma close_check_inv:
  assumes inv: "lc_inv s" and t: "t < length (lc_pcs s)" and st: "close_step c t (lc_pcs s ! t) s = Some s'"
    and CloseCheck: "lc_pcs s ! t = CloseCheck"
  shows "lc_inv s'"
proof -
  note ok = closer_ok [OF inv t] and held = holder_locked [OF inv t] and go = closer_moves [OF inv t]
    and relock = closer_relocks [OF inv t] and stay = closer_stays [OF inv t]
  let ?w = "unat (lc_word s)"
  have l: "lc_locked s" using held CloseCheck by (simp add: holds_lock_def closing_def)
  have r: "at_rest ?w (lc_mapped s) (lc_registered s)" using ok CloseCheck by (simp add: pc_ok_def)
  have m: "?w mod 4 = 1 \<or> ?w mod 4 = 2 \<or> ?w mod 4 = 3" using r by (auto simp: at_rest_def)
  show ?thesis
  proof (cases "?w mod 4 = 3")
    case True
    with st CloseCheck have "s' = goto t Idle (s\<lparr>lc_locked := False\<rparr>)" by (simp add: close_step_def state_eq Let_def)
    with relock [of Idle False] CloseCheck r l show ?thesis by (simp add: closing_def holds_lock_def)
  next
    case False
    show ?thesis
    proof (cases "?w mod 4 = 1")
      case True
      with st CloseCheck have s': "s' = goto t CloseLoad s" by (simp add: close_step_def state_eq Let_def)
      show ?thesis unfolding s' by (rule stay) (use CloseCheck r True in \<open>auto simp: pc_simps\<close>)
    next
      case False
      with \<open>?w mod 4 \<noteq> 3\<close> m st CloseCheck have s': "s' = goto t CloseUnmap s" by (simp add: close_step_def state_eq Let_def)
      show ?thesis unfolding s' by (rule stay) (use CloseCheck r False \<open>?w mod 4 \<noteq> 3\<close> in \<open>auto simp: pc_simps\<close>)
    qed
  qed
qed

lemma close_load_inv:
  assumes inv: "lc_inv s" and t: "t < length (lc_pcs s)" and st: "close_step c t (lc_pcs s ! t) s = Some s'"
    and CloseLoad: "lc_pcs s ! t = CloseLoad"
  shows "lc_inv s'"
proof -
  note ok = closer_ok [OF inv t] and held = holder_locked [OF inv t] and go = closer_moves [OF inv t]
    and relock = closer_relocks [OF inv t] and stay = closer_stays [OF inv t]
  let ?w = "unat (lc_word s)"
  from st CloseLoad have s': "s' = goto t (CloseCAS (lc_word s)) s" by (simp add: close_step_def)
  show ?thesis unfolding s' by (rule stay) (use CloseLoad ok in \<open>auto simp: pc_simps\<close>)
qed

lemma close_cas_inv:
  assumes inv: "lc_inv s" and t: "t < length (lc_pcs s)" and st: "close_step c t (lc_pcs s ! t) s = Some s'"
    and CloseCAS: "lc_pcs s ! t = CloseCAS v"
  shows "lc_inv s'"
proof -
  note ok = closer_ok [OF inv t] and held = holder_locked [OF inv t] and go = closer_moves [OF inv t]
    and relock = closer_relocks [OF inv t] and stay = closer_stays [OF inv t]
  let ?w = "unat (lc_word s)"
  have l: "lc_locked s" using held CloseCAS by (simp add: holds_lock_def closing_def)
  show ?thesis
  proof (cases "lc_word s = v")
    case True
    define w' where "w' = (lc_word s AND NOT 3) OR 2"
    have u: "unat w' = 2 + 4 * (?w div 4)" unfolding w'_def unat_closing by (rule add.commute)
    have u2: "unat w' div 4 = ?w div 4" "unat w' mod 4 = 2" unfolding u by (simp_all only: div_mult_self2 mod_mult_self2) simp_all
    have s': "s' = goto t CloseWait (s\<lparr>lc_word := w'\<rparr>)" using st CloseCAS True by (simp add: close_step_def w'_def)
    have "lc_inv (goto t CloseWait (s\<lparr>lc_word := w', lc_locked := lc_locked s, lc_mapped := lc_mapped s,
        lc_registered := lc_registered s\<rparr>))"
      by (rule go) (use CloseCAS ok u2 in \<open>auto simp: pc_simps\<close>)
    then show ?thesis by (simp add: s')
  next
    case False
    with st CloseCAS have s': "s' = goto t CloseLoad s" by (simp add: close_step_def)
    show ?thesis unfolding s' by (rule stay) (use CloseCAS ok in \<open>auto simp: pc_simps\<close>)
  qed
qed

lemma close_wait_inv:
  assumes inv: "lc_inv s" and t: "t < length (lc_pcs s)" and st: "close_step c t (lc_pcs s ! t) s = Some s'"
    and CloseWait: "lc_pcs s ! t = CloseWait"
  shows "lc_inv s'"
proof -
  note ok = closer_ok [OF inv t] and held = holder_locked [OF inv t] and go = closer_moves [OF inv t]
    and relock = closer_relocks [OF inv t] and stay = closer_stays [OF inv t]
  let ?w = "unat (lc_word s)"
  have l: "lc_locked s" using held CloseWait by (simp add: holds_lock_def closing_def)
  have two: "lc_word s = 2 \<longleftrightarrow> ?w = 2" by (rule closing_iff)
  show ?thesis
  proof (cases "lc_word s = 2")
    case True
    with st CloseWait have s': "s' = goto t CloseUnreg s" by (simp add: close_step_def)
    show ?thesis unfolding s' by (rule stay) (use CloseWait ok True two in \<open>auto simp: pc_simps\<close>)
  next
    case False
    have "?w div 4 \<noteq> 0"
      using ok CloseWait False two div_mult_mod_eq [of ?w 4] by (cases "?w div 4 = 0") (simp_all add: pc_ok_def)
    moreover from False st CloseWait have s': "s' = goto t Waiting (s\<lparr>lc_locked := False\<rparr>)" by (simp add: close_step_def)
    ultimately show ?thesis unfolding s' by (intro relock) (use CloseWait ok l in \<open>auto simp: pc_simps\<close>)
  qed
qed

lemma close_woken_inv:
  assumes inv: "lc_inv s" and t: "t < length (lc_pcs s)" and st: "close_step c t (lc_pcs s ! t) s = Some s'"
    and Woken: "lc_pcs s ! t = Woken"
  shows "lc_inv s'"
proof -
  note ok = closer_ok [OF inv t] and held = holder_locked [OF inv t] and go = closer_moves [OF inv t]
    and relock = closer_relocks [OF inv t] and stay = closer_stays [OF inv t]
  let ?w = "unat (lc_word s)"
  from st Woken have s': "s' = goto t CloseWait (s\<lparr>lc_locked := True\<rparr>)" and "\<not> lc_locked s"
    by (simp_all add: close_step_def split: if_splits)
  then show ?thesis unfolding s' by (intro relock) (use Woken ok in \<open>auto simp: pc_simps\<close>)
qed

lemma close_unreg_inv:
  assumes inv: "lc_inv s" and t: "t < length (lc_pcs s)" and st: "close_step c t (lc_pcs s ! t) s = Some s'"
    and CloseUnreg: "lc_pcs s ! t = CloseUnreg"
  shows "lc_inv s'"
proof -
  note ok = closer_ok [OF inv t] and held = holder_locked [OF inv t] and go = closer_moves [OF inv t]
    and relock = closer_relocks [OF inv t] and stay = closer_stays [OF inv t]
  let ?w = "unat (lc_word s)"
  have l: "lc_locked s" using held CloseUnreg by (simp add: holds_lock_def closing_def)
  show ?thesis
  proof (cases c)
    case KernelOk
    with st CloseUnreg have s': "s' = goto t CloseUnmap (s\<lparr>lc_registered := False\<rparr>)" by (simp add: close_step_def)
    have "lc_inv (goto t CloseUnmap (s\<lparr>lc_word := lc_word s, lc_locked := lc_locked s, lc_mapped := lc_mapped s,
        lc_registered := False\<rparr>))"
      by (rule go) (use CloseUnreg ok l in \<open>auto simp: pc_simps\<close>)
    then show ?thesis by (simp add: s')
  next
    case KernelFail
    with st CloseUnreg have s': "s' = goto t Idle (s\<lparr>lc_word := 1, lc_locked := False\<rparr>)" by (simp add: close_step_def)
    have "lc_inv (goto t Idle (s\<lparr>lc_word := 1, lc_locked := False, lc_mapped := lc_mapped s,
        lc_registered := lc_registered s\<rparr>))"
      by (rule go) (use CloseUnreg ok l in \<open>auto simp: pc_simps\<close>)
    then show ?thesis by (simp add: s')
  qed (use st CloseUnreg in \<open>simp_all add: close_step_def\<close>)
qed

lemma close_unmap_inv:
  assumes inv: "lc_inv s" and t: "t < length (lc_pcs s)" and st: "close_step c t (lc_pcs s ! t) s = Some s'"
    and CloseUnmap: "lc_pcs s ! t = CloseUnmap"
  shows "lc_inv s'"
proof -
  note ok = closer_ok [OF inv t] and held = holder_locked [OF inv t] and go = closer_moves [OF inv t]
    and relock = closer_relocks [OF inv t] and stay = closer_stays [OF inv t]
  let ?w = "unat (lc_word s)"
  have l: "lc_locked s" "lc_mapped s" using held ok CloseUnmap by (simp_all add: holds_lock_def closing_def pc_ok_def)
  show ?thesis
  proof (cases c)
    case KernelOk
    with st CloseUnmap l have s': "s' = goto t CloseStore (s\<lparr>lc_mapped := False\<rparr>)" by (simp add: close_step_def)
    have "lc_inv (goto t CloseStore (s\<lparr>lc_word := lc_word s, lc_locked := lc_locked s, lc_mapped := False,
        lc_registered := lc_registered s\<rparr>))"
      by (rule go) (use CloseUnmap ok l in \<open>auto simp: pc_simps\<close>)
    then show ?thesis by (simp add: s')
  next
    case KernelFail
    with st CloseUnmap have s': "s' = goto t Idle (s\<lparr>lc_locked := False\<rparr>)" by (simp add: close_step_def)
    show ?thesis unfolding s' by (intro relock) (use CloseUnmap ok l in \<open>auto simp: pc_simps\<close>)
  qed (use st CloseUnmap in \<open>simp_all add: close_step_def\<close>)
qed

lemma close_store_inv:
  assumes inv: "lc_inv s" and t: "t < length (lc_pcs s)" and st: "close_step c t (lc_pcs s ! t) s = Some s'"
    and CloseStore: "lc_pcs s ! t = CloseStore"
  shows "lc_inv s'"
proof -
  note ok = closer_ok [OF inv t] and held = holder_locked [OF inv t] and go = closer_moves [OF inv t]
    and relock = closer_relocks [OF inv t] and stay = closer_stays [OF inv t]
  let ?w = "unat (lc_word s)"
  have l: "lc_locked s" using held CloseStore by (simp add: holds_lock_def closing_def)
  from st CloseStore have s': "s' = goto t Idle (s\<lparr>lc_word := 3, lc_locked := False\<rparr>)" by (simp add: close_step_def)
  have "lc_inv (goto t Idle (s\<lparr>lc_word := 3, lc_locked := False, lc_mapped := lc_mapped s,
      lc_registered := lc_registered s\<rparr>))"
    by (rule go) (use CloseStore ok l in \<open>auto simp: pc_simps\<close>)
  then show ?thesis by (simp add: s')
qed

lemma close_step_inv:
  assumes "lc_inv s" "t < length (lc_pcs s)" "close_step c t (lc_pcs s ! t) s = Some s'"
  shows "lc_inv s'"
proof (cases "lc_pcs s ! t")
  case CloseLock
  from close_lock_inv [OF assms this] show ?thesis .
next
  case CloseCheck
  from close_check_inv [OF assms this] show ?thesis .
next
  case CloseLoad
  from close_load_inv [OF assms this] show ?thesis .
next
  case (CloseCAS v)
  from close_cas_inv [OF assms this] show ?thesis .
next
  case CloseWait
  from close_wait_inv [OF assms this] show ?thesis .
next
  case Woken
  from close_woken_inv [OF assms this] show ?thesis .
next
  case CloseUnreg
  from close_unreg_inv [OF assms this] show ?thesis .
next
  case CloseUnmap
  from close_unmap_inv [OF assms this] show ?thesis .
next
  case CloseStore
  from close_store_inv [OF assms this] show ?thesis .
qed (use assms(3) in \<open>simp_all add: close_step_def\<close>)

lemma lnext_inv:
  assumes inv: "lc_inv s" and st: "lnext c t s = Some s'"
    and alone: "lc_pcs s ! t = Idle \<and> c = StartClose \<longrightarrow> (\<forall>p\<in>set (lc_pcs s). \<not> closing p)"
  shows "lc_inv s'"
proof -
  have t: "t < length (lc_pcs s)" using st by (auto simp: lnext_def split: if_splits)
  show ?thesis
  proof (cases "lc_pcs s ! t = Idle")
    case False
    then show ?thesis
      using st t use_step_inv [OF inv t] close_step_inv [OF inv t]
      by (auto simp: lnext_def Let_def split: option.splits)
  next
    case True
    obtain R where R: "mset (lc_pcs s) = add_mset Idle R" "\<And>q. mset ((lc_pcs s)[t := q]) = add_mset q R"
      using mset_goto [OF t] True by metis
    have li: "linv (unat (lc_word s)) (lc_locked s) (lc_mapped s) (lc_registered s) (add_mset Idle R)"
      and n: "length (lc_pcs s) < 2 ^ 61"
      using inv by (simp_all add: lc_inv_def R(1))
    show ?thesis
    proof (cases c)
      case StartUse
      with st t True have s': "s' = goto t AcqLoad s" by (simp add: lnext_def)
      from linv_use [OF li, of AcqLoad "unat (lc_word s)" "lc_locked s"] n show ?thesis
        by (simp add: s' lc_inv_def goto_def R(2) pc_simps)
    next
      case StartClose
      with st t True have s': "s' = goto t CloseLock s" by (simp add: lnext_def)
      have none: "filter_mset closing (add_mset Idle R) = {#}"
        using alone True StartClose R(1) by (metis filter_mset_eq_mempty_iff set_mset_mset)
      have R0: "filter_mset closing R = {#}" using none by (simp add: closing_def [of Idle])
      have "linv (unat (lc_word s)) (lc_locked s) (lc_mapped s) (lc_registered s) (add_mset CloseLock R)"
      proof (rule linvI)
        show "size (filter_mset closing (add_mset CloseLock R)) \<le> 1"
          unfolding size_filter_add R0 by simp
        show "pc_ok p (unat (lc_word s)) (lc_mapped s) (lc_registered s)" if "p \<in># add_mset CloseLock R" for p
          using that linvD(4) [OF li, of p] linvD(3) [OF li none] by (auto simp: pc_ok_def [of CloseLock])
      qed (use linvD [OF li] in \<open>simp_all add: in_use_def holds_lock_def closing_def [of CloseLock] closing_def [of Idle]\<close>)
      with n show ?thesis by (simp add: s' lc_inv_def goto_def R(2))
    qed (use st t True in \<open>simp_all add: lnext_def\<close>)
  qed
qed

lemma linit_inv:
  assumes "n < 2 ^ 61"
  shows "lc_inv (linit n)"
proof -
  have e: "filter_mset P (replicate_mset n Idle) = {#}" if "\<not> P Idle" for P using that by (simp split: if_splits)
  have p: "\<not> in_use Idle" "\<not> closing Idle" "\<not> holds_lock Idle" by (simp_all add: pc_simps)
  show ?thesis
    using assms unfolding lc_inv_def linv_def linit_def
    by (auto simp: e [of in_use, OF p(1)] e [of closing, OF p(2)] e [of holds_lock, OF p(3)] at_rest_def pc_ok_def split: if_splits)
qed

lemma serial_inv: "serial n s \<Longrightarrow> n < 2 ^ 61 \<Longrightarrow> lc_inv s"
  by (induction rule: serial.induct) (auto intro: linit_inv lnext_inv)


section \<open>Safety and progress\<close>

text \<open>
  C4. As long as no two calls of \<open>Close\<close> overlap, any number of goroutines may use a registration
  while it is closed: no operation touches an unmapped enable word, the enable word is mapped and
  registered whenever an operation is active, the lifecycle word counts the active operations, and
  \<open>Close\<close> unregisters and unmaps only when there are none.
\<close>

theorem serial_Close_safe:
  assumes "serial n s" "n < 2 ^ 61"
  shows "Crashed \<notin> set (lc_pcs s) \<and>
    (\<forall>p\<in>set (lc_pcs s). in_use p \<longrightarrow> lc_mapped s \<and> lc_registered s) \<and>
    unat (lc_word s) div 4 = length (filter in_use (lc_pcs s)) \<and>
    (\<forall>p\<in>set (lc_pcs s). p = CloseUnreg \<or> p = CloseUnmap \<or> p = CloseStore \<longrightarrow> filter in_use (lc_pcs s) = [])"
proof -
  have li: "linv (unat (lc_word s)) (lc_locked s) (lc_mapped s) (lc_registered s) (mset (lc_pcs s))"
    using serial_inv [OF assms] by (simp add: lc_inv_def)
  have count: "unat (lc_word s) div 4 = length (filter in_use (lc_pcs s))"
    using linvD(1) [OF li] by (metis mset_filter size_mset)
  have "Crashed \<notin> set (lc_pcs s)" using linvD(4) [OF li, of Crashed] by (auto simp: pc_ok_def)
  moreover have "filter in_use (lc_pcs s) = []" if "p \<in> set (lc_pcs s)" "p = CloseUnreg \<or> p = CloseUnmap \<or> p = CloseStore" for p
  proof -
    have "unat (lc_word s) = 2" using linvD(4) [OF li, of p] that by (auto simp: pc_ok_def)
    then show ?thesis using count by simp
  qed
  ultimately show ?thesis using count linv_mapped [OF li] by auto
qed

lemma demo_serial: "serial 2 (linit 2)"
  by (rule serial_init)

definition demo_use :: "(choice \<times> nat) list" where
  "demo_use = [(StartUse, 0), (StartUse, 0), (StartUse, 0), (StartClose, 1), (StartClose, 1)]"

fun serial_run :: "(choice \<times> nat) list \<Rightarrow> lifecycle \<Rightarrow> bool" where
  "serial_run [] s = True"
| "serial_run ((c, t) # cs) s =
     ((c = StartClose \<longrightarrow> lc_pcs s ! t \<noteq> Idle \<or> list_all (\<lambda>p. \<not> closing p) (lc_pcs s)) \<and>
      (case lnext c t s of None \<Rightarrow> False | Some s' \<Rightarrow> serial_run cs s'))"

lemma serial_lrun: "serial n s \<Longrightarrow> serial_run cs s \<Longrightarrow> lrun cs s = Some s' \<Longrightarrow> serial n s'"
proof (induction cs s rule: serial_run.induct)
  case (2 c t cs s)
  then obtain s1 where s1: "lnext c t s = Some s1" "serial_run cs s1" "lrun cs s1 = Some s'"
    by (auto split: option.splits)
  have "serial n s1"
    by (rule serial_step [OF 2(2) s1(1)]) (use 2(3) in \<open>auto simp: list_all_iff\<close>)
  with 2(1) s1 2(3) show ?case by simp
qed simp

definition demo_used :: lifecycle where
  "demo_used = \<lparr>lc_word = 5, lc_locked = True, lc_mapped = True, lc_registered = True, lc_pcs = [Using, CloseCheck]\<rparr>"

lemma demo_used_serial: "serial 2 demo_used"
proof (rule serial_lrun [OF demo_serial])
  have i: "linit 2 = \<lparr>lc_word = 1, lc_locked = False, lc_mapped = True, lc_registered = True, lc_pcs = [Idle, Idle]\<rparr>"
    by (simp add: linit_def numeral_2_eq_2)
  show "serial_run demo_use (linit 2)" "lrun demo_use (linit 2) = Some demo_used"
    unfolding i demo_use_def demo_used_def
    by (simp_all add: lnext_def use_step_def close_step_def goto_def closing_def)
qed

theorem serial_Close_safe_witness:
  "Crashed \<notin> set (lc_pcs demo_used) \<and> unat (lc_word demo_used) div 4 = 1"
  using serial_Close_safe [OF demo_used_serial] by (simp add: demo_used_def in_use_def)

lemma can_step:
  assumes "t < length (lc_pcs s)" "lc_pcs s ! t \<notin> {Idle, Crashed, Waiting}"
    "lc_pcs s ! t \<in> {NotifyLock, CloseLock, Woken} \<Longrightarrow> \<not> lc_locked s"
  shows "\<exists>s'. lnext KernelOk t s = Some s'"
  using assms by (cases "lc_pcs s ! t") (simp_all add: lnext_def use_step_def close_step_def Let_def)

text \<open>
  C5. There is no deadlock and no lost wake-up: as long as no two calls of \<open>Close\<close> overlap, in every
  reachable state in which some goroutine has not finished, one of those can take a step; and a \<open>Close\<close>
  that waits does so only while an operation is active or about to wake it.
\<close>

theorem serial_Close_progress:
  assumes "serial n s" "n < 2 ^ 61" "p \<in> set (lc_pcs s)" "p \<noteq> Idle"
  shows "(\<exists>t s'. t < length (lc_pcs s) \<and> lc_pcs s ! t \<noteq> Idle \<and> lnext KernelOk t s = Some s') \<and>
    (Waiting \<in> set (lc_pcs s) \<longrightarrow> (\<exists>q\<in>set (lc_pcs s). in_use q \<or> q = NotifyLock \<or> q = NotifyHeld))"
proof -
  have li: "linv (unat (lc_word s)) (lc_locked s) (lc_mapped s) (lc_registered s) (mset (lc_pcs s))"
    using serial_inv [OF assms(1,2)] by (simp add: lc_inv_def)
  have nc: "Crashed \<notin> set (lc_pcs s)" using linvD(4) [OF li, of Crashed] by (auto simp: pc_ok_def)
  have wait: "\<exists>q\<in>set (lc_pcs s). in_use q \<or> q = NotifyLock \<or> q = NotifyHeld" if "Waiting \<in> set (lc_pcs s)"
  proof -
    have "0 < unat (lc_word s) div 4 \<or> NotifyLock \<in> set (lc_pcs s) \<or> NotifyHeld \<in> set (lc_pcs s)"
      using linvD(6) [OF li] that by simp
    moreover have "\<exists>q\<in>set (lc_pcs s). in_use q" if "0 < unat (lc_word s) div 4"
    proof -
      have "0 < size (filter_mset in_use (mset (lc_pcs s)))" using that linvD(1) [OF li] by simp
      then have "filter_mset in_use (mset (lc_pcs s)) \<noteq> {#}" by (metis less_irrefl size_empty)
      then show ?thesis by (auto simp: filter_mset_eq_mempty_iff)
    qed
    ultimately show ?thesis by blast
  qed
  have free: "\<not> lc_locked s" if "\<forall>q\<in>set (lc_pcs s). \<not> holds_lock q"
  proof -
    have e: "filter_mset holds_lock (mset (lc_pcs s)) = {#}" using that by simp
    show ?thesis using linvD(5) [OF li] unfolding e by (cases "lc_locked s") simp_all
  qed
  obtain q where q: "q \<in> set (lc_pcs s)" "q \<notin> {Idle, Crashed, Waiting}"
    "q \<in> {NotifyLock, CloseLock, Woken} \<Longrightarrow> \<not> lc_locked s"
  proof (cases "\<exists>q\<in>set (lc_pcs s). holds_lock q \<or> in_use q")
    case True
    then obtain q where "q \<in> set (lc_pcs s)" "holds_lock q \<or> in_use q" by blast
    then show thesis by (intro that [of q]) (auto simp: holds_lock_def in_use_def closing_def)
  next
    case False
    then have l: "\<not> lc_locked s" using free by blast
    show thesis
    proof (cases "p = Waiting")
      case True
      with wait assms(3) False obtain q where "q \<in> set (lc_pcs s)" "q = NotifyLock \<or> q = NotifyHeld" by blast
      then show thesis using l by (intro that [of q]) auto
    next
      case False
      then show thesis using l assms(3,4) nc by (intro that [of p]) auto
    qed
  qed
  then obtain t where "t < length (lc_pcs s)" "lc_pcs s ! t = q" by (auto simp: in_set_conv_nth)
  with q can_step [of t s] wait show ?thesis by blast
qed

theorem serial_Close_progress_witness:
  "\<exists>t s'. t < 2 \<and> lnext KernelOk t demo_used = Some s'"
proof -
  have "Using \<in> set (lc_pcs demo_used)" "length (lc_pcs demo_used) = 2" by (simp_all add: demo_used_def)
  with serial_Close_progress [OF demo_used_serial, of Using] show ?thesis by auto
qed


section \<open>Two overlapping calls of Close\<close>

text \<open>
  C6. Calls of \<open>Close\<close> that overlap while an operation is active are not serialized. The first one
  waits for the operation and gives up \<open>closeMu\<close> for that. In every state reached so far without an
  overlap and with \<open>closeMu\<close> free, another goroutine that calls \<open>Close\<close> finds the state \<open>closing\<close>, takes it for a
  registration whose \<open>munmap\<close> failed, and unmaps the enable word: the active operation then reads
  unmapped memory, while the first \<open>Close\<close> still waits and the kernel still has the word registered.
\<close>

theorem overlapping_Close_unmaps_in_use:
  assumes "serial n s" "n < 2 ^ 61"
    and user: "a < length (lc_pcs s)" "lc_pcs s ! a = Using"
    and first: "b < length (lc_pcs s)" "lc_pcs s ! b = Waiting"
    and second: "t < length (lc_pcs s)" "lc_pcs s ! t = Idle" "\<not> lc_locked s"
  shows "\<exists>s'. lrun [(StartClose, t), (StartClose, t), (StartClose, t), (KernelOk, t), (StartUse, a)] s = Some s' \<and>
    lc_pcs s' ! a = Crashed \<and> lc_pcs s' ! b = Waiting \<and> \<not> lc_mapped s' \<and> lc_registered s'"
proof -
  have "Waiting \<in> set (lc_pcs s)" using first nth_mem by metis
  then have "pc_ok Waiting (unat (lc_word s)) (lc_mapped s) (lc_registered s)"
    using serial_inv [OF assms(1,2)] linvD(4) by (auto simp: lc_inv_def)
  then have "lc_word s AND 3 = 2" "lc_mapped s" "lc_registered s" by (simp_all add: pc_ok_def state_eq)
  moreover have "a \<noteq> t" "b \<noteq> t" "a \<noteq> b" using user first second by auto
  ultimately show ?thesis
    using user first second by (simp add: lnext_def use_step_def close_step_def goto_def Let_def)
qed

text \<open>One goroutine uses the registration, one waits in \<open>Close\<close>, one is idle.\<close>

definition demo_wait :: "(choice \<times> nat) list" where
  "demo_wait = [(StartUse, 0), (StartUse, 0), (StartUse, 0), (StartClose, 1), (StartClose, 1), (StartClose, 1),
     (StartClose, 1), (StartClose, 1), (StartClose, 1)]"

definition demo_waiting :: lifecycle where
  "demo_waiting = \<lparr>lc_word = 6, lc_locked = False, lc_mapped = True, lc_registered = True, lc_pcs = [Using, Waiting, Idle]\<rparr>"

lemma demo_waiting_serial: "serial 3 demo_waiting"
proof (rule serial_lrun [OF serial_init])
  have i: "linit 3 = \<lparr>lc_word = 1, lc_locked = False, lc_mapped = True, lc_registered = True, lc_pcs = [Idle, Idle, Idle]\<rparr>"
    by (simp add: linit_def numeral_3_eq_3)
  show "serial_run demo_wait (linit 3)" "lrun demo_wait (linit 3) = Some demo_waiting"
    unfolding i demo_wait_def demo_waiting_def
    by (simp_all add: lnext_def use_step_def close_step_def goto_def closing_def)
qed

theorem overlapping_Close_unmaps_in_use_witness:
  "\<exists>s'. lrun [(StartClose, 2), (StartClose, 2), (StartClose, 2), (KernelOk, 2), (StartUse, 0)] demo_waiting = Some s' \<and>
    lc_pcs s' ! 0 = Crashed \<and> lc_pcs s' ! 1 = Waiting \<and> \<not> lc_mapped s' \<and> lc_registered s'"
  by (rule overlapping_Close_unmaps_in_use [OF demo_waiting_serial]) (simp_all add: demo_waiting_def)

end
