(* ===== verification/GoState.thy ===== *)
theory GoState imports Prelude begin

text \<open>
  What the readers of recorded data share: Go's \<open>int\<close> on the host, slicing by such integers, and
  operations on a state that may fail. An operation returns its result together with the state it
  leaves, since a method that returns an error keeps what it has already changed.
\<close>

named_theorems act_simps \<open>how operations on a state are sequenced\<close>


section \<open>The host's int\<close>

definition MaxInt :: "host \<Rightarrow> int" where
  "MaxInt h = (if int64 h then 2 ^ 63 - 1 else 2 ^ 31 - 1)"

text \<open>\<open>int(x)\<close>: the value modulo the size of the host's int, in two's complement.\<close>

definition to_int :: "host \<Rightarrow> int \<Rightarrow> int" where
  "to_int h x = (x + (MaxInt h + 1)) mod (2 * (MaxInt h + 1)) - (MaxInt h + 1)"

lemma MaxInt_ge: "2 ^ 31 - 1 \<le> MaxInt h"
  by (simp add: MaxInt_def)

lemma to_int_id [simp]: "0 \<le> x \<Longrightarrow> x \<le> MaxInt h \<Longrightarrow> to_int h x = x"
proof -
  assume "0 \<le> x" "x \<le> MaxInt h"
  then have "(x + (MaxInt h + 1)) mod (2 * (MaxInt h + 1)) = x + (MaxInt h + 1)"
    by (intro mod_pos_pos_trivial) (auto simp: MaxInt_def)
  then show ?thesis by (simp add: to_int_def)
qed

text \<open>\<open>s[i:j]\<close> and \<open>s[i:]\<close> with signed indices.\<close>

definition sliceI :: "'a list \<Rightarrow> int \<Rightarrow> int \<Rightarrow> 'a list result" where
  "sliceI xs i j = (if i < 0 \<or> j < 0 then Inl Fault else slice xs (nat i) (nat j))"

definition slice_fromI :: "'a list \<Rightarrow> int \<Rightarrow> 'a list result" where
  "slice_fromI xs i = (if i < 0 then Inl Fault else slice_from xs (nat i))"

lemma sliceI_in:
  "0 \<le> i \<Longrightarrow> i \<le> j \<Longrightarrow> j \<le> int (length xs) \<Longrightarrow>
   sliceI xs i j = Inr (take (nat (j - i)) (drop (nat i) xs))"
  by (simp add: sliceI_def slice_in nat_diff_distrib)

lemma slice_fromI_in: "0 \<le> i \<Longrightarrow> i \<le> int (length xs) \<Longrightarrow> slice_fromI xs i = Inr (drop (nat i) xs)"
  by (simp add: slice_fromI_def slice_from_in)

lemma safe_sliceI [intro]: "0 \<le> i \<Longrightarrow> i \<le> j \<Longrightarrow> j \<le> int (length xs) \<Longrightarrow> safe (sliceI xs i j)"
  by (simp add: sliceI_in)

lemma sliceI_Inr [result_simps]:
  "sliceI xs i j = Inr ys \<longleftrightarrow>
     0 \<le> i \<and> i \<le> j \<and> j \<le> int (length xs) \<and> ys = take (nat (j - i)) (drop (nat i) xs)"
  by (auto simp: sliceI_def slice_Inr nat_diff_distrib nat_le_iff)


section \<open>Operations on a state\<close>

type_synonym ('s, 'a) act = "'s \<Rightarrow> 'a result \<times> 's"

definition okA :: "'a \<Rightarrow> ('s, 'a) act" where
  "okA x s = (Inr x, s)"

definition liftA :: "'a result \<Rightarrow> ('s, 'a) act" where
  "liftA r s = (r, s)"

definition failA :: "sentinel \<Rightarrow> ('s, 'a) act" where
  "failA e s = (fail e, s)"

definition getA :: "('s \<Rightarrow> 'a) \<Rightarrow> ('s, 'a) act" where
  "getA f s = (Inr (f s), s)"

definition modA :: "('s \<Rightarrow> 's) \<Rightarrow> ('s, unit) act" where
  "modA f s = (Inr (), f s)"

definition bindA :: "('s, 'a) act \<Rightarrow> ('a \<Rightarrow> ('s, 'b) act) \<Rightarrow> ('s, 'b) act" where
  "bindA m f s = (case m s of (Inl e, t) \<Rightarrow> (Inl e, t) | (Inr x, t) \<Rightarrow> f x t)"

text \<open>\<open>if err := m; err != nil \<close>: the error is changed by a function of it before it is returned.\<close>

definition wrapA :: "(goerr \<Rightarrow> goerr) \<Rightarrow> ('s, 'a) act \<Rightarrow> ('s, 'a) act" where
  "wrapA g m s = (case m s of (Inl (Fail e), t) \<Rightarrow> (Inl (Fail (g e)), t) | (r, t) \<Rightarrow> (r, t))"

text \<open>\<open>x, err := m; if err != nil { return handle(err) }\<close>: the error is handled, a panic is not.\<close>

definition catchA :: "'a result \<Rightarrow> (goerr \<Rightarrow> ('s, 'b) act) \<Rightarrow> ('a \<Rightarrow> ('s, 'b) act) \<Rightarrow> ('s, 'b) act" where
  "catchA r handle f s =
     (case r of Inl Fault \<Rightarrow> (Inl Fault, s) | Inl (Fail e) \<Rightarrow> handle e s | Inr x \<Rightarrow> f x s)"

text \<open>\<open>return err\<close> with an error that is not a sentinel, and \<open>if err := m; err != nil { return handle(err) }\<close>.\<close>

definition raiseA :: "goerr \<Rightarrow> ('s, 'a) act" where
  "raiseA e s = (Inl (Fail e), s)"

definition onErrorA :: "(goerr \<Rightarrow> ('s, 'a) act) \<Rightarrow> ('s, 'a) act \<Rightarrow> ('s, 'a) act" where
  "onErrorA handle m s = (case m s of (Inl (Fail e), t) \<Rightarrow> handle e t | (r, t) \<Rightarrow> (r, t))"

fun forA :: "('a \<Rightarrow> ('s, unit) act) \<Rightarrow> 'a list \<Rightarrow> ('s, unit) act" where
  "forA f [] = okA ()"
| "forA f (x # xs) = bindA (f x) (\<lambda>_. forA f xs)"

lemma act_apply [act_simps]:
  "okA x s = (Inr x, s)" "liftA r s = (r, s)" "failA e s = (fail e, s)"
  "getA g s = (Inr (g s), s)" "modA h s = (Inr (), h s)" "raiseA err s = (Inl (Fail err), s)"
  by (simp_all add: okA_def liftA_def failA_def getA_def modA_def raiseA_def)

lemma bindA_apply [act_simps]:
  "bindA m f s = (case m s of (Inl e, t) \<Rightarrow> (Inl e, t) | (Inr x, t) \<Rightarrow> f x t)"
  by (simp add: bindA_def)

lemma bindA_getA [simp, act_simps]: "bindA (getA g) f s = f (g s) s"
  by (simp add: act_simps)

lemma bindA_modA [simp, act_simps]: "bindA (modA g) f s = f () (g s)"
  by (simp add: act_simps)

lemma bindA_Inr: "m s = (Inr x, t) \<Longrightarrow> bindA m f s = f x t"
  by (simp add: bindA_def)

lemma catchA_apply [simp, act_simps]:
  "catchA (Inr x) handle f s = f x s" "catchA (Inl (Fail e)) handle f s = handle e s"
  by (simp_all add: catchA_def)

lemma bindA_cong [fundef_cong]:
  "m s = m' s' \<Longrightarrow> (\<And>x t. m' s' = (Inr x, t) \<Longrightarrow> f x t = f' x t) \<Longrightarrow> s = s' \<Longrightarrow> bindA m f s = bindA m' f' s'"
  by (auto simp: bindA_def split: prod.splits sum.splits)


section \<open>Operations that leave a member alone\<close>

definition keeps :: "('s \<Rightarrow> 'b) \<Rightarrow> ('s, 'a) act \<Rightarrow> bool" where
  "keeps f m \<longleftrightarrow> (\<forall>s. f (snd (m s)) = f s)"

lemma keepsD: "keeps f m \<Longrightarrow> m s = (x, t) \<Longrightarrow> f t = f s"
  by (metis keeps_def snd_conv)

lemma keeps_basic [intro, simp]:
  "keeps f (okA x)" "keeps f (liftA r)" "keeps f (failA e)" "keeps f (getA g)"
  by (simp_all add: keeps_def act_simps)

lemma keeps_mod [intro]: "(\<And>s. f (g s) = f s) \<Longrightarrow> keeps f (modA g)"
  by (simp add: keeps_def act_simps)

lemma keeps_bind [intro]: "keeps f m \<Longrightarrow> (\<And>x. keeps f (k x)) \<Longrightarrow> keeps f (bindA m k)"
  by (auto simp: keeps_def bindA_def split: prod.split sum.split) (metis snd_conv)+

lemma keeps_if [intro]: "keeps f a \<Longrightarrow> keeps f b \<Longrightarrow> keeps f (if c then a else b)"
  by simp

lemma keeps_case_option [intro]:
  "keeps f a \<Longrightarrow> (\<And>y. keeps f (g y)) \<Longrightarrow> keeps f (case_option a g x)"
  by (cases x) simp_all

lemma keeps_for [intro]: "(\<And>x. x \<in> set xs \<Longrightarrow> keeps f (g x)) \<Longrightarrow> keeps f (forA g xs)"
  by (induction xs) auto

lemma keeps_raise [intro, simp]: "keeps f (raiseA e)"
  by (simp add: keeps_def act_simps)

lemma keeps_onError: "keeps f m \<Longrightarrow> (\<And>e. keeps f (handle e)) \<Longrightarrow> keeps f (onErrorA handle m)"
  by (auto simp: keeps_def onErrorA_def split: prod.split sum.split failure.split) (metis snd_conv)+

lemma keeps_case_prod [intro]: "(\<And>a b. keeps f (k a b)) \<Longrightarrow> keeps f (case p of (a, b) \<Rightarrow> k a b)"
  by (cases p) simp

lemma keeps_wrap [intro]: "keeps f m \<Longrightarrow> keeps f (wrapA g m)"
  by (auto simp: keeps_def wrapA_def split: prod.split sum.split failure.split) (metis snd_conv)+


section \<open>Runs that keep an invariant\<close>

text \<open>
  \<open>runs P m Q\<close>: started in a state with \<open>P\<close>, the operation does not panic; when it returns a value
  the value and the state satisfy \<open>Q\<close>, and when it returns an error the state still has the
  invariant \<open>I\<close>. The rules are the usual ones of a program logic, one for each way of composing
  operations.
\<close>

locale state_invariant =
  fixes I :: "'s \<Rightarrow> bool"
begin

definition runs :: "('s \<Rightarrow> bool) \<Rightarrow> ('s, 'a) act \<Rightarrow> ('a \<Rightarrow> 's \<Rightarrow> bool) \<Rightarrow> bool" where
  "runs P m Q \<longleftrightarrow>
     (\<forall>s. P s \<longrightarrow> (case m s of (Inl Fault, t) \<Rightarrow> False | (Inl (Fail e), t) \<Rightarrow> I t | (Inr x, t) \<Rightarrow> Q x t))"

lemma runsI:
  "(\<And>s. P s \<Longrightarrow> fst (m s) \<noteq> Inl Fault) \<Longrightarrow> (\<And>s e t. P s \<Longrightarrow> m s = (Inl (Fail e), t) \<Longrightarrow> I t) \<Longrightarrow>
   (\<And>s x t. P s \<Longrightarrow> m s = (Inr x, t) \<Longrightarrow> Q x t) \<Longrightarrow> runs P m Q"
  unfolding runs_def by (auto split: prod.splits sum.splits failure.splits) fastforce

lemma runs_Inr: "runs P m Q \<Longrightarrow> P s \<Longrightarrow> m s = (Inr x, t) \<Longrightarrow> Q x t"
  unfolding runs_def by (auto dest!: spec [of _ s])

lemma runs_Fail: "runs P m Q \<Longrightarrow> P s \<Longrightarrow> m s = (Inl (Fail e), t) \<Longrightarrow> I t"
  unfolding runs_def by (auto dest!: spec [of _ s])

lemma runs_safe: "runs P m Q \<Longrightarrow> P s \<Longrightarrow> fst (m s) \<noteq> Inl Fault"
  unfolding runs_def by (cases "m s") (auto dest!: spec [of _ s])

lemma runs_state: "runs P m (\<lambda>_. I) \<Longrightarrow> P s \<Longrightarrow> I (snd (m s))"
  using runs_safe [of P m "\<lambda>_. I" s] runs_Inr [of P m "\<lambda>_. I" s] runs_Fail [of P m "\<lambda>_. I" s]
  by (metis failure.exhaust fst_conv obj_sumE prod.exhaust snd_conv)

lemma runs_weaken:
  "runs P' m Q' \<Longrightarrow> (\<And>s. P s \<Longrightarrow> P' s) \<Longrightarrow> (\<And>x s. Q' x s \<Longrightarrow> Q x s) \<Longrightarrow> runs P m Q"
  unfolding runs_def by (fastforce split: prod.splits sum.splits failure.splits)

lemma runs_conj: "runs P m Q \<Longrightarrow> runs P' m Q' \<Longrightarrow> runs (\<lambda>s. P s \<and> P' s) m (\<lambda>x s. Q x s \<and> Q' x s)"
  unfolding runs_def by (fastforce split: prod.splits sum.splits failure.splits)

lemma runs_also:
  assumes "runs P m Q" "\<And>s x t. P s \<Longrightarrow> P' s \<Longrightarrow> m s = (Inr x, t) \<Longrightarrow> R x t"
  shows "runs (\<lambda>s. P s \<and> P' s) m (\<lambda>x s. Q x s \<and> R x s)"
proof (rule runsI)
  show "fst (m s) \<noteq> Inl Fault" if "P s \<and> P' s" for s
    using runs_safe [OF assms(1)] that by blast
  show "I t" if "P s \<and> P' s" "m s = (Inl (Fail e), t)" for s e t
    using runs_Fail [OF assms(1)] that by blast
  show "Q x t \<and> R x t" if "P s \<and> P' s" "m s = (Inr x, t)" for s x t
    using runs_Inr [OF assms(1)] assms(2) that by blast
qed

lemma runs_ok: "(\<And>s. P s \<Longrightarrow> Q x s) \<Longrightarrow> runs P (okA x) Q"
  by (simp add: runs_def act_simps)

lemma runs_fail: "(\<And>s. P s \<Longrightarrow> I s) \<Longrightarrow> runs P (failA e) Q"
  by (simp add: runs_def act_simps)

lemma runs_lift:
  "(\<And>s. P s \<Longrightarrow> safe r \<and> I s) \<Longrightarrow> (\<And>x s. r = Inr x \<Longrightarrow> P s \<Longrightarrow> Q x s) \<Longrightarrow> runs P (liftA r) Q"
  by (auto simp: runs_def act_simps safe_def split: sum.splits failure.splits)

lemma runs_get: "(\<And>s. P s \<Longrightarrow> Q (g s) s) \<Longrightarrow> runs P (getA g) Q"
  by (simp add: runs_def act_simps)

lemma runs_mod: "(\<And>s. P s \<Longrightarrow> Q () (g s)) \<Longrightarrow> runs P (modA g) Q"
  by (simp add: runs_def act_simps)

lemma runs_bind:
  "runs P m R \<Longrightarrow> (\<And>x. runs (R x) (f x) Q) \<Longrightarrow> runs P (bindA m f) Q"
  unfolding runs_def bindA_def by (fastforce split: prod.splits sum.splits failure.splits)

lemma runs_bind_lift:
  "safe r \<Longrightarrow> (\<And>s. P s \<Longrightarrow> I s) \<Longrightarrow> (\<And>x. r = Inr x \<Longrightarrow> runs P (f x) Q) \<Longrightarrow> runs P (bindA (liftA r) f) Q"
  by (cases r) (auto simp: runs_def bindA_def liftA_def safe_def split: failure.splits)

lemma runs_case_option:
  "(x = None \<Longrightarrow> runs P a Q) \<Longrightarrow> (\<And>y. x = Some y \<Longrightarrow> runs P (f y) Q) \<Longrightarrow> runs P (case_option a f x) Q"
  by (cases x) simp_all

lemma runs_bind_get:
  "(\<And>s. P s \<Longrightarrow> runs P (f (g s)) Q) \<Longrightarrow> runs P (bindA (getA g) f) Q"
  by (auto simp: runs_def)

text \<open>The same with what was read kept in sight.\<close>

lemma runs_bind_get_at:
  "(\<And>s. P s \<Longrightarrow> runs (\<lambda>t. t = s) (f (g s)) Q) \<Longrightarrow> runs P (bindA (getA g) f) Q"
  by (auto simp: runs_def)

lemma runs_at: "runs (\<lambda>t. t = s) m Q \<longleftrightarrow> (case m s of (Inl Fault, t) \<Rightarrow> False | (Inl (Fail e), t) \<Rightarrow> I t | (Inr x, t) \<Rightarrow> Q x t)"
  by (simp add: runs_def)

lemma runs_bind_mod:
  "(\<And>s. P s \<Longrightarrow> R (g s)) \<Longrightarrow> runs R (f ()) Q \<Longrightarrow> runs P (bindA (modA g) f) Q"
  by (auto simp: runs_def)

lemma runs_wrap: "runs P m Q \<Longrightarrow> runs P (wrapA g m) Q"
  unfolding runs_def wrapA_def by (fastforce split: prod.splits sum.splits failure.splits)

lemma runs_raise: "(\<And>s. P s \<Longrightarrow> I s) \<Longrightarrow> runs P (raiseA e) Q"
  by (simp add: runs_def act_simps)

lemma runs_onError: "runs P m Q \<Longrightarrow> (\<And>e. runs I (handle e) Q) \<Longrightarrow> runs P (onErrorA handle m) Q"
  unfolding runs_def onErrorA_def by (fastforce split: prod.splits sum.splits failure.splits)

lemma runs_fact: "(A \<Longrightarrow> runs P m Q) \<Longrightarrow> runs (\<lambda>s. P s \<and> A) m Q"
  by (auto simp: runs_def)

lemma runs_catch:
  "safe r \<Longrightarrow> (\<And>e. runs P (handle e) Q) \<Longrightarrow> (\<And>x. r = Inr x \<Longrightarrow> runs P (f x) Q) \<Longrightarrow> runs P (catchA r handle f) Q"
  by (cases r) (auto simp: safe_def runs_def catchA_def split: failure.splits)

lemma runs_if:
  "(c \<Longrightarrow> runs P a Q) \<Longrightarrow> (\<not> c \<Longrightarrow> runs P b Q) \<Longrightarrow> runs P (if c then a else b) Q"
  by simp

lemma runs_for:
  "(\<And>x. x \<in> set xs \<Longrightarrow> runs P (f x) (\<lambda>_. P)) \<Longrightarrow> runs P (forA f xs) (\<lambda>_. P)"
  by (induction xs) (auto intro: runs_ok runs_bind)

end

end
