(* ===== verification/TracefsDecode.thy ===== *)
theory TracefsDecode imports Tracepoint GoState begin

text \<open>
  Package \<open>tracefs\<close>: the parsed event format (the types of \<open>format.go\<close>) and the decoder of ordinary
  tracefs payloads (\<open>decode.go\<close>), with the proofs that it never panics, that the outcome of a field
  does not depend on the other fields, and that integers and dynamic strings are read back exactly.
  Integers of Go type \<open>int\<close> are \<open>int\<close>, so that the code's checks for negative values are visible.
\<close>


section \<open>Formats\<close>

record property =
  pr_Name :: string
  pr_Value :: string
  pr_Line :: nat
  pr_Column :: nat

datatype location_kind = LocationNone | LocationData | LocationRelative | LocationOther u8

datatype field_kind =
  FieldOpaque | FieldUnsigned | FieldSigned | FieldFloat | FieldChar | FieldBool | FieldOther u8

datatype declaration_class = declarationScalar | declarationAggregate | declarationArray

record field_format =
  ff_Declaration :: string
  ff_Name :: string
  ff_Kind :: field_kind
  ff_Offset :: int
  ff_Size :: int
  ff_Signed :: bool
  ff_SignedSet :: bool
  ff_Width :: int
  ff_ArrayLen :: int
  ff_Pointer :: bool
  ff_Location :: location_kind
  ff_Properties :: "property list"
  ff_Line :: nat
  ff_Column :: nat
  ff_declarationClass :: declaration_class

record format =
  fm_System :: string
  fm_Name :: string
  fm_ID :: u32
  fm_Common :: "field_format list"
  fm_Fields :: "field_format list"
  fm_PrintFormat :: string
  fm_LongSize :: int
  fm_Properties :: "property list"


section \<open>Reading integers\<close>

definition endian_of :: "byte_order \<Rightarrow> endian" where
  "endian_of order = (if order = ByteOrderLittle then LittleEndian else BigEndian)"

definition readUint :: "bytes \<Rightarrow> byte_order \<Rightarrow> u64" where
  "readUint data order =
     (if length data = 1 then ucast (data ! 0)
      else if length data = 2 \<or> length data = 4 \<or> length data = 8
      then of_nat (order_get (endian_of order) data)
      else 0)"

text \<open>\<open>int64(value << shift) >> shift\<close>, the shift to the right being arithmetic.\<close>

definition signExtend :: "u64 \<Rightarrow> nat \<Rightarrow> u64" where
  "signExtend v width = (let shift = 64 - width * 8 in signed_drop_bit shift (push_bit shift v))"

definition indexNUL :: "bytes \<Rightarrow> nat option" where
  "indexNUL data = byteIndex data 0"

definition width32 :: "int \<Rightarrow> nat" where
  "width32 n = (if n \<le> 0 then 0 else if n > 0xFFFFFFFF div 8 then 0xFFFFFFFF else nat (n * 8))"

definition fieldDiagnostic :: "field_format \<Rightarrow> sentinel \<Rightarrow> diagnostic" where
  "fieldDiagnostic field e =
     \<lparr>diag_Severity = SeverityError, diag_Offset = ff_Offset field,
      diag_Stage = ''field '' @ ff_Name field, diag_Message = ''field could not be decoded'',
      diag_Err = DecodeError (ff_Offset field) (''field '' @ ff_Name field) (Err e)\<rparr>"


section \<open>One field\<close>

definition zero_value :: tvalue where
  "zero_value = TValue ValueNull [] ByteOrderUnknown TpEncodingNone '''' 0 False []"

type_synonym decoded = "(tvalue \<times> diagnostic option) result"

definition scalarKind :: "field_format \<Rightarrow> field_kind" where
  "scalarKind field =
     (if ff_SignedSet field \<and> ff_Kind field \<noteq> FieldFloat \<and> ff_Kind field \<noteq> FieldBool
      then if ff_Signed field then FieldSigned else FieldUnsigned
      else ff_Kind field)"

definition tracefs_decodeScalar :: "field_format \<Rightarrow> bytes \<Rightarrow> byte_order \<Rightarrow> tvalue \<times> diagnostic option" where
  "tracefs_decodeScalar field raw order =
     (let val = (\<lambda>d enc ok. TValue d raw order enc (ff_Declaration field) (width32 (int (length raw))) ok []);
          bad = (\<lambda>e. (val ValueNull TpEncodingNone False, Some (fieldDiagnostic field e)));
          width = (if ff_Width field = 0 then int (length raw) else ff_Width field)
      in
      if int (length raw) \<noteq> width then bad ErrInvalid
      else if width \<noteq> 1 \<and> width \<noteq> 2 \<and> width \<noteq> 4 \<and> width \<noteq> 8 then bad ErrUnsupported
      else case scalarKind field of
          FieldUnsigned \<Rightarrow> (val (ValueUnsigned (readUint raw order)) TpEncodingInteger True, None)
        | FieldSigned \<Rightarrow>
            (val (ValueSigned (signExtend (readUint raw order) (nat width))) TpEncodingInteger True, None)
        | FieldChar \<Rightarrow>
            (val (ValueSigned (signExtend (readUint raw order) (nat width))) TpEncodingInteger True, None)
        | FieldFloat \<Rightarrow>
            (val (ValueFloat (if width = 4 then F32 (ucast (readUint raw order)) else F64 (readUint raw order)))
               TpEncodingFloat True, None)
        | FieldBool \<Rightarrow> (val (ValueBool (readUint raw order \<noteq> 0)) TpEncodingBoolean True, None)
        | FieldOpaque \<Rightarrow> bad ErrUnsupported
        | FieldOther _ \<Rightarrow> bad ErrUnsupported)"

text \<open>
  The loop over the elements of an array: the \<open>i\<close> elements before it are in \<open>acc\<close>, and on a bad
  element the array keeps the zero values of the elements it has not reached.
\<close>

fun arrayElements ::
  "field_format \<Rightarrow> bytes \<Rightarrow> byte_order \<Rightarrow> nat \<Rightarrow> nat \<Rightarrow> tvalue list \<Rightarrow> (tvalue list \<times> diagnostic option) result" where
  "arrayElements element raw order 0 i acc = Inr (acc, None)"
| "arrayElements element raw order (Suc n) i acc =
     bindR (sliceI raw (int i * ff_Width element) ((int i + 1) * ff_Width element)) (\<lambda>piece.
     case tracefs_decodeScalar element piece order of
       (item, Some d) \<Rightarrow> Inr (acc @ replicate (Suc n) zero_value, Some d)
     | (item, None) \<Rightarrow> arrayElements element raw order n (i + 1) (acc @ [item]))"

definition decodeArray ::
  "host \<Rightarrow> field_format \<Rightarrow> bytes \<Rightarrow> byte_order \<Rightarrow> int \<Rightarrow> decoded" where
  "decodeArray h field raw order maxArray =
     (let base = (\<lambda>d enc w ok. TValue d raw order enc (ff_Declaration field) w ok []);
          bad = (\<lambda>e. Inr (base ValueNull TpEncodingNone (width32 (ff_Width field)) False, Some (fieldDiagnostic field e)));
          len = int (length raw);
          width = ff_Width field
      in
      if ff_ArrayLen field = 0 \<and> (width \<le> 0 \<or> len mod width \<noteq> 0) then bad ErrInvalid
      else
        let count = (if ff_ArrayLen field = 0 then len div width else ff_ArrayLen field) in
        if count > maxArray then bad ErrLimit
        else if width \<le> 0 \<or> count > MaxInt h div width \<or> count * width \<noteq> len then bad ErrInvalid
        else
          bindR (arrayElements (field\<lparr>ff_ArrayLen := -1, ff_Size := width\<rparr>) raw order (nat count) 0 []) (\<lambda>(items, d).
          Inr (base (ValueArray items) TpEncodingArray (width32 len) (d = None), d)))"

definition decodeDirect ::
  "host \<Rightarrow> field_format \<Rightarrow> bytes \<Rightarrow> byte_order \<Rightarrow> int \<Rightarrow> decoded" where
  "decodeDirect h field raw order maxArray =
     (if ff_Kind field = FieldOpaque then
        Inr (TValue (ValueBinary raw) raw order TpEncodingBinary (ff_Declaration field)
               (width32 (int (length raw))) True [], None)
      else if ff_Kind field = FieldChar \<and> (ff_ArrayLen field \<ge> 0 \<or> ff_Location field \<noteq> LocationNone) then
        let text = (case indexNUL raw of Some nul \<Rightarrow> take nul raw | None \<Rightarrow> raw) in
        Inr (TValue (ValueText text) raw order TpEncodingUTF8 (ff_Declaration field) 8 True [], None)
      else if ff_ArrayLen field \<ge> 0 then decodeArray h field raw order maxArray
      else Inr (tracefs_decodeScalar field raw order))"

definition set_location :: "location_kind \<Rightarrow> string \<Rightarrow> tvalue \<Rightarrow> tvalue" where
  "set_location loc decl v =
     TValue (tv_Data v) (tv_Raw v) (tv_ByteOrder v)
       (if loc = LocationData then TpEncodingDataLoc else TpEncodingRelLoc)
       decl (tv_Width v) (tv_Valid v) (tv_Diagnostics v)"

text \<open>
  The offset and length a descriptor names, or the error of the check that refuses it. The code
  tests the range again after the two descriptor sizes have been read; \<open>decodeLocation\<close> does that.
\<close>

definition locate ::
  "host \<Rightarrow> field_format \<Rightarrow> bytes \<Rightarrow> bytes \<Rightarrow> byte_order \<Rightarrow> (sentinel + (int \<times> int)) result" where
  "locate h field data descriptor order =
     (let relative = ff_Location field = LocationRelative;
          base = (\<lambda>offset. if relative then offset + ff_Offset field + ff_Size field else offset);
          overflows = (\<lambda>offset. relative \<and> offset > MaxInt h - ff_Offset field - ff_Size field)
      in
      if length descriptor = 2 then
        let offset = to_int h (uint (readUint descriptor order)) in
        if overflows offset then Inr (Inl ErrInvalid)
        else if base offset < 0 \<or> base offset > int (length data) then Inr (Inl ErrTruncated)
        else
          bindR (slice_fromI data (base offset)) (\<lambda>tail.
          case indexNUL tail of
            None \<Rightarrow> Inr (Inl ErrTruncated)
          | Some nul \<Rightarrow> Inr (Inr (base offset, int nul + 1)))
      else if length descriptor = 4 then
        let location = readUint descriptor order;
            offset = to_int h (uint (location AND 0xffff));
            len = to_int h (uint (drop_bit 16 location))
        in if overflows offset then Inr (Inl ErrInvalid) else Inr (Inr (base offset, len))
      else Inr (Inl ErrInvalid))"

definition decodeLocation ::
  "host \<Rightarrow> field_format \<Rightarrow> bytes \<Rightarrow> bytes \<Rightarrow> byte_order \<Rightarrow> int \<Rightarrow> decoded" where
  "decodeLocation h field data descriptor order maxArray =
     (let bad = (\<lambda>e. Inr (TValue ValueNull descriptor order TpEncodingNone (ff_Declaration field)
                            (width32 (ff_Size field)) False [], Some (fieldDiagnostic field e)))
      in bindR (locate h field data descriptor order) (\<lambda>loc.
         case loc of
           Inl e \<Rightarrow> bad e
         | Inr (offset, len) \<Rightarrow>
             if offset < 0 \<or> offset > int (length data) \<or> len < 0 \<or> len > int (length data) - offset
             then bad ErrTruncated
             else
               let dynamicField = field\<lparr>ff_Offset := offset, ff_Size := len, ff_Location := LocationNone\<rparr> in
               bindR (sliceI data offset (offset + len)) (\<lambda>piece.
               bindR (decodeDirect h dynamicField piece order maxArray) (\<lambda>(v, d).
               Inr (set_location (ff_Location field) (ff_Declaration field) v, d)))))"

definition fieldBytes :: "field_format \<Rightarrow> bytes \<Rightarrow> bytes result" where
  "fieldBytes field data =
     (if ff_Offset field < 0 \<or> ff_Offset field > int (length data) then fail ErrTruncated
      else
        let n = (if ff_Size field = 0 then int (length data) - ff_Offset field else ff_Size field) in
        if n < 0 \<or> n > int (length data) - ff_Offset field then fail ErrTruncated
        else sliceI data (ff_Offset field) (ff_Offset field + n))"

definition decodeField ::
  "host \<Rightarrow> field_format \<Rightarrow> bytes \<Rightarrow> byte_order \<Rightarrow> int \<Rightarrow> decoded" where
  "decodeField h field data order maxArray =
     (case fieldBytes field data of
        Inl Fault \<Rightarrow> Inl Fault
      | Inl (Fail e) \<Rightarrow>
          Inr (TValue ValueNull [] order TpEncodingNone (ff_Declaration field) (width32 (ff_Width field)) False [],
               Some (fieldDiagnostic field ErrTruncated))
      | Inr raw \<Rightarrow>
          if ff_Location field \<noteq> LocationNone then decodeLocation h field data raw order maxArray
          else decodeDirect h field raw order maxArray)"


section \<open>All fields\<close>

record decode_options =
  do_ByteOrder :: byte_order
  do_LongSize :: int
  do_Timestamp :: timestamp
  do_CPU :: "u32 option"
  do_PID :: "u32 option"
  do_TID :: "u32 option"
  do_MaxArrayElements :: int

definition with_diagnostic :: "tvalue \<Rightarrow> diagnostic \<Rightarrow> tvalue" where
  "with_diagnostic v d =
     TValue (tv_Data v) (tv_Raw v) (tv_ByteOrder v) (tv_Encoding v) (tv_Format v) (tv_Width v) (tv_Valid v) [d]"

fun tracefs_decodeFields ::
  "host \<Rightarrow> field_format list \<Rightarrow> bytes \<Rightarrow> byte_order \<Rightarrow> int \<Rightarrow> diagnostic list \<Rightarrow>
   (tfield list \<times> diagnostic list) result" where
  "tracefs_decodeFields h [] data order maxArray diags = Inr ([], diags)"
| "tracefs_decodeFields h (f # fs) data order maxArray diags =
     bindR (decodeField h f data order maxArray) (\<lambda>(v, d).
     let (field, diags) =
       (case d of
          None \<Rightarrow> (TField (ff_Name f) v (ff_Offset f) [], diags)
        | Some d \<Rightarrow> (TField (ff_Name f) (with_diagnostic v d) (ff_Offset f) [d], diags @ [d]))
     in bindR (tracefs_decodeFields h fs data order maxArray diags) (\<lambda>(rest, diags). Inr (field # rest, diags)))"

definition tracefs_Decode :: "host \<Rightarrow> format option \<Rightarrow> bytes \<Rightarrow> decode_options \<Rightarrow> trecord result" where
  "tracefs_Decode h fmt data options =
     (case fmt of
        None \<Rightarrow> Inl (Fail (DecodeError 0 ''metadata'' (Err ErrInvalid)))
      | Some format \<Rightarrow>
          let bad = Inl (Fail (DecodeError 0 ''options'' (Err ErrInvalid)));
              maxArray = (if do_MaxArrayElements options = 0 then 4096 else do_MaxArrayElements options);
              order = do_ByteOrder options
          in
          if order \<noteq> ByteOrderLittle \<and> order \<noteq> ByteOrderBig then bad
          else if do_LongSize options \<noteq> 4 \<and> do_LongSize options \<noteq> 8 then bad
          else if fm_LongSize format \<noteq> do_LongSize options then bad
          else if maxArray < 0 then bad
          else
            bindR (tracefs_decodeFields h (fm_Common format) data order maxArray []) (\<lambda>(common, diags).
            bindR (tracefs_decodeFields h (fm_Fields format) data order maxArray diags) (\<lambda>(fields, diags).
            Inr \<lparr>tr_Body = RecordEvent \<lparr>er_Common = common, er_Fields = fields, er_EventHeader = None\<rparr>,
                 tr_Identity = \<lparr>id_System = fm_System format, id_Name = fm_Name format, id_ID = fm_ID format\<rparr>,
                 tr_Timestamp = do_Timestamp options, tr_CPU = do_CPU options,
                 tr_PID = do_PID options, tr_TID = do_TID options,
                 tr_Raw = data, tr_Diagnostics = diags\<rparr>)))"


section \<open>Every field yields a value\<close>

text \<open>
  The functions of a single field return a value, with a diagnostic where the field is bad: there is
  neither a panic nor an error. The rules decide this along the structure of the definitions.
\<close>

definition delivers :: "'e + 'a \<Rightarrow> bool" where
  "delivers r \<longleftrightarrow> \<not> isl r"

lemma delivers_Inr [simp]: "delivers (Inr x)"
  by (simp add: delivers_def)

lemma delivers_bindR: "delivers m \<Longrightarrow> (\<And>x. m = Inr x \<Longrightarrow> delivers (f x)) \<Longrightarrow> delivers (bindR m f)"
  by (cases m) (auto simp: delivers_def)

lemma delivers_if: "(c \<Longrightarrow> delivers a) \<Longrightarrow> (\<not> c \<Longrightarrow> delivers b) \<Longrightarrow> delivers (if c then a else b)"
  by simp

lemma delivers_sliceI: "0 \<le> i \<Longrightarrow> i \<le> j \<Longrightarrow> j \<le> int (length xs) \<Longrightarrow> delivers (sliceI xs i j)"
  by (simp add: sliceI_in)

lemma delivers_slice_fromI: "0 \<le> i \<Longrightarrow> i \<le> int (length xs) \<Longrightarrow> delivers (slice_fromI xs i)"
  by (simp add: slice_fromI_in)

lemma delivers_case_prod: "(\<And>a b. p = (a, b) \<Longrightarrow> delivers (f a b)) \<Longrightarrow> delivers (case_prod f p)"
  by (cases p) simp

lemma delivers_case_option:
  "(x = None \<Longrightarrow> delivers a) \<Longrightarrow> (\<And>y. x = Some y \<Longrightarrow> delivers (f y)) \<Longrightarrow> delivers (case_option a f x)"
  by (cases x) simp_all

lemma delivers_case_sum:
  "(\<And>y. x = Inl y \<Longrightarrow> delivers (f y)) \<Longrightarrow> (\<And>y. x = Inr y \<Longrightarrow> delivers (g y)) \<Longrightarrow> delivers (case_sum f g x)"
  by (cases x) simp_all

lemmas delivers_rules =
  delivers_if delivers_Inr delivers_bindR delivers_sliceI delivers_slice_fromI delivers_case_prod
  delivers_case_option delivers_case_sum

lemma delivers_arrayElements:
  "0 < ff_Width f \<Longrightarrow> int (i + n) * ff_Width f \<le> int (length raw) \<Longrightarrow> delivers (arrayElements f raw order n i acc)"
proof (induction n arbitrary: i acc)
  case (Suc n)
  have "(int i + 1) * ff_Width f \<le> int (i + Suc n) * ff_Width f"
    using Suc.prems by (intro mult_right_mono) auto
  then have "(int i + 1) * ff_Width f \<le> int (length raw)"
    using Suc.prems by linarith
  moreover have "int i * ff_Width f \<le> (int i + 1) * ff_Width f" "0 \<le> int i * ff_Width f"
    using Suc.prems by (simp_all add: distrib_right)
  ultimately show ?case
    unfolding arrayElements.simps
    using Suc.prems by (intro delivers_rules Suc.IH) auto
qed simp

lemma delivers_decodeArray: "delivers (decodeArray h f raw order m)"
  unfolding decodeArray_def Let_def
  by (intro delivers_rules delivers_arrayElements) (auto simp: not_le)

lemma delivers_decodeDirect: "delivers (decodeDirect h f raw order m)"
  by (auto simp: decodeDirect_def Let_def delivers_decodeArray)

lemma delivers_locate: "delivers (locate h f data descriptor order)"
  unfolding locate_def Let_def by (intro delivers_rules) auto

lemma delivers_decodeLocation: "delivers (decodeLocation h f data descriptor order m)"
  unfolding decodeLocation_def Let_def
  by (intro delivers_rules delivers_locate delivers_decodeDirect) auto

lemma fieldBytes_cases:
  obtains "fieldBytes f data = fail ErrTruncated"
  | raw where "fieldBytes f data = Inr raw" "0 \<le> ff_Offset f" "ff_Offset f \<le> int (length data)"
      "raw = (if ff_Size f = 0 then drop (nat (ff_Offset f)) data
              else take (nat (ff_Size f)) (drop (nat (ff_Offset f)) data))"
proof (cases "ff_Offset f < 0 \<or> ff_Offset f > int (length data)")
  case True
  then show ?thesis by (intro that(1)) (simp add: fieldBytes_def)
next
  case False
  then show ?thesis
    using that
    by (cases "ff_Size f < 0 \<or> ff_Size f > int (length data) - ff_Offset f")
       (auto simp: fieldBytes_def Let_def sliceI_in not_less nat_diff_distrib)
qed

lemma delivers_decodeField: "delivers (decodeField h f data order m)"
  by (cases rule: fieldBytes_cases [of f data])
     (auto simp: decodeField_def delivers_decodeDirect delivers_decodeLocation)


section \<open>Every field on its own\<close>

text \<open>The field the record gets for a format, as a function of that format alone.\<close>

definition decoded_field :: "host \<Rightarrow> bytes \<Rightarrow> byte_order \<Rightarrow> int \<Rightarrow> field_format \<Rightarrow> tfield" where
  "decoded_field h data order m f =
     (case projr (decodeField h f data order m) of
        (v, None) \<Rightarrow> TField (ff_Name f) v (ff_Offset f) []
      | (v, Some d) \<Rightarrow> TField (ff_Name f) (with_diagnostic v d) (ff_Offset f) [d])"

definition valid_options :: "format \<Rightarrow> decode_options \<Rightarrow> bool" where
  "valid_options fmt opts \<longleftrightarrow>
     do_ByteOrder opts \<noteq> ByteOrderUnknown \<and> (do_LongSize opts = 4 \<or> do_LongSize opts = 8) \<and>
     fm_LongSize fmt = do_LongSize opts \<and> 0 \<le> do_MaxArrayElements opts"

definition max_elements :: "decode_options \<Rightarrow> int" where
  "max_elements opts = (if do_MaxArrayElements opts = 0 then 4096 else do_MaxArrayElements opts)"

lemma tracefs_decodeFields_eq:
  "tracefs_decodeFields h fs data order m diags =
     Inr (map (decoded_field h data order m) fs,
          diags @ concat (map (tf_Diagnostics \<circ> decoded_field h data order m) fs))"
proof (induction fs arbitrary: diags)
  case (Cons f fs)
  obtain v d where "decodeField h f data order m = Inr (v, d)"
    using delivers_decodeField [of h f data order m] 
    by (cases "decodeField h f data order m") (auto simp: delivers_def)
  then show ?case
    by (cases d) (simp_all add: Cons.IH decoded_field_def)
qed simp

lemma safe_tracefs_Decode: "safe (tracefs_Decode h fmt data opts)"
  by (auto simp: tracefs_Decode_def Let_def tracefs_decodeFields_eq split: option.split)

text \<open>
  C34. The decoder of ordinary tracefs payloads does not panic and returns an error only for an
  invalid configuration (byte order, long size, array limit), whatever the payload and the format.
  Otherwise every field of the format is in the record, in order, and what it holds is a function of
  its own declaration and the payload: a malformed field does not disturb the others. The
  diagnostics of the record are those of its fields, in order.
\<close>

theorem tracefs_Decode_outcome:
  "case tracefs_Decode h (Some fmt) data opts of
     Inl Fault \<Rightarrow> False
   | Inl (Fail e) \<Rightarrow> \<not> valid_options fmt opts \<and> errors_is e ErrInvalid
   | Inr r \<Rightarrow> valid_options fmt opts \<and>
       (let field = decoded_field h data (do_ByteOrder opts) (max_elements opts) in
        tr_Body r = RecordEvent \<lparr>er_Common = map field (fm_Common fmt), er_Fields = map field (fm_Fields fmt),
                                 er_EventHeader = None\<rparr> \<and>
        tr_Diagnostics r = concat (map (tf_Diagnostics \<circ> field) (fm_Common fmt @ fm_Fields fmt)) \<and>
        tr_Raw r = data \<and> tr_Timestamp r = do_Timestamp opts)"
  by (cases "do_ByteOrder opts")
     (auto simp: tracefs_Decode_def Let_def valid_options_def max_elements_def tracefs_decodeFields_eq)


section \<open>Integers round trip\<close>

lemma drop_signed_push: "n \<le> m \<Longrightarrow> drop_bit n (signed_take_bit m (push_bit n (k::int))) = signed_take_bit (m - n) k"
  by (rule bit_eqI) (auto simp: bit_simps min_def)

lemma u64_of_sint: "word_of_int (sint (w :: u64)) = w"
  by (simp add: scast_id)

lemma sint_signExtend:
  assumes w: "w \<in> {1, 2, 4, 8}"
  shows "sint (signExtend u w) = signed_take_bit (8 * w - 1) (uint u)"
proof -
  have "sint (push_bit (64 - w * 8) u) = signed_take_bit 63 (push_bit (64 - w * 8) (uint u))"
    by (rule bit_eqI) (use w in \<open>auto simp: bit_simps sint_uint min_def\<close>)
  then show ?thesis
    using w by (auto simp: signExtend_def Let_def sint_signed_drop_bit_eq drop_signed_push)
qed

lemma signed_take_bit_mod:
  fixes x :: int
  assumes "- (2 ^ m) \<le> x" "x < 2 ^ m"
  shows "signed_take_bit m (x mod 2 ^ Suc m) = x"
proof -
  have "signed_take_bit m (take_bit (Suc m) x) = signed_take_bit m x"
    by (simp add: signed_take_bit_take_bit)
  also have "\<dots> = x" using assms by (simp add: signed_take_bit_int_eq_self)
  finally show ?thesis by (simp add: take_bit_eq_mod)
qed

definition int_bytes :: "byte_order \<Rightarrow> nat \<Rightarrow> int \<Rightarrow> bytes" where
  "int_bytes order w x = order_put (endian_of order) w (nat (x mod 256 ^ w))"

definition int_range :: "field_kind \<Rightarrow> nat \<Rightarrow> int set" where
  "int_range k w =
     (if k = FieldSigned then {- (2 ^ (8 * w - 1))..<2 ^ (8 * w - 1)} else {0..<2 ^ (8 * w)})"

definition int_datum :: "field_kind \<Rightarrow> int \<Rightarrow> tdata" where
  "int_datum k x = (if k = FieldSigned then ValueSigned (word_of_int x) else ValueUnsigned (word_of_int x))"

lemma length_int_bytes [simp]: "length (int_bytes order w x) = w"
  by (simp add: int_bytes_def)

lemma readUint_int_bytes:
  assumes "w \<in> {1, 2, 4, 8}"
  shows "uint (readUint (int_bytes order w x) order) = x mod 2 ^ (8 * w)"
proof -
  have b: "nat (x mod 256 ^ w) < 256 ^ w"
    by (simp add: nat_less_iff)
  have p: "(256 :: int) ^ w = 2 ^ (8 * w)" by (simp add: power_mult)
  have "x mod 2 ^ (8 * w) < 2 ^ (8 * w)" "(2::int) ^ (8 * w) \<le> 2 ^ 64" "0 \<le> x mod 2 ^ (8 * w)"
    using assms by auto
  then have w64: "take_bit 64 (x mod 2 ^ (8 * w)) = x mod 2 ^ (8 * w)"
    by (intro take_bit_int_eq_self) linarith+
  show ?thesis
  proof (cases "w = 1")
    case True
    have "int_bytes order 1 x = [of_nat (nat (x mod 256) mod 256)]"
      by (cases "endian_of order") (simp_all add: int_bytes_def order_put_def be_put_def)
    then show ?thesis
      using True mod_pos_pos_trivial [of "x mod 256" "2 ^ 64"] pos_mod_bound [of 256 x]
      by (simp add: readUint_def unsigned_ucast_eq unsigned_of_int take_bit_eq_mod nat_mod_distrib)
  next
    case False
    then have "readUint (int_bytes order w x) order = of_nat (nat (x mod 256 ^ w))"
      using assms order.get_put [OF b, of "endian_of order"]
      unfolding readUint_def length_int_bytes int_bytes_def by auto
    then show ?thesis
      using w64 p by (simp add: uint_word_of_int_eq)
  qed
qed

lemma decodeScalar_int:
  assumes "w \<in> {1, 2, 4, 8}" "ff_Width f = int w" "scalarKind f = k" "k = FieldSigned \<or> k = FieldUnsigned"
    and x: "x \<in> int_range k w"
  shows "\<exists>v. tracefs_decodeScalar f (int_bytes order w x) order = (v, None) \<and> tv_Data v = int_datum k x"
proof -
  have r: "uint (readUint (int_bytes order w x) order) = x mod 2 ^ (8 * w)"
    using assms(1) by (rule readUint_int_bytes)
  have "int_datum k x =
     (if k = FieldSigned then ValueSigned (signExtend (readUint (int_bytes order w x) order) w)
      else ValueUnsigned (readUint (int_bytes order w x) order))"
  proof (cases "k = FieldSigned")
    case True
    have "Suc (8 * w - 1) = 8 * w" using assms(1) by auto
    then have "sint (signExtend (readUint (int_bytes order w x) order) w) = x"
      using x True signed_take_bit_mod [of "8 * w - 1" x]
      by (simp add: sint_signExtend [OF assms(1)] r int_range_def)
    then have "signExtend (readUint (int_bytes order w x) order) w = word_of_int x"
      using u64_of_sint by metis
    with True show ?thesis by (simp add: int_datum_def)
  next
    case False
    then have "uint (readUint (int_bytes order w x) order) = x"
      using x r by (simp add: int_range_def)
    then have "readUint (int_bytes order w x) order = word_of_int x"
      using word_of_int_uint [of "readUint (int_bytes order w x) order"] by simp
    with False show ?thesis by (simp add: int_datum_def)
  qed
  then show ?thesis
    using assms by (auto simp: tracefs_decodeScalar_def Let_def)
qed

lemma take_drop_concat:
  assumes "\<And>x. x \<in> set xs \<Longrightarrow> length (g x) = w" "i < length xs"
  shows "take w (drop (i * w) (concat (map g xs))) = g (xs ! i)"
  using assms
proof (induction xs arbitrary: i)
  case (Cons a xs)
  then show ?case by (cases i) auto
qed simp

lemma arrayElements_int:
  assumes f: "w \<in> {1, 2, 4, 8}" "ff_Width f = int w" "scalarKind f = k" "k = FieldSigned \<or> k = FieldUnsigned"
    and xs: "set xs \<subseteq> int_range k w"
  shows "i + n = length xs \<Longrightarrow>
    \<exists>vs. arrayElements f (concat (map (int_bytes order w) xs)) order n i acc = Inr (acc @ vs, None)
       \<and> map tv_Data vs = map (int_datum k) (drop i xs)"
proof (induction n arbitrary: i acc)
  case (Suc n)
  let ?raw = "concat (map (int_bytes order w) xs)"
  have l: "length ?raw = length xs * w" by (intro length_concat_const) simp
  have i: "i < length xs" using Suc.prems by simp
  have w_eq: "(int i + 1) * int w - int i * int w = int w" by (simp add: ring_distribs)
  have "Suc i * w \<le> length xs * w" using i by (intro mult_le_mono1) simp
  then have "sliceI ?raw (int i * int w) ((int i + 1) * int w) =
      Inr (take w (drop (i * w) ?raw))"
    using w_eq by (subst sliceI_in) (simp_all add: l w_eq nat_mult_distrib flip: of_nat_mult of_nat_Suc)
  then have piece: "sliceI ?raw (int i * int w) ((int i + 1) * int w) = Inr (int_bytes order w (xs ! i))"
    using take_drop_concat [of xs "int_bytes order w" w i] i by simp
  obtain v where v: "tracefs_decodeScalar f (int_bytes order w (xs ! i)) order = (v, None)"
      "tv_Data v = int_datum k (xs ! i)"
    using decodeScalar_int [OF f, of "xs ! i" order] subsetD [OF xs nth_mem [OF i]] by blast
  obtain vs where "arrayElements f ?raw order n (Suc i) (acc @ [v]) = Inr ((acc @ [v]) @ vs, None)"
      "map tv_Data vs = map (int_datum k) (drop (Suc i) xs)"
    using Suc.IH [of "Suc i" "acc @ [v]"] Suc.prems by auto
  then show ?case
    using v piece i f(2) by (intro exI [of _ "v # vs"]) (simp add: Cons_nth_drop_Suc [symmetric])
qed simp


lemma fieldBytes_in:
  assumes "ff_Offset f = int (length pre)" "ff_Size f = int (length raw)" "raw \<noteq> []"
  shows "fieldBytes f (pre @ raw @ post) = Inr raw"
  using assms by (simp add: fieldBytes_def Let_def sliceI_in)

text \<open>
  Arrays of integers are read back exactly: when a payload holds the elements of an array of 1, 2,
  4 or 8 byte integers in the byte order of the trace, in two's complement where the field is signed,
  the decoded value is the array of these very integers, for arrays with a declared length and for
  flexible arrays, whatever precedes and follows them in the payload.
\<close>

theorem integer_array_roundtrip:
  assumes w: "w \<in> {1, 2, 4, 8}" and k: "k = FieldSigned \<or> k = FieldUnsigned"
    and f: "ff_Kind f = k" "ff_SignedSet f \<Longrightarrow> ff_Signed f = (k = FieldSigned)" "ff_Width f = int w"
      "ff_Location f = LocationNone" "ff_Offset f = int (length pre)" "ff_Size f = int (length xs * w)"
      "ff_ArrayLen f = 0 \<or> ff_ArrayLen f = int (length xs)"
    and xs: "set xs \<subseteq> int_range k w" "xs \<noteq> []" "int (length xs) \<le> m" "int (length xs * w) \<le> MaxInt h"
  shows "\<exists>v vs. decodeField h f (pre @ concat (map (int_bytes order w) xs) @ post) order m = Inr (v, None)
    \<and> tv_Data v = ValueArray vs \<and> map tv_Data vs = map (int_datum k) xs"
proof -
  let ?raw = "concat (map (int_bytes order w) xs)"
  let ?e = "f\<lparr>ff_ArrayLen := -1, ff_Size := ff_Width f\<rparr>"
  have l: "length ?raw = length xs * w" by (intro length_concat_const) simp
  have w0: "0 < w" using w by auto
  have raw: "?raw \<noteq> []" using l xs(2) w0 by (metis length_0_conv mult_is_0 not_gr_zero)
  have sk: "scalarKind ?e = k" using f(1,2) k by (auto simp: scalarKind_def)
  obtain vs where vs: "arrayElements ?e ?raw order (length xs) 0 [] = Inr (vs, None)"
      "map tv_Data vs = map (int_datum k) xs"
    using arrayElements_int [of w ?e k xs 0 "length xs" order "[]"] w k f(3) sk xs(1) by auto
  have "int (length xs) \<le> MaxInt h div int w"
    using xs(4) zdiv_mono1 [of "int (length xs * w)" "MaxInt h" "int w"] w0 by simp
  then show ?thesis
    using vs f k w0 xs raw
    by (auto simp: decodeField_def fieldBytes_in l decodeDirect_def decodeArray_def Let_def)
qed


section \<open>Dynamic strings\<close>

lemma indexNUL_text: "0 \<notin> set text \<Longrightarrow> indexNUL (text @ 0 # rest) = Some (length text)"
  by (simp add: indexNUL_def byteIndex_append)

lemma readUint4: "v < 2 ^ 32 \<Longrightarrow> readUint (order_put (endian_of order) 4 v) order = of_nat v"
  using order.get_put [of v 4 "endian_of order"] by (simp add: readUint_def)

lemma descriptor_parts:
  fixes off len :: nat
  assumes "off < 2 ^ 16" "len < 2 ^ 16"
  shows "uint ((of_nat (len * 2 ^ 16 + off) :: u64) AND 0xffff) = int off"
    "uint (drop_bit 16 (of_nat (len * 2 ^ 16 + off) :: u64)) = int len"
proof -
  have b: "len * 2 ^ 16 + off < 2 ^ 32"
    using assms by simp
  then have u: "uint (of_nat (len * 2 ^ 16 + off) :: u64) = int (len * 2 ^ 16 + off)"
    by (subst unsigned_of_nat) (simp add: take_bit_eq_mod)
  have m: "(0xffff :: u64) = mask 16" by (simp add: mask_eq_exp_minus_1)
  show "uint ((of_nat (len * 2 ^ 16 + off) :: u64) AND 0xffff) = int off"
    unfolding m take_bit_eq_mask [symmetric] unsigned_take_bit_eq u
    using assms by (simp add: take_bit_eq_mod)
  show "uint (drop_bit 16 (of_nat (len * 2 ^ 16 + off) :: u64)) = int len"
    unfolding unsigned_drop_bit_eq u
    using assms by (simp add: drop_bit_eq_div take_bit_int_eq_self)
qed

text \<open>
  C35. A dynamic string is found through its descriptor: for a \<open>char[]\<close> field whose 4-byte descriptor
  holds the offset and the length of a NUL-terminated text, counted from the start of the payload for
  \<open>__data_loc\<close> and from the end of the descriptor for \<open>__rel_loc\<close>, the value is exactly that text.
\<close>

theorem dynamic_string_roundtrip:
  assumes f: "ff_Kind f = FieldChar" "ff_ArrayLen f \<ge> 0" "ff_Size f = 4" "ff_Offset f = int (length pre)"
      "ff_Location f = LocationData \<and> start = length pre + 4 + length mid \<or>
       ff_Location f = LocationRelative \<and> start = length mid"
    and chars: "0 \<notin> set text" "start < 2 ^ 16" "length text + 1 < 2 ^ 16"
    and host: "int (length pre) + 4 + 2 ^ 16 \<le> MaxInt h"
  shows "\<exists>v. decodeField h f
      (pre @ order_put (endian_of order) 4 ((length text + 1) * 2 ^ 16 + start) @ mid @ text @ 0 # post) order m
      = Inr (v, None) \<and> tv_Data v = ValueText text \<and> tv_Valid v"
proof -
  let ?d = "order_put (endian_of order) 4 ((length text + 1) * 2 ^ 16 + start)"
  let ?data = "pre @ ?d @ mid @ text @ 0 # post"
  have b: "(length text + 1) * 2 ^ 16 + start < 2 ^ 32" using chars(2,3) by simp
  have d: "fieldBytes f ?data = Inr ?d"
    using f by (intro fieldBytes_in) (auto simp: length_0_conv [symmetric] simp del: length_0_conv)
  have len: "int (length text + 1) \<le> MaxInt h" "int start \<le> MaxInt h"
    using chars MaxInt_ge [of h] by simp_all
  have off: "\<not> int start > MaxInt h - ff_Offset f - ff_Size f"
    using host f(3,4) chars(2) by simp
  let ?o = "length pre + 4 + length mid"
  have loc: "locate h f ?data ?d order = Inr (Inr (int ?o, int (length text + 1)))"
    using f(3-5) len off descriptor_parts [OF chars(2,3)] unfolding locate_def Let_def readUint4 [OF b]
    by (auto simp: MaxInt_def)
  have piece: "sliceI ?data (int ?o) (int ?o + int (length text + 1)) = Inr (text @ [0])"
    by (subst sliceI_in) (simp_all add: nat_add_distrib)
  from f(5) have "ff_Location f \<noteq> LocationNone" by auto
  then show ?thesis
    using d loc piece f(1,2,5) chars(1)
    by (auto simp: decodeField_def decodeLocation_def Let_def decodeDirect_def indexNUL_text set_location_def)
qed


section \<open>Dynamic characters without brackets\<close>

text \<open>
  C36. \<open>decodeDirect\<close> means to return text for a \<open>char\<close> field that is dynamic although it has no
  brackets (its test \<open>field.Location != LocationNone\<close>), but \<open>decodeLocation\<close> clears the location
  before it calls it. So a \<open>__data_loc char name\<close> field of any length other than 1 is reported as
  undecodable.
\<close>

theorem dynamic_char_not_text:
  assumes f: "ff_Kind f = FieldChar" "ff_ArrayLen f = -1" "ff_Width f = 1"
    and loc: "locate h f data descriptor order = Inr (Inr (offset, len))" "len \<noteq> 1"
  shows "\<exists>v d. decodeLocation h f data descriptor order m = Inr (v, Some d) \<and> tv_Data v = ValueNull \<and> \<not> tv_Valid v"
proof (cases "offset < 0 \<or> offset > int (length data) \<or> len < 0 \<or> len > int (length data) - offset")
  case True
  then show ?thesis by (simp add: decodeLocation_def loc)
next
  case False
  then have "sliceI data offset (offset + len) = Inr (take (nat len) (drop (nat offset) data))"
    by (subst sliceI_in) auto
  moreover have "int (length (take (nat len) (drop (nat offset) data))) = len"
    using False by auto
  ultimately show ?thesis
    using False f loc(2)
    by (simp add: decodeLocation_def loc(1) Let_def decodeDirect_def tracefs_decodeScalar_def set_location_def)
qed


section \<open>Examples\<close>

definition demo_field :: field_format where
  "demo_field =
     \<lparr>ff_Declaration = ''s16 v[]'', ff_Name = ''v'', ff_Kind = FieldSigned, ff_Offset = 1, ff_Size = 4,
      ff_Signed = True, ff_SignedSet = True, ff_Width = 2, ff_ArrayLen = 0, ff_Pointer = False,
      ff_Location = LocationNone, ff_Properties = [], ff_Line = 1, ff_Column = 1,
      ff_declarationClass = declarationArray\<rparr>"

definition demo_dynamic :: field_format where
  "demo_dynamic = demo_field\<lparr>ff_Declaration := ''__rel_loc char[] v'', ff_Kind := FieldChar, ff_Width := 1,
     ff_Location := LocationRelative\<rparr>"

theorem integer_array_roundtrip_witness:
  "\<exists>v vs. decodeField \<lparr>native = LittleEndian, int64 = True, letter_rune = \<lambda>_. False, digit_rune = \<lambda>_. False\<rparr> demo_field
     ([9] @ concat (map (int_bytes ByteOrderBig 2) [-1, 300]) @ []) ByteOrderBig 5 = Inr (v, None)
     \<and> tv_Data v = ValueArray vs \<and> map tv_Data vs = [ValueSigned (-1), ValueSigned 300]"
  using integer_array_roundtrip [of 2 FieldSigned demo_field "[9]" "[-1, 300]" 5 "\<lparr>native = LittleEndian, int64 = True, letter_rune = \<lambda>_. False, digit_rune = \<lambda>_. False\<rparr>"
      ByteOrderBig "[]"]
  by (simp add: demo_field_def int_range_def int_datum_def MaxInt_def)

theorem dynamic_string_roundtrip_witness:
  "\<exists>v. decodeField \<lparr>native = BigEndian, int64 = False, letter_rune = \<lambda>_. False, digit_rune = \<lambda>_. False\<rparr> demo_dynamic
     ([9] @ order_put LittleEndian 4 (3 * 2 ^ 16 + 1) @ [8] @ [104, 105] @ 0 # []) ByteOrderLittle 5 = Inr (v, None)
     \<and> tv_Data v = ValueText [104, 105] \<and> tv_Valid v"
  using dynamic_string_roundtrip [of demo_dynamic "[9]" 1 "[8]" "[104, 105]" "\<lparr>native = BigEndian, int64 = False, letter_rune = \<lambda>_. False, digit_rune = \<lambda>_. False\<rparr>"
      ByteOrderLittle "[]" 5]
  by (simp add: demo_field_def demo_dynamic_def MaxInt_def endian_of_def)

theorem dynamic_char_not_text_witness:
  "\<exists>v d. decodeLocation \<lparr>native = LittleEndian, int64 = True, letter_rune = \<lambda>_. False, digit_rune = \<lambda>_. False\<rparr>
     (demo_dynamic\<lparr>ff_ArrayLen := -1, ff_Location := LocationData\<rparr>) [104, 105, 0] [0, 0, 3, 0] ByteOrderLittle 5
     = Inr (v, Some d) \<and> tv_Data v = ValueNull \<and> \<not> tv_Valid v"
proof -
  let ?h = "\<lparr>native = LittleEndian, int64 = True, letter_rune = \<lambda>_. False, digit_rune = \<lambda>_. False\<rparr>"
  let ?f = "demo_dynamic\<lparr>ff_ArrayLen := -1, ff_Location := LocationData\<rparr>"
  have "locate ?h ?f [104, 105, 0] [0, 0, 3, 0] ByteOrderLittle = Inr (Inr (0, 3))"
    by (simp add: locate_def demo_dynamic_def demo_field_def readUint_def endian_of_def order_get_def
        Let_def to_int_def MaxInt_def)
  then show ?thesis
    by (rule dynamic_char_not_text [rotated 3]) (simp_all add: demo_dynamic_def demo_field_def)
qed

end
