(* ===== verification/PerfTypes.thy ===== *)
theory PerfTypes imports TracefsDecode "HOL-Library.AList" begin

text \<open>
  Package \<open>perfdata\<close>, \<open>types.go\<close>: the limits, the attributes, the details of a record and the reader
  with everything it knows about its input. Event descriptors are shared by pointer in the code; here
  the reader owns them in the list \<open>rd_attrs\<close>, which only grows, and a pointer is a position in it.
  Go maps are association lists with distinct keys, so that \<open>len\<close> is their length.
\<close>


section \<open>Constants\<close>

abbreviation (input) FeatureTracingData :: u16 where "FeatureTracingData \<equiv> 1"
abbreviation (input) FeatureEventDesc :: u16 where "FeatureEventDesc \<equiv> 12"
abbreviation (input) FeatureClockID :: u16 where "FeatureClockID \<equiv> 23"
abbreviation (input) FeatureCompressed :: u16 where "FeatureCompressed \<equiv> 27"
abbreviation (input) FeatureClockData :: u16 where "FeatureClockData \<equiv> 29"

abbreviation (input) PerfMmap :: u32 where "PerfMmap \<equiv> 1"
abbreviation (input) PerfLost :: u32 where "PerfLost \<equiv> 2"
abbreviation (input) PerfComm :: u32 where "PerfComm \<equiv> 3"
abbreviation (input) PerfExit :: u32 where "PerfExit \<equiv> 4"
abbreviation (input) PerfThrottle :: u32 where "PerfThrottle \<equiv> 5"
abbreviation (input) PerfUnthrottle :: u32 where "PerfUnthrottle \<equiv> 6"
abbreviation (input) PerfFork :: u32 where "PerfFork \<equiv> 7"
abbreviation (input) PerfSample :: u32 where "PerfSample \<equiv> 9"
abbreviation (input) PerfMmap2 :: u32 where "PerfMmap2 \<equiv> 10"
abbreviation (input) PerfLostSamples :: u32 where "PerfLostSamples \<equiv> 13"
abbreviation (input) PerfSwitch :: u32 where "PerfSwitch \<equiv> 14"
abbreviation (input) PerfSwitchCPUWide :: u32 where "PerfSwitchCPUWide \<equiv> 15"

abbreviation (input) SampleIP :: u64 where "SampleIP \<equiv> 0x1"
abbreviation (input) SampleTID :: u64 where "SampleTID \<equiv> 0x2"
abbreviation (input) SampleTime :: u64 where "SampleTime \<equiv> 0x4"
abbreviation (input) SampleAddr :: u64 where "SampleAddr \<equiv> 0x8"
abbreviation (input) SampleRead :: u64 where "SampleRead \<equiv> 0x10"
abbreviation (input) SampleCallchain :: u64 where "SampleCallchain \<equiv> 0x20"
abbreviation (input) SampleID :: u64 where "SampleID \<equiv> 0x40"
abbreviation (input) SampleCPU :: u64 where "SampleCPU \<equiv> 0x80"
abbreviation (input) SamplePeriod :: u64 where "SamplePeriod \<equiv> 0x100"
abbreviation (input) SampleStreamID :: u64 where "SampleStreamID \<equiv> 0x200"
abbreviation (input) SampleRaw :: u64 where "SampleRaw \<equiv> 0x400"
abbreviation (input) SampleIdentifier :: u64 where "SampleIdentifier \<equiv> 0x10000"

text \<open>\<open>bits & flag != 0\<close>.\<close>

definition has :: "u64 \<Rightarrow> u64 \<Rightarrow> bool" where
  "has bits flag \<longleftrightarrow> bits AND flag \<noteq> 0"


section \<open>Limits and options\<close>

record perf_limits =
  lm_MaxFeatureBytes :: int
  lm_MaxMetadataBytes :: int
  lm_MaxAttrs :: int
  lm_MaxIDs :: int
  lm_MaxRecordBytes :: int
  lm_MaxReadValues :: int
  lm_MaxCallchain :: int
  lm_MaxFormatBytes :: int
  lm_MaxFormatFields :: int
  lm_MaxArrayElements :: int
  lm_MaxPostRecordBytes :: int

record perf_options =
  po_Limits :: perf_limits
  po_KeepMetadataRecords :: bool

definition perf_invalid :: "string \<Rightarrow> goerr" where
  "perf_invalid stage = PerfError 0 0 stage (Err ErrInvalid)"

definition limitError :: "string \<Rightarrow> goerr" where
  "limitError stage = PerfError 0 0 stage (Err ErrLimit)"

definition or_default :: "int \<Rightarrow> int \<Rightarrow> int" where
  "or_default n d = (if n = 0 then d else n)"

definition defaultLimits :: "perf_limits \<Rightarrow> perf_limits result" where
  "defaultLimits l =
     (let l = \<lparr>lm_MaxFeatureBytes = or_default (lm_MaxFeatureBytes l) (64 * 2 ^ 20),
               lm_MaxMetadataBytes = or_default (lm_MaxMetadataBytes l) (128 * 2 ^ 20),
               lm_MaxAttrs = or_default (lm_MaxAttrs l) 65536,
               lm_MaxIDs = or_default (lm_MaxIDs l) 1000000,
               lm_MaxRecordBytes = or_default (lm_MaxRecordBytes l) 65535,
               lm_MaxReadValues = or_default (lm_MaxReadValues l) 4096,
               lm_MaxCallchain = or_default (lm_MaxCallchain l) 4096,
               lm_MaxFormatBytes = or_default (lm_MaxFormatBytes l) (2 ^ 20),
               lm_MaxFormatFields = or_default (lm_MaxFormatFields l) 4096,
               lm_MaxArrayElements = or_default (lm_MaxArrayElements l) 4096,
               lm_MaxPostRecordBytes = or_default (lm_MaxPostRecordBytes l) (64 * 2 ^ 20)\<rparr>
      in
      if lm_MaxFeatureBytes l < 0 \<or> lm_MaxMetadataBytes l < 0 \<or> lm_MaxAttrs l < 0 \<or> lm_MaxIDs l < 0 \<or>
         lm_MaxRecordBytes l < 8 \<or> lm_MaxRecordBytes l > 65535 \<or> lm_MaxReadValues l < 0 \<or>
         lm_MaxCallchain l < 0 \<or> lm_MaxFormatBytes l < 0 \<or> lm_MaxFormatFields l < 0 \<or>
         lm_MaxArrayElements l < 0
      then Inl (Fail (perf_invalid ''options''))
      else if lm_MaxPostRecordBytes l < 0 then Inl (Fail (perf_invalid ''options''))
      else Inr l)"

text \<open>What the limits of a reader satisfy.\<close>

definition limits_ok :: "perf_limits \<Rightarrow> bool" where
  "limits_ok l \<longleftrightarrow>
     0 < lm_MaxFeatureBytes l \<and> 0 < lm_MaxMetadataBytes l \<and> 0 < lm_MaxAttrs l \<and> 0 < lm_MaxIDs l \<and>
     8 \<le> lm_MaxRecordBytes l \<and> lm_MaxRecordBytes l \<le> 65535 \<and> 0 < lm_MaxReadValues l \<and>
     0 < lm_MaxCallchain l \<and> 0 < lm_MaxFormatBytes l \<and> 0 < lm_MaxFormatFields l \<and>
     0 < lm_MaxArrayElements l \<and> 0 < lm_MaxPostRecordBytes l"

lemma or_default_pos: "0 < d \<Longrightarrow> \<not> or_default n d < 0 \<Longrightarrow> 0 < or_default n d"
  by (auto simp: or_default_def split: if_splits)

lemma defaultLimits_ok: "defaultLimits l = Inr m \<Longrightarrow> limits_ok m"
  by (auto simp: defaultLimits_def Let_def limits_ok_def not_less intro!: or_default_pos split: if_splits)

lemma safe_defaultLimits: "safe (defaultLimits l)"
  by (simp add: defaultLimits_def Let_def)


section \<open>Attributes and descriptors\<close>

record attr =
  at_Type :: u32
  at_Size :: u32
  at_Config :: u64
  at_SamplePeriod :: u64
  at_SampleType :: u64
  at_ReadFormat :: u64
  at_Options :: u64
  at_WakeupEvents :: u32
  at_BreakpointType :: u32
  at_Config1 :: u64
  at_Config2 :: u64
  at_BranchSampleType :: u64
  at_SampleIDAll :: bool
  at_UseClockID :: bool
  at_ClockID :: u32
  at_SampleRegsUser :: u64
  at_SampleStackUser :: u32
  at_SampleRegsIntr :: u64
  at_AuxWatermark :: u32
  at_SampleMaxStack :: u16
  at_AuxSampleSize :: u32
  at_SigData :: u64
  at_Config3 :: u64
  at_Raw :: bytes
  at_UnknownTail :: bytes

record event_desc =
  ed_attr :: attr
  ed_name :: string
  ed_ids :: "u64 list"
  ed_format :: "format option"

record tracing_data =
  td_Version :: string
  td_ByteOrder :: byte_order
  td_LongSize :: int
  td_PageSize :: u32
  td_HeaderPage :: bytes
  td_HeaderEvent :: bytes
  td_Ftrace :: "bytes list"
  td_Kallsyms :: bytes
  td_Printk :: bytes
  td_SavedCmdline :: bytes
  td_Raw :: bytes
  td_Trailing :: bytes

record clock_info =
  ci_ID :: u32
  ci_IDKnown :: bool
  ci_Clock :: clock
  ci_ResolutionNS :: u64
  ci_DataVersion :: u32
  ci_WallClockNS :: u64
  ci_ClockIDTimeNS :: u64
  ci_EpochOffset :: u64
  ci_EpochOffsetKnown :: bool


section \<open>Details of a record\<close>

record read_value =
  rv_Value :: u64
  rv_ID :: "u64 option"
  rv_Lost :: "u64 option"

record sample_details =
  sd_Identifier :: "u64 option"
  sd_IP :: "u64 option"
  sd_Address :: "u64 option"
  sd_ID :: "u64 option"
  sd_StreamID :: "u64 option"
  sd_Period :: "u64 option"
  sd_TimeEnabled :: "u64 option"
  sd_TimeRunning :: "u64 option"
  sd_Read :: "read_value list"
  sd_Callchain :: "u64 list"
  sd_Raw :: bytes
  sd_TrailingSampleData :: bytes
  sd_UnsupportedSampleBits :: u64

record task_details =
  tk_ParentPID :: u32
  tk_ParentTID :: u32

record mmap_details =
  mm_Address :: u64
  mm_Length :: u64
  mm_PageOffset :: u64
  mm_Filename :: string
  mm_Major :: u32
  mm_Minor :: u32
  mm_Inode :: u64
  mm_Generation :: u64
  mm_Protection :: u32
  mm_Flags :: u32
  mm_BuildID :: bytes

record switch_details =
  sw_Out :: bool
  sw_Preempt :: bool
  sw_NextPrevPID :: "u32 option"
  sw_NextPrevTID :: "u32 option"

record record_details =
  dt_Type :: u32
  dt_Misc :: u16
  dt_Size :: u16
  dt_ID :: "u64 option"
  dt_StreamID :: "u64 option"
  dt_Sample :: "sample_details option"
  dt_Comm :: "string option"
  dt_Task :: "task_details option"
  dt_Mmap :: "mmap_details option"
  dt_Switch :: "switch_details option"
  dt_PostDataSize :: u64

definition zero_details :: record_details where
  "zero_details = \<lparr>dt_Type = 0, dt_Misc = 0, dt_Size = 0, dt_ID = None, dt_StreamID = None, dt_Sample = None,
     dt_Comm = None, dt_Task = None, dt_Mmap = None, dt_Switch = None, dt_PostDataSize = 0\<rparr>"


section \<open>Input\<close>

text \<open>
  \<open>io.ReaderAt\<close> is a function of the offset and the number of bytes asked for; it gives the bytes it
  read and an error. An \<open>io.Reader\<close> is the bytes it still delivers and the error that follows them.
\<close>

type_synonym reader_at = "int \<Rightarrow> nat \<Rightarrow> bytes \<times> goerr option"
type_synonym stream = "bytes \<times> goerr"

definition ReadFull :: "nat \<Rightarrow> stream \<Rightarrow> (bytes \<times> goerr option) \<times> stream" where
  "ReadFull n s =
     (case s of (bs, e) \<Rightarrow>
        if n \<le> length bs then ((take n bs, None), (drop n bs, e))
        else ((bs, Some (if bs \<noteq> [] \<and> e = Err IoEOF then Err IoErrUnexpectedEOF else e)), ([], e)))"

definition classifyEOF :: "goerr \<Rightarrow> goerr" where
  "classifyEOF e = (if errors_is e IoEOF \<or> errors_is e IoErrUnexpectedEOF then Err ErrTruncated else e)"

definition readAtFull :: "reader_at \<Rightarrow> int \<Rightarrow> nat \<Rightarrow> bytes result" where
  "readAtFull at off n =
     (case at off n of
        (bs, err) \<Rightarrow>
          if length bs \<noteq> n
          then Inl (Fail (classifyEOF (case err of None \<Rightarrow> Err IoErrUnexpectedEOF | Some e \<Rightarrow> e)))
          else case err of None \<Rightarrow> Inr bs | Some e \<Rightarrow> Inl (Fail e))"

lemma safe_readAtFull [intro, simp]: "safe (readAtFull at off n)"
  by (auto simp: readAtFull_def split: prod.split option.split)

lemma readAtFull_length: "readAtFull at off n = Inr bs \<Longrightarrow> length bs = n"
  by (auto simp: readAtFull_def split: prod.splits option.splits if_splits)


section \<open>The reader\<close>

record reader =
  rd_at :: reader_at
  rd_stream :: stream
  rd_fileSize :: int
  rd_pipe :: bool
  rd_order :: endian
  rd_byteOrder :: byte_order
  rd_offset :: int
  rd_dataEnd :: int
  rd_index :: u64
  rd_limits :: perf_limits
  rd_opts :: perf_options
  rd_closed :: bool
  rd_terminal :: "goerr option"
  rd_buf :: bytes
  rd_attrs :: "event_desc list"
  rd_byID :: "(u64 \<times> nat) list"
  rd_formats :: "(u32 \<times> format) list"
  rd_features :: "(u16 \<times> bytes) list"
  rd_eventTypes :: bytes
  rd_tracing :: tracing_data
  rd_clock :: clock_info
  rd_longSize :: int
  rd_pageSize :: u32
  rd_metadataBytes :: int
  rd_layoutSet :: bool
  rd_sampleIDOffset :: int
  rd_suffixLayoutSet :: bool
  rd_suffixMask :: u64
  rd_suffixIDAll :: bool
  rd_sampleIDAll :: bool
  rd_noSampleIDAll :: bool
  rd_current :: record_details

type_synonym 'a read_op = "(reader, 'a) act"

text \<open>\<open>r.byID[id]\<close>: the position of the descriptor, and the descriptor.\<close>

definition lookup_desc :: "reader \<Rightarrow> u64 \<Rightarrow> event_desc option" where
  "lookup_desc r i = map_option ((!) (rd_attrs r)) (map_of (rd_byID r) i)"


section \<open>Reading words at a position\<close>

text \<open>\<open>order.Uint32(b[i:])\<close> and \<open>order.Uint32(b[i:i+4])\<close>, and the like; they panic past the end.\<close>

definition u16_at :: "endian \<Rightarrow> bytes \<Rightarrow> nat \<Rightarrow> u16 result" where
  "u16_at e bs i = bindR (slice_from bs i) (get16 e)"

definition u32_at :: "endian \<Rightarrow> bytes \<Rightarrow> nat \<Rightarrow> u32 result" where
  "u32_at e bs i = bindR (slice_from bs i) (get32 e)"

definition u64_at :: "endian \<Rightarrow> bytes \<Rightarrow> nat \<Rightarrow> u64 result" where
  "u64_at e bs i = bindR (slice_from bs i) (get64 e)"

lemma safe_words_at [intro]:
  "i + 2 \<le> length bs \<Longrightarrow> safe (u16_at e bs i)"
  "i + 4 \<le> length bs \<Longrightarrow> safe (u32_at e bs i)"
  "i + 8 \<le> length bs \<Longrightarrow> safe (u64_at e bs i)"
  by (simp_all add: u16_at_def u32_at_def u64_at_def slice_from_in safe_get16 safe_get32 safe_get64)

lemma words_at_append:
  "n = length pre \<Longrightarrow> u16_at e (pre @ put16 e v @ post) n = Inr v"
  "n = length pre \<Longrightarrow> u32_at e (pre @ put32 e w @ post) n = Inr w"
  "n = length pre \<Longrightarrow> u64_at e (pre @ put64 e x @ post) n = Inr x"
  by (simp_all add: u16_at_def u32_at_def u64_at_def)

text \<open>Reads that are in bounds give a value without an error.\<close>

lemma words_at_in:
  "i + 2 \<le> length bs \<Longrightarrow> \<exists>w. u16_at e bs i = Inr w"
  "i + 4 \<le> length bs \<Longrightarrow> \<exists>w. u32_at e bs i = Inr w"
  "i + 8 \<le> length bs \<Longrightarrow> \<exists>w. u64_at e bs i = Inr w"
  by (simp_all add: u16_at_def u32_at_def u64_at_def slice_from_in get16_def get32_def get64_def)

lemma words_at_skip [simp]:
  "length xs \<le> n \<Longrightarrow> u16_at e (xs @ ys) n = u16_at e ys (n - length xs)"
  "length xs \<le> n \<Longrightarrow> u32_at e (xs @ ys) n = u32_at e ys (n - length xs)"
  "length xs \<le> n \<Longrightarrow> u64_at e (xs @ ys) n = u64_at e ys (n - length xs)"
  by (auto simp: u16_at_def u32_at_def u64_at_def slice_from_def slice_def not_le le_diff_conv add.commute)

lemma words_at_0 [simp]:
  "u16_at e (put16 e v @ ys) 0 = Inr v" "u32_at e (put32 e w @ ys) 0 = Inr w" "u64_at e (put64 e x @ ys) 0 = Inr x"
  using words_at_append [of 0 "[]"] by simp_all


section \<open>A new reader\<close>

definition zero_tracing :: tracing_data where
  "zero_tracing = \<lparr>td_Version = [], td_ByteOrder = ByteOrderUnknown, td_LongSize = 0, td_PageSize = 0,
     td_HeaderPage = [], td_HeaderEvent = [], td_Ftrace = [], td_Kallsyms = [], td_Printk = [],
     td_SavedCmdline = [], td_Raw = [], td_Trailing = []\<rparr>"

definition zero_clock :: clock_info where
  "zero_clock = \<lparr>ci_ID = 0, ci_IDKnown = False, ci_Clock = ClockUnknown, ci_ResolutionNS = 0, ci_DataVersion = 0,
     ci_WallClockNS = 0, ci_ClockIDTimeNS = 0, ci_EpochOffset = 0, ci_EpochOffsetKnown = False\<rparr>"

text \<open>\<open>newReader\<close> of \<open>open.go\<close>. It has no input yet; the byte orders are set from the magic number.\<close>

definition newReader :: "perf_options \<Rightarrow> perf_limits \<Rightarrow> reader" where
  "newReader opts limits =
     \<lparr>rd_at = (\<lambda>off n. ([], Some (Err IoEOF))), rd_stream = ([], Err IoEOF), rd_fileSize = 0, rd_pipe = False,
      rd_order = LittleEndian, rd_byteOrder = ByteOrderUnknown, rd_offset = 0, rd_dataEnd = 0, rd_index = 0,
      rd_limits = limits, rd_opts = opts, rd_closed = False, rd_terminal = None, rd_buf = [],
      rd_attrs = [], rd_byID = [], rd_formats = [], rd_features = [], rd_eventTypes = [],
      rd_tracing = zero_tracing, rd_clock = zero_clock\<lparr>ci_ID := -1\<rparr>, rd_longSize = 0, rd_pageSize = 0,
      rd_metadataBytes = 0, rd_layoutSet = False, rd_sampleIDOffset = 0, rd_suffixLayoutSet = False,
      rd_suffixMask = 0, rd_suffixIDAll = False, rd_sampleIDAll = False, rd_noSampleIDAll = False,
      rd_current = zero_details\<rparr>"

end
