(* ===== verification/PerfAttr.thy ===== *)
theory PerfAttr imports PerfTypes begin

text \<open>
  Package \<open>perfdata\<close>, \<open>clock.go\<close> and \<open>attr.go\<close>: clock metadata and its conversion to Unix time, the
  attributes of events, and the table of event descriptors with their IDs, with the invariant of that
  table that the decoding of records relies on.
\<close>


section \<open>Clocks\<close>

definition signedDifference :: "u64 \<Rightarrow> u64 \<Rightarrow> u64 option" where
  "signedDifference a b =
     (if a \<ge> b then
        let d = a - b in if d > MaxInt64 then None else Some d
      else
        let d = b - a in
        if d > MaxInt64 + 1 then None
        else if d = MaxInt64 + 1 then Some MinInt64
        else Some (- d))"

definition linuxClock :: "u32 \<Rightarrow> clock" where
  "linuxClock cid =
     (if cid = 0 then ClockRealtime else if cid = 1 then ClockMonotonic else if cid = 7 then ClockBoot
      else if cid = 11 then ClockTAI else ClockUnknown)"

definition setClockID :: "u32 \<Rightarrow> clock_info \<Rightarrow> clock_info" where
  "setClockID cid c =
     (let c = c\<lparr>ci_ID := cid, ci_IDKnown := True, ci_Clock := linuxClock cid\<rparr> in
      if cid = 0 \<and> ci_DataVersion c = 0 then c\<lparr>ci_EpochOffset := 0, ci_EpochOffsetKnown := True\<rparr> else c)"

definition clock_from :: "u32 \<Rightarrow> u32 \<Rightarrow> u64 \<Rightarrow> u64 \<Rightarrow> clock_info \<Rightarrow> clock_info" where
  "clock_from version cid wall clockTime c =
     (let c = setClockID cid (c\<lparr>ci_DataVersion := version, ci_WallClockNS := wall, ci_ClockIDTimeNS := clockTime\<rparr>) in
      case signedDifference wall clockTime of
        Some off \<Rightarrow> c\<lparr>ci_EpochOffset := off, ci_EpochOffsetKnown := True\<rparr>
      | None \<Rightarrow> c\<lparr>ci_EpochOffsetKnown := False\<rparr>)"

definition parseClockData :: "bytes \<Rightarrow> unit read_op" where
  "parseClockData data =
     (if length data < 24 then failA ErrTruncated
      else
        bindA (getA rd_order) (\<lambda>order.
        bindA (liftA (u32_at order data 0)) (\<lambda>version.
        if version < 1 then failA ErrInvalid
        else
        bindA (liftA (u32_at order data 4)) (\<lambda>id.
        bindA (liftA (u64_at order data 8)) (\<lambda>wall.
        bindA (liftA (u64_at order data 16)) (\<lambda>clockTime.
        bindA (getA rd_clock) (\<lambda>c.
        if ci_IDKnown c \<and> ci_ID c \<noteq> id then failA ErrInvalid
        else modA (rd_clock_update (clock_from version id wall clockTime)))))))))"

definition perf_timestamp :: "clock_info \<Rightarrow> u64 \<Rightarrow> timestamp" where
  "perf_timestamp c ns =
     \<lparr>Nanoseconds = ns, Clock = ci_Clock c, EpochOffset = ci_EpochOffset c,
      EpochOffsetKnown = ci_EpochOffsetKnown c\<rparr>"


section \<open>Attributes\<close>

definition reverseByte :: "byte \<Rightarrow> byte" where
  "reverseByte x =
     (let x = push_bit 1 (x AND 0x55) OR drop_bit 1 (x AND 0xaa);
          x = push_bit 2 (x AND 0x33) OR drop_bit 2 (x AND 0xcc)
      in push_bit 4 x OR drop_bit 4 x)"

text \<open>The loop over the eight bytes of the flags; \<open>i\<close> is the position of the first byte.\<close>

fun attrFlags :: "byte_order \<Rightarrow> nat \<Rightarrow> bytes \<Rightarrow> u64" where
  "attrFlags bo i [] = 0"
| "attrFlags bo i (b # bs) =
     push_bit (8 * i) (ucast (if bo = ByteOrderBig then reverseByte b else b)) OR attrFlags bo (i + 1) bs"

definition zero_attr :: attr where
  "zero_attr =
     \<lparr>at_Type = 0, at_Size = 0, at_Config = 0, at_SamplePeriod = 0, at_SampleType = 0, at_ReadFormat = 0,
      at_Options = 0, at_WakeupEvents = 0, at_BreakpointType = 0, at_Config1 = 0, at_Config2 = 0,
      at_BranchSampleType = 0, at_SampleIDAll = False, at_UseClockID = False, at_ClockID = 0,
      at_SampleRegsUser = 0, at_SampleStackUser = 0, at_SampleRegsIntr = 0, at_AuxWatermark = 0,
      at_SampleMaxStack = 0, at_AuxSampleSize = 0, at_SigData = 0, at_Config3 = 0, at_Raw = [],
      at_UnknownTail = []\<rparr>"

text \<open>The members that every version of \<open>perf_event_attr\<close> has.\<close>

definition attrHead :: "endian \<Rightarrow> byte_order \<Rightarrow> u32 \<Rightarrow> bytes \<Rightarrow> attr result" where
  "attrHead order bo sz data =
     bindR (u32_at order data 0) (\<lambda>type.
     bindR (u64_at order data 8) (\<lambda>config.
     bindR (u64_at order data 16) (\<lambda>period.
     bindR (u64_at order data 24) (\<lambda>sampleType.
     bindR (u64_at order data 32) (\<lambda>readFormat.
     bindR (slice data 40 48) (\<lambda>flagBytes.
     bindR (u32_at order data 48) (\<lambda>wakeup.
     bindR (u32_at order data 52) (\<lambda>breakpoint.
     bindR (u64_at order data 56) (\<lambda>config1.
     let flags = attrFlags bo 0 flagBytes in
     Inr (zero_attr\<lparr>at_Type := type, at_Size := sz, at_Config := config, at_SamplePeriod := period,
            at_SampleType := sampleType, at_ReadFormat := readFormat, at_Raw := data, at_Options := flags,
            at_SampleIDAll := has flags (2 ^ 18), at_UseClockID := has flags (2 ^ 25),
            at_WakeupEvents := wakeup, at_BreakpointType := breakpoint, at_Config1 := config1\<rparr>))))))))))"

text \<open>
  The members later versions added: \<open>if len(data) >= n\<close> reads them, and otherwise they stay zero.
\<close>

definition attr_upto :: "nat \<Rightarrow> bytes \<Rightarrow> (attr \<Rightarrow> attr result) \<Rightarrow> attr \<Rightarrow> attr result" where
  "attr_upto n data f a = (if n \<le> length data then f a else Inr a)"

definition attrTail :: "endian \<Rightarrow> bytes \<Rightarrow> attr \<Rightarrow> attr result" where
  "attrTail order data a =
     bindR (attr_upto 72 data (\<lambda>a. bindR (u64_at order data 64) (\<lambda>v. Inr (a\<lparr>at_Config2 := v\<rparr>))) a) (\<lambda>a.
     bindR (attr_upto 80 data (\<lambda>a. bindR (u64_at order data 72) (\<lambda>v. Inr (a\<lparr>at_BranchSampleType := v\<rparr>))) a) (\<lambda>a.
     bindR (attr_upto 96 data (\<lambda>a.
       bindR (u64_at order data 80) (\<lambda>regs.
       bindR (u32_at order data 88) (\<lambda>stack.
       bindR (u32_at order data 92) (\<lambda>id.
       Inr (a\<lparr>at_SampleRegsUser := regs, at_SampleStackUser := stack, at_ClockID := id\<rparr>))))) a) (\<lambda>a.
     bindR (attr_upto 104 data (\<lambda>a. bindR (u64_at order data 96) (\<lambda>v. Inr (a\<lparr>at_SampleRegsIntr := v\<rparr>))) a) (\<lambda>a.
     bindR (attr_upto 112 data (\<lambda>a.
       bindR (u32_at order data 104) (\<lambda>aux.
       bindR (u16_at order data 108) (\<lambda>stack.
       Inr (a\<lparr>at_AuxWatermark := aux, at_SampleMaxStack := stack\<rparr>)))) a) (\<lambda>a.
     bindR (attr_upto 120 data (\<lambda>a. bindR (u32_at order data 112) (\<lambda>v. Inr (a\<lparr>at_AuxSampleSize := v\<rparr>))) a) (\<lambda>a.
     bindR (attr_upto 128 data (\<lambda>a. bindR (u64_at order data 120) (\<lambda>v. Inr (a\<lparr>at_SigData := v\<rparr>))) a) (\<lambda>a.
     bindR (attr_upto 136 data (\<lambda>a. bindR (u64_at order data 128) (\<lambda>v. Inr (a\<lparr>at_Config3 := v\<rparr>))) a) (\<lambda>a.
     Inr (if 136 < length data then a\<lparr>at_UnknownTail := drop 136 data\<rparr> else a)))))))))"

definition parseAttr :: "endian \<Rightarrow> byte_order \<Rightarrow> bytes \<Rightarrow> attr result" where
  "parseAttr order bo raw =
     (if length raw < 64 then fail ErrTruncated
      else
        bindR (u32_at order raw 4) (\<lambda>sz.
        let sz = (if sz = 0 then 64 else sz) in
        if sz < 64 \<or> unat sz > length raw then fail ErrInvalid
        else
          bindR (slice raw 0 (unat sz)) (\<lambda>data.
          bindR (attrHead order bo sz data) (attrTail order data))))"

definition attrsCompatible :: "attr \<Rightarrow> attr \<Rightarrow> bool" where
  "attrsCompatible a b \<longleftrightarrow>
     at_Type a = at_Type b \<and> at_Config a = at_Config b \<and> at_SampleType a = at_SampleType b \<and>
     at_ReadFormat a = at_ReadFormat b \<and> at_Options a = at_Options b \<and>
     at_WakeupEvents a = at_WakeupEvents b \<and> at_BreakpointType a = at_BreakpointType b \<and>
     at_Config1 a = at_Config1 b \<and> at_Config2 a = at_Config2 b \<and>
     at_BranchSampleType a = at_BranchSampleType b \<and>
     at_SampleRegsUser a = at_SampleRegsUser b \<and> at_SampleStackUser a = at_SampleStackUser b \<and>
     at_SampleRegsIntr a = at_SampleRegsIntr b \<and> at_AuxWatermark a = at_AuxWatermark b \<and>
     at_SampleMaxStack a = at_SampleMaxStack b \<and> at_AuxSampleSize a = at_AuxSampleSize b \<and>
     at_SigData a = at_SigData b \<and> at_Config3 a = at_Config3 b \<and>
     at_UnknownTail a = at_UnknownTail b"

definition sampleLookupOffset :: "u64 \<Rightarrow> int" where
  "sampleLookupOffset sampleType =
     (if has sampleType SampleIdentifier then 8
      else if \<not> has sampleType SampleID then -1
      else
        let n = 1 + length (filter (has sampleType) [SampleIP, SampleTID, SampleTime, SampleAddr])
        in int n * 8)"


section \<open>The table of descriptors\<close>

abbreviation (input) suffixBits :: u64 where
  "suffixBits \<equiv> SampleTID OR SampleTime OR SampleID OR SampleStreamID OR SampleCPU OR SampleIdentifier"

definition checkClock :: "attr \<Rightarrow> unit read_op" where
  "checkClock a =
     bindA (getA rd_clock) (\<lambda>c.
     if \<not> at_UseClockID a then okA ()
     else if ci_IDKnown c \<and> ci_ID c \<noteq> at_ClockID a then failA ErrInvalid
     else if \<not> ci_IDKnown c then modA (rd_clock_update (setClockID (at_ClockID a)))
     else okA ())"

definition checkLookup :: "attr \<Rightarrow> unit read_op" where
  "checkLookup a =
     (let offset = sampleLookupOffset (at_SampleType a) in
      bindA (getA id) (\<lambda>r.
      if \<not> rd_layoutSet r then modA (\<lambda>r. r\<lparr>rd_layoutSet := True, rd_sampleIDOffset := offset\<rparr>)
      else if rd_sampleIDOffset r \<noteq> offset then failA ErrInvalid
      else okA ()))"

definition checkSuffix :: "attr \<Rightarrow> unit read_op" where
  "checkSuffix a =
     (let suffix = at_SampleType a AND suffixBits in
      bindA (getA id) (\<lambda>r.
      if at_SampleIDAll a then
        if rd_noSampleIDAll r then failA ErrInvalid
        else
          let hasIdentifier = has suffix SampleIdentifier in
          if rd_suffixLayoutSet r \<and> rd_suffixMask r \<noteq> suffix \<and> (\<not> rd_suffixIDAll r \<or> \<not> hasIdentifier)
          then failA ErrInvalid
          else
            modA (\<lambda>r. r\<lparr>rd_suffixIDAll := (if rd_suffixLayoutSet r then rd_suffixIDAll r \<and> hasIdentifier
                                             else hasIdentifier),
                       rd_suffixLayoutSet := True, rd_suffixMask := suffix, rd_sampleIDAll := True\<rparr>)
      else if rd_suffixLayoutSet r then failA ErrInvalid
      else modA (rd_noSampleIDAll_update (\<lambda>_. True))))"

text \<open>The descriptor the IDs belong to already, if any.\<close>

fun findExisting :: "reader \<Rightarrow> attr \<Rightarrow> u64 list \<Rightarrow> nat option \<Rightarrow> nat option result" where
  "findExisting r a [] existing = Inr existing"
| "findExisting r a (i # ids) existing =
     (case map_of (rd_byID r) i of
        None \<Rightarrow> findExisting r a ids existing
      | Some d \<Rightarrow>
          if \<not> attrsCompatible (ed_attr (rd_attrs r ! d)) a then fail ErrInvalid
          else if existing \<noteq> None \<and> existing \<noteq> Some d then fail ErrInvalid
          else findExisting r a ids (Some d))"

definition update_desc :: "nat \<Rightarrow> (event_desc \<Rightarrow> event_desc) \<Rightarrow> reader \<Rightarrow> reader" where
  "update_desc k f r = r\<lparr>rd_attrs := (rd_attrs r)[k := f (rd_attrs r ! k)]\<rparr>"

definition chooseDescriptor :: "attr \<Rightarrow> string \<Rightarrow> nat option \<Rightarrow> nat read_op" where
  "chooseDescriptor a name existing =
     bindA (getA id) (\<lambda>r.
     case existing of
       None \<Rightarrow>
         if int (length (rd_attrs r)) \<ge> lm_MaxAttrs (rd_limits r) then failA ErrLimit
         else
           bindA (modA (rd_attrs_update (\<lambda>ds. ds @ [\<lparr>ed_attr = a, ed_name = name, ed_ids = [], ed_format = None\<rparr>])))
             (\<lambda>_. okA (length (rd_attrs r)))
     | Some k \<Rightarrow>
         if name \<noteq> [] then
           if ed_name (rd_attrs r ! k) \<noteq> [] \<and> ed_name (rd_attrs r ! k) \<noteq> name then failA ErrInvalid
           else bindA (modA (update_desc k (ed_name_update (\<lambda>_. name)))) (\<lambda>_. okA k)
         else okA k)"

definition addID :: "nat \<Rightarrow> u64 \<Rightarrow> unit read_op" where
  "addID k i =
     bindA (getA id) (\<lambda>r.
     if i \<notin> set (ed_ids (rd_attrs r ! k)) then
       if int (length (rd_byID r)) \<ge> lm_MaxIDs (rd_limits r) then failA ErrLimit
       else modA (\<lambda>r. update_desc k (ed_ids_update (\<lambda>ids. ids @ [i])) r\<lparr>rd_byID := AList.update i k (rd_byID r)\<rparr>)
     else modA (rd_byID_update (AList.update i k)))"

definition addDescriptor :: "attr \<Rightarrow> string \<Rightarrow> u64 list \<Rightarrow> unit read_op" where
  "addDescriptor a name ids =
     bindA (checkClock a) (\<lambda>_.
     bindA (checkLookup a) (\<lambda>_.
     bindA (checkSuffix a) (\<lambda>_.
     bindA (getA id) (\<lambda>r.
     bindA (liftA (findExisting r a ids None)) (\<lambda>existing.
     bindA (chooseDescriptor a name existing) (\<lambda>k.
     forA (addID k) ids))))))"

text \<open>\<open>attachFormats\<close> of \<open>tracing.go\<close>: tracepoint attributes get the format of their event ID.\<close>

definition attachFormats :: "reader \<Rightarrow> reader" where
  "attachFormats r =
     r\<lparr>rd_attrs := map (\<lambda>d. if at_Type (ed_attr d) = 2
                           then d\<lparr>ed_format := map_of (rd_formats r) (ucast (at_Config (ed_attr d)))\<rparr> else d) (rd_attrs r)\<rparr>"


section \<open>EVENT_DESC\<close>

text \<open>\<open>n\<close> words of 64 bits from a position, one after the other.\<close>

fun read_words :: "endian \<Rightarrow> bytes \<Rightarrow> nat \<Rightarrow> nat \<Rightarrow> u64 list result" where
  "read_words order data i 0 = Inr []"
| "read_words order data i (Suc n) =
     bindR (u64_at order data i) (\<lambda>w. bindR (read_words order data (i + 8) n) (\<lambda>ws. Inr (w # ws)))"

text \<open>One entry at \<open>pos\<close>: the attribute, its name and its IDs; the result is the position behind it.\<close>

definition eventDescEntry :: "host \<Rightarrow> bytes \<Rightarrow> u32 \<Rightarrow> nat \<Rightarrow> nat read_op" where
  "eventDescEntry h data attrSize pos =
     (let len = int (length data); attrLen = to_int h (uint attrSize) in
      if attrLen > len - int pos \<or> len - int pos - attrLen < 8 then failA ErrTruncated
      else
        bindA (getA id) (\<lambda>r.
        bindA (liftA (sliceI data (int pos) (int pos + attrLen))) (\<lambda>raw.
        bindA (liftA (parseAttr (rd_order r) (rd_byteOrder r) raw)) (\<lambda>a.
        let pos = nat (int pos + attrLen) in
        bindA (liftA (u32_at (rd_order r) data pos)) (\<lambda>nids.
        bindA (liftA (u32_at (rd_order r) data (pos + 4))) (\<lambda>nameSize.
        let pos = pos + 8 in
        if uint nids > lm_MaxIDs (rd_limits r) mod 2 ^ 32 \<or> unat nameSize > length data - pos
        then failA ErrInvalid
        else
          bindA (liftA (slice data pos (pos + unat nameSize))) (\<lambda>nameBytes.
          let pos = pos + unat nameSize in
          case byteIndex nameBytes 0 of
            None \<Rightarrow> failA ErrInvalid
          | Some nul \<Rightarrow>
              if unat nids > (length data - pos) div 8 then failA ErrTruncated
              else
                bindA (liftA (read_words (rd_order r) data pos (unat nids))) (\<lambda>ids.
                bindA (addDescriptor a (of_bytes (take nul nameBytes)) ids) (\<lambda>_.
                okA (pos + 8 * unat nids))))))))))"

fun eventDescEntries :: "host \<Rightarrow> bytes \<Rightarrow> u32 \<Rightarrow> nat \<Rightarrow> nat \<Rightarrow> unit read_op" where
  "eventDescEntries h data attrSize 0 pos = okA ()"
| "eventDescEntries h data attrSize (Suc n) pos =
     bindA (eventDescEntry h data attrSize pos) (eventDescEntries h data attrSize n)"

definition parseEventDesc :: "host \<Rightarrow> bytes \<Rightarrow> unit read_op" where
  "parseEventDesc h data =
     (if length data < 8 then failA ErrTruncated
      else
        bindA (getA id) (\<lambda>r.
        bindA (liftA (u32_at (rd_order r) data 0)) (\<lambda>count.
        bindA (liftA (u32_at (rd_order r) data 4)) (\<lambda>attrSize.
        if uint count > lm_MaxAttrs (rd_limits r) \<or> attrSize < 64 \<or> uint attrSize > MaxInt h then failA ErrLimit
        else eventDescEntries h data attrSize (unat count) 8))))"


section \<open>Clock arithmetic is exact\<close>

lemma signedDifference_eq:
  "signedDifference a b =
     (let d = uint a - uint b in if - (2 ^ 63) \<le> d \<and> d < 2 ^ 63 then Some (word_of_int d) else None)"
proof (cases "b \<le> a")
  case True
  then have d: "uint (a - b) = uint a - uint b" by (intro u64_minus) (simp add: word_le_def)
  have "a - b > MaxInt64 \<longleftrightarrow> \<not> uint a - uint b < 2 ^ 63" using d by (auto simp: word_less_def)
  moreover have "uint b \<le> uint a" using True by (simp add: word_le_def)
  ultimately show ?thesis using True by (simp add: signedDifference_def Let_def)
next
  case False
  then have lt: "uint a < uint b" by (simp add: word_le_def)
  then have d: "uint (b - a) = uint b - uint a" by (intro u64_minus) simp
  have gt: "b - a > MaxInt64 + 1 \<longleftrightarrow> \<not> - (2 ^ 63) \<le> uint a - uint b" using d by (auto simp: word_less_def)
  have w: "- (b - a) = word_of_int (uint a - uint b)" by simp
  show ?thesis
  proof (cases "b - a = MaxInt64 + 1")
    case True
    then have "uint b - uint a = 2 ^ 63" using d by simp
    then have e: "uint a - uint b = - (2 ^ 63)" by simp
    show ?thesis using True False gt unfolding signedDifference_def Let_def e by simp
  next
    case ne: False
    then show ?thesis using False gt lt w by (simp add: signedDifference_def Let_def)
  qed
qed


lemma clock_from_exact:
  "UnixNano (perf_timestamp (clock_from version cid wall clockTime c) ns) =
     (let d = uint wall - uint clockTime; t = uint ns + d in
      if - (2 ^ 63) \<le> d \<and> d < 2 ^ 63 \<and> - (2 ^ 63) \<le> t \<and> t < 2 ^ 63 then Some (word_of_int t) else None)"
proof -
  let ?d = "uint wall - uint clockTime"
  let ?c = "clock_from version cid wall clockTime c"
  have known: "ci_EpochOffsetKnown ?c \<longleftrightarrow> - (2 ^ 63) \<le> ?d \<and> ?d < 2 ^ 63"
    by (simp add: clock_from_def Let_def signedDifference_eq)
  show ?thesis
  proof (cases "- (2 ^ 63) \<le> ?d \<and> ?d < 2 ^ 63")
    case True
    then have "ci_EpochOffset ?c = word_of_int ?d"
      by (simp add: clock_from_def Let_def signedDifference_eq)
    then have "sint (ci_EpochOffset ?c) = ?d"
      using True sint_word_of_int_in [of ?d] by metis
    then have "exact_unix (perf_timestamp ?c ns) = uint ns + ?d"
      by (simp add: exact_unix_def perf_timestamp_def)
    moreover have "- (2 ^ 63) \<le> uint ns + ?d" using True u64_uint_range [of ns] by linarith
    ultimately show ?thesis
      using True known UnixNano_known [of "perf_timestamp ?c ns"]
      by (simp add: perf_timestamp_def [of ?c ns] Let_def)
  next
    case False
    then show ?thesis using known by (auto simp: UnixNano_def perf_timestamp_def Let_def)
  qed
qed

text \<open>The feature as it is in a file: version, clock, and the two readings.\<close>

definition clock_bytes :: "endian \<Rightarrow> u32 \<Rightarrow> u32 \<Rightarrow> u64 \<Rightarrow> u64 \<Rightarrow> bytes" where
  "clock_bytes order version cid wall clockTime =
     put32 order version @ put32 order cid @ put64 order wall @ put64 order clockTime"

lemma clock_from_simps:
  "ci_ID (clock_from version cid wall clockTime c) = cid" "ci_IDKnown (clock_from version cid wall clockTime c)"
  "ci_Clock (clock_from version cid wall clockTime c) = linuxClock cid"
  "ci_DataVersion (clock_from version cid wall clockTime c) = version"
  "ci_WallClockNS (clock_from version cid wall clockTime c) = wall"
  "ci_ClockIDTimeNS (clock_from version cid wall clockTime c) = clockTime"
  by (simp_all add: clock_from_def setClockID_def Let_def split: option.split)

lemma parseClockData_written:
  "parseClockData (clock_bytes (rd_order r) version cid wall clockTime @ rest) r =
     (if version = 0 \<or> ci_IDKnown (rd_clock r) \<and> ci_ID (rd_clock r) \<noteq> cid then (fail ErrInvalid, r)
      else (Inr (), r\<lparr>rd_clock := clock_from version cid wall clockTime (rd_clock r)\<rparr>))"
proof -
  let ?data = "clock_bytes (rd_order r) version cid wall clockTime @ rest"
  have "u32_at (rd_order r) ?data 0 = Inr version" "u32_at (rd_order r) ?data 4 = Inr cid"
    "u64_at (rd_order r) ?data 8 = Inr wall" "u64_at (rd_order r) ?data 16 = Inr clockTime" "\<not> length ?data < 24"
    by (simp_all add: clock_bytes_def)
  moreover have "version < 1 \<longleftrightarrow> version = 0" by (simp add: word_less_nat_alt unat_eq_zero)
  ultimately show ?thesis by (simp add: parseClockData_def act_simps)
qed

text \<open>
  C28. CLOCK_DATA is read exactly. Whatever reader parses the feature as it was written (with more bytes
  behind it or not): version 0, and a clock other than the one already known, are refused and leave the
  reader as it was; otherwise the reader differs only in its clock, which has the members that were
  written. A timestamp then converts to Unix time exactly when the difference of the two reference
  readings fits in an int64 and so does the result, and the result is the wall clock reading plus the
  time that has passed since.
\<close>

theorem clock_data_exact:
  "case parseClockData (clock_bytes (rd_order r) version cid wall clockTime @ rest) r of
     (Inl e, r') \<Rightarrow> e = Fail (Err ErrInvalid) \<and> r' = r \<and>
       (version = 0 \<or> ci_IDKnown (rd_clock r) \<and> ci_ID (rd_clock r) \<noteq> cid)
   | (Inr _, r') \<Rightarrow> version \<noteq> 0 \<and> \<not> (ci_IDKnown (rd_clock r) \<and> ci_ID (rd_clock r) \<noteq> cid) \<and>
       r' = r\<lparr>rd_clock := rd_clock r'\<rparr> \<and> ci_ID (rd_clock r') = cid \<and> ci_IDKnown (rd_clock r') \<and>
       ci_Clock (rd_clock r') = linuxClock cid \<and> ci_DataVersion (rd_clock r') = version \<and>
       ci_WallClockNS (rd_clock r') = wall \<and> ci_ClockIDTimeNS (rd_clock r') = clockTime \<and>
       UnixNano (perf_timestamp (rd_clock r') ns) =
         (let d = uint wall - uint clockTime; t = uint ns + d in
          if - (2 ^ 63) \<le> d \<and> d < 2 ^ 63 \<and> - (2 ^ 63) \<le> t \<and> t < 2 ^ 63 then Some (word_of_int t) else None)"
  by (auto simp: parseClockData_written clock_from_simps clock_from_exact)


section \<open>Attributes round trip\<close>

lemma bit_twice: "bit ((x :: byte) * 2) i \<longleftrightarrow> 0 < i \<and> i < 8 \<and> bit x (i - 1)"
proof -
  have "x * 2 = push_bit 1 x" by (simp add: push_bit_eq_mult)
  then show ?thesis by (simp only: bit_push_bit_iff) auto
qed

lemma bit_reverseByte: "i < 8 \<Longrightarrow> bit (reverseByte x) i \<longleftrightarrow> bit x (7 - i)"
proof -
  have "\<forall>i\<in>{0..<8}. bit (reverseByte x) i = bit x (7 - i)"
    unfolding atLeastLessThan_upt
    by (simp add: upt_rec, intro conjI;
        simp add: reverseByte_def Let_def bit_or_iff bit_and_iff bit_push_bit_iff bit_drop_bit_eq bit_twice)
  then show "i < 8 \<Longrightarrow> bit (reverseByte x) i \<longleftrightarrow> bit x (7 - i)" by simp
qed

lemma bit_byte_out: "8 \<le> j \<Longrightarrow> \<not> bit (b :: byte) j"
  using bit_imp_le_length [of b j] by auto

lemma bit_attrFlags:
  "i < length bs \<Longrightarrow> k + i < 8 \<Longrightarrow> j < 8 \<Longrightarrow>
   bit (attrFlags bo k bs) (8 * (k + i) + j) \<longleftrightarrow> bit (bs ! i) (if bo = ByteOrderBig then 7 - j else j)"
proof (induction bs arbitrary: i k)
  case (Cons b bs)
  have low: "\<not> bit (attrFlags bo n bs) m" if "m < 8 * n" for n m bs
    using that
  proof (induction bs arbitrary: n)
    case (Cons b bs)
    then show ?case by (simp add: bit_or_iff bit_push_bit_iff)
  qed simp
  show ?case
  proof (cases i)
    case 0
    then have "\<not> bit (attrFlags bo (Suc k) bs) (8 * (k + i) + j)"
      using Cons.prems low by simp
    then show ?thesis
      using 0 Cons.prems by (simp add: bit_or_iff bit_push_bit_iff bit_ucast_iff bit_reverseByte)
  next
    case (Suc l)
    then have "\<not> bit b (8 + (8 * l + j))" "\<not> bit (reverseByte b) (8 + (8 * l + j))"
      by (simp_all add: bit_byte_out)
    then show ?thesis
      using Cons.IH [of l "Suc k"] Cons.prems Suc
      by (simp add: bit_or_iff bit_push_bit_iff bit_ucast_iff)
  qed
qed simp

text \<open>
  The bit field as a kernel of either byte order stores it: bit \<open>n\<close> is in byte \<open>n div 8\<close>, counted from
  the least significant end on a little-endian machine and from the other end on a big-endian one.
\<close>

definition flag_bytes :: "byte_order \<Rightarrow> u64 \<Rightarrow> bytes" where
  "flag_bytes bo w =
     map (\<lambda>i. horner_sum of_bool 2 (map (\<lambda>j. bit w (8 * i + (if bo = ByteOrderBig then 7 - j else j))) [0..<8])) [0..<8]"

lemma attrFlags_flag_bytes: "attrFlags bo 0 (flag_bytes bo w) = w"
proof (rule bit_word_eqI)
  fix n :: nat assume "n < LENGTH(64)"
  then have n: "n div 8 < 8" "n mod 8 < 8" "8 * (n div 8) + n mod 8 = n" by auto
  have "bit (attrFlags bo 0 (flag_bytes bo w)) (8 * (0 + n div 8) + n mod 8) =
      bit (flag_bytes bo w ! (n div 8)) (if bo = ByteOrderBig then 7 - n mod 8 else n mod 8)"
    using n by (intro bit_attrFlags) (simp_all add: flag_bytes_def)
  also have "\<dots> = bit w (8 * (n div 8) + n mod 8)"
    using n by (auto simp: flag_bytes_def bit_horner_sum_bit_word_iff)
  finally show "bit (attrFlags bo 0 (flag_bytes bo w)) n = bit w n" using n(3) by simp
qed

text \<open>The attribute as the kernel lays it out, in its version of 136 bytes and with later members behind.\<close>

definition attr_head_bytes :: "endian \<Rightarrow> byte_order \<Rightarrow> attr \<Rightarrow> bytes" where
  "attr_head_bytes order bo a =
     put32 order (at_Type a) @ put32 order (at_Size a) @ put64 order (at_Config a) @
     put64 order (at_SamplePeriod a) @ put64 order (at_SampleType a) @ put64 order (at_ReadFormat a) @
     flag_bytes bo (at_Options a) @ put32 order (at_WakeupEvents a) @ put32 order (at_BreakpointType a) @
     put64 order (at_Config1 a)"

definition attr_bytes :: "endian \<Rightarrow> byte_order \<Rightarrow> attr \<Rightarrow> bytes" where
  "attr_bytes order bo a =
     attr_head_bytes order bo a @ put64 order (at_Config2 a) @ put64 order (at_BranchSampleType a) @
     put64 order (at_SampleRegsUser a) @ put32 order (at_SampleStackUser a) @ put32 order (at_ClockID a) @
     put64 order (at_SampleRegsIntr a) @ put32 order (at_AuxWatermark a) @ put16 order (at_SampleMaxStack a) @
     put16 order 0 @ put32 order (at_AuxSampleSize a) @ put32 order 0 @ put64 order (at_SigData a) @
     put64 order (at_Config3 a) @ at_UnknownTail a"

lemma length_flag_bytes [simp]: "length (flag_bytes bo w) = 8"
  by (simp add: flag_bytes_def)

lemma length_attr_head [simp]: "length (attr_head_bytes order bo a) = 64"
  by (simp add: attr_head_bytes_def)

lemma length_attr_bytes [simp]: "length (attr_bytes order bo a) = 136 + length (at_UnknownTail a)"
  by (simp add: attr_bytes_def)

text \<open>What holds of an attribute whose members agree with each other and with its bytes.\<close>

definition attr_written :: "endian \<Rightarrow> byte_order \<Rightarrow> attr \<Rightarrow> bool" where
  "attr_written order bo a \<longleftrightarrow>
     unat (at_Size a) = 136 + length (at_UnknownTail a) \<and>
     at_SampleIDAll a = has (at_Options a) (2 ^ 18) \<and> at_UseClockID a = has (at_Options a) (2 ^ 25) \<and>
     at_Raw a = attr_bytes order bo a"

text \<open>
  Older kernels and perf write a prefix of the layout, of the length that the size member gives; a size
  of 0 stands for the first version, of 64 bytes. The reader has the members that lie wholly within it.
\<close>

definition attr_length :: "attr \<Rightarrow> nat" where
  "attr_length a = (if at_Size a = 0 then 64 else unat (at_Size a))"

definition attr_prefix :: "endian \<Rightarrow> byte_order \<Rightarrow> attr \<Rightarrow> bytes" where
  "attr_prefix order bo a = take (attr_length a) (attr_bytes order bo a)"

definition within :: "attr \<Rightarrow> nat \<Rightarrow> 'a::zero \<Rightarrow> 'a" where
  "within a end_of v = (if end_of \<le> attr_length a then v else 0)"

definition attr_read :: "endian \<Rightarrow> byte_order \<Rightarrow> attr \<Rightarrow> attr" where
  "attr_read order bo a =
     \<lparr>at_Type = at_Type a, at_Size = (if at_Size a = 0 then 64 else at_Size a), at_Config = at_Config a,
      at_SamplePeriod = at_SamplePeriod a, at_SampleType = at_SampleType a, at_ReadFormat = at_ReadFormat a,
      at_Options = at_Options a, at_WakeupEvents = at_WakeupEvents a, at_BreakpointType = at_BreakpointType a,
      at_Config1 = at_Config1 a, at_Config2 = within a 72 (at_Config2 a),
      at_BranchSampleType = within a 80 (at_BranchSampleType a),
      at_SampleIDAll = has (at_Options a) (2 ^ 18), at_UseClockID = has (at_Options a) (2 ^ 25),
      at_ClockID = within a 96 (at_ClockID a),
      at_SampleRegsUser = within a 96 (at_SampleRegsUser a), at_SampleStackUser = within a 96 (at_SampleStackUser a),
      at_SampleRegsIntr = within a 104 (at_SampleRegsIntr a), at_AuxWatermark = within a 112 (at_AuxWatermark a),
      at_SampleMaxStack = within a 112 (at_SampleMaxStack a), at_AuxSampleSize = within a 120 (at_AuxSampleSize a),
      at_SigData = within a 128 (at_SigData a), at_Config3 = within a 136 (at_Config3 a),
      at_Raw = attr_prefix order bo a, at_UnknownTail = take (attr_length a - 136) (at_UnknownTail a)\<rparr>"

lemma reads_prefix:
  "i + 2 \<le> n \<Longrightarrow> i + 2 \<le> length bs \<Longrightarrow> u16_at e (take n bs) i = u16_at e bs i"
  "i + 4 \<le> n \<Longrightarrow> i + 4 \<le> length bs \<Longrightarrow> u32_at e (take n bs) i = u32_at e bs i"
  "i + 8 \<le> n \<Longrightarrow> i + 8 \<le> length bs \<Longrightarrow> u64_at e (take n bs) i = u64_at e bs i"
  "i \<le> j \<Longrightarrow> j \<le> n \<Longrightarrow> j \<le> length bs \<Longrightarrow> slice (take n bs) i j = slice bs i j"
  by (simp_all add: u16_at_def u32_at_def u64_at_def slice_from_in slice_in get16_def get32_def get64_def drop_take min_def)

lemma drop_attr_bytes: "drop 136 (attr_bytes order bo a) = at_UnknownTail a"
  by (simp add: attr_bytes_def)

text \<open>Where the members are.\<close>

lemma attr_members:
  "u32_at order (attr_bytes order bo a) 0 = Inr (at_Type a)" "u32_at order (attr_bytes order bo a) 4 = Inr (at_Size a)"
  "u64_at order (attr_bytes order bo a) 8 = Inr (at_Config a)" "u64_at order (attr_bytes order bo a) 16 = Inr (at_SamplePeriod a)"
  "u64_at order (attr_bytes order bo a) 24 = Inr (at_SampleType a)" "u64_at order (attr_bytes order bo a) 32 = Inr (at_ReadFormat a)"
  "slice (attr_bytes order bo a) 40 48 = Inr (flag_bytes bo (at_Options a))"
  "u32_at order (attr_bytes order bo a) 48 = Inr (at_WakeupEvents a)" "u32_at order (attr_bytes order bo a) 52 = Inr (at_BreakpointType a)"
  "u64_at order (attr_bytes order bo a) 56 = Inr (at_Config1 a)" "u64_at order (attr_bytes order bo a) 64 = Inr (at_Config2 a)"
  "u64_at order (attr_bytes order bo a) 72 = Inr (at_BranchSampleType a)" "u64_at order (attr_bytes order bo a) 80 = Inr (at_SampleRegsUser a)"
  "u32_at order (attr_bytes order bo a) 88 = Inr (at_SampleStackUser a)" "u32_at order (attr_bytes order bo a) 92 = Inr (at_ClockID a)"
  "u64_at order (attr_bytes order bo a) 96 = Inr (at_SampleRegsIntr a)" "u32_at order (attr_bytes order bo a) 104 = Inr (at_AuxWatermark a)"
  "u16_at order (attr_bytes order bo a) 108 = Inr (at_SampleMaxStack a)" "u32_at order (attr_bytes order bo a) 112 = Inr (at_AuxSampleSize a)"
  "u64_at order (attr_bytes order bo a) 120 = Inr (at_SigData a)" "u64_at order (attr_bytes order bo a) 128 = Inr (at_Config3 a)"
  by (simp_all add: attr_bytes_def attr_head_bytes_def slice_in)

lemma parseAttr_prefix:
  assumes "64 \<le> attr_length a" "attr_length a \<le> 136 + length (at_UnknownTail a)"
  shows "parseAttr order bo (attr_prefix order bo a @ rest) = Inr (attr_read order bo a)"
proof -
  let ?full = "attr_bytes order bo a" and ?data = "attr_prefix order bo a" and ?n = "attr_length a"
  let ?sz = "if at_Size a = 0 then 64 else at_Size a"
  have len: "length ?data = ?n" using assms(2) by (simp add: attr_prefix_def)
  have sz: "unat ?sz = ?n" by (simp add: attr_length_def)
  have data: "?data = take ?n ?full" by (simp add: attr_prefix_def)
  have "take 8 (?data @ rest) = take 8 ?full" using assms(1) len by (simp add: data)
  then have "u32_at order (?data @ rest) 4 = Inr (at_Size a)"
    using reads_prefix(2) [of 4 8 ?full order] reads_prefix(2) [of 4 8 "?data @ rest" order] assms(1) len attr_members(2)
    by simp
  moreover have "slice (?data @ rest) 0 ?n = Inr ?data" using len by (simp add: slice_in)
  moreover have "bindR (attrHead order bo ?sz ?data) (attrTail order ?data) = Inr (attr_read order bo a)"
  proof -
    have "attrHead order bo ?sz ?data =
       Inr (zero_attr\<lparr>at_Type := at_Type a, at_Size := ?sz, at_Config := at_Config a,
         at_SamplePeriod := at_SamplePeriod a, at_SampleType := at_SampleType a, at_ReadFormat := at_ReadFormat a,
         at_Raw := ?data, at_Options := at_Options a,
         at_SampleIDAll := has (at_Options a) (2 ^ 18), at_UseClockID := has (at_Options a) (2 ^ 25),
         at_WakeupEvents := at_WakeupEvents a, at_BreakpointType := at_BreakpointType a, at_Config1 := at_Config1 a\<rparr>)"
      using assms(1) by (simp add: attrHead_def data reads_prefix attr_members attrFlags_flag_bytes Let_def)
    moreover have "drop 136 ?data = take (?n - 136) (at_UnknownTail a)"
      using drop_attr_bytes [of order bo a] by (simp add: data drop_take)
    ultimately show ?thesis
      using assms(1)
      by (simp add: attrTail_def attr_upto_def len data reads_prefix attr_members attr_read_def zero_attr_def within_def)
  qed
  ultimately show ?thesis
    using assms(1) len sz by (simp add: parseAttr_def Let_def word_less_nat_alt not_less)
qed

lemma attr_read_written:
  assumes "attr_written order bo a"
  shows "attr_prefix order bo a = attr_bytes order bo a" "attr_read order bo a = a"
proof -
  have "at_Size a \<noteq> 0" using assms by (auto simp: attr_written_def)
  then have n: "attr_length a = 136 + length (at_UnknownTail a)" using assms by (simp add: attr_length_def attr_written_def)
  show full: "attr_prefix order bo a = attr_bytes order bo a" by (simp add: attr_prefix_def n)
  show "attr_read order bo a = a"
    using assms \<open>at_Size a \<noteq> 0\<close> unfolding attr_written_def
    by (intro attr.equality) (simp_all add: attr_read_def full within_def n)
qed

lemma parseAttr_written:
  assumes "attr_written order bo a"
  shows "parseAttr order bo (attr_bytes order bo a @ rest) = Inr a"
proof -
  have "at_Size a \<noteq> 0" using assms by (auto simp: attr_written_def)
  then have n: "attr_length a = 136 + length (at_UnknownTail a)" using assms by (simp add: attr_length_def attr_written_def)
  then show ?thesis using parseAttr_prefix [of a order bo rest] attr_read_written [OF assms] by simp
qed


definition demo_attr :: attr where
  "demo_attr =
     (let a = zero_attr\<lparr>at_Type := 2, at_Size := 136, at_Config := 77, at_SampleType := 0x10047,
                at_Options := 2 ^ 18, at_SampleIDAll := True\<rparr>
      in a\<lparr>at_Raw := attr_bytes BigEndian ByteOrderBig a\<rparr>)"



end
