(* ===== verification/PerfTable.thy ===== *)
theory PerfTable imports PerfAttr begin

text \<open>
  The invariant of the table of event descriptors that \<open>addDescriptor\<close> (\<open>perfdata/attr.go\<close>) maintains:
  IDs belong to one descriptor each, every descriptor agrees with the layout the reader uses to find
  IDs in samples and in the suffix of other records, and the limits hold. The proofs use the program
  logic of \<open>GoState\<close>.
\<close>


section \<open>The invariant of the table\<close>

text \<open>
  IDs and descriptors: an ID is in the table exactly when it is among the IDs of the descriptor the
  table names, so no ID belongs to two descriptors.
\<close>

definition table_ok :: "reader \<Rightarrow> bool" where
  "table_ok r \<longleftrightarrow>
     distinct (map fst (rd_byID r)) \<and>
     (\<forall>i k. map_of (rd_byID r) i = Some k \<longleftrightarrow> k < length (rd_attrs r) \<and> i \<in> set (ed_ids (rd_attrs r ! k))) \<and>
     (\<forall>d\<in>set (rd_attrs r). distinct (ed_ids d))"

text \<open>
  Layout: the position of the ID in a sample is that of every descriptor, and the suffix of other
  records is that of every descriptor, up to those members an identifier at the end can resolve.
\<close>

definition suffix_of :: "attr \<Rightarrow> u64" where
  "suffix_of a = at_SampleType a AND suffixBits"

definition attr_fits :: "reader \<Rightarrow> attr \<Rightarrow> bool" where
  "attr_fits r a \<longleftrightarrow>
     rd_layoutSet r \<and> sampleLookupOffset (at_SampleType a) = rd_sampleIDOffset r \<and>
     (if at_SampleIDAll a then
        rd_suffixLayoutSet r \<and>
        (if rd_suffixIDAll r then has (suffix_of a) SampleIdentifier else suffix_of a = rd_suffixMask r)
      else rd_noSampleIDAll r)"

definition layout_ok :: "reader \<Rightarrow> bool" where
  "layout_ok r \<longleftrightarrow>
     (\<forall>d\<in>set (rd_attrs r). attr_fits r (ed_attr d)) \<and>
     (rd_sampleIDAll r \<longleftrightarrow> rd_suffixLayoutSet r) \<and> \<not> (rd_suffixLayoutSet r \<and> rd_noSampleIDAll r) \<and>
     (rd_suffixLayoutSet r \<longrightarrow> rd_suffixIDAll r = has (rd_suffixMask r) SampleIdentifier)"

definition bounds_ok :: "reader \<Rightarrow> bool" where
  "bounds_ok r \<longleftrightarrow>
     limits_ok (rd_limits r) \<and> int (length (rd_attrs r)) \<le> lm_MaxAttrs (rd_limits r) \<and>
     int (length (rd_byID r)) \<le> lm_MaxIDs (rd_limits r) \<and>
     0 \<le> rd_metadataBytes r \<and> rd_metadataBytes r \<le> lm_MaxMetadataBytes (rd_limits r)"

definition reader_ok :: "reader \<Rightarrow> bool" where
  "reader_ok r \<longleftrightarrow> table_ok r \<and> layout_ok r \<and> bounds_ok r"

interpretation perf: state_invariant reader_ok .

lemmas perf_rules = perf.runs_bind perf.runs_ok perf.runs_fail perf.runs_get perf.runs_mod perf.runs_if

text \<open>The invariant does not depend on the members that no operation on the table reads.\<close>

lemma reader_ok_cong:
  "rd_attrs r = rd_attrs s \<Longrightarrow> rd_byID r = rd_byID s \<Longrightarrow> rd_layoutSet r = rd_layoutSet s \<Longrightarrow>
   rd_sampleIDOffset r = rd_sampleIDOffset s \<Longrightarrow> rd_suffixLayoutSet r = rd_suffixLayoutSet s \<Longrightarrow>
   rd_suffixMask r = rd_suffixMask s \<Longrightarrow> rd_suffixIDAll r = rd_suffixIDAll s \<Longrightarrow>
   rd_sampleIDAll r = rd_sampleIDAll s \<Longrightarrow> rd_noSampleIDAll r = rd_noSampleIDAll s \<Longrightarrow>
   rd_limits r = rd_limits s \<Longrightarrow> rd_metadataBytes r = rd_metadataBytes s \<Longrightarrow> reader_ok r = reader_ok s"
  by (simp add: reader_ok_def table_ok_def layout_ok_def bounds_ok_def attr_fits_def)

lemma reader_ok_unread [simp]:
  "reader_ok (rd_clock_update f r) = reader_ok r" "reader_ok (rd_current_update g r) = reader_ok r"
  by (rule reader_ok_cong; simp)+

lemma has_suffix_identifier: "has (suffix_of a) SampleIdentifier = has (at_SampleType a) SampleIdentifier"
  by (simp add: has_def suffix_of_def and.assoc)

lemma runs_checkClock: "perf.runs reader_ok (checkClock a) (\<lambda>_. reader_ok)"
  by (auto simp: checkClock_def perf.runs_def act_simps)

lemma reader_ok_layout:
  assumes "reader_ok r" "rd_attrs s = rd_attrs r" "rd_byID s = rd_byID r" "rd_limits s = rd_limits r"
    "rd_metadataBytes s = rd_metadataBytes r" "layout_ok s"
  shows "reader_ok s"
  using assms by (simp add: reader_ok_def table_ok_def bounds_ok_def)

lemma runs_checkLookup:
  "perf.runs reader_ok (checkLookup a)
     (\<lambda>_ r. reader_ok r \<and> rd_layoutSet r \<and> rd_sampleIDOffset r = sampleLookupOffset (at_SampleType a))"
proof -
  let ?s = "\<lambda>r. r\<lparr>rd_layoutSet := True, rd_sampleIDOffset := sampleLookupOffset (at_SampleType a)\<rparr>"
  have "reader_ok (?s r)" if r: "reader_ok r" "\<not> rd_layoutSet r" for r
  proof (rule reader_ok_layout [OF r(1)])
    have "rd_attrs r = []"
      using r by (cases "rd_attrs r") (auto simp: reader_ok_def layout_ok_def attr_fits_def)
    then show "layout_ok (?s r)" using r(1) by (simp add: reader_ok_def layout_ok_def)
  qed simp_all
  then show ?thesis
    by (simp add: checkLookup_def Let_def perf.runs_def act_simps)
qed

lemma suffix_set:
  assumes r: "reader_ok r" "rd_layoutSet r" "rd_sampleIDOffset r = sampleLookupOffset (at_SampleType a)"
    and a: "at_SampleIDAll a" "\<not> rd_noSampleIDAll r"
      "\<not> (rd_suffixLayoutSet r \<and> rd_suffixMask r \<noteq> suffix_of a \<and>
          (\<not> rd_suffixIDAll r \<or> \<not> has (suffix_of a) SampleIdentifier))"
    and s: "s = r\<lparr>rd_suffixIDAll := (if rd_suffixLayoutSet r then rd_suffixIDAll r \<and> has (suffix_of a) SampleIdentifier
                                    else has (suffix_of a) SampleIdentifier),
                  rd_suffixLayoutSet := True, rd_suffixMask := suffix_of a, rd_sampleIDAll := True\<rparr>"
  shows "reader_ok s" "attr_fits s a"
proof -
  have l: "layout_ok r" using r(1) by (simp add: reader_ok_def)
  have all: "attr_fits r (ed_attr d)" "at_SampleIDAll (ed_attr d)" if "d \<in> set (rd_attrs r)" for d
    using l a(2) that by (auto simp: layout_ok_def attr_fits_def split: if_splits)
  have id: "rd_suffixIDAll s = has (suffix_of a) SampleIdentifier"
    using l a(3) by (auto simp: s layout_ok_def)
  have fits: "attr_fits s (ed_attr d)" if "d \<in> set (rd_attrs r)" for d
    using all [OF that] l a(3) by (auto simp: attr_fits_def s layout_ok_def split: if_splits)
  show "attr_fits s a"
    using id r(2,3) a(1) unfolding attr_fits_def by (simp add: s)
  show "reader_ok s"
    by (rule reader_ok_layout [OF r(1)]) (use id fits a(2) in \<open>auto simp: s layout_ok_def\<close>)
qed

lemma suffix_unset:
  assumes r: "reader_ok r" "rd_layoutSet r" "rd_sampleIDOffset r = sampleLookupOffset (at_SampleType a)"
    and a: "\<not> at_SampleIDAll a" "\<not> rd_suffixLayoutSet r"
  shows "reader_ok (rd_noSampleIDAll_update (\<lambda>_. True) r)" "attr_fits (rd_noSampleIDAll_update (\<lambda>_. True) r) a"
proof -
  show "attr_fits (rd_noSampleIDAll_update (\<lambda>_. True) r) a"
    using r(2,3) a by (simp add: attr_fits_def)
  show "reader_ok (rd_noSampleIDAll_update (\<lambda>_. True) r)"
    by (rule reader_ok_layout [OF r(1)])
       (use r(1) a(2) in \<open>auto simp: reader_ok_def layout_ok_def attr_fits_def split: if_splits\<close>)
qed

lemma runs_checkSuffix:
  "perf.runs (\<lambda>r. reader_ok r \<and> rd_layoutSet r \<and> rd_sampleIDOffset r = sampleLookupOffset (at_SampleType a))
     (checkSuffix a) (\<lambda>_ r. reader_ok r \<and> attr_fits r a)"
proof -
  have m: "at_SampleType a AND suffixBits = suffix_of a" by (simp add: suffix_of_def)
  show ?thesis
    unfolding perf.runs_def
  proof (intro allI impI, elim conjE)
    fix r assume r: "reader_ok r" "rd_layoutSet r" "rd_sampleIDOffset r = sampleLookupOffset (at_SampleType a)"
    show "case checkSuffix a r of (Inl Fault, t) \<Rightarrow> False | (Inl (Fail e), t) \<Rightarrow> reader_ok t
        | (Inr x, t) \<Rightarrow> reader_ok t \<and> attr_fits t a"
      using r suffix_set [OF r] suffix_unset [OF r]
      unfolding checkSuffix_def Let_def m bindA_getA id_apply
      by (simp add: act_simps)
  qed
qed

lemma findExisting_ok:
  assumes "reader_ok r"
  shows "safe (findExisting r a ids e)"
    "findExisting r a ids e = Inr e' \<Longrightarrow>
       (\<forall>i\<in>set ids. map_of (rd_byID r) i = None \<or> map_of (rd_byID r) i = e') \<and>
       (e \<noteq> None \<longrightarrow> e' = e) \<and>
       (\<forall>k. e' = Some k \<longrightarrow> e = Some k \<or> k < length (rd_attrs r) \<and> attrsCompatible (ed_attr (rd_attrs r ! k)) a)"
proof -
  show "safe (findExisting r a ids e)"
    by (induction ids arbitrary: e) (auto split: option.split)
  have t: "map_of (rd_byID r) i = Some k \<Longrightarrow> k < length (rd_attrs r)" for i k
    using assms by (simp add: reader_ok_def table_ok_def)
  show "findExisting r a ids e = Inr e' \<Longrightarrow>
       (\<forall>i\<in>set ids. map_of (rd_byID r) i = None \<or> map_of (rd_byID r) i = e') \<and>
       (e \<noteq> None \<longrightarrow> e' = e) \<and>
       (\<forall>k. e' = Some k \<longrightarrow> e = Some k \<or> k < length (rd_attrs r) \<and> attrsCompatible (ed_attr (rd_attrs r ! k)) a)"
  proof (induction ids arbitrary: e)
    case (Cons i ids)
    show ?case
    proof (cases "map_of (rd_byID r) i")
      case None
      then show ?thesis using Cons by simp
    next
      case (Some d)
      then have "attrsCompatible (ed_attr (rd_attrs r ! d)) a" "e = None \<or> e = Some d"
          "findExisting r a ids (Some d) = Inr e'"
        using Cons.prems by (auto split: if_splits)
      then show ?thesis using Cons.IH [of "Some d"] t [OF Some] Some by auto
    qed
  qed simp
qed


section \<open>Adding a descriptor\<close>

text \<open>What is known of the chosen descriptor while its IDs are added.\<close>

definition chosen :: "attr \<Rightarrow> u64 list \<Rightarrow> nat \<Rightarrow> reader \<Rightarrow> bool" where
  "chosen a ids k r \<longleftrightarrow>
     reader_ok r \<and> k < length (rd_attrs r) \<and> attrsCompatible (ed_attr (rd_attrs r ! k)) a \<and>
     (\<forall>i\<in>set ids. map_of (rd_byID r) i = None \<or> map_of (rd_byID r) i = Some k)"

lemma attrsCompatible_refl [simp]: "attrsCompatible a a"
  by (simp add: attrsCompatible_def)

lemma layout_ok_attrs:
  assumes "layout_ok r" "\<And>d. d \<in> set ds \<Longrightarrow> ed_attr d \<in> ed_attr ` set (rd_attrs r)"
  shows "layout_ok (r\<lparr>rd_attrs := ds, rd_byID := t\<rparr>)"
proof -
  have "attr_fits r (ed_attr d)" if "d \<in> set ds" for d
    using assms(1) assms(2) [OF that] by (auto elim!: imageE simp: layout_ok_def simp del: disj_not1)
  then show ?thesis using assms(1) by (simp add: layout_ok_def attr_fits_def)
qed

lemma update_desc_eq: "update_desc k f r = r\<lparr>rd_attrs := (rd_attrs r)[k := f (rd_attrs r ! k)], rd_byID := rd_byID r\<rparr>"
  by (simp add: update_desc_def)

lemma set_update_image:
  "k < length ds \<Longrightarrow> ed_attr d' = ed_attr (ds ! k) \<Longrightarrow> d \<in> set (ds[k := d']) \<Longrightarrow> ed_attr d \<in> ed_attr ` set ds"
  using set_update_subset_insert [of ds k d'] by auto

lemma update_desc_ok:
  assumes r: "reader_ok r" "k < length (rd_attrs r)"
    and f: "\<And>d. ed_ids (f d) = ed_ids d" "\<And>d. ed_attr (f d) = ed_attr d"
  shows "reader_ok (update_desc k f r)"
proof -
  have t: "table_ok r" and l: "layout_ok r" and b: "bounds_ok r" using r(1) by (simp_all add: reader_ok_def)
  have n: "ed_ids ((rd_attrs r)[k := f (rd_attrs r ! k)] ! j) = ed_ids (rd_attrs r ! j)"
       "ed_attr ((rd_attrs r)[k := f (rd_attrs r ! k)] ! j) = ed_attr (rd_attrs r ! j)" if "j < length (rd_attrs r)" for j
    using f that by (cases "j = k", simp_all)+
  have s: "d \<in> set ((rd_attrs r)[k := f (rd_attrs r ! k)]) \<Longrightarrow>
      \<exists>d'\<in>set (rd_attrs r). ed_ids d = ed_ids d' \<and> ed_attr d = ed_attr d'" for d
    using n by (fastforce simp: in_set_conv_nth)
  have "table_ok (update_desc k f r)"
    using t n s unfolding table_ok_def update_desc_def by (simp, metis)
  moreover have "layout_ok (update_desc k f r)"
    unfolding update_desc_eq by (rule layout_ok_attrs [OF l]) (rule set_update_image [OF r(2) f(2)])
  moreover have "bounds_ok (update_desc k f r)"
    using b by (simp add: bounds_ok_def update_desc_def)
  ultimately show ?thesis by (simp add: reader_ok_def)
qed

lemma append_desc_ok:
  assumes r: "reader_ok r" "attr_fits r (ed_attr d)" "ed_ids d = []"
    and b: "int (length (rd_attrs r)) < lm_MaxAttrs (rd_limits r)"
  shows "reader_ok (rd_attrs_update (\<lambda>ds. ds @ [d]) r)"
proof -
  have "table_ok r" "layout_ok r" "bounds_ok r" using r(1) by (simp_all add: reader_ok_def)
  then show ?thesis
    using r b by (auto simp: reader_ok_def table_ok_def layout_ok_def bounds_ok_def attr_fits_def nth_append less_Suc_eq)
qed

lemma chooseDescriptor_runs:
  "perf.runs (\<lambda>r. reader_ok r \<and> attr_fits r a \<and> findExisting r a ids None = Inr existing)
     (chooseDescriptor a name existing) (chosen a ids)"
  unfolding perf.runs_def
proof (intro allI impI, elim conjE)
  fix r assume r: "reader_ok r" "attr_fits r a" "findExisting r a ids None = Inr existing"
  note e = findExisting_ok(2) [OF r(1,3)]
  show "case chooseDescriptor a name existing r of (Inl Fault, t) \<Rightarrow> False | (Inl (Fail e), t) \<Rightarrow> reader_ok t
      | (Inr k, t) \<Rightarrow> chosen a ids k t"
  proof (cases existing)
    case None
    then show ?thesis
      using r e append_desc_ok [OF r(1), of "\<lparr>ed_attr = a, ed_name = name, ed_ids = [], ed_format = None\<rparr>"]
      unfolding chooseDescriptor_def bindA_getA id_apply
      by (auto simp: act_simps chosen_def not_le)
  next
    case (Some k)
    then have k: "k < length (rd_attrs r)" "attrsCompatible (ed_attr (rd_attrs r ! k)) a" using e by auto
    have "reader_ok (update_desc k (ed_name_update (\<lambda>_. name)) r)"
      by (rule update_desc_ok [OF r(1) k(1)]) simp_all
    then show ?thesis
      using r e k Some unfolding chooseDescriptor_def bindA_getA id_apply
      by (auto simp: act_simps chosen_def update_desc_def)
  qed
qed

lemma length_AList_update_new: "map_of xs k = None \<Longrightarrow> length (AList.update k v xs) = Suc (length xs)"
  by (induction xs) (auto split: if_splits)

lemma update_same: "map_of xs k = Some v \<Longrightarrow> distinct (map fst xs) \<Longrightarrow> AList.update k v xs = xs"
  by (induction xs) (auto split: if_splits simp: map_of_eq_None_iff)

lemma byID_unchanged: "f (rd_byID r) = rd_byID r \<Longrightarrow> rd_byID_update f r = r"
  by (cases r) simp

lemma addID_new:
  assumes r: "reader_ok r" "k < length (rd_attrs r)" and new: "map_of (rd_byID r) i = None"
    and lim: "int (length (rd_byID r)) < lm_MaxIDs (rd_limits r)"
  shows "reader_ok (update_desc k (ed_ids_update (\<lambda>ids. ids @ [i])) r\<lparr>rd_byID := AList.update i k (rd_byID r)\<rparr>)"
    (is "reader_ok ?s")
proof -
  let ?d = "ed_ids_update (\<lambda>ids. ids @ [i]) (rd_attrs r ! k)"
  have t: "table_ok r" and l: "layout_ok r" and b: "bounds_ok r" using r(1) by (simp_all add: reader_ok_def)
  have attrs: "rd_attrs ?s = (rd_attrs r)[k := ?d]" and byID: "rd_byID ?s = AList.update i k (rd_byID r)"
    by (simp_all add: update_desc_def)
  have fresh: "i \<notin> set (ed_ids (rd_attrs r ! j))" if "j < length (rd_attrs r)" for j
    using t new that by (auto simp: table_ok_def)
  have "table_ok ?s"
    unfolding table_ok_def attrs byID update_conv' length_list_update
  proof (intro conjI allI ballI)
    show "distinct (map fst (AList.update i k (rd_byID r)))"
      using t by (simp add: table_ok_def distinct_update)
    fix j m
    show "((map_of (rd_byID r))(i \<mapsto> k)) j = Some m \<longleftrightarrow>
        m < length (rd_attrs r) \<and> j \<in> set (ed_ids ((rd_attrs r)[k := ?d] ! m))"
      using t r(2) fresh [of m] by (cases "m = k") (auto simp: table_ok_def nth_list_update)
  next
    fix d assume "d \<in> set ((rd_attrs r)[k := ?d])"
    then show "distinct (ed_ids d)"
      using t r(2) fresh [OF r(2)] set_update_subset_insert [of "rd_attrs r" k ?d] by (auto simp: table_ok_def)
  qed
  moreover have "layout_ok ?s"
    unfolding update_desc_eq
    by (simp, rule layout_ok_attrs [OF l]) (rule set_update_image [OF r(2)], simp_all)
  moreover have "bounds_ok ?s"
    using b lim new by (simp add: bounds_ok_def update_desc_def length_AList_update_new)
  ultimately show ?thesis by (simp add: reader_ok_def)
qed

lemma addID_runs:
  assumes "i \<in> set ids"
  shows "perf.runs (chosen a ids k) (addID k i) (\<lambda>_ r. chosen a ids k r \<and> map_of (rd_byID r) i = Some k)"
  unfolding perf.runs_def
proof (intro allI impI)
  fix r assume c: "chosen a ids k r"
  then have r: "reader_ok r" "k < length (rd_attrs r)" and i: "map_of (rd_byID r) i = None \<or> map_of (rd_byID r) i = Some k"
    using assms by (auto simp: chosen_def)
  have t: "table_ok r" and l: "layout_ok r" and b: "bounds_ok r" using r(1) by (simp_all add: reader_ok_def)
  show "case addID k i r of (Inl Fault, t) \<Rightarrow> False | (Inl (Fail e), t) \<Rightarrow> reader_ok t
      | (Inr x, t) \<Rightarrow> chosen a ids k t \<and> map_of (rd_byID t) i = Some k"
  proof (cases "i \<in> set (ed_ids (rd_attrs r ! k))")
    case True
    then have "map_of (rd_byID r) i = Some k" using t r(2) by (simp add: table_ok_def)
    then show ?thesis
      using True c t update_same [of "rd_byID r" i k] unfolding addID_def bindA_getA id_apply
      by (simp add: act_simps table_ok_def byID_unchanged)
  next
    case False
    then have new: "map_of (rd_byID r) i = None" using t r(2) i by (auto simp: table_ok_def)
    let ?s = "update_desc k (ed_ids_update (\<lambda>ids. ids @ [i])) r\<lparr>rd_byID := AList.update i k (rd_byID r)\<rparr>"
    have "chosen a ids k ?s \<and> map_of (rd_byID ?s) i = Some k" if lim: "\<not> int (length (rd_byID r)) \<ge> lm_MaxIDs (rd_limits r)"
      using addID_new [OF r new] lim c by (auto simp: chosen_def update_desc_def update_conv' nth_list_update)
    then show ?thesis
      using False r unfolding addID_def bindA_getA id_apply
      by (auto simp: act_simps)
  qed
qed

lemma addIDs_runs:
  "set ids \<subseteq> set all \<Longrightarrow>
   perf.runs (chosen a all k) (forA (addID k) ids)
     (\<lambda>_ r. chosen a all k r \<and> (\<forall>i\<in>set ids. map_of (rd_byID r) i = Some k))"
proof (induction ids)
  case Nil
  then show ?case by (simp add: perf.runs_ok)
next
  case (Cons i ids)
  let ?P = "\<lambda>r. chosen a all k r \<and> map_of (rd_byID r) i = Some k"
  have stays: "map_of (rd_byID t) i = Some k"
    if "addID k j s = (Inr x, t)" "map_of (rd_byID s) i = Some k" for j s x t
    using that by (auto simp: addID_def act_simps update_conv' update_desc_def split: if_splits)
  have keep: "perf.runs ?P (addID k j) (\<lambda>_. ?P)" if "j \<in> set all" for j
    by (rule perf.runs_weaken [OF perf.runs_also
          [OF addID_runs [OF that], where R = "\<lambda>_ r. map_of (rd_byID r) i = Some k"]])
       (use stays in auto)
  have "perf.runs ?P (forA (addID k) ids) (\<lambda>_. ?P)"
    using Cons.prems by (intro perf.runs_for keep) auto
  from perf.runs_conj [OF this Cons.IH]
  have "perf.runs ?P (forA (addID k) ids)
      (\<lambda>_ r. chosen a all k r \<and> (\<forall>i\<in>set (i # ids). map_of (rd_byID r) i = Some k))"
    by (rule perf.runs_weaken) (use Cons.prems in auto)
  then show ?case
    using Cons.prems unfolding forA.simps by (intro perf.runs_bind [OF addID_runs]) auto
qed

lemma addDescriptor_runs:
  "perf.runs reader_ok (addDescriptor a name ids)
     (\<lambda>_ r. reader_ok r \<and> (\<forall>i\<in>set ids. \<exists>d. lookup_desc r i = Some d \<and> attrsCompatible (ed_attr d) a))"
proof -
  let ?fits = "\<lambda>_ r. reader_ok r \<and> attr_fits r a"
  have found: "perf.runs (\<lambda>s. s = r \<and> reader_ok r \<and> attr_fits r a) (liftA (findExisting r a ids None))
      (\<lambda>e s. reader_ok s \<and> attr_fits s a \<and> findExisting s a ids None = Inr e)" for r
    using findExisting_ok(1) [of r a ids None] by (auto intro!: perf.runs_lift)
  have choose: "perf.runs (\<lambda>r. reader_ok r \<and> attr_fits r a)
      (bindA (getA id) (\<lambda>r. bindA (liftA (findExisting r a ids None)) (\<lambda>existing.
         bindA (chooseDescriptor a name existing) (\<lambda>k. forA (addID k) ids))))
      (\<lambda>_ r. reader_ok r \<and> (\<forall>i\<in>set ids. \<exists>d. lookup_desc r i = Some d \<and> attrsCompatible (ed_attr d) a))"
  proof (rule perf.runs_bind [where R = "\<lambda>r s. s = r \<and> reader_ok r \<and> attr_fits r a"])
    fix r
    show "perf.runs (\<lambda>s. s = r \<and> reader_ok r \<and> attr_fits r a)
      (bindA (liftA (findExisting r a ids None)) (\<lambda>existing.
         bindA (chooseDescriptor a name existing) (\<lambda>k. forA (addID k) ids)))
      (\<lambda>_ r. reader_ok r \<and> (\<forall>i\<in>set ids. \<exists>d. lookup_desc r i = Some d \<and> attrsCompatible (ed_attr d) a))"
      by (rule perf.runs_bind [OF found], rule perf.runs_bind [OF chooseDescriptor_runs],
          rule perf.runs_weaken [OF addIDs_runs]) (auto simp: chosen_def lookup_desc_def)
  qed (auto intro: perf.runs_get)
  show ?thesis
    unfolding addDescriptor_def
    by (rule perf.runs_bind [OF runs_checkClock], rule perf.runs_bind [OF runs_checkLookup],
        rule perf.runs_bind [OF runs_checkSuffix], rule choose)
qed

text \<open>
  Adding an attribute with its name and IDs keeps the table of descriptors consistent, whether it
  succeeds or fails half way: no ID belongs to two descriptors, every descriptor agrees with the
  sample and suffix layout the reader uses, and the limits on attributes, IDs and metadata hold. It
  never panics, and after success every one of the IDs finds a descriptor whose attribute is
  compatible with the one added.
\<close>

theorem addDescriptor_table:
  assumes "reader_ok r"
  shows "reader_ok (snd (addDescriptor a name ids r)) \<and> fst (addDescriptor a name ids r) \<noteq> Inl Fault \<and>
    (fst (addDescriptor a name ids r) = Inr () \<longrightarrow>
       (\<forall>i\<in>set ids. \<exists>d. lookup_desc (snd (addDescriptor a name ids r)) i = Some d \<and> attrsCompatible (ed_attr d) a))"
  using perf.runs_safe [OF addDescriptor_runs assms] perf.runs_Fail [OF addDescriptor_runs assms]
    perf.runs_Inr [OF addDescriptor_runs assms] 
  by (cases "addDescriptor a name ids r") (metis failure.exhaust fst_conv obj_sumE snd_conv)


section \<open>A new reader\<close>

lemma newReader_ok: "limits_ok limits \<Longrightarrow> reader_ok (newReader opts limits)"
  by (simp add: newReader_def reader_ok_def table_ok_def layout_ok_def bounds_ok_def limits_ok_def)

definition demo_limits :: perf_limits where
  "demo_limits =
     \<lparr>lm_MaxFeatureBytes = 4096, lm_MaxMetadataBytes = 4096, lm_MaxAttrs = 4, lm_MaxIDs = 8, lm_MaxRecordBytes = 65535,
      lm_MaxReadValues = 8, lm_MaxCallchain = 8, lm_MaxFormatBytes = 4096, lm_MaxFormatFields = 16,
      lm_MaxArrayElements = 16, lm_MaxPostRecordBytes = 4096\<rparr>"

definition demo_options :: perf_options where
  "demo_options = \<lparr>po_Limits = demo_limits, po_KeepMetadataRecords = False\<rparr>"

lemma demo_reader_ok: "reader_ok (newReader demo_options demo_limits)"
  by (rule newReader_ok) (simp add: demo_limits_def limits_ok_def)

theorem addDescriptor_table_witness:
  "fst (addDescriptor demo_attr ''p:e'' [7, 9] (newReader demo_options demo_limits)) \<noteq> Inl Fault"
  using addDescriptor_table [OF demo_reader_ok, of demo_attr "''p:e''" "[7, 9]"] by blast


section \<open>The other operations on the table\<close>

lemma safe_read_words: "i + 8 * n \<le> length data \<Longrightarrow> safe (read_words order data i n)"
  by (induction n arbitrary: i) (auto intro!: safe_bindR safe_words_at)

lemma safe_attr_upto: "(n \<le> length data \<Longrightarrow> safe (f a)) \<Longrightarrow> safe (attr_upto n data f a)"
  by (simp add: attr_upto_def)

lemma safe_attrHead: "64 \<le> length data \<Longrightarrow> safe (attrHead order bo sz data)"
  unfolding attrHead_def Let_def by (intro safe_rules safe_words_at safe_slice) auto

lemma safe_attrTail: "safe (attrTail order data a)"
  unfolding attrTail_def by (intro safe_rules safe_attr_upto safe_words_at) auto

lemma safe_parseAttr: "safe (parseAttr order bo raw)"
  unfolding parseAttr_def Let_def
  by (intro safe_rules safe_words_at safe_slice safe_attrHead safe_attrTail)
     (auto simp: not_less word_le_nat_alt slice_Inr simp del: if_split_asm)

lemma parseClockData_runs: "perf.runs reader_ok (parseClockData data) (\<lambda>_. reader_ok)"
  unfolding parseClockData_def
  by (intro perf.runs_if perf.runs_fail perf.runs_bind_get perf.runs_bind_lift perf.runs_mod safe_words_at) auto

lemma addDescriptor_keeps: "perf.runs reader_ok (addDescriptor a name ids) (\<lambda>_. reader_ok)"
  by (rule perf.runs_weaken [OF addDescriptor_runs]) auto

lemma eventDescEntry_runs:
  assumes "uint attrSize \<le> MaxInt h"
  shows "perf.runs reader_ok (eventDescEntry h data attrSize pos) (\<lambda>_. reader_ok)"
proof -
  define n where "n = unat attrSize"
  have a: "to_int h (uint attrSize) = int n" using assms by (simp add: n_def)
  show ?thesis
    unfolding eventDescEntry_def Let_def a
    by (intro perf.runs_if perf.runs_fail perf.runs_bind_get perf.runs_bind_lift perf.runs_ok safe_words_at
        safe_sliceI safe_parseAttr safe_slice safe_read_words perf.runs_bind [OF addDescriptor_keeps]
        perf.runs_case_option)
       (auto simp: not_less)
qed

lemma eventDescEntries_runs:
  "uint attrSize \<le> MaxInt h \<Longrightarrow> perf.runs reader_ok (eventDescEntries h data attrSize n pos) (\<lambda>_. reader_ok)"
proof (induction n arbitrary: pos)
  case (Suc n)
  show ?case
    unfolding eventDescEntries.simps
    by (rule perf.runs_bind [OF eventDescEntry_runs [OF Suc.prems] Suc.IH [OF Suc.prems]])
qed (simp add: perf.runs_ok)

lemma parseEventDesc_runs: "perf.runs reader_ok (parseEventDesc h data) (\<lambda>_. reader_ok)"
  unfolding parseEventDesc_def
  by (intro perf.runs_if perf.runs_fail perf.runs_bind_get perf.runs_bind_lift safe_words_at eventDescEntries_runs) auto

end
