(* ===== verification/PerfEventDesc.thy ===== *)
theory PerfEventDesc imports PerfTable begin

text \<open>
  The EVENT_DESC feature of \<open>perfdata/attr.go\<close> against its layout in a file: reading back what perf
  writes, and the effect of the narrowed limit on IDs.
\<close>


section \<open>The EVENT_DESC feature round trips\<close>

text \<open>An entry as perf writes it; the name may be padded with more NULs.\<close>

record desc_entry =
  de_attr :: attr
  de_name :: string
  de_padding :: bytes
  de_ids :: "u64 list"

definition name_bytes :: "desc_entry \<Rightarrow> bytes" where
  "name_bytes e = to_bytes (de_name e) @ 0 # de_padding e"

definition entry_bytes :: "endian \<Rightarrow> byte_order \<Rightarrow> desc_entry \<Rightarrow> bytes" where
  "entry_bytes order bo e =
     attr_bytes order bo (de_attr e) @ put32 order (of_nat (length (de_ids e))) @
     put32 order (of_nat (length (name_bytes e))) @ name_bytes e @ concat (map (put64 order) (de_ids e))"

definition entry_fits :: "endian \<Rightarrow> byte_order \<Rightarrow> int \<Rightarrow> u32 \<Rightarrow> desc_entry \<Rightarrow> bool" where
  "entry_fits order bo maxIDs sz e \<longleftrightarrow>
     attr_written order bo (de_attr e) \<and> at_Size (de_attr e) = sz \<and> 0 \<notin> set (to_bytes (de_name e)) \<and>
     length (name_bytes e) < 2 ^ 32 \<and> int (length (de_ids e)) \<le> maxIDs \<and> maxIDs < 2 ^ 32"

definition event_desc_bytes :: "endian \<Rightarrow> byte_order \<Rightarrow> u32 \<Rightarrow> desc_entry list \<Rightarrow> bytes" where
  "event_desc_bytes order bo sz es =
     put32 order (of_nat (length es)) @ put32 order sz @ concat (map (entry_bytes order bo) es)"

lemma length_put64s: "length (concat (map (put64 order) ids)) = 8 * length ids"
  by (induction ids) simp_all

lemma read_words_append:
  "n = length pre \<Longrightarrow> read_words order (pre @ concat (map (put64 order) ids) @ post) n (length ids) = Inr ids"
proof (induction ids arbitrary: pre n)
  case (Cons i ids)
  have "read_words order ((pre @ put64 order i) @ concat (map (put64 order) ids) @ post) (n + 8) (length ids) = Inr ids"
    using Cons.prems by (intro Cons.IH) simp
  then show ?case
    using Cons.prems words_at_append(3) [of n pre order i "concat (map (put64 order) ids) @ post"] by simp
qed simp

lemma keeps_addDescriptor:
  "keeps rd_order (addDescriptor a name ids)" "keeps rd_byteOrder (addDescriptor a name ids)"
  "keeps rd_limits (addDescriptor a name ids)"
  unfolding addDescriptor_def checkClock_def checkLookup_def checkSuffix_def chooseDescriptor_def addID_def Let_def
    update_desc_def
  by (intro keeps_bind keeps_basic keeps_if keeps_mod keeps_case_option keeps_for, simp_all)+

text \<open>The reads of an entry, up to the check of its counts.\<close>

lemma eventDescEntry_head:
  assumes w: "attr_written (rd_order r) (rd_byteOrder r) (de_attr e)" "at_Size (de_attr e) = sz" "uint sz \<le> MaxInt h"
    and l: "length (de_ids e) < 2 ^ 32" "length (name_bytes e) < 2 ^ 32" and n: "n = length pre"
    and k: "k = length (attr_bytes (rd_order r) (rd_byteOrder r) (de_attr e))"
    and data: "data = pre @ entry_bytes (rd_order r) (rd_byteOrder r) e @ post"
  shows "eventDescEntry h data sz n r =
    (if int (length (de_ids e)) > lm_MaxIDs (rd_limits r) mod 2 ^ 32 then (fail ErrInvalid, r)
     else
       (let pos = n + k + 8 + length (name_bytes e) in
        case byteIndex (name_bytes e) 0 of
          None \<Rightarrow> (fail ErrInvalid, r)
        | Some nul \<Rightarrow>
            bindA (liftA (read_words (rd_order r) data pos (length (de_ids e)))) (\<lambda>ids.
            bindA (addDescriptor (de_attr e) (of_bytes (take nul (name_bytes e))) ids) (\<lambda>_.
            okA (pos + 8 * length (de_ids e)))) r))"
proof -
  let ?o = "rd_order r" and ?b = "rd_byteOrder r"
  let ?a = "de_attr e"
  let ?rest = "put32 ?o (of_nat (length (de_ids e))) @ put32 ?o (of_nat (length (name_bytes e))) @ name_bytes e @
     concat (map (put64 ?o) (de_ids e)) @ post"
  have d: "data = pre @ attr_bytes ?o ?b ?a @ ?rest" by (simp add: data entry_bytes_def)
  have "uint sz = int k"
    using w by (subst uint_nat) (simp add: k attr_written_def)
  with w(3) have u: "to_int h (uint sz) = int k" by simp
  have small: "unat (of_nat (length (de_ids e)) :: u32) = length (de_ids e)"
      "unat (of_nat (length (name_bytes e)) :: u32) = length (name_bytes e)"
    using l by (simp_all add: unat_of_nat)
  have small': "uint (of_nat (length (de_ids e)) :: u32) = int (length (de_ids e))"
    using small(1) by (metis uint_nat)
  have at: "sliceI data (int n) (int n + int k) = Inr (attr_bytes ?o ?b ?a)"
    unfolding d using k n by (subst sliceI_in) (simp_all del: length_attr_bytes)
  have pa: "parseAttr ?o ?b (attr_bytes ?o ?b ?a) = Inr ?a"
    using parseAttr_written [OF w(1), of "[]"] by simp
  have name: "slice data (n + k + 8) (n + k + 8 + length (name_bytes e)) = Inr (name_bytes e)"
    unfolding d using n k by (subst slice_in) (simp_all del: length_attr_bytes)
  have words: "u32_at ?o data (n + k) = Inr (of_nat (length (de_ids e)))"
      "u32_at ?o data (n + k + 4) = Inr (of_nat (length (name_bytes e)))"
    unfolding d using n k by (simp_all del: length_attr_bytes)
  have lens: "length data = n + k + 8 + length (name_bytes e) + 8 * length (de_ids e) + length post"
    unfolding d using n k by (simp add: length_put64s del: length_attr_bytes)
  have cut: "nat (int n + int k) = n + k" by simp
  show ?thesis
    unfolding eventDescEntry_def Let_def u lens cut bindA_getA id_apply
    using at pa name words
    by (simp add: act_simps small small' split: option.split)
qed

lemma eventDescEntry_written:
  assumes e: "entry_fits (rd_order r) (rd_byteOrder r) (lm_MaxIDs (rd_limits r)) sz e" "uint sz \<le> MaxInt h"
    and n: "n = length pre"
  shows "eventDescEntry h (pre @ entry_bytes (rd_order r) (rd_byteOrder r) e @ post) sz n r =
    bindA (addDescriptor (de_attr e) (de_name e) (de_ids e))
      (\<lambda>_. okA (n + length (entry_bytes (rd_order r) (rd_byteOrder r) e))) r"
proof -
  let ?o = "rd_order r" and ?b = "rd_byteOrder r"
  let ?k = "length (attr_bytes ?o ?b (de_attr e))"
  have ids: "read_words ?o (pre @ entry_bytes ?o ?b e @ post) (n + ?k + 8 + length (name_bytes e)) (length (de_ids e))
      = Inr (de_ids e)"
    using read_words_append [of "n + ?k + 8 + length (name_bytes e)"
        "pre @ attr_bytes ?o ?b (de_attr e) @ put32 ?o (of_nat (length (de_ids e))) @
         put32 ?o (of_nat (length (name_bytes e))) @ name_bytes e" ?o "de_ids e" post] n
    by (simp add: entry_bytes_def del: length_attr_bytes)
  have nul: "byteIndex (name_bytes e) 0 = Some (length (de_name e))"
    using e(1) byteIndex_append [of 0 "to_bytes (de_name e)"] by (simp add: entry_fits_def name_bytes_def)
  have "lm_MaxIDs (rd_limits r) mod 2 ^ 32 = lm_MaxIDs (rd_limits r)"
    using e(1) by (intro mod_pos_pos_trivial) (auto simp: entry_fits_def)
  then have lim: "\<not> int (length (de_ids e)) > lm_MaxIDs (rd_limits r) mod 2 ^ 32"
    using e(1) by (simp add: entry_fits_def)
  have chars: "of_bytes (take (length (de_name e)) (name_bytes e)) = de_name e"
    by (simp add: name_bytes_def)
  have len: "length (entry_bytes ?o ?b e) = ?k + 8 + length (name_bytes e) + 8 * length (de_ids e)"
    by (simp add: entry_bytes_def length_put64s)
  have "eventDescEntry h (pre @ entry_bytes ?o ?b e @ post) sz n r =
    (if int (length (de_ids e)) > lm_MaxIDs (rd_limits r) mod 2 ^ 32 then (fail ErrInvalid, r)
     else
       (let pos = n + ?k + 8 + length (name_bytes e) in
        case byteIndex (name_bytes e) 0 of
          None \<Rightarrow> (fail ErrInvalid, r)
        | Some nul \<Rightarrow>
            bindA (liftA (read_words (rd_order r) (pre @ entry_bytes ?o ?b e @ post) pos (length (de_ids e)))) (\<lambda>ids.
            bindA (addDescriptor (de_attr e) (of_bytes (take nul (name_bytes e))) ids) (\<lambda>_.
            okA (pos + 8 * length (de_ids e)))) r))"
    by (rule eventDescEntry_head [OF _ _ e(2) _ _ n refl refl]) (use e(1) in \<open>auto simp: entry_fits_def\<close>)
  then show ?thesis
    using lim nul ids chars by (simp add: Let_def act_simps len add.assoc del: length_attr_bytes)
qed

lemma eventDescEntries_written:
  assumes "\<forall>e\<in>set es. entry_fits (rd_order r) (rd_byteOrder r) (lm_MaxIDs (rd_limits r)) sz e" "uint sz \<le> MaxInt h"
  shows "n = length pre \<Longrightarrow>
    eventDescEntries h (pre @ concat (map (entry_bytes (rd_order r) (rd_byteOrder r)) es)) sz (length es) n r =
    forA (\<lambda>e. addDescriptor (de_attr e) (de_name e) (de_ids e)) es r"
  using assms
proof (induction es arbitrary: pre n r)
  case (Cons e es)
  let ?o = "rd_order r" and ?b = "rd_byteOrder r"
  let ?tail = "concat (map (entry_bytes ?o ?b) es)"
  have step: "eventDescEntry h (pre @ entry_bytes ?o ?b e @ ?tail) sz n r =
      bindA (addDescriptor (de_attr e) (de_name e) (de_ids e)) (\<lambda>_. okA (n + length (entry_bytes ?o ?b e))) r"
    using Cons.prems by (intro eventDescEntry_written) simp_all
  obtain x t where t: "addDescriptor (de_attr e) (de_name e) (de_ids e) r = (x, t)"
    by fastforce
  note k = keepsD [OF keeps_addDescriptor(1) t] keepsD [OF keeps_addDescriptor(2) t] keepsD [OF keeps_addDescriptor(3) t]
  have "eventDescEntries h ((pre @ entry_bytes ?o ?b e) @ concat (map (entry_bytes (rd_order t) (rd_byteOrder t)) es)) sz
      (length es) (n + length (entry_bytes ?o ?b e)) t =
      forA (\<lambda>e. addDescriptor (de_attr e) (de_name e) (de_ids e)) es t"
    by (rule Cons.IH) (use Cons.prems k in auto)
  then show ?case
    using step t k by (cases x) (simp_all add: act_simps)
qed (simp add: act_simps)

text \<open>
  C27. The EVENT_DESC feature is taken apart as it was put together: for a feature that lists
  attributes with their names and IDs, in either byte order, \<open>parseEventDesc\<close> adds exactly these
  descriptors, in order, stopping at the first that is refused.
\<close>

theorem parseEventDesc_written:
  assumes "\<forall>e\<in>set es. entry_fits (rd_order r) (rd_byteOrder r) (lm_MaxIDs (rd_limits r)) sz e"
    and "int (length es) \<le> lm_MaxAttrs (rd_limits r)" "length es < 2 ^ 32" "64 \<le> sz" "uint sz \<le> MaxInt h"
  shows "parseEventDesc h (event_desc_bytes (rd_order r) (rd_byteOrder r) sz es) r =
    forA (\<lambda>e. addDescriptor (de_attr e) (de_name e) (de_ids e)) es r"
proof -
  let ?o = "rd_order r" and ?b = "rd_byteOrder r"
  have small: "unat (of_nat (length es) :: u32) = length es" using assms(3) by (simp add: unat_of_nat)
  then have small': "uint (of_nat (length es) :: u32) = int (length es)" by (metis uint_nat)
  have "eventDescEntries h ((put32 ?o (of_nat (length es)) @ put32 ?o sz) @ concat (map (entry_bytes ?o ?b) es)) sz (length es) 8 r =
      forA (\<lambda>e. addDescriptor (de_attr e) (de_name e) (de_ids e)) es r"
    using assms by (intro eventDescEntries_written) simp_all
  then show ?thesis
    using assms small small' unfolding parseEventDesc_def event_desc_bytes_def
    by (simp add: act_simps, meson linorder_not_less)
qed

text \<open>
  C40. The limit on IDs is narrowed to 32 bits before it is compared with the number of IDs of an entry
  (\<open>nids > uint32(r.limits.MaxIDs)\<close>): with the limit 4294967296 a well-formed entry with any ID at all
  is refused.
\<close>

theorem parseEventDesc_wrapped_limit:
  assumes "lm_MaxIDs (rd_limits r) = 2 ^ 32" "attr_written (rd_order r) (rd_byteOrder r) (de_attr e)"
    and "de_ids e \<noteq> []" "length (de_ids e) < 2 ^ 32" "length (name_bytes e) < 2 ^ 32" "uint (at_Size (de_attr e)) \<le> MaxInt h"
  shows "eventDescEntry h (entry_bytes (rd_order r) (rd_byteOrder r) e) (at_Size (de_attr e)) 0 r = (fail ErrInvalid, r)"
  using assms eventDescEntry_head [of r e "at_Size (de_attr e)" h 0 "[]" _ _ "[]"] by simp

definition demo_entry :: desc_entry where
  "demo_entry = \<lparr>de_attr = demo_attr, de_name = ''p:e'', de_padding = [0], de_ids = [7, 9]\<rparr>"

definition demo_big_reader :: "int \<Rightarrow> reader" where
  "demo_big_reader maxIDs = newReader demo_options (demo_limits\<lparr>lm_MaxIDs := maxIDs\<rparr>)
     \<lparr>rd_order := BigEndian, rd_byteOrder := ByteOrderBig\<rparr>"

lemma demo_attr_written: "attr_written BigEndian ByteOrderBig demo_attr" "at_Size demo_attr = 136"
  by (simp_all add: attr_written_def demo_attr_def zero_attr_def has_def attr_bytes_def attr_head_bytes_def Let_def)

lemma demo_entry_fits: "entry_fits BigEndian ByteOrderBig 8 136 demo_entry"
  using demo_attr_written by (simp add: entry_fits_def demo_entry_def name_bytes_def to_bytes_def)

theorem parseEventDesc_written_witness:
  "parseEventDesc \<lparr>native = LittleEndian, int64 = True, letter_rune = \<lambda>_. False, digit_rune = \<lambda>_. False\<rparr>
     (event_desc_bytes BigEndian ByteOrderBig 136 [demo_entry]) (demo_big_reader 8) =
   bindA (addDescriptor demo_attr ''p:e'' [7, 9]) (\<lambda>_. okA ()) (demo_big_reader 8)"
  using parseEventDesc_written [of "[demo_entry]" "demo_big_reader 8" 136 "\<lparr>native = LittleEndian, int64 = True, letter_rune = \<lambda>_. False, digit_rune = \<lambda>_. False\<rparr>"]
    demo_entry_fits
  by (simp add: demo_big_reader_def newReader_def demo_limits_def MaxInt_def demo_entry_def)

theorem parseEventDesc_wrapped_limit_witness:
  "eventDescEntry \<lparr>native = LittleEndian, int64 = True, letter_rune = \<lambda>_. False, digit_rune = \<lambda>_. False\<rparr> (entry_bytes BigEndian ByteOrderBig demo_entry) 136 0
     (demo_big_reader (2 ^ 32)) = (fail ErrInvalid, demo_big_reader (2 ^ 32))"
  using parseEventDesc_wrapped_limit [of "demo_big_reader (2 ^ 32)" demo_entry "\<lparr>native = LittleEndian, int64 = True, letter_rune = \<lambda>_. False, digit_rune = \<lambda>_. False\<rparr>"]
    demo_attr_written
  by (simp add: demo_big_reader_def newReader_def demo_limits_def MaxInt_def demo_entry_def name_bytes_def)


end
