(* ===== verification/PerfSample.thy ===== *)
theory PerfSample imports PerfTable GoText begin

text \<open>
  Package \<open>perfdata\<close>, the parts of \<open>records.go\<close> that take the bytes of a record apart: the cursor,
  \<open>parseSample\<close> with \<open>parseRead\<close>, and the suffix that \<open>sample_id_all\<close> puts behind other records. A
  cursor operation is an operation on the position; the bytes and the byte order are its parameters.
\<close>


section \<open>The cursor\<close>

type_synonym 'a cursor_op = "(nat, 'a) act"

definition cursor_u32 :: "endian \<Rightarrow> bytes \<Rightarrow> u32 cursor_op" where
  "cursor_u32 order data =
     bindA (getA id) (\<lambda>pos.
     if length data < pos + 4 then failA ErrTruncated
     else bindA (liftA (u32_at order data pos)) (\<lambda>v. bindA (modA (\<lambda>pos. pos + 4)) (\<lambda>_. okA v)))"

definition cursor_u64 :: "endian \<Rightarrow> bytes \<Rightarrow> u64 cursor_op" where
  "cursor_u64 order data =
     bindA (getA id) (\<lambda>pos.
     if length data < pos + 8 then failA ErrTruncated
     else bindA (liftA (u64_at order data pos)) (\<lambda>v. bindA (modA (\<lambda>pos. pos + 8)) (\<lambda>_. okA v)))"

definition cursor_pair32 :: "endian \<Rightarrow> bytes \<Rightarrow> (u32 \<times> u32) cursor_op" where
  "cursor_pair32 order data =
     bindA (cursor_u32 order data) (\<lambda>a. bindA (cursor_u32 order data) (\<lambda>b. okA (a, b)))"

definition cursor_optional64 :: "endian \<Rightarrow> bytes \<Rightarrow> u64 option cursor_op" where
  "cursor_optional64 order data = bindA (cursor_u64 order data) (\<lambda>v. okA (Some v))"

text \<open>\<open>if err == nil && bit is set { v, err = c.op() }\<close>; the value stays at its zero otherwise.\<close>

definition whenA :: "bool \<Rightarrow> 'a \<Rightarrow> ('s, 'a) act \<Rightarrow> ('s, 'a) act" where
  "whenA c zero m = (if c then m else okA zero)"

fun repeatA :: "nat \<Rightarrow> ('s, 'a) act \<Rightarrow> ('s, 'a list) act" where
  "repeatA 0 m = okA []"
| "repeatA (Suc n) m = bindA m (\<lambda>x. bindA (repeatA n m) (\<lambda>xs. okA (x # xs)))"


section \<open>Samples\<close>

record envelope =
  env_Timestamp :: timestamp
  env_CPU :: "u32 option"
  env_PID :: "u32 option"
  env_TID :: "u32 option"

definition zero_sample :: sample_details where
  "zero_sample = \<lparr>sd_Identifier = None, sd_IP = None, sd_Address = None, sd_ID = None, sd_StreamID = None,
     sd_Period = None, sd_TimeEnabled = None, sd_TimeRunning = None, sd_Read = [], sd_Callchain = [],
     sd_Raw = [], sd_TrailingSampleData = [], sd_UnsupportedSampleBits = 0\<rparr>"

text \<open>The members of a counter behind its value: its ID and its lost count.\<close>

definition readRest :: "endian \<Rightarrow> bytes \<Rightarrow> u64 \<Rightarrow> u64 \<Rightarrow> read_value cursor_op" where
  "readRest order data fmt v =
     bindA (whenA (has fmt 4) None (cursor_optional64 order data)) (\<lambda>i.
     bindA (whenA (has fmt 16) None (cursor_optional64 order data)) (\<lambda>lost.
     okA \<lparr>rv_Value = v, rv_ID = i, rv_Lost = lost\<rparr>))"

definition parseRead :: "perf_limits \<Rightarrow> endian \<Rightarrow> bytes \<Rightarrow> u64 \<Rightarrow> sample_details \<Rightarrow> sample_details cursor_op" where
  "parseRead limits order data fmt s =
     (if fmt AND NOT 0x1f \<noteq> 0 then failA ErrUnsupported
      else
        let grouped = has fmt 8 in
        bindA (whenA grouped 1 (cursor_u64 order data)) (\<lambda>count.
        bindA (getA (\<lambda>pos. length data - pos)) (\<lambda>remaining.
        if uint count > lm_MaxReadValues limits \<or> unat count > remaining div 8 then failA ErrLimit
        else
          bindA (whenA (\<not> grouped) 0 (cursor_u64 order data)) (\<lambda>single.
          bindA (whenA (has fmt 1) None (cursor_optional64 order data)) (\<lambda>enabled.
          bindA (whenA (has fmt 2) None (cursor_optional64 order data)) (\<lambda>running.
          bindA (repeatA (unat count)
                  (bindA (whenA grouped single (cursor_u64 order data)) (readRest order data fmt))) (\<lambda>vs.
          okA (s\<lparr>sd_Read := vs, sd_TimeEnabled := enabled, sd_TimeRunning := running\<rparr>))))))))"

abbreviation (input) supportedBits :: u64 where
  "supportedBits \<equiv> SampleIdentifier OR SampleIP OR SampleTID OR SampleTime OR SampleAddr OR SampleID OR
     SampleStreamID OR SampleCPU OR SamplePeriod OR SampleRead OR SampleCallchain OR SampleRaw"

text \<open>The members up to the period.\<close>

definition parseFixed :: "endian \<Rightarrow> clock_info \<Rightarrow> bytes \<Rightarrow> u64 \<Rightarrow> (sample_details \<times> envelope) cursor_op" where
  "parseFixed order clock data type =
     bindA (whenA (has type SampleIdentifier) None (cursor_optional64 order data)) (\<lambda>identifier.
     bindA (whenA (has type SampleIP) None (cursor_optional64 order data)) (\<lambda>ip.
     bindA (whenA (has type SampleTID) None (bindA (cursor_pair32 order data) (\<lambda>p. okA (Some p)))) (\<lambda>tid.
     bindA (whenA (has type SampleTime) zero_timestamp
              (bindA (cursor_u64 order data) (\<lambda>v. okA (perf_timestamp clock v)))) (\<lambda>time.
     bindA (whenA (has type SampleAddr) None (cursor_optional64 order data)) (\<lambda>addr.
     bindA (whenA (has type SampleID) None (cursor_optional64 order data)) (\<lambda>i.
     bindA (whenA (has type SampleStreamID) None (cursor_optional64 order data)) (\<lambda>streamID.
     bindA (whenA (has type SampleCPU) None (bindA (cursor_pair32 order data) (\<lambda>p. okA (Some (fst p))))) (\<lambda>cpu.
     bindA (whenA (has type SamplePeriod) None (cursor_optional64 order data)) (\<lambda>period.
     okA (zero_sample\<lparr>sd_Identifier := identifier, sd_IP := ip, sd_Address := addr, sd_ID := i,
            sd_StreamID := streamID, sd_Period := period\<rparr>,
          \<lparr>env_Timestamp = time, env_CPU = cpu, env_PID = map_option fst tid, env_TID = map_option snd tid\<rparr>))))))))))"

definition parseCallchain :: "perf_limits \<Rightarrow> endian \<Rightarrow> bytes \<Rightarrow> u64 list cursor_op" where
  "parseCallchain limits order data =
     bindA (cursor_u64 order data) (\<lambda>count.
     bindA (getA (\<lambda>pos. length data - pos)) (\<lambda>remaining.
     if uint count > lm_MaxCallchain limits \<or> unat count > remaining div 8 then failA ErrLimit
     else repeatA (unat count) (cursor_u64 order data)))"

text \<open>The raw data; the position is then rounded up to a multiple of 8.\<close>

definition parseRaw :: "endian \<Rightarrow> bytes \<Rightarrow> bytes cursor_op" where
  "parseRaw order data =
     bindA (cursor_u32 order data) (\<lambda>sz.
     bindA (getA id) (\<lambda>pos.
     if unat sz > length data - pos then failA ErrTruncated
     else
       bindA (liftA (slice data pos (pos + unat sz))) (\<lambda>raw.
       bindA (modA (\<lambda>pos. (pos + unat sz + 7) div 8 * 8)) (\<lambda>_.
       bindA (getA id) (\<lambda>pos.
       if pos > length data then failA ErrTruncated else okA raw)))))"

text \<open>\<open>c.data[c.pos:]\<close>.\<close>

definition cursor_rest :: "bytes \<Rightarrow> bytes cursor_op" where
  "cursor_rest data pos = (slice_from data pos, pos)"

definition parseSample ::
  "perf_limits \<Rightarrow> endian \<Rightarrow> clock_info \<Rightarrow> bytes \<Rightarrow> attr \<Rightarrow> (sample_details \<times> envelope) result" where
  "parseSample limits order clock data a =
     fst (bindA (parseFixed order clock data (at_SampleType a)) (\<lambda>(s, e).
          bindA (whenA (has (at_SampleType a) SampleRead) s (parseRead limits order data (at_ReadFormat a) s)) (\<lambda>s.
          bindA (whenA (has (at_SampleType a) SampleCallchain) [] (parseCallchain limits order data)) (\<lambda>chain.
          bindA (whenA (has (at_SampleType a) SampleRaw) [] (parseRaw order data)) (\<lambda>raw.
          bindA (cursor_rest data) (\<lambda>trailing.
          okA (s\<lparr>sd_Callchain := chain, sd_Raw := raw, sd_TrailingSampleData := trailing,
                 sd_UnsupportedSampleBits := at_SampleType a AND NOT supportedBits\<rparr>, e)))))) 8)"


section \<open>Records the reader makes itself\<close>

definition perf_diagnostic :: "string \<Rightarrow> goerr \<Rightarrow> diagnostic" where
  "perf_diagnostic stage e =
     \<lparr>diag_Severity = SeverityError, diag_Offset = 0, diag_Stage = stage,
      diag_Message = ''record could not be decoded'', diag_Err = e\<rparr>"

definition add_diagnostic :: "diagnostic \<Rightarrow> trecord \<Rightarrow> trecord" where
  "add_diagnostic d rec = rec\<lparr>tr_Diagnostics := tr_Diagnostics rec @ [d]\<rparr>"

definition perf_record_names :: "(u32 \<times> string) list" where
  "perf_record_names =
     [(1, ''PERF_RECORD_MMAP''), (2, ''PERF_RECORD_LOST''), (3, ''PERF_RECORD_COMM''),
      (4, ''PERF_RECORD_EXIT''), (5, ''PERF_RECORD_THROTTLE''), (6, ''PERF_RECORD_UNTHROTTLE''),
      (7, ''PERF_RECORD_FORK''), (9, ''PERF_RECORD_SAMPLE''), (10, ''PERF_RECORD_MMAP2''),
      (13, ''PERF_RECORD_LOST_SAMPLES''), (14, ''PERF_RECORD_SWITCH''), (15, ''PERF_RECORD_SWITCH_CPU_WIDE''),
      (64, ''PERF_RECORD_HEADER_ATTR''), (66, ''PERF_RECORD_HEADER_TRACING_DATA''),
      (68, ''PERF_RECORD_FINISHED_ROUND''), (71, ''PERF_RECORD_AUXTRACE''),
      (80, ''PERF_RECORD_HEADER_FEATURE''), (82, ''PERF_RECORD_FINISHED_INIT'')]"

definition perfRecordName :: "u32 \<Rightarrow> string" where
  "perfRecordName type =
     (case map_of perf_record_names type of
        Some name \<Rightarrow> name
      | None \<Rightarrow> ''PERF_RECORD_'' @ format_dec (unat type))"

definition rawRecord :: "u32 \<Rightarrow> bytes \<Rightarrow> trecord" where
  "rawRecord type raw =
     \<lparr>tr_Body = RecordRaw, tr_Identity = \<lparr>id_System = ''perf'', id_Name = perfRecordName type, id_ID = 0\<rparr>,
      tr_Timestamp = zero_timestamp, tr_CPU = None, tr_PID = None, tr_TID = None, tr_Raw = raw, tr_Diagnostics = []\<rparr>"

definition corrupt :: "bytes \<Rightarrow> string \<Rightarrow> goerr \<Rightarrow> trecord" where
  "corrupt raw reason e =
     \<lparr>tr_Body = RecordCorrupt reason, tr_Identity = \<lparr>id_System = ''perf'', id_Name = ''corrupt'', id_ID = 0\<rparr>,
      tr_Timestamp = zero_timestamp, tr_CPU = None, tr_PID = None, tr_TID = None, tr_Raw = raw,
      tr_Diagnostics = [perf_diagnostic ''record'' e]\<rparr>"

definition applyEnvelope :: "trecord \<Rightarrow> envelope \<Rightarrow> trecord" where
  "applyEnvelope rec e = rec
     \<lparr>tr_Timestamp := env_Timestamp e, tr_CPU := env_CPU e, tr_PID := env_PID e, tr_TID := env_TID e\<rparr>"

text \<open>The text in front of the first NUL.\<close>

definition terminated :: "bytes \<Rightarrow> string option" where
  "terminated b = map_option (\<lambda>k. of_bytes (take k b)) (byteIndex b 0)"


section \<open>The suffix of other records\<close>

record suffix_layout =
  sl_start :: int
  sl_mask :: u64

definition suffix_size :: "u64 \<Rightarrow> nat" where
  "suffix_size bits =
     8 * length (filter (has bits) [SampleTID, SampleTime, SampleID, SampleStreamID, SampleCPU, SampleIdentifier])"

text \<open>The members the suffix of a record has, from the identifier at its end where layouts differ.\<close>

definition resolveMask :: "reader \<Rightarrow> bytes \<Rightarrow> u64 result" where
  "resolveMask r raw =
     (if rd_suffixIDAll r then
        if length raw < 16 then fail ErrTruncated
        else
          bindR (u64_at (rd_order r) raw (length raw - 8)) (\<lambda>identifier.
          case lookup_desc r identifier of
            None \<Rightarrow> fail ErrUnknownID
          | Some d \<Rightarrow>
              if \<not> at_SampleIDAll (ed_attr d) \<or> \<not> has (at_SampleType (ed_attr d)) SampleIdentifier
              then fail ErrInvalid
              else Inr (at_SampleType (ed_attr d) AND suffixBits))
      else Inr (rd_suffixMask r))"

definition resolveSuffix :: "reader \<Rightarrow> bytes \<Rightarrow> suffix_layout result" where
  "resolveSuffix r raw =
     (if \<not> rd_sampleIDAll r then Inr \<lparr>sl_start = int (length raw), sl_mask = 0\<rparr>
      else
        bindR (resolveMask r raw) (\<lambda>bits.
        let start = int (length raw) - int (suffix_size bits) in
        if start < 8 then fail ErrTruncated else Inr \<lparr>sl_start = start, sl_mask = bits\<rparr>))"

text \<open>The state of \<open>applySuffixLayout\<close>: the cursor, the record and details it fills in, the two IDs.\<close>

record suffix_state =
  ss_pos :: nat
  ss_record :: trecord
  ss_current :: record_details
  ss_id :: "u64 option"
  ss_identifier :: "u64 option"

text \<open>
  A cursor operation whose value is stored even when it failed: the value it then returns is zero.
\<close>

definition storeA :: "'a cursor_op \<Rightarrow> 'a \<Rightarrow> ('a \<Rightarrow> suffix_state \<Rightarrow> suffix_state) \<Rightarrow> (suffix_state, unit) act" where
  "storeA m zero put s =
     (case m (ss_pos s) of
        (Inr v, pos) \<Rightarrow> (Inr (), put v (s\<lparr>ss_pos := pos\<rparr>))
      | (Inl e, pos) \<Rightarrow> (Inl e, put zero (s\<lparr>ss_pos := pos\<rparr>)))"

definition pair32_first :: "endian \<Rightarrow> bytes \<Rightarrow> nat \<Rightarrow> u32 \<times> u32" where
  "pair32_first order data pos =
     (case cursor_pair32 order data pos of
        (Inr p, _) \<Rightarrow> p
      | (Inl _, _) \<Rightarrow> (case cursor_u32 order data pos of (Inr a, _) \<Rightarrow> (a, 0) | (Inl _, _) \<Rightarrow> (0, 0)))"

definition storePair ::
  "endian \<Rightarrow> bytes \<Rightarrow> (u32 \<times> u32 \<Rightarrow> suffix_state \<Rightarrow> suffix_state) \<Rightarrow> (suffix_state, unit) act" where
  "storePair order data put s =
     (case cursor_pair32 order data (ss_pos s) of
        (res, pos) \<Rightarrow>
          (case res of Inl e \<Rightarrow> Inl e | Inr _ \<Rightarrow> Inr (),
           put (pair32_first order data (ss_pos s)) (s\<lparr>ss_pos := pos\<rparr>)))"

definition suffixMembers :: "endian \<Rightarrow> clock_info \<Rightarrow> bytes \<Rightarrow> u64 \<Rightarrow> (suffix_state, unit) act" where
  "suffixMembers order clock raw bits =
     bindA (whenA (has bits SampleTID) () (storePair order raw
              (\<lambda>p s. s\<lparr>ss_record := ss_record s\<lparr>tr_PID := Some (fst p), tr_TID := Some (snd p)\<rparr>\<rparr>))) (\<lambda>_.
     bindA (whenA (has bits SampleTime) () (storeA (cursor_u64 order raw) 0
              (\<lambda>v s. s\<lparr>ss_record := ss_record s\<lparr>tr_Timestamp := perf_timestamp clock v\<rparr>\<rparr>))) (\<lambda>_.
     bindA (whenA (has bits SampleID) () (storeA (cursor_optional64 order raw) None
              (\<lambda>v s. s\<lparr>ss_id := v\<rparr>))) (\<lambda>_.
     bindA (whenA (has bits SampleStreamID) () (storeA (cursor_optional64 order raw) None
              (\<lambda>v s. s\<lparr>ss_current := ss_current s\<lparr>dt_StreamID := v\<rparr>\<rparr>))) (\<lambda>_.
     bindA (whenA (has bits SampleCPU) () (storePair order raw
              (\<lambda>p s. s\<lparr>ss_record := ss_record s\<lparr>tr_CPU := Some (fst p)\<rparr>\<rparr>))) (\<lambda>_.
     whenA (has bits SampleIdentifier) () (storeA (cursor_optional64 order raw) None
              (\<lambda>v s. s\<lparr>ss_identifier := v\<rparr>)))))))"

text \<open>\<open>if r.current.ID.Present { if d := r.byID[...]; d != nil && d.name != "" { ... } }\<close>\<close>

definition nameByID :: "reader \<Rightarrow> trecord \<Rightarrow> trecord" where
  "nameByID r rec =
     (case dt_ID (rd_current r) of
        None \<Rightarrow> rec
      | Some i \<Rightarrow>
          (case lookup_desc r i of
             None \<Rightarrow> rec
           | Some d \<Rightarrow> if ed_name d \<noteq> [] then rec\<lparr>tr_Identity := tr_Identity rec\<lparr>id_Name := ed_name d\<rparr>\<rparr> else rec))"

definition applySuffixLayout :: "trecord \<Rightarrow> bytes \<Rightarrow> suffix_layout \<Rightarrow> trecord read_op" where
  "applySuffixLayout rec raw layout r =
     (if \<not> rd_sampleIDAll r then (Inr rec, r)
      else
        case suffixMembers (rd_order r) (rd_clock r) raw (sl_mask layout)
               \<lparr>ss_pos = nat (sl_start layout), ss_record = rec, ss_current = rd_current r,
                ss_id = None, ss_identifier = None\<rparr> of
          (Inl Fault, s) \<Rightarrow> (Inl Fault, r)
        | (Inl (Fail e), s) \<Rightarrow>
            (Inr (add_diagnostic (perf_diagnostic ''sample_id_all'' e) (ss_record s)),
             r\<lparr>rd_current := ss_current s\<rparr>)
        | (Inr _, s) \<Rightarrow>
            let current = (case ss_id s of
                             Some i \<Rightarrow> ss_current s\<lparr>dt_ID := Some i\<rparr>
                           | None \<Rightarrow>
                               (case ss_identifier s of
                                  Some i \<Rightarrow> ss_current s\<lparr>dt_ID := Some i\<rparr> | None \<Rightarrow> ss_current s));
                rec = (if ss_id s \<noteq> None \<and> ss_identifier s \<noteq> None \<and> ss_id s \<noteq> ss_identifier s
                       then add_diagnostic (perf_diagnostic ''sample_id_all'' (Err ErrInvalid)) (ss_record s)
                       else ss_record s);
                r = r\<lparr>rd_current := current\<rparr>
            in (Inr (nameByID r rec), r))"

definition applySuffix :: "trecord \<Rightarrow> bytes \<Rightarrow> trecord read_op" where
  "applySuffix rec raw r =
     (case resolveSuffix r raw of
        Inl Fault \<Rightarrow> (Inl Fault, r)
      | Inl (Fail e) \<Rightarrow> (Inr (add_diagnostic (perf_diagnostic ''sample_id_all'' e) rec), r)
      | Inr layout \<Rightarrow> applySuffixLayout rec raw layout r)"

end
