(* ===== verification/PerfWire.thy ===== *)
theory PerfWire imports PerfSample begin

text \<open>
  The layout of samples and suffixes as the kernel writes them, and the proofs that \<open>parseSample\<close>,
  \<open>resolveSuffix\<close> and \<open>applySuffixLayout\<close> (\<open>perfdata/records.go\<close>) read them back.
\<close>


section \<open>Cursor operations and the bytes they consume\<close>

text \<open>
  \<open>parses m data bs x\<close>: wherever the bytes \<open>bs\<close> stand in \<open>data\<close>, the operation started in front of
  them returns \<open>x\<close> and stops behind them. It composes along sequencing.
\<close>

definition parses :: "'a cursor_op \<Rightarrow> bytes \<Rightarrow> bytes \<Rightarrow> 'a \<Rightarrow> bool" where
  "parses m data bs x \<longleftrightarrow>
     (\<forall>pos rest. pos \<le> length data \<and> drop pos data = bs @ rest \<longrightarrow> m pos = (Inr x, pos + length bs))"

named_theorems parses_rules \<open>what the cursor operations consume\<close>

lemma parsesD: "parses m data bs x \<Longrightarrow> pos \<le> length data \<Longrightarrow> drop pos data = bs @ rest \<Longrightarrow> m pos = (Inr x, pos + length bs)"
  by (auto simp: parses_def)

lemma parses_at: "parses m (pre @ bs @ post) bs x \<Longrightarrow> n = length pre \<Longrightarrow> m n = (Inr x, n + length bs)"
  using parsesD [of m "pre @ bs @ post" bs x "length pre" post] by simp

lemma drop_bytes: "drop pos data = bs @ rest \<Longrightarrow> drop (pos + length bs) data = rest"
  by (metis add.commute append_eq_conv_conj drop_drop)

lemma length_bytes: "pos \<le> length data \<Longrightarrow> drop pos data = bs @ rest \<Longrightarrow> length data = pos + length bs + length rest"
  by (metis append_take_drop_id length_append length_take min.absorb2 add.assoc)

lemma parses_ok [parses_rules]: "parses (okA x) data [] x"
  by (simp add: parses_def act_simps)

lemma parses_bind:
  assumes "parses m data bs x" "parses (f x) data cs y"
  shows "parses (bindA m f) data (bs @ cs) y"
  unfolding parses_def
proof (intro allI impI, elim conjE)
  fix pos rest assume p: "pos \<le> length data" "drop pos data = (bs @ cs) @ rest"
  then have m: "m pos = (Inr x, pos + length bs)"
    using parsesD [OF assms(1), of pos "cs @ rest"] by simp
  have "pos + length bs \<le> length data" "drop (pos + length bs) data = cs @ rest"
    using length_bytes [OF p(1), of bs "cs @ rest"] drop_bytes [of pos data bs "cs @ rest"] p by simp_all
  then show "bindA m f pos = (Inr y, pos + length (bs @ cs))"
    using parsesD [OF assms(2)] m by (simp add: bindA_Inr)
qed

lemma parses_bind_ok: "parses m data bs x \<Longrightarrow> parses (bindA m (\<lambda>x. okA (f x))) data bs (f x)"
  using parses_bind [of m data bs x "\<lambda>x. okA (f x)" "[]" "f x"] parses_ok [of "f x" data] by simp

lemma parses_remaining:
  "(\<And>n. length bs \<le> n \<Longrightarrow> parses (f n) data bs x) \<Longrightarrow> parses (bindA (getA (\<lambda>pos. length data - pos)) f) data bs x"
  unfolding parses_def
proof (intro allI impI, elim conjE)
  fix pos rest
  assume f: "\<And>n. length bs \<le> n \<Longrightarrow> \<forall>pos rest. pos \<le> length data \<and> drop pos data = bs @ rest \<longrightarrow> f n pos = (Inr x, pos + length bs)"
    and p: "pos \<le> length data" "drop pos data = bs @ rest"
  have "length bs \<le> length data - pos" using length_bytes [OF p] by simp
  from f [OF this] show "bindA (getA (\<lambda>pos. length data - pos)) f pos = (Inr x, pos + length bs)"
    using p by simp
qed

lemma parses_u32 [parses_rules]: "parses (cursor_u32 order data) data (put32 order v) v"
  unfolding parses_def
proof (intro allI impI, elim conjE)
  fix pos rest assume p: "pos \<le> length data" "drop pos data = put32 order v @ rest"
  have "u32_at order data pos = Inr v"
    using p by (simp add: u32_at_def slice_from_in)
  then show "cursor_u32 order data pos = (Inr v, pos + length (put32 order v))"
    using length_bytes [OF p] by (simp add: cursor_u32_def act_simps)
qed

lemma parses_u64 [parses_rules]: "parses (cursor_u64 order data) data (put64 order v) v"
  unfolding parses_def
proof (intro allI impI, elim conjE)
  fix pos rest assume p: "pos \<le> length data" "drop pos data = put64 order v @ rest"
  have "u64_at order data pos = Inr v"
    using p by (simp add: u64_at_def slice_from_in)
  then show "cursor_u64 order data pos = (Inr v, pos + length (put64 order v))"
    using length_bytes [OF p] by (simp add: cursor_u64_def act_simps)
qed

lemma parses_optional64 [parses_rules]: "parses (cursor_optional64 order data) data (put64 order v) (Some v)"
  unfolding cursor_optional64_def by (rule parses_bind_ok [OF parses_u64])

lemma parses_pair32 [parses_rules]: "parses (cursor_pair32 order data) data (put32 order a @ put32 order b) (a, b)"
  unfolding cursor_pair32_def by (intro parses_bind [OF parses_u32] parses_bind_ok [OF parses_u32])

text \<open>An optional member: its bytes are there when its bit is set.\<close>

definition opt64 :: "endian \<Rightarrow> u64 option \<Rightarrow> bytes" where
  "opt64 order v = (case v of None \<Rightarrow> [] | Some w \<Rightarrow> put64 order w)"

lemma parses_opt64 [parses_rules]:
  "c = (v \<noteq> None) \<Longrightarrow> parses (whenA c None (cursor_optional64 order data)) data (opt64 order v) v"
  by (cases v) (simp_all add: whenA_def opt64_def parses_rules)

lemma parses_when: "(c \<Longrightarrow> parses m data bs x) \<Longrightarrow> (\<not> c \<Longrightarrow> bs = [] \<and> x = zero) \<Longrightarrow> parses (whenA c zero m) data bs x"
  by (simp add: whenA_def parses_ok)

lemma parses_repeat:
  "(\<And>x. x \<in> set xs \<Longrightarrow> parses m data (g x) x) \<Longrightarrow> parses (repeatA (length xs) m) data (concat (map g xs)) xs"
proof (induction xs)
  case (Cons x xs)
  then show ?case by (auto intro!: parses_bind parses_bind_ok)
qed (simp add: parses_ok)


section \<open>The layout of a sample\<close>

text \<open>The counters of a sample, single or as a group.\<close>

definition read_value_bytes :: "endian \<Rightarrow> read_value \<Rightarrow> bytes" where
  "read_value_bytes order v = opt64 order (rv_ID v) @ opt64 order (rv_Lost v)"

definition read_bytes :: "endian \<Rightarrow> u64 \<Rightarrow> sample_details \<Rightarrow> bytes" where
  "read_bytes order fmt s =
     (if has fmt 8 then
        put64 order (of_nat (length (sd_Read s))) @ opt64 order (sd_TimeEnabled s) @ opt64 order (sd_TimeRunning s) @
        concat (map (\<lambda>v. put64 order (rv_Value v) @ read_value_bytes order v) (sd_Read s))
      else
        put64 order (rv_Value (hd (sd_Read s))) @ opt64 order (sd_TimeEnabled s) @ opt64 order (sd_TimeRunning s) @
        read_value_bytes order (hd (sd_Read s)))"

definition read_fits :: "perf_limits \<Rightarrow> u64 \<Rightarrow> sample_details \<Rightarrow> bool" where
  "read_fits limits fmt s \<longleftrightarrow>
     fmt AND NOT 0x1f = 0 \<and> has fmt 1 = (sd_TimeEnabled s \<noteq> None) \<and> has fmt 2 = (sd_TimeRunning s \<noteq> None) \<and>
     (\<forall>v\<in>set (sd_Read s). has fmt 4 = (rv_ID v \<noteq> None) \<and> has fmt 16 = (rv_Lost v \<noteq> None)) \<and>
     (\<not> has fmt 8 \<longrightarrow> length (sd_Read s) = 1) \<and>
     int (length (sd_Read s)) \<le> lm_MaxReadValues limits \<and> length (sd_Read s) < 2 ^ 64"

lemma parses_readRest:
  assumes "has fmt 4 = (rv_ID v \<noteq> None)" "has fmt 16 = (rv_Lost v \<noteq> None)"
  shows "parses (readRest order data fmt (rv_Value v)) data (read_value_bytes order v) v"
proof -
  have "parses (readRest order data fmt (rv_Value v)) data (opt64 order (rv_ID v) @ opt64 order (rv_Lost v) @ [])
      \<lparr>rv_Value = rv_Value v, rv_ID = rv_ID v, rv_Lost = rv_Lost v\<rparr>"
    unfolding readRest_def by (rule parses_bind parses_opt64 parses_ok assms)+
  then show ?thesis by (cases v) (simp add: read_value_bytes_def)
qed

lemma length_values: "8 * length vs \<le> length (concat (map (\<lambda>v. put64 order (rv_Value v) @ read_value_bytes order v) vs))"
  by (induction vs) simp_all

lemma parses_counters:
  assumes "\<And>v. v \<in> set vs \<Longrightarrow> has fmt 4 = (rv_ID v \<noteq> None) \<and> has fmt 16 = (rv_Lost v \<noteq> None)"
  shows "parses (repeatA (length vs) (bindA (whenA True single (cursor_u64 order data)) (readRest order data fmt))) data
    (concat (map (\<lambda>v. put64 order (rv_Value v) @ read_value_bytes order v) vs)) vs"
proof (rule parses_repeat)
  fix v assume "v \<in> set vs"
  then have "parses (readRest order data fmt (rv_Value v)) data (read_value_bytes order v) v"
    using assms by (intro parses_readRest) auto
  then show "parses (bindA (whenA True single (cursor_u64 order data)) (readRest order data fmt)) data
      (put64 order (rv_Value v) @ read_value_bytes order v) v"
    unfolding whenA_def if_True by (rule parses_bind [OF parses_u64])
qed

lemma parses_parseRead:
  assumes f: "read_fits limits fmt s"
  shows "parses (parseRead limits order data fmt b) data (read_bytes order fmt s)
    (b\<lparr>sd_Read := sd_Read s, sd_TimeEnabled := sd_TimeEnabled s, sd_TimeRunning := sd_TimeRunning s\<rparr>)"
proof -
  let ?vs = "sd_Read s" and ?r = "b\<lparr>sd_Read := sd_Read s, sd_TimeEnabled := sd_TimeEnabled s, sd_TimeRunning := sd_TimeRunning s\<rparr>"
  let ?times = "\<lambda>cs. opt64 order (sd_TimeEnabled s) @ opt64 order (sd_TimeRunning s) @ cs @ []"
  have times: "has fmt 1 = (sd_TimeEnabled s \<noteq> None)" "has fmt 2 = (sd_TimeRunning s \<noteq> None)"
    and fmt: "\<not> fmt AND NOT 0x1f \<noteq> 0" using f by (simp_all add: read_fits_def)
  have vs: "\<And>v. v \<in> set ?vs \<Longrightarrow> has fmt 4 = (rv_ID v \<noteq> None) \<and> has fmt 16 = (rv_Lost v \<noteq> None)"
    and len: "int (length ?vs) \<le> lm_MaxReadValues limits" "length ?vs < 2 ^ 64" using f by (auto simp: read_fits_def)
  show ?thesis
  proof (cases "has fmt 8")
    case True
    let ?n = "length ?vs" and ?w = "of_nat (length ?vs) :: u64"
    let ?cs = "concat (map (\<lambda>v. put64 order (rv_Value v) @ read_value_bytes order v) ?vs)"
    have n: "unat ?w = ?n" using len(2) by (simp add: unat_of_nat)
    then have n': "uint ?w = int ?n" by (metis uint_nat)
    have guard: "\<not> (uint ?w > lm_MaxReadValues limits \<or> unat ?w > m div 8)" if "length ([] @ ?times ?cs) \<le> m" for m
      using that length_values [of ?vs order] len(1) n n' by auto
    have loop: "parses (bindA (repeatA (unat ?w) (bindA (whenA True 0 (cursor_u64 order data)) (readRest order data fmt)))
        (\<lambda>vs. okA (b\<lparr>sd_Read := vs, sd_TimeEnabled := sd_TimeEnabled s, sd_TimeRunning := sd_TimeRunning s\<rparr>))) data (?cs @ []) ?r"
      unfolding n by (rule parses_bind [OF parses_counters [OF vs] parses_ok])
    have "parses (parseRead limits order data fmt b) data (put64 order ?w @ [] @ ?times ?cs) ?r"
      unfolding parseRead_def if_not_P [OF fmt] Let_def
    proof (rule parses_bind)
      show "parses (whenA (has fmt 8) 1 (cursor_u64 order data)) data (put64 order ?w) ?w"
        using True by (simp add: whenA_def parses_u64)
      show "parses (bindA (getA (\<lambda>pos. length data - pos)) (\<lambda>remaining.
          if uint ?w > lm_MaxReadValues limits \<or> unat ?w > remaining div 8 then failA ErrLimit
          else
            bindA (whenA (\<not> has fmt 8) 0 (cursor_u64 order data)) (\<lambda>single.
            bindA (whenA (has fmt 1) None (cursor_optional64 order data)) (\<lambda>enabled.
            bindA (whenA (has fmt 2) None (cursor_optional64 order data)) (\<lambda>running.
            bindA (repeatA (unat ?w) (bindA (whenA (has fmt 8) single (cursor_u64 order data)) (readRest order data fmt)))
              (\<lambda>vs. okA (b\<lparr>sd_Read := vs, sd_TimeEnabled := enabled, sd_TimeRunning := running\<rparr>)))))))
          data ([] @ ?times ?cs) ?r"
        by (rule parses_remaining, subst if_not_P [OF guard], assumption,
            rule parses_bind [where x = 0], simp add: whenA_def True parses_ok,
            rule parses_bind [OF parses_opt64 [OF times(1)]], rule parses_bind [OF parses_opt64 [OF times(2)]],
            use True loop in simp)
    qed
    then show ?thesis using True by (simp add: read_bytes_def)
  next
    case False
    then obtain v where v: "?vs = [v]" using f by (auto simp: read_fits_def length_Suc_conv)
    have guard: "\<not> (uint (1 :: u64) > lm_MaxReadValues limits \<or> unat (1 :: u64) > m div 8)"
      if "length (put64 order (rv_Value v) @ ?times (read_value_bytes order v)) \<le> m" for m
      using that len(1) v by auto
    have loop: "parses (bindA (repeatA (unat (1 :: u64)) (bindA (whenA False (rv_Value v) (cursor_u64 order data)) (readRest order data fmt)))
        (\<lambda>vs. okA (b\<lparr>sd_Read := vs, sd_TimeEnabled := sd_TimeEnabled s, sd_TimeRunning := sd_TimeRunning s\<rparr>))) data
        (read_value_bytes order v @ []) ?r"
    proof (rule parses_bind)
      show "parses (okA (b\<lparr>sd_Read := ?vs, sd_TimeEnabled := sd_TimeEnabled s, sd_TimeRunning := sd_TimeRunning s\<rparr>)) data [] ?r"
        by (rule parses_ok)
      have "parses (readRest order data fmt (rv_Value v)) data (read_value_bytes order v) v"
        using vs v by (intro parses_readRest) auto
      then have "parses (bindA (whenA False (rv_Value v) (cursor_u64 order data)) (readRest order data fmt)) data
          ([] @ read_value_bytes order v) v"
        unfolding whenA_def if_False by (intro parses_bind [OF parses_ok])
      then show "parses (repeatA (unat (1 :: u64)) (bindA (whenA False (rv_Value v) (cursor_u64 order data)) (readRest order data fmt)))
          data (read_value_bytes order v) ?vs"
        using parses_repeat [of "[v]" _ data "read_value_bytes order"] v by simp
    qed
    have "parses (parseRead limits order data fmt b) data
        ([] @ put64 order (rv_Value v) @ ?times (read_value_bytes order v)) ?r"
      unfolding parseRead_def if_not_P [OF fmt] Let_def
    proof (rule parses_bind)
      show "parses (whenA (has fmt 8) 1 (cursor_u64 order data)) data [] 1"
        using False by (simp add: whenA_def parses_ok)
      show "parses (bindA (getA (\<lambda>pos. length data - pos)) (\<lambda>remaining.
          if uint (1 :: u64) > lm_MaxReadValues limits \<or> unat (1 :: u64) > remaining div 8 then failA ErrLimit
          else
            bindA (whenA (\<not> has fmt 8) 0 (cursor_u64 order data)) (\<lambda>single.
            bindA (whenA (has fmt 1) None (cursor_optional64 order data)) (\<lambda>enabled.
            bindA (whenA (has fmt 2) None (cursor_optional64 order data)) (\<lambda>running.
            bindA (repeatA (unat (1 :: u64)) (bindA (whenA (has fmt 8) single (cursor_u64 order data)) (readRest order data fmt)))
              (\<lambda>vs. okA (b\<lparr>sd_Read := vs, sd_TimeEnabled := enabled, sd_TimeRunning := running\<rparr>)))))))
          data (put64 order (rv_Value v) @ ?times (read_value_bytes order v)) ?r"
        by (rule parses_remaining, subst if_not_P [OF guard], assumption,
            rule parses_bind [where x = "rv_Value v"], simp add: whenA_def False parses_u64,
            rule parses_bind [OF parses_opt64 [OF times(1)]], rule parses_bind [OF parses_opt64 [OF times(2)]],
            use False loop in simp)
    qed
    then show ?thesis using False v by (simp add: read_bytes_def)
  qed
qed

text \<open>The members before the counters. A pair is written with a reserved word where one is unused.\<close>

record sample_pairs =
  sp_pid :: u32
  sp_tid :: u32
  sp_cpu :: u32
  sp_reserved :: u32
  sp_time :: u64

definition bytes_if :: "bool \<Rightarrow> bytes \<Rightarrow> bytes" where
  "bytes_if c bs = (if c then bs else [])"

definition fixed_bytes :: "endian \<Rightarrow> u64 \<Rightarrow> sample_details \<Rightarrow> sample_pairs \<Rightarrow> bytes" where
  "fixed_bytes order type s p =
     opt64 order (sd_Identifier s) @ opt64 order (sd_IP s) @
     bytes_if (has type SampleTID) (put32 order (sp_pid p) @ put32 order (sp_tid p)) @
     bytes_if (has type SampleTime) (put64 order (sp_time p)) @
     opt64 order (sd_Address s) @ opt64 order (sd_ID s) @ opt64 order (sd_StreamID s) @
     bytes_if (has type SampleCPU) (put32 order (sp_cpu p) @ put32 order (sp_reserved p)) @
     opt64 order (sd_Period s)"

definition fixed_fits :: "u64 \<Rightarrow> sample_details \<Rightarrow> bool" where
  "fixed_fits type s \<longleftrightarrow>
     has type SampleIdentifier = (sd_Identifier s \<noteq> None) \<and> has type SampleIP = (sd_IP s \<noteq> None) \<and>
     has type SampleAddr = (sd_Address s \<noteq> None) \<and> has type SampleID = (sd_ID s \<noteq> None) \<and>
     has type SampleStreamID = (sd_StreamID s \<noteq> None) \<and> has type SamplePeriod = (sd_Period s \<noteq> None)"

definition sample_envelope :: "clock_info \<Rightarrow> u64 \<Rightarrow> sample_pairs \<Rightarrow> envelope" where
  "sample_envelope clock type p =
     \<lparr>env_Timestamp = (if has type SampleTime then perf_timestamp clock (sp_time p) else zero_timestamp),
      env_CPU = (if has type SampleCPU then Some (sp_cpu p) else None),
      env_PID = (if has type SampleTID then Some (sp_pid p) else None),
      env_TID = (if has type SampleTID then Some (sp_tid p) else None)\<rparr>"

lemma parses_bytes_if:
  "parses m data bs x \<Longrightarrow> parses (whenA c zero m) data (bytes_if c bs) (if c then x else zero)"
  by (simp add: whenA_def bytes_if_def parses_ok)

lemma parses_parseFixed:
  assumes "fixed_fits type s"
  shows "parses (parseFixed order clock data type) data (fixed_bytes order type s p)
    (zero_sample\<lparr>sd_Identifier := sd_Identifier s, sd_IP := sd_IP s, sd_Address := sd_Address s, sd_ID := sd_ID s,
       sd_StreamID := sd_StreamID s, sd_Period := sd_Period s\<rparr>, sample_envelope clock type p)"
proof -
  note f = assms [unfolded fixed_fits_def]
  have tid: "parses (bindA (cursor_pair32 order data) (\<lambda>p. okA (Some p))) data
      (put32 order (sp_pid p) @ put32 order (sp_tid p)) (Some (sp_pid p, sp_tid p))"
    by (rule parses_bind_ok [OF parses_pair32])
  have time: "parses (bindA (cursor_u64 order data) (\<lambda>v. okA (perf_timestamp clock v))) data
      (put64 order (sp_time p)) (perf_timestamp clock (sp_time p))"
    by (rule parses_bind_ok [OF parses_u64])
  have cpu: "parses (bindA (cursor_pair32 order data) (\<lambda>p. okA (Some (fst p)))) data
      (put32 order (sp_cpu p) @ put32 order (sp_reserved p)) (Some (sp_cpu p))"
    using parses_bind_ok [OF parses_pair32, where f = "\<lambda>p. Some (fst p)"] by fastforce
  have "parses (parseFixed order clock data type) data
    (opt64 order (sd_Identifier s) @ opt64 order (sd_IP s) @
     bytes_if (has type SampleTID) (put32 order (sp_pid p) @ put32 order (sp_tid p)) @
     bytes_if (has type SampleTime) (put64 order (sp_time p)) @
     opt64 order (sd_Address s) @ opt64 order (sd_ID s) @ opt64 order (sd_StreamID s) @
     bytes_if (has type SampleCPU) (put32 order (sp_cpu p) @ put32 order (sp_reserved p)) @
     opt64 order (sd_Period s) @ [])
    (zero_sample\<lparr>sd_Identifier := sd_Identifier s, sd_IP := sd_IP s, sd_Address := sd_Address s, sd_ID := sd_ID s,
       sd_StreamID := sd_StreamID s, sd_Period := sd_Period s\<rparr>,
     \<lparr>env_Timestamp = (if has type SampleTime then perf_timestamp clock (sp_time p) else zero_timestamp),
      env_CPU = (if has type SampleCPU then Some (sp_cpu p) else None),
      env_PID = map_option fst (if has type SampleTID then Some (sp_pid p, sp_tid p) else None),
      env_TID = map_option snd (if has type SampleTID then Some (sp_pid p, sp_tid p) else None)\<rparr>)"
    unfolding parseFixed_def
    by (rule parses_bind, rule parses_opt64, use f in blast, rule parses_bind, rule parses_opt64, use f in blast,
        rule parses_bind, rule parses_bytes_if [OF tid], rule parses_bind, rule parses_bytes_if [OF time],
        rule parses_bind, rule parses_opt64, use f in blast, rule parses_bind, rule parses_opt64, use f in blast,
        rule parses_bind, rule parses_opt64, use f in blast, rule parses_bind, rule parses_bytes_if [OF cpu],
        rule parses_bind, rule parses_opt64, use f in blast, rule parses_ok)
  then show ?thesis
    by (cases "has type SampleTID") (simp_all add: fixed_bytes_def sample_envelope_def)
qed

definition callchain_bytes :: "endian \<Rightarrow> u64 list \<Rightarrow> bytes" where
  "callchain_bytes order ips = put64 order (of_nat (length ips)) @ concat (map (put64 order) ips)"

lemma length_words64: "length (concat (map (put64 order) ids)) = 8 * length ids"
  by (induction ids) simp_all

lemma parses_callchain:
  assumes "int (length ips) \<le> lm_MaxCallchain limits" "length ips < 2 ^ 64"
  shows "parses (parseCallchain limits order data) data (callchain_bytes order ips) ips"
proof -
  let ?w = "of_nat (length ips) :: u64"
  have n: "unat ?w = length ips" using assms(2) by (simp add: unat_of_nat)
  then have n': "uint ?w = int (length ips)" by (metis uint_nat)
  have guard: "\<not> (uint ?w > lm_MaxCallchain limits \<or> unat ?w > m div 8)"
    if "length (concat (map (put64 order) ips)) \<le> m" for m
    using that assms(1) n n' by (auto simp: length_words64)
  have loop: "parses (repeatA (unat ?w) (cursor_u64 order data)) data (concat (map (put64 order) ips)) ips"
    unfolding n by (rule parses_repeat) (rule parses_u64)
  show ?thesis
    unfolding parseCallchain_def callchain_bytes_def
    by (rule parses_bind [OF parses_u64], rule parses_remaining, subst if_not_P [OF guard], assumption, rule loop)
qed

definition raw_bytes :: "endian \<Rightarrow> bytes \<Rightarrow> bytes \<Rightarrow> bytes" where
  "raw_bytes order raw padding = put32 order (of_nat (length raw)) @ raw @ padding"

lemma parseRaw_written:
  assumes "length raw < 2 ^ 32" "length padding < 8" "8 dvd length (raw_bytes order raw padding)" "8 dvd pos"
    and data: "pos = length pre" "data = pre @ raw_bytes order raw padding @ post"
  shows "parseRaw order data pos = (Inr raw, pos + length (raw_bytes order raw padding))"
proof -
  let ?w = "of_nat (length raw) :: u32"
  have n: "unat ?w = length raw" using assms(1) by (simp add: unat_of_nat)
  have w: "cursor_u32 order data pos = (Inr ?w, pos + 4)"
    using parses_at [OF parses_u32 data(1), where post = "raw @ padding @ post"] data(2) by (simp add: raw_bytes_def)
  have sl: "slice data (pos + 4) (pos + 4 + length raw) = Inr raw"
    using data by (subst slice_in) (simp_all add: raw_bytes_def)
  have len: "length (raw_bytes order raw padding) = 4 + length raw + length padding"
    by (simp add: raw_bytes_def)
  obtain q where q: "pos + (4 + length raw + length padding) = 8 * q"
    using assms(3,4) len by (metis dvd_add dvdE)
  then have "pos + 4 + length raw + 7 = (7 - length padding) + 8 * q"
    using assms(2) by linarith
  then have "(pos + 4 + length raw + 7) div 8 = (7 - length padding) div 8 + q"
    by (simp only: div_mult_self2 [of 8])
  then have "(pos + 4 + length raw + 7) div 8 * 8 = 8 * q" by simp
  then have up: "(pos + 4 + length raw + 7) div 8 * 8 = pos + length (raw_bytes order raw padding)"
    using q len by simp
  show ?thesis
    using w sl n up data(1) unfolding parseRaw_def
    by (simp add: act_simps data(2) len) 
qed


section \<open>Whole samples\<close>

definition sample_body :: "endian \<Rightarrow> attr \<Rightarrow> sample_details \<Rightarrow> sample_pairs \<Rightarrow> bytes" where
  "sample_body order a s p =
     fixed_bytes order (at_SampleType a) s p @
     bytes_if (has (at_SampleType a) SampleRead) (read_bytes order (at_ReadFormat a) s) @
     bytes_if (has (at_SampleType a) SampleCallchain) (callchain_bytes order (sd_Callchain s))"

text \<open>A sample record: eight bytes of header, the members the attribute selects, and what follows them.\<close>

definition sample_bytes :: "endian \<Rightarrow> attr \<Rightarrow> sample_details \<Rightarrow> sample_pairs \<Rightarrow> bytes \<Rightarrow> bytes \<Rightarrow> bytes" where
  "sample_bytes order a s p header padding =
     header @ sample_body order a s p @
     bytes_if (has (at_SampleType a) SampleRaw) (raw_bytes order (sd_Raw s) padding) @ sd_TrailingSampleData s"

definition sample_fits :: "perf_limits \<Rightarrow> attr \<Rightarrow> sample_details \<Rightarrow> bytes \<Rightarrow> bool" where
  "sample_fits limits a s padding \<longleftrightarrow>
     fixed_fits (at_SampleType a) s \<and>
     (if has (at_SampleType a) SampleRead then read_fits limits (at_ReadFormat a) s
      else sd_Read s = [] \<and> sd_TimeEnabled s = None \<and> sd_TimeRunning s = None) \<and>
     (if has (at_SampleType a) SampleCallchain
      then int (length (sd_Callchain s)) \<le> lm_MaxCallchain limits \<and> length (sd_Callchain s) < 2 ^ 64
      else sd_Callchain s = []) \<and>
     (if has (at_SampleType a) SampleRaw
      then length (sd_Raw s) < 2 ^ 32 \<and> length padding < 8 \<and> 8 dvd (4 + length (sd_Raw s) + length padding)
      else sd_Raw s = []) \<and>
     sd_UnsupportedSampleBits s = at_SampleType a AND NOT supportedBits"

lemma dvd_opt64 [simp]: "8 dvd length (opt64 order v)"
  by (simp add: opt64_def split: option.split)

lemma dvd_bytes_if [simp]: "8 dvd length bs \<Longrightarrow> 8 dvd length (bytes_if c bs)"
  by (simp add: bytes_if_def)

lemma dvd_read_values: "8 dvd length (concat (map (\<lambda>v. put64 order (rv_Value v) @ read_value_bytes order v) vs))"
  by (induction vs) (simp_all add: read_value_bytes_def)

lemma dvd_read_bytes [simp]: "8 dvd length (read_bytes order fmt s)"
  using dvd_read_values [of order "sd_Read s"] by (simp add: read_bytes_def read_value_bytes_def)

lemma dvd_callchain [simp]: "8 dvd length (callchain_bytes order ips)"
  by (simp add: callchain_bytes_def length_words64)

lemma dvd_sample_body: "8 dvd length (sample_body order a s p)"
  by (simp add: sample_body_def fixed_bytes_def)

lemma length_raw_bytes: "length (raw_bytes order raw padding) = 4 + length raw + length padding"
  by (simp add: raw_bytes_def)

lemma bind_parses: "parses m data bs x \<Longrightarrow> n = length pre \<Longrightarrow> data = pre @ bs @ post \<Longrightarrow> bindA m f n = f x (n + length bs)"
  using parses_at [of m pre bs post x n] by (simp add: bindA_Inr)

lemma parseSample_written:
  assumes f: "sample_fits limits a s padding" and h: "length header = 8"
  shows "parseSample limits order clock (sample_bytes order a s p header padding) a =
    Inr (s, sample_envelope clock (at_SampleType a) p)"
proof -
  let ?t = "at_SampleType a" and ?data = "sample_bytes order a s p header padding"
  let ?A = "fixed_bytes order ?t s p" and ?B = "bytes_if (has ?t SampleRead) (read_bytes order (at_ReadFormat a) s)"
    and ?C = "bytes_if (has ?t SampleCallchain) (callchain_bytes order (sd_Callchain s))"
    and ?D = "bytes_if (has ?t SampleRaw) (raw_bytes order (sd_Raw s) padding)" and ?E = "sd_TrailingSampleData s"
  let ?s0 = "zero_sample\<lparr>sd_Identifier := sd_Identifier s, sd_IP := sd_IP s, sd_Address := sd_Address s,
    sd_ID := sd_ID s, sd_StreamID := sd_StreamID s, sd_Period := sd_Period s\<rparr>"
  let ?s1 = "?s0\<lparr>sd_Read := sd_Read s, sd_TimeEnabled := sd_TimeEnabled s, sd_TimeRunning := sd_TimeRunning s\<rparr>"
  have data: "?data = header @ ?A @ ?B @ ?C @ ?D @ ?E"
    by (simp add: sample_bytes_def sample_body_def)
  have pA: "parses (parseFixed order clock d ?t) d ?A (?s0, sample_envelope clock ?t p)" for d
    using f by (intro parses_parseFixed) (simp add: sample_fits_def)
  have pB: "parses (whenA (has ?t SampleRead) ?s0 (parseRead limits order d (at_ReadFormat a) ?s0)) d ?B ?s1" for d
    using f parses_parseRead [of limits "at_ReadFormat a" s order d ?s0]
    by (auto simp: sample_fits_def whenA_def bytes_if_def zero_sample_def parses_ok split: if_splits)
  have pC: "parses (whenA (has ?t SampleCallchain) [] (parseCallchain limits order d)) d ?C (sd_Callchain s)" for d
    using f by (auto simp: sample_fits_def whenA_def bytes_if_def parses_callchain parses_ok split: if_splits)
  let ?n = "8 + length ?A + length ?B + length ?C"
  have n8: "8 dvd ?n" using dvd_sample_body [of order a s p] by (simp add: sample_body_def add.assoc)
  have pD: "whenA (has ?t SampleRaw) [] (parseRaw order ?data) ?n = (Inr (sd_Raw s), ?n + length ?D)"
  proof (cases "has ?t SampleRaw")
    case True
    have "parseRaw order ?data ?n = (Inr (sd_Raw s), ?n + length (raw_bytes order (sd_Raw s) padding))"
      by (rule parseRaw_written [where pre = "header @ ?A @ ?B @ ?C" and post = ?E and padding = padding])
         (use f True h n8 in \<open>auto simp: sample_fits_def length_raw_bytes data bytes_if_def [of True]\<close>)
    then show ?thesis using True by (simp add: whenA_def bytes_if_def)
  next
    case False
    then show ?thesis using f by (simp add: sample_fits_def whenA_def bytes_if_def act_simps)
  qed
  have tl: "slice_from ?data (?n + length ?D) = Inr ?E"
    using h by (subst slice_from_in) (simp_all add: data)
  have b1: "bindA (parseFixed order clock ?data ?t) F 8 = F (?s0, sample_envelope clock ?t p) (8 + length ?A)"
    for F :: "_ \<Rightarrow> (sample_details \<times> envelope) cursor_op"
    by (rule bind_parses [OF pA h [symmetric] data])
  have b2: "bindA (whenA (has ?t SampleRead) ?s0 (parseRead limits order ?data (at_ReadFormat a) ?s0)) F (8 + length ?A)
      = F ?s1 (8 + length ?A + length ?B)" for F :: "_ \<Rightarrow> (sample_details \<times> envelope) cursor_op"
    by (rule bind_parses [OF pB, where pre = "header @ ?A" and post = "?C @ ?D @ ?E"]) (simp_all add: data h)
  have b3: "bindA (whenA (has ?t SampleCallchain) [] (parseCallchain limits order ?data)) F (8 + length ?A + length ?B)
      = F (sd_Callchain s) ?n" for F :: "_ \<Rightarrow> (sample_details \<times> envelope) cursor_op"
    by (rule bind_parses [OF pC, where pre = "header @ ?A @ ?B" and post = "?D @ ?E"]) (simp_all add: data h)
  have b4: "bindA (whenA (has ?t SampleRaw) [] (parseRaw order ?data)) F ?n = F (sd_Raw s) (?n + length ?D)"
    for F :: "_ \<Rightarrow> (sample_details \<times> envelope) cursor_op"
    by (rule bindA_Inr [of "whenA (has ?t SampleRaw) [] (parseRaw order ?data)", OF pD])
  have "s = ?s1\<lparr>sd_Callchain := sd_Callchain s, sd_Raw := sd_Raw s, sd_TrailingSampleData := ?E,
      sd_UnsupportedSampleBits := ?t AND NOT supportedBits\<rparr>"
    using f by (cases s) (simp add: sample_fits_def zero_sample_def)
  moreover have "parseSample limits order clock ?data a =
      Inr (?s1\<lparr>sd_Callchain := sd_Callchain s, sd_Raw := sd_Raw s, sd_TrailingSampleData := ?E,
         sd_UnsupportedSampleBits := ?t AND NOT supportedBits\<rparr>, sample_envelope clock ?t p)"
    unfolding parseSample_def b1 prod.case b2 b3 b4 by (simp add: act_simps tl cursor_rest_def)
  ultimately show ?thesis by simp
qed

lemma sampleLookup_written:
  assumes f: "fixed_fits (at_SampleType a) s" and h: "length header = 8"
    and off: "0 \<le> sampleLookupOffset (at_SampleType a)"
  shows "u64_at order (sample_bytes order a s p header padding) (nat (sampleLookupOffset (at_SampleType a))) =
    Inr (if has (at_SampleType a) SampleIdentifier then the (sd_Identifier s) else the (sd_ID s))"
proof (cases "has (at_SampleType a) SampleIdentifier")
  case True
  then obtain i where "sd_Identifier s = Some i" using f by (auto simp: fixed_fits_def)
  then show ?thesis
    using True h by (simp add: sampleLookupOffset_def sample_bytes_def sample_body_def fixed_bytes_def opt64_def)
next
  case False
  then have i: "has (at_SampleType a) SampleID" using off by (auto simp: sampleLookupOffset_def split: if_splits)
  then obtain i where i': "sd_ID s = Some i" using f by (auto simp: fixed_fits_def)
  have n: "sd_Identifier s = None" using False f by (simp add: fixed_fits_def)
  have ip: "has (at_SampleType a) SampleIP = (sd_IP s \<noteq> None)" "has (at_SampleType a) SampleAddr = (sd_Address s \<noteq> None)"
    using f by (simp_all add: fixed_fits_def)
  show ?thesis
    using False i i' n ip h
    by (cases "sd_IP s"; cases "sd_Address s"; cases "has (at_SampleType a) SampleTID"; cases "has (at_SampleType a) SampleTime")
       (simp_all add: sampleLookupOffset_def sample_bytes_def sample_body_def fixed_bytes_def opt64_def bytes_if_def)
qed

text \<open>
  C18. Samples are read back exactly: for every attribute, whatever members it selects and in either
  byte order, a sample that was laid out as the kernel does is parsed into the values it was made of,
  the read group, the call chain, the raw data and what follows it included. The 8 bytes at the lookup
  offset of the attribute are the sample's identifier, so that the reader finds the attribute without
  knowing it.
\<close>

theorem sample_roundtrip:
  assumes "sample_fits limits a s padding" "length header = 8"
  shows "parseSample limits order clock (sample_bytes order a s p header padding) a =
      Inr (s, sample_envelope clock (at_SampleType a) p) \<and>
    (0 \<le> sampleLookupOffset (at_SampleType a) \<longrightarrow>
     u64_at order (sample_bytes order a s p header padding) (nat (sampleLookupOffset (at_SampleType a))) =
       Inr (if has (at_SampleType a) SampleIdentifier then the (sd_Identifier s) else the (sd_ID s)))"
  using parseSample_written [OF assms] sampleLookup_written [of a s header] assms by (auto simp: sample_fits_def)

definition demo_sample :: sample_details where
  "demo_sample = zero_sample\<lparr>sd_Identifier := Some 7, sd_IP := Some 0x1000, sd_ID := Some 7\<rparr>"

theorem sample_roundtrip_witness:
  "parseSample demo_limits BigEndian zero_clock
     (sample_bytes BigEndian demo_attr demo_sample \<lparr>sp_pid = 1, sp_tid = 2, sp_cpu = 3, sp_reserved = 0, sp_time = 4\<rparr>
        [9, 0, 0, 0, 0, 0, 48, 0] []) demo_attr =
     Inr (demo_sample, sample_envelope zero_clock 0x10047 \<lparr>sp_pid = 1, sp_tid = 2, sp_cpu = 3, sp_reserved = 0, sp_time = 4\<rparr>)"
  using sample_roundtrip [of demo_limits demo_attr demo_sample "[]" "[9, 0, 0, 0, 0, 0, 48, 0]" BigEndian zero_clock
      "\<lparr>sp_pid = 1, sp_tid = 2, sp_cpu = 3, sp_reserved = 0, sp_time = 4\<rparr>"]
  by (simp add: sample_fits_def fixed_fits_def demo_attr_def demo_sample_def zero_sample_def zero_attr_def has_def Let_def)


section \<open>No sample makes the parser panic\<close>

interpretation cursor: state_invariant "\<lambda>_ :: nat. True" .

abbreviation inside :: "bytes \<Rightarrow> 'a cursor_op \<Rightarrow> bool" where
  "inside data m \<equiv> cursor.runs (\<lambda>pos. pos \<le> length data) m (\<lambda>_ pos. pos \<le> length data)"

lemma inside_u32 [intro]: "inside data (cursor_u32 order data)"
  unfolding cursor_u32_def
  by (auto simp: cursor.runs_def act_simps u32_at_def slice_from_in get32_def not_less)

lemma inside_u64 [intro]: "inside data (cursor_u64 order data)"
  unfolding cursor_u64_def
  by (auto simp: cursor.runs_def act_simps u64_at_def slice_from_in get64_def not_less)

lemma inside_ok [intro]: "inside data (okA x)"
  by (simp add: cursor.runs_ok)

lemma inside_bind [intro]: "inside data m \<Longrightarrow> (\<And>x. inside data (f x)) \<Longrightarrow> inside data (bindA m f)"
  by (rule cursor.runs_bind)

lemma inside_fail [intro]: "inside data (failA e)"
  by (simp add: cursor.runs_fail)

lemma inside_get [intro]: "(\<And>x. inside data (f x)) \<Longrightarrow> inside data (bindA (getA g) f)"
  by (simp add: cursor.runs_bind_get)

lemma inside_if [intro]: "inside data a \<Longrightarrow> inside data b \<Longrightarrow> inside data (if c then a else b)"
  by simp

lemma inside_when [intro]: "inside data m \<Longrightarrow> inside data (whenA c zero m)"
  by (simp add: whenA_def inside_ok)

lemma inside_repeat [intro]: "inside data m \<Longrightarrow> inside data (repeatA n m)"
  by (induction n) auto

lemma inside_case_prod [intro]: "(\<And>a b. inside data (f a b)) \<Longrightarrow> inside data (case_prod f p)"
  by (cases p) simp

lemma inside_optional64 [intro]: "inside data (cursor_optional64 order data)"
  by (auto simp: cursor_optional64_def)

lemma inside_pair32 [intro]: "inside data (cursor_pair32 order data)"
  by (auto simp: cursor_pair32_def)

lemma inside_parseRead [intro]: "inside data (parseRead limits order data fmt s)"
  unfolding parseRead_def readRest_def Let_def by (intro inside_if inside_fail inside_bind inside_get inside_when
      inside_u64 inside_optional64 inside_repeat inside_ok)

lemma inside_parseFixed [intro]: "inside data (parseFixed order clock data type)"
  unfolding parseFixed_def by (intro inside_bind inside_when inside_u64 inside_optional64 inside_pair32 inside_ok)

lemma inside_callchain [intro]: "inside data (parseCallchain limits order data)"
  unfolding parseCallchain_def by (intro inside_bind inside_get inside_if inside_fail inside_repeat inside_u64)

lemma inside_raw [intro]: "inside data (parseRaw order data)"
  unfolding parseRaw_def
proof (rule inside_bind [OF inside_u32])
  fix sz
  show "inside data (bindA (getA id) (\<lambda>pos.
     if unat sz > length data - pos then failA ErrTruncated
     else
       bindA (liftA (slice data pos (pos + unat sz))) (\<lambda>raw.
       bindA (modA (\<lambda>pos. (pos + unat sz + 7) div 8 * 8)) (\<lambda>_.
       bindA (getA id) (\<lambda>pos.
       if pos > length data then failA ErrTruncated else okA raw)))))"
    by (auto simp: cursor.runs_def act_simps slice_in not_less)
qed

lemma inside_rest [intro]: "inside data (cursor_rest data)"
  by (auto simp: cursor.runs_def cursor_rest_def slice_from_in)

lemma safe_parseSample: "8 \<le> length data \<Longrightarrow> safe (parseSample limits order clock data a)"
proof -
  assume l: "8 \<le> length data"
  have "inside data (bindA (parseFixed order clock data (at_SampleType a)) (\<lambda>(s, e).
          bindA (whenA (has (at_SampleType a) SampleRead) s (parseRead limits order data (at_ReadFormat a) s)) (\<lambda>s.
          bindA (whenA (has (at_SampleType a) SampleCallchain) [] (parseCallchain limits order data)) (\<lambda>chain.
          bindA (whenA (has (at_SampleType a) SampleRaw) [] (parseRaw order data)) (\<lambda>raw.
          bindA (cursor_rest data) (\<lambda>trailing.
          okA (s\<lparr>sd_Callchain := chain, sd_Raw := raw, sd_TrailingSampleData := trailing,
                 sd_UnsupportedSampleBits := at_SampleType a AND NOT supportedBits\<rparr>, e)))))))"
    by (intro inside_bind inside_case_prod inside_when inside_parseFixed inside_parseRead inside_callchain inside_raw
        inside_rest inside_ok)
  from cursor.runs_safe [OF this l] show ?thesis
    by (simp add: parseSample_def safe_def)
qed

end
