(* ===== verification/PerfSuffix.thy ===== *)
theory PerfSuffix imports PerfWire begin

text \<open>
  The \<open>sample_id_all\<close> suffix of records other than samples: the reader finds it whatever its layout,
  given the invariant of the table of descriptors, and reads its members exactly.
\<close>


section \<open>The layout of a suffix\<close>

record suffix_values =
  sv_pid :: u32
  sv_tid :: u32
  sv_time :: u64
  sv_id :: u64
  sv_stream :: u64
  sv_cpu :: u32
  sv_reserved :: u32

definition suffix_bytes :: "endian \<Rightarrow> u64 \<Rightarrow> suffix_values \<Rightarrow> bytes" where
  "suffix_bytes order bits v =
     bytes_if (has bits SampleTID) (put32 order (sv_pid v) @ put32 order (sv_tid v)) @
     bytes_if (has bits SampleTime) (put64 order (sv_time v)) @
     bytes_if (has bits SampleID) (put64 order (sv_id v)) @
     bytes_if (has bits SampleStreamID) (put64 order (sv_stream v)) @
     bytes_if (has bits SampleCPU) (put32 order (sv_cpu v) @ put32 order (sv_reserved v)) @
     bytes_if (has bits SampleIdentifier) (put64 order (sv_id v))"

lemma length_suffix_bytes: "length (suffix_bytes order bits v) = suffix_size bits"
  by (simp add: suffix_bytes_def suffix_size_def bytes_if_def)

lemma lookup_desc_in:
  assumes "reader_ok r" "lookup_desc r i = Some d"
  shows "d \<in> set (rd_attrs r)" "attr_fits r (ed_attr d)"
proof -
  obtain k where "map_of (rd_byID r) i = Some k" "d = rd_attrs r ! k"
    using assms(2) by (auto simp: lookup_desc_def)
  then show d: "d \<in> set (rd_attrs r)"
    using assms(1) by (auto simp: reader_ok_def table_ok_def)
  then show "attr_fits r (ed_attr d)"
    using assms(1) by (simp add: reader_ok_def layout_ok_def)
qed

lemma resolveSuffix_written:
  assumes r: "reader_ok r" "lookup_desc r (sv_id v) = Some d" "at_SampleIDAll (ed_attr d)"
    and raw: "raw = body @ suffix_bytes (rd_order r) (suffix_of (ed_attr d)) v" "8 \<le> length body"
  shows "resolveSuffix r raw = Inr \<lparr>sl_start = int (length body), sl_mask = suffix_of (ed_attr d)\<rparr>"
proof -
  let ?m = "suffix_of (ed_attr d)"
  have m: "at_SampleType (ed_attr d) AND suffixBits = ?m" by (simp add: suffix_of_def)
  have fits: "attr_fits r (ed_attr d)" using lookup_desc_in [OF r(1,2)] by simp
  have all: "rd_sampleIDAll r"
    using fits r(1,3) by (simp add: attr_fits_def reader_ok_def layout_ok_def)
  have "resolveMask r raw = Inr ?m"
  proof (cases "rd_suffixIDAll r")
    case True
    then have i: "has ?m SampleIdentifier" using fits r(3) by (simp add: attr_fits_def)
    then obtain front where front: "raw = front @ put64 (rd_order r) (sv_id v)" "8 \<le> length front"
      using raw by (auto simp: suffix_bytes_def bytes_if_def)
    then have "u64_at (rd_order r) raw (length raw - 8) = Inr (sv_id v)"
      using words_at_append(3) [of "length front" front _ "sv_id v" "[]"] by simp
    moreover have "has (at_SampleType (ed_attr d)) SampleIdentifier"
      using i has_suffix_identifier by simp
    ultimately show ?thesis
      using True r front by (simp add: resolveMask_def suffix_of_def)
  next
    case False
    then show ?thesis using fits r(3) by (simp add: resolveMask_def attr_fits_def)
  qed
  moreover have "int (length raw) - int (suffix_size ?m) = int (length body)"
    by (simp add: raw(1) length_suffix_bytes)
  ultimately show ?thesis
    using all raw(2) by (simp add: resolveSuffix_def Let_def)
qed


section \<open>Reading the members\<close>

definition stores :: "(suffix_state, unit) act \<Rightarrow> bytes \<Rightarrow> bytes \<Rightarrow> (suffix_state \<Rightarrow> suffix_state) \<Rightarrow> bool" where
  "stores m data bs f \<longleftrightarrow>
     (\<forall>s p. f (s\<lparr>ss_pos := p\<rparr>) = (f s)\<lparr>ss_pos := p\<rparr>) \<and>
     (\<forall>s rest. ss_pos s \<le> length data \<and> drop (ss_pos s) data = bs @ rest \<longrightarrow>
        m s = (Inr (), f (s\<lparr>ss_pos := ss_pos s + length bs\<rparr>)))"

lemma storesD:
  "stores m data bs f \<Longrightarrow> ss_pos s \<le> length data \<Longrightarrow> drop (ss_pos s) data = bs @ rest \<Longrightarrow>
   m s = (Inr (), (f s)\<lparr>ss_pos := ss_pos s + length bs\<rparr>)"
  by (auto simp: stores_def)

lemma stores_bind:
  assumes "stores m data bs f" "stores k data cs g"
  shows "stores (bindA m (\<lambda>_. k)) data (bs @ cs) (\<lambda>s. g (f s))"
  unfolding stores_def
proof (intro conjI allI impI)
  show "g (f (s\<lparr>ss_pos := p\<rparr>)) = (g (f s))\<lparr>ss_pos := p\<rparr>" for s p
    using assms by (simp add: stores_def)
  fix s :: suffix_state and rest assume "ss_pos s \<le> length data \<and> drop (ss_pos s) data = (bs @ cs) @ rest"
  then have p: "ss_pos s \<le> length data" "drop (ss_pos s) data = (bs @ cs) @ rest" by auto
  let ?s = "(f s)\<lparr>ss_pos := ss_pos s + length bs\<rparr>"
  have m: "m s = (Inr (), ?s)" using storesD [OF assms(1) p(1), of "cs @ rest"] p(2) by simp
  have k: "k ?s = (Inr (), (g ?s)\<lparr>ss_pos := ss_pos s + length bs + length cs\<rparr>)"
    using storesD [OF assms(2), of ?s rest] length_bytes [OF p(1), of bs "cs @ rest"]
      drop_bytes [of "ss_pos s" data bs "cs @ rest"] p(2) by simp
  show "bindA m (\<lambda>_. k) s = (Inr (), g (f (s\<lparr>ss_pos := ss_pos s + length (bs @ cs)\<rparr>)))"
    using m k assms by (simp add: bindA_Inr stores_def add.assoc)
qed

lemma stores_skip: "stores (okA ()) data [] (\<lambda>s. s)"
  by (simp add: stores_def act_simps)

lemma stores_when:
  "stores m data bs f \<Longrightarrow> stores (whenA c () m) data (bytes_if c bs) (if c then f else (\<lambda>s. s))"
  by (simp add: whenA_def bytes_if_def stores_skip)

lemma stores_storeA:
  "parses m data bs v \<Longrightarrow> (\<And>s p. put v (s\<lparr>ss_pos := p\<rparr>) = (put v s)\<lparr>ss_pos := p\<rparr>) \<Longrightarrow>
   stores (storeA m zero put) data bs (put v)"
  by (auto simp: stores_def storeA_def parsesD)

lemma stores_storePair:
  "(\<And>s p. put (a, b) (s\<lparr>ss_pos := p\<rparr>) = (put (a, b) s)\<lparr>ss_pos := p\<rparr>) \<Longrightarrow>
   stores (storePair order data put) data (put32 order a @ put32 order b) (put (a, b))"
  using parsesD [OF parses_pair32, of _ data order a b] by (auto simp: stores_def storePair_def pair32_first_def)

text \<open>What the members of the suffix do to the state.\<close>

definition suffix_effect :: "clock_info \<Rightarrow> u64 \<Rightarrow> suffix_values \<Rightarrow> suffix_state \<Rightarrow> suffix_state" where
  "suffix_effect clock bits v s =
     s\<lparr>ss_record := (ss_record s)
         \<lparr>tr_PID := if has bits SampleTID then Some (sv_pid v) else tr_PID (ss_record s),
          tr_TID := if has bits SampleTID then Some (sv_tid v) else tr_TID (ss_record s),
          tr_Timestamp := if has bits SampleTime then perf_timestamp clock (sv_time v) else tr_Timestamp (ss_record s),
          tr_CPU := if has bits SampleCPU then Some (sv_cpu v) else tr_CPU (ss_record s)\<rparr>,
       ss_current := (ss_current s)
         \<lparr>dt_StreamID := if has bits SampleStreamID then Some (sv_stream v) else dt_StreamID (ss_current s)\<rparr>,
       ss_id := if has bits SampleID then Some (sv_id v) else ss_id s,
       ss_identifier := if has bits SampleIdentifier then Some (sv_id v) else ss_identifier s\<rparr>"

lemma suffixMembers_written:
  assumes "ss_pos s \<le> length data" "drop (ss_pos s) data = suffix_bytes order bits v"
  shows "suffixMembers order clock data bits s =
    (Inr (), (suffix_effect clock bits v s)\<lparr>ss_pos := ss_pos s + length (suffix_bytes order bits v)\<rparr>)"
proof -
  let ?tid = "\<lambda>s :: suffix_state. s\<lparr>ss_record := ss_record s\<lparr>tr_PID := Some (sv_pid v), tr_TID := Some (sv_tid v)\<rparr>\<rparr>"
  let ?time = "\<lambda>s :: suffix_state. s\<lparr>ss_record := ss_record s\<lparr>tr_Timestamp := perf_timestamp clock (sv_time v)\<rparr>\<rparr>"
  let ?id = "\<lambda>s :: suffix_state. s\<lparr>ss_id := Some (sv_id v)\<rparr>" and ?ident = "\<lambda>s :: suffix_state. s\<lparr>ss_identifier := Some (sv_id v)\<rparr>"
  let ?stream = "\<lambda>s :: suffix_state. s\<lparr>ss_current := ss_current s\<lparr>dt_StreamID := Some (sv_stream v)\<rparr>\<rparr>"
  let ?cpu = "\<lambda>s :: suffix_state. s\<lparr>ss_record := ss_record s\<lparr>tr_CPU := Some (sv_cpu v)\<rparr>\<rparr>"
  have tid: "stores (storePair order data (\<lambda>p s. s\<lparr>ss_record := ss_record s\<lparr>tr_PID := Some (fst p), tr_TID := Some (snd p)\<rparr>\<rparr>))
      data (put32 order (sv_pid v) @ put32 order (sv_tid v)) ?tid"
    using stores_storePair [of "\<lambda>p s. s\<lparr>ss_record := ss_record s\<lparr>tr_PID := Some (fst p), tr_TID := Some (snd p)\<rparr>\<rparr>"
        "sv_pid v" "sv_tid v"] by simp
  have cpu: "stores (storePair order data (\<lambda>p s. s\<lparr>ss_record := ss_record s\<lparr>tr_CPU := Some (fst p)\<rparr>\<rparr>))
      data (put32 order (sv_cpu v) @ put32 order (sv_reserved v)) ?cpu"
    using stores_storePair [of "\<lambda>p s. s\<lparr>ss_record := ss_record s\<lparr>tr_CPU := Some (fst p)\<rparr>\<rparr>"
        "sv_cpu v" "sv_reserved v"] by simp
  have time: "stores (storeA (cursor_u64 order data) 0 (\<lambda>v s. s\<lparr>ss_record := ss_record s\<lparr>tr_Timestamp := perf_timestamp clock v\<rparr>\<rparr>))
      data (put64 order (sv_time v)) ?time"
    using stores_storeA [OF parses_u64, of "\<lambda>v s. s\<lparr>ss_record := ss_record s\<lparr>tr_Timestamp := perf_timestamp clock v\<rparr>\<rparr>"] by simp
  have ids: "stores (storeA (cursor_optional64 order data) None (\<lambda>v s. s\<lparr>ss_id := v\<rparr>)) data (put64 order (sv_id v)) ?id"
      "stores (storeA (cursor_optional64 order data) None (\<lambda>v s. s\<lparr>ss_identifier := v\<rparr>)) data (put64 order (sv_id v)) ?ident"
      "stores (storeA (cursor_optional64 order data) None (\<lambda>v s. s\<lparr>ss_current := ss_current s\<lparr>dt_StreamID := v\<rparr>\<rparr>))
        data (put64 order (sv_stream v)) ?stream"
    by (rule stores_storeA [OF parses_optional64, where put = "\<lambda>v s. s\<lparr>ss_id := v\<rparr>"], simp,
        rule stores_storeA [OF parses_optional64, where put = "\<lambda>v s. s\<lparr>ss_identifier := v\<rparr>"], simp,
        rule stores_storeA [OF parses_optional64, where put = "\<lambda>v s. s\<lparr>ss_current := ss_current s\<lparr>dt_StreamID := v\<rparr>\<rparr>"], simp)
  have "stores (suffixMembers order clock data bits) data (suffix_bytes order bits v)
    (\<lambda>s. (if has bits SampleIdentifier then ?ident else (\<lambda>s. s))
      ((if has bits SampleCPU then ?cpu else (\<lambda>s. s))
      ((if has bits SampleStreamID then ?stream else (\<lambda>s. s))
      ((if has bits SampleID then ?id else (\<lambda>s. s))
      ((if has bits SampleTime then ?time else (\<lambda>s. s))
      ((if has bits SampleTID then ?tid else (\<lambda>s. s)) s))))))"
    unfolding suffixMembers_def suffix_bytes_def
    by (rule stores_bind [OF stores_when [OF tid] stores_bind [OF stores_when [OF time] stores_bind [OF stores_when [OF ids(1)]
        stores_bind [OF stores_when [OF ids(3)] stores_bind [OF stores_when [OF cpu] stores_when [OF ids(2)]]]]]])
  from storesD [OF this assms(1), of "[]"] assms(2)
  show ?thesis
    by (simp add: suffix_effect_def) 
qed


section \<open>The whole suffix\<close>

definition suffixed_record :: "clock_info \<Rightarrow> u64 \<Rightarrow> suffix_values \<Rightarrow> trecord \<Rightarrow> trecord" where
  "suffixed_record clock bits v rec = rec
     \<lparr>tr_PID := if has bits SampleTID then Some (sv_pid v) else tr_PID rec,
      tr_TID := if has bits SampleTID then Some (sv_tid v) else tr_TID rec,
      tr_Timestamp := if has bits SampleTime then perf_timestamp clock (sv_time v) else tr_Timestamp rec,
      tr_CPU := if has bits SampleCPU then Some (sv_cpu v) else tr_CPU rec\<rparr>"

definition suffixed_details :: "u64 \<Rightarrow> suffix_values \<Rightarrow> record_details \<Rightarrow> record_details" where
  "suffixed_details bits v dt = dt
     \<lparr>dt_StreamID := if has bits SampleStreamID then Some (sv_stream v) else dt_StreamID dt,
      dt_ID := if has bits SampleID \<or> has bits SampleIdentifier then Some (sv_id v) else dt_ID dt\<rparr>"

lemma applySuffixLayout_written:
  assumes "rd_sampleIDAll r" "raw = body @ suffix_bytes (rd_order r) bits v"
    "r' = r\<lparr>rd_current := suffixed_details bits v (rd_current r)\<rparr>"
  shows "applySuffixLayout rec raw \<lparr>sl_start = int (length body), sl_mask = bits\<rparr> r =
    (Inr (nameByID r' (suffixed_record (rd_clock r) bits v rec)), r')"
proof -
  let ?s = "\<lparr>ss_pos = length body, ss_record = rec, ss_current = rd_current r, ss_id = None, ss_identifier = None\<rparr>"
  let ?t = "(suffix_effect (rd_clock r) bits v ?s)\<lparr>ss_pos := length raw\<rparr>"
  have "suffixMembers (rd_order r) (rd_clock r) raw bits ?s = (Inr (), ?t)"
    using suffixMembers_written [of ?s raw "rd_order r" bits v "rd_clock r"] assms(2) by simp
  then show ?thesis
    using assms(1,3)
    by (simp add: applySuffixLayout_def Let_def suffix_effect_def suffixed_record_def suffixed_details_def)
qed

lemma applySuffix_written:
  assumes "reader_ok r" "lookup_desc r (sv_id v) = Some d" "at_SampleIDAll (ed_attr d)"
    and "raw = body @ suffix_bytes (rd_order r) (suffix_of (ed_attr d)) v" "8 \<le> length body"
    and r': "r' = r\<lparr>rd_current := suffixed_details (suffix_of (ed_attr d)) v (rd_current r)\<rparr>"
  shows "applySuffix rec raw r =
    (Inr (nameByID r' (suffixed_record (rd_clock r) (suffix_of (ed_attr d)) v rec)), r')"
proof -
  have "rd_sampleIDAll r"
    using lookup_desc_in [OF assms(1,2)] assms(1,3) by (simp add: attr_fits_def reader_ok_def layout_ok_def)
  then show ?thesis
    using resolveSuffix_written [OF assms(1-5)] applySuffixLayout_written [OF _ assms(4) r']
    by (simp add: applySuffix_def)
qed

definition demo_reader :: reader where
  "demo_reader = (newReader demo_options demo_limits)
     \<lparr>rd_attrs := [\<lparr>ed_attr = demo_attr\<lparr>at_SampleType := SampleTID OR SampleIdentifier, at_SampleIDAll := True\<rparr>,
                    ed_name = ''e'', ed_ids = [7], ed_format = None\<rparr>],
      rd_byID := [(7, 0)], rd_layoutSet := True, rd_sampleIDOffset := 8, rd_suffixLayoutSet := True,
      rd_suffixMask := SampleTID OR SampleIdentifier, rd_suffixIDAll := True, rd_sampleIDAll := True\<rparr>"

lemma demo_reader_table: "reader_ok demo_reader"
  by (auto simp: demo_reader_def newReader_def reader_ok_def table_ok_def layout_ok_def bounds_ok_def limits_ok_def
      demo_limits_def attr_fits_def suffix_of_def sampleLookupOffset_def has_def split: if_splits)

definition demo_suffix :: suffix_values where
  "demo_suffix = \<lparr>sv_pid = 1, sv_tid = 2, sv_time = 0, sv_id = 7, sv_stream = 0, sv_cpu = 0, sv_reserved = 0\<rparr>"

end
