(* ===== verification/PerfRecords.thy ===== *)
theory PerfRecords imports PerfSuffix Materialize begin

text \<open>
  Package \<open>perfdata\<close>, the decoding of one record in \<open>records.go\<close>: samples, with the payload handed to the
  tracefs decoder and to the EventHeader decoder, lost records and the records of tasks, mappings and
  context switches, each with the \<open>sample_id_all\<close> suffix. The functions return the record and leave its
  details in \<open>rd_current\<close>.
\<close>


section \<open>Samples\<close>

definition payloadByteOrder :: "reader \<Rightarrow> byte_order" where
  "payloadByteOrder r =
     (if td_ByteOrder (rd_tracing r) \<noteq> ByteOrderUnknown then td_ByteOrder (rd_tracing r) else rd_byteOrder r)"

definition addUnsupportedDiagnostic :: "sample_details \<Rightarrow> trecord \<Rightarrow> trecord" where
  "addUnsupportedDiagnostic sample rec =
     (if sd_UnsupportedSampleBits sample = 0 then rec
      else add_diagnostic
        \<lparr>diag_Severity = SeverityWarning, diag_Offset = 0, diag_Stage = ''sample'',
         diag_Message = ''sample bits 0x'' @ format_hex (unat (sd_UnsupportedSampleBits sample)) @ '' retained as trailing data'',
         diag_Err = Err ErrUnsupported\<rparr> rec)"

text \<open>A sample whose event has no format, or which has no raw data.\<close>

definition plainSample :: "bytes \<Rightarrow> event_desc \<Rightarrow> sample_details \<Rightarrow> envelope \<Rightarrow> trecord" where
  "plainSample raw desc sample e =
     (let rec = applyEnvelope (rawRecord PerfSample raw) e;
          rec = (if ed_name desc \<noteq> [] then rec\<lparr>tr_Identity := tr_Identity rec\<lparr>id_Name := ed_name desc\<rparr>\<rparr> else rec)
      in addUnsupportedDiagnostic sample rec)"

text \<open>\<open>event.Event.Common = ordinary.Event.Common\<close>, when both are events.\<close>

definition take_common :: "trecord \<Rightarrow> record_body \<Rightarrow> record_body" where
  "take_common ordinary body =
     (case body of
        RecordEvent ev \<Rightarrow>
          (case tr_Body ordinary of
             RecordEvent ev' \<Rightarrow> RecordEvent (ev\<lparr>er_Common := er_Common ev'\<rparr>)
           | _ \<Rightarrow> body)
      | _ \<Rightarrow> body)"

definition mergeEvent :: "bytes \<Rightarrow> envelope \<Rightarrow> trecord \<Rightarrow> trecord \<Rightarrow> trecord" where
  "mergeEvent raw e ordinary event = event
     \<lparr>tr_Timestamp := env_Timestamp e, tr_CPU := env_CPU e, tr_PID := env_PID e, tr_TID := env_TID e,
      tr_Raw := raw, tr_Body := take_common ordinary (tr_Body event),
      tr_Diagnostics := tr_Diagnostics ordinary @ tr_Diagnostics event\<rparr>"

definition sampleOptions :: "reader \<Rightarrow> envelope \<Rightarrow> decode_options" where
  "sampleOptions r e =
     \<lparr>do_ByteOrder = payloadByteOrder r, do_LongSize = rd_longSize r, do_Timestamp = env_Timestamp e,
      do_CPU = env_CPU e, do_PID = env_PID e, do_TID = env_TID e,
      do_MaxArrayElements = lm_MaxArrayElements (rd_limits r)\<rparr>"

definition formattedSample ::
  "host \<Rightarrow> bytes \<Rightarrow> format \<Rightarrow> sample_details \<Rightarrow> envelope \<Rightarrow> trecord read_op" where
  "formattedSample h raw fmt sample e =
     bindA (getA id) (\<lambda>r.
     catchA (tracefs_Decode h (Some fmt) (sd_Raw sample) (sampleOptions r e))
       (\<lambda>err. okA (corrupt raw ''tracefs payload could not be decoded'' err))
       (\<lambda>ordinary.
         if fm_Fields fmt \<noteq> [] \<and> ff_Name (hd (fm_Fields fmt)) = ''eventheader_flags'' then
           let offset = ff_Offset (hd (fm_Fields fmt)) in
           if offset < 0 \<or> offset > int (length (sd_Raw sample))
           then okA (corrupt raw ''EventHeader field offset is invalid'' (Err ErrTruncated))
           else
             bindA (liftA (slice_fromI (sd_Raw sample) offset)) (\<lambda>payload.
             catchA (Decode zero_limits (fm_Name fmt) payload)
               (\<lambda>err. okA (corrupt raw ''EventHeader payload could not be decoded'' err))
               (\<lambda>event. okA (addUnsupportedDiagnostic sample (mergeEvent raw e ordinary event))))
         else okA (addUnsupportedDiagnostic sample (ordinary\<lparr>tr_Raw := raw\<rparr>))))"

definition note_sample :: "sample_details \<Rightarrow> record_details \<Rightarrow> record_details" where
  "note_sample sample dt = dt
     \<lparr>dt_ID := if sd_ID sample \<noteq> None then sd_ID sample else sd_Identifier sample,
      dt_StreamID := sd_StreamID sample, dt_Sample := Some sample\<rparr>"

definition perf_decodeSample :: "host \<Rightarrow> bytes \<Rightarrow> trecord read_op" where
  "perf_decodeSample h raw =
     bindA (getA id) (\<lambda>r.
     if rd_sampleIDOffset r < 0 \<or> rd_sampleIDOffset r + 8 > int (length raw)
     then okA (corrupt raw ''sample has no usable ID'' (Err ErrUnknownID))
     else
       bindA (liftA (u64_at (rd_order r) raw (nat (rd_sampleIDOffset r)))) (\<lambda>i.
       case lookup_desc r i of
         None \<Rightarrow> okA (corrupt raw (''unknown perf sample ID '' @ format_dec (unat i)) (Err ErrUnknownID))
       | Some desc \<Rightarrow>
           catchA (parseSample (rd_limits r) (rd_order r) (rd_clock r) raw (ed_attr desc))
             (\<lambda>err. okA (corrupt raw ''invalid perf sample'' err))
             (\<lambda>(sample, e).
               if sd_ID sample \<noteq> None \<and> sd_Identifier sample \<noteq> None \<and> sd_ID sample \<noteq> sd_Identifier sample
               then okA (corrupt raw ''sample ID and identifier disagree'' (Err ErrInvalid))
               else
                 bindA (modA (\<lambda>r. r\<lparr>rd_current := note_sample sample (rd_current r)\<rparr>)) (\<lambda>_.
                 case ed_format desc of
                   None \<Rightarrow> okA (plainSample raw desc sample e)
                 | Some fmt \<Rightarrow>
                     if sd_Raw sample = [] then okA (plainSample raw desc sample e)
                     else formattedSample h raw fmt sample e))))"


section \<open>Lost records\<close>

text \<open>\<open>if d := r.byID[id]; d != nil && d.name != "" { record.Identity.Name = d.name }\<close>\<close>

definition nameOf :: "reader \<Rightarrow> u64 \<Rightarrow> trecord \<Rightarrow> trecord" where
  "nameOf r i rec =
     (case lookup_desc r i of
        None \<Rightarrow> rec
      | Some d \<Rightarrow> if ed_name d \<noteq> [] then rec\<lparr>tr_Identity := tr_Identity rec\<lparr>id_Name := ed_name d\<rparr>\<rparr> else rec)"

definition applyNamed :: "trecord \<Rightarrow> bytes \<Rightarrow> suffix_layout \<Rightarrow> trecord read_op" where
  "applyNamed rec raw layout =
     bindA (applySuffixLayout rec raw layout) (\<lambda>rec. bindA (getA id) (\<lambda>r. okA (nameByID r rec)))"

definition decodeLost :: "u32 \<Rightarrow> bytes \<Rightarrow> trecord read_op" where
  "decodeLost type raw =
     (let minimum = (if type = PerfLost then 24 else 16) in
      if length raw < minimum then okA (corrupt raw ''lost record is truncated'' (Err ErrTruncated))
      else
        bindA (getA id) (\<lambda>r.
        catchA (resolveSuffix r raw) (\<lambda>err. okA (corrupt raw ''invalid sample_id_all suffix'' err)) (\<lambda>layout.
        if sl_start layout < int minimum
        then okA (corrupt raw ''lost record overlaps sample_id_all suffix'' (Err ErrTruncated))
        else
          let rec = (\<lambda>count. (rawRecord type raw)\<lparr>tr_Body := RecordLost count\<rparr>) in
          if type = PerfLost then
            bindA (liftA (u64_at (rd_order r) raw 8)) (\<lambda>i.
            bindA (liftA (u64_at (rd_order r) raw 16)) (\<lambda>count.
            bindA (modA (\<lambda>r. r\<lparr>rd_current := rd_current r\<lparr>dt_ID := Some i\<rparr>\<rparr>)) (\<lambda>_.
            applyNamed (nameOf r i (rec count)) raw layout)))
          else
            bindA (liftA (u64_at (rd_order r) raw 8)) (\<lambda>count. applyNamed (rec count) raw layout))))"


section \<open>Tasks, mappings and context switches\<close>

text \<open>
  The body of a record either is corrupt, with the reason, or changes the record and its details.
\<close>

type_synonym body_outcome = "(string \<times> sentinel) + (trecord \<times> record_details)"

definition knownComm :: "endian \<Rightarrow> bytes \<Rightarrow> int \<Rightarrow> trecord \<Rightarrow> record_details \<Rightarrow> body_outcome result" where
  "knownComm order raw bodyEnd rec dt =
     (if bodyEnd < 16 then Inr (Inl (''COMM is truncated'', ErrTruncated))
      else
        bindR (u32_at order raw 8) (\<lambda>pid.
        bindR (u32_at order raw 12) (\<lambda>tid.
        bindR (sliceI raw 16 bodyEnd) (\<lambda>b.
        case terminated b of
          None \<Rightarrow> Inr (Inl (''COMM name is not terminated'', ErrInvalid))
        | Some name \<Rightarrow> Inr (Inr (rec\<lparr>tr_PID := Some pid, tr_TID := Some tid\<rparr>, dt\<lparr>dt_Comm := Some name\<rparr>))))))"

definition knownTask :: "endian \<Rightarrow> clock_info \<Rightarrow> bytes \<Rightarrow> int \<Rightarrow> trecord \<Rightarrow> record_details \<Rightarrow> body_outcome result" where
  "knownTask order clock raw bodyEnd rec dt =
     (if bodyEnd < 32 then Inr (Inl (''task record is truncated'', ErrTruncated))
      else
        bindR (u32_at order raw 8) (\<lambda>pid.
        bindR (u32_at order raw 16) (\<lambda>tid.
        bindR (u32_at order raw 12) (\<lambda>ppid.
        bindR (u32_at order raw 20) (\<lambda>ptid.
        bindR (u64_at order raw 24) (\<lambda>time.
        Inr (Inr (rec\<lparr>tr_PID := Some pid, tr_TID := Some tid, tr_Timestamp := perf_timestamp clock time\<rparr>,
                  dt\<lparr>dt_Task := Some \<lparr>tk_ParentPID = ppid, tk_ParentTID = ptid\<rparr>\<rparr>))))))))"

definition knownThrottle :: "endian \<Rightarrow> clock_info \<Rightarrow> bytes \<Rightarrow> int \<Rightarrow> trecord \<Rightarrow> record_details \<Rightarrow> body_outcome result" where
  "knownThrottle order clock raw bodyEnd rec dt =
     (if bodyEnd < 32 then Inr (Inl (''throttle record is truncated'', ErrTruncated))
      else
        bindR (u64_at order raw 8) (\<lambda>time.
        bindR (u64_at order raw 16) (\<lambda>i.
        bindR (u64_at order raw 24) (\<lambda>stream.
        Inr (Inr (rec\<lparr>tr_Timestamp := perf_timestamp clock time\<rparr>,
                  dt\<lparr>dt_ID := Some i, dt_StreamID := Some stream\<rparr>))))))"

text \<open>The members that MMAP and MMAP2 share.\<close>

definition mmap_range :: "endian \<Rightarrow> bytes \<Rightarrow> mmap_details result" where
  "mmap_range order raw =
     bindR (u64_at order raw 16) (\<lambda>address.
     bindR (u64_at order raw 24) (\<lambda>len.
     bindR (u64_at order raw 32) (\<lambda>pageOffset.
     Inr \<lparr>mm_Address = address, mm_Length = len, mm_PageOffset = pageOffset, mm_Filename = [], mm_Major = 0,
          mm_Minor = 0, mm_Inode = 0, mm_Generation = 0, mm_Protection = 0, mm_Flags = 0, mm_BuildID = []\<rparr>)))"

definition knownMmap :: "endian \<Rightarrow> bytes \<Rightarrow> int \<Rightarrow> trecord \<Rightarrow> record_details \<Rightarrow> body_outcome result" where
  "knownMmap order raw bodyEnd rec dt =
     (if bodyEnd < 40 then Inr (Inl (''MMAP is truncated'', ErrTruncated))
      else
        bindR (u32_at order raw 8) (\<lambda>pid.
        bindR (u32_at order raw 12) (\<lambda>tid.
        bindR (sliceI raw 40 bodyEnd) (\<lambda>b.
        case terminated b of
          None \<Rightarrow> Inr (Inl (''MMAP name is not terminated'', ErrInvalid))
        | Some name \<Rightarrow>
            bindR (mmap_range order raw) (\<lambda>mm.
            Inr (Inr (rec\<lparr>tr_PID := Some pid, tr_TID := Some tid\<rparr>,
                      dt\<lparr>dt_Mmap := Some (mm\<lparr>mm_Filename := name\<rparr>)\<rparr>)))))))"

text \<open>The identity of the mapped file: a build ID, or its device and inode.\<close>

definition mmap_identity :: "endian \<Rightarrow> u16 \<Rightarrow> bytes \<Rightarrow> mmap_details \<Rightarrow> mmap_details option result" where
  "mmap_identity order misc raw mm =
     (if misc AND 0x4000 \<noteq> 0 then
        bindR (index raw 40) (\<lambda>n.
        if unat n > 20 then Inr None
        else bindR (slice raw 44 (44 + unat n)) (\<lambda>b. Inr (Some (mm\<lparr>mm_BuildID := b\<rparr>))))
      else
        bindR (u32_at order raw 40) (\<lambda>major.
        bindR (u32_at order raw 44) (\<lambda>minor.
        bindR (u64_at order raw 48) (\<lambda>inode.
        bindR (u64_at order raw 56) (\<lambda>generation.
        Inr (Some (mm\<lparr>mm_Major := major, mm_Minor := minor, mm_Inode := inode, mm_Generation := generation\<rparr>)))))))"

definition knownMmap2 :: "endian \<Rightarrow> u16 \<Rightarrow> bytes \<Rightarrow> int \<Rightarrow> trecord \<Rightarrow> record_details \<Rightarrow> body_outcome result" where
  "knownMmap2 order misc raw bodyEnd rec dt =
     (if bodyEnd < 72 then Inr (Inl (''MMAP2 is truncated'', ErrTruncated))
      else
        bindR (u32_at order raw 8) (\<lambda>pid.
        bindR (u32_at order raw 12) (\<lambda>tid.
        bindR (sliceI raw 72 bodyEnd) (\<lambda>b.
        case terminated b of
          None \<Rightarrow> Inr (Inl (''MMAP2 name is not terminated'', ErrInvalid))
        | Some name \<Rightarrow>
            bindR (mmap_range order raw) (\<lambda>mm.
            bindR (u32_at order raw 64) (\<lambda>prot.
            bindR (u32_at order raw 68) (\<lambda>flags.
            bindR (mmap_identity order misc raw (mm\<lparr>mm_Protection := prot, mm_Flags := flags, mm_Filename := name\<rparr>)) (\<lambda>ident.
            case ident of
              None \<Rightarrow> Inr (Inl (''MMAP2 build ID is invalid'', ErrInvalid))
            | Some mm \<Rightarrow>
                Inr (Inr (rec\<lparr>tr_PID := Some pid, tr_TID := Some tid\<rparr>, dt\<lparr>dt_Mmap := Some mm\<rparr>))))))))))"

definition switch_of :: "u16 \<Rightarrow> u32 option \<Rightarrow> u32 option \<Rightarrow> switch_details" where
  "switch_of misc pid tid =
     \<lparr>sw_Out = misc AND 0x2000 \<noteq> 0, sw_Preempt = misc AND 0x4000 \<noteq> 0, sw_NextPrevPID = pid, sw_NextPrevTID = tid\<rparr>"

definition knownSwitchCPUWide :: "endian \<Rightarrow> u16 \<Rightarrow> bytes \<Rightarrow> int \<Rightarrow> trecord \<Rightarrow> record_details \<Rightarrow> body_outcome result" where
  "knownSwitchCPUWide order misc raw bodyEnd rec dt =
     (if bodyEnd < 16 then Inr (Inl (''SWITCH_CPU_WIDE is truncated'', ErrTruncated))
      else
        bindR (u32_at order raw 8) (\<lambda>pid.
        bindR (u32_at order raw 12) (\<lambda>tid.
        Inr (Inr (rec, dt\<lparr>dt_Switch := Some (switch_of misc (Some pid) (Some tid))\<rparr>)))))"

definition knownBody ::
  "endian \<Rightarrow> clock_info \<Rightarrow> u32 \<Rightarrow> u16 \<Rightarrow> bytes \<Rightarrow> int \<Rightarrow> trecord \<Rightarrow> record_details \<Rightarrow> body_outcome result" where
  "knownBody order clock type misc raw bodyEnd rec dt =
     (if type = PerfComm then knownComm order raw bodyEnd rec dt
      else if type = PerfExit \<or> type = PerfFork then knownTask order clock raw bodyEnd rec dt
      else if type = PerfThrottle \<or> type = PerfUnthrottle then knownThrottle order clock raw bodyEnd rec dt
      else if type = PerfMmap then knownMmap order raw bodyEnd rec dt
      else if type = PerfMmap2 then knownMmap2 order misc raw bodyEnd rec dt
      else if type = PerfSwitch then Inr (Inr (rec, dt\<lparr>dt_Switch := Some (switch_of misc None None)\<rparr>))
      else if type = PerfSwitchCPUWide then knownSwitchCPUWide order misc raw bodyEnd rec dt
      else Inr (Inr (rec, dt)))"

definition decodeKnown :: "u32 \<Rightarrow> u16 \<Rightarrow> bytes \<Rightarrow> trecord read_op" where
  "decodeKnown type misc raw =
     bindA (getA id) (\<lambda>r.
     catchA (resolveSuffix r raw) (\<lambda>err. okA (corrupt raw ''invalid sample_id_all suffix'' err)) (\<lambda>layout.
     if sl_start layout < 8 then okA (corrupt raw ''invalid sample_id_all suffix'' (Err ErrTruncated))
     else
       bindA (liftA (knownBody (rd_order r) (rd_clock r) type misc raw (sl_start layout) (rawRecord type raw) (rd_current r)))
         (\<lambda>res. case res of
           Inl (reason, e) \<Rightarrow> okA (corrupt raw reason (Err e))
         | Inr (rec, dt) \<Rightarrow>
             bindA (modA (\<lambda>r. r\<lparr>rd_current := dt\<rparr>)) (\<lambda>_. applyNamed rec raw layout))))"


section \<open>Any record\<close>

text \<open>The record without the block of data that may follow it.\<close>

definition wire_of :: "endian \<Rightarrow> bytes \<Rightarrow> bytes result" where
  "wire_of order raw =
     (if length raw \<ge> 8 then
        bindR (u16_at order raw 6) (\<lambda>n.
        if 8 \<le> unat n \<and> unat n \<le> length raw then slice raw 0 (unat n) else Inr raw)
      else Inr raw)"

definition decodeRecord :: "host \<Rightarrow> u32 \<Rightarrow> u16 \<Rightarrow> bytes \<Rightarrow> trecord read_op" where
  "decodeRecord h type misc raw =
     (if type = PerfSample then perf_decodeSample h raw
      else if type = PerfLost \<or> type = PerfLostSamples then decodeLost type raw
      else if type \<in> {PerfComm, PerfExit, PerfThrottle, PerfUnthrottle, PerfFork, PerfMmap, PerfMmap2, PerfSwitch,
                      PerfSwitchCPUWide} then decodeKnown type misc raw
      else
        bindA (getA id) (\<lambda>r.
        bindA (liftA (wire_of (rd_order r) raw)) (\<lambda>wire.
        if type < 64 then applySuffix (rawRecord type raw) wire else okA (rawRecord type raw))))"

end
