(* ===== verification/PerfSafe.thy ===== *)
theory PerfSafe imports PerfRecords begin

text \<open>
  No record makes the decoder of \<open>perfdata/records.go\<close> panic, and decoding one changes nothing in the
  reader but the details of the current record, so the invariant of the table is kept.
\<close>


section \<open>The suffix\<close>

lemma safe_resolveSuffix: "safe (resolveSuffix r raw)"
  unfolding resolveSuffix_def resolveMask_def Let_def
  by (intro safe_rules safe_words_at) (auto simp: not_less)

lemma resolveSuffix_start:
  "resolveSuffix r raw = Inr layout \<Longrightarrow> rd_sampleIDAll r \<Longrightarrow>
   8 \<le> sl_start layout \<and> sl_start layout \<le> int (length raw)"
  by (auto simp: resolveSuffix_def Let_def result_simps split: if_splits)

lemma resolveSuffix_end: "resolveSuffix r raw = Inr layout \<Longrightarrow> sl_start layout \<le> int (length raw)"
  by (cases "rd_sampleIDAll r") (auto simp: resolveSuffix_start, auto simp: resolveSuffix_def)

interpretation suffix: state_invariant "\<lambda>_ :: suffix_state. True" .

abbreviation inside_suffix :: "bytes \<Rightarrow> (suffix_state, unit) act \<Rightarrow> bool" where
  "inside_suffix raw m \<equiv> suffix.runs (\<lambda>s. ss_pos s \<le> length raw) m (\<lambda>_ s. ss_pos s \<le> length raw)"

lemma inside_storeA:
  assumes "inside raw m" "\<And>v s. ss_pos (put v s) = ss_pos s"
  shows "inside_suffix raw (storeA m zero put)"
proof (rule suffix.runsI)
  fix s :: suffix_state assume p: "ss_pos s \<le> length raw"
  show "fst (storeA m zero put s) \<noteq> Inl Fault"
    using cursor.runs_safe [OF assms(1) p] by (auto simp: storeA_def split: prod.split sum.split)
  show "ss_pos t \<le> length raw" if "storeA m zero put s = (Inr x, t)" for x t
    using cursor.runs_Inr [OF assms(1) p] that assms(2)
    by (auto simp: storeA_def split: prod.splits sum.splits)
qed simp

lemma inside_storePair:
  assumes "\<And>v s. ss_pos (put v s) = ss_pos s"
  shows "inside_suffix raw (storePair order raw put)"
proof (rule suffix.runsI)
  fix s :: suffix_state assume p: "ss_pos s \<le> length raw"
  show "fst (storePair order raw put s) \<noteq> Inl Fault"
    using cursor.runs_safe [OF inside_pair32 p, of order] by (auto simp: storePair_def split: prod.split sum.split)
  show "ss_pos t \<le> length raw" if "storePair order raw put s = (Inr x, t)" for x t
    using cursor.runs_Inr [OF inside_pair32 p] that assms [of "pair32_first order raw (ss_pos s)"]
    by (auto simp: storePair_def split: prod.splits sum.splits)
qed simp

lemma inside_suffix_when: "inside_suffix raw m \<Longrightarrow> inside_suffix raw (whenA c () m)"
  by (simp add: whenA_def suffix.runs_ok)

lemma inside_suffix_bind:
  "inside_suffix raw m \<Longrightarrow> inside_suffix raw k \<Longrightarrow> inside_suffix raw (bindA m (\<lambda>_. k))"
  by (rule suffix.runs_bind)

lemma suffixMembers_inside: "inside_suffix raw (suffixMembers order clock raw bits)"
  unfolding suffixMembers_def
  by (intro inside_suffix_bind inside_suffix_when inside_storeA inside_storePair inside_u64 inside_optional64) simp_all

lemma applySuffixLayout_frame:
  assumes "rd_sampleIDAll r \<Longrightarrow> sl_start layout \<le> int (length raw)"
  obtains rec' dt where "applySuffixLayout rec raw layout r = (Inr rec', r\<lparr>rd_current := dt\<rparr>)"
proof (cases "rd_sampleIDAll r")
  case True
  let ?s = "\<lparr>ss_pos = nat (sl_start layout), ss_record = rec, ss_current = rd_current r, ss_id = None, ss_identifier = None\<rparr>"
  have p: "ss_pos ?s \<le> length raw" using assms True by simp
  obtain res t where m: "suffixMembers (rd_order r) (rd_clock r) raw (sl_mask layout) ?s = (res, t)" by fastforce
  have "res \<noteq> Inl Fault"
    using suffix.runs_safe [OF suffixMembers_inside p] m by (metis fst_conv)
  then consider e where "res = Inl (Fail e)" | "res = Inr ()"
    by (metis failure.exhaust obj_sumE old.unit.exhaust)
  then have "\<exists>rec' dt. applySuffixLayout rec raw layout r = (Inr rec', r\<lparr>rd_current := dt\<rparr>)"
  proof cases
    case 1
    then show ?thesis
      unfolding applySuffixLayout_def m using True by (simp only: prod.case sum.case failure.case simp_thms if_False) blast
  next
    case 2
    then show ?thesis
      unfolding applySuffixLayout_def m Let_def using True by (simp only: prod.case sum.case simp_thms if_False) blast
  qed
  then show ?thesis using that by blast
next
  case False
  then show ?thesis using that [of rec "rd_current r"] by (simp add: applySuffixLayout_def)
qed

lemma applySuffixLayout_runs:
  "sl_start layout \<le> int (length raw) \<Longrightarrow> perf.runs reader_ok (applySuffixLayout rec raw layout) (\<lambda>_. reader_ok)"
  by (rule perf.runsI) (metis applySuffixLayout_frame Inl_Inr_False fst_conv, 
      metis applySuffixLayout_frame Inl_Inr_False fst_conv,
      metis applySuffixLayout_frame reader_ok_unread(2) snd_conv)

lemma applyNamed_runs:
  "sl_start layout \<le> int (length raw) \<Longrightarrow> perf.runs reader_ok (applyNamed rec raw layout) (\<lambda>_. reader_ok)"
  unfolding applyNamed_def
  by (intro perf.runs_bind [OF applySuffixLayout_runs] perf.runs_bind_get perf.runs_ok)

lemma applySuffix_runs: "perf.runs reader_ok (applySuffix rec raw) (\<lambda>_. reader_ok)"
proof (rule perf.runsI)
  fix r assume r: "reader_ok r"
  note runs = applySuffixLayout_runs [OF resolveSuffix_end]
  show "fst (applySuffix rec raw r) \<noteq> Inl Fault"
    using safe_resolveSuffix [of r raw] perf.runs_safe [OF runs r]
    by (auto simp: applySuffix_def safe_def split: sum.split failure.split)
  show "reader_ok t" if "applySuffix rec raw r = (Inl (Fail e), t)" for e t
    using perf.runs_Fail [OF runs r] that r by (auto simp: applySuffix_def split: sum.splits failure.splits)
  show "reader_ok t" if "applySuffix rec raw r = (Inr x, t)" for x t
    using perf.runs_Inr [OF runs r] that r by (auto simp: applySuffix_def split: sum.splits failure.splits)
qed


section \<open>Samples\<close>

lemma formattedSample_runs: "perf.runs reader_ok (formattedSample h raw fmt sample e) (\<lambda>_. reader_ok)"
  unfolding formattedSample_def Let_def
  by (intro perf.runs_bind_get perf.runs_catch perf.runs_if perf.runs_ok perf.runs_bind_lift safe_tracefs_Decode
      safe_Decode)
     (auto simp: slice_fromI_in)

lemma decodeSample_runs: "8 \<le> length raw \<Longrightarrow> perf.runs reader_ok (perf_decodeSample h raw) (\<lambda>_. reader_ok)"
  unfolding perf_decodeSample_def case_prod_unfold
  by (intro perf.runs_bind_get perf.runs_if perf.runs_ok perf.runs_bind_lift perf.runs_case_option perf.runs_catch
      perf.runs_bind_mod [where R = reader_ok] formattedSample_runs safe_words_at safe_parseSample)
     auto


section \<open>Other records\<close>

lemma decodeLost_runs: "perf.runs reader_ok (decodeLost type raw) (\<lambda>_. reader_ok)"
  unfolding decodeLost_def Let_def
  by (intro perf.runs_bind_get perf.runs_if perf.runs_ok perf.runs_bind_lift perf.runs_catch
      perf.runs_bind_mod [where R = reader_ok] applyNamed_runs safe_words_at safe_resolveSuffix resolveSuffix_end)
     (auto split: if_splits)

lemma safe_mmap: "40 \<le> length raw \<Longrightarrow> safe (mmap_range order raw)"
  "72 \<le> length raw \<Longrightarrow> safe (mmap_identity order misc raw mm)"
  unfolding mmap_range_def mmap_identity_def
  by (intro safe_rules safe_words_at safe_index safe_slice; force)+

lemma safe_knownBody:
  assumes "bodyEnd \<le> int (length raw)"
  shows "safe (knownBody order clock type misc raw bodyEnd rec dt)"
proof -
  note defs = knownComm_def knownTask_def knownThrottle_def knownMmap_def knownMmap2_def knownSwitchCPUWide_def
  show ?thesis
    unfolding knownBody_def defs
    using assms by (intro safe_rules safe_words_at safe_sliceI safe_mmap) (auto simp: not_less)
qed

lemma decodeKnown_runs: "perf.runs reader_ok (decodeKnown type misc raw) (\<lambda>_. reader_ok)"
proof -
  have "perf.runs reader_ok (case res of Inl (reason, e) \<Rightarrow> okA (corrupt raw reason (Err e))
         | Inr (rec, dt) \<Rightarrow> bindA (modA (\<lambda>r. r\<lparr>rd_current := dt\<rparr>)) (\<lambda>_. applyNamed rec raw layout)) (\<lambda>_. reader_ok)"
    if "sl_start layout \<le> int (length raw)" for res layout
    using that by (auto intro!: perf.runs_ok perf.runs_bind_mod [where R = reader_ok] applyNamed_runs split: sum.split)
  then show ?thesis
    unfolding decodeKnown_def
    by (intro perf.runs_bind_get perf.runs_catch perf.runs_if perf.runs_ok perf.runs_bind_lift safe_resolveSuffix
        safe_knownBody) (auto dest: resolveSuffix_end)
qed

lemma safe_wire_of: "safe (wire_of order raw)"
  unfolding wire_of_def by (intro safe_rules safe_words_at safe_slice) auto

lemma decodeRecord_runs: "8 \<le> length raw \<Longrightarrow> perf.runs reader_ok (decodeRecord h type misc raw) (\<lambda>_. reader_ok)"
  unfolding decodeRecord_def
  by (intro perf.runs_bind_get perf.runs_if perf.runs_ok perf.runs_bind_lift decodeSample_runs decodeLost_runs
      decodeKnown_runs applySuffix_runs safe_wire_of) auto

end
