(* ===== verification/PerfKnown.thy ===== *)
theory PerfKnown imports PerfSafe begin

text \<open>
  The records of tasks, mappings and context switches as the kernel writes them, and the proof that
  \<open>decodeKnown\<close> (\<open>perfdata/records.go\<close>) reads each of them back together with its suffix.
\<close>


section \<open>The layout of the records\<close>

datatype known_record =
    KnownComm u32 u32 string bytes
  | KnownTask u32 u32 u32 u32 u64
  | KnownThrottle u64 u64 u64
  | KnownMmap u32 u32 mmap_details bytes
  | KnownMmap2 u32 u32 mmap_details bytes bytes
  | KnownSwitch
  | KnownSwitchCPUWide u32 u32

definition text_bytes :: "string \<Rightarrow> bytes \<Rightarrow> bytes" where
  "text_bytes name padding = to_bytes name @ 0 # padding"

definition range_bytes :: "endian \<Rightarrow> mmap_details \<Rightarrow> bytes" where
  "range_bytes order mm = put64 order (mm_Address mm) @ put64 order (mm_Length mm) @ put64 order (mm_PageOffset mm)"

text \<open>24 bytes: the size of the build ID and the build ID, or device, inode and generation.\<close>

definition ident_bytes :: "endian \<Rightarrow> u16 \<Rightarrow> mmap_details \<Rightarrow> bytes \<Rightarrow> bytes" where
  "ident_bytes order misc mm padding =
     (if misc AND 0x4000 \<noteq> 0 then of_nat (length (mm_BuildID mm)) # [0, 0, 0] @ mm_BuildID mm @ padding
      else put32 order (mm_Major mm) @ put32 order (mm_Minor mm) @ put64 order (mm_Inode mm) @
           put64 order (mm_Generation mm))"

fun known_bytes :: "endian \<Rightarrow> u16 \<Rightarrow> known_record \<Rightarrow> bytes" where
  "known_bytes order misc (KnownComm pid tid name padding) = put32 order pid @ put32 order tid @ text_bytes name padding"
| "known_bytes order misc (KnownTask pid ppid tid ptid time) =
     put32 order pid @ put32 order ppid @ put32 order tid @ put32 order ptid @ put64 order time"
| "known_bytes order misc (KnownThrottle time i stream) = put64 order time @ put64 order i @ put64 order stream"
| "known_bytes order misc (KnownMmap pid tid mm padding) =
     put32 order pid @ put32 order tid @ range_bytes order mm @ text_bytes (mm_Filename mm) padding"
| "known_bytes order misc (KnownMmap2 pid tid mm idpad padding) =
     put32 order pid @ put32 order tid @ range_bytes order mm @ ident_bytes order misc mm idpad @
     put32 order (mm_Protection mm) @ put32 order (mm_Flags mm) @ text_bytes (mm_Filename mm) padding"
| "known_bytes order misc KnownSwitch = []"
| "known_bytes order misc (KnownSwitchCPUWide pid tid) = put32 order pid @ put32 order tid"

fun known_type :: "known_record \<Rightarrow> u32 set" where
  "known_type (KnownComm _ _ _ _) = {PerfComm}"
| "known_type (KnownTask _ _ _ _ _) = {PerfExit, PerfFork}"
| "known_type (KnownThrottle _ _ _) = {PerfThrottle, PerfUnthrottle}"
| "known_type (KnownMmap _ _ _ _) = {PerfMmap}"
| "known_type (KnownMmap2 _ _ _ _ _) = {PerfMmap2}"
| "known_type KnownSwitch = {PerfSwitch}"
| "known_type (KnownSwitchCPUWide _ _) = {PerfSwitchCPUWide}"

text \<open>The members of a mapping that its record does not have are zero.\<close>

definition range_only :: "mmap_details \<Rightarrow> mmap_details" where
  "range_only mm = mm\<lparr>mm_Major := 0, mm_Minor := 0, mm_Inode := 0, mm_Generation := 0, mm_Protection := 0,
     mm_Flags := 0, mm_BuildID := []\<rparr>"

definition ident_only :: "u16 \<Rightarrow> mmap_details \<Rightarrow> mmap_details" where
  "ident_only misc mm =
     (if misc AND 0x4000 \<noteq> 0 then mm\<lparr>mm_Major := 0, mm_Minor := 0, mm_Inode := 0, mm_Generation := 0\<rparr>
      else mm\<lparr>mm_BuildID := []\<rparr>)"

fun known_fits :: "u16 \<Rightarrow> known_record \<Rightarrow> bool" where
  "known_fits misc (KnownComm _ _ name _) = (CHR 0x00 \<notin> set name)"
| "known_fits misc (KnownMmap _ _ mm _) = (CHR 0x00 \<notin> set (mm_Filename mm) \<and> range_only mm = mm)"
| "known_fits misc (KnownMmap2 _ _ mm idpad _) =
     (CHR 0x00 \<notin> set (mm_Filename mm) \<and> ident_only misc mm = mm \<and>
      (misc AND 0x4000 \<noteq> 0 \<longrightarrow> length (mm_BuildID mm) + length idpad = 20))"
| "known_fits misc _ = True"

text \<open>What the body does to the record and its details.\<close>

fun known_effect :: "clock_info \<Rightarrow> u16 \<Rightarrow> known_record \<Rightarrow> trecord \<Rightarrow> record_details \<Rightarrow> trecord \<times> record_details" where
  "known_effect clock misc (KnownComm pid tid name _) rec dt =
     (rec\<lparr>tr_PID := Some pid, tr_TID := Some tid\<rparr>, dt\<lparr>dt_Comm := Some name\<rparr>)"
| "known_effect clock misc (KnownTask pid ppid tid ptid time) rec dt =
     (rec\<lparr>tr_PID := Some pid, tr_TID := Some tid, tr_Timestamp := perf_timestamp clock time\<rparr>,
      dt\<lparr>dt_Task := Some \<lparr>tk_ParentPID = ppid, tk_ParentTID = ptid\<rparr>\<rparr>)"
| "known_effect clock misc (KnownThrottle time i stream) rec dt =
     (rec\<lparr>tr_Timestamp := perf_timestamp clock time\<rparr>, dt\<lparr>dt_ID := Some i, dt_StreamID := Some stream\<rparr>)"
| "known_effect clock misc (KnownMmap pid tid mm _) rec dt =
     (rec\<lparr>tr_PID := Some pid, tr_TID := Some tid\<rparr>, dt\<lparr>dt_Mmap := Some mm\<rparr>)"
| "known_effect clock misc (KnownMmap2 pid tid mm _ _) rec dt =
     (rec\<lparr>tr_PID := Some pid, tr_TID := Some tid\<rparr>, dt\<lparr>dt_Mmap := Some mm\<rparr>)"
| "known_effect clock misc KnownSwitch rec dt = (rec, dt\<lparr>dt_Switch := Some (switch_of misc None None)\<rparr>)"
| "known_effect clock misc (KnownSwitchCPUWide pid tid) rec dt =
     (rec, dt\<lparr>dt_Switch := Some (switch_of misc (Some pid) (Some tid))\<rparr>)"


section \<open>Reading the bodies\<close>

lemma zero_to_bytes: "CHR 0x00 \<notin> set s \<Longrightarrow> 0 \<notin> set (to_bytes s)"
proof
  assume s: "CHR 0x00 \<notin> set s" and "0 \<in> set (to_bytes s)"
  then obtain c where c: "c \<in> set s" "of_char c = (0 :: byte)" by (auto simp: to_bytes_def)
  have "of_bytes (to_bytes [c]) = of_bytes [0]" using c(2) by (simp only: to_bytes_def list.map)
  also have "\<dots> = [CHR 0x00]" by (simp add: of_bytes_def char_of_def)
  finally show False using c(1) s by simp
qed

lemma terminated_text [simp]: "CHR 0x00 \<notin> set name \<Longrightarrow> terminated (text_bytes name padding) = Some name"
  by (simp add: terminated_def text_bytes_def byteIndex_append zero_to_bytes)

lemma sliceI_middle:
  "i = int (length pre) \<Longrightarrow> j = int (length pre + length mid) \<Longrightarrow> sliceI (pre @ mid @ post) i j = Inr mid"
  by (simp add: sliceI_in nat_add_distrib)

lemma range_read:
  "length pre = 16 \<Longrightarrow> mmap_range order (pre @ range_bytes order mm @ post) =
     Inr ((range_only mm)\<lparr>mm_Filename := []\<rparr>)"
  by (simp add: mmap_range_def range_bytes_def range_only_def)

lemma length_range [simp]: "length (range_bytes order mm) = 24"
  by (simp add: range_bytes_def)


lemma mmap_bytes_ident:
  assumes "misc AND 0x4000 \<noteq> 0 \<longrightarrow> length (mm_BuildID mm) + length idpad = 20"
  shows "length (ident_bytes order misc mm idpad) = 24"
    and "length pre = 40 \<Longrightarrow> mmap_identity order misc (pre @ ident_bytes order misc mm idpad @ post) b =
      Inr (Some (if misc AND 0x4000 \<noteq> 0 then b\<lparr>mm_BuildID := mm_BuildID mm\<rparr>
                 else b\<lparr>mm_Major := mm_Major mm, mm_Minor := mm_Minor mm, mm_Inode := mm_Inode mm,
                        mm_Generation := mm_Generation mm\<rparr>))"
proof -
  show "length (ident_bytes order misc mm idpad) = 24" using assms by (simp add: ident_bytes_def)
  assume l: "length pre = 40"
  show "mmap_identity order misc (pre @ ident_bytes order misc mm idpad @ post) b =
      Inr (Some (if misc AND 0x4000 \<noteq> 0 then b\<lparr>mm_BuildID := mm_BuildID mm\<rparr>
                 else b\<lparr>mm_Major := mm_Major mm, mm_Minor := mm_Minor mm, mm_Inode := mm_Inode mm,
                        mm_Generation := mm_Generation mm\<rparr>))"
  proof (cases "misc AND 0x4000 = 0")
    case False
    then have n: "length (mm_BuildID mm) \<le> 20" using assms by simp
    then have u: "unat (of_nat (length (mm_BuildID mm)) :: byte) = length (mm_BuildID mm)"
      by (simp add: unat_of_nat)
    have "index (pre @ ident_bytes order misc mm idpad @ post) 40 = Inr (of_nat (length (mm_BuildID mm)))"
      using False l by (simp add: ident_bytes_def index_def nth_append)
    moreover have "slice (pre @ ident_bytes order misc mm idpad @ post) 44 (44 + length (mm_BuildID mm)) = Inr (mm_BuildID mm)"
      using False l by (simp add: ident_bytes_def slice_def)
    ultimately show ?thesis
      using False n by (simp add: mmap_identity_def u)
  qed (use l in \<open>simp add: mmap_identity_def ident_bytes_def\<close>)
qed

lemma knownBody_written:
  assumes "length header = 8" "known_fits misc kr" "type \<in> known_type kr" "n = 8 + length (known_bytes order misc kr)"
  shows "knownBody order clock type misc (header @ known_bytes order misc kr @ post) (int n) rec dt =
    Inr (Inr (known_effect clock misc kr rec dt))"
proof (cases kr)
  case (KnownComm pid tid name padding)
  have "sliceI (header @ known_bytes order misc kr @ post) 16 (int n) = Inr (text_bytes name padding)"
    using sliceI_middle [of 16 "header @ put32 order pid @ put32 order tid" "int n" "text_bytes name padding" post]
      assms KnownComm by simp
  then show ?thesis
    using assms KnownComm by (simp add: knownBody_def knownComm_def)
next
  case (KnownMmap pid tid mm padding)
  have "sliceI (header @ known_bytes order misc kr @ post) 40 (int n) = Inr (text_bytes (mm_Filename mm) padding)"
    using sliceI_middle [of 40 "header @ put32 order pid @ put32 order tid @ range_bytes order mm" "int n"
        "text_bytes (mm_Filename mm) padding" post] assms KnownMmap by simp
  moreover have "mmap_range order (header @ known_bytes order misc kr @ post) = Inr ((range_only mm)\<lparr>mm_Filename := []\<rparr>)"
    using range_read [of "header @ put32 order pid @ put32 order tid" order mm] assms(1) KnownMmap by simp
  moreover have "(range_only mm)\<lparr>mm_Filename := mm_Filename mm\<rparr> = mm" 
    using assms KnownMmap by simp
  ultimately show ?thesis
    using assms KnownMmap by (simp add: knownBody_def knownMmap_def)
next
  case (KnownMmap2 pid tid mm idpad padding)
  let ?front = "header @ put32 order pid @ put32 order tid @ range_bytes order mm"
  note fit = assms(2) [unfolded KnownMmap2 known_fits.simps]
  note l = mmap_bytes_ident(1) [OF fit [THEN conjunct2, THEN conjunct2], of order]
  have "sliceI (header @ known_bytes order misc kr @ post) 72 (int n) = Inr (text_bytes (mm_Filename mm) padding)"
    using sliceI_middle [of 72 "?front @ ident_bytes order misc mm idpad @ put32 order (mm_Protection mm) @
        put32 order (mm_Flags mm)" "int n" "text_bytes (mm_Filename mm) padding" post] assms KnownMmap2 l by simp
  moreover have "mmap_range order (header @ known_bytes order misc kr @ post) = Inr ((range_only mm)\<lparr>mm_Filename := []\<rparr>)"
    using range_read [of "header @ put32 order pid @ put32 order tid" order mm] assms(1) KnownMmap2 by simp
  moreover have "mmap_identity order misc (header @ known_bytes order misc kr @ post)
      (range_only mm\<lparr>mm_Filename := [], mm_Protection := mm_Protection mm, mm_Flags := mm_Flags mm,
         mm_Filename := mm_Filename mm\<rparr>) = Inr (Some mm)"
  proof -
    have i: "ident_only misc mm = mm" using fit by blast
    then have "(if misc AND 0x4000 \<noteq> 0
          then range_only mm\<lparr>mm_Protection := mm_Protection mm, mm_Flags := mm_Flags mm, mm_BuildID := mm_BuildID mm\<rparr>
          else range_only mm\<lparr>mm_Protection := mm_Protection mm, mm_Flags := mm_Flags mm, mm_Major := mm_Major mm,
            mm_Minor := mm_Minor mm, mm_Inode := mm_Inode mm, mm_Generation := mm_Generation mm\<rparr>) = mm"
      by (cases mm) (auto simp: range_only_def ident_only_def split: if_splits)
    then show ?thesis
      using mmap_bytes_ident(2) [OF fit [THEN conjunct2, THEN conjunct2], of ?front] assms(1) KnownMmap2 i
      by (cases "misc AND 0x4000 = 0") (simp_all add: range_only_def ident_only_def)
  qed
  ultimately show ?thesis
    using assms KnownMmap2 l by (simp add: knownBody_def knownMmap2_def)
qed (use assms in \<open>auto simp: knownBody_def knownTask_def knownThrottle_def knownSwitchCPUWide_def\<close>)


section \<open>The whole record\<close>

lemma nameByID_again [simp]: "nameByID r (nameByID r rec) = nameByID r rec"
  by (simp add: nameByID_def split: option.split)

lemma suffixed_current [simp]: "rd_current (rd_current_update f r) = f (rd_current r)"
  by simp

lemma decodeKnown_written:
  assumes "reader_ok r" "lookup_desc r (sv_id v) = Some d" "at_SampleIDAll (ed_attr d)"
    and "length header = 8" "known_fits misc kr" "type \<in> known_type kr"
    and raw: "raw = header @ known_bytes (rd_order r) misc kr @ suffix_bytes (rd_order r) (suffix_of (ed_attr d)) v"
    and kr: "known_effect (rd_clock r) misc kr (rawRecord type raw) (rd_current r) = (rec, dt)"
    and r': "r' = r\<lparr>rd_current := suffixed_details (suffix_of (ed_attr d)) v dt\<rparr>"
  shows "decodeKnown type misc raw r =
    (Inr (nameByID r' (suffixed_record (rd_clock r) (suffix_of (ed_attr d)) v rec)), r')"
proof -
  let ?body = "header @ known_bytes (rd_order r) misc kr" and ?bits = "suffix_of (ed_attr d)"
  let ?layout = "\<lparr>sl_start = int (length ?body), sl_mask = ?bits\<rparr>"
  have all: "rd_sampleIDAll r"
    using lookup_desc_in [OF assms(1,2)] assms(1,3) by (simp add: attr_fits_def reader_ok_def layout_ok_def)
  have layout: "resolveSuffix r raw = Inr ?layout"
    by (rule resolveSuffix_written [OF assms(1-3)]) (simp_all add: raw assms(4))
  have body: "knownBody (rd_order r) (rd_clock r) type misc raw (int (length ?body)) (rawRecord type raw) (rd_current r)
      = Inr (Inr (rec, dt))"
    using knownBody_written [OF assms(4-6), of "length ?body" "rd_order r" "rd_clock r"
        "suffix_bytes (rd_order r) ?bits v"] assms(4) raw kr by simp
  have "applySuffixLayout rec raw ?layout (r\<lparr>rd_current := dt\<rparr>) =
      (Inr (nameByID r' (suffixed_record (rd_clock r) ?bits v rec)), r')"
    using applySuffixLayout_written [of "r\<lparr>rd_current := dt\<rparr>" raw ?body ?bits v r' rec] all raw r' by simp
  then show ?thesis
    using layout body assms(4)
    by (simp add: decodeKnown_def applyNamed_def act_simps)
qed

text \<open>
  C17. The records of tasks, file mappings and context switches are read exactly: when such a record is
  followed by the \<open>sample_id_all\<close> suffix of an event of the table, with the members that event's
  attribute asks for, \<open>decodeKnown\<close> returns the process, thread, time and CPU that were written, leaves
  the details of the record (with its ID and stream ID) in the reader, names it after the event, and
  changes nothing else.
\<close>

theorem known_record_roundtrip:
  assumes "reader_ok r" "lookup_desc r (sv_id v) = Some d" "at_SampleIDAll (ed_attr d)"
    and "length header = 8" "known_fits misc kr" "type \<in> known_type kr"
    and "raw = header @ known_bytes (rd_order r) misc kr @ suffix_bytes (rd_order r) (suffix_of (ed_attr d)) v"
    and "known_effect (rd_clock r) misc kr (rawRecord type raw) (rd_current r) = (rec, dt)"
    and "r' = r\<lparr>rd_current := suffixed_details (suffix_of (ed_attr d)) v dt\<rparr>"
  shows "decodeKnown type misc raw r =
    (Inr (nameByID r' (suffixed_record (rd_clock r) (suffix_of (ed_attr d)) v rec)), r')"
  using assms by (rule decodeKnown_written)

theorem known_record_roundtrip_witness:
  "map_prod (map_sum id (\<lambda>rec. (tr_PID rec, tr_TID rec, id_Name (tr_Identity rec))))
     (\<lambda>r. (dt_ID (rd_current r), dt_Comm (rd_current r)))
     (decodeKnown PerfComm 0
        ([3, 0, 0, 0, 0, 0, 48, 0] @ known_bytes LittleEndian 0 (KnownComm 1 2 ''sh'' [0, 0, 0, 0, 0]) @
         suffix_bytes LittleEndian 0x10002 demo_suffix) demo_reader) =
   (Inr (Some 1, Some 2, ''e''), Some 7, Some ''sh'')"
proof -
  have order: "rd_order demo_reader = LittleEndian" by (simp add: demo_reader_def newReader_def)
  obtain d where d: "lookup_desc demo_reader (sv_id demo_suffix) = Some d" "ed_name d = ''e''"
      "at_SampleIDAll (ed_attr d)" "suffix_of (ed_attr d) = 0x10002"
    by (simp add: lookup_desc_def demo_reader_def demo_suffix_def suffix_of_def)
  show ?thesis
    unfolding order [symmetric] d(4) [symmetric]
    by (subst known_record_roundtrip [OF demo_reader_table d(1,3) _ _ _ refl known_effect.simps(1) refl])
       (use d in \<open>auto simp: suffixed_record_def suffixed_details_def nameByID_def lookup_desc_def has_def
          demo_suffix_def rawRecord_def split: option.splits\<close>)
qed

end
