(* ===== verification/FormatDecl.thy ===== *)
theory FormatDecl imports TracefsDecode GoText begin

text \<open>
  Package \<open>tracefs\<close>, file \<open>declaration.go\<close>: the declaration of a field in a format file, taken apart
  into tokens and classified. The errors of these functions are only ever shown as text, so a
  function that can fail returns an option.
\<close>


section \<open>Characters\<close>

text \<open>\<open>unicode.IsLetter\<close> and \<open>unicode.IsDigit\<close>; up to U+00FF they are written out.\<close>

definition IsLetter :: "host \<Rightarrow> nat \<Rightarrow> bool" where
  "IsLetter h r =
     (if r < 256 then
        65 \<le> r \<and> r \<le> 90 \<or> 97 \<le> r \<and> r \<le> 122 \<or> r = 0xAA \<or> r = 0xB5 \<or> r = 0xBA \<or> 0xC0 \<le> r \<and> r \<noteq> 0xD7 \<and> r \<noteq> 0xF7
      else letter_rune h r)"

definition IsDigit :: "host \<Rightarrow> nat \<Rightarrow> bool" where
  "IsDigit h r = (if r < 256 then 48 \<le> r \<and> r \<le> 57 else digit_rune h r)"

definition isIdentStart :: "host \<Rightarrow> nat \<Rightarrow> bool" where
  "isIdentStart h r \<longleftrightarrow> r = 95 \<or> IsLetter h r"

definition isIdentContinue :: "host \<Rightarrow> nat \<Rightarrow> bool" where
  "isIdentContinue h r \<longleftrightarrow> isIdentStart h r \<or> IsDigit h r"

text \<open>\<open>rune(s[i])\<close>: the byte taken for a code point.\<close>

abbreviation start_char :: "host \<Rightarrow> char \<Rightarrow> bool" where
  "start_char h c \<equiv> isIdentStart h (of_char c)"

abbreviation continue_char :: "host \<Rightarrow> char \<Rightarrow> bool" where
  "continue_char h c \<equiv> isIdentContinue h (of_char c)"

text \<open>\<open>for _, r := range s\<close>: the code points of the well-formed sequences, U+FFFD for any other byte.\<close>

definition sequence_rune :: "bytes \<Rightarrow> nat" where
  "sequence_rune bs =
     (case bs of
        [a] \<Rightarrow> unat a
      | [a, b] \<Rightarrow> (unat a mod 32) * 64 + unat b mod 64
      | [a, b, c] \<Rightarrow> (unat a mod 16) * 4096 + (unat b mod 64) * 64 + unat c mod 64
      | [a, b, c, d] \<Rightarrow> (unat a mod 8) * 262144 + (unat b mod 64) * 4096 + (unat c mod 64) * 64 + unat d mod 64
      | _ \<Rightarrow> rune_error)"

function range_runes :: "bytes \<Rightarrow> nat list" where
  "range_runes [] = []"
| "range_runes (b # bs) =
     (case utf8_len (b # bs) of
        None \<Rightarrow> rune_error # range_runes bs
      | Some k \<Rightarrow> sequence_rune (take k (b # bs)) # range_runes (drop k (b # bs)))"
  by pat_completeness auto
termination
  by (relation "measure length") (auto simp del: utf8_len.simps dest!: utf8_len_bounds)

definition isIdentifier :: "host \<Rightarrow> string \<Rightarrow> bool" where
  "isIdentifier h s \<longleftrightarrow>
     s \<noteq> [] \<and> start_char h (hd s) \<and> list_all (isIdentContinue h) (range_runes (to_bytes (tl s)))"

definition isQualifier :: "string \<Rightarrow> bool" where
  "isQualifier s \<longleftrightarrow>
     s \<in> {''const'', ''volatile'', ''restrict'', ''__restrict'', ''__restrict__'', ''static'', ''register'',
           ''__user'', ''__kernel'', ''__force'', ''__bitwise''}"

definition isNumber :: "string \<Rightarrow> bool" where
  "isNumber s \<longleftrightarrow> s \<noteq> [] \<and> ParseUint0 s 64 \<noteq> None"


section \<open>Attributes\<close>

definition attribute_names :: "string list" where
  "attribute_names =
     [''__attribute__'', ''__attribute'', ''__aligned__'', ''__aligned'', ''__packed__'', ''__packed'']"

definition attributeNameLength :: "string \<Rightarrow> nat" where
  "attributeNameLength s = (case find (has_prefix s) attribute_names of None \<Rightarrow> 0 | Some name \<Rightarrow> length name)"

text \<open>The rest behind the closing parenthesis of the argument list of an attribute.\<close>

fun skip_group :: "nat \<Rightarrow> char option \<Rightarrow> bool \<Rightarrow> string \<Rightarrow> string option" where
  "skip_group depth quote escaped [] = None"
| "skip_group depth quote escaped (c # s) =
     (case quote of
        Some q \<Rightarrow>
          if escaped then skip_group depth quote False s
          else if c = CHR 0x5C then skip_group depth quote True s
          else if c = q then skip_group depth None escaped s
          else skip_group depth quote escaped s
      | None \<Rightarrow>
          if c = CHR 0x27 \<or> c = CHR 0x22 then skip_group depth (Some c) escaped s
          else if c = CHR ''('' then skip_group (depth + 1) None escaped s
          else if c = CHR '')'' then
            if depth = 1 then Some s else skip_group (depth - 1) None escaped s
          else skip_group depth None escaped s)"

lemma skip_group_length: "skip_group depth quote escaped s = Some t \<Longrightarrow> length t < length s"
  by (induction depth quote escaped s rule: skip_group.induct)
     (auto split: option.splits if_splits intro: less_SucI)

text \<open>The position behind an attribute whose name ends in front of the position.\<close>

definition attribute_end :: "string \<Rightarrow> nat \<Rightarrow> nat option" where
  "attribute_end s i =
     (let rest = dropWhile space_byte (drop i s) in
      if rest \<noteq> [] \<and> hd rest = CHR ''(''
      then map_option (\<lambda>t. length s - length t) (skip_group 0 None False rest)
      else Some (length s - length rest))"

lemma attribute_end_le: "attribute_end s i = Some j \<Longrightarrow> i \<le> length s \<Longrightarrow> i \<le> j \<and> j \<le> length s"
  using length_dropWhile_le [of space_byte "drop i s"]
  by (auto simp: attribute_end_def Let_def dest!: skip_group_length split: if_splits)

lemma attributeNameLength_le: "attributeNameLength s \<le> length s"
proof (cases "find (has_prefix s) attribute_names")
  case (Some name)
  then have "take (length name) s = name" by (auto simp: find_Some_iff has_prefix_def)
  then show ?thesis using Some by (simp add: attributeNameLength_def) (metis length_take min.cobounded1 min.commute)
qed (simp add: attributeNameLength_def)

function remove_attributes :: "host \<Rightarrow> string \<Rightarrow> nat \<Rightarrow> string option" where
  "remove_attributes h s i =
     (if i \<ge> length s then Some []
      else
        let nameLen = attributeNameLength (drop i s); j = i + nameLen in
        if nameLen = 0 \<or> i > 0 \<and> continue_char h (s ! (i - 1)) \<or> j < length s \<and> continue_char h (s ! j)
        then map_option (\<lambda>out. s ! i # out) (remove_attributes h s (i + 1))
        else case attribute_end s j of
            None \<Rightarrow> None
          | Some k \<Rightarrow> map_option (\<lambda>out. CHR '' '' # out) (remove_attributes h s k))"
  by pat_completeness auto
termination
proof (relation "measure (\<lambda>(h, s, i). length s - i)", simp, simp)
  fix h s i nameLen j k
  assume a: "\<not> length s \<le> (i :: nat)" "nameLen = attributeNameLength (drop i s)" "j = i + nameLen"
    "\<not> (nameLen = 0 \<or> i > 0 \<and> continue_char h (s ! (i - 1)) \<or> j < length s \<and> continue_char h (s ! j))"
    "attribute_end s j = Some k"
  have "j \<le> length s" using attributeNameLength_le [of "drop i s"] a(1-3) by simp
  then have "j \<le> k \<and> k \<le> length s" using attribute_end_le a(5) by blast
  then have "i < k" using a(3,4) by simp
  then show "((h, s, k), h, s, i) \<in> measure (\<lambda>(h, s, i). length s - i)" using a(1) by simp
qed

definition removeDeclarationAttributes :: "host \<Rightarrow> string \<Rightarrow> string option" where
  "removeDeclarationAttributes h s = remove_attributes h s 0"


section \<open>Tokens\<close>

function tokenizeDeclaration :: "host \<Rightarrow> string \<Rightarrow> string list option" where
  "tokenizeDeclaration h [] = Some []"
| "tokenizeDeclaration h (c # s) =
     (if space_byte c then tokenizeDeclaration h s
      else if start_char h c \<or> CHR ''0'' \<le> c \<and> c \<le> CHR ''9'' then
        map_option (\<lambda>tokens. (c # takeWhile (continue_char h) s) # tokens)
          (tokenizeDeclaration h (dropWhile (continue_char h) s))
      else if c \<in> {CHR ''*'', CHR ''['', CHR '']'', CHR ''('', CHR '')'', CHR '',''} then
        map_option (\<lambda>tokens. [c] # tokens) (tokenizeDeclaration h s)
      else None)"
  by pat_completeness auto
termination
  by (relation "measure (\<lambda>(h, s). length s)") (auto simp: le_imp_less_Suc length_dropWhile_le)

text \<open>The tokens behind a balanced parenthesis; all of them are dropped when it is not closed.\<close>

fun skip_parens :: "nat \<Rightarrow> string list \<Rightarrow> string list" where
  "skip_parens depth [] = []"
| "skip_parens depth (t # ts) =
     (let depth = (if t = ''('' then depth + 1 else if t = '')'' then depth - 1 else depth) in
      if depth = 0 then ts else skip_parens depth ts)"

lemma skip_parens_length: "length (skip_parens depth ts) \<le> length ts"
proof (induction depth ts rule: skip_parens.induct)
  case (2 depth t ts)
  then show ?case by (auto simp: Let_def intro: le_SucI)
qed simp

function stripAttributes :: "string list \<Rightarrow> string list" where
  "stripAttributes [] = []"
| "stripAttributes (t # ts) =
     (if t = ''__attribute__'' \<or> t = ''__attribute'' \<or> has_prefix t ''__aligned'' then
        if ts \<noteq> [] \<and> hd ts = ''('' then stripAttributes (skip_parens 0 ts) else stripAttributes ts
      else t # stripAttributes ts)"
  by pat_completeness auto
termination
  by (relation "measure length") (auto simp: skip_parens_length le_imp_less_Suc)

definition findNameToken :: "host \<Rightarrow> string list \<Rightarrow> nat option" where
  "findNameToken h tokens =
     (case find (\<lambda>i. tokens ! i = ''['' \<and> tokens ! (i + 1) = '']'' \<and> isIdentifier h (tokens ! (i + 2)))
             [0..<length tokens - 2] of
        Some i \<Rightarrow> Some (i + 2)
      | None \<Rightarrow>
          find (\<lambda>i. isIdentifier h (tokens ! i) \<and> \<not> isQualifier (tokens ! i)) (rev [0..<length tokens]))"


section \<open>Types\<close>

definition sized_aliases :: "(string \<times> bool) list" where
  "sized_aliases =
     [(''u'', False), (''s'', True), (''__u'', False), (''__s'', True), (''uint'', False), (''int'', True)]"

definition alias_bits :: "string \<Rightarrow> string \<Rightarrow> int option" where
  "alias_bits word prefix =
     (if \<not> has_prefix word prefix then None
      else
        let suffix = drop (length prefix) word;
            suffix = (if length suffix \<ge> 2 \<and> drop (length suffix - 2) suffix = ''_t''
                      then take (length suffix - 2) suffix else suffix)
        in case Atoi suffix of None \<Rightarrow> None | Some bits \<Rightarrow> if bits \<in> {8, 16, 32, 64} then Some bits else None)"

text \<open>The width in bytes and the signedness of a sized integer type.\<close>

fun find_alias :: "string \<Rightarrow> (string \<times> bool) list \<Rightarrow> (int \<times> bool) option" where
  "find_alias word [] = None"
| "find_alias word ((prefix, sg) # rest) =
     (case alias_bits word prefix of
        None \<Rightarrow> find_alias word rest
      | Some bits \<Rightarrow> Some (bits div 8, sg))"

definition sizedAlias :: "string \<Rightarrow> (field_kind \<times> int \<times> bool) option" where
  "sizedAlias word =
     map_option (\<lambda>(width, sg). (if sg then FieldSigned else FieldUnsigned, width, sg))
       (find_alias word sized_aliases)"

definition setIntegerKind :: "bool \<Rightarrow> field_format \<Rightarrow> field_format" where
  "setIntegerKind unsig field =
     (if unsig then field\<lparr>ff_Kind := FieldUnsigned, ff_Signed := False\<rparr>
      else field\<lparr>ff_Kind := FieldSigned, ff_Signed := True\<rparr>)"

definition classifyWords :: "string \<Rightarrow> int \<Rightarrow> field_format \<Rightarrow> field_format" where
  "classifyWords joined longSize field =
     (let unsig = contains_text joined ''unsigned'' in
      if joined = ''char'' \<or> joined = ''signed char'' then
        field\<lparr>ff_Kind := FieldChar, ff_Width := 1, ff_Signed := (joined = ''signed char'')\<rparr>
      else if joined = ''unsigned char'' then field\<lparr>ff_Kind := FieldUnsigned, ff_Width := 1\<rparr>
      else if contains_text joined ''long long'' then setIntegerKind unsig (field\<lparr>ff_Width := 8\<rparr>)
      else if contains_text joined ''long'' then setIntegerKind unsig (field\<lparr>ff_Width := longSize\<rparr>)
      else if contains_text joined ''short'' then setIntegerKind unsig (field\<lparr>ff_Width := 2\<rparr>)
      else if joined = ''int'' \<or> joined = ''signed'' \<or> joined = ''signed int'' then
        field\<lparr>ff_Kind := FieldSigned, ff_Width := 4, ff_Signed := True\<rparr>
      else if joined = ''unsigned'' \<or> joined = ''unsigned int'' then field\<lparr>ff_Kind := FieldUnsigned, ff_Width := 4\<rparr>
      else if joined = ''float'' then field\<lparr>ff_Kind := FieldFloat, ff_Width := 4\<rparr>
      else if joined = ''double'' then field\<lparr>ff_Kind := FieldFloat, ff_Width := 8\<rparr>
      else if joined = ''bool'' \<or> joined = ''_bool'' then field\<lparr>ff_Kind := FieldBool, ff_Width := 1\<rparr>
      else field\<lparr>ff_Kind := FieldOpaque\<rparr>)"

definition classifyType :: "string list \<Rightarrow> int \<Rightarrow> field_format \<Rightarrow> field_format" where
  "classifyType words longSize field =
     (let lower = map ToLower words in
      if ff_Pointer field then field\<lparr>ff_Kind := FieldUnsigned, ff_Width := longSize\<rparr>
      else
        case (if length lower = 1 then sizedAlias (hd lower) else None) of
          Some (kind, width, sg) \<Rightarrow> field\<lparr>ff_Kind := kind, ff_Width := width, ff_Signed := sg\<rparr>
        | None \<Rightarrow> classifyWords (join_text '' '' lower) longSize field)"


section \<open>Declarations\<close>

definition zero_field :: field_format where
  "zero_field =
     \<lparr>ff_Declaration = [], ff_Name = [], ff_Kind = FieldOpaque, ff_Offset = 0, ff_Size = 0, ff_Signed = False,
      ff_SignedSet = False, ff_Width = 0, ff_ArrayLen = 0, ff_Pointer = False, ff_Location = LocationNone,
      ff_Properties = [], ff_Line = 0, ff_Column = 0, ff_declarationClass = declarationScalar\<rparr>"

text \<open>The location the last \<open>__data_loc\<close> or \<open>__rel_loc\<close> among the tokens asks for.\<close>

definition token_location :: "string list \<Rightarrow> location_kind" where
  "token_location tokens =
     fold (\<lambda>t loc. if t = ''__data_loc'' then LocationData else if t = ''__rel_loc'' then LocationRelative else loc)
       tokens LocationNone"

text \<open>The position of the bracket of the array bound: behind the name, or of an empty pair in front of it.\<close>

definition array_start :: "string list \<Rightarrow> nat \<Rightarrow> nat option" where
  "array_start tokens nameIndex =
     (if nameIndex + 1 < length tokens \<and> tokens ! (nameIndex + 1) = ''['' then Some (nameIndex + 1)
      else find (\<lambda>i. tokens ! i = ''['' \<and> tokens ! (i + 1) = '']'') [0..<nameIndex - 1])"

text \<open>The bound of the array, -1 without one; None when it is malformed.\<close>

definition array_length :: "string list \<Rightarrow> nat option \<Rightarrow> int option" where
  "array_length tokens arrayStart =
     (case arrayStart of
        None \<Rightarrow> Some (-1)
      | Some k \<Rightarrow>
          if k + 1 \<ge> length tokens then None
          else if tokens ! (k + 1) = '']'' then Some 0
          else if k + 2 \<ge> length tokens \<or> tokens ! (k + 2) \<noteq> '']'' then None
          else case ParseUint0 (tokens ! (k + 1)) 31 of
              None \<Rightarrow> None
            | Some n \<Rightarrow> if n = 0 then None else Some (int n))"

definition type_words :: "string list \<Rightarrow> nat \<Rightarrow> string list" where
  "type_words tokens nameIndex =
     [tokens ! i. i \<leftarrow> [0..<length tokens], i \<noteq> nameIndex \<and> tokens ! i \<notin> {''*'', ''['', '']''} \<and>
        \<not> isNumber (tokens ! i) \<and> \<not> isQualifier (tokens ! i)]"

definition parseDeclaration :: "host \<Rightarrow> string \<Rightarrow> int \<Rightarrow> field_format option" where
  "parseDeclaration h decl longSize =
     (case removeDeclarationAttributes h decl of
        None \<Rightarrow> None
      | Some decl \<Rightarrow>
     (case tokenizeDeclaration h decl of
        None \<Rightarrow> None
      | Some tokens \<Rightarrow>
          let stripped = stripAttributes tokens;
              tokens = filter (\<lambda>t. t \<noteq> ''__data_loc'' \<and> t \<noteq> ''__rel_loc'') stripped in
          if length tokens < 2 then None
          else
     (case findNameToken h tokens of
        None \<Rightarrow> None
      | Some nameIndex \<Rightarrow>
     (case array_length tokens (array_start tokens nameIndex) of
        None \<Rightarrow> None
      | Some arrayLen \<Rightarrow>
          let words = type_words tokens nameIndex;
              class = (if arrayLen \<ge> 0 then declarationArray
                       else if ''struct'' \<in> set words \<or> ''union'' \<in> set words then declarationAggregate
                       else declarationScalar)
          in Some (classifyType words longSize (zero_field
               \<lparr>ff_Name := tokens ! nameIndex, ff_ArrayLen := arrayLen,
                ff_Pointer := (''*'' \<in> set (take nameIndex tokens)), ff_Location := token_location stripped,
                ff_declarationClass := class\<rparr>))))))"

end
