(* ===== verification/FormatParse.thy ===== *)
theory FormatParse imports FormatDecl begin

text \<open>
  Package \<open>tracefs\<close>, file \<open>format.go\<close>: the parser of format files. Lines and columns are positions in the
  input, errors carry them. The scan over the lines is a fold of one line at a time over the state of
  the parser.
\<close>


section \<open>Lines\<close>

fun split_lines :: "nat \<Rightarrow> bytes \<Rightarrow> bytes \<Rightarrow> (string \<times> nat) list" where
  "split_lines number current [] = (if current \<noteq> [] then [(of_bytes (rev current), number)] else [])"
| "split_lines number current (b # bs) =
     (if b = 13 then
        (of_bytes (rev current), number) # split_lines (number + 1) [] (if bs \<noteq> [] \<and> hd bs = 10 then tl bs else bs)
      else if b = 10 then (of_bytes (rev current), number) # split_lines (number + 1) [] bs
      else split_lines number (b # current) bs)"

definition splitLines :: "bytes \<Rightarrow> (string \<times> nat) list" where
  "splitLines data = (if data = [] then [([], 1)] else split_lines 1 [] data)"

text \<open>The byte position of the first character that is not white space, of a line that has one.\<close>

definition firstNonSpace :: "string \<Rightarrow> nat" where
  "firstNonSpace s = length s - length (trim_left white_space (to_bytes s))"

definition cutProperty :: "string \<Rightarrow> (string \<times> string) option" where
  "cutProperty s =
     (case byteIndex s (CHR '':'') of
        None \<Rightarrow> None
      | Some k \<Rightarrow>
          if k < 1 then None
          else Some (TrimSpace_string (take k s), TrimSpace_string (drop (k + 1) s)))"

definition parseError :: "nat \<Rightarrow> nat \<Rightarrow> sentinel \<Rightarrow> 'a result" where
  "parseError line column category = Inl (Fail (ParseError line column (Err category)))"

text \<open>
  \<open>splitSemicolons\<close>: brackets protect semicolons. The source goes over code points; the characters it
  looks for are ASCII and never part of another code point.
\<close>

fun split_semicolons :: "nat \<Rightarrow> string \<Rightarrow> string \<Rightarrow> string list" where
  "split_semicolons depth current [] = (if current \<noteq> [] then [rev current] else [])"
| "split_semicolons depth current (c # s) =
     (if c \<in> {CHR ''('', CHR ''['', CHR ''{''} then split_semicolons (depth + 1) (c # current) s
      else if c \<in> {CHR '')'', CHR '']'', CHR ''}''} then split_semicolons (depth - 1) (c # current) s
      else if c = CHR '';'' \<and> depth = 0 then rev current # split_semicolons 0 [] s
      else split_semicolons depth (c # current) s)"

definition splitSemicolons :: "string \<Rightarrow> string list" where
  "splitSemicolons s = split_semicolons 0 [] s"

definition parseNonnegativeInt :: "host \<Rightarrow> string \<Rightarrow> int option" where
  "parseNonnegativeInt h s =
     (case ParseUint0 (TrimSpace_string s) 63 of
        None \<Rightarrow> None
      | Some n \<Rightarrow> if int n > MaxInt h then None else Some (int n))"


section \<open>One field\<close>

text \<open>The field with the properties found so far, and which of the known ones were there.\<close>

type_synonym field_state = "field_format \<times> string set"

definition fieldProperty :: "host \<Rightarrow> nat \<Rightarrow> nat \<Rightarrow> string \<Rightarrow> field_state \<Rightarrow> field_state result" where
  "fieldProperty h line column part st =
     (let (field, seen) = st; part = TrimSpace_string part in
      if part = [] then Inr st
      else case cutProperty part of
          None \<Rightarrow> parseError line column ErrInvalid
        | Some (name, val) \<Rightarrow>
            let key = ToLower name in
            if key \<in> {''offset'', ''size'', ''signed''} then
              if key \<in> seen then parseError line column ErrInvalid
              else if key = ''offset'' then
                case parseNonnegativeInt h val of
                  None \<Rightarrow> parseError line column ErrInvalid
                | Some n \<Rightarrow> Inr (field\<lparr>ff_Offset := n\<rparr>, insert key seen)
              else if key = ''size'' then
                case parseNonnegativeInt h val of
                  None \<Rightarrow> parseError line column ErrInvalid
                | Some n \<Rightarrow> Inr (field\<lparr>ff_Size := n\<rparr>, insert key seen)
              else if val = ''0'' then Inr (field\<lparr>ff_Signed := False, ff_SignedSet := True\<rparr>, insert key seen)
              else if val = ''1'' then Inr (field\<lparr>ff_Signed := True, ff_SignedSet := True\<rparr>, insert key seen)
              else parseError line column ErrInvalid
            else
              Inr (field\<lparr>ff_Properties := ff_Properties field @
                     [\<lparr>pr_Name = name, pr_Value = val, pr_Line = line, pr_Column = column\<rparr>]\<rparr>, seen))"

fun fieldProperties :: "host \<Rightarrow> nat \<Rightarrow> nat \<Rightarrow> string list \<Rightarrow> field_state \<Rightarrow> field_state result" where
  "fieldProperties h line column [] st = Inr st"
| "fieldProperties h line column (part # parts) st =
     bindR (fieldProperty h line column part st) (fieldProperties h line column parts)"

text \<open>A type that is not known but has the size of an integer is taken for one.\<close>

definition guess_integer :: "field_format \<Rightarrow> field_format" where
  "guess_integer field =
     (if ff_Kind field = FieldOpaque \<and> ff_Location field = LocationNone \<and>
         ff_declarationClass field = declarationScalar \<and> ff_Size field \<in> {1, 2, 4, 8}
      then field\<lparr>ff_Width := ff_Size field,
                 ff_Kind := if ff_SignedSet field \<and> ff_Signed field then FieldSigned else FieldUnsigned\<rparr>
      else field)"

text \<open>Division in Go: it panics when the divisor is zero.\<close>

definition quotient :: "int \<Rightarrow> int \<Rightarrow> int result" where
  "quotient a b = (if b = 0 then Inl Fault else Inr (a div b))"

definition checkWidth :: "host \<Rightarrow> nat \<Rightarrow> nat \<Rightarrow> field_format \<Rightarrow> field_format result" where
  "checkWidth h line column field =
     (if ff_Location field = LocationNone \<and> ff_Size field \<noteq> 0 \<and> ff_Kind field \<noteq> FieldOpaque then
        bindR (if ff_ArrayLen field > 0 then
                 bindR (quotient (MaxInt h) (ff_Width field)) (\<lambda>most.
                 if ff_ArrayLen field > most then parseError line column ErrInvalid
                 else Inr (ff_Width field * ff_ArrayLen field))
               else Inr (ff_Width field)) (\<lambda>expected.
        if ff_ArrayLen field \<noteq> 0 \<and> expected \<noteq> ff_Size field then parseError line column ErrInvalid
        else Inr field)
      else Inr field)"

definition finishField :: "host \<Rightarrow> nat \<Rightarrow> nat \<Rightarrow> field_state \<Rightarrow> field_format result" where
  "finishField h line column st =
     (let (field, seen) = st in
      if ''offset'' \<notin> seen \<or> ''size'' \<notin> seen then parseError line column ErrInvalid
      else if ff_Offset field > MaxInt h - ff_Size field then parseError line column ErrInvalid
      else if ff_Location field \<noteq> LocationNone \<and> ff_Size field \<noteq> 2 \<and> ff_Size field \<noteq> 4
      then parseError line column ErrInvalid
      else checkWidth h line column (guess_integer field))"

definition parseFieldLine :: "host \<Rightarrow> string \<Rightarrow> nat \<Rightarrow> nat \<Rightarrow> int \<Rightarrow> field_format result" where
  "parseFieldLine h content line column longSize =
     (case byteIndex content (CHR '':'') of
        None \<Rightarrow> parseError line column ErrInvalid
      | Some colon \<Rightarrow>
          let parts = splitSemicolons (drop (colon + 1) content) in
          if parts = [] \<or> TrimSpace_string (hd parts) = [] then parseError line (column + colon + 1) ErrInvalid
          else
            let decl = TrimSpace_string (hd parts) in
            case parseDeclaration h decl longSize of
              None \<Rightarrow> parseError line (column + colon + 1) ErrInvalid
            | Some field \<Rightarrow>
                bindR (fieldProperties h line column (tl parts)
                        (field\<lparr>ff_Declaration := decl, ff_Line := line, ff_Column := column\<rparr>, {}))
                  (finishField h line column))"


section \<open>The file\<close>

record parse_options =
  pa_System :: string
  pa_LongSize :: int
  pa_MaxFormatBytes :: int
  pa_MaxFields :: int

record parse_state =
  ps_format :: format
  ps_haveName :: bool
  ps_haveID :: bool
  ps_haveFormat :: bool
  ps_havePrint :: bool
  ps_fieldCount :: int
  ps_inFormat :: bool
  ps_inUserFields :: bool
  ps_haveFormatField :: bool

definition empty_format :: "string \<Rightarrow> int \<Rightarrow> format" where
  "empty_format system longSize =
     \<lparr>fm_System = system, fm_Name = [], fm_ID = 0, fm_Common = [], fm_Fields = [], fm_PrintFormat = [],
      fm_LongSize = longSize, fm_Properties = []\<rparr>"

definition parse_start :: "string \<Rightarrow> int \<Rightarrow> parse_state" where
  "parse_start system longSize =
     \<lparr>ps_format = empty_format system longSize, ps_haveName = False, ps_haveID = False, ps_haveFormat = False,
      ps_havePrint = False, ps_fieldCount = 0, ps_inFormat = False, ps_inUserFields = False, ps_haveFormatField = False\<rparr>"

definition formatField :: "host \<Rightarrow> int \<Rightarrow> int \<Rightarrow> string \<Rightarrow> nat \<Rightarrow> nat \<Rightarrow> parse_state \<Rightarrow> parse_state result" where
  "formatField h maxFields longSize content line column p =
     (if \<not> ps_inFormat p then parseError line column ErrInvalid
      else
        bindR (parseFieldLine h content line column longSize) (\<lambda>field.
        if ps_fieldCount p + 1 > maxFields then parseError line column ErrLimit
        else
          let user = (ps_inUserFields p \<or> \<not> has_prefix (ff_Name field) ''common_'');
              f = ps_format p
          in Inr (p\<lparr>ps_fieldCount := ps_fieldCount p + 1, ps_inUserFields := user, ps_haveFormatField := True,
                    ps_format := if user then f\<lparr>fm_Fields := fm_Fields f @ [field]\<rparr>
                                 else f\<lparr>fm_Common := fm_Common f @ [field]\<rparr>\<rparr>)))"

definition formatProperty :: "string \<Rightarrow> nat \<Rightarrow> nat \<Rightarrow> parse_state \<Rightarrow> parse_state result" where
  "formatProperty content line column p =
     (case cutProperty content of
        None \<Rightarrow> parseError line column ErrInvalid
      | Some (name, val) \<Rightarrow>
          let key = ToLower name; f = ps_format p in
          if key = ''name'' then
            if ps_haveName p then parseError line column ErrInvalid
            else if val = [] then parseError line column ErrInvalid
            else Inr (p\<lparr>ps_haveName := True, ps_format := f\<lparr>fm_Name := val\<rparr>\<rparr>)
          else if key = ''id'' then
            if ps_haveID p then parseError line column ErrInvalid
            else case ParseUint10 val 32 of
                None \<Rightarrow> parseError line column ErrInvalid
              | Some n \<Rightarrow> Inr (p\<lparr>ps_haveID := True, ps_format := f\<lparr>fm_ID := of_nat n\<rparr>\<rparr>)
          else Inr (p\<lparr>ps_format := f\<lparr>fm_Properties := fm_Properties f @
                  [\<lparr>pr_Name = name, pr_Value = val, pr_Line = line, pr_Column = column\<rparr>]\<rparr>\<rparr>))"

definition parseLine :: "host \<Rightarrow> int \<Rightarrow> int \<Rightarrow> string \<times> nat \<Rightarrow> parse_state \<Rightarrow> parse_state result" where
  "parseLine h maxFields longSize = (\<lambda>(source, line) p.
     let content = TrimSpace_string source in
     if content = [] then
       Inr (if ps_inFormat p \<and> ps_haveFormatField p then p\<lparr>ps_inUserFields := True\<rparr> else p)
     else
       let column = firstNonSpace source + 1; lower = ToLower content in
       if lower = ''format:'' then
         if ps_haveFormat p then parseError line column ErrInvalid
         else Inr (p\<lparr>ps_haveFormat := True, ps_inFormat := True\<rparr>)
       else if has_prefix lower ''field:'' \<or> has_prefix lower ''field special:'' then
         formatField h maxFields longSize content line column p
       else if has_prefix lower ''print fmt:'' then
         if ps_havePrint p then parseError line column ErrInvalid
         else
           bindR (slice_from content (length ''print fmt:'')) (\<lambda>rest.
           Inr (p\<lparr>ps_havePrint := True,
                  ps_format := (ps_format p)\<lparr>fm_PrintFormat := TrimSpace_string rest\<rparr>\<rparr>))
       else formatProperty content line column p)"

fun parseLines :: "host \<Rightarrow> int \<Rightarrow> int \<Rightarrow> (string \<times> nat) list \<Rightarrow> parse_state \<Rightarrow> parse_state result" where
  "parseLines h maxFields longSize [] p = Inr p"
| "parseLines h maxFields longSize (l # ls) p = bindR (parseLine h maxFields longSize l p) (parseLines h maxFields longSize ls)"

definition finishFormat :: "parse_state \<Rightarrow> format result" where
  "finishFormat p =
     (if \<not> ps_haveName p \<or> \<not> ps_haveID p \<or> \<not> ps_haveFormat p then parseError 1 1 ErrInvalid
      else Inr (ps_format p))"

definition ParseFormat :: "host \<Rightarrow> bytes \<Rightarrow> parse_options \<Rightarrow> format result" where
  "ParseFormat h data options =
     (let maxBytes = (if pa_MaxFormatBytes options = 0 then 2 ^ 20 else pa_MaxFormatBytes options);
          maxFields = (if pa_MaxFields options = 0 then 4096 else pa_MaxFields options);
          longSize = (if pa_LongSize options = 0 then 8 else pa_LongSize options)
      in
      if maxBytes < 0 \<or> maxFields < 0 then parseError 1 1 ErrInvalid
      else if int (length data) > maxBytes then parseError 1 1 ErrLimit
      else if pa_LongSize options \<noteq> 0 \<and> pa_LongSize options \<noteq> 4 \<and> pa_LongSize options \<noteq> 8
      then parseError 1 1 ErrInvalid
      else bindR (parseLines h maxFields longSize (splitLines data) (parse_start (pa_System options) longSize)) finishFormat)"


section \<open>The parser does not panic\<close>

text \<open>A kind that is not opaque comes with a width, which the check of arrays divides by.\<close>

definition has_width :: "field_format \<Rightarrow> bool" where
  "has_width field \<longleftrightarrow> ff_Kind field = FieldOpaque \<or> 0 < ff_Width field"

lemma alias_bits_pos: "alias_bits word p = Some bits \<Longrightarrow> 0 < bits div 8"
  by (auto simp: alias_bits_def Let_def split: if_splits option.splits)

lemma find_alias_pos: "find_alias word table = Some (width, sg) \<Longrightarrow> 0 < width"
  by (induction word table rule: find_alias.induct) (auto split: option.splits dest: alias_bits_pos)

lemma has_width_if: "has_width f \<Longrightarrow> has_width g \<Longrightarrow> has_width (if c then f else g)"
  by simp

lemma has_width_cases:
  "0 < w \<Longrightarrow> has_width (field\<lparr>ff_Kind := k, ff_Width := w\<rparr>)"
  "0 < w \<Longrightarrow> has_width (field\<lparr>ff_Kind := k, ff_Width := w, ff_Signed := sg\<rparr>)"
  "0 < w \<Longrightarrow> has_width (setIntegerKind u (field\<lparr>ff_Width := w\<rparr>))"
  "has_width (field\<lparr>ff_Kind := FieldOpaque\<rparr>)"
  by (simp_all add: has_width_def setIntegerKind_def)

lemma classifyWords_width: "0 < longSize \<Longrightarrow> has_width (classifyWords joined longSize field)"
  unfolding classifyWords_def Let_def by (intro has_width_if has_width_cases) simp_all

lemma classifyType_width:
  assumes "0 < longSize" "ff_Kind field = FieldOpaque"
  shows "has_width (classifyType words longSize field)"
proof (cases "if length (map ToLower words) = 1 then sizedAlias (hd (map ToLower words)) else None")
  case None
  have "has_width (field\<lparr>ff_Kind := FieldUnsigned, ff_Width := longSize\<rparr>)"
    using assms by (simp add: has_width_def)
  then show ?thesis
    using assms classifyWords_width None by (simp add: classifyType_def Let_def)
next
  case (Some al)
  then obtain kind width sg where "al = (kind, width, sg)" "0 < width"
    by (cases al) (auto simp: sizedAlias_def split: if_splits dest: find_alias_pos)
  then show ?thesis
    using assms Some by (simp add: classifyType_def Let_def has_width_def)
qed

lemma parseDeclaration_width: "parseDeclaration h decl longSize = Some field \<Longrightarrow> 0 < longSize \<Longrightarrow> has_width field"
  by (auto simp: parseDeclaration_def Let_def zero_field_def split: option.splits if_splits intro!: classifyType_width)

lemma safe_parseError [simp]: "safe (parseError line column e)"
  by (simp add: parseError_def)

lemma fieldProperty_width:
  "fieldProperty h line column part (field, seen) = Inr (field', seen') \<Longrightarrow> has_width field \<Longrightarrow> has_width field'"
  by (auto simp: fieldProperty_def Let_def parseError_def has_width_def split: if_splits option.splits prod.splits)

lemma safe_fieldProperty: "safe (fieldProperty h line column part st)"
  by (auto simp: fieldProperty_def Let_def split: option.split prod.split)

lemma fieldProperties_runs:
  "safe (fieldProperties h line column parts st)"
  "fieldProperties h line column parts st = Inr st' \<Longrightarrow> has_width (fst st) \<Longrightarrow> has_width (fst st')"
proof (induction parts arbitrary: st)
  case (Cons part parts)
  {
    case 1
    show ?case using Cons.IH(1) by (auto intro!: safe_bindR safe_fieldProperty)
  next
    case 2
    then obtain st1 where "fieldProperty h line column part st = Inr st1" "fieldProperties h line column parts st1 = Inr st'"
      by (auto simp: bindR_eq_Inr)
    then show ?case
      using Cons.IH(2) 2 fieldProperty_width by (metis prod.collapse)
  }
qed simp_all

lemma guess_integer_width: "has_width field \<Longrightarrow> has_width (guess_integer field)"
  by (auto simp: guess_integer_def has_width_def)

lemma safe_checkWidth: "has_width field \<Longrightarrow> safe (checkWidth h line column field)"
  unfolding checkWidth_def by (intro safe_rules) (auto simp: quotient_def has_width_def)

lemma safe_field_rest:
  assumes "has_width field"
  shows "safe (bindR (fieldProperties h line column parts (field\<lparr>ff_Declaration := d, ff_Line := line, ff_Column := column\<rparr>, {}))
    (finishField h line column))"
proof (rule safe_bindR)
  let ?field = "field\<lparr>ff_Declaration := d, ff_Line := line, ff_Column := column\<rparr>"
  have w: "has_width ?field" using assms by (simp add: has_width_def)
  show "safe (fieldProperties h line column parts (?field, {}))" by (rule fieldProperties_runs)
  fix st assume "fieldProperties h line column parts (?field, {}) = Inr st"
  then have "has_width (fst st)" using fieldProperties_runs(2) w by fastforce
  then show "safe (finishField h line column st)"
    by (auto intro!: safe_checkWidth guess_integer_width simp: finishField_def split: prod.split)
qed

lemma safe_parseFieldLine:
  "0 < longSize \<Longrightarrow> safe (parseFieldLine h content line column longSize)"
  unfolding parseFieldLine_def Let_def
  by (intro safe_case_option safe_if safe_parseError safe_field_rest parseDeclaration_width)

lemma has_prefix_length: "has_prefix s p \<Longrightarrow> length p \<le> length s"
  by (metis has_prefix_def length_take min.cobounded1)

lemma length_ToLower: "length (ToLower s) \<le> length s"
  by (induction s rule: ToLower.induct) (auto simp: le_SucI)

lemma safe_formatField: "0 < longSize \<Longrightarrow> safe (formatField h maxFields longSize content line column p)"
  unfolding formatField_def Let_def
  by (intro safe_if safe_bindR safe_parseError safe_parseFieldLine safe_Inr)

lemma safe_formatProperty: "safe (formatProperty content line column p)"
  unfolding formatProperty_def Let_def
  by (intro safe_if safe_case_option safe_case_prod safe_parseError safe_Inr)

lemma safe_parseLine:
  assumes "0 < longSize"
  shows "safe (parseLine h maxFields longSize l p)"
proof (cases l)
  case (Pair source line)
  show ?thesis
    unfolding Pair parseLine_def Let_def prod.case
  proof (intro safe_if safe_bindR safe_parseError safe_formatField safe_formatProperty safe_Inr safe_slice_from assms)
    assume "has_prefix (ToLower (TrimSpace_string source)) ''print fmt:''"
    from has_prefix_length [OF this] show "length ''print fmt:'' \<le> length (TrimSpace_string source)"
      using length_ToLower [of "TrimSpace_string source"] by linarith
  qed
qed

lemma safe_parseLines: "0 < longSize \<Longrightarrow> safe (parseLines h maxFields longSize ls p)"
  by (induction ls arbitrary: p) (auto intro!: safe_bindR safe_parseLine)

lemma safe_ParseFormat: "safe (ParseFormat h data options)"
  unfolding ParseFormat_def Let_def
  by (intro safe_rules safe_parseLines) (auto simp: finishFormat_def)

end
