(* ===== verification/PerfTracing.thy ===== *)
theory PerfTracing imports PerfTable FormatParse begin

text \<open>
  Package \<open>perfdata\<close>, file \<open>tracing.go\<close>: the container of tracing metadata with the format files of the
  events. Formats enter the table of the reader as they are parsed, also when a later one is malformed.
\<close>


section \<open>Parts of the container\<close>

definition tracingSignature :: bytes where
  "tracingSignature = [23, 8, 68] @ to_bytes ''tracing''"

definition nulString :: "bytes \<Rightarrow> nat \<Rightarrow> (string \<times> nat) option" where
  "nulString data pos =
     (if pos > length data then None
      else map_option (\<lambda>k. (of_bytes (take k (drop pos data)), pos + k + 1)) (byteIndex (drop pos data) 0))"

definition readBlock :: "host \<Rightarrow> endian \<Rightarrow> bytes \<Rightarrow> nat \<Rightarrow> nat \<Rightarrow> int \<Rightarrow> (bytes \<times> nat) result" where
  "readBlock h order data pos width most =
     (if width > length data - pos then fail ErrTruncated
      else
        bindR (if width = 4 then bindR (u32_at order data pos) (\<lambda>n. Inr (ucast n)) else u64_at order data pos) (\<lambda>sz :: u64.
        let pos = pos + width in
        if uint sz > most then fail ErrLimit
        else if unat sz > length data - pos \<or> uint sz > MaxInt h then fail ErrTruncated
        else bindR (slice data pos (pos + unat sz)) (\<lambda>out. Inr (out, pos + unat sz))))"

definition readNamed64 :: "host \<Rightarrow> endian \<Rightarrow> bytes \<Rightarrow> nat \<Rightarrow> string \<Rightarrow> int \<Rightarrow> (bytes \<times> nat) result" where
  "readNamed64 h order data pos name most =
     (if length data - pos < length name then fail ErrInvalid
      else
        bindR (slice data pos (pos + length name)) (\<lambda>b.
        if of_bytes b \<noteq> name then fail ErrInvalid
        else readBlock h order data (pos + length name) 8 most))"

definition versionAtLeast06 :: "string \<Rightarrow> bool" where
  "versionAtLeast06 version = float_at_least_06 version"

text \<open>Everything in front of the formats: version, byte order, sizes and the two page headers.\<close>

record tracing_head =
  th_Version :: string
  th_ByteOrder :: byte_order
  th_LongSize :: int
  th_PageSize :: u32
  th_HeaderPage :: bytes
  th_HeaderEvent :: bytes
  th_pos :: nat

definition tracingHead :: "host \<Rightarrow> perf_limits \<Rightarrow> bytes \<Rightarrow> tracing_head result" where
  "tracingHead h limits data =
     (if length data < length tracingSignature \<or> take (length tracingSignature) data \<noteq> tracingSignature
      then fail ErrInvalid
      else case nulString data (length tracingSignature) of
          None \<Rightarrow> fail ErrTruncated
        | Some (version, pos) \<Rightarrow>
            if length data - pos < 6 then fail ErrTruncated
            else
              bindR (index data pos) (\<lambda>marker.
              if marker \<noteq> 0 \<and> marker \<noteq> 1 then fail ErrInvalid
              else
                let bo = (if marker = 0 then ByteOrderLittle else ByteOrderBig); order = endian_of bo in
                bindR (index data (pos + 1)) (\<lambda>longSize.
                if longSize \<noteq> 4 \<and> longSize \<noteq> 8 then fail ErrInvalid
                else
                  bindR (u32_at order data (pos + 2)) (\<lambda>pageSize.
                  if pageSize = 0 then fail ErrInvalid
                  else
                    bindR (readNamed64 h order data (pos + 6) (''header_page'' @ [CHR 0x00]) (lm_MaxFeatureBytes limits))
                      (\<lambda>(page, pos).
                    bindR (readNamed64 h order data pos (''header_event'' @ [CHR 0x00]) (lm_MaxFeatureBytes limits))
                      (\<lambda>(event, pos).
                    Inr \<lparr>th_Version = version, th_ByteOrder = bo, th_LongSize = uint longSize, th_PageSize = pageSize,
                         th_HeaderPage = page, th_HeaderEvent = event, th_pos = pos\<rparr>))))))"


section \<open>Formats\<close>

text \<open>One block with a format file, which goes into the table under its ID.\<close>

definition readFormat :: "host \<Rightarrow> endian \<Rightarrow> bytes \<Rightarrow> string \<Rightarrow> int \<Rightarrow> nat \<Rightarrow> (bytes \<times> nat) read_op" where
  "readFormat h order data system longSize pos =
     bindA (getA rd_limits) (\<lambda>limits.
     bindA (liftA (readBlock h order data pos 8 (lm_MaxFeatureBytes limits))) (\<lambda>(block, pos).
     bindA (liftA (ParseFormat h block
              \<lparr>pa_System = system, pa_LongSize = longSize, pa_MaxFormatBytes = lm_MaxFormatBytes limits,
               pa_MaxFields = lm_MaxFormatFields limits\<rparr>)) (\<lambda>fmt.
     bindA (getA rd_formats) (\<lambda>formats.
     if map_of formats (fm_ID fmt) \<noteq> None then failA ErrInvalid
     else
       bindA (modA (\<lambda>r. r\<lparr>rd_formats := AList.update (fm_ID fmt) fmt (rd_formats r)\<rparr>)) (\<lambda>_.
       okA (block, pos))))))"

fun readFormats :: "host \<Rightarrow> endian \<Rightarrow> bytes \<Rightarrow> string \<Rightarrow> int \<Rightarrow> nat \<Rightarrow> nat \<Rightarrow> (bytes list \<times> nat) read_op" where
  "readFormats h order data system longSize 0 pos = okA ([], pos)"
| "readFormats h order data system longSize (Suc n) pos =
     bindA (readFormat h order data system longSize pos) (\<lambda>(block, pos).
     bindA (readFormats h order data system longSize n pos) (\<lambda>(blocks, pos).
     okA (block # blocks, pos)))"

text \<open>The events of the systems; \<open>formatCount\<close> bounds their number over all systems.\<close>

fun readSystems :: "host \<Rightarrow> endian \<Rightarrow> bytes \<Rightarrow> int \<Rightarrow> nat \<Rightarrow> int \<Rightarrow> nat \<Rightarrow> nat read_op" where
  "readSystems h order data longSize 0 formatCount pos = okA pos"
| "readSystems h order data longSize (Suc n) formatCount pos =
     (case nulString data pos of
        None \<Rightarrow> failA ErrTruncated
      | Some (system, pos) \<Rightarrow>
          if length data - pos < 4 then failA ErrTruncated
          else
            bindA (liftA (u32_at order data pos)) (\<lambda>eventCount.
            bindA (getA rd_limits) (\<lambda>limits.
            if uint eventCount > lm_MaxAttrs limits - formatCount then failA ErrLimit
            else
              bindA (readFormats h order data system longSize (unat eventCount) (pos + 4)) (\<lambda>(_, pos).
              readSystems h order data longSize n (formatCount + uint eventCount) pos))))"

definition readFtrace :: "host \<Rightarrow> endian \<Rightarrow> bytes \<Rightarrow> int \<Rightarrow> nat \<Rightarrow> (bytes list \<times> nat) read_op" where
  "readFtrace h order data longSize pos =
     (if length data - pos < 4 then failA ErrTruncated
      else
        bindA (liftA (u32_at order data pos)) (\<lambda>count.
        bindA (getA rd_limits) (\<lambda>limits.
        if unat count > (length data - (pos + 4)) div 8 \<or> uint count > lm_MaxAttrs limits then failA ErrLimit
        else readFormats h order data ''ftrace'' longSize (unat count) (pos + 4))))"

definition readAllSystems :: "host \<Rightarrow> endian \<Rightarrow> bytes \<Rightarrow> int \<Rightarrow> nat \<Rightarrow> nat read_op" where
  "readAllSystems h order data longSize pos =
     (if length data - pos < 4 then failA ErrTruncated
      else
        bindA (liftA (u32_at order data pos)) (\<lambda>count.
        bindA (getA rd_limits) (\<lambda>limits.
        if uint count > lm_MaxAttrs limits then failA ErrLimit
        else readSystems h order data longSize (unat count) 0 (pos + 4))))"

definition parseTracingData :: "host \<Rightarrow> bytes \<Rightarrow> unit read_op" where
  "parseTracingData h data =
     bindA (getA rd_limits) (\<lambda>limits.
     bindA (liftA (tracingHead h limits data)) (\<lambda>t.
     let order = endian_of (th_ByteOrder t); longSize = th_LongSize t; most = lm_MaxFeatureBytes limits in
     bindA (readFtrace h order data longSize (th_pos t)) (\<lambda>(ftrace, pos).
     bindA (readAllSystems h order data longSize pos) (\<lambda>pos.
     bindA (liftA (readBlock h order data pos 4 most)) (\<lambda>(kallsyms, pos).
     bindA (liftA (readBlock h order data pos 4 most)) (\<lambda>(printk, pos).
     bindA (liftA (if versionAtLeast06 (th_Version t) then readBlock h order data pos 8 most else Inr ([], pos)))
       (\<lambda>(cmdline, pos).
     bindA (liftA (slice_from data pos)) (\<lambda>trailing.
     modA (\<lambda>r. attachFormats (r
       \<lparr>rd_tracing := \<lparr>td_Version = th_Version t, td_ByteOrder = th_ByteOrder t, td_LongSize = longSize,
          td_PageSize = th_PageSize t, td_HeaderPage = th_HeaderPage t, td_HeaderEvent = th_HeaderEvent t,
          td_Ftrace = ftrace, td_Kallsyms = kallsyms, td_Printk = printk, td_SavedCmdline = cmdline, td_Raw = data,
          td_Trailing = trailing\<rparr>,
        rd_longSize := longSize, rd_pageSize := th_PageSize t\<rparr>)))))))))) "

end
