(* ===== verification/PerfOpen.thy ===== *)
theory PerfOpen imports PerfTracing begin

text \<open>
  Package \<open>perfdata\<close>, file \<open>open.go\<close>: opening a file with its sections and features, and opening a
  stream. The order in which Go visits the map of the three sections is a parameter.
\<close>


section \<open>Errors and sections\<close>

text \<open>\<open>errors.As(err, &de)\<close> and \<open>withOffset\<close>.\<close>

fun find_perf :: "goerr \<Rightarrow> (u64 \<times> string \<times> goerr) option" where
  "find_perf (PerfError _ i stage e) = Some (i, stage, e)"
| "find_perf (DecodeError _ _ e) = find_perf e"
| "find_perf (ParseError _ _ e) = find_perf e"
| "find_perf (Err _) = None"
| "find_perf (Joined es) = None"

definition withOffset :: "int \<Rightarrow> string \<Rightarrow> goerr \<Rightarrow> goerr" where
  "withOffset off stage e =
     (case find_perf e of
        Some (i, stage', e') \<Rightarrow> PerfError off i (if stage' = [] then stage else stage') e'
      | None \<Rightarrow> PerfError off 0 stage e)"

record file_section =
  sec_offset :: u64
  sec_size :: u64

definition sectionAt :: "endian \<Rightarrow> bytes \<Rightarrow> nat \<Rightarrow> file_section result" where
  "sectionAt order b at =
     bindR (u64_at order b at) (\<lambda>offset. bindR (u64_at order b (at + 8)) (\<lambda>sz.
     Inr \<lparr>sec_offset = offset, sec_size = sz\<rparr>))"

definition checkSection :: "host \<Rightarrow> int \<Rightarrow> file_section \<Rightarrow> unit result" where
  "checkSection h fileSize s =
     (if uint (sec_offset s) > fileSize \<or> uint (sec_size s) > fileSize - uint (sec_offset s) then fail ErrTruncated
      else if uint (sec_size s) > MaxInt h then fail ErrLimit
      else Inr ())"

definition addMetadata :: "int \<Rightarrow> unit read_op" where
  "addMetadata n =
     bindA (getA id) (\<lambda>r.
     if n < 0 \<or> rd_metadataBytes r > lm_MaxMetadataBytes (rd_limits r) - n then raiseA (limitError ''metadata'')
     else modA (\<lambda>r. r\<lparr>rd_metadataBytes := rd_metadataBytes r + n\<rparr>))"

text \<open>\<open>if err := readAtFull(...); err != nil { return &DecodeError{Offset: off, Stage: stage, Err: err} }\<close>\<close>

definition readAtA :: "int \<Rightarrow> nat \<Rightarrow> string \<Rightarrow> bytes read_op" where
  "readAtA off n stage =
     bindA (getA rd_at) (\<lambda>at. wrapA (PerfError off 0 stage) (liftA (readAtFull at off n)))"


section \<open>Features\<close>

definition applyFeature :: "host \<Rightarrow> u16 \<Rightarrow> bytes \<Rightarrow> unit read_op" where
  "applyFeature h feature data =
     bindA (addMetadata (int (length data))) (\<lambda>_.
     bindA (modA (\<lambda>r. r\<lparr>rd_features := AList.update feature data (rd_features r)\<rparr>)) (\<lambda>_.
     if feature = FeatureCompressed then failA ErrUnsupportedCompression
     else if feature = FeatureTracingData then parseTracingData h data
     else if feature = FeatureEventDesc then parseEventDesc h data
     else if feature = FeatureClockID then
       if length data < 8 then raiseA (perf_invalid ''CLOCKID'')
       else
         bindA (getA rd_order) (\<lambda>order.
         bindA (liftA (u64_at order data 0)) (\<lambda>v.
         modA (\<lambda>r. r\<lparr>rd_clock := rd_clock r\<lparr>ci_ResolutionNS := v\<rparr>\<rparr>)))
     else if feature = FeatureClockData then parseClockData data
     else okA ()))"

definition loadFeatureAt :: "host \<Rightarrow> u16 \<Rightarrow> file_section \<Rightarrow> unit read_op" where
  "loadFeatureAt h feature s =
     (let stage = ''feature '' @ format_dec (unat feature); off = sint (sec_offset s) in
      bindA (getA id) (\<lambda>r.
      bindA (wrapA (PerfError off 0 stage) (liftA (checkSection h (rd_fileSize r) s))) (\<lambda>_.
      if uint (sec_size s) > lm_MaxFeatureBytes (rd_limits r) then raiseA (limitError stage)
      else if feature = FeatureCompressed then failA ErrUnsupportedCompression
      else
        bindA (readAtA off (unat (sec_size s)) stage) (\<lambda>data.
        wrapA (\<lambda>e. if errors_is e ErrUnsupportedCompression then e else withOffset off stage e)
          (applyFeature h feature data)))))"


section \<open>The header of a file\<close>

definition readIDs :: "file_section \<Rightarrow> u64 list read_op" where
  "readIDs s =
     (if sec_size s mod 8 \<noteq> 0 then raiseA (perf_invalid ''attribute IDs'')
      else
        let count = sec_size s div 8 in
        bindA (getA id) (\<lambda>r.
        if uint count > lm_MaxIDs (rd_limits r) \<or> int (length (rd_byID r)) > lm_MaxIDs (rd_limits r) - uint count
        then raiseA (limitError ''attribute IDs'')
        else
          bindA (addMetadata (uint (sec_size s))) (\<lambda>_.
          bindA (readAtA (sint (sec_offset s)) (unat (sec_size s)) ''attribute IDs'') (\<lambda>data.
          liftA (read_words (rd_order r) data 0 (unat count))))))"

definition seekAttr :: "host \<Rightarrow> u64 \<Rightarrow> u64 \<Rightarrow> unit read_op" where
  "seekAttr h entryOff attrEntrySize =
     bindA (readAtA (sint entryOff) (unat attrEntrySize) ''attribute'') (\<lambda>entry.
     let attrSize = length entry - 16 in
     bindA (addMetadata (int (length entry))) (\<lambda>_.
     bindA (getA id) (\<lambda>r.
     bindA (liftA (slice entry 0 attrSize)) (\<lambda>raw.
     bindA (wrapA (withOffset (sint entryOff) ''attribute'') (liftA (parseAttr (rd_order r) (rd_byteOrder r) raw))) (\<lambda>a.
     bindA (liftA (sectionAt (rd_order r) entry attrSize)) (\<lambda>s.
     bindA (wrapA (PerfError (sint (entryOff + of_nat attrSize)) 0 ''attribute IDs'')
              (liftA (checkSection h (rd_fileSize r) s))) (\<lambda>_.
     bindA (readIDs s) (\<lambda>ids.
     wrapA (withOffset (sint entryOff) ''attribute'') (addDescriptor a [] ids)))))))))"

definition seekAttrs :: "host \<Rightarrow> file_section \<Rightarrow> u64 \<Rightarrow> unit read_op" where
  "seekAttrs h attrs attrEntrySize =
     (if sec_size attrs = 0 then okA ()
      else if attrEntrySize < 80 \<or> uint attrEntrySize > MaxInt h \<or> sec_size attrs mod attrEntrySize \<noteq> 0
      then raiseA (perf_invalid ''attrs section'')
      else
        let count = sec_size attrs div attrEntrySize in
        bindA (getA rd_limits) (\<lambda>limits.
        if uint count > lm_MaxAttrs limits then raiseA (limitError ''attrs section'')
        else forA (\<lambda>i. seekAttr h (sec_offset attrs + of_nat i * attrEntrySize) attrEntrySize) [0..<unat count]))"

text \<open>The descriptors of the features whose bit is set follow the data, in the order of the bits.\<close>

fun seekFeatures :: "host \<Rightarrow> nat list \<Rightarrow> u64 \<Rightarrow> unit read_op" where
  "seekFeatures h [] descPos = okA ()"
| "seekFeatures h (b # bs) descPos =
     bindA (getA id) (\<lambda>r.
     if uint descPos > rd_fileSize r \<or> rd_fileSize r - uint descPos < 16
     then raiseA (PerfError (sint descPos) 0 ''feature descriptor'' (Err ErrTruncated))
     else
       bindA (readAtA (sint descPos) 16 ''feature descriptor'') (\<lambda>desc.
       bindA (liftA (sectionAt (rd_order r) desc 0)) (\<lambda>s.
       bindA (loadFeatureAt h (of_nat b) s) (\<lambda>_. seekFeatures h bs (descPos + 16)))))"

definition feature_bits :: "u64 list \<Rightarrow> nat list" where
  "feature_bits flags = filter (\<lambda>b. bit (flags ! (b div 64)) (b mod 64)) [0..<256]"

definition seekEventTypes :: "file_section \<Rightarrow> unit read_op" where
  "seekEventTypes s =
     (if sec_size s = 0 then okA ()
      else
        bindA (getA rd_limits) (\<lambda>limits.
        if uint (sec_size s) > lm_MaxFeatureBytes limits then raiseA (limitError ''event-types section'')
        else
          bindA (addMetadata (uint (sec_size s))) (\<lambda>_.
          bindA (readAtA (sint (sec_offset s)) (unat (sec_size s)) ''event-types section'') (\<lambda>data.
          modA (\<lambda>r. r\<lparr>rd_eventTypes := data\<rparr>)))))"

definition checkSections :: "host \<Rightarrow> (string \<times> file_section) list \<Rightarrow> unit read_op" where
  "checkSections h sections =
     forA (\<lambda>(name, s). bindA (getA rd_fileSize) (\<lambda>fileSize.
       wrapA (PerfError 0 0 (name @ '' section'')) (liftA (checkSection h fileSize s)))) sections"

definition parseSeekHeader :: "host \<Rightarrow> ((string \<times> file_section) list \<Rightarrow> (string \<times> file_section) list) \<Rightarrow> bytes \<Rightarrow> unit read_op" where
  "parseSeekHeader h visit header =
     bindA (getA rd_order) (\<lambda>order.
     bindA (liftA (u64_at order header 16)) (\<lambda>attrEntrySize.
     bindA (liftA (sectionAt order header 24)) (\<lambda>attrs.
     bindA (liftA (sectionAt order header 40)) (\<lambda>data.
     bindA (liftA (sectionAt order header 56)) (\<lambda>eventTypes.
     bindA (checkSections h (visit [(''attrs'', attrs), (''data'', data), (''event-types'', eventTypes)])) (\<lambda>_.
     bindA (seekEventTypes eventTypes) (\<lambda>_.
     if sint (sec_offset data) < 0 \<or> sint (sec_size data) < 0 then raiseA (perf_invalid ''data section'')
     else
       bindA (modA (\<lambda>r. r\<lparr>rd_offset := sint (sec_offset data), rd_dataEnd := sint (sec_offset data + sec_size data)\<rparr>)) (\<lambda>_.
       bindA (seekAttrs h attrs attrEntrySize) (\<lambda>_.
       bindA (liftA (read_words order header 72 4)) (\<lambda>flags.
       bindA (seekFeatures h (feature_bits flags) (sec_offset data + sec_size data)) (\<lambda>_.
       modA attachFormats)))))))))))"


section \<open>Opening\<close>

definition magicLittle :: bytes where
  "magicLittle = to_bytes ''PERFILE2''"

definition magicBig :: bytes where
  "magicBig = to_bytes ''2ELIFREP''"

definition setOrder :: "bytes \<Rightarrow> unit read_op" where
  "setOrder magic =
     (if magic = magicLittle then modA (\<lambda>r. r\<lparr>rd_order := LittleEndian, rd_byteOrder := ByteOrderLittle\<rparr>)
      else if magic = magicBig then modA (\<lambda>r. r\<lparr>rd_order := BigEndian, rd_byteOrder := ByteOrderBig\<rparr>)
      else raiseA (PerfError 0 0 ''magic'' (Err ErrInvalid)))"

definition openFile :: "host \<Rightarrow> ((string \<times> file_section) list \<Rightarrow> (string \<times> file_section) list) \<Rightarrow> int \<Rightarrow> unit read_op" where
  "openFile h visit fileSize =
     bindA (readAtA 0 16 ''file header'') (\<lambda>first.
     bindA (setOrder (take 8 first)) (\<lambda>_.
     bindA (getA rd_order) (\<lambda>order.
     bindA (liftA (u64_at order first 8)) (\<lambda>headerSize.
     if headerSize = 16 then failA ErrNeedReaderAt
     else if headerSize < 104 \<or> uint headerSize > fileSize \<or> uint headerSize > MaxInt h
     then raiseA (PerfError 8 0 ''file header'' (Err ErrInvalid))
     else
       bindA (readAtA 0 (unat headerSize) ''file header'') (\<lambda>header. parseSeekHeader h visit header)))))"

text \<open>The reader an opening operation leaves behind.\<close>

definition opened :: "unit read_op \<Rightarrow> reader \<Rightarrow> reader result" where
  "opened m r = (case m r of (Inl e, _) \<Rightarrow> Inl e | (Inr _, r') \<Rightarrow> Inr r')"

definition perf_Open ::
  "host \<Rightarrow> ((string \<times> file_section) list \<Rightarrow> (string \<times> file_section) list) \<Rightarrow> reader_at option \<Rightarrow> int \<Rightarrow> perf_options \<Rightarrow>
   reader result" where
  "perf_Open h visit at fileSize opts =
     (case at of
        None \<Rightarrow> fail ErrNeedReaderAt
      | Some at \<Rightarrow>
          bindR (defaultLimits (po_Limits opts)) (\<lambda>limits.
          if fileSize < 16 then Inl (Fail (PerfError 0 0 ''file header'' (Err ErrTruncated)))
          else opened (openFile h visit fileSize) ((newReader opts limits)\<lparr>rd_at := at, rd_fileSize := fileSize\<rparr>)))"

definition openStream :: "unit read_op" where
  "openStream =
     bindA (getA (\<lambda>r. ReadFull 16 (rd_stream r))) (\<lambda>((first, err), rest).
     bindA (modA (\<lambda>r. r\<lparr>rd_stream := rest\<rparr>)) (\<lambda>_.
     case err of
       Some e \<Rightarrow> raiseA (PerfError 0 0 ''pipe header'' (classifyEOF e))
     | None \<Rightarrow>
         bindA (setOrder (take 8 first)) (\<lambda>_.
         bindA (getA rd_order) (\<lambda>order.
         bindA (liftA (u64_at order first 8)) (\<lambda>headerSize.
         if headerSize \<noteq> 16 then
           if headerSize \<ge> 104 then failA ErrNeedReaderAt
           else raiseA (PerfError 8 0 ''pipe header'' (Err ErrInvalid))
         else modA (\<lambda>r. r\<lparr>rd_offset := 16\<rparr>))))))"

definition OpenPipe :: "stream option \<Rightarrow> perf_options \<Rightarrow> reader result" where
  "OpenPipe input opts =
     (case input of
        None \<Rightarrow> Inl (Fail (perf_invalid ''pipe header''))
      | Some stream \<Rightarrow>
          bindR (defaultLimits (po_Limits opts)) (\<lambda>limits.
          opened openStream ((newReader opts limits)\<lparr>rd_pipe := True, rd_stream := stream, rd_dataEnd := -1\<rparr>)))"

end
