(* ===== verification/PerfReader.thy ===== *)
theory PerfReader imports PerfOpen PerfSafe begin

text \<open>
  Package \<open>perfdata\<close>, the reading of records in \<open>records.go\<close>: the framing (\<open>readOuter\<close>), the records of a
  stream that carry metadata (\<open>processPipeMetadata\<close>), and \<open>Next\<close>, whose loop skips them. Positions are
  \<open>int\<close>; the offset of a stream would need more than \<open>2^63\<close> bytes of input to leave the range of an
  \<open>int64\<close>.
\<close>


section \<open>Framing\<close>

definition fatalAt :: "reader \<Rightarrow> int \<Rightarrow> string \<Rightarrow> goerr \<Rightarrow> goerr" where
  "fatalAt r offset stage e = PerfError offset (rd_index r) stage e"

text \<open>The next \<open>n\<close> bytes, from the stream or from the file at the offset.\<close>

definition readBytes :: "int \<Rightarrow> nat \<Rightarrow> bytes read_op" where
  "readBytes off n =
     bindA (getA id) (\<lambda>r.
     if rd_pipe r then
       case ReadFull n (rd_stream r) of
         ((bs, err), rest) \<Rightarrow>
           bindA (modA (\<lambda>r. r\<lparr>rd_stream := rest\<rparr>)) (\<lambda>_.
           case err of None \<Rightarrow> okA bs | Some e \<Rightarrow> raiseA (classifyEOF e))
     else liftA (readAtFull (rd_at r) off n))"

definition readHeader :: "bytes read_op" where
  "readHeader =
     bindA (getA id) (\<lambda>r.
     let start = rd_offset r in
     if rd_pipe r then
       case ReadFull 8 (rd_stream r) of
         ((bs, err), rest) \<Rightarrow>
           bindA (modA (\<lambda>r. r\<lparr>rd_stream := rest\<rparr>)) (\<lambda>_.
           case err of
             None \<Rightarrow> okA bs
           | Some e \<Rightarrow>
               if errors_is e IoEOF \<and> bs = [] then failA IoEOF
               else raiseA (fatalAt r start ''record header'' (Err ErrTruncated)))
     else if start = rd_dataEnd r then failA IoEOF
     else if start > rd_dataEnd r \<or> rd_dataEnd r - start < 8
     then raiseA (fatalAt r start ''record header'' (Err ErrTruncated))
     else wrapA (fatalAt r start ''record header'') (liftA (readAtFull (rd_at r) start 8)))"

definition readOuter :: "(bytes \<times> u32 \<times> u16) read_op" where
  "readOuter =
     bindA readHeader (\<lambda>header.
     bindA (getA id) (\<lambda>r.
     let start = rd_offset r in
     bindA (liftA (u32_at (rd_order r) header 0)) (\<lambda>type.
     bindA (liftA (u16_at (rd_order r) header 4)) (\<lambda>misc.
     bindA (liftA (u16_at (rd_order r) header 6)) (\<lambda>sz.
     if sz < 8 \<or> uint sz > lm_MaxRecordBytes (rd_limits r)
     then raiseA (fatalAt r start ''record header'' (Err ErrInvalid))
     else if \<not> rd_pipe r \<and> uint sz > rd_dataEnd r - start
     then raiseA (fatalAt r start ''record body'' (Err ErrTruncated))
     else
       bindA (if sz > 8
              then wrapA (fatalAt r (start + 8) ''record body'') (readBytes (start + 8) (unat sz - 8))
              else okA []) (\<lambda>body.
       bindA (modA (\<lambda>r. r\<lparr>rd_buf := header @ body, rd_offset := start + uint sz\<rparr>)) (\<lambda>_.
       okA (header @ body, type, misc))))))))"

text \<open>A block of data behind a record; it is kept in the buffer behind the record.\<close>

definition readPost :: "host \<Rightarrow> u64 \<Rightarrow> bytes read_op" where
  "readPost h sz =
     bindA (getA id) (\<lambda>r.
     if uint sz > lm_MaxPostRecordBytes (rd_limits r) \<or> uint sz > MaxInt h then failA ErrLimit
     else if \<not> rd_pipe r \<and> uint sz > rd_dataEnd r - rd_offset r then failA ErrTruncated
     else
       bindA (readBytes (rd_offset r) (unat sz)) (\<lambda>post.
       bindA (modA (\<lambda>r. r\<lparr>rd_buf := rd_buf r @ post, rd_offset := rd_offset r + uint sz\<rparr>)) (\<lambda>_.
       okA post)))"


section \<open>Metadata in a stream\<close>

definition headerAttr :: "host \<Rightarrow> bytes \<Rightarrow> bool read_op" where
  "headerAttr h raw =
     (if length raw < 8 + 64 then failA ErrTruncated
      else
        bindA (getA id) (\<lambda>r.
        bindA (liftA (u32_at (rd_order r) raw 12)) (\<lambda>sz.
        let sz = (if sz = 0 then 64 else sz); n = to_int h (uint sz) in
        if sz < 64 \<or> n > int (length raw) - 8 then failA ErrInvalid
        else
          bindA (liftA (bindR (sliceI raw 8 (8 + n)) (parseAttr (rd_order r) (rd_byteOrder r)))) (\<lambda>a.
          bindA (liftA (slice_fromI raw (8 + n))) (\<lambda>idBytes.
          if length idBytes mod 8 \<noteq> 0 \<or> int (length idBytes div 8) > lm_MaxIDs (rd_limits r) then failA ErrInvalid
          else
            bindA (liftA (read_words (rd_order r) idBytes 0 (length idBytes div 8))) (\<lambda>ids.
            bindA (addMetadata (int (length raw - 8))) (\<lambda>_.
            bindA (addDescriptor a [] ids) (\<lambda>_.
            bindA (modA attachFormats) (\<lambda>_. okA True)))))))))"

definition headerTracingData :: "host \<Rightarrow> bytes \<Rightarrow> bool read_op" where
  "headerTracingData h raw =
     (if length raw < 12 then failA ErrTruncated
      else
        bindA (getA id) (\<lambda>r.
        bindA (liftA (u32_at (rd_order r) raw 8)) (\<lambda>sz.
        if uint sz > lm_MaxFeatureBytes (rd_limits r) \<or> uint sz > MaxInt h then failA ErrLimit
        else
          bindA (readPost h (ucast sz)) (\<lambda>post.
          bindA (applyFeature h FeatureTracingData post) (\<lambda>_. okA True)))))"

definition auxTrace :: "host \<Rightarrow> bytes \<Rightarrow> bool read_op" where
  "auxTrace h raw =
     (if length raw < 16 then failA ErrTruncated
      else
        bindA (getA rd_order) (\<lambda>order.
        bindA (liftA (u64_at order raw 8)) (\<lambda>sz.
        bindA (readPost h sz) (\<lambda>_.
        bindA (modA (\<lambda>r. r\<lparr>rd_current := rd_current r\<lparr>dt_PostDataSize := sz\<rparr>\<rparr>)) (\<lambda>_.
        okA False)))))"

definition headerFeature :: "host \<Rightarrow> bytes \<Rightarrow> bool read_op" where
  "headerFeature h raw =
     (if length raw < 16 then failA ErrTruncated
      else
        bindA (getA rd_order) (\<lambda>order.
        bindA (liftA (u64_at order raw 8)) (\<lambda>i.
        if i \<ge> 256 then failA ErrInvalid
        else
          bindA (liftA (slice_from raw 16)) (\<lambda>data.
          bindA (applyFeature h (ucast i) data) (\<lambda>_.
          bindA (modA attachFormats) (\<lambda>_. okA True))))))"

definition processPipeMetadata :: "host \<Rightarrow> u32 \<Rightarrow> bytes \<Rightarrow> bool read_op" where
  "processPipeMetadata h type raw =
     (if type = 81 \<or> type = 83 then failA ErrUnsupportedCompression
      else if type = 64 then headerAttr h raw
      else if type = 66 then headerTracingData h raw
      else if type = 71 then auxTrace h raw
      else if type = 80 then headerFeature h raw
      else okA (type = 68 \<or> type = 82))"


section \<open>The next record\<close>

text \<open>One round of the loop: a record, or nothing when a record of metadata was consumed.\<close>

definition nextRound :: "host \<Rightarrow> trecord option read_op" where
  "nextRound h =
     bindA (onErrorA
       (\<lambda>e. bindA (modA (\<lambda>r. if errors_is e IoEOF then r else r\<lparr>rd_terminal := Some e\<rparr>)) (\<lambda>_. raiseA e))
       readOuter) (\<lambda>(raw, type, misc).
     bindA (modA (\<lambda>r. r\<lparr>rd_current := zero_details\<lparr>dt_Type := type, dt_Misc := misc, dt_Size := of_nat (length raw)\<rparr>\<rparr>)) (\<lambda>_.
     bindA (onErrorA
       (\<lambda>e. bindA (getA (\<lambda>r. fatalAt r (rd_offset r) ''metadata record'' e)) (\<lambda>t.
            bindA (modA (\<lambda>r. r\<lparr>rd_terminal := Some t\<rparr>)) (\<lambda>_. raiseA t)))
       (processPipeMetadata h type raw)) (\<lambda>metadata.
     bindA (modA (\<lambda>r. r\<lparr>rd_index := rd_index r + 1\<rparr>)) (\<lambda>_.
     bindA (getA id) (\<lambda>r.
     if metadata \<and> \<not> po_KeepMetadataRecords (rd_opts r) then okA None
     else bindA (decodeRecord h type misc (rd_buf r)) (\<lambda>rec. okA (Some rec)))))))"

text \<open>What is left to read, in bytes.\<close>

definition remaining :: "reader \<Rightarrow> nat" where
  "remaining r = (if rd_pipe r then length (fst (rd_stream r)) else nat (rd_dataEnd r - rd_offset r))"


section \<open>Every round consumes input\<close>

text \<open>\<open>consumes n m\<close>: nothing is put back, and when the operation succeeds at least \<open>n\<close> bytes were read.\<close>

definition consumes :: "nat \<Rightarrow> 'a read_op \<Rightarrow> bool" where
  "consumes n m \<longleftrightarrow>
     (\<forall>r. remaining (snd (m r)) \<le> remaining r \<and> (\<forall>x r'. m r = (Inr x, r') \<longrightarrow> remaining r' + n \<le> remaining r))"

lemma consumesI:
  "(\<And>r res r'. m r = (res, r') \<Longrightarrow> remaining r' \<le> remaining r \<and> (\<forall>x. res = Inr x \<longrightarrow> remaining r' + n \<le> remaining r)) \<Longrightarrow>
   consumes n m"
  unfolding consumes_def by (metis prod.collapse snd_conv)

lemma consumesD: "consumes n m \<Longrightarrow> m r = (Inr x, r') \<Longrightarrow> remaining r' + n \<le> remaining r"
  by (simp add: consumes_def)

lemma consumes_le: "consumes n m \<Longrightarrow> m r = (res, r') \<Longrightarrow> remaining r' \<le> remaining r"
  unfolding consumes_def by (metis snd_conv)

lemma consumes_keeps:
  assumes "keeps remaining m"
  shows "consumes 0 m"
proof (rule consumesI)
  fix r res r' assume "m r = (res, r')"
  then have "remaining r' = remaining r" by (rule keepsD [OF assms])
  then show "remaining r' \<le> remaining r \<and> (\<forall>x. res = Inr x \<longrightarrow> remaining r' + 0 \<le> remaining r)" by simp
qed

lemma consumes_bind:
  assumes "consumes k m" "\<And>x. consumes n (f x)"
  shows "consumes (k + n) (bindA m f)"
proof (rule consumesI)
  fix r res r' assume e: "bindA m f r = (res, r')"
  obtain res1 r1 where m: "m r = (res1, r1)" by fastforce
  show "remaining r' \<le> remaining r \<and> (\<forall>x. res = Inr x \<longrightarrow> remaining r' + (k + n) \<le> remaining r)"
  proof (cases res1)
    case (Inl err)
    then show ?thesis using e m consumes_le [OF assms(1) m] by (auto simp: bindA_def)
  next
    case (Inr y)
    then have f: "f y r1 = (res, r')" using e m by (simp add: bindA_def)
    have "remaining r1 + k \<le> remaining r" using consumesD [OF assms(1)] m Inr by simp
    then show ?thesis
      using consumes_le [OF assms(2) f] consumesD [OF assms(2)] f by fastforce
  qed
qed

lemma consumes_seq: "consumes 0 m \<Longrightarrow> (\<And>x. consumes n (f x)) \<Longrightarrow> consumes n (bindA m f)"
  using consumes_bind [of 0 m n f] by simp

lemma consumes_first: "consumes n m \<Longrightarrow> (\<And>x. consumes 0 (f x)) \<Longrightarrow> consumes n (bindA m f)"
  using consumes_bind [of n m 0 f] by simp

lemma consumes_if: "(c \<Longrightarrow> consumes n a) \<Longrightarrow> (\<not> c \<Longrightarrow> consumes n b) \<Longrightarrow> consumes n (if c then a else b)"
  by simp

lemma consumes_case_prod: "(\<And>a b. consumes n (f a b)) \<Longrightarrow> consumes n (case p of (a, b) \<Rightarrow> f a b)"
  by (cases p) simp

lemma consumes_onError:
  assumes "consumes n m" "\<And>e. consumes n (handle e)"
  shows "consumes n (onErrorA handle m)"
proof (rule consumesI)
  fix r res r' assume e: "onErrorA handle m r = (res, r')"
  obtain res1 r1 where m: "m r = (res1, r1)" by fastforce
  show "remaining r' \<le> remaining r \<and> (\<forall>x. res = Inr x \<longrightarrow> remaining r' + n \<le> remaining r)"
  proof (cases "\<exists>err. res1 = Inl (Fail err)")
    case True
    then obtain err where h: "handle err r1 = (res, r')" using e m by (auto simp: onErrorA_def)
    show ?thesis
      using consumes_le [OF assms(1) m] consumes_le [OF assms(2) h] consumesD [OF assms(2), of err r1 _ r'] h by fastforce
  next
    case False
    then have "res = res1 \<and> r' = r1" using e m by (auto simp: onErrorA_def split: sum.splits failure.splits)
    then show ?thesis using consumes_le [OF assms(1) m] consumesD [OF assms(1)] m by simp
  qed
qed

lemma consumes_fail: "consumes n (failA e)" "consumes n (raiseA err)"
  by (simp_all add: consumes_def act_simps)

text \<open>The operations on the metadata change neither the input nor the buffer, nor anything else but these members.\<close>

definition unread :: "(reader \<Rightarrow> 'b) \<Rightarrow> bool" where
  "unread f \<longleftrightarrow>
     (\<forall>g r. f (rd_attrs_update g r) = f r) \<and> (\<forall>g r. f (rd_byID_update g r) = f r) \<and>
     (\<forall>g r. f (rd_clock_update g r) = f r) \<and> (\<forall>g r. f (rd_formats_update g r) = f r) \<and>
     (\<forall>g r. f (rd_features_update g r) = f r) \<and> (\<forall>g r. f (rd_tracing_update g r) = f r) \<and>
     (\<forall>g r. f (rd_longSize_update g r) = f r) \<and> (\<forall>g r. f (rd_pageSize_update g r) = f r) \<and>
     (\<forall>g r. f (rd_metadataBytes_update g r) = f r) \<and> (\<forall>g r. f (rd_layoutSet_update g r) = f r) \<and>
     (\<forall>g r. f (rd_sampleIDOffset_update g r) = f r) \<and> (\<forall>g r. f (rd_suffixLayoutSet_update g r) = f r) \<and>
     (\<forall>g r. f (rd_suffixMask_update g r) = f r) \<and> (\<forall>g r. f (rd_suffixIDAll_update g r) = f r) \<and>
     (\<forall>g r. f (rd_sampleIDAll_update g r) = f r) \<and> (\<forall>g r. f (rd_noSampleIDAll_update g r) = f r)"

lemma unread_simps:
  assumes "unread f"
  shows "f (rd_attrs_update g1 r) = f r" "f (rd_byID_update g2 r) = f r"
    "f (rd_clock_update g3 r) = f r" "f (rd_formats_update g4 r) = f r"
    "f (rd_features_update g5 r) = f r" "f (rd_tracing_update g6 r) = f r"
    "f (rd_longSize_update g7 r) = f r" "f (rd_pageSize_update g8 r) = f r"
    "f (rd_metadataBytes_update g9 r) = f r" "f (rd_layoutSet_update g10 r) = f r"
    "f (rd_sampleIDOffset_update g11 r) = f r" "f (rd_suffixLayoutSet_update g12 r) = f r"
    "f (rd_suffixMask_update g13 r) = f r" "f (rd_suffixIDAll_update g14 r) = f r"
    "f (rd_sampleIDAll_update g15 r) = f r" "f (rd_noSampleIDAll_update g16 r) = f r"
  using assms by (simp_all add: unread_def)

lemma unread_more:
  assumes "unread f"
  shows "f (update_desc k g r) = f r" "f (attachFormats r) = f r"
  using assms by (simp_all add: update_desc_def attachFormats_def unread_simps)

lemma unread_members [simp]: "unread remaining" "unread rd_buf"
  by (simp_all add: unread_def remaining_def)

lemma remaining_unread [simp]:
  "remaining (rd_current_update f17 r) = remaining r" "remaining (rd_terminal_update f18 r) = remaining r"
  "remaining (rd_index_update f19 r) = remaining r" "remaining (rd_buf_update f20 r) = remaining r"
  "remaining (attachFormats r) = remaining r"
  by (simp_all add: remaining_def attachFormats_def)

lemmas keeps_intros = keeps_bind keeps_basic keeps_if keeps_case_option keeps_case_prod keeps_for keeps_raise keeps_wrap
  keeps_onError

lemma keeps_attributes:
  assumes "unread f"
  shows "keeps f (addDescriptor a name ids)" "keeps f (parseClockData data)"
  unfolding addDescriptor_def checkClock_def checkLookup_def checkSuffix_def chooseDescriptor_def addID_def Let_def
    parseClockData_def setClockID_def
  by (intro keeps_intros keeps_mod; simp add: unread_simps unread_more assms)+

lemma keeps_eventDescEntry: "unread f \<Longrightarrow> keeps f (eventDescEntry h data attrSize pos)"
  unfolding eventDescEntry_def Let_def by (intro keeps_intros keeps_attributes)

lemma keeps_eventDescEntries: "unread f \<Longrightarrow> keeps f (eventDescEntries h data attrSize n pos)"
  by (induction n arbitrary: pos) (simp_all add: keeps_bind keeps_eventDescEntry)

lemma keeps_readFormat: "unread f \<Longrightarrow> keeps f (readFormat h order data system longSize pos)"
  unfolding readFormat_def by (intro keeps_intros keeps_mod; simp add: unread_simps unread_more)

lemma keeps_readFormats: "unread f \<Longrightarrow> keeps f (readFormats h order data system longSize n pos)"
  by (induction n arbitrary: pos) (auto intro!: keeps_readFormat keeps_bind keeps_case_prod)

lemma keeps_readSystems: "unread f \<Longrightarrow> keeps f (readSystems h order data longSize n formatCount pos)"
  by (induction n arbitrary: formatCount pos)
     (auto intro!: keeps_readFormats keeps_bind keeps_case_prod keeps_if split: option.split)

lemma keeps_tracing: "unread f \<Longrightarrow> keeps f (parseTracingData h data)"
  unfolding parseTracingData_def readFtrace_def readAllSystems_def Let_def
  by (intro keeps_intros keeps_readFormats keeps_readSystems keeps_mod; simp add: unread_simps unread_more)

lemma keeps_addMetadata: "unread f \<Longrightarrow> keeps f (addMetadata n)"
  unfolding addMetadata_def by (intro keeps_intros keeps_mod; simp add: unread_simps unread_more)

lemma keeps_applyFeature: "unread f \<Longrightarrow> keeps f (applyFeature h feature data)"
  unfolding applyFeature_def parseEventDesc_def
  by (intro keeps_intros keeps_addMetadata keeps_tracing keeps_eventDescEntries keeps_attributes keeps_mod; simp add: unread_simps unread_more)

text \<open>Reading changes the input, the offset and the buffer, and puts nothing back.\<close>

definition framed :: "reader \<Rightarrow> reader \<Rightarrow> bool" where
  "framed r0 r \<longleftrightarrow>
     (\<exists>s b off. r = r0\<lparr>rd_stream := s, rd_buf := b, rd_offset := off\<rparr>) \<and> remaining r \<le> remaining r0"

interpretation input: state_invariant "framed r0" for r0 .

lemma framed_refl [simp]: "framed r r"
  unfolding framed_def
  by (intro conjI exI [where x = "rd_stream r"] exI [where x = "rd_buf r"] exI [where x = "rd_offset r"]) simp_all

lemma ReadFull_length:
  assumes "ReadFull n s = ((bs, err), rest)"
  shows "length (fst rest) \<le> length (fst s)" "err = None \<Longrightarrow> length bs = n \<and> length (fst rest) + n = length (fst s)"
  using assms by (auto simp: ReadFull_def split: prod.splits if_splits)

text \<open>What follows the header, or a body, that was read.\<close>

definition after_read :: "nat \<Rightarrow> reader \<Rightarrow> bytes \<Rightarrow> reader \<Rightarrow> bool" where
  "after_read n r0 bs r \<longleftrightarrow>
     length bs = n \<and>
     (\<exists>s. r = r0\<lparr>rd_stream := s\<rparr> \<and>
       (if rd_pipe r0 then length (fst s) + n = length (fst (rd_stream r0)) else s = rd_stream r0))"

lemma framed_stream: "length (fst s) \<le> length (fst (rd_stream r)) \<Longrightarrow> framed r (r\<lparr>rd_stream := s\<rparr>)"
  unfolding framed_def
  by (intro conjI exI [where x = s] exI [where x = "rd_buf r"] exI [where x = "rd_offset r"])
     (simp_all add: remaining_def)

lemma after_read_file: "\<not> rd_pipe r \<Longrightarrow> length bs = n \<Longrightarrow> after_read n r bs r"
  unfolding after_read_def by (intro conjI exI [where x = "rd_stream r"]) simp_all

lemma after_read_pipe:
  "rd_pipe r \<Longrightarrow> length bs = n \<and> length (fst s) + n = length (fst (rd_stream r)) \<Longrightarrow> after_read n r bs (r\<lparr>rd_stream := s\<rparr>)"
  unfolding after_read_def by (intro conjI exI [where x = s]) simp_all

lemma readBytes_runs: "input.runs r (\<lambda>t. t = r) (readBytes off n) (after_read n r)"
proof (cases "rd_pipe r")
  case True
  obtain bs err rest where rf: "ReadFull n (rd_stream r) = ((bs, err), rest)" by (metis prod.collapse)
  show ?thesis
    using True rf ReadFull_length [OF rf]
    by (cases err) (simp_all add: input.runs_at readBytes_def act_simps framed_stream after_read_pipe)
next
  case False
  then show ?thesis
    using safe_readAtFull [of "rd_at r" off n] readAtFull_length [of "rd_at r" off n]
    by (cases "readAtFull (rd_at r) off n")
       (auto simp: input.runs_at readBytes_def act_simps after_read_file safe_def split: failure.split)
qed

lemma readHeader_runs:
  "input.runs r (\<lambda>t. t = r) readHeader (\<lambda>bs t. after_read 8 r bs t \<and> (\<not> rd_pipe r \<longrightarrow> 8 \<le> rd_dataEnd r - rd_offset r))"
proof (cases "rd_pipe r")
  case True
  obtain bs err rest where rf: "ReadFull 8 (rd_stream r) = ((bs, err), rest)" by (metis prod.collapse)
  show ?thesis
    using True rf ReadFull_length [OF rf]
    by (cases err) (simp_all add: input.runs_at readHeader_def act_simps Let_def framed_stream after_read_pipe)
next
  case False
  then show ?thesis
    using safe_readAtFull [of "rd_at r" "rd_offset r" 8] readAtFull_length [of "rd_at r" "rd_offset r" 8]
    by (cases "readAtFull (rd_at r) (rd_offset r) 8")
       (auto simp: input.runs_at readHeader_def act_simps Let_def wrapA_def after_read_file safe_def split: failure.split)
qed

lemma framed_trans:
  assumes "framed a b" "framed b c"
  shows "framed a c"
proof -
  obtain s1 b1 o1 where b: "b = a\<lparr>rd_stream := s1, rd_buf := b1, rd_offset := o1\<rparr>"
    using assms(1) unfolding framed_def by blast
  obtain s2 b2 o2 where "c = b\<lparr>rd_stream := s2, rd_buf := b2, rd_offset := o2\<rparr>"
    using assms(2) unfolding framed_def by blast
  then have "c = a\<lparr>rd_stream := s2, rd_buf := b2, rd_offset := o2\<rparr>" using b by simp
  moreover have "remaining c \<le> remaining a"
    using assms unfolding framed_def by (meson order_trans)
  ultimately show ?thesis unfolding framed_def by blast
qed

lemma input_runs_from: "framed r s \<Longrightarrow> input.runs s P m Q \<Longrightarrow> input.runs r P m Q"
  unfolding input.runs_def by (fastforce split: prod.splits sum.splits failure.splits dest: framed_trans)

lemma after_read_framed: "after_read n r bs t \<Longrightarrow> framed r t"
  unfolding after_read_def by (auto intro!: framed_stream split: if_splits)

text \<open>The reader behind a record or block of \<open>n\<close> bytes, of which \<open>k\<close> were still to be read.\<close>

lemma after_read_advance:
  assumes "after_read k r bs t" "0 \<le> n" "\<not> rd_pipe r \<longrightarrow> n \<le> rd_dataEnd r - rd_offset r"
  shows "framed r (t\<lparr>rd_buf := b, rd_offset := rd_offset r + n\<rparr>)"
    and "\<not> rd_pipe r \<Longrightarrow> remaining (t\<lparr>rd_buf := b, rd_offset := rd_offset r + n\<rparr>) + nat n = remaining r"
    and "rd_pipe r \<Longrightarrow> remaining (t\<lparr>rd_buf := b, rd_offset := rd_offset r + n\<rparr>) + k = remaining r"
proof -
  obtain s where s: "t = r\<lparr>rd_stream := s\<rparr>"
      "if rd_pipe r then length (fst s) + k = length (fst (rd_stream r)) else s = rd_stream r"
    using assms(1) by (auto simp: after_read_def)
  show "framed r (t\<lparr>rd_buf := b, rd_offset := rd_offset r + n\<rparr>)"
    unfolding framed_def
    by (intro conjI exI [where x = s] exI [where x = b] exI [where x = "rd_offset r + n"])
       (use s assms(2,3) in \<open>auto simp: remaining_def split: if_splits\<close>)
  show "remaining (t\<lparr>rd_buf := b, rd_offset := rd_offset r + n\<rparr>) + nat n = remaining r" if "\<not> rd_pipe r"
    using that s assms(2,3) by (auto simp: remaining_def)
  show "remaining (t\<lparr>rd_buf := b, rd_offset := rd_offset r + n\<rparr>) + k = remaining r" if "rd_pipe r"
    using that s by (auto simp: remaining_def)
qed

definition outer_post :: "reader \<Rightarrow> bytes \<times> u32 \<times> u16 \<Rightarrow> reader \<Rightarrow> bool" where
  "outer_post r res t \<longleftrightarrow>
     framed r t \<and> remaining t + 8 \<le> remaining r \<and> 8 \<le> length (fst res) \<and> rd_buf t = fst res"

lemma readOuter_runs: "input.runs r (\<lambda>t. t = r) readOuter (outer_post r)"
  unfolding readOuter_def
proof (rule input.runs_bind [OF readHeader_runs], rule input.runs_bind_get_at)
  fix header s
  assume "after_read 8 r header s \<and> (\<not> rd_pipe r \<longrightarrow> 8 \<le> rd_dataEnd r - rd_offset r)"
  then have hd: "after_read 8 r header s" and room: "\<not> rd_pipe r \<Longrightarrow> 8 \<le> rd_dataEnd r - rd_offset r" by auto
  have s: "length header = 8" "rd_offset s = rd_offset r" "rd_dataEnd s = rd_dataEnd r" "rd_pipe s = rd_pipe r"
      "framed r s" "\<not> rd_pipe r \<Longrightarrow> remaining s = remaining r" "rd_pipe r \<Longrightarrow> remaining s + 8 = remaining r"
    using hd after_read_framed [OF hd] by (auto simp: after_read_def remaining_def split: if_splits)
  have body: "input.runs r (\<lambda>t. t = s)
      (if sz > 8 then wrapA (fatalAt s (rd_offset s + 8) ''record body'') (readBytes (rd_offset s + 8) (unat sz - 8))
       else okA []) (after_read (unat sz - 8) s)" if "\<not> sz < 8" for sz :: u16
  proof (cases "sz > 8")
    case True
    then show ?thesis by (simp add: input.runs_wrap input_runs_from [OF s(5) readBytes_runs])
  next
    case False
    then have "sz = 8" using that by simp
    moreover have "after_read 0 s [] s" unfolding after_read_def by (intro conjI exI [where x = "rd_stream s"]) simp_all
    ultimately show ?thesis by (auto intro!: input.runs_ok)
  qed
  have final: "input.runs r (after_read (unat sz - 8) s body)
      (bindA (modA (\<lambda>r. r\<lparr>rd_buf := header @ body, rd_offset := rd_offset s + uint sz\<rparr>))
        (\<lambda>_. okA (header @ body, type, misc))) (outer_post r)"
    if "\<not> sz < 8" "\<not> (\<not> rd_pipe s \<and> uint sz > rd_dataEnd s - rd_offset s)" for sz :: u16 and body type misc
  proof (rule input.runs_bind_mod, rule conjI)
    fix t assume t: "after_read (unat sz - 8) s body t"
    have n: "8 \<le> unat sz" using that(1) by (simp add: word_less_nat_alt)
    note adv = after_read_advance [OF t, of "uint sz" "header @ body"]
    show "framed r (t\<lparr>rd_buf := header @ body, rd_offset := rd_offset s + uint sz\<rparr>)"
      using framed_trans [OF s(5) adv(1)] that(2) by force
    show "remaining (t\<lparr>rd_buf := header @ body, rd_offset := rd_offset s + uint sz\<rparr>) + 8 \<le> remaining r \<and>
        rd_buf (t\<lparr>rd_buf := header @ body, rd_offset := rd_offset s + uint sz\<rparr>) = header @ body"
      using adv(2,3) that(2) n s by (cases "rd_pipe r") auto
  qed (auto simp: outer_post_def s(1) intro: input.runs_ok)
  show "input.runs r (\<lambda>t. t = s)
      (let start = rd_offset (id s) in
       bindA (liftA (u32_at (rd_order (id s)) header 0)) (\<lambda>type.
       bindA (liftA (u16_at (rd_order (id s)) header 4)) (\<lambda>misc.
       bindA (liftA (u16_at (rd_order (id s)) header 6)) (\<lambda>sz.
       if sz < 8 \<or> uint sz > lm_MaxRecordBytes (rd_limits (id s))
       then raiseA (fatalAt (id s) start ''record header'' (Err ErrInvalid))
       else if \<not> rd_pipe (id s) \<and> uint sz > rd_dataEnd (id s) - start
       then raiseA (fatalAt (id s) start ''record body'' (Err ErrTruncated))
       else
         bindA (if sz > 8
                then wrapA (fatalAt (id s) (start + 8) ''record body'') (readBytes (start + 8) (unat sz - 8))
                else okA []) (\<lambda>body.
         bindA (modA (\<lambda>r. r\<lparr>rd_buf := header @ body, rd_offset := start + uint sz\<rparr>)) (\<lambda>_.
         okA (header @ body, type, misc))))))) (outer_post r)"
    unfolding Let_def id_apply
    by (intro input.runs_bind_lift input.runs_if input.runs_raise input.runs_bind [OF body final] safe_words_at)
       (use s(1,5) in auto)
qed

lemma readPost_runs:
  "input.runs r (\<lambda>t. t = r) (readPost h sz) (\<lambda>_. framed r)"
  unfolding readPost_def
proof (rule input.runs_bind_get_at)
  fix s assume s: "s = r"
  have final: "input.runs r (after_read (unat sz) r post)
      (bindA (modA (\<lambda>r. r\<lparr>rd_buf := rd_buf r @ post, rd_offset := rd_offset r + uint sz\<rparr>)) (\<lambda>_. okA post))
      (\<lambda>_. framed r)"
    if "\<not> (\<not> rd_pipe r \<and> uint sz > rd_dataEnd r - rd_offset r)" for post
  proof (rule input.runs_bind_mod)
    fix t assume t: "after_read (unat sz) r post t"
    have "rd_offset t = rd_offset r" using t by (auto simp: after_read_def)
    then show "framed r (t\<lparr>rd_buf := rd_buf t @ post, rd_offset := rd_offset t + uint sz\<rparr>)"
      using after_read_advance(1) [OF t, of "uint sz" "rd_buf t @ post"] that by force
  qed (rule input.runs_ok)
  show "input.runs r (\<lambda>t. t = s)
      (if uint sz > lm_MaxPostRecordBytes (rd_limits (id s)) \<or> uint sz > MaxInt h then failA ErrLimit
       else if \<not> rd_pipe (id s) \<and> uint sz > rd_dataEnd (id s) - rd_offset (id s) then failA ErrTruncated
       else
         bindA (readBytes (rd_offset (id s)) (unat sz)) (\<lambda>post.
         bindA (modA (\<lambda>r. r\<lparr>rd_buf := rd_buf r @ post, rd_offset := rd_offset r + uint sz\<rparr>)) (\<lambda>_. okA post)))
      (\<lambda>_. framed r)"
    unfolding s id_apply
    by (intro input.runs_if input.runs_fail input.runs_bind [OF readBytes_runs final]) simp_all
qed

lemma consumes_framed:
  assumes "\<And>r. input.runs r (\<lambda>t. t = r) m (Q r)" "\<And>r x t. Q r x t \<Longrightarrow> framed r t \<and> remaining t + n \<le> remaining r"
  shows "consumes n m"
proof (rule consumesI)
  fix r res r' assume m: "m r = (res, r')"
  have "framed r r'"
  proof (cases res)
    case (Inl f)
    then show ?thesis
      using input.runs_Fail [OF assms(1) refl] input.runs_safe [OF assms(1) refl, of r] m by (cases f) auto
  next
    case (Inr x)
    then show ?thesis using input.runs_Inr [OF assms(1) refl] assms(2) m by blast
  qed
  moreover have "remaining r' + n \<le> remaining r" if "res = Inr x" for x
    using input.runs_Inr [OF assms(1) refl] assms(2) m that by blast
  ultimately show "remaining r' \<le> remaining r \<and> (\<forall>x. res = Inr x \<longrightarrow> remaining r' + n \<le> remaining r)"
    by (auto simp: framed_def)
qed

lemma consumes_readOuter: "consumes 8 readOuter"
  by (rule consumes_framed [OF readOuter_runs]) (simp add: outer_post_def)

lemma consumes_readPost: "consumes 0 (readPost h sz)"
  by (rule consumes_framed [OF readPost_runs]) (simp add: framed_def)

lemma consumes_metadata: "consumes 0 (processPipeMetadata h type raw)"
  unfolding processPipeMetadata_def headerAttr_def headerTracingData_def auxTrace_def headerFeature_def Let_def
  by (intro consumes_if consumes_seq consumes_readPost consumes_fail;
      intro consumes_keeps keeps_intros keeps_applyFeature keeps_addMetadata keeps_attributes keeps_mod; simp)

lemma remaining_decodeRecord: "keeps remaining (decodeRecord h type misc raw)"
proof -
  have suffix: "keeps remaining (applySuffixLayout rec raw layout)" for rec raw layout
    by (auto simp: keeps_def applySuffixLayout_def Let_def split: prod.split sum.split failure.split)
  have "keeps remaining (applySuffix rec raw)" for rec raw
    using suffix by (auto simp: keeps_def applySuffix_def split: sum.split failure.split)
  moreover have catch: "keeps remaining (catchA res handle f)"
    if "\<And>e. keeps remaining (handle e)" "\<And>x. keeps remaining (f x)" for res :: "'x result" and handle and f :: "'x \<Rightarrow> 'y read_op"
    using that by (auto simp: keeps_def catchA_def split: sum.split failure.split)
  moreover have "keeps remaining (case res of Inl (reason, e) \<Rightarrow> okA (corrupt raw reason (Err e))
      | Inr (rec, dt) \<Rightarrow> bindA (modA (\<lambda>r. r\<lparr>rd_current := dt\<rparr>)) (\<lambda>_. applyNamed rec raw layout))" for res raw layout
    unfolding applyNamed_def using suffix by (auto intro!: keeps_intros keeps_mod split: sum.split)
  ultimately show ?thesis
    unfolding decodeRecord_def perf_decodeSample_def formattedSample_def decodeLost_def decodeKnown_def applyNamed_def Let_def
    by (intro keeps_intros keeps_mod catch suffix; simp)
qed

lemma consumes_nextRound: "consumes 8 (nextRound h)"
  unfolding nextRound_def
proof (rule consumes_first, intro consumes_onError consumes_readOuter consumes_seq consumes_fail consumes_keeps
    keeps_mod)
  fix x :: "bytes \<times> u32 \<times> u16"
  obtain raw type misc where x: "x = (raw, type, misc)" by (metis prod.collapse)
  have metadata: "consumes 0 (onErrorA
       (\<lambda>e. bindA (getA (\<lambda>r. fatalAt r (rd_offset r) ''metadata record'' e)) (\<lambda>t.
            bindA (modA (\<lambda>r. r\<lparr>rd_terminal := Some t\<rparr>)) (\<lambda>_. raiseA t)))
       (processPipeMetadata h type raw))"
    by (intro consumes_onError consumes_metadata consumes_seq consumes_fail consumes_keeps keeps_mod) simp_all
  show "consumes 0 (case x of (raw, type, misc) \<Rightarrow>
     bindA (modA (\<lambda>r. r\<lparr>rd_current := zero_details\<lparr>dt_Type := type, dt_Misc := misc, dt_Size := of_nat (length raw)\<rparr>\<rparr>)) (\<lambda>_.
     bindA (onErrorA
       (\<lambda>e. bindA (getA (\<lambda>r. fatalAt r (rd_offset r) ''metadata record'' e)) (\<lambda>t.
            bindA (modA (\<lambda>r. r\<lparr>rd_terminal := Some t\<rparr>)) (\<lambda>_. raiseA t)))
       (processPipeMetadata h type raw)) (\<lambda>metadata.
     bindA (modA (\<lambda>r. r\<lparr>rd_index := rd_index r + 1\<rparr>)) (\<lambda>_.
     bindA (getA id) (\<lambda>r.
     if metadata \<and> \<not> po_KeepMetadataRecords (rd_opts r) then okA None
     else bindA (decodeRecord h type misc (rd_buf r)) (\<lambda>rec. okA (Some rec)))))))"
    unfolding x prod.case
    by (rule consumes_seq [OF _ consumes_seq [OF metadata]])
       (intro consumes_keeps keeps_intros keeps_mod remaining_decodeRecord; simp)+
qed simp


section \<open>Next\<close>

text \<open>The loop of \<open>Next\<close>; it ends because every round consumes input.\<close>

function next_loop :: "host \<Rightarrow> reader \<Rightarrow> trecord result \<times> reader" where
  "next_loop h r =
     (case nextRound h r of
        (Inl e, r') \<Rightarrow> (Inl e, r')
      | (Inr (Some rec), r') \<Rightarrow> (Inr rec, r')
      | (Inr None, r') \<Rightarrow> next_loop h r')"
  by pat_completeness auto
termination
  by (relation "measure (\<lambda>(h, r). remaining r)") (auto dest!: sym [of _ "nextRound _ _"] dest: consumesD [OF consumes_nextRound])

declare next_loop.simps [simp del]

definition perf_Next :: "host \<Rightarrow> trecord read_op" where
  "perf_Next h r =
     (if rd_closed r then (fail IoEOF, r)
      else case rd_terminal r of
          Some e \<Rightarrow> (Inl (Fail e), r)
        | None \<Rightarrow> next_loop h r)"

definition perf_Close :: "reader \<Rightarrow> reader" where
  "perf_Close r =
     (if rd_closed r then r
      else r\<lparr>rd_closed := True, rd_buf := [], rd_attrs := [], rd_byID := [], rd_formats := [], rd_features := [],
             rd_eventTypes := [], rd_tracing := zero_tracing, rd_current := zero_details\<rparr>)"

text \<open>All the records until \<open>Next\<close> returns an error, as a client reads them.\<close>

lemma next_loop_consumes: "next_loop h r = (Inr rec, r') \<Longrightarrow> remaining r' + 8 \<le> remaining r"
proof (induction h r rule: next_loop.induct)
  case (1 h r)
  obtain res r1 where m: "nextRound h r = (res, r1)" by fastforce
  show ?case
  proof (cases res)
    case (Inl e)
    then show ?thesis using 1(2) m by (simp add: next_loop.simps [of h r])
  next
    case (Inr v)
    then have c: "remaining r1 + 8 \<le> remaining r" using consumesD [OF consumes_nextRound] m by simp
    show ?thesis
    proof (cases v)
      case None
      then have "remaining r' + 8 \<le> remaining r1" using 1 m Inr by (simp add: next_loop.simps [of h r])
      then show ?thesis using c by simp
    next
      case (Some x)
      then show ?thesis using 1(2) m Inr c by (simp add: next_loop.simps [of h r])
    qed
  qed
qed

lemma Next_consumes: "perf_Next h r = (Inr rec, r') \<Longrightarrow> remaining r' + 8 \<le> remaining r"
  by (auto simp: perf_Next_def next_loop_consumes split: if_splits option.splits)

function read_all :: "host \<Rightarrow> reader \<Rightarrow> trecord list \<times> failure \<times> reader" where
  "read_all h r =
     (case perf_Next h r of
        (Inr rec, r') \<Rightarrow> (case read_all h r' of (recs, e, r'') \<Rightarrow> (rec # recs, e, r''))
      | (Inl e, r') \<Rightarrow> ([], e, r'))"
  by pat_completeness auto
termination
  by (relation "measure (\<lambda>(h, r). remaining r)") (auto dest!: sym [of _ "perf_Next _ _"] dest: Next_consumes)

declare read_all.simps [simp del]

text \<open>
  C25. Reading a file or a finite stream to its end ends: whatever the input, a client that calls \<open>Next\<close>
  until it returns an error gets at most one record for every eight bytes of input, and every single
  call returns although it skips any number of records of metadata.
\<close>

theorem read_all_bounded: "8 * length (fst (read_all h r)) \<le> remaining r"
proof (induction h r rule: read_all.induct)
  case (1 h r)
  obtain res r1 where m: "perf_Next h r = (res, r1)" by fastforce
  show ?case
  proof (cases res)
    case (Inr rec)
    then have "8 * length (fst (read_all h r1)) \<le> remaining r1" using 1 m by simp
    moreover have "remaining r1 + 8 \<le> remaining r" using Next_consumes m Inr by simp
    ultimately show ?thesis
      using m Inr by (auto simp: read_all.simps [of h r] split: prod.split)
  qed (use m in \<open>simp add: read_all.simps [of h r]\<close>)
qed

end
