(* ===== verification/PerfNoPanic.thy ===== *)
theory PerfNoPanic imports PerfReader begin

text \<open>
  On a 64-bit host no input makes the reader of package \<open>perfdata\<close> panic, and every reader that opening
  and reading can produce satisfies the invariant of the table of descriptors. On a 32-bit host a
  record of a stream with an attribute size of at least \<open>2^31\<close> makes \<open>Next\<close> panic.
\<close>


section \<open>The invariant and the members it does not read\<close>

lemma reader_ok_unread_more [simp]:
  "reader_ok (rd_formats_update f1 r) = reader_ok r" "reader_ok (rd_features_update f2 r) = reader_ok r"
  "reader_ok (rd_tracing_update f3 r) = reader_ok r" "reader_ok (rd_longSize_update f4 r) = reader_ok r"
  "reader_ok (rd_pageSize_update f5 r) = reader_ok r" "reader_ok (rd_terminal_update f6 r) = reader_ok r"
  "reader_ok (rd_index_update f7 r) = reader_ok r" "reader_ok (rd_buf_update f8 r) = reader_ok r"
  "reader_ok (rd_stream_update f9 r) = reader_ok r" "reader_ok (rd_offset_update f10 r) = reader_ok r"
  "reader_ok (rd_dataEnd_update f11 r) = reader_ok r" "reader_ok (rd_eventTypes_update f12 r) = reader_ok r"
  "reader_ok (rd_order_update f13 r) = reader_ok r" "reader_ok (rd_byteOrder_update f14 r) = reader_ok r"
  "reader_ok (rd_at_update f15 r) = reader_ok r" "reader_ok (rd_fileSize_update f16 r) = reader_ok r"
  "reader_ok (rd_pipe_update f17 r) = reader_ok r" "reader_ok (rd_closed_update f18 r) = reader_ok r"
  by (rule reader_ok_cong; simp)+

lemma attachFormats_ok: "reader_ok r \<Longrightarrow> reader_ok (attachFormats r)"
proof -
  assume r: "reader_ok r"
  let ?d = "\<lambda>d. if at_Type (ed_attr d) = 2 then d\<lparr>ed_format := map_of (rd_formats r) (ucast (at_Config (ed_attr d)))\<rparr> else d"
  have d: "ed_ids (?d d) = ed_ids d" "ed_attr (?d d) = ed_attr d" for d by simp_all
  have "table_ok (attachFormats r)"
    using r by (auto simp: attachFormats_def reader_ok_def table_ok_def d split del: if_split)
  moreover have "layout_ok (attachFormats r)" "bounds_ok (attachFormats r)"
    using r by (auto simp: attachFormats_def reader_ok_def layout_ok_def attr_fits_def bounds_ok_def)
  ultimately show ?thesis by (simp add: reader_ok_def)
qed

lemmas reader_rules = perf.runs_if perf.runs_fail perf.runs_raise perf.runs_ok perf.runs_bind_get perf.runs_bind_lift
  perf.runs_case_option perf.runs_wrap perf.runs_lift


section \<open>The tracing metadata\<close>

lemma safe_readBlock: "width \<in> {4, 8} \<Longrightarrow> safe (readBlock h order data pos width most)"
  unfolding readBlock_def Let_def by (intro safe_rules safe_words_at safe_slice) auto

lemma readBlock_end: "readBlock h order data pos width most = Inr (out, pos') \<Longrightarrow> pos' \<le> length data"
  by (auto simp: readBlock_def Let_def result_simps split: if_splits)

lemma safe_readNamed64: "name \<noteq> [] \<Longrightarrow> safe (readNamed64 h order data pos name most)"
  unfolding readNamed64_def by (cases "length name") (auto intro!: safe_rules safe_readBlock safe_slice)

lemma safe_tracingHead: "safe (tracingHead h limits data)"
  unfolding tracingHead_def Let_def
  by (intro safe_rules safe_readNamed64 safe_words_at safe_index) auto

lemma readFormat_runs: "perf.runs reader_ok (readFormat h order data system longSize pos) (\<lambda>_. reader_ok)"
  unfolding readFormat_def case_prod_unfold
  by (intro reader_rules perf.runs_bind_mod [where R = reader_ok] safe_readBlock safe_ParseFormat) auto

lemma readFormats_runs: "perf.runs reader_ok (readFormats h order data system longSize n pos) (\<lambda>_. reader_ok)"
  by (induction n arbitrary: pos)
     (auto simp: case_prod_unfold intro!: perf.runs_ok perf.runs_bind [OF readFormat_runs] perf.runs_bind)

lemma readSystems_runs: "perf.runs reader_ok (readSystems h order data longSize n formatCount pos) (\<lambda>_. reader_ok)"
proof (induction n arbitrary: formatCount pos)
  case (Suc n)
  show ?case
    unfolding readSystems.simps case_prod_unfold
    by (intro reader_rules perf.runs_bind [OF readFormats_runs] Suc.IH safe_words_at) auto
qed (simp add: perf.runs_ok)

lemma readFtrace_runs: "perf.runs reader_ok (readFtrace h order data longSize pos) (\<lambda>_. reader_ok)"
  unfolding readFtrace_def by (intro reader_rules readFormats_runs safe_words_at) auto

lemma readAllSystems_runs: "perf.runs reader_ok (readAllSystems h order data longSize pos) (\<lambda>_. reader_ok)"
  unfolding readAllSystems_def by (intro reader_rules readSystems_runs safe_words_at) auto

lemma parseTracingData_runs: "perf.runs reader_ok (parseTracingData h data) (\<lambda>_. reader_ok)"
  unfolding parseTracingData_def Let_def case_prod_unfold
  by (intro reader_rules perf.runs_bind [OF readFtrace_runs] perf.runs_bind [OF readAllSystems_runs] perf.runs_mod
      safe_tracingHead safe_readBlock safe_if safe_Inr safe_slice_from)
     (auto simp: attachFormats_ok dest: readBlock_end split: if_splits)


section \<open>Features and sections\<close>

lemma reader_ok_metadata:
  assumes "reader_ok r" "0 \<le> n" "n \<le> lm_MaxMetadataBytes (rd_limits r)"
  shows "reader_ok (r\<lparr>rd_metadataBytes := n\<rparr>)"
proof -
  have "table_ok (r\<lparr>rd_metadataBytes := n\<rparr>) = table_ok r" by (simp add: table_ok_def)
  moreover have "layout_ok (r\<lparr>rd_metadataBytes := n\<rparr>) = layout_ok r" by (simp add: layout_ok_def attr_fits_def)
  moreover have "bounds_ok (r\<lparr>rd_metadataBytes := n\<rparr>)" using assms by (simp add: bounds_ok_def reader_ok_def)
  ultimately show ?thesis using assms(1) by (simp add: reader_ok_def)
qed

lemma reader_ok_bounds: "reader_ok r \<Longrightarrow> 0 \<le> rd_metadataBytes r"
  by (simp add: reader_ok_def bounds_ok_def)

lemma addMetadata_runs: "perf.runs reader_ok (addMetadata n) (\<lambda>_. reader_ok)"
  unfolding addMetadata_def
  by (intro perf.runs_bind_get_at perf.runs_if perf.runs_raise perf.runs_mod)
     (auto intro!: reader_ok_metadata dest: reader_ok_bounds)

lemma applyFeature_runs: "perf.runs reader_ok (applyFeature h feature data) (\<lambda>_. reader_ok)"
  unfolding applyFeature_def
  by (intro reader_rules perf.runs_bind [OF addMetadata_runs] perf.runs_bind_mod [where R = reader_ok]
      parseTracingData_runs parseEventDesc_runs parseClockData_runs perf.runs_mod safe_words_at) auto

lemma safe_checkSection: "safe (checkSection h fileSize s)"
  by (simp add: checkSection_def)

lemma safe_sectionAt: "i + 16 \<le> length b \<Longrightarrow> safe (sectionAt order b i)"
  unfolding sectionAt_def by (intro safe_rules safe_words_at) auto

lemma readAtA_bind:
  "(\<And>bs. length bs = n \<Longrightarrow> perf.runs reader_ok (f bs) Q) \<Longrightarrow> perf.runs reader_ok (bindA (readAtA off n stage) f) Q"
  unfolding readAtA_def
  by (rule perf.runs_bind [where R = "\<lambda>bs r. reader_ok r \<and> length bs = n"])
     (auto intro!: perf.runs_bind_get perf.runs_wrap perf.runs_lift perf.runs_fact dest: readAtFull_length)

lemma loadFeatureAt_runs: "perf.runs reader_ok (loadFeatureAt h feature s) (\<lambda>_. reader_ok)"
proof -
  have "perf.runs reader_ok (wrapA g (liftA (checkSection h fileSize s))) (\<lambda>_. reader_ok)" for g fileSize
    by (intro perf.runs_wrap perf.runs_lift) (auto simp: safe_checkSection)
  then show ?thesis
    unfolding loadFeatureAt_def Let_def
    by (intro perf.runs_bind_get perf.runs_bind [where R = "\<lambda>_. reader_ok" and m = "wrapA _ _"] perf.runs_if perf.runs_raise
        perf.runs_fail readAtA_bind perf.runs_wrap [of reader_ok "applyFeature _ _ _"] applyFeature_runs) auto
qed

lemma readIDs_runs: "perf.runs reader_ok (readIDs s) (\<lambda>_. reader_ok)"
proof -
  have "8 * unat (sec_size s div 8) \<le> unat (sec_size s)" by (simp add: unat_div)
  then show ?thesis
    unfolding readIDs_def Let_def
    by (intro reader_rules perf.runs_bind [OF addMetadata_runs] readAtA_bind conjI safe_read_words) auto
qed

lemma seekAttr_runs:
  assumes "80 \<le> attrEntrySize"
  shows "perf.runs reader_ok (seekAttr h entryOff attrEntrySize) (\<lambda>_. reader_ok)"
proof -
  have n: "80 \<le> unat attrEntrySize" using assms by (simp add: word_le_nat_alt)
  have check: "perf.runs reader_ok (wrapA g (liftA (checkSection h fileSize s))) (\<lambda>_. reader_ok)" for g fileSize s
    by (intro perf.runs_wrap perf.runs_lift) (auto simp: safe_checkSection)
  have attr: "perf.runs reader_ok (wrapA g (liftA (parseAttr order bo raw))) (\<lambda>_. reader_ok)" for g order bo raw
    by (intro perf.runs_wrap perf.runs_lift) (auto simp: safe_parseAttr)
  show ?thesis
    unfolding seekAttr_def Let_def
    by (intro readAtA_bind perf.runs_bind [OF addMetadata_runs] perf.runs_bind_get perf.runs_bind_lift
        perf.runs_bind [OF attr] perf.runs_bind [OF check] perf.runs_bind [OF readIDs_runs] perf.runs_wrap
        addDescriptor_keeps safe_slice safe_sectionAt) (use n in auto)
qed

lemma seekAttrs_runs: "perf.runs reader_ok (seekAttrs h attrs attrEntrySize) (\<lambda>_. reader_ok)"
  unfolding seekAttrs_def Let_def
  by (intro reader_rules perf.runs_for seekAttr_runs) (auto simp: not_less)

lemma seekFeatures_runs: "perf.runs reader_ok (seekFeatures h bs descPos) (\<lambda>_. reader_ok)"
proof (induction bs arbitrary: descPos)
  case (Cons b bs)
  show ?case
    unfolding seekFeatures.simps
    by (intro reader_rules readAtA_bind perf.runs_bind [OF loadFeatureAt_runs] Cons.IH safe_sectionAt) auto
qed (simp add: perf.runs_ok)

lemma seekEventTypes_runs: "perf.runs reader_ok (seekEventTypes s) (\<lambda>_. reader_ok)"
  unfolding seekEventTypes_def
  by (intro reader_rules perf.runs_bind [OF addMetadata_runs] readAtA_bind perf.runs_mod) auto

lemma checkSections_runs: "perf.runs reader_ok (checkSections h sections) (\<lambda>_. reader_ok)"
  unfolding checkSections_def case_prod_unfold
  by (intro perf.runs_for perf.runs_bind_get perf.runs_wrap perf.runs_lift) (auto simp: safe_checkSection)

lemma parseSeekHeader_runs:
  "104 \<le> length header \<Longrightarrow> perf.runs reader_ok (parseSeekHeader h visit header) (\<lambda>_. reader_ok)"
  unfolding parseSeekHeader_def
  by (intro reader_rules perf.runs_bind [OF checkSections_runs] perf.runs_bind [OF seekEventTypes_runs]
      perf.runs_bind_mod [where R = reader_ok] perf.runs_bind [OF seekAttrs_runs] perf.runs_bind [OF seekFeatures_runs]
      perf.runs_mod safe_words_at safe_sectionAt safe_read_words) (auto intro: attachFormats_ok)


section \<open>Opening\<close>

lemma setOrder_runs: "perf.runs reader_ok (setOrder magic) (\<lambda>_. reader_ok)"
  unfolding setOrder_def by (intro reader_rules perf.runs_mod) auto

lemma openFile_runs: "perf.runs reader_ok (openFile h visit fileSize) (\<lambda>_. reader_ok)"
  unfolding openFile_def
  by (intro reader_rules readAtA_bind perf.runs_bind [OF setOrder_runs] parseSeekHeader_runs safe_words_at)
     (auto simp: not_less word_le_nat_alt)

lemma opened_ok:
  assumes "perf.runs reader_ok m (\<lambda>_. reader_ok)" "reader_ok r"
  shows "safe (opened m r)" "opened m r = Inr r' \<Longrightarrow> reader_ok r'"
  using perf.runs_safe [OF assms] perf.runs_Inr [OF assms]
  by (auto simp: opened_def safe_def split: prod.splits sum.splits)

lemma Open_ok:
  "safe (perf_Open h visit at fileSize opts)" "perf_Open h visit at fileSize opts = Inr r \<Longrightarrow> reader_ok r"
proof -
  have ok: "reader_ok ((newReader opts limits)\<lparr>rd_at := at, rd_fileSize := fileSize\<rparr>)"
    if "defaultLimits (po_Limits opts) = Inr limits" for limits at
    using newReader_ok [OF defaultLimits_ok [OF that]] by simp
  show "safe (perf_Open h visit at fileSize opts)"
    unfolding perf_Open_def
    by (intro safe_rules safe_defaultLimits opened_ok(1) [OF openFile_runs] ok)
  show "reader_ok r" if "perf_Open h visit at fileSize opts = Inr r"
    using that opened_ok(2) [OF openFile_runs ok]
    by (auto simp: perf_Open_def bindR_eq_Inr split: option.splits if_splits)
qed

lemma ReadFull_enough: "ReadFull n s = ((first, None), rest) \<Longrightarrow> n \<le> length first"
  using ReadFull_length(2) by fastforce

lemma openStream_runs: "perf.runs reader_ok openStream (\<lambda>_. reader_ok)"
  unfolding openStream_def
  by (auto intro!: reader_rules perf.runs_bind [OF setOrder_runs] perf.runs_bind_mod [where R = reader_ok]
      perf.runs_mod safe_words_at dest!: ReadFull_enough split: prod.split option.split)

lemma OpenPipe_ok:
  "safe (OpenPipe input opts)" "OpenPipe input opts = Inr r \<Longrightarrow> reader_ok r"
proof -
  have ok: "reader_ok ((newReader opts limits)\<lparr>rd_pipe := True, rd_stream := s, rd_dataEnd := -1\<rparr>)"
    if "defaultLimits (po_Limits opts) = Inr limits" for limits s
    using newReader_ok [OF defaultLimits_ok [OF that]] by simp
  show "safe (OpenPipe input opts)"
    unfolding OpenPipe_def
    by (intro safe_rules safe_defaultLimits opened_ok(1) [OF openStream_runs] ok)
  show "reader_ok r" if "OpenPipe input opts = Inr r"
    using that opened_ok(2) [OF openStream_runs ok]
    by (auto simp: OpenPipe_def bindR_eq_Inr split: option.splits)
qed


section \<open>Reading\<close>

lemma headerAttr_runs:
  assumes "int64 h"
  shows "perf.runs reader_ok (headerAttr h raw) (\<lambda>_. reader_ok)"
proof -
  have n: "to_int h (uint sz) = uint sz" for sz :: u32
    using assms uint_lt2p [of sz] by (simp add: MaxInt_def)
  show ?thesis
    unfolding headerAttr_def Let_def n
    by (intro reader_rules perf.runs_bind [OF addMetadata_runs] perf.runs_bind [OF addDescriptor_keeps]
        perf.runs_bind_mod [where R = reader_ok] safe_words_at safe_bindR safe_sliceI safe_parseAttr safe_read_words)
       (auto simp: slice_fromI_in attachFormats_ok not_less)
qed

lemma reader_ok_framed: "framed r t \<Longrightarrow> reader_ok r \<Longrightarrow> reader_ok t"
  unfolding framed_def by auto

lemma perf_runs_framed:
  assumes "\<And>r. input.runs r (\<lambda>t. t = r) m (Q r)" "\<And>r x t. reader_ok r \<Longrightarrow> Q r x t \<Longrightarrow> R x t"
  shows "perf.runs reader_ok m R"
proof (rule perf.runsI)
  fix r assume r: "reader_ok r"
  show "fst (m r) \<noteq> Inl Fault" by (rule input.runs_safe [OF assms(1) refl])
  show "reader_ok t" if "m r = (Inl (Fail e), t)" for e t
    using input.runs_Fail [OF assms(1) refl that] r reader_ok_framed by blast
  show "R x t" if "m r = (Inr x, t)" for x t
    using input.runs_Inr [OF assms(1) refl that] r assms(2) by blast
qed

lemma readOuter_ok: "perf.runs reader_ok readOuter (\<lambda>res t. (reader_ok t \<and> 8 \<le> length (rd_buf t)) \<and> 8 \<le> length (fst res))"
  by (rule perf_runs_framed [OF readOuter_runs]) (auto simp: outer_post_def dest: reader_ok_framed)

lemma readPost_ok: "perf.runs reader_ok (readPost h sz) (\<lambda>_. reader_ok)"
  by (rule perf_runs_framed [OF readPost_runs]) (auto dest: reader_ok_framed)

lemma metadata_runs:
  assumes "int64 h"
  shows "perf.runs reader_ok (processPipeMetadata h type raw) (\<lambda>_. reader_ok)"
  unfolding processPipeMetadata_def headerTracingData_def auxTrace_def headerFeature_def
  by (intro reader_rules headerAttr_runs [OF assms] perf.runs_bind [OF readPost_ok] perf.runs_bind [OF applyFeature_runs]
      perf.runs_bind_mod [where R = reader_ok] safe_words_at) (auto simp: slice_from_in attachFormats_ok)

text \<open>The buffer only grows.\<close>

definition grows :: "'a read_op \<Rightarrow> bool" where
  "grows m \<longleftrightarrow> (\<forall>r. length (rd_buf r) \<le> length (rd_buf (snd (m r))))"

lemma grows_keeps: "keeps rd_buf m \<Longrightarrow> grows m"
  by (simp add: grows_def keeps_def)

lemma grows_bind: "grows m \<Longrightarrow> (\<And>x. grows (f x)) \<Longrightarrow> grows (bindA m f)"
  unfolding grows_def bindA_def by (auto split: prod.split sum.split) (metis order_trans snd_conv)+

lemma grows_if: "(c \<Longrightarrow> grows a) \<Longrightarrow> (\<not> c \<Longrightarrow> grows b) \<Longrightarrow> grows (if c then a else b)"
  by simp

lemma grows_fail: "grows (failA e)"
  by (simp add: grows_def act_simps)

lemma grows_mod: "(\<And>r. length (rd_buf r) \<le> length (rd_buf (g r))) \<Longrightarrow> grows (modA g)"
  by (simp add: grows_def act_simps)

lemma keeps_readBytes: "keeps rd_buf (readBytes off n)"
  unfolding readBytes_def by (intro keeps_intros keeps_mod; simp)

lemma grows_readPost: "grows (readPost h sz)"
  unfolding readPost_def
  by (intro grows_bind grows_if grows_fail grows_mod grows_keeps [OF keeps_readBytes] grows_keeps [OF keeps_basic(1)]
      grows_keeps [OF keeps_basic(4)]) simp_all

lemma grows_metadata: "grows (processPipeMetadata h type raw)"
  unfolding processPipeMetadata_def headerAttr_def headerTracingData_def auxTrace_def headerFeature_def Let_def
  by (intro grows_if grows_bind grows_readPost grows_fail;
      intro grows_keeps keeps_intros keeps_applyFeature keeps_addMetadata keeps_attributes keeps_mod;
      simp add: attachFormats_def)

lemma metadata_buffer:
  assumes "int64 h"
  shows "perf.runs (\<lambda>r. reader_ok r \<and> 8 \<le> length (rd_buf r)) (processPipeMetadata h type raw)
    (\<lambda>_ r. reader_ok r \<and> 8 \<le> length (rd_buf r))"
proof (rule perf.runs_also [OF metadata_runs [OF assms]])
  fix r x t assume "8 \<le> length (rd_buf r)" "processPipeMetadata h type raw r = (Inr x, t)"
  then show "8 \<le> length (rd_buf t)"
    using grows_metadata [of h type raw] unfolding grows_def by (metis order_trans snd_conv)
qed

lemma nextRound_runs:
  assumes "int64 h"
  shows "perf.runs reader_ok (nextRound h) (\<lambda>_. reader_ok)"
proof -
  let ?B = "\<lambda>r. reader_ok r \<and> 8 \<le> length (rd_buf r)"
  have outer: "perf.runs reader_ok (onErrorA
       (\<lambda>e. bindA (modA (\<lambda>r. if errors_is e IoEOF then r else r\<lparr>rd_terminal := Some e\<rparr>)) (\<lambda>_. raiseA e)) readOuter)
     (\<lambda>res t. ?B t \<and> 8 \<le> length (fst res))"
    by (intro perf.runs_onError readOuter_ok perf.runs_bind_mod [where R = reader_ok] perf.runs_raise) auto
  have metadata: "perf.runs ?B (onErrorA
       (\<lambda>e. bindA (getA (\<lambda>r. fatalAt r (rd_offset r) ''metadata record'' e)) (\<lambda>t.
            bindA (modA (\<lambda>r. r\<lparr>rd_terminal := Some t\<rparr>)) (\<lambda>_. raiseA t)))
       (processPipeMetadata h type raw)) (\<lambda>_. ?B)" for type raw
    by (intro perf.runs_onError metadata_buffer [OF assms] perf.runs_bind_get perf.runs_bind_mod [where R = reader_ok]
        perf.runs_raise) auto
  have deliver: "perf.runs ?B (bindA (getA id) (\<lambda>r.
     if metadata \<and> \<not> po_KeepMetadataRecords (rd_opts r) then okA None
     else bindA (decodeRecord h type misc (rd_buf r)) (\<lambda>rec. okA (Some rec)))) (\<lambda>_. reader_ok)" for metadata type misc
  proof (intro perf.runs_bind_get_at perf.runs_if perf.runs_ok)
    fix s assume s: "?B s"
    then have "perf.runs reader_ok (bindA (decodeRecord h type misc (rd_buf s)) (\<lambda>rec. okA (Some rec))) (\<lambda>_. reader_ok)"
      by (intro perf.runs_bind [OF decodeRecord_runs] perf.runs_ok) auto
    then show "perf.runs (\<lambda>t. t = s) (bindA (decodeRecord h type misc (rd_buf (id s))) (\<lambda>rec. okA (Some rec))) (\<lambda>_. reader_ok)"
      using s by (simp add: perf.runs_weaken)
  qed auto
  show ?thesis
    unfolding nextRound_def
    by (intro perf.runs_bind [OF outer] perf.runs_fact)
       (auto simp: case_prod_unfold intro!: perf.runs_bind_mod [where R = ?B] perf.runs_bind [OF metadata] deliver)
qed

lemma perf_loop_ok: "int64 h \<Longrightarrow> reader_ok r \<Longrightarrow> next_loop h r = (res, r') \<Longrightarrow> res \<noteq> Inl Fault \<and> reader_ok r'"
proof (induction h r rule: next_loop.induct)
  case (1 h r)
  note runs = nextRound_runs [OF 1(2)]
  obtain res1 r1 where m: "nextRound h r = (res1, r1)" by fastforce
  show ?case
  proof (cases res1)
    case (Inl f)
    then have e: "res = Inl f" "r' = r1" using 1(4) m by (auto simp: next_loop.simps [of h r])
    have "f \<noteq> Fault" using perf.runs_safe [OF runs 1(3)] m Inl by simp
    then obtain e where "f = Fail e" by (cases f) auto
    then show ?thesis using perf.runs_Fail [OF runs 1(3)] m Inl e by simp
  next
    case (Inr v)
    have "reader_ok r1" using perf.runs_Inr [OF runs 1(3)] m Inr by simp
    then show ?thesis
      using 1(1) [OF m [symmetric] _ _ 1(2)] 1(4) m Inr by (cases v) (auto simp: next_loop.simps [of h r])
  qed
qed

text \<open>\<open>r\<close> is a reader that was opened and then read from and closed any number of times.\<close>

inductive reader_reachable :: "host \<Rightarrow> reader \<Rightarrow> bool" for h where
  reach_file: "perf_Open h visit at fileSize opts = Inr r \<Longrightarrow> reader_reachable h r"
| reach_pipe: "OpenPipe input opts = Inr r \<Longrightarrow> reader_reachable h r"
| reach_read: "reader_reachable h r \<Longrightarrow> reader_reachable h (snd (perf_Next h r))"
| reach_close: "reader_reachable h r \<Longrightarrow> reader_reachable h (perf_Close r)"

lemma perf_Next_ok:
  assumes "int64 h" "reader_ok r"
  shows "fst (perf_Next h r) \<noteq> Inl Fault \<and> reader_ok (snd (perf_Next h r))"
  using assms perf_loop_ok [OF assms, of "fst (next_loop h r)" "snd (next_loop h r)"]
  by (auto simp: perf_Next_def split: option.split)

lemma Close_ok: "reader_ok r \<Longrightarrow> reader_ok (perf_Close r)"
  by (auto simp: perf_Close_def reader_ok_def table_ok_def layout_ok_def bounds_ok_def)

lemma reader_reachable_ok: "reader_reachable h r \<Longrightarrow> int64 h \<Longrightarrow> reader_ok r"
  by (induction rule: reader_reachable.induct) (auto simp: Open_ok OpenPipe_ok perf_Next_ok Close_ok)

text \<open>
  C15. On a 64-bit host the reader is safe against any input. Opening never panics, whatever the file or
  stream holds and whatever errors reading it returns; every reader reached from there by calls of
  \<open>Next\<close> and \<open>Close\<close> satisfies the invariant of the table of descriptors, also after errors; and no
  call of \<open>Next\<close> on such a reader panics.
\<close>

theorem reader_no_panic:
  assumes "int64 h"
  shows "(\<forall>visit at fileSize opts. safe (perf_Open h visit at fileSize opts)) \<and> (\<forall>input opts. safe (OpenPipe input opts)) \<and>
    (\<forall>r. reader_reachable h r \<longrightarrow> reader_ok r \<and> safe (fst (perf_Next h r)))"
  using assms reader_reachable_ok perf_Next_ok by (auto simp: safe_def Open_ok(1) [unfolded safe_def] OpenPipe_ok(1) [unfolded safe_def])

definition wide_host :: host where
  "wide_host = \<lparr>native = LittleEndian, int64 = True, letter_rune = \<lambda>_. False, digit_rune = \<lambda>_. False\<rparr>"

definition demo_stream :: stream where
  "demo_stream = (magicLittle @ put64 LittleEndian 16 @ [1, 0, 0, 0, 0, 0, 8, 0] @ [0, 0], Err IoEOF)"

lemma demo_stream_opens: "\<exists>r. OpenPipe (Some demo_stream) demo_options = Inr r"
proof -
  have "defaultLimits demo_limits = Inr demo_limits"
    by (simp add: defaultLimits_def or_default_def demo_limits_def Let_def)
  moreover have "ReadFull 16 demo_stream = ((magicLittle @ put64 LittleEndian 16, None), ([1, 0, 0, 0, 0, 0, 8, 0, 0, 0], Err IoEOF))"
    by (simp add: ReadFull_def demo_stream_def magicLittle_def)
  moreover have "length magicLittle = 8" by (simp add: magicLittle_def)
  moreover have "u64_at LittleEndian (magicLittle @ put64 LittleEndian 16) 8 = Inr 16"
    using words_at_append(3) [of 8 magicLittle LittleEndian 16 "[]"] by (simp add: magicLittle_def)
  ultimately show ?thesis
    by (simp add: OpenPipe_def demo_options_def newReader_def openStream_def setOrder_def opened_def act_simps)
qed

theorem reader_no_panic_witness:
  "\<exists>r. OpenPipe (Some demo_stream) demo_options = Inr r \<and>
     (let r1 = snd (perf_Next wide_host r) in reader_ok r1 \<and> safe (fst (perf_Next wide_host r1)))"
proof -
  obtain r where r: "OpenPipe (Some demo_stream) demo_options = Inr r" using demo_stream_opens by blast
  have "int64 wide_host" by (simp add: wide_host_def)
  note np = reader_no_panic [OF this, THEN conjunct2, THEN conjunct2, rule_format, OF reach_read, OF reach_pipe, OF r]
  show ?thesis using r np by (simp add: Let_def)
qed

end
