(* ===== verification/PerfMerge.thy ===== *)
theory PerfMerge imports PerfNoPanic "HOL-Library.Multiset" begin

text \<open>
  Package \<open>perfdata\<close>, file \<open>merge.go\<close>: the merge of several readers by absolute time. Readers are told
  apart by their pointers, so the state is the store of readers with the \<open>MergedReader\<close>, and a nil
  pointer is \<open>None\<close>. What the merge needs of a reader is the locale \<open>record_source\<close>; the reader of the
  package satisfies it.
\<close>


section \<open>The code\<close>

record merge_options =
  mo_MaxReaders :: int
  mo_EpochOffsets :: "nat \<Rightarrow> u64 option"
  mo_ReaderOffsets :: "nat \<Rightarrow> u64 option"

text \<open>The slices have the length of \<open>mg_readers\<close>, which bounds every index that is used with them.\<close>

record merged_reader =
  mg_readers :: "nat list"
  mg_offsets :: "u64 list"
  mg_heads :: "trecord list"
  mg_times :: "u64 list"
  mg_ready :: "bool list"
  mg_done :: "bool list"
  mg_closed :: bool

definition zero_record :: trecord where
  "zero_record = \<lparr>tr_Body = RecordUnknown, tr_Identity = \<lparr>id_System = [], id_Name = [], id_ID = 0\<rparr>,
     tr_Timestamp = zero_timestamp, tr_CPU = None, tr_PID = None, tr_TID = None, tr_Raw = [], tr_Diagnostics = []\<rparr>"

definition mergeOffset :: "(nat \<Rightarrow> reader) \<Rightarrow> merge_options \<Rightarrow> nat \<Rightarrow> nat \<Rightarrow> u64 option" where
  "mergeOffset heap opts i p =
     (case mo_EpochOffsets opts i of
        Some offset \<Rightarrow> Some offset
      | None \<Rightarrow>
          (case mo_ReaderOffsets opts p of
             Some offset \<Rightarrow> Some offset
           | None \<Rightarrow>
               if ci_EpochOffsetKnown (rd_clock (heap p)) then Some (ci_EpochOffset (rd_clock (heap p))) else None))"

text \<open>The loop of \<open>Merge\<close> over the readers, with those already seen.\<close>

fun mergeOffsets :: "(nat \<Rightarrow> reader) \<Rightarrow> merge_options \<Rightarrow> nat \<Rightarrow> nat set \<Rightarrow> nat option list \<Rightarrow> u64 list result" where
  "mergeOffsets heap opts i seen [] = Inr []"
| "mergeOffsets heap opts i seen (None # ps) = fail ErrInvalid"
| "mergeOffsets heap opts i seen (Some p # ps) =
     (if p \<in> seen then fail ErrInvalid
      else
        case mergeOffset heap opts i p of
          None \<Rightarrow> fail ErrIncomparableClocks
        | Some offset \<Rightarrow>
            bindR (mergeOffsets heap opts (i + 1) (insert p seen) ps) (\<lambda>offsets. Inr (offset # offsets)))"

definition Merge :: "(nat \<Rightarrow> reader) \<Rightarrow> nat option list \<Rightarrow> merge_options \<Rightarrow> merged_reader result" where
  "Merge heap readers opts =
     (let most = (if mo_MaxReaders opts = 0 then 64 else mo_MaxReaders opts); n = length readers in
      if most < 0 \<or> int n > most then fail ErrLimit
      else
        bindR (mergeOffsets heap opts 0 {} readers) (\<lambda>offsets.
        Inr \<lparr>mg_readers = map the readers, mg_offsets = offsets, mg_heads = replicate n zero_record,
             mg_times = replicate n 0, mg_ready = replicate n False, mg_done = replicate n False, mg_closed = False\<rparr>))"

text \<open>The record with the offset of its reader, and its absolute time.\<close>

definition stamped :: "u64 \<Rightarrow> trecord \<Rightarrow> trecord" where
  "stamped offset rec = rec\<lparr>tr_Timestamp := (tr_Timestamp rec)\<lparr>EpochOffset := offset, EpochOffsetKnown := True\<rparr>\<rparr>"

type_synonym 'r record_reader = "'r \<Rightarrow> trecord result \<times> 'r"

definition fillHead :: "'r record_reader \<Rightarrow> nat \<Rightarrow> ((nat \<Rightarrow> 'r) \<times> merged_reader, unit) act" where
  "fillHead read1 i s =
     (let heap = fst s; m = snd s; p = mg_readers m ! i in
      if mg_done m ! i \<or> mg_ready m ! i then (Inr (), s)
      else
        case read1 (heap p) of (res, r) \<Rightarrow>
        let heap = heap(p := r) in
        case res of
          Inl Fault \<Rightarrow> (Inl Fault, (heap, m))
        | Inl (Fail e) \<Rightarrow>
            if errors_is e IoEOF then (Inr (), (heap, m\<lparr>mg_done := (mg_done m)[i := True]\<rparr>))
            else (Inl (Fail e), (heap, m))
        | Inr rec \<Rightarrow>
            let rec = stamped (mg_offsets m ! i) rec in
            case UnixNano (tr_Timestamp rec) of
              None \<Rightarrow> (fail ErrIncomparableClocks, (heap, m))
            | Some absolute \<Rightarrow>
                (Inr (), (heap, m\<lparr>mg_heads := (mg_heads m)[i := rec], mg_times := (mg_times m)[i := absolute],
                                  mg_ready := (mg_ready m)[i := True]\<rparr>)))"

text \<open>The first of the readers with the earliest record.\<close>

definition better :: "merged_reader \<Rightarrow> nat \<Rightarrow> nat option \<Rightarrow> nat option" where
  "better m i best =
     (if mg_ready m ! i \<and> (case best of None \<Rightarrow> True | Some b \<Rightarrow> mg_times m ! i <s mg_times m ! b) then Some i else best)"

definition bestHead :: "merged_reader \<Rightarrow> nat option" where
  "bestHead m = fold (better m) [0..<length (mg_readers m)] None"

definition takeHead :: "((nat \<Rightarrow> 'r) \<times> merged_reader, trecord) act" where
  "takeHead s =
     (let m = snd s in
      case bestHead m of
        None \<Rightarrow> (fail IoEOF, s)
      | Some b \<Rightarrow>
          (Inr (mg_heads m ! b), (fst s, m\<lparr>mg_heads := (mg_heads m)[b := zero_record], mg_ready := (mg_ready m)[b := False]\<rparr>)))"

definition merge_next :: "'r record_reader \<Rightarrow> ((nat \<Rightarrow> 'r) \<times> merged_reader, trecord) act" where
  "merge_next read1 =
     bindA (getA snd) (\<lambda>m.
     if mg_closed m then failA IoEOF
     else bindA (forA (fillHead read1) [0..<length (mg_readers m)]) (\<lambda>_. takeHead))"

definition MergedReader_Next :: "host \<Rightarrow> ((nat \<Rightarrow> reader) \<times> merged_reader, trecord) act" where
  "MergedReader_Next h = merge_next (perf_Next h)"

definition MergedReader_Close :: "merged_reader \<Rightarrow> merged_reader" where
  "MergedReader_Close m =
     (if mg_closed m then m
      else m\<lparr>mg_closed := True, mg_heads := [], mg_readers := [], mg_ready := [], mg_done := []\<rparr>)"

text \<open>The records a client gets from at most \<open>n\<close> calls, and the error that ends them.\<close>

fun merge_reads :: "(('s, trecord) act) \<Rightarrow> nat \<Rightarrow> 's \<Rightarrow> trecord list \<times> failure option" where
  "merge_reads next1 0 s = ([], None)"
| "merge_reads next1 (Suc n) s =
     (case next1 s of
        (Inl e, _) \<Rightarrow> ([], Some e)
      | (Inr rec, s') \<Rightarrow> (case merge_reads next1 n s' of (recs, e) \<Rightarrow> (rec # recs, e)))"


section \<open>The order of the records\<close>

definition unix_time :: "trecord \<Rightarrow> int" where
  "unix_time rec = sint (the (UnixNano (tr_Timestamp rec)))"

text \<open>A first element that nothing precedes is the first of the stable sort.\<close>

lemma sort_key_first:
  assumes "\<forall>y\<in>set before. f x < f y" "\<forall>y\<in>set behind. f x \<le> f y"
  shows "sort_key f (before @ x # behind) = x # sort_key f (before @ behind)"
  using assms(1)
proof (induction before)
  case Nil
  then show ?case using assms(2) by (simp add: insort_is_Cons)
qed auto

lemma sort_key_concat_first:
  assumes "i < length xss" "xss ! i = x # xs" "\<forall>ys\<in>set xss. sorted (map f ys)"
    and least: "\<forall>j<length xss. xss ! j \<noteq> [] \<longrightarrow> f x \<le> f (hd (xss ! j))"
    and first: "\<forall>j<i. xss ! j \<noteq> [] \<longrightarrow> f x < f (hd (xss ! j))"
  shows "sort_key f (concat xss) = x # sort_key f (concat (xss[i := xs]))"
proof -
  have hd_least: "f (hd ys) \<le> f y" if "ys \<in> set xss" "y \<in> set ys" for ys y
    using bspec [OF assms(3) that(1)] that(2) by (cases ys) auto
  have "f x < f y" if mem: "y \<in> set (concat (take i xss))" for y
  proof -
    obtain j where "j < i" "y \<in> set (xss ! j)" using \<open>i < length xss\<close> mem
      by (auto simp: in_set_conv_nth [of _ "take i xss"])
    then show ?thesis
      using first hd_least [of "xss ! j" y] \<open>i < length xss\<close> by (fastforce intro: less_le_trans)
  qed
  moreover have "f x \<le> f y" if "y \<in> set (xs @ concat (drop (Suc i) xss))" for y
  proof -
    have "y \<in> set (concat (drop i xss))"
      using that assms(2) Cons_nth_drop_Suc [OF \<open>i < length xss\<close>] by (metis Un_iff concat.simps(2) set_append set_subset_Cons subsetD)
    then obtain j where "j < length xss" "y \<in> set (xss ! j)"
      by (auto simp: in_set_conv_nth [of _ "drop i xss"]) (metis add.commute less_diff_conv)
    then show ?thesis
      using least hd_least [of "xss ! j" y] by (fastforce intro: order_trans)
  qed
  ultimately have "sort_key f (concat (take i xss) @ x # xs @ concat (drop (Suc i) xss)) =
      x # sort_key f (concat (take i xss) @ xs @ concat (drop (Suc i) xss))"
    by (intro sort_key_first) auto
  moreover have "concat xss = concat (take i xss) @ x # xs @ concat (drop (Suc i) xss)"
    using id_take_nth_drop [OF \<open>i < length xss\<close>] assms(2) by (metis append_Cons concat.simps(2) concat_append)
  moreover have "concat (xss[i := xs]) = concat (take i xss) @ xs @ concat (drop (Suc i) xss)"
    using upd_conv_take_nth_drop [OF \<open>i < length xss\<close>] by (metis concat.simps(2) concat_append)
  ultimately show ?thesis by simp
qed

text \<open>What the search for the earliest head finds.\<close>

definition is_best :: "merged_reader \<Rightarrow> nat \<Rightarrow> nat option \<Rightarrow> bool" where
  "is_best m n best =
     (case best of
        None \<Rightarrow> \<forall>i<n. \<not> mg_ready m ! i
      | Some b \<Rightarrow> b < n \<and> mg_ready m ! b \<and>
          (\<forall>i<n. mg_ready m ! i \<longrightarrow> sint (mg_times m ! b) \<le> sint (mg_times m ! i)) \<and>
          (\<forall>i<b. mg_ready m ! i \<longrightarrow> sint (mg_times m ! b) < sint (mg_times m ! i)))"

lemma better_best: "is_best m n best \<Longrightarrow> is_best m (Suc n) (better m n best)"
  by (auto simp: is_best_def better_def less_Suc_eq word_sless_alt split: option.splits if_splits)

lemma bestHead_best: "is_best m (length (mg_readers m)) (bestHead m)"
proof -
  have "is_best m n (fold (better m) [0..<n] None)" for n
    by (induction n) (auto simp: better_best, simp add: is_best_def)
  then show ?thesis by (simp add: bestHead_def)
qed


section \<open>What the merge needs of a reader\<close>

text \<open>
  A reader delivers the records of a list, one by one, and then an error; \<open>stream\<close> is what it still has
  to deliver.
\<close>

locale record_source =
  fixes read1 :: "'r record_reader" and stream :: "'r \<Rightarrow> trecord list \<times> failure"
  assumes step: "read1 r = (Inr rec, r') \<Longrightarrow> stream r = (rec # fst (stream r'), snd (stream r'))"
    and stop: "read1 r = (Inl e, r') \<Longrightarrow> stream r = ([], e)"
begin

text \<open>The records of one reader that the merge has not returned: its head and what follows.\<close>

definition pending :: "(nat \<Rightarrow> 'r) \<Rightarrow> merged_reader \<Rightarrow> nat \<Rightarrow> trecord list" where
  "pending heap m i =
     (if mg_ready m ! i then [mg_heads m ! i] else []) @
     (if mg_done m ! i then []
      else map (stamped (mg_offsets m ! i)) (fst (stream (heap (mg_readers m ! i)))))"

definition timed :: "trecord list \<Rightarrow> bool" where
  "timed recs \<longleftrightarrow> sorted (map unix_time recs) \<and> (\<forall>rec\<in>set recs. UnixNano (tr_Timestamp rec) \<noteq> None)"

lemma timed_tl: "timed recs \<Longrightarrow> timed (tl recs)"
  by (cases recs) (auto simp: timed_def)

definition ends :: "'r \<Rightarrow> bool" where
  "ends r \<longleftrightarrow> (\<exists>e. snd (stream r) = Fail e \<and> errors_is e IoEOF)"

definition source_ok :: "(nat \<Rightarrow> 'r) \<Rightarrow> merged_reader \<Rightarrow> nat \<Rightarrow> bool" where
  "source_ok heap m i \<longleftrightarrow>
     timed (pending heap m i) \<and> (mg_ready m ! i \<longrightarrow> UnixNano (tr_Timestamp (mg_heads m ! i)) = Some (mg_times m ! i)) \<and>
     (\<not> mg_done m ! i \<longrightarrow> ends (heap (mg_readers m ! i)))"

definition merge_ok :: "nat \<Rightarrow> (nat \<Rightarrow> 'r) \<Rightarrow> merged_reader \<Rightarrow> bool" where
  "merge_ok n heap m \<longleftrightarrow>
     \<not> mg_closed m \<and> distinct (mg_readers m) \<and> length (mg_readers m) = n \<and> length (mg_heads m) = n \<and>
     length (mg_times m) = n \<and> length (mg_ready m) = n \<and> length (mg_done m) = n \<and> (\<forall>i<n. source_ok heap m i)"

definition filled :: "(nat \<Rightarrow> 'r) \<Rightarrow> merged_reader \<Rightarrow> nat \<Rightarrow> bool" where
  "filled heap m i \<longleftrightarrow> mg_ready m ! i \<or> pending heap m i = []"

text \<open>Filling one head changes neither what is pending nor the other heads.\<close>

lemma fillHead_outcome:
  assumes ok: "merge_ok n heap m" and "i < n"
  shows "\<exists>heap' m'. fillHead read1 i (heap, m) = (Inr (), heap', m') \<and> merge_ok n heap' m' \<and>
    (\<forall>j<n. pending heap' m' j = pending heap m j) \<and> filled heap' m' i \<and> (\<forall>j<n. filled heap m j \<longrightarrow> filled heap' m' j)"
proof (cases "mg_done m ! i \<or> mg_ready m ! i")
  case True
  then show ?thesis
    using ok by (auto simp: fillHead_def filled_def pending_def Let_def)
next
  case False
  let ?p = "mg_readers m ! i"
  have other: "j < n \<Longrightarrow> j \<noteq> i \<Longrightarrow> mg_readers m ! j \<noteq> ?p" for j
    using ok \<open>i < n\<close> by (auto simp: merge_ok_def nth_eq_iff_index_eq)
  have src: "source_ok heap m j" if "j < n" for j using ok that by (auto simp: merge_ok_def)
  obtain res r where r: "read1 (heap ?p) = (res, r)" by fastforce
  show ?thesis
  proof (cases res)
    case (Inl e)
    have st: "stream (heap ?p) = ([], e)" using stop r Inl by simp
    then obtain e' where e: "e = Fail e'" "errors_is e' IoEOF"
      using src [OF \<open>i < n\<close>] False by (auto simp: source_ok_def ends_def)
    let ?h = "heap(?p := r)" and ?m = "m\<lparr>mg_done := (mg_done m)[i := True]\<rparr>"
    have same: "pending ?h ?m j = pending heap m j" if "j < n" for j
      using that other [of j] st False ok \<open>i < n\<close> by (cases "j = i") (auto simp: pending_def merge_ok_def)
    have "source_ok ?h ?m j" if "j < n" for j
      using that src [OF that] other [of j] ok same [OF that] \<open>i < n\<close>
      by (cases "j = i") (auto simp: source_ok_def merge_ok_def)
    then have "merge_ok n ?h ?m" using ok by (simp add: merge_ok_def)
    moreover have "pending heap m i = []" using st False by (simp add: pending_def)
    ultimately show ?thesis
      using False r Inl e same \<open>i < n\<close> by (auto simp: fillHead_def filled_def Let_def)
  next
    case (Inr rec)
    let ?rec = "stamped (mg_offsets m ! i) rec"
    have st: "stream (heap ?p) = (rec # fst (stream r), snd (stream r))" using step r Inr by simp
    have pend: "pending heap m i = ?rec # map (stamped (mg_offsets m ! i)) (fst (stream r))"
      using st False by (simp add: pending_def)
    then obtain t where t: "UnixNano (tr_Timestamp ?rec) = Some t"
      using src [OF \<open>i < n\<close>] by (auto simp: source_ok_def timed_def)
    let ?h = "heap(?p := r)" and ?m = "m\<lparr>mg_heads := (mg_heads m)[i := ?rec], mg_times := (mg_times m)[i := t],
      mg_ready := (mg_ready m)[i := True]\<rparr>"
    have same: "pending ?h ?m j = pending heap m j" if "j < n" for j
      using that other [of j] pend False ok \<open>i < n\<close> by (cases "j = i") (auto simp: pending_def merge_ok_def)
    have "source_ok ?h ?m j" if "j < n" for j
      using that src [OF that] other [of j] ok same [OF that] \<open>i < n\<close> t st False
      by (cases "j = i") (auto simp: source_ok_def merge_ok_def ends_def)
    then have "merge_ok n ?h ?m" using ok by (simp add: merge_ok_def)
    then show ?thesis
      using False r Inr t same \<open>i < n\<close> ok
      by (auto simp: fillHead_def filled_def Let_def merge_ok_def nth_list_update)
  qed
qed

lemma fill_all:
  assumes "merge_ok n heap m" "k \<le> n"
  shows "\<exists>heap' m'. forA (fillHead read1) [n - k..<n] (heap, m) = (Inr (), heap', m') \<and> merge_ok n heap' m' \<and>
    (\<forall>j<n. pending heap' m' j = pending heap m j) \<and> (\<forall>j<n. n - k \<le> j \<or> filled heap m j \<longrightarrow> filled heap' m' j)"
  using assms
proof (induction k arbitrary: heap m)
  case 0
  then show ?case by (auto simp: act_simps)
next
  case (Suc k)
  let ?i = "n - Suc k"
  obtain heap1 m1 where 1: "fillHead read1 ?i (heap, m) = (Inr (), heap1, m1)" "merge_ok n heap1 m1"
      "\<forall>j<n. pending heap1 m1 j = pending heap m j" "filled heap1 m1 ?i" "\<forall>j<n. filled heap m j \<longrightarrow> filled heap1 m1 j"
    using fillHead_outcome [OF Suc.prems(1), of ?i] Suc.prems(2) by auto
  obtain heap2 m2 where 2: "forA (fillHead read1) [n - k..<n] (heap1, m1) = (Inr (), heap2, m2)" "merge_ok n heap2 m2"
      "\<forall>j<n. pending heap2 m2 j = pending heap1 m1 j" "\<forall>j<n. n - k \<le> j \<or> filled heap1 m1 j \<longrightarrow> filled heap2 m2 j"
    using Suc.IH [OF 1(2)] Suc.prems(2) by auto
  have "[?i..<n] = ?i # [n - k..<n]" using Suc.prems(2) by (simp add: upt_conv_Cons Suc_diff_Suc)
  then have "forA (fillHead read1) [?i..<n] (heap, m) = (Inr (), heap2, m2)"
    using 1(1) 2(1) by (simp add: bindA_def)
  moreover have "filled heap2 m2 j" if "j < n" "?i \<le> j \<or> filled heap m j" for j
    using that 1(4,5) 2(4) by (cases "j = ?i") auto
  ultimately show ?case using 1(3) 2(2,3) by auto
qed

lemma hd_pending: "merge_ok n heap m \<Longrightarrow> i < n \<Longrightarrow> mg_ready m ! i \<Longrightarrow>
    pending heap m i \<noteq> [] \<and> hd (pending heap m i) = mg_heads m ! i \<and> unix_time (mg_heads m ! i) = sint (mg_times m ! i)"
  by (auto simp: pending_def merge_ok_def source_ok_def unix_time_def)

text \<open>One call returns the first of the pending records in the stable order, or there are none.\<close>

lemma merge_next_outcome:
  assumes ok: "merge_ok n heap m"
  defines "todo \<equiv> map (pending heap m) [0..<n]"
  shows "if concat todo = [] then \<exists>s. merge_next read1 (heap, m) = (fail IoEOF, s)
    else \<exists>x heap' m'. merge_next read1 (heap, m) = (Inr x, heap', m') \<and> merge_ok n heap' m' \<and>
      sort_key unix_time (concat todo) = x # sort_key unix_time (concat (map (pending heap' m') [0..<n]))"
proof -
  obtain heap1 m1 where 1: "forA (fillHead read1) [0..<n] (heap, m) = (Inr (), heap1, m1)" and ok1: "merge_ok n heap1 m1"
      and same: "\<forall>j<n. pending heap1 m1 j = pending heap m j" and "\<forall>j<n. filled heap1 m1 j"
    using fill_all [OF ok, of n] by auto
  then have full: "mg_ready m1 ! j \<longleftrightarrow> pending heap m j \<noteq> []" if "j < n" for j
    using that hd_pending [OF ok1 that] by (auto simp: filled_def)
  have todo: "length todo = n" "\<And>j. j < n \<Longrightarrow> todo ! j = pending heap1 m1 j" "\<forall>ys\<in>set todo. sorted (map unix_time ys)"
    using same ok by (auto simp: todo_def merge_ok_def source_ok_def timed_def)
  have n: "length (mg_readers m1) = n" "length (mg_readers m) = n" "\<not> mg_closed m"
    using ok ok1 by (simp_all add: merge_ok_def)
  have run: "merge_next read1 (heap, m) = takeHead (heap1, m1)"
    using 1 n by (simp add: merge_next_def bindA_def act_simps)
  have best: "is_best m1 n (bestHead m1)" using bestHead_best [of m1] n by simp
  show ?thesis
  proof (cases "bestHead m1")
    case None
    then have "\<forall>j<n. pending heap m j = []" using best full by (simp add: is_best_def)
    then have "concat todo = []" by (simp add: todo_def)
    then show ?thesis using run None by (auto simp: takeHead_def Let_def)
  next
    case (Some b)
    then have b: "b < n" "mg_ready m1 ! b" using best by (simp_all add: is_best_def)
    let ?x = "mg_heads m1 ! b" and ?m = "m1\<lparr>mg_heads := (mg_heads m1)[b := zero_record], mg_ready := (mg_ready m1)[b := False]\<rparr>"
    let ?rest = "tl (pending heap1 m1 b)"
    have hd: "pending heap1 m1 b = ?x # ?rest" "pending heap1 ?m b = ?rest"
      using b ok1 by (auto simp: pending_def merge_ok_def)
    have other: "pending heap1 ?m j = pending heap1 m1 j" if "j \<noteq> b" for j
      using that by (simp add: pending_def)
    have todo': "map (pending heap1 ?m) [0..<n] = todo[b := ?rest]"
      using todo hd(2) other b by (intro nth_equalityI) (auto simp: nth_list_update)
    have times: "todo ! j \<noteq> [] \<Longrightarrow> mg_ready m1 ! j \<and> unix_time (hd (todo ! j)) = sint (mg_times m1 ! j)" if "j < n" for j
      using that full same todo(2) hd_pending [OF ok1 that] by auto
    have x: "unix_time ?x = sint (mg_times m1 ! b)" using hd_pending [OF ok1 b] by simp
    have "sort_key unix_time (concat todo) = ?x # sort_key unix_time (concat (todo[b := ?rest]))"
    proof (rule sort_key_concat_first)
      show "b < length todo" "todo ! b = ?x # ?rest" "\<forall>ys\<in>set todo. sorted (map unix_time ys)"
        using b todo hd(1) by simp_all
      show "\<forall>j<length todo. todo ! j \<noteq> [] \<longrightarrow> unix_time ?x \<le> unix_time (hd (todo ! j))"
        using best Some x times todo(1) by (auto simp: is_best_def)
      show "\<forall>j<b. todo ! j \<noteq> [] \<longrightarrow> unix_time ?x < unix_time (hd (todo ! j))"
        using best Some x times b by (auto simp: is_best_def)
    qed
    then have sorted: "sort_key unix_time (concat todo) = ?x # sort_key unix_time (concat (map (pending heap1 ?m) [0..<n]))"
      unfolding todo' .
    have "source_ok heap1 ?m j" if "j < n" for j
    proof (cases "j = b")
      case True
      have "source_ok heap1 m1 b" using ok1 b by (simp add: merge_ok_def)
      then have "timed ?rest" by (simp add: timed_tl source_ok_def)
      then show ?thesis using True hd(2) b ok1 by (auto simp: source_ok_def merge_ok_def)
    next
      case False
      then show ?thesis using that ok1 other by (auto simp: source_ok_def merge_ok_def)
    qed
    then have ok2: "merge_ok n heap1 ?m" using ok1 by (simp add: merge_ok_def)
    have ne: "concat todo \<noteq> []" using todo b hd(1) by (metis concat_eq_Nil_conv list.distinct(1) nth_mem)
    have "merge_next read1 (heap, m) = (Inr ?x, heap1, ?m)" using run Some by (simp add: takeHead_def Let_def)
    then show ?thesis unfolding if_not_P [OF ne] using ok2 sorted by (intro exI conjI)
  qed
qed

theorem merge_reads_sorted:
  assumes "merge_ok n heap m" "length (concat (map (pending heap m) [0..<n])) < k"
  shows "merge_reads (merge_next read1) k (heap, m) =
    (sort_key unix_time (concat (map (pending heap m) [0..<n])), Some (Fail (Err IoEOF)))"
  using assms
proof (induction k arbitrary: heap m)
  case (Suc k)
  show ?case
  proof (cases "concat (map (pending heap m) [0..<n]) = []")
    case True
    then obtain s where "merge_next read1 (heap, m) = (fail IoEOF, s)"
      using merge_next_outcome [OF Suc.prems(1)] by auto
    then show ?thesis by (simp only: merge_reads.simps True) simp
  next
    case False
    then obtain x heap' m' where x: "merge_next read1 (heap, m) = (Inr x, heap', m')" "merge_ok n heap' m'"
        "sort_key unix_time (concat (map (pending heap m) [0..<n])) =
         x # sort_key unix_time (concat (map (pending heap' m') [0..<n]))"
      using merge_next_outcome [OF Suc.prems(1), unfolded if_not_P [OF False]] by blast
    have "length (concat (map (pending heap m) [0..<n])) = Suc (length (concat (map (pending heap' m') [0..<n])))"
      using arg_cong [OF x(3), of length] by simp
    then show ?thesis using Suc.IH [OF x(2)] Suc.prems(2) x(1,3) by simp
  qed
qed simp

end


section \<open>The merge of readers of the package\<close>

interpretation perf_source: record_source "perf_Next h" "\<lambda>r. (fst (read_all h r), fst (snd (read_all h r)))" for h
proof unfold_locales
  show "(fst (read_all h r), fst (snd (read_all h r))) = (rec # fst (fst (read_all h r'), fst (snd (read_all h r'))),
      snd (fst (read_all h r'), fst (snd (read_all h r'))))" if "perf_Next h r = (Inr rec, r')" for r rec r'
    using that by (simp add: read_all.simps [of h r] split: prod.split)
  show "(fst (read_all h r), fst (snd (read_all h r))) = ([], e)" if "perf_Next h r = (Inl e, r')" for r e r'
    using that by (simp add: read_all.simps [of h r])
qed

lemma mergeOffsets_outcome:
  "mergeOffsets heap opts i seen ps = Inr offsets \<Longrightarrow>
   length offsets = length ps \<and> distinct (map the ps) \<and> set (map the ps) \<inter> seen = {}"
proof (induction ps arbitrary: i seen offsets)
  case (Cons p ps)
  then obtain a os where "p = Some a" "a \<notin> seen" "length offsets = Suc (length os)"
      "mergeOffsets heap opts (i + 1) (insert a seen) ps = Inr os"
    by (cases p) (auto split: if_splits option.splits simp: bindR_eq_Inr)
  then show ?case using Cons.IH [of "i + 1" "insert a seen" os] by (auto simp: disjoint_iff)
qed simp

text \<open>The records of a reader with the offset the merge gives it, and that they can be merged.\<close>

definition merge_input :: "host \<Rightarrow> (nat \<Rightarrow> reader) \<Rightarrow> merged_reader \<Rightarrow> nat \<Rightarrow> trecord list" where
  "merge_input h heap m i = map (stamped (mg_offsets m ! i)) (fst (read_all h (heap (mg_readers m ! i))))"

definition mergeable :: "host \<Rightarrow> (nat \<Rightarrow> reader) \<Rightarrow> merged_reader \<Rightarrow> nat \<Rightarrow> bool" where
  "mergeable h heap m i \<longleftrightarrow>
     sorted (map unix_time (merge_input h heap m i)) \<and>
     (\<forall>rec\<in>set (merge_input h heap m i). UnixNano (tr_Timestamp rec) \<noteq> None) \<and>
     (\<exists>e. fst (snd (read_all h (heap (mg_readers m ! i)))) = Fail e \<and> errors_is e IoEOF)"

lemma Merge_ok:
  assumes "Merge heap readers opts = Inr m" "\<forall>i<length readers. mergeable h heap m i"
  shows "perf_source.merge_ok h (length readers) heap m" "i < length readers \<Longrightarrow> perf_source.pending h heap m i = merge_input h heap m i"
proof -
  obtain offsets where m: "mergeOffsets heap opts 0 {} readers = Inr offsets"
      "m = \<lparr>mg_readers = map the readers, mg_offsets = offsets, mg_heads = replicate (length readers) zero_record,
             mg_times = replicate (length readers) 0, mg_ready = replicate (length readers) False,
             mg_done = replicate (length readers) False, mg_closed = False\<rparr>"
    using assms(1) by (auto simp: Merge_def Let_def bindR_eq_Inr split: if_splits)
  show pend: "perf_source.pending h heap m i = merge_input h heap m i" if "i < length readers" for i
    using that m(2) by (simp add: perf_source.pending_def merge_input_def)
  have "perf_source.source_ok h heap m i" if "i < length readers" for i
    using assms(2) that m(2) pend [OF that]
    by (auto simp: perf_source.source_ok_def perf_source.timed_def perf_source.ends_def mergeable_def)
  then show "perf_source.merge_ok h (length readers) heap m"
    using m mergeOffsets_outcome [OF m(1)] by (simp add: perf_source.merge_ok_def)
qed

text \<open>
  C19. Merging is a stable sort: when the readers given to \<open>Merge\<close> deliver their records in the order of
  absolute time, each time fits in an int64 and each reader ends in EOF, then a client that calls \<open>Next\<close>
  until it fails gets exactly the records of all readers, sorted by absolute time, records of the same
  time in the order of the readers and of their positions in them, and then EOF.
\<close>

theorem merge_stable_sort:
  assumes "Merge heap readers opts = Inr m" "\<forall>i<length readers. mergeable h heap m i"
    and "length (concat (map (merge_input h heap m) [0..<length readers])) < k"
  shows "merge_reads (MergedReader_Next h) k (heap, m) =
    (sort_key unix_time (concat (map (merge_input h heap m) [0..<length readers])), Some (Fail (Err IoEOF)))"
proof -
  have same: "map (perf_source.pending h heap m) [0..<length readers] = map (merge_input h heap m) [0..<length readers]"
    using Merge_ok(2) [OF assms(1,2)] by simp
  show ?thesis
    unfolding MergedReader_Next_def same [symmetric]
    by (rule perf_source.merge_reads_sorted [OF Merge_ok(1) [OF assms(1,2)]]) (use assms(3) same in argo)
qed

text \<open>Two streams of one record each; the second one is earlier.\<close>

definition demo_record :: bytes where
  "demo_record = put32 LittleEndian 99 @ put16 LittleEndian 0 @ put16 LittleEndian 8"

definition demo_pipe :: reader where
  "demo_pipe = (newReader demo_options demo_limits)
     \<lparr>rd_pipe := True, rd_stream := (demo_record, Err IoEOF), rd_dataEnd := -1, rd_offset := 16\<rparr>"

definition demo_merge :: merge_options where
  "demo_merge = \<lparr>mo_MaxReaders = 2, mo_EpochOffsets = [0 \<mapsto> 5], mo_ReaderOffsets = [7 \<mapsto> 3, 4 \<mapsto> 9]\<rparr>"

lemma Next_stream_end:
  assumes "rd_pipe r" "\<not> rd_closed r" "rd_terminal r = None" "rd_stream r = ([], Err IoEOF)"
  shows "\<exists>r'. perf_Next h r = (fail IoEOF, r')"
proof -
  have "ReadFull 8 ([], Err IoEOF) = (([], Some (Err IoEOF)), ([], Err IoEOF))" by (simp add: ReadFull_def)
  then show ?thesis
    using assms by (simp add: perf_Next_def next_loop.simps nextRound_def readOuter_def readHeader_def onErrorA_def act_simps)
qed

lemma demo_pipe_first:
  "\<exists>r. perf_Next wide_host demo_pipe = (Inr (rawRecord 99 demo_record), r) \<and> rd_pipe r \<and> \<not> rd_closed r \<and>
    rd_terminal r = None \<and> rd_stream r = ([], Err IoEOF)"
proof -
  have "length demo_record = 8" by (simp add: demo_record_def)
  then have "ReadFull 8 (demo_record, Err IoEOF) = ((demo_record, None), ([], Err IoEOF))" "slice demo_record 0 8 = Inr demo_record"
    by (simp_all add: ReadFull_def slice_in)
  moreover have "u32_at LittleEndian demo_record 0 = Inr 99" "u16_at LittleEndian demo_record 4 = Inr 0"
      "u16_at LittleEndian demo_record 6 = Inr 8"
    using words_at_append(1) [of 6 "put32 LittleEndian 99 @ put16 LittleEndian 0" LittleEndian 8 "[]"]
    by (simp_all add: demo_record_def)
  ultimately show ?thesis using \<open>length demo_record = 8\<close>
    by (simp add: demo_pipe_def newReader_def demo_limits_def demo_options_def perf_Next_def next_loop.simps nextRound_def
        readOuter_def readHeader_def onErrorA_def act_simps processPipeMetadata_def decodeRecord_def wire_of_def)
qed

lemma demo_pipe_reads: "\<exists>r. read_all wide_host demo_pipe = ([rawRecord 99 demo_record], Fail (Err IoEOF), r)"
proof -
  obtain r where r: "perf_Next wide_host demo_pipe = (Inr (rawRecord 99 demo_record), r)" "rd_pipe r" "\<not> rd_closed r"
      "rd_terminal r = None" "rd_stream r = ([], Err IoEOF)"
    using demo_pipe_first by blast
  moreover obtain r' where "perf_Next wide_host r = (fail IoEOF, r')" using Next_stream_end [OF r(2-5)] by blast
  ultimately show ?thesis by (simp add: read_all.simps [of wide_host])
qed

theorem merge_stable_sort_witness:
  "\<exists>m. Merge (\<lambda>_. demo_pipe) [Some 4, Some 7] demo_merge = Inr m \<and>
     merge_reads (MergedReader_Next wide_host) 3 (\<lambda>_. demo_pipe, m) =
       (map (\<lambda>offset. stamped offset (rawRecord 99 demo_record)) [3, 5], Some (Fail (Err IoEOF)))"
proof -
  obtain r where r: "read_all wide_host demo_pipe = ([rawRecord 99 demo_record], Fail (Err IoEOF), r)"
    using demo_pipe_reads by blast
  let ?rec = "rawRecord 99 demo_record"
  have time: "UnixNano (tr_Timestamp (stamped 5 ?rec)) = Some 5" "UnixNano (tr_Timestamp (stamped 3 ?rec)) = Some 3"
    by (simp_all add: stamped_def rawRecord_def UnixNano_def zero_timestamp_def word_sle_eq word_less_def)
  obtain m where m: "Merge (\<lambda>_. demo_pipe) [Some 4, Some 7] demo_merge = Inr m" "mg_offsets m = [5, 3]" "mg_readers m = [4, 7]"
    by (simp add: Merge_def demo_merge_def mergeOffset_def)
  have input: "merge_input wide_host (\<lambda>_. demo_pipe) m 0 = [stamped 5 ?rec]" "merge_input wide_host (\<lambda>_. demo_pipe) m 1 = [stamped 3 ?rec]"
    using r m by (simp_all add: merge_input_def)
  have "\<forall>i<length [Some (4 :: nat), Some 7]. mergeable wide_host (\<lambda>_. demo_pipe) m i"
    using r input time by (auto simp: mergeable_def less_Suc_eq numeral_2_eq_2)
  note merged = merge_stable_sort [OF m(1) this, of 3]
  have "unix_time (stamped 5 ?rec) = 5" "unix_time (stamped 3 ?rec) = 3" using time by (simp_all add: unix_time_def)
  then show ?thesis using m(1) merged input by (simp add: numeral_2_eq_2)
qed


section \<open>A full read that reports EOF\<close>

text \<open>
  C37. \<open>io.ReaderAt\<close> allows a read that ends at the end of its input to return all the bytes asked for
  together with EOF. \<open>readAtFull\<close> takes that for a failure: when the body of a record is read in this
  way, \<open>Next\<close> does not return the record but an error that is EOF, and the reader stays as it was, so
  that the record is never read and a merge takes the reader for exhausted.
\<close>

theorem EOF_with_full_read_loses_record:
  assumes "\<not> rd_pipe r" "\<not> rd_closed r" "rd_terminal r = None"
    and "8 < sz" "uint sz \<le> lm_MaxRecordBytes (rd_limits r)" "uint sz \<le> rd_dataEnd r - rd_offset r"
    and "rd_at r (rd_offset r) 8 = (put32 (rd_order r) type @ put16 (rd_order r) misc @ put16 (rd_order r) sz, None)"
    and "rd_at r (rd_offset r + 8) (unat sz - 8) = (body, Some (Err IoEOF))" "length body = unat sz - 8"
  shows "\<exists>e. perf_Next h r = (Inl (Fail e), r) \<and> errors_is e IoEOF"
proof -
  let ?header = "put32 (rd_order r) type @ put16 (rd_order r) misc @ put16 (rd_order r) sz"
  have "8 < uint sz" using assms(4) by (simp add: word_less_def)
  moreover have "readAtFull (rd_at r) (rd_offset r) 8 = Inr ?header"
    using assms(7) by (simp add: readAtFull_def)
  moreover have "readAtFull (rd_at r) (rd_offset r + 8) (unat sz - 8) = fail IoEOF"
    using assms(8,9) by (simp add: readAtFull_def)
  moreover have "u32_at (rd_order r) ?header 0 = Inr type" "u16_at (rd_order r) ?header 4 = Inr misc"
      "u16_at (rd_order r) ?header 6 = Inr sz"
    using words_at_append(1) [of 6 "put32 (rd_order r) type @ put16 (rd_order r) misc" "rd_order r" sz "[]"] by simp_all
  ultimately show ?thesis using assms(1-6)
    by (simp add: perf_Next_def next_loop.simps nextRound_def readOuter_def readHeader_def readBytes_def onErrorA_def
        wrapA_def act_simps fatalAt_def word_less_def Let_def)
qed

definition demo_disk :: reader where
  "demo_disk = (newReader demo_options demo_limits)
     \<lparr>rd_at := (\<lambda>off n. if off = 0 then (put32 LittleEndian 9 @ put16 LittleEndian 0 @ put16 LittleEndian 16, None)
                    else ([1, 2, 3, 4, 5, 6, 7, 8], Some (Err IoEOF))),
      rd_fileSize := 16, rd_dataEnd := 16\<rparr>"

theorem EOF_with_full_read_loses_record_witness:
  "\<exists>e. perf_Next wide_host demo_disk = (Inl (Fail e), demo_disk) \<and> errors_is e IoEOF"
  by (rule EOF_with_full_read_loses_record [where sz = 16 and type = 9 and misc = 0 and body = "[1, 2, 3, 4, 5, 6, 7, 8]"])
     (simp_all add: demo_disk_def newReader_def demo_limits_def)

end
