(* ===== verification/FormatText.thy ===== *)
theory FormatText imports FormatParse begin

text \<open>
  Format files as the kernel prints them, and the round trip: \<open>ParseFormat\<close> reads back what was printed.
\<close>


section \<open>Text without white space at its ends\<close>

definition visible :: "char \<Rightarrow> bool" where
  "visible c \<longleftrightarrow> 33 \<le> (of_char c :: nat) \<and> (of_char c :: nat) < 127"

definition solid :: "string \<Rightarrow> bool" where
  "solid s \<longleftrightarrow> s \<noteq> [] \<and> visible (hd s) \<and> visible (last s)"

lemma unat_of_char: "unat (of_char c :: byte) = of_char c"
proof -
  have "unat (of_nat (of_char c) :: byte) = (of_char c :: nat)"
    by (simp only: unat_of_nat take_bit_eq_mod) (simp add: of_char_mod_256)
  then show ?thesis by (simp only: of_nat_of_char)
qed

definition no_visible :: "bytes list \<Rightarrow> bool" where
  "no_visible ws \<longleftrightarrow> (\<forall>w\<in>set ws. w \<noteq> [] \<and> \<not> (33 \<le> unat (hd w) \<and> unat (hd w) < 127))"

lemma no_visible_space: "no_visible white_space" "no_visible (map rev white_space)"
  by (simp_all add: no_visible_def white_space_def)

lemma space_at_visible:
  assumes "no_visible ws" "visible c"
  shows "space_at ws (of_char c # bs) = 0"
proof -
  have "take (length w) (of_char c # bs) \<noteq> w" if "w \<in> set ws" for w
    using assms that by (cases w) (auto simp: no_visible_def visible_def unat_of_char)
  then have "find (\<lambda>w. take (length w) (of_char c # bs) = w) ws = None"
    by (auto simp: find_None_iff)
  then show ?thesis by (simp add: space_at_def)
qed

lemma trim_left_visible: "no_visible ws \<Longrightarrow> visible c \<Longrightarrow> trim_left ws (of_char c # bs) = of_char c # bs"
  by (subst trim_left.simps) (simp add: space_at_visible)

lemma trim_left_space: "b = 9 \<or> b = 32 \<Longrightarrow> trim_left white_space (b # bs) = trim_left white_space bs"
proof -
  assume "b = 9 \<or> b = 32"
  then have "find (\<lambda>w. take (length w) (b # bs) = w) white_space = Some [b]"
    by (elim disjE) (simp_all add: white_space_def)
  then have "space_at white_space (b # bs) = 1" by (simp add: space_at_def)
  then have "trim_left white_space (b # bs) = trim_left white_space (drop 1 (b # bs))"
    by (subst trim_left.simps) (simp only: Let_def, simp)
  then show ?thesis by simp
qed

lemma rev_to_bytes: "rev (to_bytes s) = to_bytes (rev s)"
  by (simp add: to_bytes_def rev_map)

lemma to_bytes_Cons: "to_bytes (c # s) = of_char c # to_bytes s"
  by (simp add: to_bytes_def)

lemma trim_solid:
  assumes "solid s"
  shows "trim_left white_space (to_bytes s) = to_bytes s"
    and "trim_left (map rev white_space) (rev (to_bytes s)) = rev (to_bytes s)"
proof -
  obtain c t where s: "s = c # t" "visible c" using assms by (cases s) (auto simp: solid_def)
  then show "trim_left white_space (to_bytes s) = to_bytes s"
    by (simp add: to_bytes_Cons trim_left_visible no_visible_space)
  obtain d u where "rev s = d # u" "visible d"
    using assms s(1) by (cases "rev s") (auto simp: solid_def hd_rev [symmetric])
  then show "trim_left (map rev white_space) (rev (to_bytes s)) = rev (to_bytes s)"
    by (simp add: rev_to_bytes to_bytes_Cons trim_left_visible no_visible_space)
qed

lemma TrimSpace_solid: "solid s \<Longrightarrow> TrimSpace_string s = s"
  by (simp add: TrimSpace_string_def TrimSpace_def trim_solid)

lemma TrimSpace_lead: "c = CHR 0x09 \<or> c = CHR '' '' \<Longrightarrow> TrimSpace_string (c # s) = TrimSpace_string s"
  by (auto simp: TrimSpace_string_def TrimSpace_def to_bytes_Cons trim_left_space)

lemma TrimSpace_Nil [simp]: "TrimSpace_string [] = []"
  by (simp add: TrimSpace_string_def TrimSpace_def trim_left.simps space_at_def white_space_def of_bytes_def)

lemma firstNonSpace_solid: "solid s \<Longrightarrow> firstNonSpace s = 0"
  by (simp add: firstNonSpace_def trim_solid)

lemma firstNonSpace_tab: "solid s \<Longrightarrow> firstNonSpace (CHR 0x09 # s) = 1"
  by (simp add: firstNonSpace_def to_bytes_Cons trim_left_space trim_solid)

lemma solid_append: "solid s \<Longrightarrow> t = [] \<or> solid t \<Longrightarrow> solid (s @ t)"
  by (auto simp: solid_def)


section \<open>Decimal numbers\<close>

lemma digits_fold_append:
  "digits_fold base us acc (s @ t) = (case digits_fold base us acc s of None \<Rightarrow> None | Some v \<Rightarrow> digits_fold base us v t)"
  by (induction s arbitrary: acc) (auto split: option.splits)

lemma decimal_digit:
  assumes "d < (10 :: nat)"
  shows "digit_value (char_of (48 + d)) = Some d" "char_of (48 + d) \<noteq> CHR ''_''" "visible (char_of (48 + d))"
proof -
  have "d \<in> {0, 1, 2, 3, 4, 5, 6, 7, 8, 9}" using assms by (auto simp: numeral_eq_Suc less_Suc_eq)
  then show "digit_value (char_of (48 + d)) = Some d" "char_of (48 + d) \<noteq> CHR ''_''" "visible (char_of (48 + d))"
    by (auto simp: digit_value_def lower_char_def less_eq_char_def visible_def char_of_eq_iff)
qed

lemma digits_fold_dec: "digits_fold 10 us 0 (format_dec n) = Some n"
proof (induction n rule: format_dec.induct)
  case (1 n)
  then show ?case
    using decimal_digit [of "n mod 10"] by (subst format_dec.simps) (auto simp: digits_fold_append)
qed

lemma format_dec_digits: "c \<in> set (format_dec n) \<Longrightarrow> \<exists>d<(10 :: nat). c = char_of (48 + d)"
proof (induction n rule: format_dec.induct)
  case (1 n)
  have "\<not> n < 10 \<and> c \<in> set (format_dec (n div 10)) \<or> c = char_of (48 + n mod 10)"
    using 1(2) by (subst (asm) format_dec.simps) (auto simp del: char_of_eq_iff split: if_splits)
  moreover have "n mod 10 < 10" by simp
  ultimately show ?case using 1(1) by blast
qed

lemma format_dec_nonempty [simp]: "format_dec n \<noteq> []"
  by (subst format_dec.simps) simp

lemma format_dec_solid: "solid (format_dec n)"
  using format_dec_digits [of "hd (format_dec n)" n] format_dec_digits [of "last (format_dec n)" n] decimal_digit(3)
  by (auto simp: solid_def)

lemma format_dec_zero: "format_dec 0 = ''0''"
  by (simp add: format_dec.simps char_of_eq_iff)

lemma format_dec_hd: "0 < n \<Longrightarrow> hd (format_dec n) \<noteq> CHR ''0''"
proof (induction n rule: format_dec.induct)
  case (1 n)
  show ?case
  proof (cases "n < 10")
    case True
    then have "n \<in> {1, 2, 3, 4, 5, 6, 7, 8, 9}" using 1(2) by (auto simp: numeral_eq_Suc less_Suc_eq)
    moreover have "format_dec n = [char_of (48 + n)]" using True by (simp add: format_dec.simps [of n])
    ultimately show ?thesis by (auto simp: char_of_eq_iff)
  next
    case False
    then have "hd (format_dec n) = hd (format_dec (n div 10))" by (simp add: format_dec.simps [of n])
    then show ?thesis using 1(1) False by simp
  qed
qed

lemma ParseUint10_dec: "n < 2 ^ bits \<Longrightarrow> ParseUint10 (format_dec n) bits = Some n"
  by (simp add: ParseUint10_def digits_fold_dec)

lemma ParseUint0_dec:
  assumes "n < 2 ^ bits"
  shows "ParseUint0 (format_dec n) bits = Some n"
proof (cases "n = 0")
  case True
  then show ?thesis by (simp add: format_dec_zero ParseUint0_def number_base_def)
next
  case False
  have "CHR ''_'' \<notin> set (format_dec n)" using format_dec_digits decimal_digit(2) by metis
  then show ?thesis
    using False assms format_dec_hd [of n] by (simp add: ParseUint0_def number_base_def digits_fold_dec)
qed


section \<open>Lines\<close>

definition one_line :: "string \<Rightarrow> bool" where
  "one_line l \<longleftrightarrow> CHR 0x0A \<notin> set l \<and> CHR 0x0D \<notin> set l"

definition lines_text :: "string list \<Rightarrow> string" where
  "lines_text ls = concat (map (\<lambda>l. l @ [CHR 0x0A]) ls)"

lemma split_line:
  assumes "one_line l"
  shows "split_lines n cur (to_bytes l @ 10 # bs) = (of_bytes (rev cur) @ l, n) # split_lines (n + 1) [] bs"
  using assms
proof (induction l arbitrary: cur)
  case (Cons c l)
  have "(of_char c :: byte) \<noteq> 13" "(of_char c :: byte) \<noteq> 10"
  proof -
    have "char_of (13 :: nat) = CHR 0x0D" "char_of (10 :: nat) = CHR 0x0A" by (simp_all add: char_of_eq_iff)
    then have "c \<noteq> char_of (13 :: nat)" "c \<noteq> char_of (10 :: nat)" using Cons.prems by (auto simp: one_line_def)
    then show "(of_char c :: byte) \<noteq> 13" "(of_char c :: byte) \<noteq> 10"
      using char_of_unat_of_char [of c] by auto
  qed
  moreover have "one_line l" using Cons.prems by (simp add: one_line_def)
  ultimately show ?case
    using Cons.IH [of "of_char c # cur"] by (simp add: to_bytes_Cons of_bytes_def char_of_unat_of_char)
qed (simp add: of_bytes_def)

lemma splitLines_text:
  assumes "list_all one_line ls" "ls \<noteq> []"
  shows "splitLines (to_bytes (lines_text ls)) = zip ls [1..<Suc (length ls)]"
proof -
  have "split_lines n [] (to_bytes (lines_text ls)) = zip ls [n..<n + length ls]" for n
    using assms(1)
  proof (induction ls arbitrary: n)
    case (Cons l ls)
    then have "split_lines n [] (to_bytes (lines_text (l # ls))) = (l, n) # zip ls [Suc n..<Suc n + length ls]"
      using split_line [of l n "[]" "to_bytes (lines_text ls)"]
      by (simp add: lines_text_def to_bytes_Cons) (simp add: of_bytes_def)
    then show ?case by (simp add: upt_rec)
  qed (simp add: lines_text_def)
  then show ?thesis using assms(2) by (cases ls) (simp_all add: splitLines_def lines_text_def)
qed


section \<open>Semicolons\<close>

fun depth_after :: "nat \<Rightarrow> string \<Rightarrow> nat" where
  "depth_after d [] = d"
| "depth_after d (c # s) =
     depth_after (if c \<in> {CHR ''('', CHR ''['', CHR ''{''} then d + 1 else if c \<in> {CHR '')'', CHR '']'', CHR ''}''} then d - 1 else d) s"

lemma split_semicolons_text:
  "CHR '';'' \<notin> set s \<Longrightarrow> split_semicolons d cur (s @ t) = split_semicolons (depth_after d s) (rev s @ cur) t"
  by (induction s arbitrary: d cur) auto

lemma splitSemicolons_Cons:
  "CHR '';'' \<notin> set s \<Longrightarrow> depth_after 0 s = 0 \<Longrightarrow> splitSemicolons (s @ CHR '';'' # t) = s # splitSemicolons t"
  by (simp add: splitSemicolons_def split_semicolons_text)

lemma splitSemicolons_Nil [simp]: "splitSemicolons [] = []"
  by (simp add: splitSemicolons_def)

lemma depth_after_append: "depth_after d (s @ t) = depth_after (depth_after d s) t"
  by (induction s arbitrary: d) auto

definition plain_char :: "char \<Rightarrow> bool" where
  "plain_char c \<longleftrightarrow> c \<notin> {CHR '';'', CHR ''('', CHR ''['', CHR ''{'', CHR '')'', CHR '']'', CHR ''}''}"

lemma plain_text: "list_all plain_char s \<Longrightarrow> CHR '';'' \<notin> set s \<and> depth_after d s = d"
  by (induction s arbitrary: d) (auto simp: plain_char_def)

lemma decimal_plain:
  assumes "d < (10 :: nat)"
  shows "plain_char (char_of (48 + d)) \<and> char_of (48 + d) \<notin> {CHR '':'', CHR 0x0A, CHR 0x0D}"
proof -
  have "d \<in> {0, 1, 2, 3, 4, 5, 6, 7, 8, 9}" using assms by (auto simp: numeral_eq_Suc less_Suc_eq)
  then show ?thesis by (auto simp: plain_char_def char_of_eq_iff)
qed

lemma format_dec_plain: "list_all plain_char (format_dec n)" "CHR '':'' \<notin> set (format_dec n)" "one_line (format_dec n)"
  using format_dec_digits decimal_plain by (fastforce simp: list_all_iff one_line_def)+


section \<open>A field\<close>

record format_field =
  tx_decl :: string
  tx_offset :: nat
  tx_size :: nat
  tx_signed :: bool

definition field_tail :: "format_field \<Rightarrow> string" where
  "field_tail fl = CHR 0x09 # ''offset:'' @ format_dec (tx_offset fl) @ '';'' @ CHR 0x09 # ''size:'' @ format_dec (tx_size fl) @ '';'' @
     CHR 0x09 # ''signed:'' @ (if tx_signed fl then ''1;'' else ''0;'')"

definition field_content :: "format_field \<Rightarrow> string" where
  "field_content fl = ''field:'' @ tx_decl fl @ '';'' @ field_tail fl"

text \<open>The field that is read: the declaration as \<open>parseDeclaration\<close> takes it, with the printed numbers.\<close>

definition read_field :: "host \<Rightarrow> int \<Rightarrow> nat \<Rightarrow> format_field \<Rightarrow> field_format" where
  "read_field h longSize line fl = guess_integer ((the (parseDeclaration h (tx_decl fl) longSize))
     \<lparr>ff_Declaration := tx_decl fl, ff_Line := line, ff_Column := 2, ff_Offset := int (tx_offset fl),
      ff_Size := int (tx_size fl), ff_Signed := tx_signed fl, ff_SignedSet := True\<rparr>)"

text \<open>The size agrees with the declaration, where the declaration says what it is.\<close>

definition size_agrees :: "field_format \<Rightarrow> bool" where
  "size_agrees f \<longleftrightarrow>
     (ff_Location f \<noteq> LocationNone \<longrightarrow> ff_Size f \<in> {2, 4}) \<and>
     (ff_Location f = LocationNone \<and> ff_Size f \<noteq> 0 \<and> ff_Kind f \<noteq> FieldOpaque \<and> ff_ArrayLen f \<noteq> 0 \<longrightarrow>
        ff_Size f = ff_Width f * (if ff_ArrayLen f > 0 then ff_ArrayLen f else 1))"

definition field_written :: "host \<Rightarrow> int \<Rightarrow> format_field \<Rightarrow> bool" where
  "field_written h longSize fl \<longleftrightarrow>
     solid (tx_decl fl) \<and> one_line (tx_decl fl) \<and> CHR '';'' \<notin> set (tx_decl fl) \<and> depth_after 0 (tx_decl fl) = 0 \<and>
     parseDeclaration h (tx_decl fl) longSize \<noteq> None \<and> int (tx_offset fl) + int (tx_size fl) \<le> MaxInt h \<and>
     size_agrees (read_field h longSize 0 fl)"

lemma guess_integer_updates:
  "ff_Location (guess_integer f) = ff_Location f" "ff_Size (guess_integer f) = ff_Size f"
  "ff_ArrayLen (guess_integer f) = ff_ArrayLen f" "ff_Offset (guess_integer f) = ff_Offset f" "ff_Name (guess_integer f) = ff_Name f"
  "guess_integer (f\<lparr>ff_Line := l\<rparr>) = (guess_integer f)\<lparr>ff_Line := l\<rparr>"
  by (auto simp: guess_integer_def)

definition tail_parts :: "format_field \<Rightarrow> string list" where
  "tail_parts fl = [CHR 0x09 # ''offset:'' @ format_dec (tx_offset fl), CHR 0x09 # ''size:'' @ format_dec (tx_size fl),
     CHR 0x09 # ''signed:'' @ (if tx_signed fl then ''1'' else ''0'')]"

lemma splitSemicolons_tail:
  "splitSemicolons (tx_decl fl @ '';'' @ field_tail fl) = tx_decl fl # tail_parts fl"
  if "CHR '';'' \<notin> set (tx_decl fl)" "depth_after 0 (tx_decl fl) = 0"
proof -
  have piece: "splitSemicolons ((CHR 0x09 # p @ format_dec n) @ CHR '';'' # t) = (CHR 0x09 # p @ format_dec n) # splitSemicolons t"
    if "list_all plain_char p" for p n t
  proof (rule splitSemicolons_Cons)
    have "list_all plain_char (CHR 0x09 # p @ format_dec n)"
      using that format_dec_plain(1) by (simp add: plain_char_def)
    then show "CHR '';'' \<notin> set (CHR 0x09 # p @ format_dec n)" "depth_after 0 (CHR 0x09 # p @ format_dec n) = 0"
      using plain_text by blast+
  qed
  have sg: "splitSemicolons (CHR 0x09 # ''signed:'' @ (if b then ''1;'' else ''0;'')) = [CHR 0x09 # ''signed:'' @ (if b then ''1'' else ''0'')]" for b
    by (cases b) (simp_all add: splitSemicolons_def)
  have "list_all plain_char ''offset:''" "list_all plain_char ''size:''" by (simp_all add: plain_char_def)
  then show ?thesis
    using piece [of "''offset:''" "tx_offset fl" "CHR 0x09 # ''size:'' @ format_dec (tx_size fl) @ '';'' @ CHR 0x09 # ''signed:'' @ (if tx_signed fl then ''1;'' else ''0;'')"]
      piece [of "''size:''" "tx_size fl" "CHR 0x09 # ''signed:'' @ (if tx_signed fl then ''1;'' else ''0;'')"] sg
      splitSemicolons_Cons [OF that, of "field_tail fl"]
    by (simp add: field_tail_def tail_parts_def)
qed

lemma cutProperty_text:
  assumes "CHR '':'' \<notin> set name" "solid name" "solid val"
  shows "cutProperty (name @ CHR '':'' # val) = Some (name, val)" "cutProperty (name @ CHR '':'' # CHR '' '' # val) = Some (name, val)"
proof -
  have "name \<noteq> []" using assms(2) by (simp add: solid_def)
  then show "cutProperty (name @ CHR '':'' # val) = Some (name, val)" "cutProperty (name @ CHR '':'' # CHR '' '' # val) = Some (name, val)"
    using assms by (simp_all add: cutProperty_def byteIndex_append TrimSpace_solid TrimSpace_lead)
qed

lemma parse_int_dec: "int n \<le> MaxInt h \<Longrightarrow> parseNonnegativeInt h (format_dec n) = Some (int n)"
proof -
  assume n: "int n \<le> MaxInt h"
  also have "MaxInt h < 2 ^ 63" by (simp add: MaxInt_def)
  finally have "n < 2 ^ 63" by simp
  then show ?thesis
    using n by (simp add: parseNonnegativeInt_def TrimSpace_solid format_dec_solid ParseUint0_dec)
qed


lemma fieldProperty_numbers:
  assumes "int n \<le> MaxInt h"
  shows "''offset'' \<notin> seen \<Longrightarrow> fieldProperty h line column (CHR 0x09 # ''offset:'' @ format_dec n) (f, seen) =
      Inr (f\<lparr>ff_Offset := int n\<rparr>, insert ''offset'' seen)"
    and "''size'' \<notin> seen \<Longrightarrow> fieldProperty h line column (CHR 0x09 # ''size:'' @ format_dec n) (f, seen) =
      Inr (f\<lparr>ff_Size := int n\<rparr>, insert ''size'' seen)"
proof -
  have solid: "solid (''offset:'' @ format_dec n)" "solid (''size:'' @ format_dec n)"
    by (rule solid_append; simp add: solid_def [of "''offset:''"] solid_def [of "''size:''"] visible_def format_dec_solid)+
  have "solid ''offset''" "solid ''size''" by (simp_all add: solid_def visible_def)
  then have cut: "cutProperty (''offset:'' @ format_dec n) = Some (''offset'', format_dec n)"
      "cutProperty (''size:'' @ format_dec n) = Some (''size'', format_dec n)"
    using cutProperty_text(1) [of "''offset''" "format_dec n"] cutProperty_text(1) [of "''size''" "format_dec n"] format_dec_solid
    by simp_all
  have trim: "TrimSpace_string (CHR 0x09 # ''offset:'' @ format_dec n) = ''offset:'' @ format_dec n"
      "TrimSpace_string (CHR 0x09 # ''size:'' @ format_dec n) = ''size:'' @ format_dec n"
    using solid by (simp_all add: TrimSpace_lead TrimSpace_solid)
  have low: "ToLower ''offset'' = ''offset''" "ToLower ''size'' = ''size''"
    by (simp_all add: lower_char_def less_eq_char_def)
  show "''offset'' \<notin> seen \<Longrightarrow> fieldProperty h line column (CHR 0x09 # ''offset:'' @ format_dec n) (f, seen) =
      Inr (f\<lparr>ff_Offset := int n\<rparr>, insert ''offset'' seen)"
    unfolding fieldProperty_def Let_def trim prod.case cut option.case low parse_int_dec [OF assms] by simp
  show "''size'' \<notin> seen \<Longrightarrow> fieldProperty h line column (CHR 0x09 # ''size:'' @ format_dec n) (f, seen) =
      Inr (f\<lparr>ff_Size := int n\<rparr>, insert ''size'' seen)"
    unfolding fieldProperty_def Let_def trim prod.case cut option.case low parse_int_dec [OF assms] by simp
qed

lemma fieldProperty_signed:
  assumes "''signed'' \<notin> seen"
  shows "fieldProperty h line column (CHR 0x09 # ''signed:'' @ (if b then ''1'' else ''0'')) (f, seen) =
    Inr (f\<lparr>ff_Signed := b, ff_SignedSet := True\<rparr>, insert ''signed'' seen)"
proof -
  let ?v = "if b then ''1'' else ''0''"
  have v: "solid ?v" by (simp add: solid_def visible_def)
  then have "solid (''signed:'' @ ?v)" by (intro solid_append) (simp_all add: solid_def [of "''signed:''"] visible_def)
  then have trim: "TrimSpace_string (CHR 0x09 # ''signed:'' @ ?v) = ''signed:'' @ ?v"
    by (simp only: TrimSpace_lead TrimSpace_solid disj_not1 simp_thms)
  have "solid ''signed''" by (simp add: solid_def visible_def)
  then have cut: "cutProperty (''signed:'' @ ?v) = Some (''signed'', ?v)"
    using cutProperty_text(1) [of "''signed''" ?v] v by simp
  have low: "ToLower ''signed'' = ''signed''" by (simp add: lower_char_def less_eq_char_def)
  show ?thesis
    using assms unfolding fieldProperty_def Let_def trim prod.case cut option.case low by simp
qed

lemma fieldProperties_tail:
  assumes "int (tx_offset fl) \<le> MaxInt h" "int (tx_size fl) \<le> MaxInt h"
  shows "fieldProperties h line column (tail_parts fl) (f, {}) =
    Inr (f\<lparr>ff_Offset := int (tx_offset fl), ff_Size := int (tx_size fl), ff_Signed := tx_signed fl, ff_SignedSet := True\<rparr>,
         {''signed'', ''size'', ''offset''})"
proof -
  have new: "''offset'' \<notin> {}" "''size'' \<notin> {''offset''}" "''signed'' \<notin> {''size'', ''offset''}" by simp_all
  show ?thesis
    by (simp only: tail_parts_def fieldProperties.simps bindR_Inr fieldProperty_numbers(1) [OF assms(1) new(1)]
        fieldProperty_numbers(2) [OF assms(2) new(2)] fieldProperty_signed [OF new(3)])
qed

lemma checkWidth_agrees:
  assumes "size_agrees f" "has_width f" "ff_Size f \<le> MaxInt h"
  shows "checkWidth h line column f = Inr f"
proof (cases "ff_Location f = LocationNone \<and> ff_Size f \<noteq> 0 \<and> ff_Kind f \<noteq> FieldOpaque")
  case True
  then have w: "0 < ff_Width f" using assms(2) by (simp add: has_width_def)
  consider "ff_ArrayLen f = 0" | "ff_ArrayLen f < 0" "ff_Width f = ff_Size f"
    | "0 < ff_ArrayLen f" "ff_Width f * ff_ArrayLen f = ff_Size f"
  proof -
    have "ff_ArrayLen f \<noteq> 0 \<Longrightarrow> ff_Size f = ff_Width f * (if ff_ArrayLen f > 0 then ff_ArrayLen f else 1)"
      using True assms(1) unfolding size_agrees_def by blast
    then show ?thesis
      using that by (cases "ff_ArrayLen f = 0"; cases "0 < ff_ArrayLen f") auto
  qed
  then show ?thesis
  proof cases
    case 3
    then have "ff_Width f * ff_ArrayLen f div ff_Width f \<le> MaxInt h div ff_Width f"
      using assms(3) by (intro zdiv_mono1 w) simp
    then have "ff_ArrayLen f \<le> MaxInt h div ff_Width f" using w by simp
    then show ?thesis using True 3 w by (simp add: checkWidth_def quotient_def)
  qed (use True in \<open>simp_all add: checkWidth_def\<close>)
qed (auto simp: checkWidth_def)

lemma parseFieldLine_written:
  assumes w: "field_written h longSize fl" and "0 < longSize"
  shows "parseFieldLine h (field_content fl) line 2 longSize = Inr (read_field h longSize line fl)"
proof -
  obtain f where f: "parseDeclaration h (tx_decl fl) longSize = Some f" using w by (auto simp: field_written_def)
  have content: "field_content fl = ''field'' @ CHR '':'' # (tx_decl fl @ '';'' @ field_tail fl)"
    by (simp add: field_content_def)
  have byte: "byteIndex (field_content fl) (CHR '':'') = Some 5"
    unfolding content by (subst byteIndex_append) simp_all
  have drop: "drop (5 + 1) (field_content fl) = tx_decl fl @ '';'' @ field_tail fl"
    by (simp add: content)
  let ?f = "f\<lparr>ff_Declaration := tx_decl fl, ff_Line := line, ff_Column := 2\<rparr>"
  let ?g = "?f\<lparr>ff_Offset := int (tx_offset fl), ff_Size := int (tx_size fl), ff_Signed := tx_signed fl, ff_SignedSet := True\<rparr>"
  have len: "int (tx_offset fl) \<le> MaxInt h" "int (tx_size fl) \<le> MaxInt h" "int (tx_offset fl) \<le> MaxInt h - int (tx_size fl)"
    using w by (auto simp: field_written_def)
  note props = fieldProperties_tail [OF len(1,2), of line 2 ?f]
  have g: "guess_integer ?g = read_field h longSize line fl" using f by (simp add: read_field_def)
  have "has_width f" using parseDeclaration_width f \<open>0 < longSize\<close> by blast
  then have width: "has_width (read_field h longSize line fl)"
    unfolding g [symmetric] by (intro guess_integer_width) (simp add: has_width_def)
  have same: "read_field h longSize line fl = (read_field h longSize 0 fl)\<lparr>ff_Line := line\<rparr>"
    unfolding read_field_def guess_integer_updates(6) [symmetric]
    by (rule arg_cong [of _ _ guess_integer], rule field_format.equality) simp_all
  have agrees: "size_agrees (read_field h longSize line fl)"
  proof -
    have "size_agrees (f\<lparr>ff_Line := l\<rparr>) = size_agrees f" for f l by (simp add: size_agrees_def)
    then show ?thesis using w unfolding same by (simp add: field_written_def)
  qed
  have "ff_Size (read_field h longSize line fl) \<le> MaxInt h" using len by (simp add: read_field_def guess_integer_updates)
  note check = checkWidth_agrees [OF agrees width this, of line 2]
  have loc: "ff_Location f \<noteq> LocationNone \<longrightarrow> tx_size fl = 2 \<or> tx_size fl = 4"
    using agrees f unfolding size_agrees_def by (simp add: read_field_def guess_integer_updates(1-5))
  have "finishField h line 2 (?g, {''signed'', ''size'', ''offset''}) = Inr (read_field h longSize line fl)"
    using check len(3) loc unfolding finishField_def Let_def prod.case g [symmetric] by auto
  moreover have "TrimSpace_string (tx_decl fl) = tx_decl fl" "tx_decl fl \<noteq> []"
    using w TrimSpace_solid by (auto simp: field_written_def solid_def)
  ultimately show ?thesis
    using w props f by (simp add: parseFieldLine_def byte drop [simplified] splitSemicolons_tail [simplified] field_written_def Let_def)
qed


section \<open>The lines of a file\<close>

definition field_line :: "format_field \<Rightarrow> string" where
  "field_line fl = CHR 0x09 # field_content fl"

lemma field_content_solid: "solid (field_content fl)"
  by (cases "tx_signed fl") (simp_all add: solid_def field_content_def field_tail_def visible_def)

lemma parseLine_field:
  assumes "field_written h longSize fl" "0 < longSize" "ps_inFormat p" "ps_fieldCount p < maxFields"
  shows "parseLine h maxFields longSize (field_line fl, line) p =
    (let field = read_field h longSize line fl; f = ps_format p;
         user = (ps_inUserFields p \<or> \<not> has_prefix (ff_Name field) ''common_'') in
     Inr (p\<lparr>ps_fieldCount := ps_fieldCount p + 1, ps_inUserFields := user, ps_haveFormatField := True,
            ps_format := if user then f\<lparr>fm_Fields := fm_Fields f @ [field]\<rparr> else f\<lparr>fm_Common := fm_Common f @ [field]\<rparr>\<rparr>))"
proof -
  have trim: "TrimSpace_string (field_line fl) = field_content fl"
    by (simp add: field_line_def TrimSpace_lead TrimSpace_solid field_content_solid)
  have col: "firstNonSpace (field_line fl) + 1 = 2"
    by (simp add: field_line_def firstNonSpace_tab field_content_solid)
  obtain rest where low: "ToLower (field_content fl) = ''field:'' @ rest"
    by (simp add: field_content_def lower_char_def less_eq_char_def)
  have ne: "field_content fl \<noteq> []" by (simp add: field_content_def)
  have "has_prefix (ToLower (field_content fl)) ''field:''" "ToLower (field_content fl) \<noteq> ''format:''"
    unfolding low by (simp_all add: has_prefix_def)
  then have "parseLine h maxFields longSize (field_line fl, line) p = formatField h maxFields longSize (field_content fl) line 2 p"
    unfolding parseLine_def Let_def prod.case trim col using ne by simp
  then show ?thesis
    using assms parseFieldLine_written [OF assms(1,2), of line] by (simp add: formatField_def Let_def)
qed

lemma parseLine_blank:
  "parseLine h maxFields longSize ([], line) p = Inr (if ps_inFormat p \<and> ps_haveFormatField p then p\<lparr>ps_inUserFields := True\<rparr> else p)"
  by (simp add: parseLine_def)

lemma parseLine_format:
  assumes "\<not> ps_haveFormat p"
  shows "parseLine h maxFields longSize (''format:'', line) p = Inr (p\<lparr>ps_haveFormat := True, ps_inFormat := True\<rparr>)"
proof -
  have "TrimSpace_string ''format:'' = ''format:''" by (rule TrimSpace_solid) (simp add: solid_def visible_def)
  moreover have "ToLower ''format:'' = ''format:''" by (simp add: lower_char_def less_eq_char_def)
  ultimately show ?thesis using assms by (simp add: parseLine_def Let_def)
qed

lemma parseLine_name:
  assumes "solid name" "\<not> ps_haveName p"
  shows "parseLine h maxFields longSize (''name: '' @ name, line) p =
    Inr (p\<lparr>ps_haveName := True, ps_format := (ps_format p)\<lparr>fm_Name := name\<rparr>\<rparr>)"
proof -
  have key: "solid ''name''" "CHR '':'' \<notin> set ''name''" "solid ''name:''" by (simp_all add: solid_def visible_def)
  have "solid (''name: '' @ name)" using assms(1) by (simp add: solid_def visible_def)
  note trim = TrimSpace_solid [OF this]
  note cut = cutProperty_text(2) [OF key(2,1) assms(1), simplified]
  obtain rest where low: "ToLower (''name: '' @ name) = ''name: '' @ rest"
    by (simp add: lower_char_def less_eq_char_def)
  have low': "ToLower ''name'' = ''name''" by (simp add: lower_char_def less_eq_char_def)
  have "parseLine h maxFields longSize (''name: '' @ name, line) p =
      formatProperty (''name: '' @ name) line (firstNonSpace (''name: '' @ name) + 1) p"
    unfolding parseLine_def Let_def prod.case trim low by (simp add: has_prefix_def)
  then show ?thesis
    using cut low' assms by (simp add: formatProperty_def Let_def solid_def)
qed

lemma parseLine_ID:
  assumes "\<not> ps_haveID p"
  shows "parseLine h maxFields longSize (''ID: '' @ format_dec (unat (n :: u32)), line) p =
    Inr (p\<lparr>ps_haveID := True, ps_format := (ps_format p)\<lparr>fm_ID := n\<rparr>\<rparr>)"
proof -
  let ?d = "format_dec (unat n)"
  have key: "solid ''ID''" "CHR '':'' \<notin> set ''ID''" by (simp_all add: solid_def visible_def)
  have "solid (''ID: '' @ ?d)" using format_dec_solid [of "unat n"] by (simp add: solid_def visible_def)
  note trim = TrimSpace_solid [OF this]
  note cut = cutProperty_text(2) [OF key(2,1) format_dec_solid, simplified]
  obtain rest where low: "ToLower (''ID: '' @ ?d) = ''id: '' @ rest"
    by (simp add: lower_char_def less_eq_char_def char_of_eq_iff)
  have low': "ToLower ''ID'' = ''id''" by (simp add: lower_char_def less_eq_char_def char_of_eq_iff)
  have "parseLine h maxFields longSize (''ID: '' @ ?d, line) p = formatProperty (''ID: '' @ ?d) line (firstNonSpace (''ID: '' @ ?d) + 1) p"
    unfolding parseLine_def Let_def prod.case trim low by (simp add: has_prefix_def)
  moreover have "ParseUint10 ?d 32 = Some (unat n)"
    using unat_lt_pow [of n] by (intro ParseUint10_dec) simp
  ultimately show ?thesis
    using cut low' assms by (simp add: formatProperty_def Let_def)
qed

lemma parseLine_print:
  assumes "solid pr" "\<not> ps_havePrint p"
  shows "parseLine h maxFields longSize (''print fmt: '' @ pr, line) p =
    Inr (p\<lparr>ps_havePrint := True, ps_format := (ps_format p)\<lparr>fm_PrintFormat := pr\<rparr>\<rparr>)"
proof -
  have "solid (''print fmt: '' @ pr)" using assms(1) by (simp add: solid_def visible_def)
  note trim = TrimSpace_solid [OF this]
  obtain rest where low: "ToLower (''print fmt: '' @ pr) = ''print fmt: '' @ rest"
    by (simp add: lower_char_def less_eq_char_def)
  have "slice_from (''print fmt: '' @ pr) (length ''print fmt:'') = Inr (CHR '' '' # pr)"
    by (subst slice_from_in) simp_all
  moreover have "TrimSpace_string (CHR '' '' # pr) = pr" using assms(1) by (simp add: TrimSpace_lead TrimSpace_solid)
  ultimately show ?thesis
    unfolding parseLine_def Let_def prod.case trim low using assms(2) by (simp add: has_prefix_def)
qed


section \<open>A file\<close>

record format_file =
  ft_name :: string
  ft_id :: u32
  ft_common :: "format_field list"
  ft_user :: "format_field list"
  ft_print :: string

definition file_lines :: "format_file \<Rightarrow> string list" where
  "file_lines ft =
     [''name: '' @ ft_name ft, ''ID: '' @ format_dec (unat (ft_id ft)), ''format:''] @ map field_line (ft_common ft) @ [[]] @
     map field_line (ft_user ft) @ [[], ''print fmt: '' @ ft_print ft]"

definition format_text :: "format_file \<Rightarrow> bytes" where
  "format_text ft = to_bytes (lines_text (file_lines ft))"

definition read_fields :: "host \<Rightarrow> int \<Rightarrow> nat \<Rightarrow> format_field list \<Rightarrow> field_format list" where
  "read_fields h longSize line fls = map2 (read_field h longSize) [line..<line + length fls] fls"

definition read_file :: "host \<Rightarrow> string \<Rightarrow> int \<Rightarrow> format_file \<Rightarrow> format" where
  "read_file h system longSize ft =
     \<lparr>fm_System = system, fm_Name = ft_name ft, fm_ID = ft_id ft, fm_Common = read_fields h longSize 4 (ft_common ft),
      fm_Fields = read_fields h longSize (5 + length (ft_common ft)) (ft_user ft), fm_PrintFormat = ft_print ft,
      fm_LongSize = longSize, fm_Properties = []\<rparr>"

definition file_written :: "host \<Rightarrow> int \<Rightarrow> format_file \<Rightarrow> bool" where
  "file_written h longSize ft \<longleftrightarrow>
     solid (ft_name ft) \<and> one_line (ft_name ft) \<and> solid (ft_print ft) \<and> one_line (ft_print ft) \<and> ft_common ft \<noteq> [] \<and>
     list_all (field_written h longSize) (ft_common ft) \<and> list_all (field_written h longSize) (ft_user ft) \<and>
     list_all (\<lambda>fl. has_prefix (ff_Name (read_field h longSize 0 fl)) ''common_'') (ft_common ft)"

lemma parseLines_append:
  "parseLines h maxFields longSize (xs @ ys) p = bindR (parseLines h maxFields longSize xs p) (parseLines h maxFields longSize ys)"
proof (induction xs arbitrary: p)
  case (Cons x xs)
  then show ?case by (cases "parseLine h maxFields longSize x p") simp_all
qed simp

lemma read_field_name: "ff_Name (read_field h longSize line fl) = ff_Name (read_field h longSize 0 fl)"
  by (simp add: read_field_def guess_integer_updates)

lemma parseLines_common:
  assumes "list_all (field_written h longSize) fls" "0 < longSize" "ps_inFormat p" "\<not> ps_inUserFields p"
    "list_all (\<lambda>fl. has_prefix (ff_Name (read_field h longSize 0 fl)) ''common_'') fls"
    "ps_fieldCount p + int (length fls) \<le> maxFields"
  shows "parseLines h maxFields longSize (zip (map field_line fls) [line..<line + length fls]) p =
    Inr (p\<lparr>ps_fieldCount := ps_fieldCount p + int (length fls), ps_haveFormatField := ps_haveFormatField p \<or> fls \<noteq> [],
           ps_format := (ps_format p)\<lparr>fm_Common := fm_Common (ps_format p) @ read_fields h longSize line fls\<rparr>\<rparr>)"
  using assms
proof (induction fls arbitrary: p line)
  case (Cons fl fls)
  have w: "field_written h longSize fl" "ps_fieldCount p < maxFields"
      "has_prefix (ff_Name (read_field h longSize line fl)) ''common_''"
    using Cons.prems by (simp_all add: read_field_name [of h longSize line])
  have range: "[line..<line + length (fl # fls)] = line # [Suc line..<Suc line + length fls]" by (simp add: upt_rec)
  let ?p = "p\<lparr>ps_fieldCount := ps_fieldCount p + 1, ps_haveFormatField := True,
      ps_format := (ps_format p)\<lparr>fm_Common := fm_Common (ps_format p) @ [read_field h longSize line fl]\<rparr>\<rparr>"
  have "parseLine h maxFields longSize (field_line fl, line) p = Inr ?p"
    using parseLine_field [OF w(1) Cons.prems(2,3) w(2), of line] w(3) Cons.prems(4) by (simp add: Let_def)
  moreover have "parseLines h maxFields longSize (zip (map field_line fls) [Suc line..<Suc line + length fls]) ?p =
      Inr (?p\<lparr>ps_fieldCount := ps_fieldCount ?p + int (length fls), ps_haveFormatField := ps_haveFormatField ?p \<or> fls \<noteq> [],
           ps_format := (ps_format ?p)\<lparr>fm_Common := fm_Common (ps_format ?p) @ read_fields h longSize (Suc line) fls\<rparr>\<rparr>)"
    using Cons.prems by (intro Cons.IH) simp_all
  ultimately show ?case
    unfolding range read_fields_def by (simp add: add.assoc)
qed (simp add: read_fields_def)

lemma parseLines_user:
  assumes "list_all (field_written h longSize) fls" "0 < longSize" "ps_inFormat p" "ps_inUserFields p" "ps_haveFormatField p"
    "ps_fieldCount p + int (length fls) \<le> maxFields"
  shows "parseLines h maxFields longSize (zip (map field_line fls) [line..<line + length fls]) p =
    Inr (p\<lparr>ps_fieldCount := ps_fieldCount p + int (length fls),
           ps_format := (ps_format p)\<lparr>fm_Fields := fm_Fields (ps_format p) @ read_fields h longSize line fls\<rparr>\<rparr>)"
  using assms
proof (induction fls arbitrary: p line)
  case (Cons fl fls)
  have w: "field_written h longSize fl" "ps_fieldCount p < maxFields"
    using Cons.prems by simp_all
  have range: "[line..<line + length (fl # fls)] = line # [Suc line..<Suc line + length fls]" by (simp add: upt_rec)
  let ?p = "p\<lparr>ps_fieldCount := ps_fieldCount p + 1,
      ps_format := (ps_format p)\<lparr>fm_Fields := fm_Fields (ps_format p) @ [read_field h longSize line fl]\<rparr>\<rparr>"
  have "parseLine h maxFields longSize (field_line fl, line) p = Inr ?p"
    using parseLine_field [OF w(1) Cons.prems(2,3) w(2), of line] Cons.prems(4,5) by (simp add: Let_def)
  moreover have "parseLines h maxFields longSize (zip (map field_line fls) [Suc line..<Suc line + length fls]) ?p =
      Inr (?p\<lparr>ps_fieldCount := ps_fieldCount ?p + int (length fls),
           ps_format := (ps_format ?p)\<lparr>fm_Fields := fm_Fields (ps_format ?p) @ read_fields h longSize (Suc line) fls\<rparr>\<rparr>)"
    using Cons.prems by (intro Cons.IH) simp_all
  ultimately show ?case
    unfolding range read_fields_def by (simp add: add.assoc)
qed (simp add: read_fields_def)


lemma one_line_append: "one_line (s @ t) \<longleftrightarrow> one_line s \<and> one_line t"
  by (auto simp: one_line_def)

lemma one_line_field: "field_written h longSize fl \<Longrightarrow> one_line (field_line fl)"
  using format_dec_plain(3) [of "tx_offset fl"] format_dec_plain(3) [of "tx_size fl"]
  by (cases "tx_signed fl") (auto simp: field_written_def field_line_def field_content_def field_tail_def one_line_def)

lemma file_lines_ok: "file_written h longSize ft \<Longrightarrow> list_all one_line (file_lines ft)"
  using format_dec_plain(3) [of "unat (ft_id ft)"]
  by (auto simp: file_written_def file_lines_def list_all_iff one_line_append one_line_field, simp_all add: one_line_def)

definition numbered :: "nat \<Rightarrow> string list \<Rightarrow> (string \<times> nat) list" where
  "numbered k ls = zip ls [k..<k + length ls]"

lemma numbered_append: "numbered k (xs @ ys) = numbered k xs @ numbered (k + length xs) ys"
  by (simp add: numbered_def zip_append1 add.assoc min_def)

lemma numbered_simps: "numbered k [] = []" "numbered k (x # xs) = (x, k) # numbered (k + 1) xs"
  by (simp_all add: numbered_def upt_rec)

lemma parseLines_file:
  assumes w: "file_written h longSize ft" and "0 < longSize"
    and count: "int (length (ft_common ft)) + int (length (ft_user ft)) \<le> maxFields"
  shows "bindR (parseLines h maxFields longSize (numbered 1 (file_lines ft)) (parse_start system longSize)) finishFormat =
    Inr (read_file h system longSize ft)"
proof -
  let ?c = "length (ft_common ft)" and ?u = "length (ft_user ft)"
  let ?head = "[''name: '' @ ft_name ft, ''ID: '' @ format_dec (unat (ft_id ft)), ''format:'']"
  have lines: "numbered 1 (file_lines ft) = numbered 1 ?head @ numbered 4 (map field_line (ft_common ft)) @ numbered (4 + ?c) [[]] @
      numbered (5 + ?c) (map field_line (ft_user ft)) @ numbered (5 + ?c + ?u) [[], ''print fmt: '' @ ft_print ft]"
    unfolding file_lines_def numbered_append by (simp add: eval_nat_numeral)
  define p1 where "p1 = (parse_start system longSize)\<lparr>ps_haveName := True, ps_haveID := True, ps_haveFormat := True, ps_inFormat := True,
    ps_format := (empty_format system longSize)\<lparr>fm_Name := ft_name ft, fm_ID := ft_id ft\<rparr>\<rparr>"
  have head: "parseLines h maxFields longSize (numbered 1 ?head) (parse_start system longSize) = Inr p1"
    using w parseLine_name [of "ft_name ft" "parse_start system longSize" h maxFields longSize 1]
    by (simp add: numbered_simps parseLine_ID [simplified] parseLine_format file_written_def parse_start_def p1_def)
  define p2 where "p2 = p1\<lparr>ps_fieldCount := int ?c, ps_haveFormatField := True,
    ps_format := (ps_format p1)\<lparr>fm_Common := read_fields h longSize 4 (ft_common ft)\<rparr>\<rparr>"
  have common: "parseLines h maxFields longSize (numbered 4 (map field_line (ft_common ft))) p1 = Inr p2"
    unfolding numbered_def length_map by (subst parseLines_common)
      (use w \<open>0 < longSize\<close> count in \<open>simp_all add: file_written_def p1_def p2_def parse_start_def empty_format_def\<close>)
  define p3 where "p3 = p2\<lparr>ps_inUserFields := True\<rparr>"
  have blank: "parseLines h maxFields longSize (numbered (4 + ?c) [[]]) p2 = Inr p3"
    by (simp add: numbered_simps parseLine_blank p3_def p2_def p1_def)
  define p4 where "p4 = p3\<lparr>ps_fieldCount := int ?c + int ?u,
    ps_format := (ps_format p3)\<lparr>fm_Fields := read_fields h longSize (5 + ?c) (ft_user ft)\<rparr>\<rparr>"
  have user: "parseLines h maxFields longSize (numbered (5 + ?c) (map field_line (ft_user ft))) p3 = Inr p4"
    unfolding numbered_def length_map by (subst parseLines_user)
      (use w \<open>0 < longSize\<close> count in \<open>simp_all add: file_written_def p1_def p2_def p3_def p4_def parse_start_def empty_format_def\<close>)
  have last: "parseLines h maxFields longSize (numbered (5 + ?c + ?u) [[], ''print fmt: '' @ ft_print ft]) p4 =
      Inr (p4\<lparr>ps_havePrint := True, ps_format := (ps_format p4)\<lparr>fm_PrintFormat := ft_print ft\<rparr>\<rparr>)"
    using w parseLine_print [of "ft_print ft" p4 h maxFields longSize "6 + (?c + ?u)"]
    by (simp add: numbered_simps parseLine_blank file_written_def p4_def p3_def p2_def p1_def parse_start_def)
  show ?thesis
    unfolding lines parseLines_append head common blank user last bindR_Inr
    by (simp add: finishFormat_def p1_def p2_def p3_def p4_def parse_start_def empty_format_def read_file_def)
qed

text \<open>
  C23. A format file is read back as it was printed: for every list of common and of other fields whose
  declarations the parser accepts and whose sizes agree with them, the file the kernel prints for
  them is parsed to exactly these fields with their offsets, sizes and signs, in order and told
  apart, under the printed name, number and print format.
\<close>

theorem ParseFormat_roundtrip:
  assumes "file_written h longSize ft" "pa_LongSize opts = longSize" "longSize = 4 \<or> longSize = 8"
    and "int (length (format_text ft)) \<le> (if pa_MaxFormatBytes opts = 0 then 2 ^ 20 else pa_MaxFormatBytes opts)"
    and "int (length (ft_common ft)) + int (length (ft_user ft)) \<le> (if pa_MaxFields opts = 0 then 4096 else pa_MaxFields opts)"
  shows "ParseFormat h (format_text ft) opts = Inr (read_file h (pa_System opts) longSize ft)"
proof -
  let ?bytes = "if pa_MaxFormatBytes opts = 0 then 2 ^ 20 else pa_MaxFormatBytes opts"
  let ?fields = "if pa_MaxFields opts = 0 then 4096 else pa_MaxFields opts"
  have "file_lines ft \<noteq> []" by (simp add: file_lines_def)
  then have "splitLines (format_text ft) = numbered 1 (file_lines ft)"
    unfolding format_text_def using splitLines_text [OF file_lines_ok [OF assms(1)]] by (simp add: numbered_def)
  moreover have "\<not> ?bytes < 0" "\<not> ?fields < 0" using assms(4,5) by (simp_all split: if_splits)
  moreover have "0 < longSize" using assms(3) by auto
  ultimately show ?thesis
    using assms(2-4) parseLines_file [OF assms(1) _ assms(5), of "pa_System opts"]
    unfolding ParseFormat_def Let_def by (simp split del: if_split) (auto)
qed


definition demo_format :: format_file where
  "demo_format = \<lparr>ft_name = ''sched_switch'', ft_id = 314,
     ft_common = [\<lparr>tx_decl = ''int common_pid'', tx_offset = 4, tx_size = 4, tx_signed = True\<rparr>],
     ft_user = [\<lparr>tx_decl = ''char comm[16]'', tx_offset = 8, tx_size = 16, tx_signed = True\<rparr>],
     ft_print = ''fmt''\<rparr>"

definition ascii_host :: host where
  "ascii_host = \<lparr>native = LittleEndian, int64 = True, letter_rune = \<lambda>_. False, digit_rune = \<lambda>_. False\<rparr>"

lemma range_runes_ascii: "list_all (\<lambda>b. b < 128) bs \<Longrightarrow> range_runes bs = map unat bs"
proof (induction bs)
  case (Cons b bs)
  then have "utf8_len (b # bs) = Some 1" by (simp add: utf8_len.simps word_less_nat_alt)
  then show ?case using Cons by (simp add: sequence_rune_def)
qed simp

lemma isIdentifier_ascii:
  assumes "list_all (\<lambda>c. (of_char c :: nat) < 128) s"
  shows "isIdentifier h s \<longleftrightarrow> s \<noteq> [] \<and> start_char h (hd s) \<and> list_all (continue_char h) (tl s)"
proof (cases s)
  case (Cons c t)
  then have "list_all (\<lambda>b. b < 128) (to_bytes t)"
    using assms by (auto simp: list_all_iff to_bytes_def word_less_nat_alt unat_of_char)
  then have "range_runes (to_bytes t) = map of_char t"
    by (simp add: range_runes_ascii) (simp add: to_bytes_def unat_of_char)
  then show ?thesis using Cons by (simp add: isIdentifier_def list_all_iff)
qed (simp add: isIdentifier_def)

lemmas ascii_simps = isIdentifier_ascii isIdentStart_def isIdentContinue_def IsLetter_def IsDigit_def isQualifier_def

lemma parseDeclaration_steps:
  assumes "removeDeclarationAttributes h decl = Some rest" "tokenizeDeclaration h rest = Some tokens"
    and "stripAttributes tokens = stripped" "filter (\<lambda>t. t \<noteq> ''__data_loc'' \<and> t \<noteq> ''__rel_loc'') stripped = kept" "2 \<le> length kept"
    and "findNameToken h kept = Some name" "array_length kept (array_start kept name) = Some len" "type_words kept name = words"
  shows "parseDeclaration h decl longSize = Some (classifyType words longSize (zero_field
    \<lparr>ff_Name := kept ! name, ff_ArrayLen := len, ff_Pointer := (''*'' \<in> set (take name kept)), ff_Location := token_location stripped,
     ff_declarationClass := (if len \<ge> 0 then declarationArray
       else if ''struct'' \<in> set words \<or> ''union'' \<in> set words then declarationAggregate else declarationScalar)\<rparr>))"
  using assms by (simp add: parseDeclaration_def)

lemma demo_scalar: "parseDeclaration ascii_host ''int common_pid'' 8 =
  Some (zero_field\<lparr>ff_Name := ''common_pid'', ff_ArrayLen := -1, ff_Kind := FieldSigned, ff_Width := 4, ff_Signed := True\<rparr>)"
proof -
  let ?tokens = "[''int'', ''common_pid'']"
  have name: "findNameToken ascii_host ?tokens = Some 1"
    by (simp add: findNameToken_def ascii_simps)
  have "removeDeclarationAttributes ascii_host ''int common_pid'' = Some ''int common_pid''"
    "tokenizeDeclaration ascii_host ''int common_pid'' = Some ?tokens"
    "stripAttributes ?tokens = ?tokens" "filter (\<lambda>t. t \<noteq> ''__data_loc'' \<and> t \<noteq> ''__rel_loc'') ?tokens = ?tokens" "2 \<le> length ?tokens"
    by code_simp+
  note steps = parseDeclaration_steps [OF this name]
  have "classifyType [''int''] 8 (zero_field\<lparr>ff_Name := ''common_pid'', ff_ArrayLen := -1\<rparr>) =
      zero_field\<lparr>ff_Name := ''common_pid'', ff_ArrayLen := -1, ff_Kind := FieldSigned, ff_Width := 4, ff_Signed := True\<rparr>"
    by code_simp
  moreover have "type_words ?tokens 1 = [''int'']" by code_simp
  moreover have "array_length ?tokens (array_start ?tokens 1) = Some (-1)"
    by (simp add: array_length_def array_start_def)
  ultimately show ?thesis
    using steps [of "-1" "[''int'']" 8]
    by (simp add: token_location_def zero_field_def)
qed

lemma demo_array: "parseDeclaration ascii_host ''char comm[16]'' 8 =
  Some (zero_field\<lparr>ff_Name := ''comm'', ff_ArrayLen := 16, ff_Kind := FieldChar, ff_Width := 1, ff_declarationClass := declarationArray\<rparr>)"
proof -
  let ?tokens = "[''char'', ''comm'', ''['', ''16'', '']'']"
  have name: "findNameToken ascii_host ?tokens = Some 1"
    by (simp add: findNameToken_def ascii_simps upt_rec)
  have "removeDeclarationAttributes ascii_host ''char comm[16]'' = Some ''char comm[16]''"
    "tokenizeDeclaration ascii_host ''char comm[16]'' = Some ?tokens"
    "stripAttributes ?tokens = ?tokens" "filter (\<lambda>t. t \<noteq> ''__data_loc'' \<and> t \<noteq> ''__rel_loc'') ?tokens = ?tokens" "2 \<le> length ?tokens"
    by code_simp+
  note steps = parseDeclaration_steps [OF this name]
  have "format_dec 16 = ''16''" by (simp add: format_dec.simps [of 16] format_dec.simps [of "Suc 0"] char_of_eq_iff)
  then have bound: "ParseUint0 ''16'' 31 = Some 16" "ParseUint0 ''16'' 64 = Some 16"
    using ParseUint0_dec [of 16 31] ParseUint0_dec [of 16 64] by simp_all
  have "\<not> isNumber ''char''" by (simp add: isNumber_def ParseUint0_def number_base_def digit_value_def lower_char_def less_eq_char_def)
  then have "type_words ?tokens 1 = [''char'']" using bound by (simp add: type_words_def upt_rec isNumber_def isQualifier_def)
  moreover have "array_length ?tokens (array_start ?tokens 1) = Some 16" using bound(1) by (simp add: array_length_def array_start_def)
  moreover have "classifyType [''char''] 8 (zero_field\<lparr>ff_Name := ''comm'', ff_ArrayLen := 16, ff_declarationClass := declarationArray\<rparr>) =
      zero_field\<lparr>ff_Name := ''comm'', ff_ArrayLen := 16, ff_Kind := FieldChar, ff_Width := 1, ff_declarationClass := declarationArray\<rparr>"
    by code_simp
  ultimately show ?thesis
    using steps [of 16 "[''char'']" 8]
    by (simp add: token_location_def zero_field_def)
qed

theorem ParseFormat_roundtrip_witness:
  "ParseFormat ascii_host (format_text demo_format) \<lparr>pa_System = ''sched'', pa_LongSize = 8, pa_MaxFormatBytes = 0, pa_MaxFields = 0\<rparr> =
     Inr (read_file ascii_host ''sched'' 8 demo_format)"
proof -
  have "field_written ascii_host 8 \<lparr>tx_decl = ''int common_pid'', tx_offset = 4, tx_size = 4, tx_signed = True\<rparr>"
    by (simp add: field_written_def demo_scalar solid_def visible_def one_line_def MaxInt_def ascii_host_def [THEN arg_cong, of int64]
        size_agrees_def read_field_def guess_integer_def zero_field_def)
  moreover have "field_written ascii_host 8 \<lparr>tx_decl = ''char comm[16]'', tx_offset = 8, tx_size = 16, tx_signed = True\<rparr>"
    by (simp add: field_written_def demo_array solid_def visible_def one_line_def MaxInt_def ascii_host_def [THEN arg_cong, of int64]
        size_agrees_def read_field_def guess_integer_def zero_field_def)
  moreover have "has_prefix (ff_Name (read_field ascii_host 8 0
      \<lparr>tx_decl = ''int common_pid'', tx_offset = 4, tx_size = 4, tx_signed = True\<rparr>)) ''common_''"
    by (simp add: read_field_def demo_scalar guess_integer_updates has_prefix_def)
  ultimately have "file_written ascii_host 8 demo_format"
    by (simp add: file_written_def demo_format_def solid_def visible_def one_line_def)
  moreover have "length (format_text demo_format) < 2 ^ 20"
    by (simp add: format_text_def lines_text_def file_lines_def demo_format_def field_line_def field_content_def field_tail_def format_dec.simps)
  ultimately show ?thesis
    using ParseFormat_roundtrip [of ascii_host 8 demo_format "\<lparr>pa_System = ''sched'', pa_LongSize = 8, pa_MaxFormatBytes = 0, pa_MaxFields = 0\<rparr>"]
    by (simp add: demo_format_def)
qed

end
