(* ===== verification/GenOutput.thy ===== *)
theory GenOutput imports Prelude begin

text \<open>
  How eventheader-gen replaces its output file on Linux (\<open>writeOutput\<close> in generator.go, outputlock.go,
  outputlock_unix.go and outputreplace_linux.go).

  A directory is a map from paths to files. Each system call is one atomic step: the inode a path
  names is opened, its state is read. Between two calls other processes act on the directory, as the
  \<open>machine\<close> tells; a call may fail with an error number it gives. The \<open>replacementHooks\<close> are nil
  outside the tests: what they do there is an act of another process here. Clock readings are
  natural numbers of nanoseconds.
\<close>


section \<open>System calls among the acts of other processes\<close>

datatype errno = ENOENT | EEXIST | EINTR | EWOULDBLOCK | EAGAIN | ENOSYS | EINVAL | EOPNOTSUPP | Errno nat

record file_node =
  fn_id :: nat
  fn_data :: bytes
  fn_regular :: bool

type_synonym directory = "string \<Rightarrow> file_node option"

text \<open>Another process renames or writes a file to a path, or removes it.\<close>

datatype foreign_act = Put string file_node | Unlink string

primrec foreign :: "foreign_act \<Rightarrow> directory \<Rightarrow> directory" where
  "foreign (Put path f) d = d(path \<mapsto> f)"
| "foreign (Unlink path) d = d(path := None)"

text \<open>
  For the call number \<open>k\<close>: what other processes do before it, the error it ends with if it fails, the
  inode number and the name a file created by it gets, and how long it takes.
\<close>

record machine =
  acts :: "nat \<Rightarrow> foreign_act list"
  faults :: "nat \<Rightarrow> errno option"
  new_ids :: "nat \<Rightarrow> nat"
  temp_names :: "nat \<Rightarrow> string"
  takes :: "nat \<Rightarrow> nat"

text \<open>
  \<open>wd_trace\<close> is for the statements only: the directory each call found and the one it left.
\<close>

record world =
  wd_dir :: directory
  wd_calls :: nat
  wd_clock :: nat
  wd_trace :: "(directory \<times> directory) list"

definition syscall :: "machine \<Rightarrow> (directory \<Rightarrow> (errno + 'a) \<times> directory) \<Rightarrow> world \<Rightarrow> (errno + 'a) \<times> world" where
  "syscall m f w =
     (let k = wd_calls w; d = fold foreign (acts m k) (wd_dir w);
          (r, d') = (case faults m k of Some e \<Rightarrow> (Inl e, d) | None \<Rightarrow> f d)
      in (r, \<lparr>wd_dir = d', wd_calls = k + 1, wd_clock = wd_clock w + takes m k, wd_trace = wd_trace w @ [(d, d')]\<rparr>))"


section \<open>The state of the output\<close>

text \<open>
  The errors of this part of the program. \<open>ConcurrentModification\<close> has the paths that its text names
  for recovery; errors of the system are wrapped in texts that are left out.
\<close>

datatype output_error =
    SystemError errno
  | NotRegular
  | ConcurrentModification "string list"
  | ExchangeUnavailable errno
  | Preserved string output_error
  | OutputMissing
  | OutputStale
  | LockTimeout

record output_state =
  os_path :: string
  os_exists :: bool
  os_data :: bytes
  os_info :: nat

definition absent :: "string \<Rightarrow> output_state" where
  "absent path = \<lparr>os_path = path, os_exists = False, os_data = [], os_info = 0\<rparr>"

definition present :: "string \<Rightarrow> file_node \<Rightarrow> output_state" where
  "present path f = \<lparr>os_path = path, os_exists = True, os_data = fn_data f, os_info = fn_id f\<rparr>"

definition sameOutputState :: "output_state \<Rightarrow> output_state \<Rightarrow> bool" where
  "sameOutputState left right =
     (if os_exists left \<noteq> os_exists right then False
      else if \<not> os_exists left then True
      else os_info left = os_info right \<and> os_data left = os_data right)"

text \<open>A call that only succeeds or fails.\<close>

definition perform :: "machine \<Rightarrow> (directory \<Rightarrow> directory) \<Rightarrow> world \<Rightarrow> output_error option \<times> world" where
  "perform m f w = (case syscall m (\<lambda>d. (Inr (), f d)) w of
      (Inl e, w) \<Rightarrow> (Some (SystemError e), w) | (Inr _, w) \<Rightarrow> (None, w))"

text \<open>A call that changes nothing and whose failure is ignored.\<close>

abbreviation ignored :: "machine \<Rightarrow> world \<Rightarrow> world" where
  "ignored m w \<equiv> snd (perform m (\<lambda>d. d) w)"

definition readOutputState :: "machine \<Rightarrow> string \<Rightarrow> world \<Rightarrow> (output_error + output_state) \<times> world" where
  "readOutputState m path w =
     (case syscall m (\<lambda>d. (case d path of None \<Rightarrow> Inl ENOENT | Some f \<Rightarrow> Inr f, d)) w of
        (Inl e, w) \<Rightarrow> (if e = ENOENT then Inr (absent path) else Inl (SystemError e), w)
      | (Inr f, w) \<Rightarrow> (if \<not> fn_regular f then Inl NotRegular else Inr (present path f), w))"

definition exchangeOutputPaths :: "machine \<Rightarrow> string \<Rightarrow> string \<Rightarrow> world \<Rightarrow> (errno + unit) \<times> world" where
  "exchangeOutputPaths m left right =
     syscall m (\<lambda>d. case (d left, d right) of
         (Some f, Some g) \<Rightarrow> (Inr (), d(left \<mapsto> g, right \<mapsto> f))
       | _ \<Rightarrow> (Inl ENOENT, d))"


section \<open>Replacing an existing output on Linux\<close>

text \<open>
  The result is whether the temporary file must be kept, and the error, if any. When the file that
  was exchanged out is not the initial one, it is put back; if that displaced a newer file, the two
  are exchanged again.
\<close>

definition restoreOutput ::
  "machine \<Rightarrow> string \<Rightarrow> output_state \<Rightarrow> output_state \<Rightarrow> output_state \<Rightarrow> world \<Rightarrow>
   (bool \<times> output_error option) \<times> world" where
  "restoreOutput m tempName initial staged previous w =
     (case exchangeOutputPaths m tempName (os_path initial) w of
        (Inl e, w) \<Rightarrow> ((True, Some (ConcurrentModification [tempName])), w)
      | (Inr _, w) \<Rightarrow>
     (case readOutputState m (os_path initial) w of (restored, w) \<Rightarrow>
     (case readOutputState m tempName w of (displaced, w) \<Rightarrow>
        let put_back = (case (restored, displaced) of (Inr r, Inr _) \<Rightarrow> sameOutputState previous r | _ \<Rightarrow> False);
            ours = (case displaced of Inr d \<Rightarrow> sameOutputState staged d | _ \<Rightarrow> False)
        in if put_back \<and> ours then ((False, Some (ConcurrentModification [])), w)
           else if put_back then
             (case exchangeOutputPaths m tempName (os_path initial) w of
                (Inr _, w) \<Rightarrow> ((False, Some (ConcurrentModification [])), w)
              | (Inl _, w) \<Rightarrow> ((True, Some (ConcurrentModification [tempName])), w))
           else ((True, Some (ConcurrentModification [tempName])), w))))"

definition replaceExistingOutput ::
  "machine \<Rightarrow> string \<Rightarrow> output_state \<Rightarrow> world \<Rightarrow> (bool \<times> output_error option) \<times> world" where
  "replaceExistingOutput m tempName initial w =
     (case readOutputState m tempName w of
        (Inl e, w) \<Rightarrow> ((False, Some e), w)
      | (Inr staged, w) \<Rightarrow>
     (case exchangeOutputPaths m tempName (os_path initial) w of
        (Inl e, w) \<Rightarrow>
          ((False, Some (if e = ENOSYS \<or> e = EINVAL \<or> e = EOPNOTSUPP then ExchangeUnavailable e else SystemError e)), w)
      | (Inr _, w) \<Rightarrow>
     (case readOutputState m tempName w of
        (Inl e, w) \<Rightarrow> ((True, Some (Preserved tempName e)), w)
      | (Inr previous, w) \<Rightarrow>
          if sameOutputState initial previous then ((False, None), w)
          else
     (case readOutputState m (os_path initial) w of
        (Inl e, w) \<Rightarrow> ((True, Some (ConcurrentModification [tempName])), w)
      | (Inr current, w) \<Rightarrow>
          if \<not> sameOutputState staged current then ((False, Some (ConcurrentModification [])), w)
          else restoreOutput m tempName initial staged previous w))))"


section \<open>The lock of the output\<close>

text \<open>
  \<open>flock\<close> without blocking, again after an interrupt. \<open>None\<close>: interrupted for ever. The path of
  the lock file, in the directory of the output, is an argument of the operations.
\<close>

partial_function (option) tryLockFile :: "machine \<Rightarrow> world \<Rightarrow> ((errno + bool) \<times> world) option" where
  "tryLockFile m w =
     (case syscall m (\<lambda>d. (Inr (), d)) w of
        (Inr _, w) \<Rightarrow> Some (Inr True, w)
      | (Inl e, w) \<Rightarrow>
          if e = EINTR then tryLockFile m w
          else if e = EWOULDBLOCK \<or> e = EAGAIN then Some (Inr False, w)
          else Some (Inl e, w))"

definition outputLockTimeout :: nat where
  "outputLockTimeout = 10000000000"

partial_function (option) lockLoop :: "machine \<Rightarrow> nat \<Rightarrow> world \<Rightarrow> ((output_error option) \<times> world) option" where
  "lockLoop m deadline w =
     (case tryLockFile m w of
        None \<Rightarrow> None
      | Some (Inl e, w) \<Rightarrow> Some (Some (SystemError e), ignored m w)
      | Some (Inr acquired, w) \<Rightarrow>
          if acquired then Some (None, w)
          else if deadline \<le> wd_clock w then Some (Some LockTimeout, ignored m w)
          else lockLoop m deadline (w\<lparr>wd_clock := wd_clock w + min 10000000 (deadline - wd_clock w)\<rparr>))"

definition acquireOutputLockTimeout :: "machine \<Rightarrow> string \<Rightarrow> nat \<Rightarrow> world \<Rightarrow> (output_error option \<times> world) option" where
  "acquireOutputLockTimeout m lockPath limit w =
     (case syscall m (\<lambda>d. (Inr (), d(lockPath := Some (case d lockPath of
          None \<Rightarrow> \<lparr>fn_id = new_ids m (wd_calls w), fn_data = [], fn_regular = True\<rparr> | Some f \<Rightarrow> f)))) w of
        (Inl e, w) \<Rightarrow> Some (Some (SystemError e), w)
      | (Inr _, w) \<Rightarrow> lockLoop m (wd_clock w + limit) w)"

definition acquireOutputLock :: "machine \<Rightarrow> string \<Rightarrow> world \<Rightarrow> (output_error option \<times> world) option" where
  "acquireOutputLock m lockPath = acquireOutputLockTimeout m lockPath outputLockTimeout"


section \<open>Writing the output\<close>

text \<open>\<open>CreateTemp\<close>: a new empty file under a name that no file has.\<close>

definition createTemp :: "machine \<Rightarrow> world \<Rightarrow> (errno + string) \<times> world" where
  "createTemp m w =
     (let k = wd_calls w; name = temp_names m k
      in syscall m (\<lambda>d. if d name \<noteq> None then (Inl EEXIST, d)
           else (Inr name, d(name \<mapsto> \<lparr>fn_id = new_ids m k, fn_data = [], fn_regular = True\<rparr>))) w)"

text \<open>Chmod, Write, Sync and Close of the new file; every failure closes it.\<close>

definition fillTemp :: "machine \<Rightarrow> string \<Rightarrow> bytes \<Rightarrow> world \<Rightarrow> output_error option \<times> world" where
  "fillTemp m name data w =
     (case perform m (\<lambda>d. d) w of
        (Some e, w) \<Rightarrow> (Some e, ignored m w)
      | (None, w) \<Rightarrow>
     (case perform m (\<lambda>d. d(name := map_option (\<lambda>f. f\<lparr>fn_data := data\<rparr>) (d name))) w of
        (Some e, w) \<Rightarrow> (Some e, ignored m w)
      | (None, w) \<Rightarrow>
     (case perform m (\<lambda>d. d) w of
        (Some e, w) \<Rightarrow> (Some e, ignored m w)
      | (None, w) \<Rightarrow> perform m (\<lambda>d. d) w)))"

text \<open>\<open>os.Link\<close>, which fails when the new name exists.\<close>

definition installNew :: "machine \<Rightarrow> string \<Rightarrow> string \<Rightarrow> world \<Rightarrow> output_error option \<times> world" where
  "installNew m name output w =
     (case syscall m (\<lambda>d. case d name of
          None \<Rightarrow> (Inl ENOENT, d)
        | Some f \<Rightarrow> if d output \<noteq> None then (Inl EEXIST, d) else (Inr (), d(output \<mapsto> f))) w of
        (Inl e, w) \<Rightarrow> (Some (if e = EEXIST then ConcurrentModification [] else SystemError e), w)
      | (Inr _, w) \<Rightarrow> (None, w))"

text \<open>The deferred removal of the temporary file.\<close>

definition tidy :: "machine \<Rightarrow> string \<Rightarrow> bool \<Rightarrow> world \<Rightarrow> world" where
  "tidy m tempName preserve w =
     (if preserve then w else snd (perform m (\<lambda>d. d(tempName := None)) w))"

text \<open>From the creation of the temporary file to its deferred removal.\<close>

definition commitOutput :: "machine \<Rightarrow> output_state \<Rightarrow> bytes \<Rightarrow> world \<Rightarrow> output_error option \<times> world" where
  "commitOutput m initial data w =
     (case createTemp m w of
        (Inl e, w) \<Rightarrow> (Some (SystemError e), w)
      | (Inr tempName, w) \<Rightarrow>
          let ((preserve, err), w) =
                (case fillTemp m tempName data w of
                   (Some e, w) \<Rightarrow> ((False, Some e), w)
                 | (None, w) \<Rightarrow>
                     if \<not> os_exists initial then
                       (case installNew m tempName (os_path initial) w of (err, w) \<Rightarrow> ((False, err), w))
                     else replaceExistingOutput m tempName initial w)
          in (err, tidy m tempName preserve w))"

text \<open>What is done under the lock.\<close>

definition writeLocked :: "machine \<Rightarrow> output_state \<Rightarrow> bytes \<Rightarrow> bool \<Rightarrow> world \<Rightarrow> output_error option \<times> world" where
  "writeLocked m initial data check w =
     (case readOutputState m (os_path initial) w of
        (Inl e, w) \<Rightarrow> (Some e, w)
      | (Inr current, w) \<Rightarrow>
          if check then
            (if \<not> os_exists current then Some OutputMissing
             else if os_data current \<noteq> data then Some OutputStale else None, w)
          else if os_exists current \<and> os_data current = data then (None, w)
          else if \<not> sameOutputState initial current then (Some (ConcurrentModification []), w)
          else commitOutput m initial data w)"

text \<open>The deferred unlock is a call of \<open>flock\<close> and the closing of the lock file.\<close>

definition writeOutput ::
  "machine \<Rightarrow> string \<Rightarrow> output_state \<Rightarrow> bytes \<Rightarrow> bool \<Rightarrow> world \<Rightarrow> (output_error option \<times> world) option" where
  "writeOutput m lockPath initial data check w =
     (case acquireOutputLock m lockPath w of
        None \<Rightarrow> None
      | Some (Some e, w) \<Rightarrow> Some (Some e, w)
      | Some (None, w) \<Rightarrow>
          (case writeLocked m initial data check w of (err, w) \<Rightarrow>
             Some (err, ignored m (ignored m w))))"


section \<open>What becomes of a path\<close>

text \<open>What a path holds after the acts of others between two calls, and whether they touch it.\<close>

definition act_at :: "string \<Rightarrow> foreign_act \<Rightarrow> file_node option \<Rightarrow> file_node option" where
  "act_at path a x = (case a of Put q f \<Rightarrow> if q = path then Some f else x | Unlink q \<Rightarrow> if q = path then None else x)"

definition newest :: "machine \<Rightarrow> string \<Rightarrow> nat \<Rightarrow> nat \<Rightarrow> file_node option \<Rightarrow> file_node option" where
  "newest m path i j = fold (act_at path) (concat (map (acts m) [i..<j]))"

primrec act_path :: "foreign_act \<Rightarrow> string" where
  "act_path (Put path _) = path"
| "act_path (Unlink path) = path"

definition touched :: "machine \<Rightarrow> string \<Rightarrow> nat \<Rightarrow> bool" where
  "touched m path k \<longleftrightarrow> path \<in> act_path ` set (acts m k)"

definition races :: "machine \<Rightarrow> string \<Rightarrow> nat \<Rightarrow> nat \<Rightarrow> nat" where
  "races m path i j = length (filter (touched m path) [i..<j])"

lemma fold_foreign: "fold foreign as d path = fold (act_at path) as (d path)"
  by (induction as arbitrary: d) (auto simp: act_at_def split: foreign_act.splits)

lemma newest_refl [simp]: "newest m path i i x = x"
  by (simp add: newest_def)

lemma newest_Suc: "i \<le> k \<Longrightarrow> newest m path i (Suc k) x = fold (act_at path) (acts m k) (newest m path i k x)"
  by (simp add: newest_def)

lemma newest_trans: "i \<le> j \<Longrightarrow> j \<le> k \<Longrightarrow> newest m path j k (newest m path i j x) = newest m path i k x"
  using upt_add_eq_append [of i j "k - j"] by (simp add: newest_def)

lemma fold_act_untouched: "path \<notin> act_path ` set as \<Longrightarrow> fold (act_at path) as x = x"
  by (induction as arbitrary: x) (auto simp: act_at_def split: foreign_act.splits)

lemma fold_act_touched: "path \<in> act_path ` set as \<Longrightarrow> fold (act_at path) as x = fold (act_at path) as y"
proof (induction as arbitrary: x y)
  case (Cons a as)
  show ?case
  proof (cases "path \<in> act_path ` set as")
    case True
    then show ?thesis by (simp add: Cons.IH [of "act_at path a x" "act_at path a y"])
  next
    case False
    then have "act_path a = path" using Cons.prems by simp
    then show ?thesis by (cases a) (simp_all add: act_at_def)
  qed
qed simp

lemma newest_untouched: "\<forall>k\<in>{i..<j}. \<not> touched m path k \<Longrightarrow> newest m path i j x = x"
  unfolding newest_def by (rule fold_act_untouched) (fastforce simp: touched_def)

lemma newest_touched: "touched m path k \<Longrightarrow> k \<in> {i..<j} \<Longrightarrow> newest m path i j x = newest m path i j y"
  unfolding newest_def by (rule fold_act_touched) (auto simp: touched_def image_iff)

text \<open>A put file is one of those that the others put.\<close>

definition puts :: "machine \<Rightarrow> string \<Rightarrow> file_node \<Rightarrow> bool" where
  "puts m path f \<longleftrightarrow> (\<exists>k. Put path f \<in> set (acts m k))"

lemma fold_act_put: "fold (act_at path) as x = Some f \<Longrightarrow> x = Some f \<or> Put path f \<in> set as"
proof (induction as arbitrary: x)
  case (Cons a as)
  then have "act_at path a x = Some f \<or> Put path f \<in> set as" by simp
  then show ?case by (cases a) (auto simp: act_at_def split: if_splits)
qed simp

lemma newest_put: "newest m path i j x = Some f \<Longrightarrow> x = Some f \<or> puts m path f"
  unfolding newest_def by (drule fold_act_put) (auto simp: puts_def)

text \<open>
  \<open>quiet m path w w'\<close>: from \<open>w\<close> to \<open>w'\<close> only other processes change what is at the path.
\<close>

definition quiet :: "machine \<Rightarrow> string \<Rightarrow> world \<Rightarrow> world \<Rightarrow> bool" where
  "quiet m path w w' \<longleftrightarrow> wd_calls w \<le> wd_calls w' \<and>
     wd_dir w' path = newest m path (wd_calls w) (wd_calls w') (wd_dir w path) \<and>
     (\<exists>steps. wd_trace w' = wd_trace w @ steps \<and> (\<forall>(before, after)\<in>set steps. after path = before path))"

lemma quiet_refl [simp]: "quiet m path w w"
  by (simp add: quiet_def)

lemma quiet_trans: "quiet m path u v \<Longrightarrow> quiet m path v w \<Longrightarrow> quiet m path u w"
  unfolding quiet_def by (auto simp: newest_trans)

lemma quiet_clock [simp]:
  "quiet m path w (v\<lparr>wd_clock := c\<rparr>) \<longleftrightarrow> quiet m path w v"
  "quiet m path (v\<lparr>wd_clock := c\<rparr>) w \<longleftrightarrow> quiet m path v w"
  by (simp_all add: quiet_def)

text \<open>The directory a call finds.\<close>

definition arrive :: "machine \<Rightarrow> world \<Rightarrow> directory" where
  "arrive m w = fold foreign (acts m (wd_calls w)) (wd_dir w)"

lemma arrive_newest: "arrive m w path = newest m path (wd_calls w) (Suc (wd_calls w)) (wd_dir w path)"
  by (simp add: arrive_def newest_Suc fold_foreign)

definition step_to :: "machine \<Rightarrow> world \<Rightarrow> world \<Rightarrow> bool" where
  "step_to m w w' \<longleftrightarrow> wd_calls w' = Suc (wd_calls w) \<and> wd_trace w' = wd_trace w @ [(arrive m w, wd_dir w')]"

lemma syscall_step:
  assumes "syscall m f w = (r, w')"
  shows "step_to m w w'"
    "r = (case faults m (wd_calls w) of Some e \<Rightarrow> Inl e | None \<Rightarrow> fst (f (arrive m w)))"
    "wd_dir w' = (case faults m (wd_calls w) of Some e \<Rightarrow> arrive m w | None \<Rightarrow> snd (f (arrive m w)))"
  using assms by (auto simp: syscall_def step_to_def arrive_def Let_def split: option.splits prod.splits)

lemma step_quiet: "step_to m w w' \<Longrightarrow> wd_dir w' path = arrive m w path \<Longrightarrow> quiet m path w w'"
  by (auto simp: step_to_def quiet_def arrive_newest)

definition state_at :: "string \<Rightarrow> file_node option \<Rightarrow> output_state" where
  "state_at path x = (case x of None \<Rightarrow> absent path | Some f \<Rightarrow> present path f)"

text \<open>Opening a file that is there never reports that it is not.\<close>

definition found_files :: "machine \<Rightarrow> bool" where
  "found_files m \<longleftrightarrow> (\<forall>k. faults m k \<noteq> Some ENOENT)"

lemma read_step:
  assumes "readOutputState m path w = (r, w')"
  shows "step_to m w w'" "wd_dir w' = arrive m w"
    "found_files m \<Longrightarrow> r = Inr s \<Longrightarrow> s = state_at path (arrive m w path)"
proof -
  obtain t v where call: "syscall m (\<lambda>d. (case d path of None \<Rightarrow> Inl ENOENT | Some f \<Rightarrow> Inr f, d)) w = (t, v)" by fastforce
  note step = syscall_step [OF call]
  have w': "v = w'" using assms call by (auto simp: readOutputState_def split: sum.splits if_splits)
  show "step_to m w w'" using step(1) w' by simp
  show "wd_dir w' = arrive m w" using step(3) w' by (simp split: option.splits)
  show "s = state_at path (arrive m w path)" if "found_files m" "r = Inr s"
    using assms that call step(2)
    by (auto simp: readOutputState_def state_at_def found_files_def split: sum.splits if_splits option.splits)
qed

lemma perform_step:
  assumes "perform m f w = (r, w')"
  shows "step_to m w w'" "wd_dir w' = (if r = None then f (arrive m w) else arrive m w)"
proof -
  obtain t v where call: "syscall m (\<lambda>d. (Inr (), f d)) w = (t, v)" by fastforce
  note step = syscall_step [OF call]
  have w': "v = w'" "r = None \<longleftrightarrow> t = Inr ()"
    using assms call by (auto simp: perform_def split: sum.splits)
  show "step_to m w w'" using step(1) w' by simp
  show "wd_dir w' = (if r = None then f (arrive m w) else arrive m w)"
    using step(2,3) w' by (simp split: option.splits)
qed

lemma exchange_step:
  assumes "exchangeOutputPaths m left right w = (r, w')"
  shows "step_to m w w'" "r = Inl e \<Longrightarrow> wd_dir w' = arrive m w"
    "r = Inr u \<Longrightarrow> \<exists>f g. arrive m w left = Some f \<and> arrive m w right = Some g \<and>
       wd_dir w' = (arrive m w)(left \<mapsto> g, right \<mapsto> f)"
  using syscall_step [OF assms [unfolded exchangeOutputPaths_def]]
  by (auto split: option.splits)


section \<open>The newest file is not lost\<close>

definition touched_in :: "machine \<Rightarrow> string \<Rightarrow> nat \<Rightarrow> nat \<Rightarrow> bool" where
  "touched_in m path i j \<longleftrightarrow> (\<exists>k\<in>{i..<j}. touched m path k)"

lemma newest_calm: "\<not> touched_in m path i j \<Longrightarrow> newest m path i j x = x"
  by (simp add: touched_in_def newest_untouched)

lemma newest_tail:
  assumes "touched_in m path a b" "i \<le> a"
  shows "newest m path a b x = newest m path i b y"
proof -
  obtain k where k: "k \<in> {a..<b}" "touched m path k" using assms(1) by (auto simp: touched_in_def)
  then have "newest m path i b y = newest m path a b (newest m path i a y)"
    using assms(2) newest_trans [of i a b] by simp
  then show ?thesis using newest_touched [OF k(2,1)] by simp
qed

lemma newest_skip: "\<not> touched_in m path a b \<Longrightarrow> i \<le> a \<Longrightarrow> a \<le> b \<Longrightarrow> newest m path i b x = newest m path i a x"
  using newest_trans [of i a b m path x] by (simp add: newest_calm)

lemma touched_in_mono: "touched_in m path a b \<Longrightarrow> i \<le> a \<Longrightarrow> b \<le> j \<Longrightarrow> touched_in m path i j"
  by (force simp: touched_in_def)

lemma newest_some: "newest m path i j None = Some f \<Longrightarrow> touched_in m path i j \<and> puts m path f"
  using newest_calm [of m path i j None] newest_put [of m path i j None f] by auto

lemma races_split: "i \<le> j \<Longrightarrow> j \<le> k \<Longrightarrow> races m path i k = races m path i j + races m path j k"
  using upt_add_eq_append [of i j "k - j"] by (simp add: races_def)

lemma races_pos: "touched_in m path i j \<longleftrightarrow> 0 < races m path i j"
  by (auto simp: touched_in_def races_def filter_empty_conv)

lemma three_races:
  assumes "touched_in m path i a" "touched_in m path a b" "touched_in m path b j"
  shows "2 < races m path i j"
proof -
  have "i \<le> a" "a \<le> b" "b \<le> j" using assms by (auto simp: touched_in_def)
  then show ?thesis using assms races_split [of i a j] races_split [of a b j] by (simp add: races_pos)
qed

lemma arrive_track:
  "wd_dir w path = newest m path i (wd_calls w) x \<Longrightarrow> i \<le> wd_calls w \<Longrightarrow>
   arrive m w path = newest m path i (Suc (wd_calls w)) x"
  by (simp add: arrive_newest newest_trans)

lemma arrive_calm: "\<forall>k. \<not> touched m path k \<Longrightarrow> arrive m w path = wd_dir w path"
  by (simp add: arrive_newest newest_untouched)

lemma same_refl [simp]: "sameOutputState s s"
  by (simp add: sameOutputState_def)

lemma tidy_step:
  assumes "path \<noteq> tempName" "wd_dir w path = newest m path i (wd_calls w) x" "i \<le> wd_calls w"
  shows "wd_dir (tidy m tempName preserve w) path = newest m path i (wd_calls (tidy m tempName preserve w)) x"
    "wd_calls w \<le> wd_calls (tidy m tempName preserve w)"
proof -
  obtain r v where v: "perform m (\<lambda>d. d(tempName := None)) w = (r, v)" by fastforce
  show "wd_dir (tidy m tempName preserve w) path = newest m path i (wd_calls (tidy m tempName preserve w)) x"
    "wd_calls w \<le> wd_calls (tidy m tempName preserve w)"
    using assms perform_step [OF v] arrive_track [OF assms(2,3)] by (auto simp: tidy_def v step_to_def)
qed


text \<open>No other process puts a file that has this state.\<close>

definition not_foreign :: "machine \<Rightarrow> string \<Rightarrow> output_state \<Rightarrow> bool" where
  "not_foreign m path s \<longleftrightarrow> (\<forall>f. puts m path f \<longrightarrow> \<not> sameOutputState s (present path f))"

lemma same_present: "sameOutputState s (present p f) \<longleftrightarrow> os_exists s \<and> os_info s = fn_id f \<and> os_data s = fn_data f"
  by (auto simp: sameOutputState_def present_def)

lemma present_simps [simp]:
  "os_exists (present p f)" "os_info (present p f) = fn_id f" "os_data (present p f) = fn_data f"
  by (simp_all add: present_def)

lemma same_state_at: "sameOutputState s (state_at p (Some f)) \<longleftrightarrow> sameOutputState s (present q f)"
  by (simp add: state_at_def same_present)

lemma not_foreign_newest:
  assumes "not_foreign m path s" "touched_in m path i j" "newest m path i j x = Some f"
  shows "\<not> sameOutputState s (present p f)"
  using assms newest_tail [of m path i j i x None] newest_some [of m path i j f]
  by (simp add: not_foreign_def same_present)

text \<open>
  What a path holds at the end is the newest file, if it was touched since the program last set it.
\<close>

lemma kept_if_touched:
  "newest m out i e None = Some f \<Longrightarrow> i \<le> a \<Longrightarrow> touched_in m out a e \<Longrightarrow> newest m out a e x = Some f"
  using newest_tail [of m out a e i x None] by simp

lemma kept_before:
  "newest m out i e None = Some f \<Longrightarrow> i \<le> a \<Longrightarrow> a \<le> e \<Longrightarrow> \<not> touched_in m out a e \<Longrightarrow> newest m out i a None = Some f"
  by (simp add: newest_skip)

lemma settle_first:
  assumes "Some P = newest m out i j x" "i \<le> j" "j \<le> e" "newest m out i e None = Some f"
  shows "newest m out j e y = Some f \<or> P = f \<and> touched_in m out i j \<and> \<not> touched_in m out j e"
proof (cases "touched_in m out j e")
  case True
  then show ?thesis using assms kept_if_touched [of m out i e f j y] by simp
next
  case False
  then have "newest m out i j None = Some f" using assms kept_before [of m out i e f j] by simp
  then show ?thesis
    using False assms(1) newest_some [of m out i j f] newest_tail [of m out i j i x None] by auto
qed

text \<open>
  After the exchange at \<open>a\<close> the output holds \<open>P\<close>, the newest file of time \<open>j\<close>, and the temporary
  file is \<open>C\<close>, the newest since \<open>j\<close> or the program's own.
\<close>

lemma settle:
  assumes "newest m out i j None = Some P" "Some C = newest m out j a (Some S)" "i \<le> j" "j \<le> a" "a \<le> e"
    and "newest m out i e None = Some f"
  shows "newest m out a e (Some P) = Some f \<or> C = f \<and> touched_in m out j a \<and> \<not> touched_in m out a e"
proof (cases "touched_in m out a e")
  case True
  then show ?thesis using assms kept_if_touched [of m out i e f a "Some P"] by simp
next
  case False
  then have a: "newest m out i a None = Some f" using assms kept_before [of m out i e f a] by simp
  show ?thesis
  proof (cases "touched_in m out j a")
    case True
    then show ?thesis using False a assms kept_if_touched [of m out i a f j "Some S"] by simp
  next
    case calm: False
    then have "newest m out i j None = Some f" using a assms kept_before [of m out i a f j] by simp
    then show ?thesis using assms(1) False by (simp add: newest_calm)
  qed
qed

text \<open>
  The setting of a commit: the temporary file \<open>S\<close> is the program's own, and other processes touch
  only the output and never put the very file there that the program has written.
\<close>

definition replacing :: "machine \<Rightarrow> string \<Rightarrow> string \<Rightarrow> output_state \<Rightarrow> file_node \<Rightarrow> bool" where
  "replacing m out tp staged S \<longleftrightarrow> tp \<noteq> out \<and> (\<forall>k. \<not> touched m tp k) \<and> found_files m \<and>
     staged = present tp S \<and> not_foreign m out staged"

lemma replacingD:
  assumes "replacing m out tp staged S"
  shows "tp \<noteq> out" "\<not> touched m tp k" "found_files m" "staged = present tp S" "not_foreign m out staged"
  using assms unfolding replacing_def by blast+

text \<open>The last exchange: either it fails and both files are kept, or it puts the newer file back.\<close>

lemma second_exchange_keeps:
  assumes setting: "replacing m out tp staged S"
    and run: "exchangeOutputPaths m tp out w = (r, w')" and failed: "preserve \<longleftrightarrow> (\<exists>e. r = Inl e)"
    and order: "i \<le> j" "j \<le> a" "a \<le> wd_calls w"
    and held: "wd_dir w tp = Some C" "wd_dir w out = newest m out a (wd_calls w) (Some P)"
    and prior: "newest m out i j None = Some P" "touched_in m out i j"
    and raced: "Some C = newest m out j a (Some S)" "touched_in m out j a"
    and last: "newest m out i (wd_calls (tidy m tp preserve w')) None = Some f"
    and few: "races m out i (wd_calls (tidy m tp preserve w')) \<le> 2"
  shows "wd_dir (tidy m tp preserve w') out = Some f \<or> preserve \<and> wd_dir w' tp = Some f"
proof -
  note paths = replacingD(1) [OF setting] and quiet_temp = replacingD(2) [OF setting]
  have temp_arrive [simp]: "arrive m w tp = wd_dir w tp" for w
    by (simp add: arrive_calm quiet_temp)
  let ?e = "wd_calls (tidy m tp preserve w')"
  have C_newest: "newest m out i a None = Some C"
    using raced order newest_tail [of m out j a i "Some S" None] by simp
  note settled = settle [OF prior(1) raced(1) order(1,2) _ last]
  show ?thesis
  proof (cases r)
    case (Inl e)
    then show ?thesis
      using exchange_step(1,2) [OF run] held order failed settled by (auto simp: tidy_def step_to_def arrive_track)
  next
    case (Inr v)
    have "wd_dir w' out = newest m out (wd_calls w') (wd_calls w') (Some C)" "wd_calls w' = Suc (wd_calls w)"
      using exchange_step(1,3) [OF run] Inr held by (auto simp: step_to_def)
    note final = tidy_step [OF paths [symmetric] this(1) order.refl, of preserve] this(2)
    show ?thesis
    proof (cases "touched_in m out a ?e")
      case True
      then show ?thesis using three_races [OF prior(2) raced(2)] few by force
    next
      case False
      then have "C = f" "\<not> touched_in m out (wd_calls w') ?e"
        using C_newest kept_before [OF last] order final by (auto intro: touched_in_mono)
      then show ?thesis using final failed Inr by (simp add: newest_calm)
    qed
  qed
qed

lemma restore_keeps:
  assumes setting: "replacing m out tp staged S"
    and run: "restoreOutput m tp initial staged previous w = ((preserve, err), w')"
    and out: "os_path initial = out" and order: "i \<le> j" "j \<le> wd_calls w"
    and held: "wd_dir w out = newest m out j (wd_calls w) (Some S)" "wd_dir w tp = Some P"
    and prior: "Some P = newest m out i j x" "touched_in m out i j"
    and last: "newest m out i (wd_calls (tidy m tp preserve w')) None = Some f"
    and few: "races m out i (wd_calls (tidy m tp preserve w')) \<le> 2"
  shows "wd_dir (tidy m tp preserve w') out = Some f \<or> preserve \<and> wd_dir w' tp = Some f"
proof -
  note paths = replacingD(1) [OF setting] and quiet_temp = replacingD(2) [OF setting] and files = replacingD(3) [OF setting]
    and staged = replacingD(4) [OF setting] and ours = replacingD(5) [OF setting]
  have temp_arrive [simp]: "arrive m w tp = wd_dir w tp" for w
    by (simp add: arrive_calm quiet_temp)
  let ?e = "wd_calls (tidy m tp preserve w')"
  let ?a = "Suc (wd_calls w)"
  have P: "newest m out i j None = Some P"
    using prior newest_tail [of m out i j i x None] by simp
  obtain r1 w1 where e1: "exchangeOutputPaths m tp out w = (r1, w1)" by fastforce
  have found: "arrive m w out = newest m out j ?a (Some S)" using held(1) order(2) by (rule arrive_track)
  show ?thesis
  proof (cases r1)
    case (Inl e)
    then have r: "preserve" "w' = w1" using run e1 out by (simp_all add: restoreOutput_def)
    note s1 = exchange_step [OF e1]
    have "?e = ?a" "wd_dir w' out = newest m out j ?a (Some S)" "wd_dir w' tp = Some P"
      using s1 Inl r found held by (simp_all add: tidy_def step_to_def)
    then show ?thesis
      using P last order r kept_if_touched [of m out i ?e f j "Some S"] kept_before [of m out i ?e f j]
      by (cases "touched_in m out j ?e") (auto simp: tidy_def)
  next
    case (Inr u)
    then obtain C where C: "arrive m w out = Some C" "wd_dir w1 out = Some P" "wd_dir w1 tp = Some C" "wd_calls w1 = ?a"
      using exchange_step [OF e1] held(2) paths by (auto simp: step_to_def)
    obtain restored w2 where e2: "readOutputState m out w1 = (restored, w2)" by fastforce
    obtain displaced w3 where e3: "readOutputState m tp w2 = (displaced, w3)" by fastforce
    note s2 = read_step [OF e2] and s3 = read_step [OF e3]
    have w3: "wd_calls w3 = ?a + 2" "wd_dir w3 tp = Some C" "wd_dir w3 out = newest m out ?a (wd_calls w3) (Some P)"
      using s2 s3 C by (simp_all add: step_to_def arrive_newest newest_trans newest_untouched quiet_temp)
    have displaced: "displaced = Inr d \<Longrightarrow> d = present tp C" for d
      using s3(3) [OF files] s2 C by (simp add: state_at_def)
    let ?put_back = "case (restored, displaced) of (Inr r, Inr _) \<Rightarrow> sameOutputState previous r | _ \<Rightarrow> False"
    let ?ours = "case displaced of Inr d \<Rightarrow> sameOutputState staged d | _ \<Rightarrow> False"
    have "j \<le> ?a" using order by simp
    note settled = settle [OF P found [unfolded C(1)] order(1) this _ last]
    have step: "restoreOutput m tp initial staged previous w =
       (if ?put_back \<and> ?ours then ((False, Some (ConcurrentModification [])), w3)
        else if ?put_back then
          (case exchangeOutputPaths m tp out w3 of
             (Inr _, w) \<Rightarrow> ((False, Some (ConcurrentModification [])), w)
           | (Inl _, w) \<Rightarrow> ((True, Some (ConcurrentModification [tp])), w))
        else ((True, Some (ConcurrentModification [tp])), w3))"
      by (simp add: restoreOutput_def out e1 e2 e3 Inr Let_def)
    show ?thesis
    proof (cases "?put_back \<and> \<not> ?ours")
      case True
      then have theirs: "\<not> sameOutputState staged (present tp C)"
        using displaced by (auto split: sum.splits)
      then have raced: "touched_in m out j ?a"
        using found C(1) staged by (metis newest_calm option.inject same_refl)
      obtain r3 w4 where e4: "exchangeOutputPaths m tp out w3 = (r3, w4)" by fastforce
      then have r: "preserve \<longleftrightarrow> (\<exists>e. r3 = Inl e)" "w' = w4" using run step True by (auto split: sum.splits)
      show ?thesis
        using second_exchange_keeps [OF setting e4 r(1) order(1) \<open>j \<le> ?a\<close> _ w3(2,3) P prior(2) _ raced] found C(1) w3(1) last few r(2)
        by simp
    next
      case False
      then have w': "w' = w3" "preserve \<or> ?ours" using run step by (auto split: if_splits)
      then have "wd_dir (tidy m tp preserve w') out = newest m out ?a ?e (Some P)" "?a \<le> ?e"
        using w3 tidy_step [OF paths [symmetric], of w3 m ?a "Some P" preserve] by simp_all
      then show ?thesis
        using settled w' w3(2) displaced not_foreign_newest [OF ours, of j ?a "Some S" C tp] found C order
        by (auto split: sum.splits)
    qed
  qed
qed

lemma still:
  assumes paths: "tp \<noteq> out" and "wd_dir v out = newest m out i (wd_calls v) x" "i \<le> wd_calls v"
    and "newest m out i (wd_calls (tidy m tp preserve v)) None = Some f"
  shows "wd_dir (tidy m tp preserve v) out = Some f"
  using tidy_step [OF paths [symmetric] assms(2,3)] newest_some [OF assms(4)]
    kept_if_touched [OF assms(4) order.refl] by simp

lemma replace_keeps:
  assumes setting: "replacing m out tp staged S"
    and run: "replaceExistingOutput m tp initial w = ((preserve, err), w')"
    and out: "os_path initial = out" and order: "i \<le> wd_calls w"
    and held: "wd_dir w out = newest m out i (wd_calls w) x" "wd_dir w tp = Some S"
    and original: "sameOutputState initial (state_at out x)" "not_foreign m out initial"
    and last: "newest m out i (wd_calls (tidy m tp preserve w')) None = Some f"
    and few: "races m out i (wd_calls (tidy m tp preserve w')) \<le> 2"
  shows "wd_dir (tidy m tp preserve w') out = Some f \<or> preserve \<and> wd_dir w' tp = Some f"
proof -
  note paths = replacingD(1) [OF setting] and quiet_temp = replacingD(2) [OF setting] and files = replacingD(3) [OF setting]
    and staged = replacingD(4) [OF setting] and ours = replacingD(5) [OF setting]
  have temp_arrive [simp]: "arrive m w tp = wd_dir w tp" for w
    by (simp add: arrive_calm quiet_temp)
  let ?e = "wd_calls (tidy m tp preserve w')"
  let ?j = "Suc (Suc (wd_calls w))"
  obtain r0 w1 where e0: "readOutputState m tp w = (r0, w1)" by fastforce
  obtain r1 w2 where e1: "exchangeOutputPaths m tp out w1 = (r1, w2)" by fastforce
  note s0 = read_step [OF e0] and s1 = exchange_step [OF e1]
  have w1: "wd_calls w1 = Suc (wd_calls w)" "wd_dir w1 tp = Some S" "wd_dir w1 out = newest m out i (wd_calls w1) x"
    using s0 held order by (simp_all add: step_to_def arrive_newest newest_trans newest_untouched quiet_temp)
  have found: "arrive m w1 out = newest m out i ?j x" using arrive_track [OF w1(3)] w1(1) order by simp
  show ?thesis
  proof (cases "\<exists>staged' u. r0 = Inr staged' \<and> r1 = Inr u")
    case False
    then have "\<not> preserve" "w' = w1 \<or> w' = w2 \<and> wd_dir w2 = arrive m w1"
      using run e0 e1 s1(2) by (auto simp: replaceExistingOutput_def out split: sum.splits)
    moreover have "wd_calls w2 = ?j" using s1(1) w1(1) by (simp add: step_to_def)
    ultimately show ?thesis using still [OF paths _ _ last] w1 found order by auto
  next
    case True
    then obtain u where r: "r0 = Inr staged" "r1 = Inr u"
      using s0(3) [OF files] held(2) staged by (auto simp: state_at_def)
    then obtain P where P: "newest m out i ?j x = Some P" "wd_dir w2 out = Some S" "wd_dir w2 tp = Some P" "wd_calls w2 = ?j"
      using s1 found w1 paths by (auto simp: step_to_def)
    obtain r2 w3 where e2: "readOutputState m tp w2 = (r2, w3)" by fastforce
    obtain r3 w4 where e3: "readOutputState m out w3 = (r3, w4)" by fastforce
    note s2 = read_step [OF e2] and s3 = read_step [OF e3]
    have w3: "wd_calls w3 = Suc ?j" "wd_dir w3 tp = Some P" "wd_dir w3 out = newest m out ?j (wd_calls w3) (Some S)"
      using s2 P by (simp_all add: step_to_def arrive_newest newest_trans newest_untouched quiet_temp)
    have w4: "wd_calls w4 = Suc (Suc ?j)" "wd_dir w4 tp = Some P" "wd_dir w4 out = newest m out ?j (wd_calls w4) (Some S)"
      using s3 w3 by (simp_all add: step_to_def arrive_newest newest_trans newest_untouched quiet_temp)
    have previous: "r2 = Inr s \<Longrightarrow> s = present tp P" for s
      using s2(3) [OF files] P by (simp add: state_at_def)
    have current: "r3 = Inr s \<Longrightarrow> s = state_at out (wd_dir w4 out)" for s
      using s3(2) s3(3) [OF files] by simp
    note settled = settle_first [OF P(1) [symmetric] _ _ last, of "Some S"]
    have kept: "wd_dir (tidy m tp preserve v) out = newest m out ?j (wd_calls (tidy m tp preserve v)) (Some S)"
      "?j \<le> wd_calls (tidy m tp preserve v)" if "v = w3 \<or> v = w4" for v
      using that w3 w4 tidy_step [OF paths [symmetric], of v m ?j "Some S" preserve] by auto
    have step: "replaceExistingOutput m tp initial w =
      (case r2 of Inl e \<Rightarrow> ((True, Some (Preserved tp e)), w3)
       | Inr previous \<Rightarrow> if sameOutputState initial previous then ((False, None), w3)
           else (case r3 of Inl e \<Rightarrow> ((True, Some (ConcurrentModification [tp])), w4)
             | Inr current \<Rightarrow> if \<not> sameOutputState staged current then ((False, Some (ConcurrentModification [])), w4)
                 else restoreOutput m tp initial staged previous w4))"
      by (simp add: replaceExistingOutput_def out e0 e1 e2 e3 r split: sum.splits)
    show ?thesis
    proof (cases "\<exists>previous current. r2 = Inr previous \<and> \<not> sameOutputState initial previous \<and>
        r3 = Inr current \<and> sameOutputState staged current")
      case True
      then obtain current where c: "r2 = Inr (present tp P)" "\<not> sameOutputState initial (present tp P)"
          "r3 = Inr current" "sameOutputState staged current"
        using previous by blast
      then have restore: "restoreOutput m tp initial staged (present tp P) w4 = ((preserve, err), w')"
        using run unfolding step by simp
      then have "touched_in m out i ?j"
        using original(1) P(1) c(2) by (cases "touched_in m out i ?j") (simp_all add: newest_calm same_state_at [where q = tp])
      then show ?thesis
        using restore_keeps [OF setting restore(1) out _ _ w4(3,2) P(1) [symmetric] _ last few] order w4(1) by simp
    next
      case False
      then consider (kept) "preserve" "w' = w3 \<or> w' = w4"
        | (ours) "\<not> preserve" "w' = w3" "sameOutputState initial (present tp P)"
        | (theirs) "\<not> preserve" "w' = w4" "\<not> sameOutputState staged (state_at out (wd_dir w4 out))"
        using run step previous current by (auto split: sum.splits if_splits)
      then show ?thesis
      proof cases
        case kept
        then show ?thesis using settled kept order w3 w4 by (auto simp: tidy_def)
      next
        case ours
        then show ?thesis
          using settled kept [of w3] order not_foreign_newest [OF original(2) _ P(1)] by auto
      next
        case theirs
        then have "touched_in m out ?j (wd_calls w4)"
          using w4(3) staged by (metis newest_calm same_state_at same_refl)
        then have "touched_in m out ?j ?e"
          using theirs tidy_step(2) [OF paths [symmetric] w4(3)] w4(1) by (auto intro: touched_in_mono)
        then show ?thesis using settled kept [of w4] theirs order by auto
      qed
    qed
  qed
qed


text \<open>The paths that an error names for recovery.\<close>

fun recovery_paths :: "output_error option \<Rightarrow> string list" where
  "recovery_paths (Some (ConcurrentModification paths)) = paths"
| "recovery_paths (Some (Preserved path _)) = [path]"
| "recovery_paths _ = []"

lemma restore_names:
  "restoreOutput m tp initial staged previous w = ((True, err), w') \<Longrightarrow> tp \<in> set (recovery_paths err)"
  by (auto simp: restoreOutput_def Let_def split: sum.splits prod.splits if_splits)

lemma replace_names:
  "replaceExistingOutput m tp initial w = ((True, err), w') \<Longrightarrow> tp \<in> set (recovery_paths err)"
  by (auto simp: replaceExistingOutput_def restore_names split: sum.splits prod.splits if_splits)

lemma perform_quiet: "perform m f w = (r, w') \<Longrightarrow> (\<And>d. f d path = d path) \<Longrightarrow> quiet m path w w'"
  using perform_step [of m f w r w'] by (auto intro: step_quiet)

lemma ignored_quiet [simp]: "quiet m path w (ignored m w)"
  by (cases "perform m (\<lambda>d. d) w") (simp add: perform_quiet)

lemma fillTemp_spec:
  assumes "fillTemp m tp data w = (r, w')" "tp \<noteq> out"
  shows "quiet m out w w'"
    "r = None \<Longrightarrow> \<forall>k. \<not> touched m tp k \<Longrightarrow> wd_dir w' tp = map_option (\<lambda>f. f\<lparr>fn_data := data\<rparr>) (wd_dir w tp)"
proof -
  obtain r1 w1 where e1: "perform m (\<lambda>d. d) w = (r1, w1)" by fastforce
  obtain r2 w2 where e2: "perform m (\<lambda>d. d(tp := map_option (\<lambda>f. f\<lparr>fn_data := data\<rparr>) (d tp))) w1 = (r2, w2)" by fastforce
  obtain r3 w3 where e3: "perform m (\<lambda>d. d) w2 = (r3, w3)" by fastforce
  obtain r4 w4 where e4: "perform m (\<lambda>d. d) w3 = (r4, w4)" by fastforce
  have "quiet m out w w1" "quiet m out w1 w2" "quiet m out w2 w3" "quiet m out w3 w4"
    using perform_quiet [OF e1, of out] perform_quiet [OF e2, of out] perform_quiet [OF e3, of out]
      perform_quiet [OF e4, of out] assms(2) by simp_all
  then have q: "quiet m out w w1" "quiet m out w w2" "quiet m out w w3" "quiet m out w w4"
    by (blast intro: quiet_trans)+
  have w': "w' \<in> {ignored m w1, ignored m w2, ignored m w3, w4}"
    using assms(1) by (auto simp: fillTemp_def e1 e2 e3 e4 split: option.splits)
  then show "quiet m out w w'" using q by (auto intro: quiet_trans [OF _ ignored_quiet] simp del: quiet_refl)
  show "wd_dir w' tp = map_option (\<lambda>f. f\<lparr>fn_data := data\<rparr>) (wd_dir w tp)" if "r = None" "\<forall>k. \<not> touched m tp k"
  proof -
    have "r1 = None" "r2 = None" "r3 = None" "r4 = None" "w' = w4"
      using assms(1) that(1) by (auto simp: fillTemp_def e1 e2 e3 e4 split: option.splits)
    then show ?thesis
      using that(2) perform_step(2) [OF e1] perform_step(2) [OF e2] perform_step(2) [OF e3] perform_step(2) [OF e4]
      by (simp add: arrive_calm)
  qed
qed

lemma installNew_spec:
  assumes "installNew m tp out w = (r, w')" "tp \<noteq> out"
  shows "step_to m w w'" "r \<noteq> None \<Longrightarrow> wd_dir w' out = arrive m w out"
    "r = None \<Longrightarrow> arrive m w out = None \<and> wd_dir w' out = arrive m w tp \<and> arrive m w tp \<noteq> None"
proof -
  obtain t v where call: "syscall m (\<lambda>d. case d tp of None \<Rightarrow> (Inl ENOENT, d)
      | Some f \<Rightarrow> if d out \<noteq> None then (Inl EEXIST, d) else (Inr (), d(out \<mapsto> f))) w = (t, v)" by fastforce
  note step = syscall_step [OF call]
  have w': "v = w'" "r = None \<longleftrightarrow> t = Inr ()"
    using assms call by (auto simp: installNew_def split: sum.splits)
  show "step_to m w w'" using step(1) w' by simp
  show "r \<noteq> None \<Longrightarrow> wd_dir w' out = arrive m w out"
    "r = None \<Longrightarrow> arrive m w out = None \<and> wd_dir w' out = arrive m w tp \<and> arrive m w tp \<noteq> None"
    using step(2,3) w' by (auto split: option.splits if_splits)
qed

lemma createTemp_spec:
  assumes "createTemp m w = (r, w')"
  shows "step_to m w w'" "path \<noteq> temp_names m (wd_calls w) \<Longrightarrow> wd_dir w' path = arrive m w path"
    "r = Inr tp \<Longrightarrow> tp = temp_names m (wd_calls w) \<and> arrive m w tp = None \<and>
       wd_dir w' tp = Some \<lparr>fn_id = new_ids m (wd_calls w), fn_data = [], fn_regular = True\<rparr>"
  using syscall_step [OF assms [unfolded createTemp_def Let_def]]
  by (auto split: option.splits if_splits)

lemma step_track:
  assumes "step_to m w w'" "wd_dir w' path = arrive m w path" "wd_dir w path = newest m path i (wd_calls w) x" "i \<le> wd_calls w"
  shows "wd_dir w' path = newest m path i (wd_calls w') x" "i \<le> wd_calls w'"
  using assms arrive_track [OF assms(3,4)] by (simp_all add: step_to_def)

lemma quiet_track:
  assumes "quiet m path w w'" "wd_dir w path = newest m path i (wd_calls w) x" "i \<le> wd_calls w"
  shows "wd_dir w' path = newest m path i (wd_calls w') x" "i \<le> wd_calls w'"
  using assms by (simp_all add: quiet_def newest_trans)

lemma track_kept:
  "wd_dir w path = newest m path i (wd_calls w) x \<Longrightarrow> newest m path i (wd_calls w) None = Some f \<Longrightarrow> wd_dir w path = Some f"
  using newest_some [of m path i "wd_calls w" f] kept_if_touched [of m path i "wd_calls w" f i x] by simp

lemma install_keeps:
  assumes run: "installNew m tp out w = (err, w')" and paths: "tp \<noteq> out"
    and held: "wd_dir w out = newest m out i (wd_calls w) x" "i \<le> wd_calls w"
    and last: "newest m out i (wd_calls (tidy m tp False w')) None = Some f"
  shows "wd_dir (tidy m tp False w') out = Some f"
proof (cases err)
  case (Some e)
  note spec = installNew_spec [OF run paths]
  have "wd_dir w' out = arrive m w out" using spec(2) Some by simp
  from step_track [OF spec(1) this held] show ?thesis using still [OF paths _ _ last] by simp
next
  case None
  note spec = installNew_spec [OF run paths]
  obtain S where S: "wd_dir w' out = Some S" using spec(3) [OF None] by auto
  note final = tidy_step [OF paths [symmetric], of w' m "wd_calls w'" "Some S" False]
  have le: "i \<le> wd_calls w'" using spec(1) held(2) by (simp add: step_to_def)
  have "touched_in m out (wd_calls w') (wd_calls (tidy m tp False w'))"
  proof (rule ccontr)
    assume calm: "\<not> ?thesis"
    then have "newest m out i (wd_calls w') None = Some f" using kept_before [OF last le] final S by simp
    then have "newest m out i (wd_calls w') x = Some f"
      using newest_some kept_if_touched by (metis order.refl)
    then show False using spec(1) spec(3) [OF None] arrive_track [OF held] by (simp add: step_to_def)
  qed
  then show ?thesis using kept_if_touched [OF last le] final S by simp
qed

lemma commit_keeps:
  assumes run: "commitOutput m initial data w = (err, w')"
    and others: "\<forall>k. \<forall>a\<in>set (acts m k). act_path a = os_path initial" "found_files m"
    and ours: "\<And>f k. puts m (os_path initial) f \<Longrightarrow> fn_data f \<noteq> data \<or> fn_id f \<noteq> new_ids m k" "not_foreign m (os_path initial) initial"
    and paths: "\<And>k. temp_names m k \<noteq> os_path initial"
    and held: "wd_dir w (os_path initial) = newest m (os_path initial) i (wd_calls w) x" "i \<le> wd_calls w"
      "sameOutputState initial (state_at (os_path initial) x)"
    and last: "newest m (os_path initial) i (wd_calls w') None = Some f"
    and few: "races m (os_path initial) i (wd_calls w') \<le> 2"
  shows "wd_dir w' (os_path initial) = Some f \<or> (\<exists>p\<in>set (recovery_paths err). wd_dir w' p = Some f)"
proof -
  let ?out = "os_path initial"
  obtain r1 w1 where e1: "createTemp m w = (r1, w1)" by fastforce
  note s1 = createTemp_spec [OF e1]
  note t1 = step_track [OF s1(1) s1(2) held(1,2), OF paths [symmetric]]
  show ?thesis
  proof (cases r1)
    case (Inl e)
    then show ?thesis using run e1 track_kept [OF t1(1)] last by (simp add: commitOutput_def)
  next
    case (Inr tp)
    have tp: "tp \<noteq> ?out" "\<not> touched m tp k" for k
      using s1(3) [OF Inr] paths others(1) by (auto simp: touched_def)
    obtain r2 w2 where e2: "fillTemp m tp data w1 = (r2, w2)" by fastforce
    note s2 = fillTemp_spec [OF e2 tp(1)] and t2 = quiet_track [OF fillTemp_spec(1) [OF e2 tp(1)] t1]
    show ?thesis
    proof (cases r2)
      case (Some e)
      then have "w' = tidy m tp False w2" using run e1 Inr e2 by (simp add: commitOutput_def)
      then show ?thesis using still [OF tp(1) t2, of False f] last by simp
    next
      case None
      define S where "S = \<lparr>fn_id = new_ids m (wd_calls w), fn_data = data, fn_regular = True\<rparr>"
      have S: "wd_dir w2 tp = Some S" using s2(2) [OF None] tp(2) conjunct2 [OF conjunct2 [OF s1(3) [OF Inr]]] by (simp add: S_def)
      have "\<not> sameOutputState (present tp S) (present ?out g)" if "puts m ?out g" for g
        using ours(1) [OF that, of "wd_calls w"] by (auto simp: same_present S_def)
      then have setting: "replacing m ?out tp (present tp S) S"
        using tp others(2) by (simp add: replacing_def not_foreign_def)
      obtain preserve v where v: "w' = tidy m tp preserve v"
        "if os_exists initial then replaceExistingOutput m tp initial w2 = ((preserve, err), v)
         else \<not> preserve \<and> installNew m tp ?out w2 = (err, v)"
        using run e1 Inr e2 None by (auto simp: commitOutput_def Let_def split: prod.splits if_splits)
      show ?thesis
      proof (cases "os_exists initial")
        case True
        then have run': "replaceExistingOutput m tp initial w2 = ((preserve, err), v)" using v(2) by simp
        note kept = replace_keeps [OF setting this refl t2(2,1) S held(3) ours(2) last [unfolded v(1)] few [unfolded v(1)]]
        then show ?thesis using replace_names run' by (cases preserve) (auto simp: v(1) tidy_def)
      next
        case False
        then show ?thesis using install_keeps [OF _ tp(1) t2] v last by simp
      qed
    qed
  qed
qed


section \<open>Waiting for the lock\<close>

lemma syscall_quiet: "syscall m (\<lambda>d. (Inr u, d)) w = (r, w') \<Longrightarrow> quiet m path w w'"
  using syscall_step [of m "\<lambda>d. (Inr u, d)" w r w'] by (auto intro: step_quiet split: option.splits)

lemma syscall_clock: "syscall m f w = (r, w') \<Longrightarrow> wd_calls w' = Suc (wd_calls w) \<and> wd_clock w \<le> wd_clock w'"
  by (auto simp: syscall_def Let_def split: prod.splits)

lemma ignored_clock: "wd_clock w \<le> wd_clock (ignored m w)"
  by (auto simp: perform_def dest: syscall_clock split: prod.splits sum.splits)

lemma tryLockFile_spec:
  assumes "tryLockFile m w = Some y"
  shows "quiet m path w (snd y) \<and> wd_clock w \<le> wd_clock (snd y)"
proof (rule tryLockFile.raw_induct [where P = "\<lambda>m w y. quiet m path w (snd y) \<and> wd_clock w \<le> wd_clock (snd y)",
    OF _ assms], goal_cases)
  case (1 self m w y)
  obtain r v where v: "syscall m (\<lambda>d. (Inr (), d)) w = (r, v)" by fastforce
  have "quiet m path w v" "wd_clock w \<le> wd_clock v"
    using syscall_quiet [OF v] syscall_clock [OF v] by simp_all
  then show ?case
    using 1 v quiet_trans [of m path w v "snd y"] by (auto split: sum.splits if_splits dest!: 1(1))
qed

lemma lockLoop_spec:
  assumes "lockLoop m deadline w = Some y"
  shows "quiet m path w (snd y) \<and> (fst y = Some LockTimeout \<longrightarrow> deadline \<le> wd_clock (snd y)) \<and>
    (\<forall>e. fst y = Some e \<longrightarrow> e = LockTimeout \<or> (\<exists>n. e = SystemError n))"
proof (rule lockLoop.raw_induct
    [where P = "\<lambda>m deadline w y. quiet m path w (snd y) \<and> (fst y = Some LockTimeout \<longrightarrow> deadline \<le> wd_clock (snd y)) \<and>
      (\<forall>e. fst y = Some e \<longrightarrow> e = LockTimeout \<or> (\<exists>n. e = SystemError n))",
     OF _ assms], goal_cases)
  case (1 loop m deadline w y)
  obtain r v where v: "tryLockFile m w = Some (r, v)" using 1(2) by (auto split: option.splits)
  have q: "quiet m path w v" using tryLockFile_spec [OF v, of path] by simp
  show ?case
  proof (cases "r = Inr False \<and> \<not> deadline \<le> wd_clock v")
    case True
    then have "loop m deadline (v\<lparr>wd_clock := wd_clock v + min 10000000 (deadline - wd_clock v)\<rparr>) = Some y"
      using 1(2) v by simp
    from 1(1) [OF this] show ?thesis using q by (auto intro: quiet_trans)
  next
    case False
    then show ?thesis
      using 1(2) v q quiet_trans [OF q ignored_quiet] ignored_clock [of v m] by (auto split: sum.splits if_splits intro: le_trans)
  qed
qed

lemma tryLockFile_returns:
  assumes "\<forall>k. \<exists>j\<ge>k. faults m j \<noteq> Some EINTR"
  shows "\<exists>y. tryLockFile m w = Some y"
proof -
  obtain j where "j \<ge> wd_calls w" "faults m j \<noteq> Some EINTR" using assms by blast
  then show ?thesis
  proof (induction "j - wd_calls w" arbitrary: w rule: less_induct)
    case less
    obtain r v where v: "syscall m (\<lambda>d. (Inr (), d)) w = (r, v)" by fastforce
    show ?case
    proof (cases "r = Inl EINTR")
      case True
      then have "wd_calls w \<noteq> j" using less.prems syscall_step(2) [OF v] by (auto split: option.splits)
      then have "\<exists>y. tryLockFile m v = Some y" using less syscall_clock [OF v] by simp
      then show ?thesis using v True by (simp add: tryLockFile.simps [of m w])
    next
      case False
      then show ?thesis using v by (subst tryLockFile.simps) (auto split: sum.splits)
    qed
  qed
qed

lemma lockLoop_returns:
  assumes "\<forall>k. \<exists>j\<ge>k. faults m j \<noteq> Some EINTR"
  shows "\<exists>y. lockLoop m deadline w = Some y"
proof (induction "deadline - wd_clock w" arbitrary: w rule: less_induct)
  case less
  obtain r v where v: "tryLockFile m w = Some (r, v)" using tryLockFile_returns [OF assms, of w] by auto
  have "wd_clock w \<le> wd_clock v" using tryLockFile_spec [OF v] by simp
  then show ?case
    using less [of "v\<lparr>wd_clock := wd_clock v + min 10000000 (deadline - wd_clock v)\<rparr>"] v
    by (cases r) (auto simp: lockLoop.simps [of m deadline w])
qed

lemma acquire_quiet:
  assumes "acquireOutputLock m lockPath w = Some (r, w')" "path \<noteq> lockPath"
  shows "quiet m path w w'" "r = Some LockTimeout \<Longrightarrow> wd_clock w + outputLockTimeout \<le> wd_clock w'"
    "r = Some e \<Longrightarrow> e = LockTimeout \<or> (\<exists>n. e = SystemError n)"
proof -
  obtain t v where v: "syscall m (\<lambda>d. (Inr (), d(lockPath := Some (case d lockPath of
      None \<Rightarrow> \<lparr>fn_id = new_ids m (wd_calls w), fn_data = [], fn_regular = True\<rparr> | Some f \<Rightarrow> f)))) w = (t, v)" by fastforce
  have q: "quiet m path w v" "wd_clock w \<le> wd_clock v"
    using syscall_step [OF v] syscall_clock [OF v] assms(2) by (auto intro: step_quiet split: option.splits)
  show "quiet m path w w'" "r = Some LockTimeout \<Longrightarrow> wd_clock w + outputLockTimeout \<le> wd_clock w'"
    "r = Some e \<Longrightarrow> e = LockTimeout \<or> (\<exists>n. e = SystemError n)"
    using assms(1) v q lockLoop_spec [of m "wd_clock v + outputLockTimeout" v "(r, w')" path] quiet_trans [OF q(1)]
    by (auto simp: acquireOutputLock_def acquireOutputLockTimeout_def split: sum.splits)
qed

text \<open>
  C29. The lock of the output is waited for at most ten seconds: when system calls are not interrupted
  for ever, acquiring it returns, with the lock or an error, and reports a timeout only after the
  whole time has passed.
\<close>

theorem acquireOutputLock_returns:
  assumes "\<forall>k. \<exists>j\<ge>k. faults m j \<noteq> Some EINTR"
  shows "\<exists>r w'. acquireOutputLock m lockPath w = Some (r, w') \<and>
    (r = Some LockTimeout \<longrightarrow> wd_clock w + outputLockTimeout \<le> wd_clock w')"
proof -
  have "\<exists>y. acquireOutputLock m lockPath w = Some y"
    using lockLoop_returns [OF assms]
    by (auto simp: acquireOutputLock_def acquireOutputLockTimeout_def split: prod.splits sum.splits)
  then show ?thesis
    using acquire_quiet(2) [of m lockPath w _ _ "CHR ''x'' # lockPath"] by fastforce
qed

lemma step_calls: "step_to m w w' \<Longrightarrow> wd_calls w \<le> wd_calls w'"
  by (simp add: step_to_def)

lemma restore_calls: "restoreOutput m tp initial staged previous w = (r, w') \<Longrightarrow> wd_calls w \<le> wd_calls w'"
  by (auto simp: restoreOutput_def Let_def dest!: step_calls [OF exchange_step(1)] step_calls [OF read_step(1)]
      split: prod.splits sum.splits if_splits)

lemma replace_calls: "replaceExistingOutput m tp initial w = (r, w') \<Longrightarrow> wd_calls w \<le> wd_calls w'"
  by (auto simp: replaceExistingOutput_def dest!: step_calls [OF exchange_step(1)] step_calls [OF read_step(1)] restore_calls
      split: prod.splits sum.splits if_splits)

lemma tidy_calls: "wd_calls w \<le> wd_calls (tidy m tp preserve w)"
  using step_calls [OF perform_step(1)] by (cases "perform m (\<lambda>d. d(tp := None)) w") (auto simp: tidy_def)

lemma commit_calls:
  assumes "commitOutput m initial data w = (err, w')" "\<And>k. temp_names m k \<noteq> os_path initial"
  shows "wd_calls w \<le> wd_calls w'"
proof -
  obtain r1 w1 where e1: "createTemp m w = (r1, w1)" by fastforce
  note c1 = step_calls [OF createTemp_spec(1) [OF e1]]
  show ?thesis
  proof (cases r1)
    case (Inl e)
    then show ?thesis using assms(1) e1 c1 by (simp add: commitOutput_def)
  next
    case (Inr tp)
    then have tp: "tp \<noteq> os_path initial" using createTemp_spec(3) [OF e1] assms(2) by simp
    obtain r2 w2 where e2: "fillTemp m tp data w1 = (r2, w2)" by fastforce
    have c2: "wd_calls w \<le> wd_calls w2" using fillTemp_spec(1) [OF e2 tp] c1 by (simp add: quiet_def)
    obtain r3 w3 where e3: "installNew m tp (os_path initial) w2 = (r3, w3)" by fastforce
    obtain r4 w4 where e4: "replaceExistingOutput m tp initial w2 = (r4, w4)" by fastforce
    have "wd_calls w \<le> wd_calls w3" "wd_calls w \<le> wd_calls w4"
      using step_calls [OF installNew_spec(1) [OF e3 tp]] replace_calls [OF e4] c2 by simp_all
    then show ?thesis
      using assms(1) e1 Inr e2 c2 e3 e4
      by (auto simp: commitOutput_def Let_def split: prod.splits option.splits if_splits intro: le_trans [OF _ tidy_calls])
  qed
qed

lemma locked_calls:
  assumes "writeLocked m initial data check w = (err, w')" "\<And>k. temp_names m k \<noteq> os_path initial"
  shows "wd_calls w \<le> wd_calls w'"
proof -
  obtain r1 w1 where e1: "readOutputState m (os_path initial) w = (r1, w1)" by fastforce
  have "w' = w1 \<or> commitOutput m initial data w1 = (err, w')"
    using assms(1) e1 by (auto simp: writeLocked_def split: sum.splits if_splits)
  then show ?thesis using step_calls [OF read_step(1) [OF e1]] commit_calls assms(2) le_trans by blast
qed

lemma locked_keeps:
  assumes run: "writeLocked m initial data False w = (err, w')"
    and others: "\<forall>k. \<forall>a\<in>set (acts m k). act_path a = os_path initial" "found_files m"
    and ours: "\<And>f k. puts m (os_path initial) f \<Longrightarrow> fn_data f \<noteq> data \<or> fn_id f \<noteq> new_ids m k" "not_foreign m (os_path initial) initial"
    and paths: "\<And>k. temp_names m k \<noteq> os_path initial"
    and held: "wd_dir w (os_path initial) = newest m (os_path initial) i (wd_calls w) x" "i \<le> wd_calls w"
    and last: "newest m (os_path initial) i (wd_calls w') None = Some f"
    and few: "races m (os_path initial) i (wd_calls w') \<le> 2"
  shows "wd_dir w' (os_path initial) = Some f \<or> (\<exists>p\<in>set (recovery_paths err). wd_dir w' p = Some f)"
proof -
  let ?out = "os_path initial"
  obtain r1 w1 where e1: "readOutputState m ?out w = (r1, w1)" by fastforce
  note s1 = read_step [OF e1]
  have t1: "wd_dir w1 ?out = newest m ?out i (wd_calls w1) x" "i \<le> wd_calls w1"
    using step_track [OF s1(1) _ held] s1(2) by simp_all
  show ?thesis
  proof (cases "w' = w1")
    case True
    then show ?thesis using track_kept [OF t1(1)] last by simp
  next
    case False
    then have commit: "commitOutput m initial data w1 = (err, w')" "sameOutputState initial (state_at ?out (wd_dir w1 ?out))"
      using run e1 s1(2) s1(3) [OF others(2)] by (auto simp: writeLocked_def split: sum.splits if_splits)
    show ?thesis
    proof (cases "touched_in m ?out (wd_calls w1) (wd_calls w')")
      case True
      then have "newest m ?out (wd_calls w1) (wd_calls w') None = Some f"
        using kept_if_touched [OF last t1(2)] by simp
      moreover have "races m ?out (wd_calls w1) (wd_calls w') \<le> 2"
        using few races_split [OF t1(2), of "wd_calls w'" m ?out] True by (auto simp: touched_in_def)
      ultimately show ?thesis
        using commit_keeps [OF commit(1) others ours paths _ order.refl commit(2)] by simp
    next
      case False
      have "wd_calls w1 \<le> wd_calls w'" using commit_calls [OF commit(1) paths] .
      then have "newest m ?out i (wd_calls w1) None = Some f" using kept_before [OF last t1(2) _ False] by simp
      then have "wd_dir w1 ?out = Some f" "puts m ?out f" using track_kept [OF t1(1)] newest_some by auto
      then show ?thesis using commit(2) ours(2) by (simp add: not_foreign_def state_at_def)
    qed
  qed
qed

lemma quiet_keeps:
  assumes q: "quiet m out v v'"
    and kept: "\<And>f. newest m out i (wd_calls v) None = Some f \<Longrightarrow> races m out i (wd_calls v) \<le> 2 \<Longrightarrow>
      wd_dir v out = Some f \<or> (\<exists>p\<in>set ps. wd_dir v p = Some f)"
    and others: "\<And>p. p \<noteq> out \<Longrightarrow> wd_dir v' p = wd_dir v p"
    and order: "i \<le> wd_calls v"
    and last: "newest m out i (wd_calls v') None = Some f" and few: "races m out i (wd_calls v') \<le> 2"
  shows "wd_dir v' out = Some f \<or> (\<exists>p\<in>set ps. wd_dir v' p = Some f)"
proof (cases "touched_in m out (wd_calls v) (wd_calls v')")
  case True
  then show ?thesis using q kept_if_touched [OF last order] by (simp add: quiet_def)
next
  case False
  have le: "wd_calls v \<le> wd_calls v'" using q by (simp add: quiet_def)
  have "newest m out i (wd_calls v) None = Some f" using kept_before [OF last order le False] .
  moreover have "races m out i (wd_calls v) \<le> 2" using races_split [OF order le, of m out] few by simp
  moreover have "wd_dir v' out = wd_dir v out" using q False by (simp add: quiet_def newest_calm)
  ultimately show ?thesis using kept [of f] others by metis
qed

lemma ignored_others: "\<forall>k. \<not> touched m path k \<Longrightarrow> wd_dir (ignored m w) path = wd_dir w path"
  using ignored_quiet [of m path w] by (simp add: quiet_def newest_untouched)

text \<open>
  C16. The generator never destroys a newer output: when other processes replace or remove the output
  at most twice while it is being written (under any interleaving and with any failing system
  calls), the file put there last is at the end still the output, or under a path that the returned
  error names.
\<close>

theorem newest_output_kept:
  assumes "writeOutput m lockPath initial data False w = Some (err, w')"
    and "\<forall>k. \<forall>a\<in>set (acts m k). act_path a = os_path initial" "found_files m"
    and "\<forall>f k. puts m (os_path initial) f \<longrightarrow> fn_data f \<noteq> data \<or> fn_id f \<noteq> new_ids m k" "not_foreign m (os_path initial) initial"
    and "\<forall>k. temp_names m k \<noteq> os_path initial" "lockPath \<noteq> os_path initial"
    and "races m (os_path initial) (wd_calls w) (wd_calls w') \<le> 2"
    and "newest m (os_path initial) (wd_calls w) (wd_calls w') None = Some f"
  shows "wd_dir w' (os_path initial) = Some f \<or> (\<exists>p\<in>set (recovery_paths err). wd_dir w' p = Some f)"
proof -
  let ?out = "os_path initial"
  obtain r1 w1 where e1: "acquireOutputLock m lockPath w = Some (r1, w1)"
    using assms(1) by (auto simp: writeOutput_def split: option.splits)
  note t1 = quiet_track [OF acquire_quiet(1) [OF e1 assms(7) [symmetric]], of "wd_calls w" "wd_dir w ?out"]
  show ?thesis
  proof (cases r1)
    case (Some e)
    then show ?thesis using assms(1,9) e1 track_kept [OF t1(1)] by (simp add: writeOutput_def)
  next
    case None
    obtain v where e2: "writeLocked m initial data False w1 = (err, v)" and w': "w' = ignored m (ignored m v)"
      using assms(1) e1 None by (auto simp: writeOutput_def split: prod.splits)
    have q: "quiet m ?out v w'" unfolding w' by (rule quiet_trans [OF ignored_quiet ignored_quiet])
    have kept: "wd_dir v ?out = Some f \<or> (\<exists>p\<in>set (recovery_paths err). wd_dir v p = Some f)"
      if "newest m ?out (wd_calls w) (wd_calls v) None = Some f" "races m ?out (wd_calls w) (wd_calls v) \<le> 2" for f
      using locked_keeps [OF e2 assms(2,3) _ assms(5) _ t1 that] assms(4,6) by simp
    have others: "wd_dir w' p = wd_dir v p" if "p \<noteq> ?out" for p
      unfolding w' using assms(2) that by (simp add: ignored_others touched_def image_iff)
    have "wd_calls w \<le> wd_calls v"
      using locked_calls [OF e2] assms(6) t1(2) by simp
    then show ?thesis using quiet_keeps [OF q kept others _ assms(9,8)] by simp
  qed
qed


section \<open>The output is replaced in one call\<close>

definition steady :: "string \<Rightarrow> (directory \<times> directory) list \<Rightarrow> bool" where
  "steady path steps \<longleftrightarrow> (\<forall>(before, after)\<in>set steps. after path = before path)"

text \<open>
  A call after which the output has the data: it had them already, or it was absent or the initial
  file and is replaced.
\<close>

definition installs :: "output_state \<Rightarrow> bytes \<Rightarrow> directory \<Rightarrow> directory \<Rightarrow> bool" where
  "installs initial data before after \<longleftrightarrow>
     (\<exists>f. after (os_path initial) = Some f \<and> fn_data f = data) \<and>
     (after (os_path initial) = before (os_path initial) \<or>
      sameOutputState initial (state_at (os_path initial) (before (os_path initial))))"

definition committed :: "output_state \<Rightarrow> bytes \<Rightarrow> world \<Rightarrow> world \<Rightarrow> bool" where
  "committed initial data w w' \<longleftrightarrow> (\<exists>earlier before after later.
     wd_trace w' = wd_trace w @ earlier @ (before, after) # later \<and>
     steady (os_path initial) earlier \<and> installs initial data before after \<and> steady (os_path initial) later)"

lemma steady_append: "steady path (xs @ ys) \<longleftrightarrow> steady path xs \<and> steady path ys"
  by (auto simp: steady_def)

lemma quiet_steady: "quiet m path w w' \<Longrightarrow> \<exists>steps. wd_trace w' = wd_trace w @ steps \<and> steady path steps"
  by (simp add: quiet_def steady_def)

lemma committed_quiet:
  assumes "quiet m (os_path initial) u v" "committed initial data v w" "quiet m (os_path initial) w x"
  shows "committed initial data u x"
proof -
  obtain xs where "wd_trace v = wd_trace u @ xs" "steady (os_path initial) xs" using quiet_steady [OF assms(1)] by blast
  moreover obtain zs where "wd_trace x = wd_trace w @ zs" "steady (os_path initial) zs" using quiet_steady [OF assms(3)] by blast
  moreover obtain ys before after later where "wd_trace w = wd_trace v @ ys @ (before, after) # later"
      "steady (os_path initial) ys" "installs initial data before after" "steady (os_path initial) later"
    using assms(2) by (auto simp: committed_def)
  ultimately have "wd_trace x = wd_trace u @ (xs @ ys) @ (before, after) # (later @ zs)"
    "steady (os_path initial) (xs @ ys)" "installs initial data before after" "steady (os_path initial) (later @ zs)"
    by (simp_all add: steady_append)
  then show ?thesis unfolding committed_def by blast
qed

lemma step_committed: "step_to m w w' \<Longrightarrow> installs initial data (arrive m w) (wd_dir w') \<Longrightarrow> committed initial data w w'"
  unfolding committed_def step_to_def by (intro exI [of _ "[]"] exI) (auto simp: steady_def)

lemma tidy_quiet: "tp \<noteq> path \<Longrightarrow> quiet m path w (tidy m tp preserve w)"
  by (cases "perform m (\<lambda>d. d(tp := None)) w") (auto simp: tidy_def intro: perform_quiet)

lemma read_quiet: "readOutputState m p w = (r, w') \<Longrightarrow> quiet m path w w'"
  using read_step [of m p w r w'] by (auto intro: step_quiet)

lemma restore_fails: "restoreOutput m tp initial staged previous w \<noteq> ((preserve, None), w')"
  by (auto simp: restoreOutput_def Let_def split: prod.splits sum.splits if_splits)

lemma replace_commits:
  assumes run: "replaceExistingOutput m tp initial w = ((preserve, None), w')"
    and setting: "tp \<noteq> os_path initial" "\<forall>k. \<not> touched m tp k" "found_files m"
    and S: "wd_dir w tp = Some S" "fn_data S = data"
  shows "committed initial data w w'"
proof -
  let ?out = "os_path initial"
  obtain r0 w1 where e0: "readOutputState m tp w = (r0, w1)" by fastforce
  obtain r1 w2 where e1: "exchangeOutputPaths m tp ?out w1 = (r1, w2)" by fastforce
  obtain r2 w3 where e2: "readOutputState m tp w2 = (r2, w3)" by fastforce
  obtain staged u previous where r: "r0 = Inr staged" "r1 = Inr u" "r2 = Inr previous"
      "sameOutputState initial previous" "w' = w3"
    using run e0 e1 e2 by (auto simp: replaceExistingOutput_def restore_fails split: sum.splits prod.splits if_splits)
  have temp: "arrive m v tp = wd_dir v tp" for v using setting(2) by (simp add: arrive_calm)
  have w1: "wd_dir w1 tp = Some S" using read_step(2) [OF e0] S temp by simp
  note s1 = exchange_step(1) [OF e1] exchange_step(3) [OF e1 r(2)]
  obtain P where P: "arrive m w1 ?out = Some P" "wd_dir w2 ?out = Some S" "wd_dir w2 tp = Some P"
    using s1(2) w1 temp setting(1) by auto
  have "previous = present tp P" using read_step(3) [OF e2 setting(3) r(3)] temp P(3) by (simp add: state_at_def)
  then have "installs initial data (arrive m w1) (wd_dir w2)"
    using P r(4) S(2) by (simp add: installs_def same_state_at [where q = tp])
  then show ?thesis
    using committed_quiet [OF read_quiet [OF e0] step_committed [OF s1(1)] read_quiet [OF e2]] r(5) by simp
qed

lemma commit_commits:
  assumes run: "commitOutput m initial data w = (None, w')"
    and others: "\<forall>k. \<forall>a\<in>set (acts m k). act_path a = os_path initial" "found_files m"
    and paths: "\<forall>k. temp_names m k \<noteq> os_path initial"
  shows "committed initial data w w'"
proof -
  let ?out = "os_path initial"
  obtain r1 w1 where e1: "createTemp m w = (r1, w1)" by fastforce
  then obtain tp where r1: "r1 = Inr tp" using run by (cases r1) (simp_all add: commitOutput_def)
  note s1 = createTemp_spec [OF e1]
  have tp: "tp \<noteq> ?out" "\<forall>k. \<not> touched m tp k" using s1(3) [OF r1] paths others(1) by (auto simp: touched_def)
  have q1: "quiet m ?out w w1" using s1(1) s1(2) [of ?out] paths by (auto intro!: step_quiet simp: eq_commute)
  obtain r2 w2 where e2: "fillTemp m tp data w1 = (r2, w2)" by fastforce
  then have r2: "r2 = None" using run e1 r1 by (cases r2) (simp_all add: commitOutput_def)
  note s2 = fillTemp_spec(1) [OF e2 tp(1)] fillTemp_spec(2) [OF e2 tp(1) r2 tp(2)]
  obtain S where S: "wd_dir w2 tp = Some S" "fn_data S = data" using s2(2) s1(3) [OF r1] by auto
  obtain preserve v where v: "w' = tidy m tp preserve v"
    "if os_exists initial then replaceExistingOutput m tp initial w2 = ((preserve, None), v)
     else installNew m tp ?out w2 = (None, v)"
    using run e1 r1 e2 r2 by (auto simp: commitOutput_def Let_def split: prod.splits if_splits)
  have "committed initial data w2 v"
  proof (cases "os_exists initial")
    case True
    then show ?thesis using replace_commits [OF _ tp others(2) S] v(2) by simp
  next
    case False
    then have "installNew m tp ?out w2 = (None, v)" using v(2) by simp
    note spec = installNew_spec [OF this tp(1)]
    then have "installs initial data (arrive m w2) (wd_dir v)"
      using S tp(2) False by (simp add: installs_def arrive_calm state_at_def absent_def sameOutputState_def)
    then show ?thesis using step_committed spec(1) by blast
  qed
  then show ?thesis
    unfolding v(1) using committed_quiet [OF quiet_trans [OF q1 s2(1)] _ tidy_quiet [OF tp(1)]] by blast
qed

lemma written_commits:
  assumes "writeOutput m lockPath initial data False w = Some (None, w')"
    and "\<forall>k. \<forall>a\<in>set (acts m k). act_path a = os_path initial" "found_files m"
    and "\<forall>k. temp_names m k \<noteq> os_path initial" "lockPath \<noteq> os_path initial"
  shows "committed initial data w w'"
proof -
  let ?out = "os_path initial"
  obtain r1 w1 where e1: "acquireOutputLock m lockPath w = Some (r1, w1)"
    using assms(1) by (auto simp: writeOutput_def split: option.splits)
  then have r1: "r1 = None" using assms(1) by (cases r1) (simp_all add: writeOutput_def)
  obtain v where e2: "writeLocked m initial data False w1 = (None, v)" and w': "w' = ignored m (ignored m v)"
    using assms(1) e1 r1 by (auto simp: writeOutput_def split: prod.splits)
  obtain r2 w2 where e3: "readOutputState m ?out w1 = (r2, w2)" by fastforce
  obtain current where r2: "r2 = Inr current" using e2 e3 by (cases r2) (simp_all add: writeLocked_def)
  have current: "current = state_at ?out (wd_dir w2 ?out)"
    using read_step(2) [OF e3] read_step(3) [OF e3 assms(3) r2] by simp
  have "committed initial data w1 v"
  proof (cases "os_exists current \<and> os_data current = data")
    case True
    then have "v = w2" using e2 e3 r2 by (simp add: writeLocked_def)
    moreover have "installs initial data (arrive m w1) (wd_dir w2)"
      using True current read_step(2) [OF e3]
      by (auto simp: installs_def state_at_def absent_def split: option.splits)
    ultimately show ?thesis using step_committed read_step(1) [OF e3] by blast
  next
    case False
    then have "commitOutput m initial data w2 = (None, v)" using e2 e3 r2 by (auto simp: writeLocked_def split: if_splits)
    from commit_commits [OF this assms(2-4)] show ?thesis
      using committed_quiet [OF read_quiet [OF e3]] quiet_refl by blast
  qed
  then show ?thesis
    unfolding w' using committed_quiet [OF acquire_quiet(1) [OF e1 assms(5) [symmetric]] _ quiet_trans [OF ignored_quiet ignored_quiet]]
    by blast
qed

text \<open>In a check the answer is what the one inspection of the output found.\<close>

definition seen :: "world \<Rightarrow> world \<Rightarrow> directory set" where
  "seen w w' = fst ` set (drop (length (wd_trace w)) (wd_trace w'))"

fun check_result :: "string \<Rightarrow> bytes \<Rightarrow> output_error option \<Rightarrow> directory set \<Rightarrow> bool" where
  "check_result path data None found \<longleftrightarrow> (\<exists>d\<in>found. \<exists>f. d path = Some f \<and> fn_data f = data)"
| "check_result path data (Some OutputMissing) found \<longleftrightarrow> (\<exists>d\<in>found. d path = None)"
| "check_result path data (Some OutputStale) found \<longleftrightarrow> (\<exists>d\<in>found. \<exists>f. d path = Some f \<and> fn_data f \<noteq> data)"
| "check_result path data (Some e) found \<longleftrightarrow> e = NotRegular \<or> e = LockTimeout \<or> (\<exists>n. e = SystemError n)"

lemma quiet_seen: "quiet m p u v \<Longrightarrow> step_to m v w \<Longrightarrow> quiet m q w x \<Longrightarrow> arrive m v \<in> seen u x"
  by (force simp: quiet_def step_to_def seen_def)

lemma readOutputState_error:
  "readOutputState m path w = (Inl e, w') \<Longrightarrow> e = NotRegular \<or> (\<exists>n. e = SystemError n)"
  by (auto simp: readOutputState_def split: prod.splits sum.splits if_splits)

lemma checked_output:
  assumes run: "writeOutput m lockPath initial data True w = Some (err, w')"
    and files: "found_files m" and lock: "lockPath \<noteq> os_path initial"
  shows "path \<noteq> lockPath \<Longrightarrow> quiet m path w w'" and "check_result (os_path initial) data err (seen w w')"
proof -
  let ?out = "os_path initial"
  obtain r1 w1 where e1: "acquireOutputLock m lockPath w = Some (r1, w1)"
    using run by (auto simp: writeOutput_def split: option.splits)
  note q1 = acquire_quiet(1) [OF e1]
  have "(path \<noteq> lockPath \<longrightarrow> quiet m path w w') \<and> check_result ?out data err (seen w w')" for path
  proof (cases r1)
    case (Some e)
    then have "err = Some e" "w' = w1" using run e1 by (simp_all add: writeOutput_def)
    then show ?thesis using q1 acquire_quiet(3) [OF e1 lock [symmetric] Some] by auto
  next
    case None
    obtain v where e2: "writeLocked m initial data True w1 = (err, v)" and w': "w' = ignored m (ignored m v)"
      using run e1 None by (auto simp: writeOutput_def split: prod.splits)
    obtain r2 w2 where e3: "readOutputState m ?out w1 = (r2, w2)" by fastforce
    have v: "v = w2" using e2 e3 by (auto simp: writeLocked_def split: sum.splits)
    have q: "quiet m path w1 w'" for path
      unfolding w' v using quiet_trans [OF read_quiet [OF e3] quiet_trans [OF ignored_quiet ignored_quiet]] .
    have at: "arrive m w1 \<in> seen w w'"
      unfolding w' v by (rule quiet_seen [OF q1 [OF lock [symmetric]] read_step(1) [OF e3] quiet_trans [OF ignored_quiet ignored_quiet]])
    have "check_result ?out data err (seen w w')"
      using e2 e3 read_step(2,3) [OF e3] files
      by (cases r2) (auto simp: writeLocked_def state_at_def absent_def dest: readOutputState_error intro!: bexI [OF _ at] split: option.splits if_splits)
    then show ?thesis using quiet_trans [OF q1 q] by blast
  qed
  then show "path \<noteq> lockPath \<Longrightarrow> quiet m path w w'" "check_result ?out data err (seen w w')" by blast+
qed

text \<open>
  C20. When the generator reports success after a write, there was one system call that put the generated
  text at the output in place of exactly the state the output had when it was checked (or the output
  had that text already), and no other call of the generator changed the output. In a check no call
  changes any file but the lock file (which is created when it is missing), and the answer is right for
  a moment of the run: on success the output had exactly the generated text, it was missing when that
  is reported, and it had another text when it is reported as stale.
\<close>

theorem writeOutput_commits:
  assumes "writeOutput m lockPath initial data check w = Some (err, w')"
    and "\<forall>k. \<forall>a\<in>set (acts m k). act_path a = os_path initial" "found_files m"
    and "\<forall>k. temp_names m k \<noteq> os_path initial" "lockPath \<noteq> os_path initial"
  shows "if check then
      (\<forall>path. path \<noteq> lockPath \<longrightarrow> (\<exists>steps. wd_trace w' = wd_trace w @ steps \<and> steady path steps)) \<and>
      check_result (os_path initial) data err (seen w w')
    else err = None \<longrightarrow> committed initial data w w'"
proof (cases check)
  case True
  then have "writeOutput m lockPath initial data True w = Some (err, w')" using assms(1) by simp
  note check = checked_output [OF this assms(3,5)]
  have "\<exists>steps. wd_trace w' = wd_trace w @ steps \<and> steady path steps" if "path \<noteq> lockPath" for path
    using quiet_steady [OF check(1) [OF that]] .
  with True check(2) show ?thesis by simp
next
  case False
  with written_commits [OF _ assms(2-5)] assms(1) show ?thesis by simp
qed


section \<open>Runs without failures\<close>

text \<open>
  The calls of a lock and write in which no call fails are: 0 and 1 the lock, 2 the check, 3 to 7 the
  temporary file, 8 to 11 the exchange and its inspection, 12 to 14 the way back, 15 the last
  exchange, 16 the removal, 17 and 18 the unlock.
\<close>

definition faultless :: "machine \<Rightarrow> bool" where
  "faultless m \<longleftrightarrow> (\<forall>k. faults m k = None)"

abbreviation world_at :: "directory \<Rightarrow> nat \<Rightarrow> nat \<Rightarrow> (directory \<times> directory) list \<Rightarrow> world" where
  "world_at d k c t \<equiv> \<lparr>wd_dir = d, wd_calls = k, wd_clock = c, wd_trace = t\<rparr>"

text \<open>The directory with the lock file, and the file that the generator writes.\<close>

definition with_lock :: "machine \<Rightarrow> nat \<Rightarrow> string \<Rightarrow> directory \<Rightarrow> directory" where
  "with_lock m k lockPath d =
     d(lockPath := Some (case d lockPath of None \<Rightarrow> \<lparr>fn_id = new_ids m k, fn_data = [], fn_regular = True\<rparr> | Some f \<Rightarrow> f))"

definition own_file :: "machine \<Rightarrow> nat \<Rightarrow> bytes \<Rightarrow> file_node" where
  "own_file m k data = \<lparr>fn_id = new_ids m k, fn_data = data, fn_regular = True\<rparr>"

lemma own_file_simps [simp]: "fn_id (own_file m k data) = new_ids m k" "fn_data (own_file m k data) = data" "fn_regular (own_file m k data)"
  by (simp_all add: own_file_def)

lemma free_syscall:
  "faultless m \<Longrightarrow> syscall m f (world_at d k c t) =
     (fst (f (fold foreign (acts m k) d)), world_at (snd (f (fold foreign (acts m k) d))) (Suc k) (c + takes m k)
        (t @ [(fold foreign (acts m k) d, snd (f (fold foreign (acts m k) d)))]))"
  by (simp add: syscall_def faultless_def Let_def split: prod.splits)

lemma free_lock:
  assumes "faultless m" "acts m k = []" "acts m (Suc k) = []"
  shows "\<exists>c' t'. acquireOutputLock m lockPath (world_at d k c t) = Some (None, world_at (with_lock m k lockPath d) (Suc (Suc k)) c' t')"
  using assms by (simp add: acquireOutputLock_def acquireOutputLockTimeout_def free_syscall lockLoop.simps tryLockFile.simps with_lock_def cong: option.case_cong)

lemma free_read:
  assumes "faultless m" "acts m k = []" "d path = Some f" "fn_regular f"
  shows "\<exists>c' t'. readOutputState m path (world_at d k c t) = (Inr (present path f), world_at d (Suc k) c' t')"
  using assms by (simp add: readOutputState_def free_syscall)

lemma free_commit:
  assumes m: "faultless m" and calm: "\<forall>j<5. acts m (k + j) = []" and temp: "temp_names m k = tp" "d tp = None" and old: "os_exists initial"
    and replace: "\<And>c t. \<exists>c' t'. replaceExistingOutput m tp initial (world_at (d(tp \<mapsto> own_file m k data)) (k + 5) c t) =
      ((False, err), world_at d' k' c' t')"
    and "acts m k' = []"
  shows "\<exists>c' t'. commitOutput m initial data (world_at d k c t) = (err, world_at (d'(tp := None)) (Suc k') c' t')"
proof -
  let ?d = "d(tp \<mapsto> own_file m k [])"
  have quiet: "acts m k = []" "acts m (k + 1) = []" "acts m (k + 2) = []" "acts m (k + 3) = []" "acts m (k + 4) = []"
    using calm [rule_format, of 0] calm [rule_format, of 1] calm [rule_format, of 2] calm [rule_format, of 3] calm [rule_format, of 4]
    by simp_all
  obtain c1 t1 where c: "createTemp m (world_at d k c t) = (Inr tp, world_at ?d (Suc k) c1 t1)"
    using temp m quiet by (simp add: createTemp_def free_syscall Let_def own_file_def)
  obtain c2 t2 where f: "fillTemp m tp data (world_at ?d (Suc k) c1 t1) = (None, world_at (d(tp \<mapsto> own_file m k data)) (k + 5) c2 t2)"
    using m quiet by (simp add: fillTemp_def perform_def free_syscall own_file_def numeral_eq_Suc)
  obtain c3 t3 where "replaceExistingOutput m tp initial (world_at (d(tp \<mapsto> own_file m k data)) (k + 5) c2 t2) =
      ((False, err), world_at d' k' c3 t3)" using replace by blast
  then show ?thesis
    using c f old m assms(7) by (simp add: commitOutput_def tidy_def perform_def free_syscall)
qed

lemma free_write:
  assumes m: "faultless m" and calm: "\<forall>j\<le>8. acts m (k + j) = []"
    and old: "d out = Some old" "fn_regular old" "fn_data old \<noteq> data" "lockPath \<noteq> out"
    and temp: "temp_names m (k + 3) = tp" "d tp = None" "tp \<noteq> lockPath"
    and replace: "\<And>c t. \<exists>c' t'. replaceExistingOutput m tp (present out old)
        (world_at ((with_lock m k lockPath d)(tp \<mapsto> own_file m (k + 3) data)) (k + 8) c t) = ((False, err), world_at d' k' c' t')"
    and after: "acts m k' = []" "acts m (Suc k') = []" "acts m (Suc (Suc k')) = []"
  shows "\<exists>c' t'. writeOutput m lockPath (present out old) data False (world_at d k c t) =
    Some (err, world_at (d'(tp := None)) (k' + 3) c' t')"
proof -
  let ?d = "with_lock m k lockPath d"
  have quiet: "acts m k = []" "acts m (k + 1) = []" "acts m (k + 2) = []" "\<forall>j<5. acts m (k + 3 + j) = []"
    using calm [rule_format, of 0] calm [rule_format, of 1] calm [rule_format, of 2] calm by (simp_all add: add.assoc)
  obtain c1 t1 where lock: "acquireOutputLock m lockPath (world_at d k c t) = Some (None, world_at ?d (k + 2) c1 t1)"
    using free_lock [OF m, of k lockPath d c t] quiet by auto
  have at: "?d out = Some old" "?d tp = None" using old temp by (simp_all add: with_lock_def)
  obtain c2 t2 where read: "readOutputState m out (world_at ?d (k + 2) c1 t1) = (Inr (present out old), world_at ?d (k + 3) c2 t2)"
    using free_read [of m "k + 2" ?d out old c1 t1] m quiet(3) at(1) old(2) by auto
  have next_call: "k + 3 + 5 = k + 8" by simp
  have path: "os_path (present out old) = out" by (simp add: present_def)
  obtain c3 t3 where "commitOutput m (present out old) data (world_at ?d (k + 3) c2 t2) = (err, world_at (d'(tp := None)) (Suc k') c3 t3)"
    using free_commit [where k = "k + 3" and d = ?d and data = data and initial = "present out old" and err = err and d' = d' and k' = k' and c = c2 and t = t2,
        OF m quiet(4) temp(1) at(2)] replace after(1) unfolding next_call by auto
  then show ?thesis
    using lock read m after(2,3) old(3) path by (simp add: writeOutput_def writeLocked_def perform_def free_syscall)
qed


section \<open>Races with the replacement\<close>

text \<open>
  \<open>A\<close> is put at the output before the exchange, \<open>B\<close> before the way back and, if it is there, the last
  file before the last exchange.
\<close>

definition racing :: "machine \<Rightarrow> string \<Rightarrow> nat \<Rightarrow> file_node \<Rightarrow> file_node \<Rightarrow> file_node option \<Rightarrow> bool" where
  "racing m out k A B late \<longleftrightarrow> (\<forall>j. acts m (k + j) =
     (if j = 9 then [Put out A] else if j = 12 then [Put out B]
      else if j = 15 then (case late of None \<Rightarrow> [] | Some C \<Rightarrow> [Put out C]) else []))"

lemma racing_replace:
  assumes m: "faultless m" and race: "racing m out k A B late" and tp: "tp \<noteq> out"
    and files: "d out = Some old" "d tp = Some S" "fn_regular S" "fn_regular A" "fn_regular B"
    and new: "\<not> sameOutputState (present out old) (present tp A)" "\<not> sameOutputState (present tp S) (present tp B)"
  shows "\<exists>c' t'. replaceExistingOutput m tp (present out old) (world_at d (k + 8) c t) =
    ((False, Some (ConcurrentModification [])),
     world_at (d(out \<mapsto> B, tp \<mapsto> (case late of None \<Rightarrow> A | Some C \<Rightarrow> C))) (k + 16) c' t')"
proof -
  define q where "q = k + 8"
  have "acts m (k + 8) = []" "acts m (k + 9) = [Put out A]" "acts m (k + 10) = []" "acts m (k + 11) = []"
    "acts m (k + 12) = [Put out B]" "acts m (k + 13) = []" "acts m (k + 14) = []"
    "acts m (k + 15) = (case late of None \<Rightarrow> [] | Some C \<Rightarrow> [Put out C])"
    using race by (simp_all add: racing_def)
  then have acts: "acts m q = []" "acts m (Suc q) = [Put out A]" "acts m (Suc (Suc q)) = []" "acts m (Suc (Suc (Suc q))) = []"
    "acts m (Suc (Suc (Suc (Suc q)))) = [Put out B]" "acts m (Suc (Suc (Suc (Suc (Suc q))))) = []"
    "acts m (Suc (Suc (Suc (Suc (Suc (Suc q)))))) = []"
    "acts m (Suc (Suc (Suc (Suc (Suc (Suc (Suc q))))))) = (case late of None \<Rightarrow> [] | Some C \<Rightarrow> [Put out C])"
    by (simp_all add: q_def numeral_eq_Suc)
  have last_call: "k + 16 = Suc (Suc (Suc (Suc (Suc (Suc (Suc (Suc q)))))))" by (simp add: q_def)
  have path: "os_path (present out old) = out" "sameOutputState (present p f) (present q f)" for p q f
    by (simp_all add: present_def sameOutputState_def)
  show ?thesis
    unfolding q_def [symmetric] last_call using tp files new
    by (cases late) (simp_all add: replaceExistingOutput_def restoreOutput_def readOutputState_def exchangeOutputPaths_def
      free_syscall [OF m] acts path fun_upd_twist)
qed

lemma racing_write:
  assumes m: "faultless m" and race: "racing m out (wd_calls w) A B late"
    and old: "wd_dir w out = Some old" "fn_regular old" "fn_data old \<noteq> data" "lockPath \<noteq> out"
    and temp: "temp_names m (wd_calls w + 3) = tp" "wd_dir w tp = None" "tp \<noteq> lockPath" "tp \<noteq> out"
    and files: "fn_regular A" "fn_regular B" "fn_id A \<noteq> fn_id old \<or> fn_data A \<noteq> fn_data old"
      "fn_id B \<noteq> new_ids m (wd_calls w + 3) \<or> fn_data B \<noteq> data"
  shows "\<exists>w'. writeOutput m lockPath (present out old) data False w = Some (Some (ConcurrentModification []), w') \<and>
    wd_calls w' = wd_calls w + 19 \<and> wd_dir w' = (with_lock m (wd_calls w) lockPath (wd_dir w))(out \<mapsto> B, tp := None)"
proof -
  obtain d k c t where w: "w = world_at d k c t" by (cases w) auto
  let ?d = "(with_lock m k lockPath d)(tp \<mapsto> own_file m (k + 3) data)"
  have race': "racing m out k A B late" using race by (simp add: w)
  let ?last = "case late of None \<Rightarrow> A | Some C \<Rightarrow> C"
  have calm: "\<forall>j\<le>8. acts m (k + j) = []" using race by (simp add: racing_def w)
  have after: "acts m (k + 16) = []" "acts m (Suc (k + 16)) = []" "acts m (Suc (Suc (k + 16))) = []"
    using race [unfolded racing_def, rule_format, of 16] race [unfolded racing_def, rule_format, of 17]
      race [unfolded racing_def, rule_format, of 18] by (simp_all add: w numeral_eq_Suc)
  have at: "?d out = Some old" "?d tp = Some (own_file m (k + 3) data)"
    using old temp by (simp_all add: w with_lock_def)
  have new: "\<not> sameOutputState (present out old) (present tp A)"
    "\<not> sameOutputState (present tp (own_file m (k + 3) data)) (present tp B)"
    using files(3,4) by (auto simp: w sameOutputState_def present_def)
  have "\<exists>c' t'. replaceExistingOutput m tp (present out old) (world_at ?d (k + 8) c t) =
      ((False, Some (ConcurrentModification [])), world_at (?d(out \<mapsto> B, tp \<mapsto> ?last)) (k + 16) c' t')" for c t
    by (rule racing_replace [OF m race' temp(4) at own_file_simps(3) files(1,2) new])
  from free_write [where k = k and d = d and c = c and t = t, OF m calm _ old(2-4) _ _ temp(3) this after]
    old(1) temp(1,2) obtain c' t' where
    "writeOutput m lockPath (present out old) data False w =
       Some (Some (ConcurrentModification []), world_at ((?d(out \<mapsto> B, tp \<mapsto> ?last))(tp := None)) (k + 16 + 3) c' t')"
    by (auto simp: w)
  moreover have "(?d(out \<mapsto> B, tp \<mapsto> ?last))(tp := None) = (with_lock m k lockPath d)(out \<mapsto> B, tp := None)"
    using temp(4) by auto
  ultimately show ?thesis by (simp add: w)
qed

lemma racing_newest:
  assumes "racing m out i A B late"
  shows "newest m out i (i + 19) None = Some (case late of None \<Rightarrow> B | Some C \<Rightarrow> C)"
    "races m out i (i + 19) = (case late of None \<Rightarrow> 2 | Some _ \<Rightarrow> 3)"
proof -
  have shift: "[i..<i + 19] = map (\<lambda>j. i + j) [0..<19]" by (simp add: map_add_upt add.commute)
  have acts: "acts m (i + j) =
     (if j = 9 then [Put out A] else if j = 12 then [Put out B]
      else if j = 15 then (case late of None \<Rightarrow> [] | Some C \<Rightarrow> [Put out C]) else [])" for j
    using assms by (simp add: racing_def)
  show "newest m out i (i + 19) None = Some (case late of None \<Rightarrow> B | Some C \<Rightarrow> C)"
    unfolding newest_def shift map_map comp_def acts by (simp add: upt_rec act_at_def split: option.split)
  show "races m out i (i + 19) = (case late of None \<Rightarrow> 2 | Some _ \<Rightarrow> 3)"
    unfolding races_def shift filter_map length_map comp_def touched_def acts by (simp add: upt_rec split: option.split)
qed

text \<open>
  C38. The bound of two replacements is sharp, for every output, text and machine without failing calls:
  when other processes replace the output before the exchange, before the way back and before the last
  exchange, the generator deletes the newest file. It reports the concurrent modification and names no
  path for recovery, the output is the file put there before, and no path of the directory has the
  newest file.
\<close>

theorem third_race_loses_newest:
  assumes "faultless m" and "racing m out (wd_calls w) A B (Some C)"
    and "wd_dir w out = Some old" "fn_regular old" "fn_data old \<noteq> data" "lockPath \<noteq> out"
    and "temp_names m (wd_calls w + 3) = tp" "wd_dir w tp = None" "tp \<noteq> lockPath" "tp \<noteq> out"
    and "fn_regular A" "fn_regular B" "fn_id A \<noteq> fn_id old \<or> fn_data A \<noteq> fn_data old"
    and "fn_id B \<noteq> new_ids m (wd_calls w + 3) \<or> fn_data B \<noteq> data"
    and "\<forall>path. wd_dir w path \<noteq> Some C" "C \<noteq> B" "fn_id C \<noteq> new_ids m (wd_calls w)"
  shows "\<exists>w'. writeOutput m lockPath (present out old) data False w = Some (Some (ConcurrentModification []), w') \<and>
    races m out (wd_calls w) (wd_calls w') = 3 \<and> newest m out (wd_calls w) (wd_calls w') None = Some C \<and>
    wd_dir w' out = Some B \<and> (\<forall>path. wd_dir w' path \<noteq> Some C)"
proof -
  obtain w' where run: "writeOutput m lockPath (present out old) data False w = Some (Some (ConcurrentModification []), w')"
    and w': "wd_calls w' = wd_calls w + 19" "wd_dir w' = (with_lock m (wd_calls w) lockPath (wd_dir w))(out \<mapsto> B, tp := None)"
    using racing_write [OF assms(1-14)] by blast
  have "wd_dir w' path \<noteq> Some C" for path
    using assms(15-17) by (auto simp: w'(2) with_lock_def split: option.splits)
  then show ?thesis
    using run w'(1) racing_newest [OF assms(2)] assms(10) by (auto simp: w'(2))
qed


section \<open>Examples\<close>

definition demo_node :: "nat \<Rightarrow> file_node" where
  "demo_node n = \<lparr>fn_id = n, fn_data = [of_nat n], fn_regular = True\<rparr>"

definition demo_machine :: "(nat \<times> nat) list \<Rightarrow> machine" where
  "demo_machine races_at =
     \<lparr>acts = (\<lambda>k. case map_of races_at k of None \<Rightarrow> [] | Some n \<Rightarrow> [Put ''o.go'' (demo_node n)]),
      faults = (\<lambda>k. None), new_ids = (\<lambda>k. 100 + k), temp_names = (\<lambda>k. ''.o.go.1''), takes = (\<lambda>k. 1)\<rparr>"

definition demo_initial :: output_state where
  "demo_initial = present ''o.go'' (demo_node 1)"

definition demo_world :: world where
  "demo_world = world_at [''o.go'' \<mapsto> demo_node 1] 0 0 []"

lemma demo_machine_simps:
  "acts (demo_machine rs) k = (case map_of rs k of None \<Rightarrow> [] | Some n \<Rightarrow> [Put ''o.go'' (demo_node n)])"
  "faults (demo_machine rs) k = None" "new_ids (demo_machine rs) k = 100 + k"
  "temp_names (demo_machine rs) k = ''.o.go.1''" "takes (demo_machine rs) k = 1"
  "fn_id (demo_node n) = n" "fn_data (demo_node n) = [of_nat n]" "fn_regular (demo_node n)"
  by (simp_all add: demo_machine_def demo_node_def)

lemma demo_faultless: "faultless (demo_machine rs)"
  by (simp add: faultless_def demo_machine_simps)

text \<open>Races before the exchange, before the way back and, if \<open>late\<close>, before the last exchange.\<close>

definition late_race :: "bool \<Rightarrow> (nat \<times> nat) list" where
  "late_race late = [(9, 2), (12, 3)] @ (if late then [(15, 4)] else [])"

lemma demo_racing:
  "racing (demo_machine (late_race late)) ''o.go'' 0 (demo_node 2) (demo_node 3) (if late then Some (demo_node 4) else None)"
  by (simp add: racing_def late_race_def demo_machine_simps)

lemma demo_start:
  "wd_calls demo_world = 0" "wd_dir demo_world ''o.go'' = Some (demo_node 1)" "wd_dir demo_world ''.o.go.1'' = None"
  "os_path demo_initial = ''o.go''"
  by (simp_all add: demo_world_def demo_initial_def present_def)

theorem third_race_loses_newest_witness:
  "\<exists>w. writeOutput (demo_machine (late_race True)) ''.o.go.lock'' demo_initial [7] False demo_world =
       Some (Some (ConcurrentModification []), w) \<and>
     newest (demo_machine (late_race True)) ''o.go'' 0 (wd_calls w) None = Some (demo_node 4) \<and>
     (\<forall>path. wd_dir w path \<noteq> Some (demo_node 4))"
proof -
  have "demo_node 4 \<noteq> demo_node n" if "n \<noteq> 4" for n using that by (simp add: demo_node_def)
  then have fresh: "\<forall>path. wd_dir demo_world path \<noteq> Some (demo_node 4)" by (auto simp: demo_world_def demo_node_def)
  have race: "racing (demo_machine (late_race True)) ''o.go'' (wd_calls demo_world) (demo_node 2) (demo_node 3) (Some (demo_node 4))"
    using demo_racing [of True] by (simp add: demo_start)
  show ?thesis
    using third_race_loses_newest [OF demo_faultless race demo_start(2), of "[7]" "''.o.go.lock''" "''.o.go.1''"] fresh
    by (auto simp: demo_machine_simps demo_start demo_initial_def demo_node_def)
qed

lemma demo_puts: "puts (demo_machine rs) path f \<Longrightarrow> path = ''o.go'' \<and> (\<exists>n\<in>set (map snd rs). f = demo_node n)"
  by (auto simp: puts_def demo_machine_simps split: option.splits dest!: map_of_SomeD [OF sym]) force

theorem newest_output_kept_witness:
  "\<exists>err w. writeOutput (demo_machine (late_race False)) ''.o.go.lock'' demo_initial [7] False demo_world = Some (err, w) \<and>
     (wd_dir w ''o.go'' = Some (demo_node 3) \<or> (\<exists>p\<in>set (recovery_paths err). wd_dir w p = Some (demo_node 3)))"
proof -
  let ?m = "demo_machine (late_race False)"
  have race: "racing ?m ''o.go'' (wd_calls demo_world) (demo_node 2) (demo_node 3) None"
    using demo_racing [of False] by (simp add: demo_start)
  obtain w where run: "writeOutput ?m ''.o.go.lock'' demo_initial [7] False demo_world = Some (Some (ConcurrentModification []), w)"
    "wd_calls w = 19"
    using racing_write [OF demo_faultless race demo_start(2), of "[7]" "''.o.go.lock''" "''.o.go.1''"]
    by (auto simp: demo_machine_simps demo_start demo_initial_def)
  have "not_foreign ?m ''o.go'' demo_initial"
    by (auto simp: not_foreign_def same_present demo_initial_def demo_machine_simps late_race_def dest!: demo_puts)
  moreover have "\<forall>f k. puts ?m ''o.go'' f \<longrightarrow> fn_data f \<noteq> [7] \<or> fn_id f \<noteq> new_ids ?m k"
    by (auto simp: demo_machine_simps late_race_def dest!: demo_puts)
  moreover have "\<forall>k. \<forall>a\<in>set (acts ?m k). act_path a = ''o.go''"
    by (auto simp: demo_machine_simps split: option.splits)
  moreover have "found_files ?m" by (simp add: found_files_def demo_machine_simps)
  ultimately show ?thesis
    using newest_output_kept [OF run(1), of "demo_node 3"] run racing_newest [OF race]
    by (simp add: demo_machine_simps demo_start)
qed

theorem writeOutput_commits_witness:
  "(\<exists>w. writeOutput (demo_machine []) ''.o.go.lock'' demo_initial [7] False demo_world = Some (None, w) \<and>
     committed demo_initial [7] demo_world w) \<and>
   (\<exists>w. writeOutput (demo_machine []) ''.o.go.lock'' demo_initial [7] True demo_world = Some (Some OutputStale, w) \<and>
     (\<exists>d\<in>seen demo_world w. \<exists>f. d ''o.go'' = Some f \<and> fn_data f \<noteq> [7]))"
proof -
  let ?m = "demo_machine []"
  have calm: "acts ?m k = []" for k by (simp add: demo_machine_simps)
  let ?d = "with_lock ?m 0 ''.o.go.lock'' [''o.go'' \<mapsto> demo_node 1]"
  have at: "?d ''o.go'' = Some (demo_node 1)" "?d ''.o.go.1'' = None" by (simp_all add: with_lock_def)
  have "\<exists>c' t'. replaceExistingOutput ?m ''.o.go.1'' (present ''o.go'' (demo_node 1))
        (world_at (?d(''.o.go.1'' \<mapsto> own_file ?m (0 + 3) [7])) (0 + 8) c t) =
      ((False, None), world_at (?d(''o.go'' \<mapsto> own_file ?m 3 [7], ''.o.go.1'' \<mapsto> demo_node 1)) 11 c' t')" for c t
    using at by (simp add: replaceExistingOutput_def readOutputState_def exchangeOutputPaths_def free_syscall [OF demo_faultless] calm
      demo_machine_simps sameOutputState_def present_def fun_upd_twist)
  from free_write [where k = 0 and d = "[''o.go'' \<mapsto> demo_node 1]" and out = "''o.go''" and c = 0 and t = "[]", OF demo_faultless _ _ _ _ _ _ _ _ this]
  obtain w where run:
    "writeOutput ?m ''.o.go.lock'' demo_initial [7] False demo_world = Some (None, w)"
    by (auto simp: calm demo_machine_simps demo_world_def demo_initial_def)
  obtain c1 t1 where "acquireOutputLock ?m ''.o.go.lock'' demo_world = Some (None, world_at ?d 2 c1 t1)"
    using free_lock [OF demo_faultless calm [of 0] calm, of "''.o.go.lock''" "[''o.go'' \<mapsto> demo_node 1]" 0 "[]"] by (auto simp: demo_world_def numeral_2_eq_2)
  moreover obtain c2 t2 where "readOutputState ?m ''o.go'' (world_at ?d 2 c1 t1) = (Inr demo_initial, world_at ?d 3 c2 t2)"
    using free_read [where k = 2 and d = ?d and c = c1 and t = t1, OF demo_faultless calm at(1)] by (auto simp: demo_machine_simps demo_initial_def)
  ultimately obtain v where checked: "writeOutput ?m ''.o.go.lock'' demo_initial [7] True demo_world = Some (Some OutputStale, v)"
    by (auto simp: writeOutput_def writeLocked_def demo_start demo_initial_def present_def demo_machine_simps)
  have files: "found_files ?m" by (simp add: found_files_def demo_machine_simps)
  show ?thesis
    using writeOutput_commits [OF run] writeOutput_commits [OF checked] run checked files
    by (simp add: demo_machine_simps demo_start)
qed

theorem acquireOutputLock_returns_witness:
  "\<exists>r w'. acquireOutputLock (demo_machine []) ''.o.go.lock'' demo_world = Some (r, w') \<and>
    (r = Some LockTimeout \<longrightarrow> wd_clock demo_world + outputLockTimeout \<le> wd_clock w')"
  by (rule acquireOutputLock_returns) (auto simp: demo_machine_simps)

end
