(* ===== verification/GenRollback.thy ===== *)
theory GenRollback imports GenOutput GoText begin

text \<open>
  The rollback of eventheader-gen on Windows (outputreplace_rollback.go), where \<open>ReplaceFileW\<close> puts a
  file at a path and keeps what it displaces under a backup path. The operations that the Go code is
  given are the system calls of the machine of \<open>GenOutput\<close>. The loop counts the rounds that are left.
\<close>


section \<open>The operations\<close>

definition windowsReplaceFile :: "machine \<Rightarrow> string \<Rightarrow> string \<Rightarrow> string \<Rightarrow> world \<Rightarrow> (errno + unit) \<times> world" where
  "windowsReplaceFile m target replacement backup =
     syscall m (\<lambda>d. case (d target, d replacement) of
         (Some old, Some new) \<Rightarrow> (Inr (), d(replacement := None, target := Some new, backup := Some old))
       | _ \<Rightarrow> (Inl ENOENT, d))"

definition removeVerifiedOutputState :: "machine \<Rightarrow> string \<Rightarrow> output_state \<Rightarrow> world \<Rightarrow> output_error option \<times> world" where
  "removeVerifiedOutputState m path expected w =
     (case readOutputState m path w of
        (Inl e, w) \<Rightarrow> (Some e, w)
      | (Inr current, w) \<Rightarrow>
          if \<not> sameOutputState expected current then (Some (Preserved path OutputStale), w)
          else perform m (\<lambda>d. d(path := None)) w)"


section \<open>The loop\<close>

definition replaceFileRollbackRaceLimit :: nat where
  "replaceFileRollbackRaceLimit = 8"

definition recoveryName :: "string \<Rightarrow> nat \<Rightarrow> string" where
  "recoveryName tempName n = tempName @ ''.recovery-'' @ format_dec n"

fun rollbackRounds ::
  "machine \<Rightarrow> string \<Rightarrow> string \<Rightarrow> nat \<Rightarrow> string \<Rightarrow> output_state \<Rightarrow> output_state \<Rightarrow> world \<Rightarrow>
   output_error option \<times> world" where
  "rollbackRounds m tempName targetName 0 replacementName expectedTarget replacement w = (None, w)"
| "rollbackRounds m tempName targetName (Suc left) replacementName expectedTarget replacement w =
     (let displacedName = recoveryName tempName (replaceFileRollbackRaceLimit - Suc left) in
      case windowsReplaceFile m targetName replacementName displacedName w of
        (Inl e, w) \<Rightarrow> (Some (ConcurrentModification [replacementName, displacedName]), w)
      | (Inr _, w) \<Rightarrow>
     (case readOutputState m displacedName w of
        (Inl e, w) \<Rightarrow> (Some (ConcurrentModification [displacedName]), w)
      | (Inr displaced, w) \<Rightarrow>
          if sameOutputState expectedTarget displaced then
            (case removeVerifiedOutputState m displacedName expectedTarget w of
               (Some e, w) \<Rightarrow> (Some (ConcurrentModification [displacedName]), w)
             | (None, w) \<Rightarrow> (None, w))
          else if left = 0 then (Some (ConcurrentModification [displacedName]), w)
          else rollbackRounds m tempName targetName left displacedName replacement displaced w))"

definition rollbackReplaceFile ::
  "machine \<Rightarrow> string \<Rightarrow> string \<Rightarrow> string \<Rightarrow> output_state \<Rightarrow> output_state \<Rightarrow> world \<Rightarrow> output_error option \<times> world" where
  "rollbackReplaceFile m tempName targetName replacementName expectedTarget replacement w =
     rollbackRounds m tempName targetName replaceFileRollbackRaceLimit replacementName expectedTarget replacement w"


section \<open>The newest file is never lost\<close>

lemma windowsReplaceFile_step:
  assumes "windowsReplaceFile m target replacement backup w = (r, w')"
  shows "step_to m w w'" "r = Inl e \<Longrightarrow> wd_dir w' = arrive m w"
    "r = Inr u \<Longrightarrow> \<exists>old new. arrive m w target = Some old \<and> arrive m w replacement = Some new \<and>
       wd_dir w' = (arrive m w)(replacement := None, target := Some new, backup := Some old)"
  using syscall_step [OF assms [unfolded windowsReplaceFile_def]]
  by (auto split: option.splits)

lemma removeVerified_quiet:
  "removeVerifiedOutputState m p expected w = (r, w') \<Longrightarrow> path \<noteq> p \<Longrightarrow> quiet m path w w'"
  by (auto simp: removeVerifiedOutputState_def dest!: read_quiet [where path = path] perform_quiet [where path = path]
      intro: quiet_trans split: prod.splits sum.splits if_splits)

text \<open>No file has the state of one that was put at the path before.\<close>

definition fresh_puts :: "machine \<Rightarrow> string \<Rightarrow> bool" where
  "fresh_puts m path \<longleftrightarrow> (\<forall>i j k f g. newest m path i j None = Some f \<longrightarrow> newest m path j k None = Some g \<longrightarrow>
     \<not> sameOutputState (present path f) (present path g))"

definition others_at :: "machine \<Rightarrow> string \<Rightarrow> bool" where
  "others_at m path \<longleftrightarrow> (\<forall>k. \<forall>a\<in>set (acts m k). act_path a = path)"

lemma recoveryName_inj: "a < 8 \<Longrightarrow> b < 8 \<Longrightarrow> recoveryName t a = recoveryName t b \<longleftrightarrow> a = b"
  by (simp add: recoveryName_def format_dec.simps [of a] format_dec.simps [of b])

lemma settle_path:
  assumes "newest m out i j None = Some R" "i \<le> j" "j \<le> e" "newest m out i e None = Some f"
    and "o' = newest m out j e y" "t = Some R"
  shows "o' = Some f \<or> t = Some f"
  using settle_first [OF assms(1) [symmetric] assms(2-4), of y] assms(5,6) by auto

lemma rounds_keep:
  assumes "rollbackRounds m tp out left rep expected replacement w = (err, w')"
    and setting: "found_files m" "others_at m out" "fresh_puts m out" "\<forall>n<8. recoveryName tp n \<noteq> out"
    and names: "0 < left" "left \<le> 8" "rep \<noteq> out" "\<forall>n<8. 8 - left \<le> n \<longrightarrow> rep \<noteq> recoveryName tp n"
    and held: "wd_dir w out = newest m out j (wd_calls w) (Some E)" "i \<le> j" "j \<le> wd_calls w"
      "wd_dir w rep = Some R" "newest m out i j None = Some R"
    and states: "expected = present p E" "replacement = present q R"
    and distinct: "\<And>k g. newest m out j k None = Some g \<Longrightarrow> \<not> sameOutputState expected (present out g)"
    and last: "newest m out i (wd_calls w') None = Some f"
  shows "wd_dir w' out = Some f \<or> (\<exists>path\<in>set (recovery_paths err). wd_dir w' path = Some f)"
  using assms(1) names held states distinct last
proof (induction left arbitrary: rep expected replacement w j E R p q)
  case (Suc left)
  let ?name = "recoveryName tp (replaceFileRollbackRaceLimit - Suc left)"
  let ?a = "Suc (wd_calls w)"
  have lt: "7 - left < 8" by simp
  have name: "?name \<noteq> out" "?name \<noteq> rep"
    using Suc.prems(3) Suc.prems(5) [rule_format, OF lt] lt setting(4) by (auto simp: replaceFileRollbackRaceLimit_def)
  have arrive: "arrive m v path = wd_dir v path" if "path \<noteq> out" for path v
  proof -
    have "\<forall>k. \<not> touched m path k" using setting(2) that by (auto simp: others_at_def touched_def)
    then show ?thesis by (rule arrive_calm)
  qed
  have found: "arrive m w out = newest m out j ?a (Some E)" using arrive_track [OF Suc.prems(6,8)] .
  obtain r1 w1 where e1: "windowsReplaceFile m out rep ?name w = (r1, w1)" by fastforce
  obtain r2 w2 where e2: "readOutputState m ?name w1 = (r2, w2)" by fastforce
  note s1 = windowsReplaceFile_step [OF e1] and s2 = read_step [OF e2]
  show ?case
  proof (cases r1)
    case (Inl e)
    then have r: "w' = w1" "recovery_paths err = [rep, ?name]"
      using Suc.prems(1) e1 by (auto simp: Let_def)
    have "wd_dir w1 out = newest m out j (wd_calls w1) (Some E)" "wd_dir w1 rep = Some R" "j \<le> wd_calls w1"
      using s1(1) s1(2) [OF Inl] found arrive [OF Suc.prems(4)] Suc.prems(8,9) by (simp_all add: step_to_def)
    then show ?thesis using settle_path [OF Suc.prems(10,7) _ Suc.prems(14)] r by auto
  next
    case (Inr u)
    then obtain D where D: "arrive m w out = Some D" "wd_dir w1 out = Some R" "wd_dir w1 ?name = Some D" "wd_calls w1 = ?a"
      using s1(1,3) name arrive [OF Suc.prems(4)] Suc.prems(4,9) by (auto simp: step_to_def)
    have w2: "wd_dir w2 out = newest m out ?a (wd_calls w2) (Some R)" "wd_dir w2 ?name = Some D" "wd_calls w2 = Suc ?a"
      using s2 D arrive [OF name(1)] arrive_newest [of m w1 out] by (simp_all add: step_to_def)
    have displaced: "r2 = Inr s \<Longrightarrow> s = present ?name D" for s
      using s2(3) [OF setting(1)] D(3) arrive [OF name(1)] by (simp add: state_at_def)
    show ?thesis
    proof (cases "\<exists>s. r2 = Inr s \<and> \<not> sameOutputState expected s \<and> left \<noteq> 0")
      case True
      then have states: "r2 = Inr (present ?name D)" "\<not> sameOutputState expected (present ?name D)" "left \<noteq> 0"
        using displaced by auto
      then have again: "rollbackRounds m tp out left ?name replacement (present ?name D) w2 = (err, w')"
          "\<not> sameOutputState expected (present ?name D)" "left \<noteq> 0"
        using Suc.prems(1) e1 e2 Inr by (simp_all add: Let_def)
      have raced: "touched_in m out j ?a"
        using again(2) found D(1) Suc.prems(11) by (cases "touched_in m out j ?a") (simp_all add: newest_calm same_present)
      then have D_newest: "newest m out i ?a None = Some D"
        using found D(1) Suc.prems(7) newest_tail [of m out j ?a i "Some E" None] by simp
      have fresh: "\<not> sameOutputState replacement (present out g)" if "newest m out ?a k None = Some g" for k g
      proof -
        have "newest m out j k None = Some g"
          using that Suc.prems(8) newest_some [OF that] newest_tail [of m out ?a k j None None] by simp
        then show ?thesis
          using setting(3) Suc.prems(10,12) by (auto simp: fresh_puts_def same_present)
      qed
      have others: "\<forall>n<8. 8 - left \<le> n \<longrightarrow> ?name \<noteq> recoveryName tp n"
        using Suc.prems(3) again(3) by (auto simp: recoveryName_inj replaceFileRollbackRaceLimit_def)
      show ?thesis
        using Suc.IH [OF again(1) _ _ name(1) others w2(1) _ _ w2(2) D_newest Suc.prems(12) refl fresh Suc.prems(14)]
          again(3) Suc.prems(3,7,8) w2(3) by simp
    next
      case False
      show ?thesis
      proof (cases "r2 = Inr (present ?name D) \<and> sameOutputState expected (present ?name D)")
        case True
        then have "\<not> touched_in m out j ?a"
          using found D(1) Suc.prems(13) [of ?a D] newest_tail [of m out j ?a j "Some E" None]
          by (auto simp: same_present)
        moreover obtain r3 w3 where e3: "removeVerifiedOutputState m ?name expected w2 = (r3, w3)" by fastforce
        have w3: "wd_dir w3 out = newest m out ?a (wd_calls w3) (Some R)" "?a \<le> wd_calls w3"
          using quiet_track [OF removeVerified_quiet [OF e3 name(1) [symmetric]] w2(1)] w2(3) by simp_all
        moreover have "w' = w3" using Suc.prems(1) e1 e2 Inr True e3 by (auto simp: Let_def split: option.splits)
        ultimately show ?thesis
          using settle [OF Suc.prems(10) _ Suc.prems(7) _ _ Suc.prems(14), of D ?a E] found D(1) Suc.prems(8) by auto
      next
        case theirs: False
        have "w' = w2 \<and> recovery_paths err = [?name]"
        proof (cases r2)
          case (Inl e)
          then show ?thesis using Suc.prems(1) e1 e2 \<open>r1 = Inr u\<close> by (auto simp: Let_def)
        next
          case read: (Inr s)
          then have "s = present ?name D" "\<not> sameOutputState expected s" "left = 0"
            using displaced False theirs by auto
          then show ?thesis using Suc.prems(1) e1 e2 Inr read by (auto simp: Let_def)
        qed
        then have r: "w' = w2" "recovery_paths err = [?name]" by simp_all
        show ?thesis
          using settle [OF Suc.prems(10) _ Suc.prems(7) _ _ Suc.prems(14), of D ?a E] found D(1) Suc.prems(8) w2 r by auto
      qed
    qed
  qed
qed simp

text \<open>
  C24. The rollback never loses the newest file, however many other processes replace the output while
  it runs: when \<open>prior\<close> was displaced by the generated file, which has been at the output only
  since, the rollback returns after at most eight rounds, and the file put there last is then the
  output or under a path that the returned error names.
\<close>

theorem rollback_keeps_newest:
  assumes "rollbackReplaceFile m tempName target backup (present target S) (present backup prior) w = (err, w')"
    and "found_files m" "others_at m target" "fresh_puts m target" "not_foreign m target (present target S)"
    and "\<forall>n<8. recoveryName tempName n \<noteq> target \<and> recoveryName tempName n \<noteq> backup" "backup \<noteq> target"
    and "wd_dir w target = newest m target j (wd_calls w) (Some S)" "i \<le> j" "j \<le> wd_calls w"
    and "wd_dir w backup = Some prior" "newest m target i j None = Some prior"
    and "newest m target i (wd_calls w') None = Some f"
  shows "wd_dir w' target = Some f \<or> (\<exists>path\<in>set (recovery_paths err). wd_dir w' path = Some f)"
proof -
  have "\<not> sameOutputState (present target S) (present target g)" if "newest m target j k None = Some g" for k g
    using assms(5) newest_some [OF that] by (simp add: not_foreign_def)
  then show ?thesis
    using rounds_keep [OF assms(1) [unfolded rollbackReplaceFile_def] assms(2-4) _ _ _ assms(7) _ assms(8-12) refl refl _ assms(13)] assms(6)
    by (simp add: replaceFileRollbackRaceLimit_def eq_commute)
qed

lemma newest_put_at: "newest m path i j None = Some f \<Longrightarrow> \<exists>k\<in>{i..<j}. Put path f \<in> set (acts m k)"
  unfolding newest_def by (drule fold_act_put) auto

definition demo_back :: world where
  "demo_back = world_at [''o.go'' \<mapsto> demo_node 103, ''.o.go.1.previous'' \<mapsto> demo_node 2] 1 0 []"

theorem rollback_keeps_newest_witness:
  "\<exists>err w'. rollbackReplaceFile (demo_machine [(0, 2), (1, 3)]) ''.o.go.1'' ''o.go'' ''.o.go.1.previous''
      (present ''o.go'' (demo_node 103)) (present ''.o.go.1.previous'' (demo_node 2)) demo_back = (err, w') \<and>
    (wd_dir w' ''o.go'' = Some (demo_node 3) \<or> (\<exists>path\<in>set (recovery_paths err). wd_dir w' path = Some (demo_node 3)))"
proof -
  let ?m = "demo_machine [(0, 2), (1, 3)]"
  have name: "recoveryName ''.o.go.1'' n = ''.o.go.1.recovery-'' @ format_dec n" for n by (simp add: recoveryName_def)
  have "\<exists>err w'. rollbackReplaceFile ?m ''.o.go.1'' ''o.go'' ''.o.go.1.previous''
      (present ''o.go'' (demo_node 103)) (present ''.o.go.1.previous'' (demo_node 2)) demo_back = (err, w') \<and> wd_calls w' = 7"
    by (simp add: rollbackReplaceFile_def replaceFileRollbackRaceLimit_def numeral_eq_Suc demo_back_def windowsReplaceFile_def
        readOutputState_def removeVerifiedOutputState_def perform_def free_syscall [OF demo_faultless] demo_machine_simps name same_present)
      (simp add: Let_def)
  then obtain err w' where run: "rollbackReplaceFile ?m ''.o.go.1'' ''o.go'' ''.o.go.1.previous''
      (present ''o.go'' (demo_node 103)) (present ''.o.go.1.previous'' (demo_node 2)) demo_back = (err, w')" "wd_calls w' = 7"
    by blast
  have put: "Put ''o.go'' f \<in> set (acts ?m k) \<longleftrightarrow> (k = 0 \<and> f = demo_node 2 \<or> k = 1 \<and> f = demo_node 3)" for k f
    by (simp add: demo_machine_simps)
  have "fresh_puts ?m ''o.go''"
    unfolding fresh_puts_def by (auto simp: put [simplified] same_present demo_node_def dest!: newest_put_at)
  moreover have "not_foreign ?m ''o.go'' (present ''o.go'' (demo_node 103))"
    by (auto simp: not_foreign_def puts_def put [simplified] same_present demo_node_def)
  moreover have "found_files ?m" "others_at ?m ''o.go''"
    by (auto simp: found_files_def others_at_def demo_machine_simps)
  moreover have "newest ?m ''o.go'' 0 1 None = Some (demo_node 2)" "newest ?m ''o.go'' 0 7 None = Some (demo_node 3)"
    by (simp_all add: newest_def demo_machine_simps upt_rec act_at_def)
  moreover have "wd_calls demo_back = 1" "wd_dir demo_back ''o.go'' = Some (demo_node 103)"
    "wd_dir demo_back ''.o.go.1.previous'' = Some (demo_node 2)" by (simp_all add: demo_back_def)
  ultimately show ?thesis
    using rollback_keeps_newest [OF run(1), of 1 0 "demo_node 3"] run by (simp add: name)
qed

end
