(* ===== verification/GenExpr.thy ===== *)
theory GenExpr imports FormatDecl begin

text \<open>
  What eventheader-gen uses of Go's package \<open>go/build/constraint\<close>: boolean expressions over build
  tags, their evaluation, their text and the parser of that text. The parser reads tokens; its size
  limit counts operands. Parsing a printed expression gives the expression again, up to the
  association of \<open>&&\<close> and \<open>||\<close>.
\<close>


section \<open>Expressions\<close>

datatype expr = TagExpr string | NotExpr expr | AndExpr expr expr | OrExpr expr expr

primrec Eval :: "expr \<Rightarrow> (string \<Rightarrow> bool) \<Rightarrow> bool" where
  "Eval (TagExpr tag) ok = ok tag"
| "Eval (NotExpr x) ok = (\<not> Eval x ok)"
| "Eval (AndExpr x y) ok = (Eval x ok \<and> Eval y ok)"
| "Eval (OrExpr x y) ok = (Eval x ok \<or> Eval y ok)"

definition parens :: "string \<Rightarrow> string" where
  "parens s = ''('' @ s @ '')''"

fun expr_String :: "expr \<Rightarrow> string" where
  "expr_String (TagExpr tag) = tag"
| "expr_String (NotExpr x) =
     ''!'' @ (case x of AndExpr _ _ \<Rightarrow> parens (expr_String x) | OrExpr _ _ \<Rightarrow> parens (expr_String x) | _ \<Rightarrow> expr_String x)"
| "expr_String (AndExpr x y) =
     (case x of OrExpr _ _ \<Rightarrow> parens (expr_String x) | _ \<Rightarrow> expr_String x) @ '' && '' @
     (case y of OrExpr _ _ \<Rightarrow> parens (expr_String y) | _ \<Rightarrow> expr_String y)"
| "expr_String (OrExpr x y) =
     (case x of AndExpr _ _ \<Rightarrow> parens (expr_String x) | _ \<Rightarrow> expr_String x) @ '' || '' @
     (case y of AndExpr _ _ \<Rightarrow> parens (expr_String y) | _ \<Rightarrow> expr_String y)"


section \<open>The parser\<close>

datatype token = TokTag string | TokLeft | TokRight | TokNot | TokAnd | TokOr

text \<open>The bytes of the longest prefix of letters, digits, underscores and dots.\<close>

function tag_run :: "host \<Rightarrow> bytes \<Rightarrow> nat" where
  "tag_run h [] = 0"
| "tag_run h (b # bs) =
     (let k = (case utf8_len (b # bs) of None \<Rightarrow> 1 | Some k \<Rightarrow> k);
          r = (case utf8_len (b # bs) of None \<Rightarrow> rune_error | Some k \<Rightarrow> sequence_rune (take k (b # bs)))
      in if IsLetter h r \<or> IsDigit h r \<or> r = 95 \<or> r = 46 then k + tag_run h (drop k (b # bs)) else 0)"
  by pat_completeness auto
termination
  by (relation "measure (\<lambda>(h, bs). length bs)")
    (auto simp del: utf8_len.simps dest!: utf8_len_bounds split: option.splits)

function lexExpr :: "host \<Rightarrow> string \<Rightarrow> token list option" where
  "lexExpr h [] = Some []"
| "lexExpr h (c # s) =
     (if c = CHR '' '' \<or> c = CHR 0x09 then lexExpr h s
      else if c = CHR ''('' then map_option ((#) TokLeft) (lexExpr h s)
      else if c = CHR '')'' then map_option ((#) TokRight) (lexExpr h s)
      else if c = CHR ''!'' then map_option ((#) TokNot) (lexExpr h s)
      else if c = CHR ''&'' \<or> c = CHR ''|'' then
        (if s = [] \<or> hd s \<noteq> c then None
         else map_option ((#) (if c = CHR ''&'' then TokAnd else TokOr)) (lexExpr h (tl s)))
      else let k = tag_run h (to_bytes (c # s)) in
        if k = 0 then None
        else map_option ((#) (TokTag (take k (c # s)))) (lexExpr h (drop k (c # s))))"
  by pat_completeness auto
termination
  by (relation "measure (\<lambda>(h, s). length s)") (auto simp: neq_Nil_conv)

text \<open>
  The methods \<open>or\<close>, \<open>and\<close>, \<open>not\<close> and \<open>atom\<close>, and the loops of the first two with the expression
  they have so far. The number is what the size limit has left; the outer \<open>None\<close> is never reached.
\<close>

datatype parse_mode = ParseOr | MoreOr expr | ParseAnd | MoreAnd expr | ParseNot | ParseAtom

type_synonym parsed = "(expr \<times> nat \<times> token list) option"

definition next_is :: "token \<Rightarrow> token list \<Rightarrow> bool" where
  "next_is t ts \<longleftrightarrow> ts \<noteq> [] \<and> hd ts = t"

text \<open>A syntax error ends the parser at once.\<close>

abbreviation on_parsed :: "(expr \<Rightarrow> nat \<Rightarrow> token list \<Rightarrow> parsed option) \<Rightarrow> parsed \<Rightarrow> parsed option" where
  "on_parsed f p \<equiv> (case p of None \<Rightarrow> Some None | Some (x, n, ts) \<Rightarrow> f x n ts)"

partial_function (option) parseTokens :: "parse_mode \<Rightarrow> nat \<Rightarrow> token list \<Rightarrow> parsed option" where
  "parseTokens mode n ts =
     (case mode of
        ParseOr \<Rightarrow> Option.bind (parseTokens ParseAnd n ts) (on_parsed (\<lambda>x. parseTokens (MoreOr x)))
      | MoreOr x \<Rightarrow>
          if next_is TokOr ts then
            Option.bind (parseTokens ParseAnd n (tl ts)) (on_parsed (\<lambda>y. parseTokens (MoreOr (OrExpr x y))))
          else Some (Some (x, n, ts))
      | ParseAnd \<Rightarrow> Option.bind (parseTokens ParseNot n ts) (on_parsed (\<lambda>x. parseTokens (MoreAnd x)))
      | MoreAnd x \<Rightarrow>
          if next_is TokAnd ts then
            Option.bind (parseTokens ParseNot n (tl ts)) (on_parsed (\<lambda>y. parseTokens (MoreAnd (AndExpr x y))))
          else Some (Some (x, n, ts))
      | ParseNot \<Rightarrow>
          if n = 0 then Some None
          else if next_is TokNot ts then
            (if next_is TokNot (tl ts) then Some None
             else Option.bind (parseTokens ParseAtom (n - 1) (tl ts)) (on_parsed (\<lambda>x n ts. Some (Some (NotExpr x, n, ts)))))
          else parseTokens ParseAtom (n - 1) ts
      | ParseAtom \<Rightarrow>
          (case ts of
             [] \<Rightarrow> Some None
           | t # rest \<Rightarrow>
               (case t of
                  TokLeft \<Rightarrow> Option.bind (parseTokens ParseOr n rest) (on_parsed (\<lambda>x n ts.
                    if next_is TokRight ts then Some (Some (x, n, tl ts)) else Some None))
                | TokTag tag \<Rightarrow> Some (Some (TagExpr tag, n, rest))
                | _ \<Rightarrow> Some None)))"

definition maxSize :: nat where
  "maxSize = 1000"

text \<open>\<open>constraint.Parse\<close> of \<open>"//go:build "\<close> and the text.\<close>

definition parseExpr :: "host \<Rightarrow> string \<Rightarrow> expr option" where
  "parseExpr h s =
     (case lexExpr h s of
        None \<Rightarrow> None
      | Some ts \<Rightarrow>
          (case parseTokens ParseOr maxSize ts of
             Some (Some (x, _, rest)) \<Rightarrow> if rest = [] then Some x else None
           | _ \<Rightarrow> None))"

lemmas parseTokens_mode =
  parseTokens.simps [of ParseOr] parseTokens.simps [of "MoreOr x" for x] parseTokens.simps [of ParseAnd]
  parseTokens.simps [of "MoreAnd x" for x] parseTokens.simps [of ParseNot] parseTokens.simps [of ParseAtom]


section \<open>The tokens of a printed expression\<close>

primrec expr_tags :: "expr \<Rightarrow> string set" where
  "expr_tags (TagExpr tag) = {tag}"
| "expr_tags (NotExpr x) = expr_tags x"
| "expr_tags (AndExpr x y) = expr_tags x \<union> expr_tags y"
| "expr_tags (OrExpr x y) = expr_tags x \<union> expr_tags y"

fun is_op :: "expr \<Rightarrow> bool" where
  "is_op (AndExpr _ _) = True"
| "is_op (OrExpr _ _) = True"
| "is_op _ = False"

text \<open>Tokens with parentheses around the operands that need them: all operators, \<open>||\<close>, or \<open>&&\<close>.\<close>

definition enclosed :: "token list \<Rightarrow> token list" where
  "enclosed ts = TokLeft # ts @ [TokRight]"

fun toks :: "expr \<Rightarrow> token list" where
  "toks (TagExpr tag) = [TokTag tag]"
| "toks (NotExpr x) = TokNot # (if is_op x then enclosed (toks x) else toks x)"
| "toks (AndExpr x y) =
     (case x of OrExpr _ _ \<Rightarrow> enclosed (toks x) | _ \<Rightarrow> toks x) @ TokAnd #
     (case y of OrExpr _ _ \<Rightarrow> enclosed (toks y) | _ \<Rightarrow> toks y)"
| "toks (OrExpr x y) =
     (case x of AndExpr _ _ \<Rightarrow> enclosed (toks x) | _ \<Rightarrow> toks x) @ TokOr #
     (case y of AndExpr _ _ \<Rightarrow> enclosed (toks y) | _ \<Rightarrow> toks y)"

text \<open>What the parser counts: an operand each, and one for each pair of parentheses.\<close>

fun cost :: "expr \<Rightarrow> nat" where
  "cost (TagExpr tag) = 1"
| "cost (NotExpr x) = (if is_op x then Suc (cost x) else cost x)"
| "cost (AndExpr x y) = (case x of OrExpr _ _ \<Rightarrow> Suc (cost x) | _ \<Rightarrow> cost x) + (case y of OrExpr _ _ \<Rightarrow> Suc (cost y) | _ \<Rightarrow> cost y)"
| "cost (OrExpr x y) = (case x of AndExpr _ _ \<Rightarrow> Suc (cost x) | _ \<Rightarrow> cost x) + (case y of AndExpr _ _ \<Rightarrow> Suc (cost y) | _ \<Rightarrow> cost y)"

definition unit_toks :: "expr \<Rightarrow> token list" where
  "unit_toks x = (if is_op x then enclosed (toks x) else toks x)"

definition unit_cost :: "expr \<Rightarrow> nat" where
  "unit_cost x = (if is_op x then Suc (cost x) else cost x)"

definition and_toks :: "expr \<Rightarrow> token list" where
  "and_toks x = (case x of OrExpr _ _ \<Rightarrow> enclosed (toks x) | _ \<Rightarrow> toks x)"

definition and_cost :: "expr \<Rightarrow> nat" where
  "and_cost x = (case x of OrExpr _ _ \<Rightarrow> Suc (cost x) | _ \<Rightarrow> cost x)"

definition or_toks :: "expr \<Rightarrow> token list" where
  "or_toks x = (case x of AndExpr _ _ \<Rightarrow> enclosed (toks x) | _ \<Rightarrow> toks x)"

definition or_cost :: "expr \<Rightarrow> nat" where
  "or_cost x = (case x of AndExpr _ _ \<Rightarrow> Suc (cost x) | _ \<Rightarrow> cost x)"

lemmas context_defs = unit_toks_def unit_cost_def and_toks_def and_cost_def or_toks_def or_cost_def

definition alike :: "expr \<Rightarrow> expr \<Rightarrow> bool" where
  "alike x y \<longleftrightarrow> Eval x = Eval y \<and> expr_tags x = expr_tags y"

text \<open>The parser never accepts two negations in a row.\<close>

fun no_double :: "expr \<Rightarrow> bool" where
  "no_double (TagExpr tag) = True"
| "no_double (NotExpr x) = ((\<forall>y. x \<noteq> NotExpr y) \<and> no_double x)"
| "no_double (AndExpr x y) = (no_double x \<and> no_double y)"
| "no_double (OrExpr x y) = (no_double x \<and> no_double y)"

lemma alike_refl [simp]: "alike x x"
  by (simp add: alike_def)

lemma alike_ops:
  "alike x y \<Longrightarrow> alike (NotExpr x) (NotExpr y)"
  "alike x y \<Longrightarrow> alike u v \<Longrightarrow> alike (AndExpr x u) (AndExpr y v)"
  "alike x y \<Longrightarrow> alike u v \<Longrightarrow> alike (OrExpr x u) (OrExpr y v)"
  by (auto simp: alike_def fun_eq_iff)

lemma next_is_simps [simp]:
  "next_is t (u # ts) \<longleftrightarrow> u = t" "\<not> next_is t []"
  by (auto simp: next_is_def)


section \<open>Parsing the tokens\<close>

text \<open>What the parser does with an expression in each position.\<close>

definition atom_ok :: "expr \<Rightarrow> bool" where
  "atom_ok e \<longleftrightarrow> (\<forall>n ts. unit_cost e \<le> Suc n \<longrightarrow>
     (\<exists>x. alike x e \<and> parseTokens ParseAtom n (unit_toks e @ ts) = Some (Some (x, Suc n - unit_cost e, ts))))"

definition unit_ok :: "expr \<Rightarrow> bool" where
  "unit_ok e \<longleftrightarrow> (\<forall>n ts. unit_cost e \<le> n \<longrightarrow>
     (\<exists>x. alike x e \<and> parseTokens ParseNot n (unit_toks e @ ts) = Some (Some (x, n - unit_cost e, ts))))"

definition and_ok :: "expr \<Rightarrow> bool" where
  "and_ok e \<longleftrightarrow> (\<forall>n ts. and_cost e \<le> n \<longrightarrow>
     (\<exists>x. alike x e \<and> parseTokens ParseAnd n (and_toks e @ ts) = parseTokens (MoreAnd x) (n - and_cost e) ts) \<and>
     (\<forall>u. \<exists>x. alike x (AndExpr u e) \<and>
        parseTokens (MoreAnd u) n (TokAnd # and_toks e @ ts) = parseTokens (MoreAnd x) (n - and_cost e) ts))"

definition or_ok :: "expr \<Rightarrow> bool" where
  "or_ok e \<longleftrightarrow> (\<forall>n ts. or_cost e \<le> n \<longrightarrow> \<not> next_is TokAnd ts \<longrightarrow>
     (\<exists>x. alike x e \<and> parseTokens ParseOr n (or_toks e @ ts) = parseTokens (MoreOr x) (n - or_cost e) ts) \<and>
     (\<forall>u. \<exists>x. alike x (OrExpr u e) \<and>
        parseTokens (MoreOr u) n (TokOr # or_toks e @ ts) = parseTokens (MoreOr x) (n - or_cost e) ts))"

definition top_ok :: "expr \<Rightarrow> bool" where
  "top_ok e \<longleftrightarrow> (\<forall>n ts. cost e \<le> n \<longrightarrow> \<not> next_is TokAnd ts \<longrightarrow> \<not> next_is TokOr ts \<longrightarrow>
     (\<exists>x. alike x e \<and> parseTokens ParseOr n (toks e @ ts) = Some (Some (x, n - cost e, ts))))"

lemma context_ops:
  "toks (NotExpr x) = TokNot # unit_toks x" "cost (NotExpr x) = unit_cost x"
  "toks (AndExpr x y) = and_toks x @ TokAnd # and_toks y" "cost (AndExpr x y) = and_cost x + and_cost y"
  "toks (OrExpr x y) = or_toks x @ TokOr # or_toks y" "cost (OrExpr x y) = or_cost x + or_cost y"
  by (simp_all add: context_defs)

declare toks.simps(2-4) [simp del] cost.simps(2-4) [simp del]

lemma context_cost: "cost x \<le> unit_cost x" "cost x \<le> and_cost x" "cost x \<le> or_cost x"
  by (cases x; simp add: context_defs)+

lemma cost_pos: "0 < cost e"
proof (induction e)
  case (AndExpr x y)
  then show ?case using context_cost(2) [of x] by (simp add: context_ops)
next
  case (OrExpr x y)
  then show ?case using context_cost(3) [of x] by (simp add: context_ops)
next
  case (NotExpr x)
  then show ?case using context_cost(1) [of x] by (simp add: context_ops)
qed simp

lemma unit_cost_pos: "0 < unit_cost e"
  by (simp add: unit_cost_def cost_pos)

lemma atom_unit:
  assumes "atom_ok e" "\<forall>y. e \<noteq> NotExpr y"
  shows "unit_ok e"
  unfolding unit_ok_def
proof (intro allI impI)
  fix n ts assume n: "unit_cost e \<le> n"
  then obtain k where k: "n = Suc k" using unit_cost_pos [of e] by (cases n) auto
  have "\<not> next_is TokNot (unit_toks e @ ts)"
    using assms(2) by (cases e) (auto simp: unit_toks_def enclosed_def)
  then show "\<exists>x. alike x e \<and> parseTokens ParseNot n (unit_toks e @ ts) = Some (Some (x, n - unit_cost e, ts))"
    using assms(1) n k by (simp add: atom_ok_def parseTokens.simps [of ParseNot])
qed

lemma unit_not:
  assumes "atom_ok e" "\<forall>y. e \<noteq> NotExpr y"
  shows "unit_ok (NotExpr e)"
  unfolding unit_ok_def
proof (intro allI impI)
  fix n ts assume n: "unit_cost (NotExpr e) \<le> n"
  have c: "unit_cost (NotExpr e) = unit_cost e" "unit_toks (NotExpr e) = TokNot # unit_toks e"
    by (simp_all add: context_ops unit_cost_def [of "NotExpr e"] unit_toks_def [of "NotExpr e"])
  then obtain k where k: "n = Suc k" using n unit_cost_pos [of e] by (cases n) auto
  have "\<not> next_is TokNot (unit_toks e @ ts)"
    using assms(2) by (cases e) (auto simp: unit_toks_def enclosed_def)
  moreover obtain x where "alike x e" "parseTokens ParseAtom k (unit_toks e @ ts) = Some (Some (x, Suc k - unit_cost e, ts))"
    using assms(1) n c k by (auto simp: atom_ok_def)
  ultimately show "\<exists>x. alike x (NotExpr e) \<and> parseTokens ParseNot n (unit_toks (NotExpr e) @ ts) = Some (Some (x, n - unit_cost (NotExpr e), ts))"
    using c k by (auto simp: parseTokens.simps [of ParseNot] intro: alike_ops)
qed

lemma unit_and:
  assumes "unit_ok e" "and_toks e = unit_toks e" "and_cost e = unit_cost e"
  shows "and_ok e"
  unfolding and_ok_def
proof (intro allI impI conjI)
  fix n ts assume n: "and_cost e \<le> n"
  then obtain x where x: "alike x e" "parseTokens ParseNot n (unit_toks e @ ts) = Some (Some (x, n - unit_cost e, ts))"
    using assms by (auto simp: unit_ok_def)
  show "\<exists>x. alike x e \<and> parseTokens ParseAnd n (and_toks e @ ts) = parseTokens (MoreAnd x) (n - and_cost e) ts"
    using x assms(2,3) by (auto simp: parseTokens.simps [of ParseAnd])
  show "\<exists>x. alike x (AndExpr u e) \<and>
      parseTokens (MoreAnd u) n (TokAnd # and_toks e @ ts) = parseTokens (MoreAnd x) (n - and_cost e) ts" for u
    using x assms(2,3) by (auto simp: parseTokens.simps [of "MoreAnd u"] intro!: exI [of _ "AndExpr u x"] alike_ops)
qed

lemma unit_or:
  assumes "unit_ok e" "or_toks e = unit_toks e" "or_cost e = unit_cost e"
  shows "or_ok e"
  unfolding or_ok_def
proof (intro allI impI conjI)
  fix n ts assume n: "or_cost e \<le> n" "\<not> next_is TokAnd ts"
  then obtain x where "alike x e" "parseTokens ParseNot n (unit_toks e @ ts) = Some (Some (x, n - unit_cost e, ts))"
    using assms by (auto simp: unit_ok_def)
  then have x: "alike x e" "parseTokens ParseAnd n (unit_toks e @ ts) = Some (Some (x, n - unit_cost e, ts))"
    using n(2) by (simp_all add: parseTokens.simps [of ParseAnd] parseTokens.simps [of "MoreAnd x"])
  show "\<exists>x. alike x e \<and> parseTokens ParseOr n (or_toks e @ ts) = parseTokens (MoreOr x) (n - or_cost e) ts"
    using x assms(2,3) by (auto simp: parseTokens.simps [of ParseOr])
  show "\<exists>x. alike x (OrExpr u e) \<and>
      parseTokens (MoreOr u) n (TokOr # or_toks e @ ts) = parseTokens (MoreOr x) (n - or_cost e) ts" for u
    using x assms(2,3) by (auto simp: parseTokens.simps [of "MoreOr u"] intro!: exI [of _ "OrExpr u x"] alike_ops)
qed

lemma top_atom: "top_ok e \<Longrightarrow> is_op e \<Longrightarrow> atom_ok e"
  unfolding atom_ok_def
proof (intro allI impI)
  fix n ts assume top: "top_ok e" and "is_op e" "unit_cost e \<le> Suc n"
  then obtain x where "alike x e" "parseTokens ParseOr n (toks e @ TokRight # ts) = Some (Some (x, n - cost e, TokRight # ts))"
    using top [unfolded top_ok_def, rule_format, of n "TokRight # ts"] by (auto simp: unit_cost_def)
  then show "\<exists>x. alike x e \<and> parseTokens ParseAtom n (unit_toks e @ ts) = Some (Some (x, Suc n - unit_cost e, ts))"
    using \<open>is_op e\<close> by (auto simp: parseTokens.simps [of ParseAtom] unit_toks_def unit_cost_def enclosed_def)
qed

lemma top_from_or: "or_ok e \<Longrightarrow> or_toks e = toks e \<Longrightarrow> or_cost e = cost e \<Longrightarrow> top_ok e"
  unfolding top_ok_def
proof (intro allI impI)
  fix n ts assume ok: "or_ok e" "or_toks e = toks e" "or_cost e = cost e"
    and n: "cost e \<le> n" "\<not> next_is TokAnd ts" "\<not> next_is TokOr ts"
  obtain x where "alike x e" "parseTokens ParseOr n (toks e @ ts) = parseTokens (MoreOr x) (n - cost e) ts"
    using ok(1) [unfolded or_ok_def, rule_format, of n ts] ok(2,3) n by auto
  then show "\<exists>x. alike x e \<and> parseTokens ParseOr n (toks e @ ts) = Some (Some (x, n - cost e, ts))"
    using n(3) by (auto simp: parseTokens.simps [of "MoreOr x"])
qed

lemma top_from_and: "and_ok e \<Longrightarrow> and_toks e = toks e \<Longrightarrow> and_cost e = cost e \<Longrightarrow> top_ok e"
  unfolding top_ok_def
proof (intro allI impI)
  fix n ts assume ok: "and_ok e" "and_toks e = toks e" "and_cost e = cost e"
    and n: "cost e \<le> n" "\<not> next_is TokAnd ts" "\<not> next_is TokOr ts"
  obtain x where "alike x e" "parseTokens ParseAnd n (toks e @ ts) = parseTokens (MoreAnd x) (n - cost e) ts"
    using ok(1) [unfolded and_ok_def, rule_format, of n ts] ok(2,3) n by auto
  then show "\<exists>x. alike x e \<and> parseTokens ParseOr n (toks e @ ts) = Some (Some (x, n - cost e, ts))"
    using n(2,3) by (auto simp: parseTokens.simps [of ParseOr] parseTokens.simps [of "MoreAnd x"] parseTokens.simps [of "MoreOr x"])
qed

lemma alike_trans: "alike x y \<Longrightarrow> alike y z \<Longrightarrow> alike x z"
  by (simp add: alike_def)

lemma alike_assoc: "alike (AndExpr (AndExpr u x) y) (AndExpr u (AndExpr x y))" "alike (OrExpr (OrExpr u x) y) (OrExpr u (OrExpr x y))"
  by (auto simp: alike_def fun_eq_iff)

lemma and_ok_AndExpr:
  assumes "and_ok x" "and_ok y"
  shows "and_ok (AndExpr x y)"
  unfolding and_ok_def
proof (intro allI impI conjI)
  have ctx: "and_toks (AndExpr x y) = and_toks x @ TokAnd # and_toks y" "and_cost (AndExpr x y) = and_cost x + and_cost y"
    by (simp_all add: and_toks_def [of "AndExpr x y"] and_cost_def [of "AndExpr x y"] context_ops)
  fix n ts assume n: "and_cost (AndExpr x y) \<le> n"
  have y: "\<exists>v. alike v (AndExpr u y) \<and> parseTokens (MoreAnd u) (n - and_cost x) (TokAnd # and_toks y @ ts) =
      parseTokens (MoreAnd v) (n - (and_cost x + and_cost y)) ts" for u
    using assms(2) [unfolded and_ok_def, rule_format, of "n - and_cost x" ts] n ctx(2) by (simp add: diff_diff_left)
  have x: "and_cost x \<le> n" using n ctx(2) by simp
  note first = assms(1) [unfolded and_ok_def, rule_format, OF x, of "TokAnd # and_toks y @ ts"]
  show "\<exists>v. alike v (AndExpr x y) \<and>
      parseTokens ParseAnd n (and_toks (AndExpr x y) @ ts) = parseTokens (MoreAnd v) (n - and_cost (AndExpr x y)) ts"
    using conjunct1 [OF first] y ctx by (metis alike_ops(2) alike_refl alike_trans append_Cons append_assoc)
  show "\<exists>v. alike v (AndExpr u (AndExpr x y)) \<and>
      parseTokens (MoreAnd u) n (TokAnd # and_toks (AndExpr x y) @ ts) = parseTokens (MoreAnd v) (n - and_cost (AndExpr x y)) ts" for u
    using conjunct2 [OF first] y ctx
    by (metis alike_ops(2) alike_assoc(1) alike_refl alike_trans append_Cons append_assoc)
qed

lemma or_ok_OrExpr:
  assumes "or_ok x" "or_ok y"
  shows "or_ok (OrExpr x y)"
  unfolding or_ok_def
proof (intro allI impI conjI)
  have ctx: "or_toks (OrExpr x y) = or_toks x @ TokOr # or_toks y" "or_cost (OrExpr x y) = or_cost x + or_cost y"
    by (simp_all add: or_toks_def [of "OrExpr x y"] or_cost_def [of "OrExpr x y"] context_ops)
  fix n ts assume n: "or_cost (OrExpr x y) \<le> n" "\<not> next_is TokAnd ts"
  have y: "\<exists>v. alike v (OrExpr u y) \<and> parseTokens (MoreOr u) (n - or_cost x) (TokOr # or_toks y @ ts) =
      parseTokens (MoreOr v) (n - (or_cost x + or_cost y)) ts" for u
    using assms(2) [unfolded or_ok_def, rule_format, of "n - or_cost x" ts] n ctx(2) by (simp add: diff_diff_left)
  have x: "or_cost x \<le> n" "\<not> next_is TokAnd (TokOr # or_toks y @ ts)" using n ctx(2) by simp_all
  note first = assms(1) [unfolded or_ok_def, rule_format, OF x]
  show "\<exists>v. alike v (OrExpr x y) \<and>
      parseTokens ParseOr n (or_toks (OrExpr x y) @ ts) = parseTokens (MoreOr v) (n - or_cost (OrExpr x y)) ts"
    using conjunct1 [OF first] y ctx by (metis alike_ops(3) alike_refl alike_trans append_Cons append_assoc)
  show "\<exists>v. alike v (OrExpr u (OrExpr x y)) \<and>
      parseTokens (MoreOr u) n (TokOr # or_toks (OrExpr x y) @ ts) = parseTokens (MoreOr v) (n - or_cost (OrExpr x y)) ts" for u
    using conjunct2 [OF first] y ctx
    by (metis alike_ops(3) alike_assoc(2) alike_refl alike_trans append_Cons append_assoc)
qed

lemma parse_ok:
  "no_double e \<Longrightarrow> unit_ok e \<and> and_ok e \<and> or_ok e \<and> top_ok e \<and> ((\<forall>y. e \<noteq> NotExpr y) \<longrightarrow> atom_ok e)"
proof (induction e)
  case (TagExpr tag)
  have "atom_ok (TagExpr tag)"
    by (auto simp: atom_ok_def parseTokens.simps [of ParseAtom] context_defs intro: exI [of _ "TagExpr tag"])
  moreover from atom_unit [OF this] have "unit_ok (TagExpr tag)" by simp
  ultimately show ?case using unit_and unit_or top_from_or by (auto simp: context_defs)
next
  case (NotExpr e)
  then have "unit_ok (NotExpr e)" using unit_not by auto
  then show ?case using unit_and unit_or top_from_or by (auto simp: context_defs)
next
  case (AndExpr x y)
  then have ok: "and_ok (AndExpr x y)" using and_ok_AndExpr by simp
  then have top: "top_ok (AndExpr x y)" using top_from_and by (simp add: context_defs)
  then have "atom_ok (AndExpr x y)" using top_atom by simp
  then have "unit_ok (AndExpr x y)" using atom_unit by simp
  then show ?case using ok top \<open>atom_ok (AndExpr x y)\<close> unit_or by (simp add: context_defs)
next
  case (OrExpr x y)
  then have ok: "or_ok (OrExpr x y)" using or_ok_OrExpr by simp
  then have top: "top_ok (OrExpr x y)" using top_from_or by (simp add: context_defs)
  then have "atom_ok (OrExpr x y)" using top_atom by simp
  then have "unit_ok (OrExpr x y)" using atom_unit by simp
  then show ?case using ok top \<open>atom_ok (OrExpr x y)\<close> unit_and by (simp add: context_defs)
qed


section \<open>Lexing the text\<close>

definition tag_char :: "char \<Rightarrow> bool" where
  "tag_char c \<longleftrightarrow> (let n = of_char c :: nat in
     65 \<le> n \<and> n \<le> 90 \<or> 97 \<le> n \<and> n \<le> 122 \<or> 48 \<le> n \<and> n \<le> 57 \<or> n = 95 \<or> n = 46)"

definition plain_tag :: "string \<Rightarrow> bool" where
  "plain_tag t \<longleftrightarrow> t \<noteq> [] \<and> list_all tag_char t"

text \<open>What follows a tag in the text of an expression.\<close>

definition delimited :: "string \<Rightarrow> bool" where
  "delimited s \<longleftrightarrow> s = [] \<or> hd s = CHR '' '' \<or> hd s = CHR '')''"

lemma byte_of_char: "unat (of_char c :: byte) = of_char c"
proof -
  have "unat (of_nat (of_char c) :: byte) = (of_char c :: nat)"
    by (simp only: unat_of_nat take_bit_eq_mod) (simp add: of_char_mod_256)
  then show ?thesis by (simp only: of_nat_of_char)
qed

declare utf8_len.simps [simp del]

lemma utf8_len_ascii: "(of_char c :: nat) < 128 \<Longrightarrow> utf8_len (of_char c # bs) = Some 1"
  by (simp add: word_less_nat_alt byte_of_char utf8_len.simps)

lemma tag_run_tag: "tag_char c \<Longrightarrow> tag_run h (of_char c # bs) = Suc (tag_run h bs)"
proof -
  assume c: "tag_char c"
  then have "(of_char c :: nat) < 128" by (auto simp: tag_char_def Let_def)
  then show ?thesis
    using c by (auto simp: utf8_len_ascii sequence_rune_def byte_of_char tag_char_def IsLetter_def IsDigit_def Let_def)
qed

lemma tag_run_delimited: "delimited s \<Longrightarrow> tag_run h (to_bytes s) = 0"
proof (cases s)
  case (Cons c t)
  assume "delimited s"
  then have "c = CHR '' '' \<or> c = CHR '')''" using Cons by (simp add: delimited_def)
  then have "(of_char c :: nat) = 32 \<or> (of_char c :: nat) = 41" by auto
  moreover from this have "utf8_len (of_char c # to_bytes t) = Some 1" using utf8_len_ascii [of c] by auto
  ultimately show ?thesis
    using Cons by (auto simp: to_bytes_def sequence_rune_def byte_of_char IsLetter_def IsDigit_def Let_def)
qed (simp add: to_bytes_def)

lemma tag_run_append: "list_all tag_char t \<Longrightarrow> delimited s \<Longrightarrow> tag_run h (to_bytes (t @ s)) = length t"
proof (induction t)
  case (Cons c t)
  then show ?case using tag_run_tag [of c h "to_bytes (t @ s)"] by (simp add: to_bytes_def del: tag_run.simps)
qed (simp add: tag_run_delimited)

lemma lexExpr_tag:
  assumes "plain_tag t" "delimited s"
  shows "lexExpr h (t @ s) = map_option ((#) (TokTag t)) (lexExpr h s)"
proof (cases t)
  case (Cons c u)
  then have "tag_char c" using assms by (simp add: plain_tag_def)
  then have "c \<notin> {CHR '' '', CHR 0x09, CHR ''('', CHR '')'', CHR ''!'', CHR ''&'', CHR ''|''}"
    by (auto simp: tag_char_def Let_def)
  then show ?thesis
    using tag_run_append [of t s h] assms Cons by (simp add: plain_tag_def Let_def)
qed (use assms in \<open>simp add: plain_tag_def\<close>)

lemma delimited_simps [simp]: "delimited []" "delimited (CHR '' '' # s)" "delimited (CHR '')'' # s)"
  by (simp_all add: delimited_def)

definition unit_text :: "expr \<Rightarrow> string" where
  "unit_text x = (if is_op x then parens (expr_String x) else expr_String x)"

definition and_text :: "expr \<Rightarrow> string" where
  "and_text x = (case x of OrExpr _ _ \<Rightarrow> parens (expr_String x) | _ \<Rightarrow> expr_String x)"

definition or_text :: "expr \<Rightarrow> string" where
  "or_text x = (case x of AndExpr _ _ \<Rightarrow> parens (expr_String x) | _ \<Rightarrow> expr_String x)"

lemma expr_context:
  "expr_String (NotExpr x) = ''!'' @ unit_text x"
  "expr_String (AndExpr x y) = and_text x @ '' && '' @ and_text y"
  "expr_String (OrExpr x y) = or_text x @ '' || '' @ or_text y"
  by (cases x; simp add: unit_text_def) (simp_all add: and_text_def or_text_def)

declare expr_String.simps(2-4) [simp del]

definition lexes :: "host \<Rightarrow> string \<Rightarrow> token list \<Rightarrow> bool" where
  "lexes h s ts \<longleftrightarrow> (\<forall>u. delimited u \<longrightarrow> lexExpr h (s @ u) = map_option ((@) ts) (lexExpr h u))"

lemma lexes_parens: "lexes h s ts \<Longrightarrow> lexes h (parens s) (enclosed ts)"
  by (auto simp: lexes_def parens_def enclosed_def option.map_comp comp_def fun_eq_iff intro!: option.map_cong)

lemma lexes_contexts:
  assumes "lexes h (expr_String x) (toks x)"
  shows "lexes h (unit_text x) (unit_toks x)" "lexes h (and_text x) (and_toks x)" "lexes h (or_text x) (or_toks x)"
  using assms lexes_parens [OF assms]
  by (cases x; simp add: unit_text_def and_text_def or_text_def unit_toks_def and_toks_def or_toks_def)+

lemma lexes_operators:
  "lexes h s ts \<Longrightarrow> lexes h (''!'' @ s) (TokNot # ts)"
  "lexes h s ts \<Longrightarrow> lexes h t us \<Longrightarrow> lexes h (s @ '' && '' @ t) (ts @ TokAnd # us)"
  "lexes h s ts \<Longrightarrow> lexes h t us \<Longrightarrow> lexes h (s @ '' || '' @ t) (ts @ TokOr # us)"
  by (auto simp: lexes_def option.map_comp comp_def intro!: option.map_cong)

lemma lexExpr_String: "\<forall>t\<in>expr_tags e. plain_tag t \<Longrightarrow> lexes h (expr_String e) (toks e)"
proof (induction e)
  case (TagExpr t)
  then show ?case by (auto simp: lexes_def lexExpr_tag intro!: option.map_cong)
qed (simp_all only: expr_context context_ops expr_tags.simps, auto intro!: lexes_operators [simplified] lexes_contexts)

theorem parseExpr_String:
  assumes "no_double e" "\<forall>t\<in>expr_tags e. plain_tag t" "cost e \<le> maxSize"
  shows "\<exists>x. parseExpr h (expr_String e) = Some x \<and> alike x e"
proof -
  have "lexExpr h (expr_String e) = Some (toks e)"
    using lexExpr_String [OF assms(2), of h] by (simp add: lexes_def) (metis append_Nil2 delimited_simps(1) lexExpr.simps(1) option.simps(9))
  moreover obtain x where "alike x e" "parseTokens ParseOr maxSize (toks e @ []) = Some (Some (x, maxSize - cost e, []))"
    using parse_ok [OF assms(1)] assms(3) unfolding top_ok_def by (metis next_is_simps(2))
  ultimately show ?thesis by (simp add: parseExpr_def)
qed


section \<open>The size limit\<close>

primrec leaves :: "expr \<Rightarrow> nat" where
  "leaves (TagExpr tag) = 1"
| "leaves (NotExpr x) = leaves x"
| "leaves (AndExpr x y) = leaves x + leaves y"
| "leaves (OrExpr x y) = leaves x + leaves y"

definition tag_count :: "token list \<Rightarrow> nat" where
  "tag_count ts = length (filter (\<lambda>t. case t of TokTag _ \<Rightarrow> True | _ \<Rightarrow> False) ts)"

lemma tag_count_simps [simp]:
  "tag_count [] = 0" "tag_count (ts @ us) = tag_count ts + tag_count us"
  "tag_count (t # ts) = (case t of TokTag _ \<Rightarrow> 1 | _ \<Rightarrow> 0) + tag_count ts"
  by (simp_all add: tag_count_def split: token.split)

lemma tag_count_tl: "next_is t ts \<Longrightarrow> (\<forall>tag. t \<noteq> TokTag tag) \<Longrightarrow> tag_count (tl ts) = tag_count ts"
  by (cases ts) (auto split: token.split)

fun held :: "parse_mode \<Rightarrow> nat" where
  "held (MoreOr x) = leaves x"
| "held (MoreAnd x) = leaves x"
| "held _ = 0"

text \<open>Every tag that is read becomes an operand, and every operand is counted.\<close>

definition counted :: "parse_mode \<Rightarrow> nat \<Rightarrow> token list \<Rightarrow> parsed \<Rightarrow> bool" where
  "counted mode n ts p \<longleftrightarrow> (\<forall>x n' ts'. p = Some (x, n', ts') \<longrightarrow>
     leaves x + tag_count ts' = held mode + tag_count ts \<and>
     leaves x + n' \<le> held mode + n + (if mode = ParseAtom then 1 else 0))"

lemma counted_bind:
  assumes "Option.bind r (on_parsed f) = Some p"
  shows "(r = Some None \<and> p = None) \<or> (\<exists>x n ts. r = Some (Some (x, n, ts)) \<and> f x n ts = Some p)"
  using assms by (cases r) (auto split: option.splits)

lemma parse_counted:
  assumes "parseTokens mode n ts = Some p"
  shows "counted mode n ts p"
proof (rule parseTokens.raw_induct [where P = counted, OF _ assms], goal_cases)
  case (1 parse mode n ts p)
  note IH = 1(1) and run = 1(2)
  show ?case
  proof (cases mode)
    case ParseOr
    then have "Option.bind (parse ParseAnd n ts) (on_parsed (\<lambda>x. parse (MoreOr x))) = Some p" using run by simp
    from counted_bind [OF this] show ?thesis using ParseOr by (force simp: counted_def dest!: IH)
  next
    case (MoreOr u)
    show ?thesis
    proof (cases "next_is TokOr ts")
      case True
      then have "Option.bind (parse ParseAnd n (tl ts)) (on_parsed (\<lambda>y. parse (MoreOr (OrExpr u y)))) = Some p"
        using run MoreOr by simp
      from counted_bind [OF this] show ?thesis using MoreOr tag_count_tl [OF True] by (force simp: counted_def dest!: IH)
    next
      case False
      then show ?thesis using run MoreOr by (auto simp: counted_def)
    qed
  next
    case ParseAnd
    then have "Option.bind (parse ParseNot n ts) (on_parsed (\<lambda>x. parse (MoreAnd x))) = Some p" using run by simp
    from counted_bind [OF this] show ?thesis using ParseAnd by (force simp: counted_def dest!: IH)
  next
    case (MoreAnd u)
    show ?thesis
    proof (cases "next_is TokAnd ts")
      case True
      then have "Option.bind (parse ParseNot n (tl ts)) (on_parsed (\<lambda>y. parse (MoreAnd (AndExpr u y)))) = Some p"
        using run MoreAnd by simp
      from counted_bind [OF this] show ?thesis using MoreAnd tag_count_tl [OF True] by (force simp: counted_def dest!: IH)
    next
      case False
      then show ?thesis using run MoreAnd by (auto simp: counted_def)
    qed
  next
    case ParseNot
    consider "p = None" | "n \<noteq> 0" "next_is TokNot ts"
        "Option.bind (parse ParseAtom (n - 1) (tl ts)) (on_parsed (\<lambda>x n ts. Some (Some (NotExpr x, n, ts)))) = Some p"
      | "n \<noteq> 0" "parse ParseAtom (n - 1) ts = Some p"
      using run ParseNot
      by (cases "n = 0"; cases "next_is TokNot ts"; cases "next_is TokNot (tl ts)") simp_all
    then show ?thesis
    proof cases
      case 2
      from counted_bind [OF this(3)] show ?thesis
        using ParseNot tag_count_tl [OF 2(2)] 2(1) by (force simp: counted_def dest!: IH)
    next
      case 3
      then show ?thesis using ParseNot by (force simp: counted_def dest!: IH)
    qed (simp add: counted_def)
  next
    case ParseAtom
    show ?thesis
    proof (cases "\<exists>rest. ts = TokLeft # rest")
      case True
      then obtain rest where rest: "ts = TokLeft # rest"
        "Option.bind (parse ParseOr n rest) (on_parsed (\<lambda>x n ts.
           if next_is TokRight ts then Some (Some (x, n, tl ts)) else Some None)) = Some p"
        using run ParseAtom by auto
      from counted_bind [OF rest(2)] show ?thesis
        using ParseAtom rest(1) tag_count_tl by (force simp: counted_def split: if_splits dest!: IH)
    next
      case False
      then show ?thesis using run ParseAtom by (auto simp: counted_def split: list.splits token.splits)
    qed
  qed
qed

lemma tag_count_toks: "tag_count (toks e) = leaves e"
proof (induction e)
  case (NotExpr x)
  then show ?case by (simp add: context_ops unit_toks_def enclosed_def)
next
  case (AndExpr x y)
  then show ?case by (cases x; cases y; simp add: context_ops and_toks_def enclosed_def)
next
  case (OrExpr x y)
  then show ?case by (cases x; cases y; simp add: context_ops or_toks_def enclosed_def)
qed simp

lemma parse_too_large:
  assumes "\<forall>t\<in>expr_tags e. plain_tag t" "maxSize < leaves e"
  shows "parseExpr h (expr_String e) = None"
proof -
  have lex: "lexExpr h (expr_String e) = Some (toks e)"
    using lexExpr_String [OF assms(1), of h] by (simp add: lexes_def) (metis append_Nil2 delimited_simps(1) lexExpr.simps(1) option.simps(9))
  have "parseTokens ParseOr maxSize (toks e) \<noteq> Some (Some (x, n, []))" for x n
    using parse_counted [of ParseOr maxSize "toks e" "Some (x, n, [])"] assms(2) by (auto simp: counted_def tag_count_toks)
  then show ?thesis by (auto simp: parseExpr_def lex split: option.splits prod.splits if_splits)
qed

end
