(* ===== verification/GenConstraint.thy ===== *)
theory GenConstraint imports GenExpr "HOL-Library.List_Lexorder" begin

text \<open>
  The build constraints of eventheader-gen (\<open>canonicalBuildConstraint\<close> to
  \<open>filenameBuildConstraints\<close> in generator.go): the constraints of several files are combined to a
  canonical text, and two texts are compared by a search through all targets, all feature levels of
  the target's architecture and all values of the other tags. Go's maps of tags that are true are
  sets and lists here; the search, which fills a map it shares among its calls, passes a function.
\<close>


section \<open>Targets and features\<close>

record build_target =
  goos :: string
  goarch :: string

definition level_profiles :: "string \<Rightarrow> string list \<Rightarrow> string list list" where
  "level_profiles arch names =
     map (\<lambda>i. map (\<lambda>name. arch @ ''.'' @ name) (take (Suc i) names)) [0..<length names]"

definition exclusive_profiles :: "string \<Rightarrow> string list \<Rightarrow> string list list" where
  "exclusive_profiles arch names = map (\<lambda>name. [arch @ ''.'' @ name]) names"

definition arm64FeatureProfile :: "nat \<Rightarrow> nat \<Rightarrow> string list" where
  "arm64FeatureProfile major minor =
     map (\<lambda>i. ''arm64.v'' @ format_dec major @ ''.'' @ format_dec i) [0..<minor + 1] @
     (if major = 9 then map (\<lambda>i. ''arm64.v8.'' @ format_dec i) [0..<min (minor + 5) 9 + 1] else [])"

definition architectureFeatureProfiles :: "string \<Rightarrow> string list list" where
  "architectureFeatureProfiles arch =
     (if arch = ''386'' then exclusive_profiles arch [''387'', ''sse2'', ''softfloat'']
      else if arch = ''amd64'' then level_profiles arch [''v1'', ''v2'', ''v3'', ''v4'']
      else if arch = ''arm'' then level_profiles arch [''5'', ''6'', ''7'']
      else if arch = ''arm64'' then map (arm64FeatureProfile 8) [0..<10] @ map (arm64FeatureProfile 9) [0..<6]
      else if arch \<in> {''mips'', ''mipsle'', ''mips64'', ''mips64le''} then exclusive_profiles arch [''hardfloat'', ''softfloat'']
      else if arch \<in> {''ppc64'', ''ppc64le''} then level_profiles arch [''power8'', ''power9'', ''power10'']
      else if arch = ''riscv64'' then level_profiles arch [''rva20u64'', ''rva22u64'', ''rva23u64'']
      else if arch = ''wasm'' then [[], [''wasm.satconv''], [''wasm.signext''], [''wasm.satconv'', ''wasm.signext'']]
      else [[]])"

text \<open>The architecture in front of the first dot, whether the feature is a known one, and whether it is a feature tag.\<close>

definition architectureFeatureTag :: "string \<Rightarrow> string set \<Rightarrow> string \<times> bool \<times> bool" where
  "architectureFeatureTag tag knownArch =
     (let arch = takeWhile (\<lambda>c. c \<noteq> CHR ''.'') tag in
      if CHR ''.'' \<notin> set tag \<or> arch \<notin> knownArch then ([], False, False)
      else (arch, \<exists>profile\<in>set (architectureFeatureProfiles arch). tag \<in> set profile, True))"

definition unixOS :: "string set" where
  "unixOS = {''aix'', ''android'', ''darwin'', ''dragonfly'', ''freebsd'', ''hurd'', ''illumos'',
     ''ios'', ''linux'', ''netbsd'', ''openbsd'', ''solaris''}"

definition targetMatchesOSBuildTag :: "string \<Rightarrow> string \<Rightarrow> bool" where
  "targetMatchesOSBuildTag os tag =
     (if os = tag then True
      else if tag = ''linux'' then os = ''android''
      else if tag = ''solaris'' then os = ''illumos''
      else if tag = ''darwin'' then os = ''ios''
      else if tag = ''unix'' then os \<in> unixOS
      else False)"


section \<open>The search\<close>

primrec constraintTags :: "expr \<Rightarrow> string set \<Rightarrow> string set" where
  "constraintTags (TagExpr tag) tags = insert tag tags"
| "constraintTags (NotExpr x) tags = constraintTags x tags"
| "constraintTags (AndExpr x y) tags = constraintTags y (constraintTags x tags)"
| "constraintTags (OrExpr x y) tags = constraintTags y (constraintTags x tags)"

definition customTags :: "expr option list \<Rightarrow> string set \<Rightarrow> string set \<Rightarrow> string list" where
  "customTags expressions knownOS knownArch =
     (let tagSet = fold (\<lambda>e tags. case e of None \<Rightarrow> tags | Some x \<Rightarrow> constraintTags x tags) expressions {}
      in sorted_list_of_set {tag \<in> tagSet. tag \<notin> knownOS \<and> tag \<notin> knownArch \<and> tag \<noteq> ''unix'' \<and>
           \<not> fst (snd (architectureFeatureTag tag knownArch))})"

definition evaluateTag ::
  "string set \<Rightarrow> string set \<Rightarrow> build_target \<Rightarrow> string list \<Rightarrow> (string \<Rightarrow> bool) \<Rightarrow> string \<Rightarrow> bool" where
  "evaluateTag knownOS knownArch target features vals tag =
     (if tag \<in> knownOS \<or> tag = ''unix'' then targetMatchesOSBuildTag (goos target) tag
      else if tag \<in> knownArch then goarch target = tag
      else case architectureFeatureTag tag knownArch of
          (featureArch, known, feature) \<Rightarrow>
            if feature then
              (if featureArch \<noteq> goarch target then False
               else if known then tag \<in> set features
               else vals tag)
            else vals tag)"

fun searchValues :: "((string \<Rightarrow> bool) \<Rightarrow> bool) \<Rightarrow> string list \<Rightarrow> (string \<Rightarrow> bool) \<Rightarrow> bool" where
  "searchValues leaf [] vals = leaf vals"
| "searchValues leaf (tag # tags) vals =
     (if searchValues leaf tags (vals(tag := False)) then True else searchValues leaf tags (vals(tag := True)))"

definition matches ::
  "string set \<Rightarrow> string set \<Rightarrow> build_target \<Rightarrow> string list \<Rightarrow> (string \<Rightarrow> bool) \<Rightarrow> expr option \<Rightarrow> bool" where
  "matches knownOS knownArch target features vals e =
     (case e of None \<Rightarrow> True | Some x \<Rightarrow> Eval x (evaluateTag knownOS knownArch target features vals))"

text \<open>Whether an assignment was found, and whether the search was complete.\<close>

definition evaluateValidAssignments ::
  "expr option list \<Rightarrow> build_target list \<Rightarrow> string set \<Rightarrow> string set \<Rightarrow> nat \<Rightarrow> (bool list \<Rightarrow> bool) \<Rightarrow> bool \<times> bool" where
  "evaluateValidAssignments expressions targets knownOS knownArch maxCustomTags accept =
     (let custom = customTags expressions knownOS knownArch in
      if length custom > maxCustomTags \<or> targets = [] then (False, False)
      else (list_ex (\<lambda>target. list_ex (\<lambda>features.
              searchValues (\<lambda>vals. accept (map (matches knownOS knownArch target features vals) expressions)) custom (\<lambda>_. False))
              (architectureFeatureProfiles (goarch target))) targets, True))"


section \<open>Comparing constraints\<close>

definition parseBuildConstraint :: "host \<Rightarrow> string \<Rightarrow> expr option result" where
  "parseBuildConstraint h s =
     (if s = [] then Inr None
      else case parseExpr h s of None \<Rightarrow> Inl Fault | Some x \<Rightarrow> Inr (Some x))"

definition constraintImplies ::
  "host \<Rightarrow> string \<Rightarrow> string \<Rightarrow> build_target list \<Rightarrow> string set \<Rightarrow> string set \<Rightarrow> bool result" where
  "constraintImplies h left right targets knownOS knownArch =
     (if right = [] \<or> left = right then Inr True
      else bindR (parseBuildConstraint h left) (\<lambda>l. bindR (parseBuildConstraint h right) (\<lambda>r.
        case evaluateValidAssignments [l, r] targets knownOS knownArch 20 (\<lambda>ms. ms ! 0 \<and> \<not> ms ! 1) of
          (found, complete) \<Rightarrow> Inr (if \<not> complete then False else \<not> found))))"

definition constraintsEquivalent ::
  "host \<Rightarrow> string \<Rightarrow> string \<Rightarrow> build_target list \<Rightarrow> string set \<Rightarrow> string set \<Rightarrow> bool result" where
  "constraintsEquivalent h left right targets knownOS knownArch =
     bindR (constraintImplies h left right targets knownOS knownArch) (\<lambda>b.
       if \<not> b then Inr False else constraintImplies h right left targets knownOS knownArch)"

definition constraintsOverlap ::
  "host \<Rightarrow> string \<Rightarrow> string \<Rightarrow> build_target list \<Rightarrow> string set \<Rightarrow> string set \<Rightarrow> bool result" where
  "constraintsOverlap h left right targets knownOS knownArch =
     (if left = [] \<and> right = [] then Inr True
      else bindR (parseBuildConstraint h left) (\<lambda>l. bindR (parseBuildConstraint h right) (\<lambda>r.
        case evaluateValidAssignments [l, r] targets knownOS knownArch 12 (\<lambda>ms. ms ! 0 \<and> ms ! 1) of
          (found, complete) \<Rightarrow> Inr (found \<or> \<not> complete))))"


section \<open>Combining constraints\<close>

fun conjuncts :: "expr \<Rightarrow> expr list" where
  "conjuncts (AndExpr x y) = conjuncts x @ conjuncts y"
| "conjuncts x = [x]"

text \<open>The terms are kept by their text; a later one replaces an earlier one of the same text.\<close>

definition combineBuildConstraints :: "expr list \<Rightarrow> string" where
  "combineBuildConstraints expressions =
     (if expressions = [] then []
      else let collected = concat (map conjuncts expressions);
               terms = rev (map (\<lambda>x. (expr_String x, x)) collected);
               names = sort (remdups (map expr_String collected));
               term_of = (\<lambda>name. the (map_of terms name))
        in expr_String (foldl (\<lambda>r name. AndExpr r (term_of name)) (term_of (hd names)) (tl names)))"

definition path_base :: "string \<Rightarrow> string" where
  "path_base path =
     (if path = [] then ''.''
      else let trimmed = rev (dropWhile (\<lambda>c. c = CHR ''/'') (rev path)) in
        if trimmed = [] then ''/'' else rev (takeWhile (\<lambda>c. c \<noteq> CHR ''/'') (rev trimmed)))"

definition trim_suffix :: "string \<Rightarrow> string \<Rightarrow> string" where
  "trim_suffix s suffix =
     (if length suffix \<le> length s \<and> drop (length s - length suffix) s = suffix then take (length s - length suffix) s else s)"

fun split_at :: "char \<Rightarrow> string \<Rightarrow> string list" where
  "split_at sep [] = [[]]"
| "split_at sep (c # s) =
     (if c = sep then [] # split_at sep s else (case split_at sep s of part # parts \<Rightarrow> (c # part) # parts | [] \<Rightarrow> [[c]]))"

definition filenameBuildConstraints :: "string \<Rightarrow> string set \<Rightarrow> string set \<Rightarrow> expr list" where
  "filenameBuildConstraints filename knownOS knownArch =
     (let name = trim_suffix (trim_suffix (path_base filename) ''.go'') ''_test'';
          parts = rev (split_at CHR ''_'' name) in
      if length parts < 2 then []
      else let final = parts ! 0 in
        if final \<in> knownArch then
          TagExpr final # (if 3 \<le> length parts \<and> parts ! 1 \<in> knownOS then [TagExpr (parts ! 1)] else [])
        else if final \<in> knownOS then [TagExpr final]
        else [])"


section \<open>The search finds what there is\<close>

lemma constraintTags_eq: "constraintTags e tags = tags \<union> expr_tags e"
  by (induction e arbitrary: tags) auto

lemma finite_expr_tags [simp]: "finite (expr_tags e)"
  by (induction e) auto

definition all_tags :: "expr option list \<Rightarrow> string set" where
  "all_tags es = (\<Union>e\<in>set es. case e of None \<Rightarrow> {} | Some x \<Rightarrow> expr_tags x)"

lemma fold_constraintTags:
  "fold (\<lambda>e tags. case e of None \<Rightarrow> tags | Some x \<Rightarrow> constraintTags x tags) es tags = tags \<union> all_tags es"
  by (induction es arbitrary: tags) (auto simp: all_tags_def constraintTags_eq split: option.splits)

lemma finite_all_tags: "finite (all_tags es)"
  by (auto simp: all_tags_def split: option.splits)

lemma set_customTags:
  "set (customTags es knownOS knownArch) =
     {tag \<in> all_tags es. tag \<notin> knownOS \<and> tag \<notin> knownArch \<and> tag \<noteq> ''unix'' \<and> \<not> fst (snd (architectureFeatureTag tag knownArch))}"
  by (simp add: customTags_def fold_constraintTags finite_all_tags)

lemma known_feature: "architectureFeatureTag tag knownArch = (arch, known, feature) \<Longrightarrow> known \<Longrightarrow> feature"
  by (auto simp: architectureFeatureTag_def Let_def split: if_splits)

lemma Eval_cong: "(\<And>t. t \<in> expr_tags x \<Longrightarrow> f t = g t) \<Longrightarrow> Eval x f = Eval x g"
  by (induction x) auto

text \<open>A value that the evaluation looks up is one of a custom tag.\<close>

lemma matches_cong:
  assumes "\<forall>tag\<in>set (customTags es knownOS knownArch). v tag = v' tag" "e \<in> set es"
  shows "matches knownOS knownArch target features v e = matches knownOS knownArch target features v' e"
proof (cases e)
  case (Some x)
  have "evaluateTag knownOS knownArch target features v tag = evaluateTag knownOS knownArch target features v' tag"
    if "tag \<in> expr_tags x" for tag
  proof -
    have "tag \<in> all_tags es" using that assms(2) Some by (force simp: all_tags_def)
    then show ?thesis using assms(1) by (auto simp: evaluateTag_def set_customTags split: prod.splits dest: known_feature)
  qed
  from Eval_cong [OF this] show ?thesis using Some by (simp add: matches_def)
qed (simp add: matches_def)

lemma searchValues_iff:
  "searchValues leaf tags v \<longleftrightarrow> (\<exists>v'. (\<forall>t. t \<notin> set tags \<longrightarrow> v' t = v t) \<and> leaf v')"
proof (induction tags arbitrary: v)
  case Nil
  have "v' = v" if "\<forall>t. v' t = v t" for v' using that by blast
  then show ?case by auto
next
  case (Cons tag tags)
  have "searchValues leaf (tag # tags) v \<longleftrightarrow> (\<exists>b. searchValues leaf tags (v(tag := b)))" by (simp add: ex_bool_eq disj_commute)
  also have "\<dots> \<longleftrightarrow> (\<exists>b v'. (\<forall>t. t \<notin> set tags \<longrightarrow> v' t = (v(tag := b)) t) \<and> leaf v')" by (simp only: Cons.IH)
  also have "\<dots> \<longleftrightarrow> (\<exists>v'. (\<forall>t. t \<notin> set (tag # tags) \<longrightarrow> v' t = v t) \<and> leaf v')"
  proof
    assume "\<exists>v'. (\<forall>t. t \<notin> set (tag # tags) \<longrightarrow> v' t = v t) \<and> leaf v'"
    then obtain v' where v': "\<forall>t. t \<notin> set (tag # tags) \<longrightarrow> v' t = v t" "leaf v'" by blast
    then have "\<forall>t. t \<notin> set tags \<longrightarrow> v' t = (v(tag := v' tag)) t" by simp
    then show "\<exists>b v'. (\<forall>t. t \<notin> set tags \<longrightarrow> v' t = (v(tag := b)) t) \<and> leaf v'" using v'(2) by blast
  next
    assume "\<exists>b v'. (\<forall>t. t \<notin> set tags \<longrightarrow> v' t = (v(tag := b)) t) \<and> leaf v'"
    then obtain b v' where v': "\<forall>t. t \<notin> set tags \<longrightarrow> v' t = (v(tag := b)) t" "leaf v'" by blast
    then have "\<forall>t. t \<notin> set (tag # tags) \<longrightarrow> v' t = v t" by simp
    then show "\<exists>v'. (\<forall>t. t \<notin> set (tag # tags) \<longrightarrow> v' t = v t) \<and> leaf v'" using v'(2) by blast
  qed
  finally show ?case .
qed

lemma evaluateValidAssignments_iff:
  "evaluateValidAssignments es targets knownOS knownArch limit accept =
     (let few = length (customTags es knownOS knownArch) \<le> limit \<and> targets \<noteq> [] in
      (few \<and> (\<exists>target\<in>set targets. \<exists>features\<in>set (architectureFeatureProfiles (goarch target)). \<exists>vals.
         accept (map (matches knownOS knownArch target features vals) es)), few))"
proof -
  have "searchValues (\<lambda>vals. accept (map (matches knownOS knownArch target features vals) es)) (customTags es knownOS knownArch) (\<lambda>_. False) \<longleftrightarrow>
      (\<exists>vals. accept (map (matches knownOS knownArch target features vals) es))" (is "?search \<longleftrightarrow> _") for target features
  proof
    assume "\<exists>vals. accept (map (matches knownOS knownArch target features vals) es)"
    then obtain vals where vals: "accept (map (matches knownOS knownArch target features vals) es)" by blast
    let ?v = "\<lambda>t. t \<in> set (customTags es knownOS knownArch) \<and> vals t"
    have eq: "map (matches knownOS knownArch target features vals) es = map (matches knownOS knownArch target features ?v) es"
      by (auto intro!: matches_cong)
    show ?search using vals [unfolded eq] unfolding searchValues_iff by (intro exI [of _ ?v] conjI) auto
  qed (auto simp: searchValues_iff)
  then show ?thesis by (auto simp: evaluateValidAssignments_def Let_def list_ex_iff)
qed

lemma profiles_nonempty: "architectureFeatureProfiles arch \<noteq> []"
  by (simp add: architectureFeatureProfiles_def exclusive_profiles_def level_profiles_def)

text \<open>
  C21. Implication of build constraints is decided exactly: with at most twenty custom tags the
  answer is whether every build, of any known target, any feature level of its architecture and any
  values of the other tags, that satisfies the first constraint satisfies the second; with more the
  answer is that it does not, unless that is clear from the texts.
\<close>

theorem constraintImplies_exact:
  assumes "parseBuildConstraint h left = Inr l" "parseBuildConstraint h right = Inr r"
  shows "constraintImplies h left right targets knownOS knownArch =
    Inr (right = [] \<or> left = right \<or>
      length (customTags [l, r] knownOS knownArch) \<le> 20 \<and> targets \<noteq> [] \<and>
      (\<forall>target\<in>set targets. \<forall>features\<in>set (architectureFeatureProfiles (goarch target)). \<forall>vals.
         matches knownOS knownArch target features vals l \<longrightarrow> matches knownOS knownArch target features vals r))"
  using assms by (auto simp: constraintImplies_def evaluateValidAssignments_iff Let_def)

text \<open>
  C30. Two build constraints are reported as disjoint exactly when no build satisfies both; with more
  than twelve custom tags, or no known target, they are taken to overlap.
\<close>

theorem constraintsOverlap_exact:
  assumes "parseBuildConstraint h left = Inr l" "parseBuildConstraint h right = Inr r"
  shows "constraintsOverlap h left right targets knownOS knownArch =
    Inr (12 < length (customTags [l, r] knownOS knownArch) \<or> targets = [] \<or>
      (\<exists>target\<in>set targets. \<exists>features\<in>set (architectureFeatureProfiles (goarch target)). \<exists>vals.
         matches knownOS knownArch target features vals l \<and> matches knownOS knownArch target features vals r))"
proof (cases "left = [] \<and> right = []")
  case True
  then have "l = None" "r = None" using assms by (simp_all add: parseBuildConstraint_def)
  moreover have "\<exists>target\<in>set targets. \<exists>features. features \<in> set (architectureFeatureProfiles (goarch target))" if "targets \<noteq> []"
    using that profiles_nonempty by (cases targets) (auto simp: ex_in_conv)
  ultimately show ?thesis using True by (auto simp: constraintsOverlap_def matches_def)
next
  case False
  then show ?thesis
    using assms by (auto simp: constraintsOverlap_def evaluateValidAssignments_iff Let_def)
qed


section \<open>What a combined constraint means\<close>

lemma conjuncts_nonempty [simp]: "conjuncts e \<noteq> []"
  by (induction e rule: conjuncts.induct) auto

lemma Eval_conjuncts: "Eval e ok \<longleftrightarrow> (\<forall>x\<in>set (conjuncts e). Eval x ok)"
  by (induction e rule: conjuncts.induct) auto

lemma conjuncts_printable:
  "no_double e \<Longrightarrow> x \<in> set (conjuncts e) \<Longrightarrow> no_double x"
  "\<forall>t\<in>expr_tags e. plain_tag t \<Longrightarrow> x \<in> set (conjuncts e) \<Longrightarrow> \<forall>t\<in>expr_tags x. plain_tag t"
  by (induction e rule: conjuncts.induct) auto

text \<open>The terms that are left, in the order of their texts.\<close>

definition combined_terms :: "expr list \<Rightarrow> expr list" where
  "combined_terms es =
     (let collected = concat (map conjuncts es)
      in map (\<lambda>name. the (map_of (rev (map (\<lambda>x. (expr_String x, x)) collected)) name))
           (sort (remdups (map expr_String collected))))"

lemma combined_terms: "set (combined_terms es) \<subseteq> set (concat (map conjuncts es))"
  "map expr_String (combined_terms es) = sort (remdups (map expr_String (concat (map conjuncts es))))"
proof -
  let ?c = "concat (map conjuncts es)"
  let ?terms = "rev (map (\<lambda>x. (expr_String x, x)) ?c)"
  have found: "the (map_of ?terms name) \<in> set ?c \<and> expr_String (the (map_of ?terms name)) = name"
    if "name \<in> set (sort (remdups (map expr_String ?c)))" for name
  proof -
    have "name \<in> fst ` set ?terms" using that by force
    then obtain x where x: "map_of ?terms name = Some x" by (metis map_of_eq_None_iff not_None_eq)
    from map_of_SomeD [OF this] show ?thesis using x by auto
  qed
  have "set (combined_terms es) = (\<lambda>name. the (map_of ?terms name)) ` set (sort (remdups (map expr_String ?c)))"
    by (simp only: combined_terms_def Let_def set_map)
  moreover have "(\<lambda>name. the (map_of ?terms name)) ` set (sort (remdups (map expr_String ?c))) \<subseteq> set ?c"
    by (rule image_subsetI) (rule conjunct1 [OF found])
  ultimately show "set (combined_terms es) \<subseteq> set ?c" by (rule ord_eq_le_trans)
  show "map expr_String (combined_terms es) = sort (remdups (map expr_String ?c))"
    unfolding combined_terms_def Let_def map_map unfolding comp_def by (rule map_idI) (rule conjunct2 [OF found])
qed

lemma distinct_combined: "distinct (combined_terms es)"
  using combined_terms(2) [of es] by (metis distinct_map distinct_remdups distinct_sort)

lemma combined_nonempty:
  assumes "es \<noteq> []"
  shows "combined_terms es \<noteq> []"
proof -
  have "hd (conjuncts (hd es)) \<in> set (concat (map conjuncts es))" using assms by (cases es) auto
  then have "expr_String (hd (conjuncts (hd es))) \<in> set (map expr_String (combined_terms es))"
    unfolding combined_terms(2) set_sort set_remdups set_map by (rule imageI)
  then show ?thesis by auto
qed

lemma foldl_terms:
  "names \<noteq> [] \<Longrightarrow> foldl (\<lambda>r name. AndExpr r (f name)) (f (hd names)) (tl names) = foldl AndExpr (hd (map f names)) (tl (map f names))"
  by (cases names) (simp_all add: foldl_map)

lemma combine_terms:
  assumes "es \<noteq> []"
  shows "combineBuildConstraints es = expr_String (foldl AndExpr (hd (combined_terms es)) (tl (combined_terms es)))"
proof -
  let ?names = "sort (remdups (map expr_String (concat (map conjuncts es))))"
  have "?names \<noteq> []" using combined_nonempty [OF assms] combined_terms(2) [of es] by (metis list.map_disc_iff)
  from foldl_terms [OF this] show ?thesis
    unfolding combineBuildConstraints_def combined_terms_def Let_def if_not_P [OF assms] by (rule arg_cong)
qed

lemma and_all:
  "Eval (foldl AndExpr e es) ok \<longleftrightarrow> Eval e ok \<and> (\<forall>x\<in>set es. Eval x ok)"
  "expr_tags (foldl AndExpr e es) = expr_tags e \<union> (\<Union>x\<in>set es. expr_tags x)"
  "no_double (foldl AndExpr e es) \<longleftrightarrow> no_double e \<and> (\<forall>x\<in>set es. no_double x)"
  "and_cost (foldl AndExpr e es) = and_cost e + sum_list (map and_cost es)"
  "leaves (foldl AndExpr e es) = leaves e + sum_list (map leaves es)"
  by (induction es arbitrary: e) (auto simp: and_cost_def [of "AndExpr x y" for x y] context_ops)

lemma sum_set_le: "sum f (set xs) \<le> sum_list (map f xs)" for f :: "'a \<Rightarrow> nat"
  by (induction xs) (auto simp: sum.insert_if)

lemma combined_cost: "sum_list (map and_cost (combined_terms es)) \<le> sum_list (map and_cost (concat (map conjuncts es)))"
proof -
  have "sum_list (map and_cost (combined_terms es)) = sum and_cost (set (combined_terms es))"
    by (simp add: sum_list_distinct_conv_sum_set distinct_combined)
  also have "\<dots> \<le> sum and_cost (set (concat (map conjuncts es)))"
    by (rule sum_mono2) (use combined_terms(1) in auto)
  also have "\<dots> \<le> sum_list (map and_cost (concat (map conjuncts es)))" by (rule sum_set_le)
  finally show ?thesis .
qed

definition printable :: "expr \<Rightarrow> bool" where
  "printable e \<longleftrightarrow> no_double e \<and> (\<forall>t\<in>expr_tags e. plain_tag t)"

lemma printable_conjuncts: "printable e \<Longrightarrow> x \<in> set (conjuncts e) \<Longrightarrow> printable x"
  using conjuncts_printable by (auto simp: printable_def)

text \<open>Printable expressions of the same text have the same meaning.\<close>

lemma same_text:
  assumes "printable x" "cost x \<le> maxSize" "printable y" "cost y \<le> maxSize" "expr_String x = expr_String y"
  shows "Eval x = Eval y"
  using parseExpr_String [of x undefined] parseExpr_String [of y undefined] assms by (auto simp: printable_def alike_def)

lemma combined_Eval:
  assumes "\<forall>e\<in>set es. printable e" "sum_list (map and_cost (concat (map conjuncts es))) \<le> maxSize"
  shows "(\<forall>x\<in>set (combined_terms es). Eval x ok) \<longleftrightarrow> (\<forall>e\<in>set es. Eval e ok)"
proof -
  let ?c = "concat (map conjuncts es)"
  have small: "printable x \<and> cost x \<le> maxSize" if x: "x \<in> set ?c" for x
  proof -
    have "and_cost x \<in> set (map and_cost ?c)" using x unfolding set_map by (rule imageI)
    from member_le_sum_list [OF this] have "cost x \<le> maxSize" using assms(2) context_cost(2) [of x] by linarith
    moreover obtain e where "e \<in> set es" "x \<in> set (conjuncts e)" using x unfolding set_concat set_map by blast
    ultimately show ?thesis using assms(1) printable_conjuncts by blast
  qed
  have "\<exists>y\<in>set (combined_terms es). Eval y = Eval x" if "x \<in> set ?c" for x
  proof -
    have "expr_String x \<in> expr_String ` set (combined_terms es)"
      using imageI [OF that, of expr_String] unfolding set_map [symmetric] combined_terms(2) set_sort set_remdups .
    then obtain y where y: "y \<in> set (combined_terms es)" "expr_String x = expr_String y" by (rule imageE)
    have "y \<in> set ?c" using y(1) combined_terms(1) by (rule subsetD [rotated])
    from same_text [of y x] small [OF this] small [OF that] y show ?thesis by metis
  qed
  then have "(\<forall>x\<in>set (combined_terms es). Eval x ok) \<longleftrightarrow> (\<forall>x\<in>set ?c. Eval x ok)"
    using combined_terms(1) [of es] by (metis subsetD)
  also have "\<dots> \<longleftrightarrow> (\<forall>e\<in>set es. \<forall>x\<in>set (conjuncts e). Eval x ok)" by auto
  finally show ?thesis by (simp only: Eval_conjuncts [symmetric])
qed

lemma empty_text: "parseExpr h [] = None"
  by (simp add: parseExpr_def parseTokens_mode maxSize_def)

text \<open>
  C22. The canonical text of several build constraints stands for all of them together: as long as the
  operands of their conjuncts are within the size limit of the parser, it parses, and the result holds
  of a build exactly when every constraint does, whichever duplicates were dropped on the way.
\<close>

theorem combine_meaning:
  assumes "es \<noteq> []" "\<forall>e\<in>set es. printable e"
    and "sum_list (map and_cost (concat (map conjuncts es))) \<le> maxSize"
  shows "\<exists>x. parseBuildConstraint h (combineBuildConstraints es) = Inr (Some x) \<and>
    (\<forall>ok. Eval x ok \<longleftrightarrow> (\<forall>e\<in>set es. Eval e ok))"
proof -
  obtain e ts where terms: "combined_terms es = e # ts" using combined_nonempty [OF assms(1)] by (cases "combined_terms es") auto
  let ?e = "foldl AndExpr e ts"
  have parts: "\<forall>x\<in>set (e # ts). printable x"
    using combined_terms(1) [of es] assms(2) printable_conjuncts terms by fastforce
  have "cost ?e \<le> and_cost ?e" by (rule context_cost(2))
  also have "\<dots> \<le> maxSize" using combined_cost [of es] assms(3) by (simp add: and_all(4) terms)
  finally obtain x where x: "parseExpr h (expr_String ?e) = Some x" "alike x ?e"
    using parseExpr_String [of ?e h] parts by (auto simp: and_all printable_def)
  have "expr_String ?e \<noteq> []" using x(1) empty_text [of h] by (auto simp del: parseExpr_def)
  then have "parseBuildConstraint h (combineBuildConstraints es) = Inr (Some x)"
    using x(1) by (simp add: parseBuildConstraint_def combine_terms [OF assms(1)] terms)
  moreover have "Eval x ok \<longleftrightarrow> (\<forall>e\<in>set es. Eval e ok)" for ok
    using x(2) combined_Eval [OF assms(2,3), of ok] by (simp add: alike_def and_all(1) terms)
  ultimately show ?thesis by blast
qed


section \<open>The size limit of the combined text\<close>

lemma conjuncts_and_all: "conjuncts (foldl AndExpr e es) = conjuncts e @ concat (map conjuncts es)"
  by (induction es arbitrary: e) simp_all

lemma leaves_length: "length es \<le> sum_list (map leaves es)"
proof (induction es)
  case (Cons e es)
  have "0 < leaves e" by (induction e) auto
  then show ?case using Cons by simp
qed simp

lemma combine_too_large:
  assumes "\<forall>e\<in>set es. printable e" "maxSize < card (expr_String ` set (concat (map conjuncts es)))"
  shows "parseBuildConstraint h (combineBuildConstraints es) = Inl Fault"
proof -
  have "length (combined_terms es) = length (sort (remdups (map expr_String (concat (map conjuncts es)))))"
    by (metis combined_terms(2) length_map)
  also have "\<dots> = card (expr_String ` set (concat (map conjuncts es)))"
    by (simp only: length_sort length_remdups_card_conv set_map)
  finally have long: "maxSize < length (combined_terms es)" using assms(2) by simp
  then obtain e ts where terms: "combined_terms es = e # ts" by (cases "combined_terms es") auto
  with long have "ts \<noteq> []" by (auto simp: maxSize_def)
  then obtain us u where ts: "ts = us @ [u]" by (metis rev_exhaust)
  let ?e = "foldl AndExpr e ts"
  have "\<forall>x\<in>set (e # ts). printable x"
    using combined_terms(1) [of es] assms(1) printable_conjuncts unfolding terms by fastforce
  then have tags: "\<forall>t\<in>expr_tags ?e. plain_tag t" by (auto simp: and_all(2) printable_def)
  have "maxSize < leaves ?e"
    using long leaves_length [of "combined_terms es"] by (simp add: and_all(5) terms)
  from parse_too_large [OF tags this] have "parseExpr h (expr_String ?e) = None" .
  moreover have "expr_String ?e \<noteq> []" by (simp add: ts expr_context)
  moreover have "es \<noteq> []" using assms(2) by auto
  ultimately show ?thesis by (simp add: parseBuildConstraint_def combine_terms terms)
qed

text \<open>
  C39. A constraint at the size limit of the parser makes the generator panic: a file whose constraint
  is the conjunction of 1000 tags is parsed, but when the name of the file adds one more tag, its
  canonical text exceeds the limit, and every comparison with it panics.
\<close>

theorem combined_limit_panics:
  assumes "distinct ts" "\<forall>t\<in>set ts. plain_tag t" "length ts = maxSize"
    and "''linux'' \<notin> set ts" "''linux'' \<in> knownOS" "''linux'' \<notin> knownArch"
  shows "\<exists>e x. e = foldl AndExpr (TagExpr (hd ts)) (map TagExpr (tl ts)) \<and> parseExpr h (expr_String e) = Some x \<and>
    parseBuildConstraint h (combineBuildConstraints (e # filenameBuildConstraints ''trace_linux.go'' knownOS knownArch)) = Inl Fault"
proof -
  let ?e = "foldl AndExpr (TagExpr (hd ts)) (map TagExpr (tl ts))"
  obtain t us where ts: "ts = t # us" using assms(3) by (cases ts) (auto simp: maxSize_def)
  have plain: "no_double ?e" "\<forall>t\<in>expr_tags ?e. plain_tag t" using assms(2) by (auto simp: and_all ts)
  have one: "map (and_cost \<circ> TagExpr) us = map (\<lambda>_. 1) us" by (simp add: and_cost_def)
  have "cost ?e \<le> and_cost ?e" by (rule context_cost(2))
  also have "and_cost ?e = length ts" by (simp add: and_all(4) ts one and_cost_def [of "TagExpr t"] sum_list_triv)
  finally obtain x where "parseExpr h (expr_String ?e) = Some x"
    using parseExpr_String [OF plain] assms(3) by fastforce
  moreover have "parseBuildConstraint h (combineBuildConstraints (?e # filenameBuildConstraints ''trace_linux.go'' knownOS knownArch)) = Inl Fault"
  proof (rule combine_too_large)
    have name: "filenameBuildConstraints ''trace_linux.go'' knownOS knownArch = [TagExpr ''linux'']"
      using assms(5,6) by (simp add: filenameBuildConstraints_def path_base_def trim_suffix_def Let_def)
    have c: "concat (map conjuncts (?e # [TagExpr ''linux''])) = map TagExpr (ts @ [''linux''])"
      by (simp add: conjuncts_and_all ts comp_def)
    have "card (expr_String ` set (map TagExpr (ts @ [''linux'']))) = card (set (ts @ [''linux'']))"
      by (simp add: image_image)
    also have "\<dots> = Suc maxSize" using assms(1,3,4) distinct_card [of ts] by simp
    finally show "maxSize < card (expr_String ` set (concat (map conjuncts
        (?e # filenameBuildConstraints ''trace_linux.go'' knownOS knownArch))))" unfolding name c by simp
    have "plain_tag ''linux''" by (simp add: plain_tag_def tag_char_def)
    then show "\<forall>e\<in>set (?e # filenameBuildConstraints ''trace_linux.go'' knownOS knownArch). printable e"
      using plain unfolding name by (simp add: printable_def)
  qed
  ultimately show ?thesis by blast
qed


section \<open>Examples\<close>

lemma length_customTags: "length (customTags es knownOS knownArch) \<le> card (all_tags es)"
proof -
  have "distinct (customTags es knownOS knownArch)" by (simp add: customTags_def)
  then have "length (customTags es knownOS knownArch) = card (set (customTags es knownOS knownArch))"
    by (simp add: distinct_card)
  also have "\<dots> \<le> card (all_tags es)" by (rule card_mono) (auto simp: set_customTags finite_all_tags)
  finally show ?thesis .
qed

definition gen_host :: host where
  "gen_host = \<lparr>native = LittleEndian, int64 = True, letter_rune = \<lambda>_. False, digit_rune = \<lambda>_. False\<rparr>"

definition demo_targets :: "build_target list" where
  "demo_targets = [\<lparr>goos = ''linux'', goarch = ''amd64''\<rparr>, \<lparr>goos = ''windows'', goarch = ''arm64''\<rparr>]"

lemma demo_constraints:
  "parseBuildConstraint h ''linux && amd64'' = Inr (Some (AndExpr (TagExpr ''linux'') (TagExpr ''amd64'')))"
  "parseBuildConstraint h ''linux'' = Inr (Some (TagExpr ''linux''))"
  "parseBuildConstraint h ''windows'' = Inr (Some (TagExpr ''windows''))"
proof -
  have tags: "plain_tag ''linux''" "plain_tag ''amd64''" "plain_tag ''windows''"
    by (simp_all add: plain_tag_def tag_char_def)
  have lex: "lexExpr h (expr_String e) = Some (toks e)" if "\<forall>t\<in>expr_tags e. plain_tag t" for e
    using lexExpr_String [OF that, of h] unfolding lexes_def by (metis append_Nil2 delimited_simps(1) lexExpr.simps(1) option.simps(9))
  have "lexExpr h ''linux && amd64'' = Some [TokTag ''linux'', TokAnd, TokTag ''amd64'']"
    "lexExpr h ''linux'' = Some [TokTag ''linux'']" "lexExpr h ''windows'' = Some [TokTag ''windows'']"
    using lex [of "AndExpr (TagExpr ''linux'') (TagExpr ''amd64'')"] lex [of "TagExpr ''linux''"] lex [of "TagExpr ''windows''"] tags
    by (simp_all add: expr_context and_text_def context_ops and_toks_def)
  then show "parseBuildConstraint h ''linux && amd64'' = Inr (Some (AndExpr (TagExpr ''linux'') (TagExpr ''amd64'')))"
    "parseBuildConstraint h ''linux'' = Inr (Some (TagExpr ''linux''))"
    "parseBuildConstraint h ''windows'' = Inr (Some (TagExpr ''windows''))"
    by (simp_all add: parseBuildConstraint_def parseExpr_def maxSize_def parseTokens.simps)
qed

theorem constraintImplies_exact_witness:
  "constraintImplies gen_host ''linux && amd64'' ''linux'' demo_targets {''linux'', ''windows''} {''amd64'', ''arm64''} = Inr True"
proof -
  let ?es = "[Some (AndExpr (TagExpr ''linux'') (TagExpr ''amd64'')), Some (TagExpr ''linux'')]"
  have "card (all_tags ?es) \<le> 2" by (simp add: all_tags_def card_insert_if)
  then have "length (customTags ?es {''linux'', ''windows''} {''amd64'', ''arm64''}) \<le> 20"
    using length_customTags [of ?es "{''linux'', ''windows''}" "{''amd64'', ''arm64''}"] by linarith
  then show ?thesis
    using constraintImplies_exact [OF demo_constraints(1,2), of gen_host demo_targets "{''linux'', ''windows''}" "{''amd64'', ''arm64''}"]
    by (simp add: demo_targets_def matches_def)
qed

theorem constraintsOverlap_exact_witness:
  "constraintsOverlap gen_host ''linux && amd64'' ''windows'' demo_targets {''linux'', ''windows''} {''amd64'', ''arm64''} = Inr False"
proof -
  let ?es = "[Some (AndExpr (TagExpr ''linux'') (TagExpr ''amd64'')), Some (TagExpr ''windows'')]"
  have "set (customTags ?es {''linux'', ''windows''} {''amd64'', ''arm64''}) = {}"
    by (auto simp: set_customTags all_tags_def)
  then have "customTags ?es {''linux'', ''windows''} {''amd64'', ''arm64''} = []" by simp
  then show ?thesis
    using constraintsOverlap_exact [OF demo_constraints(1,3), of gen_host demo_targets "{''linux'', ''windows''}" "{''amd64'', ''arm64''}"]
    by (auto simp: demo_targets_def matches_def evaluateTag_def targetMatchesOSBuildTag_def)
qed

theorem combine_meaning_witness:
  "\<exists>x. parseBuildConstraint gen_host (combineBuildConstraints
      [AndExpr (TagExpr ''linux'') (NotExpr (TagExpr ''arm'')), TagExpr ''linux'']) = Inr (Some x) \<and>
    (\<forall>ok. Eval x ok \<longleftrightarrow> ok ''linux'' \<and> \<not> ok ''arm'')"
proof -
  let ?es = "[AndExpr (TagExpr ''linux'') (NotExpr (TagExpr ''arm'')), TagExpr ''linux'']"
  have "\<forall>e\<in>set ?es. printable e" by (simp add: printable_def plain_tag_def tag_char_def)
  moreover have "sum_list (map and_cost (concat (map conjuncts ?es))) \<le> maxSize"
    by (simp add: and_cost_def cost.simps maxSize_def)
  ultimately show ?thesis using combine_meaning [of ?es gen_host] by auto
qed

text \<open>A thousand tags.\<close>

definition demo_tags :: "string list" where
  "demo_tags = map (\<lambda>i. replicate (Suc i) CHR ''a'') [0..<maxSize]"

theorem combined_limit_panics_witness:
  "\<exists>e x. e = foldl AndExpr (TagExpr (hd demo_tags)) (map TagExpr (tl demo_tags)) \<and> parseExpr gen_host (expr_String e) = Some x \<and>
    parseBuildConstraint gen_host (combineBuildConstraints (e # filenameBuildConstraints ''trace_linux.go'' {''linux''} {''amd64''})) = Inl Fault"
proof (rule combined_limit_panics)
  show "distinct demo_tags" by (simp add: demo_tags_def distinct_map inj_on_def replicate_eq_replicate)
  show "\<forall>t\<in>set demo_tags. plain_tag t" by (auto simp: demo_tags_def plain_tag_def tag_char_def list_all_iff)
  show "length demo_tags = maxSize" by (simp add: demo_tags_def)
  have "CHR ''l'' \<in> set ''linux''" by simp
  moreover have "CHR ''l'' \<notin> set t" if "t \<in> set demo_tags" for t using that by (auto simp: demo_tags_def)
  ultimately show "''linux'' \<notin> set demo_tags" by blast
qed simp_all

end
