(* ===== verification/Spec2Isabelle.thy ===== *)
theory Spec2Isabelle imports RoundTrip Materialize Event ProviderSystem Lifecycle TracefsDecode PerfEventDesc PerfKnown PerfNoPanic PerfMerge FormatText GenRollback GenConstraint begin

text \<open>
  LinuxTracepoints-Go writes user events to Linux (\<open>userevents\<close>, \<open>eventheader\<close>), reads recorded events
  (\<open>perfdata\<close>, \<open>tracefs\<close>, \<open>eventheader/decode\<close>) and generates the code of typed events
  (\<open>cmd/eventheader-gen\<close>). This library models these parts and proves what makes them correct.

  The parts and how they interact. A producer names a tracepoint, describes its fields and encodes
  their values, either with a \<open>Builder\<close> or with a \<open>Schema\<close> and a \<open>Binding\<close>, and writes the bytes
  through an \<open>EventSet\<close> and its \<open>Registration\<close> to the kernel's data file. A \<open>Provider\<close> caches the
  event sets. A perf.data file or stream then holds these bytes as the payload of sample records: a
  \<open>Reader\<close> finds the descriptor of each record in its table, takes the record apart and hands the
  payload to the decoder of tracefs formats or to that of EventHeader events; a \<open>MergedReader\<close> merges
  several readers by time.

  \<^bold>\<open>Foundations.\<close>
  \<^item> \<open>Prelude\<close>: results (\<open>failure + 'a\<close>: a value, a returned error \<open>Fail\<close> or a run-time panic
    \<open>Fault\<close>), checked reads of slices, the two byte orders behind one locale, and the \<open>host\<close>, the
    parameter of everything that depends on the platform: byte order, width of \<open>int\<close>, and the letters
    and digits of Unicode beyond ASCII.
  \<^item> \<open>GoText\<close>: what the code uses of \<open>unicode/utf8\<close>, \<open>strings\<close> and \<open>strconv\<close>. \<open>GoState\<close>: operations on
    a state that an error leaves changed, with the locale \<open>state_invariant\<close> of their program logic.

  \<^bold>\<open>Producing events\<close> (src/eventheader, src/userevents).
  \<^item> \<open>Wire\<close> (enums.go), \<open>Names\<close> (name.go and the name parser of decode/parse.go), \<open>Builder\<close>,
    \<open>BuilderApi\<close> (builder.go), \<open>Schema\<close> (schema.go), \<open>Binding\<close> (binding.go), \<open>EventSet\<close>
    (eventset.go), \<open>Event\<close> (event.go), \<open>Provider\<close> (provider.go). The record of a component has the
    fields of the struct; a pointer that is shared is an index into a list of objects.
  \<^item> \<open>UserEvents\<close> (userevents.go), \<open>Registration\<close>, \<open>Lifecycle\<close> and \<open>MountInfo\<close> (userevents_linux.go).
    The answers of the kernel and of the file system are parameters.
  \<^item> \<open>BuilderSpec\<close> is the abstract specification of an event, a tree of fields, which the builder
    refines. \<open>SchemaEquiv\<close> shows that both producers write the same bytes. \<open>ProviderSystem\<close> is the
    system of a provider and its file under any sequence of calls.
  \<^item> The interface between event sets and registrations is the locale \<open>event_registration\<close>, extended
    by \<open>set_creator\<close> for what a provider needs; both are interpreted on the model of \<open>userevents\<close>.

  \<^bold>\<open>Reading events\<close> (src/eventheader/decode, src/tracefs, src/tracepoint, src/perfdata).
  \<^item> \<open>Parse\<close> (types.go, parse.go), \<open>Value\<close> (value.go), \<open>Enumerator\<close> (enumerator.go),
    \<open>Materialize\<close> (decode.go); \<open>RoundTrip\<close> connects the builder with the parser.
  \<^item> \<open>Tracepoint\<close> (model.go, errors.go); \<open>FormatDecl\<close> (declaration.go), \<open>FormatParse\<close> (format.go),
    \<open>TracefsDecode\<close> (decode.go); \<open>FormatText\<close> prints format files for the round trip.
  \<^item> \<open>PerfTypes\<close> (types.go), \<open>PerfAttr\<close> (clock.go, attr.go), \<open>PerfTracing\<close> (tracing.go), \<open>PerfOpen\<close>
    (open.go), \<open>PerfSample\<close>, \<open>PerfRecords\<close>, \<open>PerfReader\<close> (records.go), \<open>PerfMerge\<close> (merge.go).
  \<^item> \<open>PerfTable\<close> is the invariant of the table of descriptors; \<open>PerfWire\<close>, \<open>PerfSuffix\<close>, \<open>PerfKnown\<close>
    and \<open>PerfEventDesc\<close> are the layouts the kernel writes, with their round trips; \<open>PerfSafe\<close> and
    \<open>PerfNoPanic\<close> carry the invariant through decoding, opening and reading. The merge uses a reader
    through the locale \<open>record_source\<close>.

  \<^bold>\<open>The generator\<close> (src/cmd/eventheader-gen/internal/generator).
  \<^item> \<open>GenOutput\<close> (outputlock.go, outputlock_unix.go, outputreplace_linux.go and \<open>writeOutput\<close> in
    generator.go), \<open>GenRollback\<close> (outputreplace_rollback.go): the replacement of the output file, one
    atomic step for each system call, among the acts of other processes and any failures.
  \<^item> \<open>GenExpr\<close> is what the generator uses of \<open>go/build/constraint\<close>, \<open>GenConstraint\<close> the combination and
    the comparison of build constraints.

  \<^bold>\<open>What the lemmas show.\<close> Round trips, from what the producer, the kernel or perf writes to what is read;
  equivalence of the two producers, and of the merge with a stable sort; refinement of the event
  specification; invariants of the builder, the iterator, the data file, the provider and the
  descriptor table in every reachable state; absence of panics for any input; the outcome of every
  operation that can fail; safety and progress of the concurrent use of a registration; that the
  generator keeps the newest file and decides build constraints exactly. Six properties prove behaviour that the code does not intend: the
  overlapping calls of \<open>Close\<close>, the unreachable branch for dynamic text, the narrowed limit on IDs, the
  record lost to \<open>io.EOF\<close>, the third race with the replacement of an output, and the panic on a
  combined constraint that exceeds the parser's limit.

  \<^bold>\<open>Bounds.\<close> No definition has fuel. Loops over input are total by their measures: what is left of the
  input, the transitions that the limits of the iterator allow, the bytes that every record takes.
  The loop that takes the lock of the output may run for ever, and so may a call of \<open>flock\<close> that is
  always interrupted: both are partial functions, and their return is a theorem. The parser of build
  constraints is a partial function too, and shown to return every printed expression within the
  size limit of 1000 operands. The rollback has eight rounds, as in the code. \<open>Lifecycle\<close> assumes fewer than \<open>2^61\<close> goroutines, since the state word counts them in steps of
  four. Absence of panics in \<open>perfdata\<close> assumes a 64-bit \<open>int\<close>; a 32-bit host can panic. Inputs are
  finite, and positions in them are unbounded integers, which an \<open>int64\<close> holds for fewer than \<open>2^63\<close>
  bytes. The order in which Go visits a map is a parameter where it matters.

  \<^bold>\<open>Not modelled.\<close>
  \<^item> The texts of errors, beyond the error value that \<open>errors.Is\<close> finds, and nil receivers.
  \<^item> The accessors of \<open>perfdata\<close> and the clones of \<open>tracepoint\<close>, which copy values that nothing aliases
    here.
  \<^item> The stubs for other platforms and the numbers of the \<open>ioctl\<close> requests.
  \<^item> In the generator, the analysis of syntax trees and types, the processes of the go command and the
    rendering: they work on the data of \<open>go/ast\<close> and \<open>go/types\<close>, which are not part of the repository.
  \<^item> The generated fixtures under src/internal/eventheaderfixture.
\<close>

end
